(* ===== verification/Mimic_Prelude.thy ===== *)
theory Mimic_Prelude
  imports Main "HOL-Library.Word" "HOL-Library.Char_ord" "HOL-Library.List_Lexorder"
    "HOL-Library.Multiset"
begin

text \<open>
  The shared vocabulary of the MIMIC development.

  Rust's \<open>u8\<close> is Isabelle's 8-bit \<^typ>\<open>char\<close>, so a \<open>Vec<u8>\<close>, a \<open>&str\<close> and a
  \<open>String\<close> are all a list of bytes (\<open>str\<close>, the UTF-8 encoding), and the source's byte
  indices and slices mean the same in the model. A Rust \<open>char\<close> (one Unicode scalar value)
  is the byte group that encodes it (\<open>rchar\<close>); \<open>chars\<close> is the iteration order of
  \<open>str::chars\<close>. The theory holds the standard-library functions the components call
  (UTF-8 decoding with replacement, \<open>split\<close>, \<open>trim\<close>, number parsing and printing),
  the ordered map \<open>BTreeMap\<close> with the interface it promises, and generic list lemmas.
\<close>

unbundle bit_operations_syntax

type_synonym byte = char
type_synonym str = "char list"
type_synonym rchar = "char list"
type_synonym u32 = "32 word"
type_synonym i64 = "64 word"

abbreviation u8 :: "byte \<Rightarrow> nat" where
  "u8 b \<equiv> of_char b"

text \<open>Collections the components add to: facts about well-formed states, and frame equations.\<close>

named_theorems wf_intros \<open>operations preserve the component's well-formedness\<close>
named_theorems frame_simps \<open>what an operation leaves unchanged\<close>

section \<open>Byte and character classes\<close>

definition is_continuation :: "byte \<Rightarrow> bool" where
  "is_continuation b \<longleftrightarrow> u8 b AND 0xC0 = 0x80"

definition is_ascii_whitespace :: "byte \<Rightarrow> bool" where
  "is_ascii_whitespace b \<longleftrightarrow> b \<in> {CHR '' '', CHR 0x09, CHR 0x0A, CHR 0x0C, CHR 0x0D}"

definition is_ascii_digit :: "byte \<Rightarrow> bool" where
  "is_ascii_digit b \<longleftrightarrow> 48 \<le> u8 b \<and> u8 b \<le> 57"

definition is_ascii_alpha :: "byte \<Rightarrow> bool" where
  "is_ascii_alpha b \<longleftrightarrow> 65 \<le> u8 b \<and> u8 b \<le> 90 \<or> 97 \<le> u8 b \<and> u8 b \<le> 122"

definition is_ascii_alnum :: "byte \<Rightarrow> bool" where
  "is_ascii_alnum b \<longleftrightarrow> is_ascii_alpha b \<or> is_ascii_digit b"

text \<open>
  \<open>char::is_whitespace\<close> is the Unicode property White\_Space: U+0009..U+000D, U+0020,
  U+0085, U+00A0, U+1680, U+2000..U+200A, U+2028, U+2029, U+202F, U+205F and U+3000, each
  given by its UTF-8 encoding. \<open>char::is_control\<close> is the category Cc: U+0000..U+001F and
  U+007F..U+009F.
\<close>

definition is_whitespace :: "rchar \<Rightarrow> bool" where
  "is_whitespace c = (case c of
      [a] \<Rightarrow> 9 \<le> u8 a \<and> u8 a \<le> 13 \<or> a = CHR '' ''
    | [a, b] \<Rightarrow> a = CHR 0xC2 \<and> (b = CHR 0x85 \<or> b = CHR 0xA0)
    | [a, b, d] \<Rightarrow>
        a = CHR 0xE1 \<and> b = CHR 0x9A \<and> d = CHR 0x80
        \<or> a = CHR 0xE2 \<and> b = CHR 0x80 \<and>
            (0x80 \<le> u8 d \<and> u8 d \<le> 0x8A \<or> d = CHR 0xA8 \<or> d = CHR 0xA9 \<or> d = CHR 0xAF)
        \<or> a = CHR 0xE2 \<and> b = CHR 0x81 \<and> d = CHR 0x9F
        \<or> a = CHR 0xE3 \<and> b = CHR 0x80 \<and> d = CHR 0x80
    | _ \<Rightarrow> False)"

definition is_control :: "rchar \<Rightarrow> bool" where
  "is_control c = (case c of
      [a] \<Rightarrow> u8 a < 32 \<or> u8 a = 127
    | [a, b] \<Rightarrow> a = CHR 0xC2 \<and> 0x80 \<le> u8 b \<and> u8 b \<le> 0x9F
    | _ \<Rightarrow> False)"

section \<open>Characters of a string\<close>

lemma length_dropWhile_less_Suc [termination_simp]: "length (dropWhile P xs) < Suc (length xs)"
  by (simp add: length_dropWhile_le le_imp_less_Suc)

fun chars :: "str \<Rightarrow> rchar list" where
  "chars [] = []"
| "chars (b # bs) = (b # takeWhile is_continuation bs) # chars (dropWhile is_continuation bs)"

lemma concat_chars [simp]: "concat (chars s) = s"
  by (induction s rule: chars.induct) simp_all

lemma chars_not_Nil: "c \<in> set (chars s) \<Longrightarrow> c \<noteq> []"
  by (induction s rule: chars.induct) auto

lemma chars_eq_Nil [simp]: "chars s = [] \<longleftrightarrow> s = []"
  by (cases s) simp_all

lemma takeWhile_continuation_append:
  "(\<And>b. b \<in> set c \<Longrightarrow> is_continuation b) \<Longrightarrow> s = [] \<or> \<not> is_continuation (hd s)
   \<Longrightarrow> takeWhile is_continuation (c @ s) = c \<and> dropWhile is_continuation (c @ s) = s"
proof (induction c)
  case Nil
  then show ?case by (cases s) simp_all
qed simp

lemma ascii_not_continuation: "u8 b < 128 \<Longrightarrow> \<not> is_continuation b"
proof
  assume *: "u8 b < 128" "is_continuation b"
  have "bit (128::nat) 7" by (simp add: bit_iff_odd)
  then have "bit (u8 b AND 0xC0) 7" using *(2) by (simp only: is_continuation_def)
  then have "bit (u8 b) 7" by (simp add: bit_and_iff)
  with *(1) show False by (simp add: bit_iff_odd)
qed

section \<open>UTF-8 decoding with replacement\<close>

text \<open>
  \<open>String::from_utf8_lossy\<close>: \<open>utf8_step\<close> looks at the front of a byte slice and says how
  many bytes the next unit takes and whether they encode a scalar value (the table of
  well-formed byte sequences, with a missing byte read as 0). An ill-formed unit is
  replaced by U+FFFD (\<open>EF BF BD\<close>).
\<close>

definition byte_at :: "byte list \<Rightarrow> nat \<Rightarrow> nat" where
  "byte_at bs i = (if i < length bs then u8 (bs ! i) else 0)"

definition cont_at :: "byte list \<Rightarrow> nat \<Rightarrow> bool" where
  "cont_at bs i \<longleftrightarrow> 0x80 \<le> byte_at bs i \<and> byte_at bs i \<le> 0xBF"

definition utf8_step :: "byte list \<Rightarrow> nat \<times> bool" where
  "utf8_step bs =
     (let b = byte_at bs 0; c = byte_at bs 1 in
      if b < 0x80 then (1, True)
      else if 0xC2 \<le> b \<and> b \<le> 0xDF then
        (if cont_at bs 1 then (2, True) else (1, False))
      else if 0xE0 \<le> b \<and> b \<le> 0xEF then
        (if b = 0xE0 \<and> 0xA0 \<le> c \<and> c \<le> 0xBF
            \<or> 0xE1 \<le> b \<and> b \<le> 0xEC \<and> cont_at bs 1
            \<or> b = 0xED \<and> 0x80 \<le> c \<and> c \<le> 0x9F
            \<or> 0xEE \<le> b \<and> cont_at bs 1
         then (if cont_at bs 2 then (3, True) else (2, False))
         else (1, False))
      else if 0xF0 \<le> b \<and> b \<le> 0xF4 then
        (if b = 0xF0 \<and> 0x90 \<le> c \<and> c \<le> 0xBF
            \<or> 0xF1 \<le> b \<and> b \<le> 0xF3 \<and> cont_at bs 1
            \<or> b = 0xF4 \<and> 0x80 \<le> c \<and> c \<le> 0x8F
         then (if cont_at bs 2 then (if cont_at bs 3 then (4, True) else (3, False))
               else (2, False))
         else (1, False))
      else (1, False))"

definition replacement :: rchar where
  "replacement = [CHR 0xEF, CHR 0xBF, CHR 0xBD]"

lemma utf8_step_pos [simp]: "0 < fst (utf8_step bs)"
  by (simp add: utf8_step_def Let_def)

function from_utf8_lossy :: "byte list \<Rightarrow> str" where
  "from_utf8_lossy bs =
     (if bs = [] then []
      else (if snd (utf8_step bs) then take (fst (utf8_step bs)) bs else replacement)
           @ from_utf8_lossy (drop (fst (utf8_step bs)) bs))"
  by pat_completeness auto
termination
  by (relation "measure length") (simp_all add: diff_less)

function utf8_valid :: "byte list \<Rightarrow> bool" where
  "utf8_valid bs \<longleftrightarrow>
     (if bs = [] then True
      else if snd (utf8_step bs) then utf8_valid (drop (fst (utf8_step bs)) bs) else False)"
  by pat_completeness auto
termination
  by (relation "measure length") (simp_all add: diff_less)

declare from_utf8_lossy.simps [simp del] utf8_valid.simps [simp del]

lemma utf8_valid_Nil [simp]: "utf8_valid []"
  by (simp add: utf8_valid.simps)

lemma from_utf8_lossy_Nil [simp]: "from_utf8_lossy [] = []"
  by (simp add: from_utf8_lossy.simps)

lemma utf8_step_valid_length: "snd (utf8_step bs) \<Longrightarrow> bs \<noteq> [] \<Longrightarrow> fst (utf8_step bs) \<le> length bs"
  by (auto simp: utf8_step_def Let_def cont_at_def byte_at_def Suc_le_eq split: if_splits)

lemma utf8_step_1: "utf8_step bs = (1, True) \<longleftrightarrow> byte_at bs 0 < 0x80"
  by (simp add: utf8_step_def Let_def)

lemma utf8_step_2:
  "utf8_step bs = (2, True) \<longleftrightarrow> 0xC2 \<le> byte_at bs 0 \<and> byte_at bs 0 \<le> 0xDF \<and> cont_at bs 1"
  by (simp add: utf8_step_def Let_def)

lemma utf8_step_3:
  "utf8_step bs = (3, True) \<longleftrightarrow>
     0xE0 \<le> byte_at bs 0 \<and> byte_at bs 0 \<le> 0xEF
     \<and> (byte_at bs 0 = 0xE0 \<and> 0xA0 \<le> byte_at bs 1 \<and> byte_at bs 1 \<le> 0xBF
        \<or> 0xE1 \<le> byte_at bs 0 \<and> byte_at bs 0 \<le> 0xEC \<and> cont_at bs 1
        \<or> byte_at bs 0 = 0xED \<and> 0x80 \<le> byte_at bs 1 \<and> byte_at bs 1 \<le> 0x9F
        \<or> 0xEE \<le> byte_at bs 0 \<and> cont_at bs 1)
     \<and> cont_at bs 2"
  by (simp add: utf8_step_def Let_def)

lemma utf8_step_4:
  "utf8_step bs = (4, True) \<longleftrightarrow>
     0xF0 \<le> byte_at bs 0 \<and> byte_at bs 0 \<le> 0xF4
     \<and> (byte_at bs 0 = 0xF0 \<and> 0x90 \<le> byte_at bs 1 \<and> byte_at bs 1 \<le> 0xBF
        \<or> 0xF1 \<le> byte_at bs 0 \<and> byte_at bs 0 \<le> 0xF3 \<and> cont_at bs 1
        \<or> byte_at bs 0 = 0xF4 \<and> 0x80 \<le> byte_at bs 1 \<and> byte_at bs 1 \<le> 0x8F)
     \<and> cont_at bs 2 \<and> cont_at bs 3"
  by (simp add: utf8_step_def Let_def)

lemma utf8_step_append:
  assumes "snd (utf8_step bs)" "bs \<noteq> []"
  shows "utf8_step (take (fst (utf8_step bs)) bs @ r) = utf8_step bs"
proof -
  let ?n = "fst (utf8_step bs)"
  let ?c = "take ?n bs @ r"
  have len: "?n \<le> length bs" using utf8_step_valid_length [OF assms] .
  then have same: "byte_at ?c i = byte_at bs i" if "i < ?n" for i
    using that by (simp add: byte_at_def nth_append)
  then have cont: "cont_at ?c i = cont_at bs i" if "i < ?n" for i
    using that by (simp add: cont_at_def)
  have "?n \<in> {1, 2, 3, 4}" by (auto simp: utf8_step_def Let_def)
  then consider (1) "?n = 1" | (2) "?n = 2" | (3) "?n = 3" | (4) "?n = 4" by blast
  then show ?thesis
  proof cases
    case 1
    with assms(1) have "utf8_step bs = (1, True)" by (simp add: prod_eq_iff)
    with 1 same [of 0] have "utf8_step (take 1 bs @ r) = (1, True)" by (simp only: utf8_step_1)
    with 1 \<open>utf8_step bs = (1, True)\<close> show ?thesis by simp
  next
    case 2
    with assms(1) have "utf8_step bs = (2, True)" by (simp add: prod_eq_iff)
    with 2 same [of 0] cont [of 1] have "utf8_step (take 2 bs @ r) = (2, True)"
      by (simp add: utf8_step_2)
    with 2 \<open>utf8_step bs = (2, True)\<close> show ?thesis by simp
  next
    case 3
    with assms(1) have "utf8_step bs = (3, True)" by (simp add: prod_eq_iff)
    with 3 same [of 0] same [of 1] cont [of 1] cont [of 2]
    have "utf8_step (take 3 bs @ r) = (3, True)" by (simp add: utf8_step_3)
    with 3 \<open>utf8_step bs = (3, True)\<close> show ?thesis by simp
  next
    case 4
    with assms(1) have "utf8_step bs = (4, True)" by (simp add: prod_eq_iff)
    with 4 same [of 0] same [of 1] cont [of 1] cont [of 2] cont [of 3]
    have "utf8_step (take 4 bs @ r) = (4, True)" by (simp add: utf8_step_4)
    with 4 \<open>utf8_step bs = (4, True)\<close> show ?thesis by simp
  qed
qed

lemma utf8_step_replacement: "utf8_step (replacement @ r) = (3, True)"
  by (simp add: utf8_step_def replacement_def byte_at_def cont_at_def)

lemma utf8_valid_unit:
  assumes "utf8_valid r" and "utf8_step (c @ r) = (length c, True)"
  shows "utf8_valid (c @ r)"
  using assms by (subst utf8_valid.simps) simp

lemma utf8_valid_from_utf8_lossy: "utf8_valid (from_utf8_lossy bs)"
proof (induction bs rule: from_utf8_lossy.induct)
  case (1 bs)
  show ?case
  proof (cases "bs = []")
    case False
    let ?r = "from_utf8_lossy (drop (fst (utf8_step bs)) bs)"
    have IH: "utf8_valid ?r" using 1 False by simp
    show ?thesis
    proof (cases "snd (utf8_step bs)")
      case True
      have "utf8_step (take (fst (utf8_step bs)) bs @ ?r) = (length (take (fst (utf8_step bs)) bs), True)"
        using utf8_step_append [OF True False] utf8_step_valid_length [OF True False] True
        by (simp add: prod_eq_iff min_absorb2)
      with IH have "utf8_valid (take (fst (utf8_step bs)) bs @ ?r)" by (rule utf8_valid_unit)
      then show ?thesis using True False by (subst from_utf8_lossy.simps) simp
    next
      case nv: False
      have "utf8_valid (replacement @ ?r)"
        using IH utf8_step_replacement [of ?r]
        by (intro utf8_valid_unit) (simp_all add: replacement_def)
      then show ?thesis using nv False by (subst from_utf8_lossy.simps) simp
    qed
  qed simp
qed

lemma from_utf8_lossy_valid: "utf8_valid bs \<Longrightarrow> from_utf8_lossy bs = bs"
proof (induction bs rule: from_utf8_lossy.induct)
  case (1 bs)
  show ?case
  proof (cases "bs = []")
    case False
    then have "snd (utf8_step bs)" "utf8_valid (drop (fst (utf8_step bs)) bs)"
      using "1.prems" by (simp_all add: utf8_valid.simps [of bs] split: if_splits)
    then show ?thesis using 1 False by (subst from_utf8_lossy.simps) simp
  qed simp
qed

section \<open>Strings: prefixes, splitting, trimming\<close>

definition starts_with :: "str \<Rightarrow> str \<Rightarrow> bool" where
  "starts_with s p \<longleftrightarrow> take (length p) s = p"

definition strip_prefix :: "str \<Rightarrow> str \<Rightarrow> str option" where
  "strip_prefix p s = (if starts_with s p then Some (drop (length p) s) else None)"

fun split_on :: "byte \<Rightarrow> str \<Rightarrow> str list" where
  "split_on d [] = [[]]"
| "split_on d (c # cs) =
     (if c = d then [] # split_on d cs
      else (case split_on d cs of [] \<Rightarrow> [[c]] | w # ws \<Rightarrow> (c # w) # ws))"

fun join :: "str \<Rightarrow> str list \<Rightarrow> str" where
  "join d [] = []"
| "join d [w] = w"
| "join d (w # ws) = w @ d @ join d ws"

definition rfind :: "byte \<Rightarrow> str \<Rightarrow> nat option" where
  "rfind c s = (if c \<in> set s then Some (length s - 1 - length (takeWhile (\<lambda>b. b \<noteq> c) (rev s))) else None)"

definition trim_chars :: "rchar list \<Rightarrow> rchar list" where
  "trim_chars cs = rev (dropWhile is_whitespace (rev (dropWhile is_whitespace cs)))"

definition trim :: "str \<Rightarrow> str" where
  "trim s = concat (trim_chars (chars s))"

definition trim_end_slashes :: "str \<Rightarrow> str" where
  "trim_end_slashes nm = rev (dropWhile (\<lambda>b. b = CHR ''/'') (rev nm))"

lemma split_on_not_Nil [simp]: "split_on d s \<noteq> []"
  by (cases s) (auto split: list.splits)

lemma join_Cons: "ws \<noteq> [] \<Longrightarrow> join d (w # ws) = w @ d @ join d ws"
  by (cases ws) simp_all

lemma join_split_on: "join [d] (split_on d s) = s"
proof (induction s)
  case (Cons c cs)
  have "join [d] ((c # w) # ws) = c # join [d] (w # ws)" for w ws by (cases ws) simp_all
  with Cons show ?case by (cases "split_on d cs") (auto simp: join_Cons)
qed simp

lemma split_on_no_delim: "w \<in> set (split_on d s) \<Longrightarrow> d \<notin> set w"
proof (induction s arbitrary: w)
  case (Cons c cs)
  then show ?case by (cases "split_on d cs") (auto split: if_splits)
qed simp

lemma split_on_append_delim:
  "d \<notin> set w \<Longrightarrow> split_on d (w @ d # s) = w # split_on d s"
  by (induction w) auto

lemma split_on_single: "d \<notin> set w \<Longrightarrow> split_on d w = [w]"
  by (induction w) auto

lemma split_on_join:
  "ws \<noteq> [] \<Longrightarrow> (\<And>w. w \<in> set ws \<Longrightarrow> d \<notin> set w) \<Longrightarrow> split_on d (join [d] ws) = ws"
proof (induction "[d]" ws rule: join.induct)
  case (3 w v vs)
  then show ?case by (simp add: split_on_append_delim)
qed (simp_all add: split_on_single)

lemma starts_with_iff: "starts_with s p \<longleftrightarrow> (\<exists>r. s = p @ r)"
  by (metis append_eq_conv_conj append_take_drop_id starts_with_def)

lemma rfind_Some:
  assumes "rfind c s = Some i"
  shows "i < length s \<and> s ! i = c \<and> c \<notin> set (drop (Suc i) s)"
proof -
  from assms have c: "c \<in> set s" by (simp add: rfind_def split: if_splits)
  then obtain a b where s: "s = a @ c # b" "c \<notin> set b" by (metis split_list_last)
  then have "takeWhile (\<lambda>x. x \<noteq> c) (rev b @ c # rev a) = rev b"
    by (subst takeWhile_append2) auto
  with s have "rfind c s = Some (length a)" by (simp add: rfind_def)
  with assms s show ?thesis by simp
qed

lemma rfind_None: "rfind c s = None \<longleftrightarrow> c \<notin> set s"
  by (simp add: rfind_def)

lemma rfind_append: "c \<notin> set b \<Longrightarrow> rfind c (a @ c # b) = Some (length a)"
proof -
  assume "c \<notin> set b"
  then have "takeWhile (\<lambda>x. x \<noteq> c) (rev b @ c # rev a) = rev b"
    by (subst takeWhile_append2) auto
  then show ?thesis by (simp add: rfind_def)
qed

section \<open>Numbers: parsing and printing\<close>

definition digit_val :: "nat \<Rightarrow> byte \<Rightarrow> nat option" where
  "digit_val radix b =
     (let n = u8 b;
          v = (if 48 \<le> n \<and> n \<le> 57 then n - 48
               else if 97 \<le> n \<and> n \<le> 122 then n - 87
               else if 65 \<le> n \<and> n \<le> 90 then n - 55 else radix)
      in if v < radix then Some v else None)"

fun parse_digits :: "nat \<Rightarrow> nat \<Rightarrow> str \<Rightarrow> nat option" where
  "parse_digits radix acc [] = Some acc"
| "parse_digits radix acc (b # bs) =
     (case digit_val radix b of None \<Rightarrow> None | Some v \<Rightarrow> parse_digits radix (acc * radix + v) bs)"

text \<open>
  \<open>from_str_radix\<close> (and \<open>str::parse\<close>, radix 10): an optional sign (a minus only for a signed
  type), at least one digit, and an error when the value leaves the type's range.
\<close>

definition parse_unsigned :: "nat \<Rightarrow> nat \<Rightarrow> str \<Rightarrow> nat option" where
  "parse_unsigned bits radix s =
     (let ds = (case s of b # bs \<Rightarrow> if b = CHR ''+'' \<and> bs \<noteq> [] then bs else s | [] \<Rightarrow> [])
      in if ds = [] then None
         else case parse_digits radix 0 ds of
                None \<Rightarrow> None
              | Some n \<Rightarrow> if n < 2 ^ bits then Some n else None)"

definition parse_i64 :: "nat \<Rightarrow> str \<Rightarrow> i64 option" where
  "parse_i64 radix s =
     (case s of
        [] \<Rightarrow> None
      | b # bs \<Rightarrow>
          if b = CHR ''-'' \<and> bs \<noteq> [] then
            (case parse_digits radix 0 bs of
               None \<Rightarrow> None
             | Some n \<Rightarrow> if n \<le> 2 ^ 63 then Some (- of_nat n) else None)
          else
            (case parse_digits radix 0 (if b = CHR ''+'' \<and> bs \<noteq> [] then bs else s) of
               None \<Rightarrow> None
             | Some n \<Rightarrow> if n < 2 ^ 63 then Some (of_nat n) else None))"

fun show_nat :: "nat \<Rightarrow> str" where
  "show_nat n = (if n < 10 then [char_of (48 + n)] else show_nat (n div 10) @ [char_of (48 + n mod 10)])"

declare show_nat.simps [simp del]

definition show_int :: "int \<Rightarrow> str" where
  "show_int i = (if i < 0 then CHR ''-'' # show_nat (nat (- i)) else show_nat (nat i))"

text \<open>The width flags of \<open>format!\<close>: \<open>{:0w}\<close> and \<open>{:w}\<close> on a non-negative number.\<close>

definition pad_left :: "char \<Rightarrow> nat \<Rightarrow> str \<Rightarrow> str" where
  "pad_left c w s = replicate (w - length s) c @ s"

text \<open>\<open>{:x}\<close> of one digit.\<close>

definition hex_digit :: "nat \<Rightarrow> char" where
  "hex_digit n = (if n < 10 then char_of (48 + n) else char_of (87 + n))"

text \<open>\<open>{:x}\<close> of a number.\<close>

fun show_hex :: "nat \<Rightarrow> str" where
  "show_hex n = (if n < 16 then [hex_digit n] else show_hex (n div 16) @ [hex_digit (n mod 16)])"

declare show_hex.simps [simp del]

lemma digit_val_char_of: "d < 10 \<Longrightarrow> digit_val 10 (char_of (48 + d)) = Some d"
  by (simp add: digit_val_def)

lemma parse_digits_append:
  "parse_digits r acc (xs @ ys) =
     (case parse_digits r acc xs of None \<Rightarrow> None | Some n \<Rightarrow> parse_digits r n ys)"
  by (induction xs arbitrary: acc) (auto split: option.splits)

lemma parse_digits_show_nat: "parse_digits 10 0 (show_nat n) = Some n"
proof (induction n rule: show_nat.induct)
  case (1 n)
  show ?case
  proof (cases "n < 10")
    case True
    then show ?thesis by (subst show_nat.simps) (simp add: digit_val_char_of)
  next
    case False
    with 1 show ?thesis
      by (subst show_nat.simps) (simp add: parse_digits_append digit_val_char_of)
  qed
qed

lemma show_nat_not_Nil [simp]: "show_nat n \<noteq> []"
  by (subst show_nat.simps) simp

lemma show_nat_digits: "b \<in> set (show_nat n) \<Longrightarrow> is_ascii_digit b"
proof (induction n rule: show_nat.induct)
  case (1 n)
  then show ?case
    by (subst (asm) (2) show_nat.simps) (auto simp: is_ascii_digit_def split: if_splits)
qed

section \<open>Ordered maps\<close>

text \<open>
  \<open>BTreeMap\<close>: an association list kept sorted by key, so that iteration is in key order.
  A client relies on the map laws only; they are the locale \<open>ordered_map\<close>.
\<close>

type_synonym ('k, 'v) btree = "('k \<times> 'v) list"

definition bt_get :: "('k, 'v) btree \<Rightarrow> 'k \<Rightarrow> 'v option" where
  "bt_get m k = map_of m k"

fun bt_insert :: "'k::linorder \<Rightarrow> 'v \<Rightarrow> ('k, 'v) btree \<Rightarrow> ('k, 'v) btree" where
  "bt_insert k v [] = [(k, v)]"
| "bt_insert k v ((k', v') # m) =
     (if k < k' then (k, v) # (k', v') # m
      else if k = k' then (k, v) # m
      else (k', v') # bt_insert k v m)"

definition bt_remove :: "'k \<Rightarrow> ('k, 'v) btree \<Rightarrow> ('k, 'v) btree" where
  "bt_remove k m = filter (\<lambda>e. fst e \<noteq> k) m"

definition bt_ok :: "('k::linorder, 'v) btree \<Rightarrow> bool" where
  "bt_ok m \<longleftrightarrow> sorted_wrt (<) (map fst m)"

locale ordered_map =
  fixes empty :: "'m"
    and get :: "'m \<Rightarrow> 'k \<Rightarrow> 'v option"
    and ins :: "'k \<Rightarrow> 'v \<Rightarrow> 'm \<Rightarrow> 'm"
    and del :: "'k \<Rightarrow> 'm \<Rightarrow> 'm"
    and entries :: "'m \<Rightarrow> ('k \<times> 'v) list"
    and ok :: "'m \<Rightarrow> bool"
  assumes ok_empty: "ok empty"
    and get_empty: "get empty k = None"
    and ok_ins: "ok m \<Longrightarrow> ok (ins k v m)"
    and get_ins: "ok m \<Longrightarrow> get (ins k v m) k' = (if k' = k then Some v else get m k')"
    and ok_del: "ok m \<Longrightarrow> ok (del k m)"
    and get_del: "ok m \<Longrightarrow> get (del k m) k' = (if k' = k then None else get m k')"
    and get_entries: "ok m \<Longrightarrow> get m k = Some v \<longleftrightarrow> (k, v) \<in> set (entries m)"
begin

lemma entries_ins:
  "ok m \<Longrightarrow> (k', v') \<in> set (entries (ins k v m)) \<longleftrightarrow>
     (if k' = k then v' = v else (k', v') \<in> set (entries m))"
  by (simp flip: get_entries add: ok_ins get_ins) auto

lemma entries_del:
  "ok m \<Longrightarrow> (k', v') \<in> set (entries (del k m)) \<longleftrightarrow> k' \<noteq> k \<and> (k', v') \<in> set (entries m)"
  by (simp flip: get_entries add: ok_del get_del)

lemma entries_functional:
  "ok m \<Longrightarrow> (k, v) \<in> set (entries m) \<Longrightarrow> (k, v') \<in> set (entries m) \<Longrightarrow> v = v'"
  by (simp flip: get_entries)

end

lemma fst_set_bt_insert [simp]: "fst ` set (bt_insert k v m) = insert k (fst ` set m)"
  by (induction k v m rule: bt_insert.induct) auto

lemma bt_ok_insert: "bt_ok m \<Longrightarrow> bt_ok (bt_insert k v m)"
proof (induction k v m rule: bt_insert.induct)
  case (2 k v k' v' m)
  have "\<forall>x \<in> fst ` set m. k' < x" using "2.prems" by (simp add: bt_ok_def)
  with 2 show ?case
    using fst_set_bt_insert [of k v m] by (auto simp: bt_ok_def dest: order.strict_trans)
qed (simp add: bt_ok_def)

lemma bt_get_insert: "bt_ok m \<Longrightarrow> bt_get (bt_insert k v m) k' = (if k' = k then Some v else bt_get m k')"
  by (induction k v m rule: bt_insert.induct) (auto simp: bt_get_def bt_ok_def)

lemma bt_ok_remove: "bt_ok m \<Longrightarrow> bt_ok (bt_remove k m)"
  by (induction m) (auto simp: bt_ok_def bt_remove_def)

lemma bt_get_remove: "bt_get (bt_remove k m) k' = (if k' = k then None else bt_get m k')"
  by (induction m) (auto simp: bt_get_def bt_remove_def)

lemma bt_ok_distinct: "bt_ok m \<Longrightarrow> distinct (map fst m)"
  by (simp add: bt_ok_def strict_sorted_iff)

lemma bt_get_iff: "bt_ok m \<Longrightarrow> bt_get m k = Some v \<longleftrightarrow> (k, v) \<in> set m"
  by (simp add: bt_get_def bt_ok_distinct)

interpretation bt: ordered_map "[]" bt_get bt_insert bt_remove "\<lambda>m. m" bt_ok
proof
  show "bt_ok []" by (simp add: bt_ok_def)
  show "bt_get [] k = None" for k by (simp add: bt_get_def)
qed (simp_all add: bt_ok_insert bt_get_insert bt_ok_remove bt_get_remove bt_get_iff)

end
