(* ===== verification/Vfs_Nodes.thy ===== *)
theory Vfs_Nodes
  imports Mimic_Prelude
begin

text \<open>
  The node types of the virtual filesystem (\<open>src/vfs/nodes.rs\<close>): metadata with its Unix
  permission checks, the four node kinds, and a node of the arena. A directory's
  \<open>BTreeMap<String, NodeId>\<close> is a sorted association list; a dynamic file's generator
  reads the clock, so it is a function of the current time. \<open>clock::now()\<close> is an explicit
  argument \<open>now\<close> of every operation that stamps a node.
\<close>

type_synonym node_id = nat

definition S_IFDIR :: u32 where "S_IFDIR = 0x4000"
definition S_IFREG :: u32 where "S_IFREG = 0x8000"
definition S_IFLNK :: u32 where "S_IFLNK = 0xA000"
definition S_IFMT :: u32 where "S_IFMT = 0xF000"

text \<open>The octal permission constants of the source: \<open>0o7777\<close>, \<open>0o777\<close>, \<open>0o755\<close>, \<open>0o644\<close>.\<close>

abbreviation o7777 :: u32 where "o7777 \<equiv> 0xFFF"
abbreviation o777 :: u32 where "o777 \<equiv> 0x1FF"
abbreviation o755 :: u32 where "o755 \<equiv> 0x1ED"
abbreviation o644 :: u32 where "o644 \<equiv> 0x1A4"

record metadata =
  m_mode :: u32
  m_uid :: u32
  m_gid :: u32
  m_mtime :: int

definition metadata_new :: "int \<Rightarrow> u32 \<Rightarrow> u32 \<Rightarrow> u32 \<Rightarrow> u32 \<Rightarrow> metadata" where
  "metadata_new now file_type perms u g =
     \<lparr>m_mode = file_type OR (perms AND o7777), m_uid = u, m_gid = g, m_mtime = now\<rparr>"

definition is_dir :: "metadata \<Rightarrow> bool" where
  "is_dir m \<longleftrightarrow> m_mode m AND S_IFMT = S_IFDIR"

definition is_symlink :: "metadata \<Rightarrow> bool" where
  "is_symlink m \<longleftrightarrow> m_mode m AND S_IFMT = S_IFLNK"

definition readable_by :: "metadata \<Rightarrow> u32 \<Rightarrow> u32 \<Rightarrow> bool" where
  "readable_by m u g =
     (if u = 0 then True
      else if u = m_uid m then m_mode m AND 0x100 \<noteq> 0
      else if g = m_gid m then m_mode m AND 0x020 \<noteq> 0
      else m_mode m AND 0x004 \<noteq> 0)"

definition writable_by :: "metadata \<Rightarrow> u32 \<Rightarrow> u32 \<Rightarrow> bool" where
  "writable_by m u g =
     (if u = 0 then True
      else if u = m_uid m then m_mode m AND 0x080 \<noteq> 0
      else if g = m_gid m then m_mode m AND 0x010 \<noteq> 0
      else m_mode m AND 0x002 \<noteq> 0)"

definition executable_by :: "metadata \<Rightarrow> u32 \<Rightarrow> u32 \<Rightarrow> bool" where
  "executable_by m u g =
     (if u = 0 then True
      else if u = m_uid m then m_mode m AND 0x040 \<noteq> 0
      else if g = m_gid m then m_mode m AND 0x008 \<noteq> 0
      else m_mode m AND 0x001 \<noteq> 0)"

datatype node_kind =
    Directory "(str, node_id) btree"
  | File "byte list"
  | Symlink str
  | DynamicFile "int \<Rightarrow> byte list"

record node =
  n_name :: str
  n_parent :: "node_id option"
  n_kind :: node_kind
  n_meta :: metadata

definition file_bytes :: "int \<Rightarrow> node \<Rightarrow> byte list option" where
  "file_bytes now n = (case n_kind n of
      File c \<Rightarrow> Some c
    | DynamicFile g \<Rightarrow> Some (g now)
    | _ \<Rightarrow> None)"

section \<open>Mode words\<close>

lemma mode_parts:
  assumes "t AND S_IFMT = t"
  shows "(t OR (p AND o7777)) AND S_IFMT = t" and "(t OR (p AND o7777)) AND o7777 = p AND o7777"
proof -
  have disj: "o7777 AND S_IFMT = 0" "S_IFMT AND o7777 = 0" by (simp_all add: S_IFMT_def)
  have "(t OR (p AND o7777)) AND S_IFMT = (t AND S_IFMT) OR (p AND (o7777 AND S_IFMT))"
    by (simp only: bit.conj_disj_distrib2 and.assoc)
  then show "(t OR (p AND o7777)) AND S_IFMT = t" by (simp only: disj assms and_zero_eq or.right_neutral)
  have "(t OR (p AND o7777)) AND o7777 = (t AND o7777) OR (p AND (o7777 AND o7777))"
    by (simp only: bit.conj_disj_distrib2 and.assoc)
  moreover have "t AND o7777 = (t AND S_IFMT) AND o7777" by (simp only: assms)
  ultimately show "(t OR (p AND o7777)) AND o7777 = p AND o7777"
    by (simp only: and.assoc disj and_zero_eq and.idem or.left_neutral)
qed

lemma file_type_masks [simp]:
  "S_IFDIR AND S_IFMT = S_IFDIR" "S_IFREG AND S_IFMT = S_IFREG" "S_IFLNK AND S_IFMT = S_IFLNK"
  by (simp_all add: S_IFDIR_def S_IFREG_def S_IFLNK_def S_IFMT_def)

lemma metadata_new_type:
  "t AND S_IFMT = t \<Longrightarrow> m_mode (metadata_new now t p u g) AND S_IFMT = t"
  by (simp add: metadata_new_def mode_parts)

end
