(* ===== verification/Vfs.thy ===== *)
theory Vfs
  imports Vfs_Nodes
begin

text \<open>
  The virtual filesystem of \<open>src/vfs/mod.rs\<close>: an arena of nodes addressed by index, path
  resolution through symbolic links, and every mutation of the arena. This theory holds
  the operations; \<open>Vfs_Wf\<close> holds the invariant they keep and \<open>Vfs_Paths\<close> the laws of
  path resolution.

  Correspondence: \<open>self.nodes[id]\<close> is \<open>fs_nodes v ! id\<close> (an id out of range panics in
  the source; the invariant shows every stored and returned id is in range), a loop over
  \<open>0..nodes.len()\<close> recurses on that count, and the unbounded worklist of \<open>height_of\<close> is
  a \<open>partial_function\<close> whose \<open>None\<close> is non-termination. \<open>usize\<close> counters are \<open>nat\<close>: the
  caps keep them far below the word size.
\<close>

definition MAX_SYMLINK_DEPTH :: nat where "MAX_SYMLINK_DEPTH = 40"
definition MAX_VFS_NODES :: nat where "MAX_VFS_NODES = 2000"
definition MAX_VFS_BYTES :: nat where "MAX_VFS_BYTES = 8 * 1024 * 1024"
definition MAX_VFS_DEPTH :: nat where "MAX_VFS_DEPTH = 128"
definition MAX_COPY_DEPTH :: nat where "MAX_COPY_DEPTH = 64"

record vfs =
  fs_nodes :: "node list"
  fs_root :: node_id
  content_bytes :: nat

abbreviation fnode :: "vfs \<Rightarrow> node_id \<Rightarrow> node" where
  "fnode v i \<equiv> fs_nodes v ! i"

abbreviation fsize :: "vfs \<Rightarrow> nat" where
  "fsize v \<equiv> length (fs_nodes v)"

definition upd_node :: "vfs \<Rightarrow> node_id \<Rightarrow> (node \<Rightarrow> node) \<Rightarrow> vfs" where
  "upd_node v i f = v\<lparr>fs_nodes := (fs_nodes v)[i := f (fnode v i)]\<rparr>"

definition vfs_new :: "int \<Rightarrow> vfs" where
  "vfs_new now =
     \<lparr>fs_nodes = [\<lparr>n_name = [], n_parent = None, n_kind = Directory [],
                   n_meta = metadata_new now S_IFDIR o755 0 0\<rparr>],
      fs_root = 0, content_bytes = 0\<rparr>"

section \<open>Path resolution\<close>

definition parent_or_root :: "vfs \<Rightarrow> node_id \<Rightarrow> node_id" where
  "parent_or_root v i = (case n_parent (fnode v i) of Some p \<Rightarrow> p | None \<Rightarrow> fs_root v)"

function (sequential)
  resolve_inner :: "vfs \<Rightarrow> node_id \<Rightarrow> str \<Rightarrow> nat \<Rightarrow> node_id option"
and resolve_comps :: "vfs \<Rightarrow> node_id \<Rightarrow> str list \<Rightarrow> nat \<Rightarrow> node_id option"
and follow :: "vfs \<Rightarrow> node_id \<Rightarrow> nat \<Rightarrow> node_id option"
where
  "resolve_inner v start path depth =
     (if depth > MAX_SYMLINK_DEPTH then None
      else resolve_comps v (if starts_with path ''/'' then fs_root v else start)
             (split_on (CHR ''/'') path) depth)"
| "resolve_comps v current [] depth = Some current"
| "resolve_comps v current (seg # segs) depth =
     (if seg = [] \<or> seg = ''.'' then resolve_comps v current segs depth
      else if seg = ''..'' then resolve_comps v (parent_or_root v current) segs depth
      else (case n_kind (fnode v current) of
              Directory children \<Rightarrow>
                (case bt_get children seg of
                   None \<Rightarrow> None
                 | Some child \<Rightarrow>
                     (case follow v child depth of
                        None \<Rightarrow> None
                      | Some next \<Rightarrow> resolve_comps v next segs depth))
            | _ \<Rightarrow> None))"
| "follow v i depth =
     (case n_kind (fnode v i) of
        Symlink target \<Rightarrow> resolve_inner v (parent_or_root v i) target (depth + 1)
      | _ \<Rightarrow> Some i)"
  by pat_completeness auto
termination
  by (relation "measures
        [\<lambda>x. case x of Inl (_, _, _, d) \<Rightarrow> Suc MAX_SYMLINK_DEPTH - d
                     | Inr (Inl (_, _, _, d)) \<Rightarrow> Suc MAX_SYMLINK_DEPTH - d
                     | Inr (Inr (_, _, d)) \<Rightarrow> Suc MAX_SYMLINK_DEPTH - d,
         \<lambda>x. case x of Inl (_, _, _, d) \<Rightarrow> if d > MAX_SYMLINK_DEPTH then 0 else 3
                     | Inr (Inl _) \<Rightarrow> 2
                     | Inr (Inr _) \<Rightarrow> (1::nat),
         \<lambda>x. case x of Inl _ \<Rightarrow> 0 | Inr (Inl (_, _, cs, _)) \<Rightarrow> length cs | Inr (Inr _) \<Rightarrow> 0]")
     auto

definition resolve :: "vfs \<Rightarrow> node_id \<Rightarrow> str \<Rightarrow> node_id option" where
  "resolve v start path = resolve_inner v start path 0"

definition child :: "vfs \<Rightarrow> node_id \<Rightarrow> str \<Rightarrow> node_id option" where
  "child v dir nm = (case n_kind (fnode v dir) of
      Directory children \<Rightarrow> bt_get children nm
    | _ \<Rightarrow> None)"

definition entries :: "vfs \<Rightarrow> node_id \<Rightarrow> (str \<times> node_id) list option" where
  "entries v i = (case n_kind (fnode v i) of
      Directory children \<Rightarrow> Some children
    | _ \<Rightarrow> None)"

fun path_loop :: "vfs \<Rightarrow> nat \<Rightarrow> node_id \<Rightarrow> str list \<Rightarrow> str list" where
  "path_loop v 0 current parts = parts"
| "path_loop v (Suc k) current parts =
     (case n_parent (fnode v current) of
        None \<Rightarrow> parts
      | Some p \<Rightarrow> path_loop v k p (parts @ [n_name (fnode v current)]))"

definition path_of :: "vfs \<Rightarrow> node_id \<Rightarrow> str" where
  "path_of v i =
     (let parts = path_loop v (fsize v) i []
      in if parts = [] then ''/'' else ''/'' @ join ''/'' (rev parts))"

definition split_path :: "str \<Rightarrow> str \<times> str" where
  "split_path path = (case rfind (CHR ''/'') path of
      Some 0 \<Rightarrow> (''/'', drop 1 path)
    | Some i \<Rightarrow> (take i path, drop (i + 1) path)
    | None \<Rightarrow> (''.'', path))"

section \<open>Caps\<close>

function depth_loop :: "vfs \<Rightarrow> node_id \<Rightarrow> nat \<Rightarrow> nat" where
  "depth_loop v current depth =
     (case n_parent (fnode v current) of
        None \<Rightarrow> depth
      | Some p \<Rightarrow> if depth + 1 > fsize v then depth + 1 else depth_loop v p (depth + 1))"
  by pat_completeness auto
termination
  by (relation "measure (\<lambda>(v, _, d). Suc (fsize v) - d)") auto

declare depth_loop.simps [simp del]

definition depth_of :: "vfs \<Rightarrow> node_id \<Rightarrow> nat" where
  "depth_of v i = depth_loop v i 0"

definition is_full :: "vfs \<Rightarrow> node_id \<Rightarrow> bool" where
  "is_full v p \<longleftrightarrow> fsize v \<ge> MAX_VFS_NODES \<or> depth_of v p \<ge> MAX_VFS_DEPTH"

text \<open>The worklist of \<open>height_of\<close>: \<open>stack.pop()\<close> takes the entry pushed last.\<close>

definition push_children :: "vfs \<Rightarrow> node_id \<Rightarrow> nat \<Rightarrow> (node_id \<times> nat) list \<Rightarrow> (node_id \<times> nat) list" where
  "push_children v i h stack = (case n_kind (fnode v i) of
      Directory children \<Rightarrow> rev (map (\<lambda>e. (snd e, h + 1)) children) @ stack
    | _ \<Rightarrow> stack)"

partial_function (option) height_loop :: "vfs \<Rightarrow> (node_id \<times> nat) list \<Rightarrow> nat \<Rightarrow> nat option" where
  "height_loop v stack height =
     (case stack of
        [] \<Rightarrow> Some height
      | (i, h) # rest \<Rightarrow> height_loop v (push_children v i h rest) (max height h))"

definition height_of :: "vfs \<Rightarrow> node_id \<Rightarrow> nat option" where
  "height_of v i = height_loop v [(i, 0)] 0"

section \<open>Mutation\<close>

definition link_child :: "str \<Rightarrow> node_id \<Rightarrow> node \<Rightarrow> node" where
  "link_child nm i n = (case n_kind n of
      Directory children \<Rightarrow> n\<lparr>n_kind := Directory (bt_insert nm i children)\<rparr>
    | _ \<Rightarrow> n)"

definition unlink_child :: "str \<Rightarrow> node \<Rightarrow> node" where
  "unlink_child nm n = (case n_kind n of
      Directory children \<Rightarrow> n\<lparr>n_kind := Directory (bt_remove nm children)\<rparr>
    | _ \<Rightarrow> n)"

definition vfs_insert :: "vfs \<Rightarrow> node_id \<Rightarrow> str \<Rightarrow> node_kind \<Rightarrow> metadata \<Rightarrow> node_id \<times> vfs" where
  "vfs_insert v p nm k m =
     (if is_full v p then (p, v)
      else let i = fsize v;
               v1 = v\<lparr>fs_nodes := fs_nodes v @
                        [\<lparr>n_name = nm, n_parent = Some p, n_kind = k, n_meta = m\<rparr>]\<rparr>
           in (i, upd_node v1 p (link_child nm i)))"

definition mkdir :: "int \<Rightarrow> vfs \<Rightarrow> node_id \<Rightarrow> str \<Rightarrow> u32 \<Rightarrow> u32 \<Rightarrow> u32 \<Rightarrow> node_id \<times> vfs" where
  "mkdir now v p nm perms u g =
     (case child v p nm of
        Some existing \<Rightarrow> (existing, v)
      | None \<Rightarrow> vfs_insert v p nm (Directory []) (metadata_new now S_IFDIR perms u g))"

definition file_len :: "node \<Rightarrow> nat" where
  "file_len n = (case n_kind n of File c \<Rightarrow> length c | _ \<Rightarrow> 0)"

definition add_file ::
  "int \<Rightarrow> vfs \<Rightarrow> node_id \<Rightarrow> str \<Rightarrow> byte list \<Rightarrow> u32 \<Rightarrow> u32 \<Rightarrow> u32 \<Rightarrow> node_id \<times> vfs" where
  "add_file now v p nm c perms u g =
     (let existing = child v p nm;
          old_len = (case existing of Some i \<Rightarrow> file_len (fnode v i) | None \<Rightarrow> 0)
      in if content_bytes v - old_len + length c > MAX_VFS_BYTES
         then (case existing of Some i \<Rightarrow> (i, v) | None \<Rightarrow> (p, v))
         else let m = metadata_new now S_IFREG perms u g in
           case existing of
             Some i \<Rightarrow>
               (i, (upd_node v i (\<lambda>n. n\<lparr>n_kind := File c, n_meta := m\<rparr>))
                     \<lparr>content_bytes := content_bytes v - old_len + length c\<rparr>)
           | None \<Rightarrow>
               (let (i, v') = vfs_insert v p nm (File c) m
                in (i, if i \<noteq> p then v'\<lparr>content_bytes := content_bytes v' + length c\<rparr> else v')))"

definition add_dynamic_file ::
  "int \<Rightarrow> vfs \<Rightarrow> node_id \<Rightarrow> str \<Rightarrow> (int \<Rightarrow> byte list) \<Rightarrow> u32 \<Rightarrow> u32 \<Rightarrow> u32 \<Rightarrow> node_id \<times> vfs" where
  "add_dynamic_file now v p nm gen perms u g =
     (let m = metadata_new now S_IFREG perms u g in
      case child v p nm of
        Some i \<Rightarrow> (i, upd_node v i (\<lambda>n. n\<lparr>n_kind := DynamicFile gen, n_meta := m\<rparr>))
      | None \<Rightarrow> vfs_insert v p nm (DynamicFile gen) m)"

definition write_file :: "int \<Rightarrow> vfs \<Rightarrow> node_id \<Rightarrow> byte list \<Rightarrow> bool \<Rightarrow> bool \<times> vfs" where
  "write_file now v i bs app =
     (case n_kind (fnode v i) of
        File c \<Rightarrow>
          (let old_len = length c;
               new_len = (if app then old_len + length bs else length bs)
           in if content_bytes v - old_len + new_len > MAX_VFS_BYTES then (False, v)
              else (True,
                    (upd_node v i (\<lambda>n. n\<lparr>n_kind := File (if app then c @ bs else bs),
                                         n_meta := (n_meta n)\<lparr>m_mtime := now\<rparr>\<rparr>))
                      \<lparr>content_bytes := content_bytes v - old_len + new_len\<rparr>))
      | _ \<Rightarrow> (False, v))"

definition add_symlink :: "int \<Rightarrow> vfs \<Rightarrow> node_id \<Rightarrow> str \<Rightarrow> str \<Rightarrow> node_id \<times> vfs" where
  "add_symlink now v p nm target =
     (case child v p nm of
        Some existing \<Rightarrow> (existing, v)
      | None \<Rightarrow> vfs_insert v p nm (Symlink target) (metadata_new now S_IFLNK o777 0 0))"

fun mkdir_p_loop ::
  "int \<Rightarrow> vfs \<Rightarrow> node_id \<Rightarrow> str list \<Rightarrow> u32 \<Rightarrow> u32 \<Rightarrow> u32 \<Rightarrow> node_id option \<times> vfs" where
  "mkdir_p_loop now v current [] perms u g = (Some current, v)"
| "mkdir_p_loop now v current (seg # segs) perms u g =
     (if seg = [] \<or> seg = ''.'' then mkdir_p_loop now v current segs perms u g
      else let (next, v') = mkdir now v current seg perms u g
           in if next = current then (None, v')
              else mkdir_p_loop now v' next segs perms u g)"

definition mkdir_p :: "int \<Rightarrow> vfs \<Rightarrow> str \<Rightarrow> u32 \<Rightarrow> u32 \<Rightarrow> u32 \<Rightarrow> node_id option \<times> vfs" where
  "mkdir_p now v path perms u g =
     mkdir_p_loop now v (fs_root v) (split_on (CHR ''/'') path) perms u g"

definition set_mtime :: "vfs \<Rightarrow> node_id \<Rightarrow> int \<Rightarrow> vfs" where
  "set_mtime v i t = upd_node v i (\<lambda>n. n\<lparr>n_meta := (n_meta n)\<lparr>m_mtime := t\<rparr>\<rparr>)"

definition touch :: "int \<Rightarrow> vfs \<Rightarrow> node_id \<Rightarrow> str \<Rightarrow> u32 \<Rightarrow> u32 \<Rightarrow> node_id \<times> vfs" where
  "touch now v p nm u g =
     (case child v p nm of
        Some existing \<Rightarrow> (existing, set_mtime v existing now)
      | None \<Rightarrow> (let (i, v') = add_file now v p nm [] o644 u g in (i, set_mtime v' i now)))"

definition set_all_mtimes :: "vfs \<Rightarrow> int \<Rightarrow> vfs" where
  "set_all_mtimes v ts =
     v\<lparr>fs_nodes := map (\<lambda>n. n\<lparr>n_meta := (n_meta n)\<lparr>m_mtime := ts\<rparr>\<rparr>) (fs_nodes v)\<rparr>"

definition chmod :: "vfs \<Rightarrow> node_id \<Rightarrow> u32 \<Rightarrow> vfs" where
  "chmod v i perms = upd_node v i (\<lambda>n. n\<lparr>n_meta :=
     (n_meta n)\<lparr>m_mode := (m_mode (n_meta n) AND S_IFMT) OR (perms AND o7777)\<rparr>\<rparr>)"

definition chown :: "vfs \<Rightarrow> node_id \<Rightarrow> u32 \<Rightarrow> u32 \<Rightarrow> vfs" where
  "chown v i u g = upd_node v i (\<lambda>n. n\<lparr>n_meta := (n_meta n)\<lparr>m_uid := u, m_gid := g\<rparr>\<rparr>)"

definition unlink :: "vfs \<Rightarrow> node_id \<Rightarrow> str \<Rightarrow> node_id option \<times> vfs" where
  "unlink v p nm = (child v p nm, upd_node v p (unlink_child nm))"

fun ancestor_loop :: "vfs \<Rightarrow> nat \<Rightarrow> node_id \<Rightarrow> node_id option \<Rightarrow> bool" where
  "ancestor_loop v 0 i current = True"
| "ancestor_loop v (Suc k) i current =
     (case current of
        None \<Rightarrow> False
      | Some c \<Rightarrow> if c = i then True else ancestor_loop v k i (n_parent (fnode v c)))"

definition is_ancestor_of :: "vfs \<Rightarrow> node_id \<Rightarrow> node_id \<Rightarrow> bool" where
  "is_ancestor_of v i other = ancestor_loop v (fsize v) i (Some other)"

text \<open>The unconditional part of \<open>rename\<close>: detach from the old parent, clear the name, link.\<close>

definition relink :: "vfs \<Rightarrow> node_id \<Rightarrow> node_id \<Rightarrow> str \<Rightarrow> vfs" where
  "relink v i new_parent new_name =
     (let v1 = (case n_parent (fnode v i) of
                  Some old \<Rightarrow> upd_node v old (unlink_child (n_name (fnode v i)))
                | None \<Rightarrow> v);
          v2 = upd_node v1 new_parent (unlink_child new_name);
          v3 = upd_node v2 i (\<lambda>n. n\<lparr>n_name := new_name, n_parent := Some new_parent\<rparr>)
      in upd_node v3 new_parent (link_child new_name i))"

definition rename :: "vfs \<Rightarrow> node_id \<Rightarrow> node_id \<Rightarrow> str \<Rightarrow> (bool \<times> vfs) option" where
  "rename v i new_parent new_name =
     (case n_kind (fnode v new_parent) of
        Directory _ \<Rightarrow>
          if is_ancestor_of v i new_parent then Some (False, v)
          else (case height_of v i of
                  None \<Rightarrow> None
                | Some h \<Rightarrow>
                    if depth_of v new_parent + 1 + h > MAX_VFS_DEPTH then Some (False, v)
                    else Some (True, relink v i new_parent new_name))
      | _ \<Rightarrow> Some (False, v))"

function deep_copy_inner ::
  "int \<Rightarrow> vfs \<Rightarrow> node_id \<Rightarrow> node_id \<Rightarrow> str \<Rightarrow> nat \<Rightarrow> node_id \<times> vfs" where
  "deep_copy_inner now v src dst_parent dst_name depth =
     (if depth > MAX_COPY_DEPTH then (dst_parent, v)
      else let m = (n_meta (fnode v src))\<lparr>m_mtime := now\<rparr>; perms = m_mode m AND o7777 in
        case n_kind (fnode v src) of
          File c \<Rightarrow> add_file now v dst_parent dst_name c perms (m_uid m) (m_gid m)
        | DynamicFile gen \<Rightarrow>
            add_dynamic_file now v dst_parent dst_name gen perms (m_uid m) (m_gid m)
        | Symlink target \<Rightarrow>
            vfs_insert (snd (unlink v dst_parent dst_name)) dst_parent dst_name (Symlink target) m
        | Directory _ \<Rightarrow>
            (let (new_dir, v1) = mkdir now v dst_parent dst_name perms (m_uid m) (m_gid m);
                 children = (case entries v1 src of Some es \<Rightarrow> es | None \<Rightarrow> [])
             in (new_dir,
                 fold (\<lambda>(nm, c) w. snd (deep_copy_inner now w c new_dir nm (depth + 1)))
                      children v1)))"
  by pat_completeness auto
termination
  by (relation "measure (\<lambda>(_, _, _, _, _, d). Suc MAX_COPY_DEPTH - d)") auto

declare deep_copy_inner.simps [simp del]

definition deep_copy :: "int \<Rightarrow> vfs \<Rightarrow> node_id \<Rightarrow> node_id \<Rightarrow> str \<Rightarrow> node_id \<times> vfs" where
  "deep_copy now v src dst_parent dst_name = deep_copy_inner now v src dst_parent dst_name 0"

end
