(* ===== verification/Clock.thy ===== *)
theory Clock
  imports Mimic_Prelude "HOL-Library.Signed_Division"
begin

text \<open>
  The fake box's timeline (\<open>src/clock.rs\<close>): the anchors resolved once per process (each
  \<open>OnceLock\<close> is an optional field of the process state, the wall clock an argument), the
  conversion of unix seconds to a broken-down date, and the \<open>strftime\<close> printer. Seconds are
  integers: no intermediate value of \<open>gmtime\<close> leaves \<open>i64\<close>, since the day number is the
  seconds divided by 86,400. Division written \<open>/\<close> in Rust truncates (\<open>sdiv\<close>); \<open>div_euclid\<close>
  and \<open>rem_euclid\<close> by a positive constant are \<open>div\<close> and \<open>mod\<close>.
\<close>

definition BOOT_OFFSET_SECS :: int where "BOOT_OFFSET_SECS = 184860"
definition INSTALL_OFFSET_SECS :: int where "INSTALL_OFFSET_SECS = 95 * 86400"
definition PREV_LOGIN_OFFSET_SECS :: int where "PREV_LOGIN_OFFSET_SECS = 3720"
definition PREV_LOGIN_DURATION_SECS :: int where "PREV_LOGIN_DURATION_SECS = 1657"

section \<open>The anchors\<close>

record clock =
  c_boot :: "int option"
  c_install :: "int option"

definition clock_new :: clock where "clock_new = \<lparr>c_boot = None, c_install = None\<rparr>"

definition boot_time :: "int \<Rightarrow> clock \<Rightarrow> int \<times> clock" where
  "boot_time now c = (case c_boot c of
      Some b \<Rightarrow> (b, c)
    | None \<Rightarrow> (now - BOOT_OFFSET_SECS, c\<lparr>c_boot := Some (now - BOOT_OFFSET_SECS)\<rparr>))"

text \<open>\<open>uptime_secs\<close> reads the clock first and the anchor second (which may read it again).\<close>

definition uptime_secs :: "int \<Rightarrow> int \<Rightarrow> clock \<Rightarrow> int \<times> clock" where
  "uptime_secs now now' c = (case boot_time now' c of (b, c') \<Rightarrow> (max (now - b) 0, c'))"

definition install_time :: "int \<Rightarrow> clock \<Rightarrow> int \<times> clock" where
  "install_time now c = (case c_install c of
      Some i \<Rightarrow> (i, c)
    | None \<Rightarrow>
        (case boot_time now c of (b, c') \<Rightarrow>
           let ts = b - INSTALL_OFFSET_SECS; i = ts - ts mod 86400
           in (i, c'\<lparr>c_install := Some i\<rparr>)))"

definition prev_login :: "int \<Rightarrow> clock \<Rightarrow> (int \<times> int) \<times> clock" where
  "prev_login now c = (case boot_time now c of (b, c') \<Rightarrow>
      let start = b + PREV_LOGIN_OFFSET_SECS in ((start, start + PREV_LOGIN_DURATION_SECS), c'))"

section \<open>Broken-down time\<close>

record tm =
  year :: int
  month :: nat
  day :: nat
  hour :: nat
  minute :: nat
  sec :: nat
  wday :: nat
  yday :: nat

definition CUM :: "nat list" where
  "CUM = [0, 31, 59, 90, 120, 151, 181, 212, 243, 273, 304, 334]"

text \<open>The steps of the civil-date algorithm, named as in the code.\<close>

definition era_of :: "int \<Rightarrow> int" where
  "era_of z = (if z \<ge> 0 then z else z - 146096) sdiv 146097"

definition yoe_of :: "int \<Rightarrow> int" where
  "yoe_of doe = (doe - doe sdiv 1460 + doe sdiv 36524 - doe sdiv 146096) sdiv 365"

definition doy_of :: "int \<Rightarrow> int \<Rightarrow> int" where
  "doy_of doe yoe = doe - (365 * yoe + yoe sdiv 4 - yoe sdiv 100)"

definition mp_of :: "int \<Rightarrow> int" where "mp_of doy = (5 * doy + 2) sdiv 153"
definition day_of :: "int \<Rightarrow> int" where "day_of doy = doy - (153 * mp_of doy + 2) sdiv 5 + 1"
definition month_of :: "int \<Rightarrow> int" where
  "month_of doy = (if mp_of doy < 10 then mp_of doy + 3 else mp_of doy - 9)"

definition gmtime :: "int \<Rightarrow> tm" where
  "gmtime secs =
     (let days = secs div 86400;
          r = secs mod 86400;
          z = days + 719468;
          era = era_of z;
          doe = z - era * 146097;
          yoe = yoe_of doe;
          y = yoe + era * 400;
          doy = doy_of doe yoe;
          d = nat (day_of doy);
          m = nat (month_of doy);
          yr = (if m \<le> 2 then y + 1 else y);
          leap = (yr smod 4 = 0 \<and> yr smod 100 \<noteq> 0 \<or> yr smod 400 = 0)
      in \<lparr>year = yr, month = m, day = d,
          hour = nat (r sdiv 3600), minute = nat ((r smod 3600) sdiv 60), sec = nat (r smod 60),
          wday = nat ((days mod 7 + 4) smod 7),
          yday = CUM ! (m - 1) + (d - 1) + (if leap \<and> m > 2 then 1 else 0)\<rparr>)"

section \<open>Printing\<close>

definition WDAY :: "str list" where
  "WDAY = [''Sun'', ''Mon'', ''Tue'', ''Wed'', ''Thu'', ''Fri'', ''Sat'']"
definition WDAY_FULL :: "str list" where
  "WDAY_FULL = [''Sunday'', ''Monday'', ''Tuesday'', ''Wednesday'', ''Thursday'', ''Friday'', ''Saturday'']"
definition MON :: "str list" where
  "MON = [''Jan'', ''Feb'', ''Mar'', ''Apr'', ''May'', ''Jun'', ''Jul'', ''Aug'', ''Sep'', ''Oct'', ''Nov'', ''Dec'']"
definition MON_FULL :: "str list" where
  "MON_FULL = [''January'', ''February'', ''March'', ''April'', ''May'', ''June'', ''July'', ''August'',
     ''September'', ''October'', ''November'', ''December'']"

definition zeros :: "nat \<Rightarrow> nat \<Rightarrow> str" where
  "zeros w n = pad_left CHR ''0'' w (show_nat n)"

definition spaces :: "nat \<Rightarrow> nat \<Rightarrow> str" where
  "spaces w n = pad_left CHR '' '' w (show_nat n)"

text \<open>What one conversion specifier prints; \<open>other\<close> is any character the code does not list.\<close>

definition specifier :: "tm \<Rightarrow> int \<Rightarrow> rchar \<Rightarrow> str" where
  "specifier t epoch c =
     (if c = ''Y'' then show_int (year t)
      else if c = ''y'' then zeros 2 (nat (year t mod 100))
      else if c = ''m'' then zeros 2 (month t)
      else if c = ''d'' then zeros 2 (day t)
      else if c = ''e'' then spaces 2 (day t)
      else if c = ''H'' then zeros 2 (hour t)
      else if c = ''M'' then zeros 2 (minute t)
      else if c = ''S'' then zeros 2 (sec t)
      else if c = ''s'' then show_int epoch
      else if c = ''j'' then zeros 3 (yday t + 1)
      else if c = ''a'' then WDAY ! wday t
      else if c = ''A'' then WDAY_FULL ! wday t
      else if c = ''b'' \<or> c = ''h'' then MON ! (month t - 1)
      else if c = ''B'' then MON_FULL ! (month t - 1)
      else if c = ''p'' then (if hour t < 12 then ''AM'' else ''PM'')
      else if c = ''Z'' then ''UTC''
      else if c = ''F'' then show_int (year t) @ ''-'' @ zeros 2 (month t) @ ''-'' @ zeros 2 (day t)
      else if c = ''T'' then zeros 2 (hour t) @ '':'' @ zeros 2 (minute t) @ '':'' @ zeros 2 (sec t)
      else if c = ''n'' then [CHR 0x0A]
      else if c = ''t'' then [CHR 0x09]
      else if c = ''%'' then ''%''
      else ''%'' @ c)"

fun strftime_chars :: "tm \<Rightarrow> int \<Rightarrow> rchar list \<Rightarrow> str" where
  "strftime_chars t epoch [] = []"
| "strftime_chars t epoch (c # cs) =
     (if c \<noteq> ''%'' then c @ strftime_chars t epoch cs
      else case cs of
             [] \<Rightarrow> ''%''
           | d # ds \<Rightarrow> specifier t epoch d @ strftime_chars t epoch ds)"

definition strftime :: "tm \<Rightarrow> int \<Rightarrow> str \<Rightarrow> str" where
  "strftime t epoch fmt = strftime_chars t epoch (chars fmt)"

definition clock_format :: "int \<Rightarrow> str \<Rightarrow> str" where
  "clock_format ts fmt = strftime (gmtime ts) ts fmt"

definition uptime_phrase :: "int \<Rightarrow> str" where
  "uptime_phrase secs =
     (let days = secs sdiv 86400;
          hours = (secs smod 86400) sdiv 3600;
          mins = (secs smod 3600) sdiv 60
      in show_int days @ '' '' @ (if days = 1 then ''day'' else ''days'') @ '', '' @
         pad_left CHR '' '' 2 (show_int hours) @ '':'' @ pad_left CHR ''0'' 2 (show_int mins))"

text \<open>\<open>uptime_banner\<close> reads the clock once for the time of day and again for the uptime.\<close>

definition uptime_banner :: "int \<Rightarrow> int \<Rightarrow> int \<Rightarrow> clock \<Rightarrow> str \<times> clock" where
  "uptime_banner now now' now'' c =
     (let t = gmtime now in
      case uptime_secs now' now'' c of (up, c') \<Rightarrow>
        (zeros 2 (hour t) @ '':'' @ zeros 2 (minute t) @ '':'' @ zeros 2 (sec t) @ '' up '' @
         uptime_phrase up @ '',  1 user,  load average: 0.08, 0.03, 0.01'', c'))"

section \<open>The proleptic Gregorian calendar\<close>

text \<open>Reference definitions, from the leap-year rule: the days before a year (counted from 1970)
  and the days before a month of it.\<close>

definition leap_year :: "int \<Rightarrow> bool" where
  "leap_year y \<longleftrightarrow> 4 dvd y \<and> (\<not> 100 dvd y \<or> 400 dvd y)"

definition days_in_month :: "int \<Rightarrow> nat \<Rightarrow> nat" where
  "days_in_month y m =
     (if m \<in> {4, 6, 9, 11} then 30 else if m = 2 then (if leap_year y then 29 else 28) else 31)"

definition leaps_until :: "int \<Rightarrow> int" where
  "leaps_until y = y div 4 - y div 100 + y div 400"

definition days_before_year :: "int \<Rightarrow> int" where
  "days_before_year y = 365 * (y - 1970) + leaps_until (y - 1) - leaps_until 1969"

definition days_before_month :: "int \<Rightarrow> nat \<Rightarrow> nat" where
  "days_before_month y m = sum_list (map (days_in_month y) [1..<m])"

lemma div_step: "0 < k \<Longrightarrow> y div k - (y - 1) div k = (if k dvd y then 1 else 0)" for y k :: int
proof (cases "k dvd y")
  case True
  assume "0 < k"
  from True obtain c where y: "y = k * c" by (elim dvdE)
  have "(y - 1) div k = c - 1"
    by (rule int_div_pos_eq [of _ _ _ "k - 1"]) (use \<open>0 < k\<close> y in \<open>auto simp: algebra_simps\<close>)
  with y True \<open>0 < k\<close> show ?thesis by simp
next
  case False
  assume "0 < k"
  then have "0 < y mod k" using False by (simp add: dvd_eq_mod_eq_0 order_less_le)
  have "(y - 1) div k = y div k"
    by (rule int_div_pos_eq [of _ _ _ "y mod k - 1"])
      (use \<open>0 < k\<close> \<open>0 < y mod k\<close> pos_mod_bound [of k y] mult_div_mod_eq [of k y] in linarith)+
  with False show ?thesis by simp
qed

lemma leaps_until_step: "leaps_until y - leaps_until (y - 1) = (if leap_year y then 1 else 0)"
proof -
  have "100 dvd y \<Longrightarrow> 4 dvd y" "400 dvd y \<Longrightarrow> 100 dvd y"
    by (rule dvd_trans [of _ 100], simp, assumption) (rule dvd_trans [of _ 400], simp, assumption)
  moreover have "(a - b + c) - (a' - b' + c') = (if p \<and> (\<not> q \<or> s) then 1 else 0)"
    if "a - a' = (if p then 1 else 0)" "b - b' = (if q then 1 else 0)" "c - c' = (if s then 1 else 0)"
      "q \<Longrightarrow> p" "s \<Longrightarrow> q" for a a' b b' c c' :: int and p q s
    using that by (auto split: if_splits)
  ultimately show ?thesis unfolding leaps_until_def leap_year_def
    using div_step [of 4 y] div_step [of 100 y] div_step [of 400 y] by simp
qed

lemma sdiv_pos: "0 \<le> a \<Longrightarrow> 0 < b \<Longrightarrow> a sdiv b = a div b" for a b :: int
  by (auto simp: signed_divide_int_def sgn_if)

lemma smod_pos: "0 \<le> a \<Longrightarrow> 0 < b \<Longrightarrow> a smod b = a mod b" for a b :: int
  by (auto simp: signed_modulo_int_def sgn_if)

lemma smod_zero: "a smod b = 0 \<longleftrightarrow> b dvd a" for a b :: int
  by (auto simp: signed_modulo_int_def sgn_0_0 mod_eq_0_iff_dvd)

lemma era_of_eq: "era_of z = z div 146097"
proof (cases "z \<ge> 0")
  case True
  then show ?thesis by (simp add: era_of_def sdiv_pos)
next
  case False
  define n where "n = 146096 - z"
  have n: "0 < n" "z - 146096 = - n" using False by (simp_all add: n_def)
  have "(- n) sdiv 146097 = - (n div 146097)" using n by (simp add: signed_divide_int_def sgn_if)
  moreover have "z div 146097 = - (n div 146097)"
  proof (rule int_div_pos_eq)
    show "z = 146097 * - (n div 146097) + (146096 - n mod 146097)"
      using mult_div_mod_eq [of 146097 n] unfolding n_def by linarith
  qed (use pos_mod_bound [of 146097 n] pos_mod_sign [of 146097 n] in auto)
  ultimately show ?thesis using False n by (simp add: era_of_def)
qed

text \<open>
  The year of the era: a day of the era decomposes into a century \<open>c\<close>, a four-year block \<open>q\<close>, a
  year \<open>r\<close> and a day \<open>d\<close> of it (years starting in March), and the code's formula finds the year.
\<close>

lemma era_split:
  assumes "0 \<le> doe" "doe \<le> 146096"
  obtains c q r d :: int where
    "doe = 36524 * c + 1461 * q + 365 * r + d" "0 \<le> c" "c \<le> 3" "0 \<le> q" "q \<le> 24" "0 \<le> r" "r \<le> 3"
    "0 \<le> d" "d \<le> (if r = 3 \<and> (q < 24 \<or> c = 3) then 365 else 364)"
proof -
  define c where "c = min (doe div 36524) 3"
  define u where "u = doe - 36524 * c"
  define q where "q = min (u div 1461) 24"
  define w where "w = u - 1461 * q"
  define r where "r = min (w div 365) 3"
  define d where "d = w - 365 * r"
  have c: "0 \<le> c" "c \<le> 3" "0 \<le> u" "u \<le> 36524" "c < 3 \<Longrightarrow> u \<le> 36523"
    using assms by (auto simp: c_def u_def min_def)
  have q: "0 \<le> q" "q \<le> 24" "0 \<le> w" "w \<le> 1460" "q = 24 \<Longrightarrow> w = u - 35064"
    using c(3,4) by (auto simp: q_def w_def min_def)
  have r: "0 \<le> r" "r \<le> 3" "0 \<le> d" "r < 3 \<Longrightarrow> d \<le> 364" "r = 3 \<Longrightarrow> d = w - 1095"
    using q(3,4) by (auto simp: r_def d_def min_def)
  have "d \<le> (if r = 3 \<and> (q < 24 \<or> c = 3) then 365 else 364)"
    using c(1,2,5) q(1,2,4,5) r(2,3,4,5) by (cases "r = 3"; cases "c = 3"; cases "q = 24"; simp)
  then show thesis using that [of c q r d] c q r by (simp add: d_def w_def u_def)
qed

lemma yoe_split:
  assumes doe: "doe = 36524 * c + 1461 * q + 365 * r + d"
    and b: "0 \<le> c" "c \<le> 3" "0 \<le> q" "q \<le> 24" "0 \<le> r" "r \<le> 3" "0 \<le> d"
      "d \<le> (if r = 3 \<and> (q < 24 \<or> c = 3) then 365 else 364)"
  shows "yoe_of doe = 100 * c + 4 * q + r" and "doy_of doe (yoe_of doe) = d"
proof -
  define e where "e = (24 * c + q + 365 * r + d) div 1460"
  have d: "d \<le> 365" "d = 365 \<Longrightarrow> r = 3" "d = 365 \<Longrightarrow> q = 24 \<Longrightarrow> c = 3" using b(8) by (auto split: if_splits)
  have nonneg: "0 \<le> doe" using b doe by simp
  have e: "0 \<le> d - e" "d - e \<le> 364"
  proof -
    have "0 \<le> e" "e \<le> 1" using b d by (simp_all add: e_def)
    moreover have "e = 0 \<or> d \<ge> 1" using b d by (auto simp: e_def)
    moreover have "d = 365 \<Longrightarrow> e = 1" using b d(2) by (simp add: e_def)
    ultimately show "0 \<le> d - e" "d - e \<le> 364" using d(1) b(7) by (cases "d = 365"; force)+
  qed
  have "doe div 1460 = 25 * c + q + e"
  proof -
    have "doe = (24 * c + q + 365 * r + d) + (25 * c + q) * 1460" using doe by simp
    then show ?thesis unfolding e_def by simp
  qed
  moreover have "doe div 36524 - doe div 146096 = c"
  proof -
    have "1461 * q + 365 * r + d \<le> 36524" "1461 * q + 365 * r + d = 36524 \<Longrightarrow> c = 3"
      using b d by (auto split: if_splits)
    then consider "1461 * q + 365 * r + d < 36524" | "doe = 146096" "c = 3" using doe by linarith
    then show ?thesis
    proof cases
      case 1
      then have "doe div 36524 = c"
        by (intro int_div_pos_eq [of _ _ _ "1461 * q + 365 * r + d"]) (use b doe in auto)
      moreover have "doe < 146096" using 1 b doe by linarith
      ultimately show ?thesis using nonneg by simp
    qed simp
  qed
  ultimately have "doe - doe div 1460 + doe div 36524 - doe div 146096 =
      (d - e) + (100 * c + 4 * q + r) * 365"
    using doe by simp
  then have num: "(doe - doe sdiv 1460 + doe sdiv 36524 - doe sdiv 146096) = (d - e) + (100 * c + 4 * q + r) * 365"
    using nonneg by (simp add: sdiv_pos)
  then show y: "yoe_of doe = 100 * c + 4 * q + r"
    unfolding yoe_of_def num using e b by (subst sdiv_pos) (auto simp: div_mult_self1)
  have "(100 * c + 4 * q + r) div 4 = 25 * c + q" using b by simp
  moreover have "(100 * c + 4 * q + r) div 100 = c"
    by (rule int_div_pos_eq [of _ _ _ "4 * q + r"]) (use b in auto)
  ultimately show "doy_of doe (yoe_of doe) = d"
    using b doe unfolding doy_of_def y by (simp add: sdiv_pos)
qed

lemma month_day:
  assumes "0 \<le> d" "d \<le> 365"
  shows "1 \<le> month_of d" "month_of d \<le> 12" "1 \<le> day_of d"
    "month_of d > 2 \<Longrightarrow> d + 59 = int (CUM ! (nat (month_of d) - 1)) + (day_of d - 1)
       \<and> day_of d \<le> int (days_in_month 1970 (nat (month_of d)))"
    "month_of d \<le> 2 \<Longrightarrow> d = 306 + int (CUM ! (nat (month_of d) - 1)) + (day_of d - 1)
       \<and> day_of d \<le> (if month_of d = 2 then if d = 365 then 29 else 28 else 31)"
proof -
  define k where "k = (5 * d + 2) div 153"
  have k: "mp_of d = k" "0 \<le> k" "k \<le> 11" using assms by (simp_all add: mp_of_def sdiv_pos k_def)
  have rng: "153 * k \<le> 5 * d + 2" "5 * d + 2 < 153 * k + 153" by (simp_all add: k_def)
  have dy: "day_of d = d - (153 * k + 2) div 5 + 1" using k by (simp add: day_of_def sdiv_pos)
  have "k \<in> {0, 1, 2, 3, 4, 5, 6, 7, 8, 9, 10, 11}" using k(2,3) by simp presburger
  then have "1 \<le> month_of d \<and> month_of d \<le> 12 \<and> 1 \<le> day_of d
    \<and> (month_of d > 2 \<longrightarrow> d + 59 = int (CUM ! (nat (month_of d) - 1)) + (day_of d - 1)
       \<and> day_of d \<le> int (days_in_month 1970 (nat (month_of d))))
    \<and> (month_of d \<le> 2 \<longrightarrow> d = 306 + int (CUM ! (nat (month_of d) - 1)) + (day_of d - 1)
       \<and> day_of d \<le> (if month_of d = 2 then if d = 365 then 29 else 28 else 31))"
    using rng assms
    by (elim insertE emptyE) (simp_all add: month_of_def k(1) dy CUM_def days_in_month_def)
  then show "1 \<le> month_of d" "month_of d \<le> 12" "1 \<le> day_of d"
    "month_of d > 2 \<Longrightarrow> d + 59 = int (CUM ! (nat (month_of d) - 1)) + (day_of d - 1)
       \<and> day_of d \<le> int (days_in_month 1970 (nat (month_of d)))"
    "month_of d \<le> 2 \<Longrightarrow> d = 306 + int (CUM ! (nat (month_of d) - 1)) + (day_of d - 1)
       \<and> day_of d \<le> (if month_of d = 2 then if d = 365 then 29 else 28 else 31)"
    by blast+
qed

lemma days_before_month_CUM:
  "1 \<le> m \<Longrightarrow> m \<le> 12 \<Longrightarrow>
   days_before_month y m = CUM ! (m - 1) + (if leap_year y \<and> m > 2 then 1 else 0)"
proof -
  assume "1 \<le> m" "m \<le> 12"
  then have "m \<in> {1, 2, 3, 4, 5, 6, 7, 8, 9, 10, 11, 12}" by simp presburger
  then show ?thesis
    by (elim insertE emptyE) (simp_all add: days_before_month_def CUM_def days_in_month_def upt_rec numeral_2_eq_2)
qed

lemma era_leap:
  assumes "0 \<le> q" "q \<le> 24" "q < 24 \<or> c = 3"
  shows "leap_year (100 * c + 4 * q + 4 + 400 * e)"
proof (cases "q < 24")
  case True
  have "(4 * (q + 1) + (c + 4 * e) * 100) mod 100 = 4 * (q + 1)"
    using assms True by (subst mod_mult_self1) simp
  then have "\<not> 100 dvd 100 * c + 4 * q + 4 + 400 * e"
    using assms(1) by (simp add: dvd_eq_mod_eq_0 algebra_simps)
  moreover have "100 * c + 4 * q + 4 + 400 * e = 4 * (25 * c + q + 1 + 100 * e)" by simp
  ultimately show ?thesis unfolding leap_year_def by (metis dvd_triv_left)
next
  case False
  then have "100 * c + 4 * q + 4 + 400 * e = 400 * (1 + e)" using assms by simp
  moreover have "4 dvd 400 * (1 + e)" "400 dvd 400 * (1 + e)" by (rule dvd_mult2, simp)+
  ultimately show ?thesis unfolding leap_year_def by simp
qed

text \<open>The date of a day: the steps of the algorithm put together.\<close>

lemma civil_of_day:
  fixes days :: int
  defines "z \<equiv> days + 719468"
  defines "doe \<equiv> z - era_of z * 146097"
  defines "yoe \<equiv> yoe_of doe"
  defines "doy \<equiv> doy_of doe yoe"
  defines "yr \<equiv> (if nat (month_of doy) \<le> 2 then yoe + era_of z * 400 + 1 else yoe + era_of z * 400)"
  shows "0 \<le> doy" "doy \<le> 365"
    "day_of doy \<le> int (days_in_month yr (nat (month_of doy)))"
    "days = days_before_year yr + int (days_before_month yr (nat (month_of doy))) + (day_of doy - 1)"
proof -
  have doe: "doe = z mod 146097" by (simp add: doe_def era_of_eq minus_div_mult_eq_mod)
  then have "0 \<le> doe" "doe \<le> 146096" by simp_all
  then obtain c q r d where s: "doe = 36524 * c + 1461 * q + 365 * r + d"
      "0 \<le> c" "c \<le> 3" "0 \<le> q" "q \<le> 24" "0 \<le> r" "r \<le> 3" "0 \<le> d"
      "d \<le> (if r = 3 \<and> (q < 24 \<or> c = 3) then 365 else 364)"
    by (rule era_split)
  have y: "yoe = 100 * c + 4 * q + r" "doy = d"
    using yoe_split [OF s] by (simp_all add: yoe_def doy_def)
  show doy: "0 \<le> doy" "doy \<le> 365" using s y by (auto split: if_splits)
  define Y where "Y = yoe + era_of z * 400"
  have div4: "Y div 4 = 25 * c + q + 100 * era_of z"
    using s by (simp add: Y_def y(1))
  have div100: "Y div 100 = c + 4 * era_of z"
    by (rule int_div_pos_eq [of _ _ _ "4 * q + r"]) (use s in \<open>auto simp: Y_def y(1)\<close>)
  have div400: "Y div 400 = era_of z"
    by (rule int_div_pos_eq [of _ _ _ yoe]) (use s in \<open>auto simp: Y_def y(1)\<close>)
  have z: "z = 365 * Y + leaps_until Y + doy"
  proof -
    have "leaps_until Y = 24 * c + q + 97 * era_of z"
      unfolding leaps_until_def div4 div100 div400 by simp
    then show ?thesis using s(1) y by (simp add: Y_def doe_def)
  qed
  have leap: "leap_year (Y + 1)" if "d = 365"
  proof -
    have "r = 3" "q < 24 \<or> c = 3" using that s(9) by (auto split: if_splits)
    then show ?thesis using era_leap [of q c "era_of z"] s by (simp add: Y_def y(1) algebra_simps)
  qed
  note md = month_day [OF doy]
  have m: "1 \<le> nat (month_of doy)" "nat (month_of doy) \<le> 12" using md(1,2) by auto
  show "day_of doy \<le> int (days_in_month yr (nat (month_of doy)))"
  proof (cases "month_of doy \<le> 2")
    case True
    then have "yr = Y + 1" by (simp add: yr_def Y_def)
    then show ?thesis using md(1) md(5) [OF True] leap True y(2)
      by (auto simp: days_in_month_def split: if_splits)
  next
    case False
    then show ?thesis using md(4) by (auto simp: days_in_month_def split: if_splits)
  qed
  show "days = days_before_year yr + int (days_before_month yr (nat (month_of doy))) + (day_of doy - 1)"
  proof (cases "month_of doy \<le> 2")
    case True
    then have yr: "yr = Y + 1" and "\<not> nat (month_of doy) > 2" by (auto simp: yr_def Y_def)
    then have "int (days_before_month yr (nat (month_of doy))) = doy - 306 - (day_of doy - 1)"
      using md(5) [OF True] days_before_month_CUM [OF m] by simp
    then show ?thesis using z unfolding z_def yr days_before_year_def
      by (simp add: leaps_until_def [of 1969])
  next
    case False
    then have yr: "yr = Y" and "nat (month_of doy) > 2" by (auto simp: yr_def Y_def)
    then have "int (days_before_month yr (nat (month_of doy))) = doy + 59 - (day_of doy - 1) + (if leap_year yr then 1 else 0)"
      using md(4) False days_before_month_CUM [OF m] by simp
    then show ?thesis using z leaps_until_step [of Y] unfolding z_def yr days_before_year_def
      by (simp add: leaps_until_def [of 1969])
  qed
qed


section \<open>The life of the process\<close>

text \<open>
  The calls a process makes, with a wall clock that never runs backwards: \<open>clock_run t c\<close> says
  that state \<open>c\<close> was reached and the clock last read \<open>t\<close>.
\<close>

inductive clock_run :: "int \<Rightarrow> clock \<Rightarrow> bool" where
  start: "clock_run t clock_new"
| wait: "clock_run t c \<Longrightarrow> t \<le> t' \<Longrightarrow> clock_run t' c"
| boot: "clock_run t c \<Longrightarrow> clock_run t (snd (boot_time t c))"
| install: "clock_run t c \<Longrightarrow> clock_run t (snd (install_time t c))"
| prev: "clock_run t c \<Longrightarrow> clock_run t (snd (prev_login t c))"
| uptime: "clock_run t c \<Longrightarrow> t \<le> t' \<Longrightarrow> clock_run t' (snd (uptime_secs t t' c))"

inductive clock_call :: "clock \<Rightarrow> clock \<Rightarrow> bool" where
  "clock_call c (snd (boot_time t c))"
| "clock_call c (snd (install_time t c))"
| "clock_call c (snd (prev_login t c))"
| "clock_call c (snd (uptime_secs t t' c))"
| "clock_call c (snd (uptime_banner t t' t'' c))"

definition clock_inv :: "int \<Rightarrow> clock \<Rightarrow> bool" where
  "clock_inv t c \<longleftrightarrow>
     (\<forall>b. c_boot c = Some b \<longrightarrow> b \<le> t - BOOT_OFFSET_SECS) \<and>
     (\<forall>i. c_install c = Some i \<longrightarrow>
        (\<exists>b. c_boot c = Some b \<and> i = (b - INSTALL_OFFSET_SECS) - (b - INSTALL_OFFSET_SECS) mod 86400))"

lemma clock_inv_boot: "clock_inv t c \<Longrightarrow> t \<le> t' \<Longrightarrow> clock_inv t' (snd (boot_time t' c))"
  by (fastforce simp: clock_inv_def boot_time_def split: option.splits)

lemma clock_state_boot:
  "snd (prev_login t c) = snd (boot_time t c)" "snd (uptime_secs t t' c) = snd (boot_time t' c)"
  by (simp_all add: prev_login_def uptime_secs_def Let_def split: prod.splits)

lemma clock_run_inv: "clock_run t c \<Longrightarrow> clock_inv t c"
proof (induction rule: clock_run.induct)
  case (install t c)
  then show ?case
    by (fastforce simp: clock_inv_def install_time_def boot_time_def Let_def split: option.splits)
next
  case (wait t c t')
  then show ?case by (fastforce simp: clock_inv_def)
next
  case (uptime t c t')
  then show ?case using clock_inv_boot clock_state_boot(2) by metis
next
  case (prev t c)
  then show ?case using clock_inv_boot clock_state_boot(1) by (metis order_refl)
next
  case (boot t c)
  then show ?case using clock_inv_boot by blast
qed (simp add: clock_inv_def clock_new_def)

section \<open>Printing is faithful\<close>

lemma show_nat_inj: "show_nat m = show_nat n \<Longrightarrow> m = n"
  by (metis option.inject parse_digits_show_nat)

lemma show_int_inj: "show_int i = show_int j \<Longrightarrow> i = j"
proof -
  assume eq: "show_int i = show_int j"
  have dash: "show_nat m \<noteq> CHR ''-'' # xs" for m xs
    using show_nat_digits [of "CHR ''-''" m] by (auto simp: is_ascii_digit_def)
  show ?thesis using eq dash dash [symmetric]
    by (auto simp: show_int_def split: if_splits dest!: show_nat_inj)
qed

lemma zeros_2: "n < 100 \<Longrightarrow> length (zeros 2 n) = 2 \<and> parse_digits 10 0 (zeros 2 n) = Some n"
proof -
  assume n: "n < 100"
  have "length (show_nat n) = (if n < 10 then 1 else 2)"
    using n by (subst show_nat.simps) (auto simp: show_nat.simps [of "n div 10"])
  moreover have "parse_digits 10 0 (zeros 2 n) = Some n"
    using calculation parse_digits_show_nat [of n]
    by (auto simp: zeros_def pad_left_def digit_val_def)
  ultimately show ?thesis by (simp add: zeros_def pad_left_def)
qed

lemma zeros_inj: "m < 100 \<Longrightarrow> n < 100 \<Longrightarrow> zeros 2 m @ xs = zeros 2 n @ ys \<Longrightarrow> m = n \<and> xs = ys"
  using zeros_2 [of m] zeros_2 [of n] by (metis append_eq_append_conv option.inject)

section \<open>Properties\<close>

lemma leap_code: "(4 dvd y \<and> \<not> 100 dvd y \<or> 400 dvd y) = leap_year y"
proof -
  have "400 dvd y \<Longrightarrow> 4 dvd y" by (rule dvd_trans [of _ 400]) simp_all
  then show ?thesis unfolding leap_year_def by blast
qed

lemma gmtime_fields:
  fixes secs :: int
  defines "t \<equiv> gmtime secs"
  shows "1 \<le> month t" "month t \<le> 12" "1 \<le> day t" "day t \<le> days_in_month (year t) (month t)"
    "yday t = days_before_month (year t) (month t) + (day t - 1)"
    "secs div 86400 = days_before_year (year t) + int (yday t)"
    "hour t < 24" "minute t < 60" "sec t < 60"
    "secs mod 86400 = 3600 * int (hour t) + 60 * int (minute t) + int (sec t)"
    "int (wday t) = (secs div 86400 + 4) mod 7"
proof -
  define doe where "doe = secs div 86400 + 719468 - era_of (secs div 86400 + 719468) * 146097"
  define doy where "doy = doy_of doe (yoe_of doe)"
  define r where "r = secs mod 86400"
  note civil = civil_of_day [of "secs div 86400", folded doe_def, folded doy_def]
  note md = month_day [OF civil(1,2)]
  have t: "month t = nat (month_of doy)" "day t = nat (day_of doy)"
    "year t = (if nat (month_of doy) \<le> 2 then yoe_of doe + era_of (secs div 86400 + 719468) * 400 + 1
               else yoe_of doe + era_of (secs div 86400 + 719468) * 400)"
    by (simp_all add: t_def gmtime_def Let_def doy_def doe_def)
  show m: "1 \<le> month t" "month t \<le> 12" using md(1,2) unfolding t(1) by linarith+
  show d: "1 \<le> day t" using md(3) unfolding t(2) by linarith
  show "day t \<le> days_in_month (year t) (month t)" unfolding t using civil(3) md(3) by (simp only: nat_le_iff)
  have "yday t = CUM ! (month t - 1) + (day t - 1) + (if leap_year (year t) \<and> month t > 2 then 1 else 0)"
    by (simp add: t_def gmtime_def Let_def smod_zero leap_code)
  then show yd: "yday t = days_before_month (year t) (month t) + (day t - 1)"
    using days_before_month_CUM [OF m] by simp
  show "secs div 86400 = days_before_year (year t) + int (yday t)"
  proof -
    have "int (day t - 1) = day_of doy - 1" using md(3) unfolding t(2) by linarith
    then have "int (yday t) = int (days_before_month (year t) (month t)) + (day_of doy - 1)"
      by (simp only: yd of_nat_add)
    then show ?thesis using civil(4) by (simp only: t(1,3) add.assoc)
  qed
  have r: "0 \<le> r" "r < 86400" by (simp_all add: r_def)
  have h: "hour t = nat (r div 3600)" "minute t = nat (r mod 3600 div 60)" "sec t = nat (r mod 60)"
    using r by (simp_all add: t_def gmtime_def Let_def r_def sdiv_pos smod_pos)
  define A B C where "A = r div 3600" and "B = r mod 3600 div 60" and "C = r mod 60"
  have A: "0 \<le> A" "A < 24" using r unfolding A_def by linarith+
  have B: "0 \<le> B" "B < 60" unfolding B_def by linarith+
  have C: "0 \<le> C" "C < 60" unfolding C_def by simp_all
  have "60 * B + C = r mod 3600"
    using mult_div_mod_eq [of 60 "r mod 3600"] mod_mod_cancel [of 60 3600 r] by (simp add: B_def C_def)
  then have sum: "r = 3600 * A + (60 * B + C)" by (simp only: A_def mult_div_mod_eq)
  note hms = h [folded A_def B_def C_def]
  show "hour t < 24" "minute t < 60" "sec t < 60" using A B C unfolding hms by linarith+
  show "secs mod 86400 = 3600 * int (hour t) + 60 * int (minute t) + int (sec t)"
    using A(1) B(1) C(1) sum unfolding r_def [symmetric] hms by simp
  show "int (wday t) = (secs div 86400 + 4) mod 7"
    by (simp add: t_def gmtime_def Let_def smod_pos mod_add_left_eq)
qed

text \<open>C37: \<open>gmtime\<close> is the proleptic Gregorian calendar. For every number of seconds, before or after
  the epoch, the fields are in range, the day exists in its month under the leap-year rule, and the
  seconds are exactly those of that date and time: days before the year, days before the month, and
  the time of day; the weekday counts from Thursday, 1 January 1970.\<close>

theorem gmtime_correct:
  fixes secs :: int
  defines "t \<equiv> gmtime secs"
  shows "1 \<le> month t \<and> month t \<le> 12 \<and> 1 \<le> day t \<and> day t \<le> days_in_month (year t) (month t)
    \<and> hour t < 24 \<and> minute t < 60 \<and> sec t < 60
    \<and> yday t = days_before_month (year t) (month t) + (day t - 1)
    \<and> secs = 86400 * (days_before_year (year t) + int (yday t))
             + 3600 * int (hour t) + 60 * int (minute t) + int (sec t)
    \<and> int (wday t) = (secs div 86400 + 4) mod 7"
proof -
  note f = gmtime_fields [of secs, folded t_def]
  have "secs = 86400 * (days_before_year (year t) + int (yday t))
             + 3600 * int (hour t) + 60 * int (minute t) + int (sec t)"
    using mult_div_mod_eq [of 86400 secs] unfolding f(6,10) by linarith
  then show ?thesis using f(1-5,7-9,11) by blast
qed

text \<open>\<open>date '+%F %T'\<close> loses nothing: two moments that print alike are the same second.\<close>

theorem date_format_inj:
  assumes "clock_format a ''%F %T'' = clock_format b ''%F %T''"
  shows "a = b"
proof -
  have fmt: "clock_format s ''%F %T'' =
      show_int (year (gmtime s)) @ ''-'' @ zeros 2 (month (gmtime s)) @ ''-'' @ zeros 2 (day (gmtime s)) @ '' ''
      @ zeros 2 (hour (gmtime s)) @ '':'' @ zeros 2 (minute (gmtime s)) @ '':'' @ zeros 2 (sec (gmtime s))" for s
    by (simp add: clock_format_def strftime_def is_continuation_def specifier_def)
  have day: "month (gmtime s) < 100" "day (gmtime s) < 100" "hour (gmtime s) < 100"
      "minute (gmtime s) < 100" "sec (gmtime s) < 100" for s
    using gmtime_fields [of s] by (auto simp: days_in_month_def split: if_splits)
  have len: "length (zeros 2 n) = 2" if "n < 100" for n using zeros_2 that by blast
  have "show_int (year (gmtime a)) = show_int (year (gmtime b))
      \<and> zeros 2 (month (gmtime a)) = zeros 2 (month (gmtime b)) \<and> zeros 2 (day (gmtime a)) = zeros 2 (day (gmtime b))
      \<and> zeros 2 (hour (gmtime a)) = zeros 2 (hour (gmtime b)) \<and> zeros 2 (minute (gmtime a)) = zeros 2 (minute (gmtime b))
      \<and> zeros 2 (sec (gmtime a)) = zeros 2 (sec (gmtime b))"
    using assms unfolding fmt by (simp add: append_eq_append_conv day len)
  then have "year (gmtime a) = year (gmtime b)" "month (gmtime a) = month (gmtime b)" "day (gmtime a) = day (gmtime b)"
      "hour (gmtime a) = hour (gmtime b)" "minute (gmtime a) = minute (gmtime b)" "sec (gmtime a) = sec (gmtime b)"
    using show_int_inj zeros_inj [where xs = "[]" and ys = "[]"] day by auto
  then have "a div 86400 = b div 86400" "a mod 86400 = b mod 86400"
    unfolding gmtime_fields(5,6,10) by simp_all
  then show ?thesis by (metis mult_div_mod_eq)
qed

theorem date_format_inj_witness: "clock_format 0 ''%F %T'' = clock_format (86400 - 86400) ''%F %T'' \<and> (0::int) = 86400 - 86400"
  using date_format_inj [of 0 "86400 - 86400"] by simp

text \<open>The box's story is consistent. Whatever calls were made before, with a clock that never runs
  backwards, the install time is midnight, the box was installed before it booted, the previous login
  began after boot and ended before now, and the uptime is never below its initial offset.\<close>

theorem timeline_ordered:
  assumes "clock_run t c"
  shows "fst (install_time t c) mod 86400 = 0 \<and> fst (install_time t c) < fst (boot_time t c)
    \<and> fst (boot_time t c) < fst (fst (prev_login t c)) \<and> fst (fst (prev_login t c)) < snd (fst (prev_login t c))
    \<and> snd (fst (prev_login t c)) < t \<and> BOOT_OFFSET_SECS \<le> fst (uptime_secs t t c)"
proof -
  define b where "b = fst (boot_time t c)"
  have inv: "clock_inv t c" using clock_run_inv [OF assms] .
  have b: "b \<le> t - BOOT_OFFSET_SECS"
    using inv by (auto simp: b_def boot_time_def clock_inv_def split: option.split)
  have i: "fst (install_time t c) = (b - INSTALL_OFFSET_SECS) - (b - INSTALL_OFFSET_SECS) mod 86400"
    using inv by (auto simp: b_def install_time_def boot_time_def clock_inv_def Let_def split: option.split)
  have "fst (install_time t c) mod 86400 = 0" "fst (install_time t c) < b"
    unfolding i INSTALL_OFFSET_SECS_def
    by (simp_all add: mod_diff_right_eq)
  moreover have "fst (prev_login t c) = (b + PREV_LOGIN_OFFSET_SECS, b + PREV_LOGIN_OFFSET_SECS + PREV_LOGIN_DURATION_SECS)"
    "fst (uptime_secs t t c) = max (t - b) 0"
    by (simp_all add: b_def prev_login_def uptime_secs_def Let_def split: prod.split)
  ultimately show ?thesis using b
    by (simp add: b_def [symmetric] BOOT_OFFSET_SECS_def PREV_LOGIN_OFFSET_SECS_def PREV_LOGIN_DURATION_SECS_def)
qed

theorem timeline_ordered_witness:
  "clock_run 1000 clock_new \<and> fst (install_time 1000 clock_new) < fst (boot_time 1000 clock_new)"
  using timeline_ordered [OF clock_run.start, of 1000] by (simp add: clock_run.start)

lemma clock_call_keeps:
  assumes "clock_call c c'"
  shows "c_boot c = Some b \<Longrightarrow> c_boot c' = Some b" "c_install c = Some i \<Longrightarrow> c_install c' = Some i"
  using assms
  by (auto elim!: clock_call.cases simp: boot_time_def install_time_def prev_login_def uptime_secs_def
      uptime_banner_def Let_def split: option.splits prod.splits)

text \<open>The anchors are resolved once. A call for the boot or install time records what it
  returned, and after any further calls, whatever the clock says then, the same time is returned.\<close>

theorem anchors_fixed:
  assumes "clock_call\<^sup>*\<^sup>* (snd (boot_time t c)) c1" "clock_call\<^sup>*\<^sup>* (snd (install_time t c)) c2"
  shows "fst (boot_time t' c1) = fst (boot_time t c) \<and> fst (install_time t' c2) = fst (install_time t c)"
proof -
  have "c_boot c1 = Some (fst (boot_time t c))" using assms(1)
    by (induction rule: rtranclp_induct) (auto simp: clock_call_keeps boot_time_def split: option.split)
  moreover have "c_install c2 = Some (fst (install_time t c))" using assms(2)
    by (induction rule: rtranclp_induct)
      (auto simp: clock_call_keeps install_time_def Let_def split: option.split prod.split)
  ultimately show ?thesis by (simp add: boot_time_def install_time_def)
qed

theorem anchors_fixed_witness:
  "fst (boot_time 9 (snd (boot_time 7 clock_new))) = 7 - 184860"
  using anchors_fixed [of 7 clock_new "snd (boot_time 7 clock_new)" "snd (install_time 7 clock_new)" 9]
  by (simp add: clock_new_def boot_time_def BOOT_OFFSET_SECS_def)

end
