(* ===== verification/Listing.thy ===== *)
theory Listing
  imports Vfs Clock
begin

text \<open>
  The helpers of \<open>src/commands/fs.rs\<close> that render a node's metadata, shared by \<open>ls -l\<close>, \<open>stat\<close> and the
  long names of the SFTP server: size, mode string, account names and the date column. The clock is
  the argument \<open>now\<close>.
\<close>

definition node_size :: "int \<Rightarrow> node \<Rightarrow> nat" where
  "node_size now n = (case n_kind n of
      File c \<Rightarrow> length c
    | DynamicFile g \<Rightarrow> length (g now)
    | Symlink target \<Rightarrow> length target
    | Directory _ \<Rightarrow> 4096)"

definition mode_triplet :: "u32 \<Rightarrow> nat \<Rightarrow> str" where
  "mode_triplet mode shift =
     (let bits = drop_bit shift mode AND 7
      in [if bits AND 4 \<noteq> 0 then CHR ''r'' else CHR ''-'',
          if bits AND 2 \<noteq> 0 then CHR ''w'' else CHR ''-'',
          if bits AND 1 \<noteq> 0 then CHR ''x'' else CHR ''-''])"

definition mode_string :: "u32 \<Rightarrow> str" where
  "mode_string mode =
     (let t = mode AND S_IFMT
      in (if t = S_IFDIR then CHR ''d'' else if t = S_IFLNK then CHR ''l'' else CHR ''-'')
         # concat (map (mode_triplet mode) [6, 3, 0]))"

text \<open>Howard Hinnant's algorithm once more, with the steps \<open>Clock\<close> names.\<close>

definition civil_from_days :: "int \<Rightarrow> int \<times> nat \<times> nat" where
  "civil_from_days z0 =
     (let z = z0 + 719468;
          era = era_of z;
          doe = z - era * 146097;
          yoe = yoe_of doe;
          y = yoe + era * 400;
          doy = doy_of doe yoe;
          d = nat (day_of doy);
          m = nat (month_of doy)
      in (if m \<le> 2 then y + 1 else y, m, d))"

definition SIX_MONTHS :: int where "SIX_MONTHS = 15778800"

definition MONTHS :: "str list" where
  "MONTHS = [''Jan'', ''Feb'', ''Mar'', ''Apr'', ''May'', ''Jun'', ''Jul'', ''Aug'', ''Sep'', ''Oct'', ''Nov'', ''Dec'']"

definition format_time :: "int \<Rightarrow> int \<Rightarrow> str" where
  "format_time now ts =
     (let days = ts div 86400;
          secs = ts mod 86400;
          (yr, mo, d) = civil_from_days days;
          hr = nat (secs sdiv 3600);
          mi = nat ((secs smod 3600) sdiv 60);
          mon = MONTHS ! (mo - 1)
      in if ts > now + 3600 \<or> ts < now - SIX_MONTHS
         then mon @ '' '' @ spaces 2 d @ ''  '' @ show_int yr
         else mon @ '' '' @ spaces 2 d @ '' '' @ zeros 2 hr @ '':'' @ zeros 2 mi)"

definition uid_names :: "(u32 \<times> str) list" where
  "uid_names = [(0, ''root''), (1, ''daemon''), (2, ''bin''), (3, ''sys''), (8, ''mail''), (33, ''www-data''),
     (34, ''backup''), (100, ''sshd''), (1000, ''user''), (65534, ''nobody'')]"

definition uid_name :: "u32 \<Rightarrow> str" where
  "uid_name u = (case map_of uid_names u of Some n \<Rightarrow> n | None \<Rightarrow> show_nat (unat u))"

definition gid_names :: "(u32 \<times> str) list" where
  "gid_names = [(0, ''root''), (4, ''adm''), (8, ''mail''), (27, ''sudo''), (33, ''www-data''), (34, ''backup''),
     (42, ''shadow''), (43, ''utmp''), (1000, ''user''), (65534, ''nogroup'')]"

definition gid_name :: "u32 \<Rightarrow> str" where
  "gid_name g = (case map_of gid_names g of Some n \<Rightarrow> n | None \<Rightarrow> show_nat (unat g))"

definition pad_right :: "char \<Rightarrow> nat \<Rightarrow> str \<Rightarrow> str" where
  "pad_right c w s = s @ replicate (w - length s) c"

section \<open>The date column\<close>

lemma civil_from_days_gmtime:
  "civil_from_days (ts div 86400) = (year (gmtime ts), month (gmtime ts), day (gmtime ts))"
  by (simp add: civil_from_days_def gmtime_def Let_def)

lemma gmtime_clock: "hour (gmtime ts) = nat ((ts mod 86400) sdiv 3600)"
  "minute (gmtime ts) = nat (((ts mod 86400) smod 3600) sdiv 60)"
  by (simp_all add: gmtime_def Let_def)

text \<open>The date column of a listing is what \<open>strftime\<close> prints: month, day and time of day for a recent file, and
  the year instead for one older than six months or more than an hour in the future.
\<close>

theorem format_time_strftime:
  "format_time now ts =
     (if ts > now + 3600 \<or> ts < now - SIX_MONTHS then clock_format ts ''%b %e  %Y'' else clock_format ts ''%b %e %H:%M'')"
proof -
  have "MONTHS = MON" by (simp add: MONTHS_def MON_def)
  then show ?thesis
    by (simp add: format_time_def Let_def civil_from_days_gmtime gmtime_clock clock_format_def strftime_def specifier_def
        ascii_not_continuation)
qed

end
