(* ===== verification/Shell_Parser.thy ===== *)
theory Shell_Parser
  imports Mimic_Prelude
begin

text \<open>
  The command-line tokenizer (\<open>src/shell/parser.rs\<close>): recognition of \<open>$(...)\<close>, backtick and
  \<open>$((...))\<close> regions, here-documents, comments, the splitting of a line into segments,
  pipeline stages and redirections, and the splitting of a stage into words.

  The splitters scan the bytes of a raw line by index, each carrying the same three flags. What
  they share, the escape, the substitution that is stepped over whole and the quote
  characters, is \<open>lexeme_at\<close>; what a splitter does with a byte that is none of these is in its own
  loop. Slices of the line are \<open>slice\<close>; every index used as a slice bound is proved to be within
  the line.
\<close>

definition byte_get :: "str \<Rightarrow> nat \<Rightarrow> byte option" where
  "byte_get s i = (if i < length s then Some (s ! i) else None)"

definition slice :: "str \<Rightarrow> nat \<Rightarrow> nat \<Rightarrow> str" where
  "slice s a b = take (b - a) (drop a s)"

section \<open>Substitutions\<close>

record substitution =
  s_end :: nat
  s_body :: "nat \<times> nat"
  s_arithmetic :: bool

text \<open>The closing backtick at or after \<open>j\<close>.\<close>

function backtick_close :: "str \<Rightarrow> nat \<Rightarrow> nat option" where
  "backtick_close s j =
     (if j \<ge> length s then None
      else if s ! j = CHR 0x5C then backtick_close s (j + 2)
      else if s ! j = CHR 0x60 then Some j
      else backtick_close s (j + 1))"
  by auto
termination by (relation "measure (\<lambda>(s, j). length s - j)") auto

text \<open>
  The parenthesis that brings the nesting depth back to 0: \<open>paren_step\<close> is the \<open>match\<close> on one byte,
  giving how far to move and the new depth and flags, or \<open>None\<close> where the code returns.
\<close>

definition paren_step :: "byte \<Rightarrow> nat \<Rightarrow> bool \<Rightarrow> bool \<Rightarrow> (nat \<times> nat \<times> bool \<times> bool) option" where
  "paren_step c depth in_single in_double =
     (if c = CHR 0x5C \<and> \<not> in_single then Some (2, depth, in_single, in_double)
      else if c = CHR 0x27 \<and> \<not> in_double then Some (1, depth, \<not> in_single, in_double)
      else if c = CHR 0x22 \<and> \<not> in_single then Some (1, depth, in_single, \<not> in_double)
      else if c = CHR ''('' \<and> \<not> in_single \<and> \<not> in_double then Some (1, depth + 1, in_single, in_double)
      else if c = CHR '')'' \<and> \<not> in_single \<and> \<not> in_double then
        (if depth - 1 = 0 then None else Some (1, depth - 1, in_single, in_double))
      else Some (1, depth, in_single, in_double))"

lemma paren_step_width: "paren_step c n q1 q2 = Some (w, r) \<Longrightarrow> 0 < w"
  by (auto simp: paren_step_def split: if_splits)

lemma paren_step_None: "paren_step c n q1 q2 = None \<longleftrightarrow> c = CHR '')'' \<and> \<not> q1 \<and> \<not> q2 \<and> n \<le> 1"
  by (auto simp: paren_step_def)

function paren_close :: "str \<Rightarrow> nat \<Rightarrow> nat \<Rightarrow> bool \<Rightarrow> bool \<Rightarrow> nat option" where
  "paren_close s j depth in_single in_double =
     (if j \<ge> length s then None
      else case paren_step (s ! j) depth in_single in_double of
        None \<Rightarrow> Some j
      | Some (w, depth', in_single', in_double') \<Rightarrow> paren_close s (j + w) depth' in_single' in_double')"
  by auto
termination
  by (relation "measure (\<lambda>(s, j, _). length s - j)") (auto dest: paren_step_width)

declare backtick_close.simps [simp del] paren_close.simps [simp del]

definition substitution_at :: "str \<Rightarrow> nat \<Rightarrow> substitution option" where
  "substitution_at s i =
     (if byte_get s i = Some (CHR 0x60) then
        (case backtick_close s (i + 1) of
           None \<Rightarrow> None
         | Some j \<Rightarrow> Some \<lparr>s_end = j + 1, s_body = (i + 1, j), s_arithmetic = False\<rparr>)
      else if byte_get s i = Some (CHR ''$'') \<and> byte_get s (i + 1) = Some (CHR ''('') then
        (let arithmetic = (byte_get s (i + 2) = Some (CHR ''('')) in
         case paren_close s (i + 1) 0 False False of
           None \<Rightarrow> None
         | Some j \<Rightarrow> Some \<lparr>s_end = j + 1,
                           s_body = (if arithmetic then (i + 3, j - 1) else (i + 2, j)),
                           s_arithmetic = arithmetic\<rparr>)
      else None)"

lemma backtick_close_bounds: "backtick_close s j = Some k \<Longrightarrow> j \<le> k \<and> k < length s \<and> s ! k = CHR 0x60"
proof (induction s j rule: backtick_close.induct)
  case (1 s j)
  then show ?case by (fastforce simp: backtick_close.simps [of s j] split: if_splits)
qed

lemma paren_close_bounds:
  "paren_close s j n q1 q2 = Some k \<Longrightarrow> j \<le> k \<and> k < length s \<and> s ! k = CHR '')''"
proof (induction s j n q1 q2 rule: paren_close.induct)
  case (1 s j n q1 q2)
  show ?case
  proof (cases "paren_step (s ! j) n q1 q2")
    case None
    then show ?thesis using 1(2) paren_step_None [of "s ! j" n q1 q2]
      by (simp add: paren_close.simps [of s j] split: if_splits)
  next
    case (Some r)
    obtain w d p p' where r: "r = (w, d, p, p')" by (cases r)
    have j: "\<not> length s \<le> j" and k: "paren_close s (j + w) d p p' = Some k"
      using 1(2) Some r by (auto simp: paren_close.simps [of s j] split: if_splits)
    show ?thesis using 1(1) [OF j Some r [symmetric] refl refl k] by simp
  qed
qed

lemma substitution_end: "substitution_at s i = Some b \<Longrightarrow> i < s_end b"
  by (auto simp: substitution_at_def Let_def split: if_splits option.splits
      dest!: backtick_close_bounds paren_close_bounds)

section \<open>Scanning\<close>

record quoting =
  q_single :: bool
  q_double :: bool
  q_escaped :: bool

definition unquoted :: quoting where
  "unquoted = \<lparr>q_single = False, q_double = False, q_escaped = False\<rparr>"

datatype lexeme =
    Escaped              \<comment> \<open>the byte after a backslash\<close>
  | Subst nat            \<comment> \<open>a substitution, and where it ends\<close>
  | Backslash | SingleQuote | DoubleQuote
  | Quoted               \<comment> \<open>any other byte inside quotes\<close>
  | Plain                \<comment> \<open>any other byte outside quotes\<close>

definition lexeme_at :: "str \<Rightarrow> quoting \<Rightarrow> nat \<Rightarrow> lexeme" where
  "lexeme_at s q i =
     (if q_escaped q then Escaped
      else case (if q_single q then None else substitution_at s i) of
        Some b \<Rightarrow> Subst (s_end b)
      | None \<Rightarrow>
          if s ! i = CHR 0x5C \<and> \<not> q_single q then Backslash
          else if s ! i = CHR 0x27 \<and> \<not> q_double q then SingleQuote
          else if s ! i = CHR 0x22 \<and> \<not> q_single q then DoubleQuote
          else if q_single q \<or> q_double q then Quoted
          else Plain)"

definition flags_after :: "lexeme \<Rightarrow> quoting \<Rightarrow> quoting" where
  "flags_after l q = (case l of
      Escaped \<Rightarrow> q\<lparr>q_escaped := False\<rparr>
    | Backslash \<Rightarrow> q\<lparr>q_escaped := True\<rparr>
    | SingleQuote \<Rightarrow> q\<lparr>q_single := \<not> q_single q\<rparr>
    | DoubleQuote \<Rightarrow> q\<lparr>q_double := \<not> q_double q\<rparr>
    | _ \<Rightarrow> q)"

definition index_after :: "lexeme \<Rightarrow> nat \<Rightarrow> nat" where
  "index_after l i = (case l of Subst e \<Rightarrow> e | _ \<Rightarrow> i + 1)"

lemma index_after_less: "lexeme_at s q i = l \<Longrightarrow> i < index_after l i"
  by (auto simp: lexeme_at_def index_after_def dest: substitution_end split: lexeme.split if_splits option.splits)

lemma lexeme_progress [termination_simp]: "i < index_after (lexeme_at s q i) i"
  using index_after_less by blast

lemma lexeme_measure [termination_simp]:
  "i < n \<Longrightarrow> n - index_after (lexeme_at s q i) i < n - i"
  using lexeme_progress [of i s q] by linarith

section \<open>Word ends and comments\<close>

definition ends_word :: "byte \<Rightarrow> bool" where
  "ends_word c \<longleftrightarrow> c = CHR ''>'' \<or> c = CHR ''<'' \<or> is_ascii_whitespace c"

function word_end_loop :: "str \<Rightarrow> quoting \<Rightarrow> nat \<Rightarrow> nat" where
  "word_end_loop s q i =
     (if i \<ge> length s then i
      else let l = lexeme_at s q i in
        if l = Plain \<and> ends_word (s ! i) then i
        else word_end_loop s (flags_after l q) (index_after l i))"
  by auto
termination by (relation "measure (\<lambda>(s, _, i). length s - i)") (auto simp: lexeme_measure)

definition word_end :: "str \<Rightarrow> nat \<Rightarrow> nat" where
  "word_end s start = word_end_loop s unquoted start"

definition ends_comment_word :: "byte \<Rightarrow> bool" where
  "ends_comment_word c \<longleftrightarrow>
     c = CHR '';'' \<or> c = CHR ''&'' \<or> c = CHR ''|'' \<or> is_ascii_whitespace c"

function strip_comment_loop :: "str \<Rightarrow> quoting \<Rightarrow> nat \<Rightarrow> bool \<Rightarrow> str" where
  "strip_comment_loop s q i word_start =
     (if i \<ge> length s then s
      else let l = lexeme_at s q i in
        if l = Plain \<and> s ! i = CHR ''#'' \<and> word_start then take i s
        else strip_comment_loop s (flags_after l q) (index_after l i)
               (l = Plain \<and> ends_comment_word (s ! i)))"
  by auto
termination by (relation "measure (\<lambda>(s, _, i, _). length s - i)") (auto simp: lexeme_measure)

definition strip_comment :: "str \<Rightarrow> str" where
  "strip_comment s = strip_comment_loop s unquoted 0 True"

section \<open>Segments and pipelines\<close>

datatype separator = Always | AndIf | OrIf

record segment =
  g_run_if :: separator
  g_text :: str

definition separator_at :: "str \<Rightarrow> nat \<Rightarrow> (nat \<times> separator) option" where
  "separator_at s i =
     (if s ! i = CHR '';'' then Some (1, Always)
      else if s ! i = CHR ''&'' \<and> byte_get s (i + 1) = Some (CHR ''&'') then Some (2, AndIf)
      else if s ! i = CHR ''|'' \<and> byte_get s (i + 1) = Some (CHR ''|'') then Some (2, OrIf)
      else None)"

lemma separator_width: "separator_at s i = Some (w, r) \<Longrightarrow> 0 < w"
  by (auto simp: separator_at_def split: if_splits)

function split_segments_loop :: "str \<Rightarrow> quoting \<Rightarrow> nat \<Rightarrow> separator \<Rightarrow> nat \<Rightarrow> segment list" where
  "split_segments_loop s q i run_if start =
     (if i \<ge> length s then [\<lparr>g_run_if = run_if, g_text = drop start s\<rparr>]
      else let l = lexeme_at s q i in
        case (if l = Plain then separator_at s i else None) of
          Some (w, next) \<Rightarrow>
            \<lparr>g_run_if = run_if, g_text = slice s start i\<rparr> # split_segments_loop s q (i + w) next (i + w)
        | None \<Rightarrow> split_segments_loop s (flags_after l q) (index_after l i) run_if start)"
  by auto
termination
  by (relation "measure (\<lambda>(s, _, i, _). length s - i)")
    (auto simp: lexeme_measure split: if_splits dest: separator_width)

definition split_segments :: "str \<Rightarrow> segment list" where
  "split_segments s = split_segments_loop s unquoted 0 Always 0"

function split_pipeline_loop :: "str \<Rightarrow> quoting \<Rightarrow> nat \<Rightarrow> nat \<Rightarrow> str list" where
  "split_pipeline_loop s q i start =
     (if i \<ge> length s then [drop start s]
      else let l = lexeme_at s q i in
        if l = Plain \<and> s ! i = CHR ''|'' then slice s start i # split_pipeline_loop s q (i + 1) (i + 1)
        else split_pipeline_loop s (flags_after l q) (index_after l i) start)"
  by auto
termination by (relation "measure (\<lambda>(s, _, i, _). length s - i)") (auto simp: lexeme_measure)

definition split_pipeline :: "str \<Rightarrow> str list" where
  "split_pipeline s = split_pipeline_loop s unquoted 0 0"

declare word_end_loop.simps [simp del] strip_comment_loop.simps [simp del]
  split_segments_loop.simps [simp del] split_pipeline_loop.simps [simp del]

section \<open>Redirections\<close>

datatype redir_stream = Stdout | Stderr | Both
datatype target = ToFile str bool | Dup redir_stream

record redirect =
  r_stream :: redir_stream
  r_target :: target

text \<open>The first index at or after \<open>k\<close> whose byte fails \<open>P\<close>.\<close>

function skip_while :: "(byte \<Rightarrow> bool) \<Rightarrow> str \<Rightarrow> nat \<Rightarrow> nat" where
  "skip_while P s k = (if k < length s \<and> P (s ! k) then skip_while P s (k + 1) else k)"
  by auto
termination by (relation "measure (\<lambda>(_, s, k). length s - k)") auto

declare skip_while.simps [simp del]

text \<open>The descriptor in front of the operator: its stream and where the operator text starts.\<close>

definition descriptor :: "str \<Rightarrow> nat \<Rightarrow> nat \<Rightarrow> redir_stream \<times> nat" where
  "descriptor prefix word_start i =
     (if prefix = ''1'' then (Stdout, word_start)
      else if prefix = ''2'' then (Stderr, word_start)
      else if prefix = ''&'' then (Both, word_start)
      else (Stdout, i))"

text \<open>What the operator at \<open>i\<close> redirects to, and the index past it; \<open>Inl\<close> is the message of bash.\<close>

definition redirect_target :: "str \<Rightarrow> nat \<Rightarrow> str + target \<times> nat" where
  "redirect_target s i =
     (let append = (byte_get s (i + 1) = Some (CHR ''>''));
          j = (if append then i + 2 else i + 1)
      in if \<not> append \<and> byte_get s j = Some (CHR ''&'') then
           (let k = skip_while is_ascii_digit s (j + 1); fd = slice s (j + 1) k in
            if fd = ''1'' then Inr (Dup Stdout, k)
            else if fd = ''2'' then Inr (Dup Stderr, k)
            else Inl (''-bash: '' @ fd @ '': Bad file descriptor'' @ [CHR 0x0A]))
         else
           (let k = skip_while is_ascii_whitespace s j; e = word_end s k in
            if e = k then Inl (''-bash: syntax error near unexpected token `newline'' @ [CHR 0x27, CHR 0x0A])
            else Inr (ToFile (slice s k e) append, e)))"

lemma skip_while_le: "k \<le> skip_while P s k"
proof (induction P s k rule: skip_while.induct)
  case (1 P s k)
  then show ?case by (subst skip_while.simps) (auto intro: Suc_leD)
qed

lemma word_end_loop_le: "i \<le> word_end_loop s q i"
proof (induction s q i rule: word_end_loop.induct)
  case (1 s q i)
  then show ?case
    using lexeme_progress [of i s q] by (subst word_end_loop.simps) (fastforce simp: Let_def)
qed

lemma word_end_le: "i \<le> word_end s i"
  by (simp add: word_end_def word_end_loop_le)

lemma redirect_target_progress: "redirect_target s i = Inr (t, e) \<Longrightarrow> i < e"
  using skip_while_le [of "i + 2" is_ascii_digit s] skip_while_le [of "i + 2" is_ascii_whitespace s]
    skip_while_le [of "i + 1" is_ascii_whitespace s] word_end_le [of "skip_while is_ascii_whitespace s (i + 1)" s]
    word_end_le [of "skip_while is_ascii_whitespace s (i + 2)" s]
  by (auto simp: redirect_target_def Let_def split: if_splits)

record redirect_scan =
  x_command :: str
  x_redirects :: "redirect list"
  x_copy_from :: nat
  x_word_start :: nat
  x_plain_word :: bool

text \<open>How a byte that is not an operator moves the start of the current word.\<close>

definition word_after :: "str \<Rightarrow> nat \<Rightarrow> lexeme \<Rightarrow> redirect_scan \<Rightarrow> redirect_scan" where
  "word_after s i l x = (case l of
      Escaped \<Rightarrow> x
    | Quoted \<Rightarrow> x
    | Plain \<Rightarrow> if is_ascii_whitespace (s ! i) then x\<lparr>x_word_start := i + 1, x_plain_word := True\<rparr> else x
    | _ \<Rightarrow> x\<lparr>x_plain_word := False\<rparr>)"


function split_redirects_loop ::
  "str \<Rightarrow> quoting \<Rightarrow> nat \<Rightarrow> redirect_scan \<Rightarrow> str + str \<times> redirect list" where
  "split_redirects_loop s q i x =
     (if i \<ge> length s then Inr (x_command x @ drop (x_copy_from x) s, x_redirects x)
      else let l = lexeme_at s q i in
        if l = Plain \<and> s ! i = CHR ''>'' then
          (let prefix = (if x_plain_word x then slice s (x_word_start x) i else []);
               d = descriptor prefix (x_word_start x) i
           in case redirect_target s i of
                Inl err \<Rightarrow> Inl err
              | Inr (t, e) \<Rightarrow>
                  split_redirects_loop s q e
                    \<lparr>x_command = x_command x @ slice s (x_copy_from x) (snd d),
                     x_redirects = x_redirects x @ [\<lparr>r_stream = fst d, r_target = t\<rparr>],
                     x_copy_from = e, x_word_start = e, x_plain_word = True\<rparr>)
        else split_redirects_loop s (flags_after l q) (index_after l i) (word_after s i l x))"
  by auto
termination
  by (relation "measure (\<lambda>(s, _, i, _). length s - i)")
    (auto simp: lexeme_measure dest: redirect_target_progress)

declare split_redirects_loop.simps [simp del]

definition split_redirects :: "str \<Rightarrow> str + str \<times> redirect list" where
  "split_redirects s = split_redirects_loop s unquoted 0
     \<lparr>x_command = [], x_redirects = [], x_copy_from = 0, x_word_start = 0, x_plain_word = True\<rparr>"

section \<open>Here-documents\<close>

record heredoc =
  h_delimiter :: str
  h_strip_tabs :: bool
  h_expand :: bool

fun unquote_chars :: "quoting \<Rightarrow> rchar list \<Rightarrow> str" where
  "unquote_chars q [] = []"
| "unquote_chars q (c # cs) =
     (if q_escaped q then c @ unquote_chars (q\<lparr>q_escaped := False\<rparr>) cs
      else if c = [CHR 0x5C] \<and> \<not> q_single q then unquote_chars (q\<lparr>q_escaped := True\<rparr>) cs
      else if c = [CHR 0x27] \<and> \<not> q_double q then unquote_chars (q\<lparr>q_single := \<not> q_single q\<rparr>) cs
      else if c = [CHR 0x22] \<and> \<not> q_single q then unquote_chars (q\<lparr>q_double := \<not> q_double q\<rparr>) cs
      else c @ unquote_chars q cs)"

definition unquote :: "str \<Rightarrow> str" where "unquote w = unquote_chars unquoted (chars w)"

text \<open>The here-document whose operator starts at \<open>i\<close>; \<open>None\<close> when no delimiter follows.\<close>

definition heredoc_at :: "str \<Rightarrow> nat \<Rightarrow> (heredoc \<times> str) option" where
  "heredoc_at s i =
     (let strip_tabs = (byte_get s (i + 2) = Some (CHR ''-''));
          j = skip_while is_ascii_whitespace s (if strip_tabs then i + 3 else i + 2);
          e = word_end s j
      in if e = j then None
         else let raw = slice s j e;
                  quoted = (starts_with raw [CHR 0x27] \<or> starts_with raw [CHR 0x22] \<or> CHR 0x5C \<in> set raw)
              in Some (\<lparr>h_delimiter = unquote raw, h_strip_tabs = strip_tabs, h_expand = \<not> quoted\<rparr>,
                       take i s @ drop e s))"

function split_heredoc_loop :: "str \<Rightarrow> quoting \<Rightarrow> nat \<Rightarrow> (heredoc \<times> str) option" where
  "split_heredoc_loop s q i =
     (if i \<ge> length s then None
      else let l = lexeme_at s q i in
        if l = Plain \<and> s ! i = CHR ''<'' \<and> byte_get s (i + 1) = Some (CHR ''<'') then
          (if byte_get s (i + 2) = Some (CHR ''<'') then split_heredoc_loop s q (i + 3) else heredoc_at s i)
        else split_heredoc_loop s (flags_after l q) (index_after l i))"
  by auto
termination by (relation "measure (\<lambda>(s, _, i). length s - i)") (auto simp: lexeme_measure)

declare split_heredoc_loop.simps [simp del]

definition split_heredoc :: "str \<Rightarrow> (heredoc \<times> str) option" where
  "split_heredoc s = split_heredoc_loop s unquoted 0"

section \<open>Words\<close>

text \<open>The characters a backslash escapes inside double quotes.\<close>

definition dq_escapable :: "rchar list" where "dq_escapable = [''$'', [CHR 0x60], [CHR 0x22], [CHR 0x5C]]"

fun tokenize_chars :: "str \<Rightarrow> bool \<Rightarrow> bool \<Rightarrow> bool \<Rightarrow> rchar list \<Rightarrow> str list" where
  "tokenize_chars cur has_token in_single in_double [] = (if has_token then [cur] else [])"
| "tokenize_chars cur has_token in_single in_double (c # cs) =
     (if c = [CHR 0x27] \<and> \<not> in_double then tokenize_chars cur True (\<not> in_single) in_double cs
      else if c = [CHR 0x22] \<and> \<not> in_single then tokenize_chars cur True in_single (\<not> in_double) cs
      else if c = [CHR 0x5C] \<and> \<not> in_single then
        (case cs of
           [] \<Rightarrow> tokenize_chars cur has_token in_single in_double cs
         | d # ds \<Rightarrow>
             if \<not> in_double \<or> d \<in> set dq_escapable then tokenize_chars (cur @ d) True in_single in_double ds
             else tokenize_chars (cur @ c) True in_single in_double cs)
      else if is_whitespace c \<and> \<not> in_single \<and> \<not> in_double then
        (if has_token then cur # tokenize_chars [] False in_single in_double cs
         else tokenize_chars cur has_token in_single in_double cs)
      else tokenize_chars (cur @ c) True in_single in_double cs)"

definition tokenize :: "str \<Rightarrow> str list" where
  "tokenize s = tokenize_chars [] False False False (chars s)"

end
