(* ===== verification/Utf8_Chars.thy ===== *)
theory Utf8_Chars
  imports Mimic_Prelude
begin

text \<open>
  Characters of well-formed UTF-8: what the type \<open>str\<close> guarantees. On valid text the byte groups that
  \<open>chars\<close> yields are exactly the encoded characters, so text can be built and taken apart
  character by character.
\<close>

definition rchar_ok :: "rchar \<Rightarrow> bool" where
  "rchar_ok c \<longleftrightarrow> c \<noteq> [] \<and> \<not> is_continuation (hd c) \<and> list_all is_continuation (tl c)
     \<and> (u8 (hd c) < 128 \<longrightarrow> tl c = [])"

lemma chars_Cons_rchar:
  assumes "rchar_ok c" "s = [] \<or> \<not> is_continuation (hd s)"
  shows "chars (c @ s) = c # chars s"
proof -
  obtain b bs where c: "c = b # bs" using assms(1) by (cases c) (auto simp: rchar_ok_def)
  have "takeWhile is_continuation (bs @ s) = bs \<and> dropWhile is_continuation (bs @ s) = s"
    using assms c by (intro takeWhile_continuation_append) (auto simp: rchar_ok_def list_all_iff)
  then show ?thesis by (simp add: c)
qed

lemma concat_rchars_head: "list_all rchar_ok cs \<Longrightarrow> concat cs = [] \<or> \<not> is_continuation (hd (concat cs))"
  by (cases cs) (auto simp: rchar_ok_def)

lemma chars_concat: "list_all rchar_ok cs \<Longrightarrow> chars (concat cs) = cs"
proof (induction cs)
  case (Cons c cs)
  then show ?case using chars_Cons_rchar [of c "concat cs"] concat_rchars_head [of cs] by simp
qed simp

lemma and_192: "n < 256 \<Longrightarrow> n AND 0xC0 = n div 64 * 64" for n :: nat
proof -
  assume n: "n < 256"
  have "n AND 0xC0 = push_bit 6 (take_bit 2 (drop_bit 6 n))"
  proof (rule bit_eqI)
    fix k
    have "(192 :: nat) = push_bit 6 (mask 2)" by (simp add: push_bit_eq_mult mask_eq_exp_minus_1)
    then have "bit (192 :: nat) k \<longleftrightarrow> k = 6 \<or> k = 7"
      by (simp only: bit_push_bit_iff_nat bit_mask_iff) auto
    then show "bit (n AND 0xC0) k = bit (push_bit 6 (take_bit 2 (drop_bit 6 n))) k"
      by (auto simp: bit_and_iff bit_push_bit_iff bit_take_bit_iff bit_drop_bit_eq)
  qed
  also have "\<dots> = (n div 64) mod 4 * 64"
    by (simp add: push_bit_eq_mult take_bit_eq_mod drop_bit_eq_div)
  finally show ?thesis using n by simp
qed

lemma is_continuation_iff: "is_continuation b \<longleftrightarrow> 0x80 \<le> u8 b \<and> u8 b \<le> 0xBF"
proof -
  have "n div 64 * 64 = 128 \<longleftrightarrow> 128 \<le> n \<and> n \<le> 191" for n :: nat by auto
  then show ?thesis unfolding is_continuation_def by (simp add: and_192)
qed

lemma utf8_step_rchar:
  assumes "snd (utf8_step s)" "s \<noteq> []"
  shows "rchar_ok (take (fst (utf8_step s)) s)"
proof -
  obtain n where st: "utf8_step s = (n, True)" using assms(1) by (cases "utf8_step s") auto
  have len: "n \<le> length s" using utf8_step_valid_length [OF assms] st by simp
  have "n \<in> {1, 2, 3, 4}" using st by (auto simp: utf8_step_def Let_def split: if_splits)
  then consider "n = 1" | "n = 2" | "n = 3" | "n = 4" by blast
  then have "rchar_ok (take n s)"
  proof cases
    case 1
    then obtain a r where "s = a # r" "u8 a < 128"
      using st assms(2) utf8_step_1 [of s] by (cases s) (auto simp: byte_at_def)
    then show ?thesis using st 1 by (simp add: rchar_ok_def ascii_not_continuation)
  next
    case 2
    then obtain a b r where "s = a # b # r" using len by (cases s; cases "tl s") auto
    then show ?thesis using st 2
      by (auto simp: rchar_ok_def utf8_step_2 byte_at_def cont_at_def is_continuation_iff)
  next
    case 3
    then obtain a b c r where "s = a # b # c # r" using len by (cases s; cases "tl s"; cases "tl (tl s)") auto
    then show ?thesis using st 3
      by (auto simp: rchar_ok_def utf8_step_3 byte_at_def cont_at_def is_continuation_iff)
  next
    case 4
    then obtain a b c d r where "s = a # b # c # d # r"
      using len by (cases s; cases "tl s"; cases "tl (tl s)"; cases "tl (tl (tl s))") auto
    then show ?thesis using st 4
      by (auto simp: rchar_ok_def utf8_step_4 byte_at_def cont_at_def is_continuation_iff)
  qed
  then show ?thesis by (simp add: st)
qed

lemma utf8_valid_rchars: "utf8_valid s \<Longrightarrow> \<exists>cs. s = concat cs \<and> list_all rchar_ok cs"
proof (induction s rule: utf8_valid.induct)
  case (1 s)
  show ?case
  proof (cases "s = []")
    case True
    then show ?thesis by (intro exI [of _ "[]"]) simp
  next
    case False
    then have st: "snd (utf8_step s)" "utf8_valid (drop (fst (utf8_step s)) s)"
      using "1.prems" by (simp_all add: utf8_valid.simps [of s] split: if_splits)
    then obtain cs where "drop (fst (utf8_step s)) s = concat cs" "list_all rchar_ok cs"
      using "1.IH" False by blast
    then show ?thesis using utf8_step_rchar [OF st(1) False]
      by (intro exI [of _ "take (fst (utf8_step s)) s # cs"]) (simp flip: \<open>drop _ _ = _\<close>)
  qed
qed

lemma utf8_valid_chars: "utf8_valid s \<Longrightarrow> list_all rchar_ok (chars s)"
  using utf8_valid_rchars chars_concat by metis

lemma rchar_ok_ascii [simp]: "u8 b < 128 \<Longrightarrow> rchar_ok [b]"
  by (simp add: rchar_ok_def ascii_not_continuation)

section \<open>Valid text in pieces\<close>

definition utf8_unit :: "rchar \<Rightarrow> bool" where
  "utf8_unit c \<longleftrightarrow> c \<noteq> [] \<and> utf8_step c = (length c, True)"

lemma utf8_unit_step: "utf8_unit c \<Longrightarrow> utf8_step (c @ r) = (length c, True)"
  using utf8_step_append [of c r] by (simp add: utf8_unit_def)

lemma utf8_unit_rchar: "utf8_unit c \<Longrightarrow> rchar_ok c"
  using utf8_step_rchar [of c] by (simp add: utf8_unit_def)

lemma utf8_valid_Cons: "utf8_unit c \<Longrightarrow> utf8_valid (c @ r) = utf8_valid r"
  using utf8_unit_step [of c r] by (subst utf8_valid.simps) (auto simp: utf8_unit_def)

lemma utf8_valid_concat: "list_all utf8_unit cs \<Longrightarrow> utf8_valid (concat cs)"
  by (induction cs) (simp_all add: utf8_valid_Cons)

lemma utf8_valid_units: "utf8_valid s \<Longrightarrow> \<exists>cs. s = concat cs \<and> list_all utf8_unit cs"
proof (induction s rule: utf8_valid.induct)
  case (1 s)
  show ?case
  proof (cases "s = []")
    case True
    then show ?thesis by (intro exI [of _ "[]"]) simp
  next
    case False
    let ?n = "fst (utf8_step s)"
    from False have st: "snd (utf8_step s)" "utf8_valid (drop ?n s)"
      using "1.prems" by (simp_all add: utf8_valid.simps [of s] split: if_splits)
    then obtain cs where cs: "drop ?n s = concat cs" "list_all utf8_unit cs"
      using "1.IH" False by blast
    have "utf8_unit (take ?n s)"
      using utf8_step_append [OF st(1) False, of "[]"] utf8_step_valid_length [OF st(1) False] False st(1)
      by (auto simp: utf8_unit_def prod_eq_iff)
    then show ?thesis using cs by (intro exI [of _ "take ?n s # cs"]) (simp flip: cs(1))
  qed
qed

lemma utf8_chars_units: "utf8_valid s \<Longrightarrow> list_all utf8_unit (chars s)"
proof -
  assume "utf8_valid s"
  then obtain cs where cs: "s = concat cs" "list_all utf8_unit cs" using utf8_valid_units by blast
  then have "list_all rchar_ok cs" using utf8_unit_rchar by (auto simp: list_all_iff)
  with cs show ?thesis by (simp add: chars_concat)
qed

lemma utf8_valid_append: "utf8_valid a \<Longrightarrow> utf8_valid b \<Longrightarrow> utf8_valid (a @ b)"
proof -
  assume "utf8_valid a" "utf8_valid b"
  then have "utf8_valid (concat (chars a @ chars b))"
    by (intro utf8_valid_concat) (simp add: utf8_chars_units)
  then show ?thesis by simp
qed

definition boundary :: "byte list \<Rightarrow> nat \<Rightarrow> bool" where
  "boundary s i \<longleftrightarrow> i = 0 \<or> i \<ge> length s \<or> \<not> is_continuation (s ! i)"

lemma boundary_split:
  "list_all rchar_ok cs \<Longrightarrow> boundary (concat cs) i \<Longrightarrow> i \<le> length (concat cs) \<Longrightarrow>
   \<exists>as bs. cs = as @ bs \<and> take i (concat cs) = concat as \<and> drop i (concat cs) = concat bs"
proof (induction cs arbitrary: i)
  case Nil
  then show ?case by simp
next
  case (Cons c cs)
  consider "i = 0" | "0 < i" "i < length c" | "length c \<le> i" by linarith
  then show ?case
  proof cases
    case 1
    then show ?thesis by (intro exI [of _ "[]"] exI [of _ "c # cs"]) simp
  next
    case 2
    then have "(c @ concat cs) ! i \<in> set (tl c)"
      by (cases c) (auto simp: nth_append nth_Cons split: nat.splits)
    then show ?thesis using Cons.prems 2 by (auto simp: boundary_def rchar_ok_def list_all_iff)
  next
    case 3
    have "boundary (concat cs) (i - length c)"
      using Cons.prems 3 by (auto simp: boundary_def nth_append)
    then obtain as bs where "cs = as @ bs" "take (i - length c) (concat cs) = concat as"
        "drop (i - length c) (concat cs) = concat bs"
    proof -
      have "list_all rchar_ok cs" "i - length c \<le> length (concat cs)" using Cons.prems 3 by auto
      from Cons.IH [OF this(1) \<open>boundary (concat cs) (i - length c)\<close> this(2)] show ?thesis using that by blast
    qed
    then show ?thesis using 3 by (intro exI [of _ "c # as"] exI [of _ bs]) simp
  qed
qed

lemma utf8_valid_cut:
  assumes "utf8_valid s" "boundary s i"
  shows "utf8_valid (take i s)" "utf8_valid (drop i s)"
proof -
  have u: "list_all utf8_unit (chars s)" using assms(1) by (rule utf8_chars_units)
  then have "list_all rchar_ok (chars s)" using utf8_unit_rchar by (auto simp: list_all_iff)
  then have "i \<le> length s \<Longrightarrow> \<exists>as bs. chars s = as @ bs \<and> take i s = concat as \<and> drop i s = concat bs"
    using boundary_split [of "chars s" i] assms(2) by simp
  then have "i \<le> length s \<Longrightarrow> utf8_valid (take i s) \<and> utf8_valid (drop i s)"
    using u utf8_valid_concat by (metis list_all_append)
  then show "utf8_valid (take i s)" "utf8_valid (drop i s)" using assms(1) by (cases "i \<le> length s"; simp)+
qed

lemma from_utf8_lossy_length: "length (from_utf8_lossy bs) \<le> 3 * length bs"
proof (induction bs rule: from_utf8_lossy.induct)
  case (1 bs)
  let ?n = "fst (utf8_step bs)"
  show ?case
  proof (cases "bs = []")
    case False
    then have IH: "length (from_utf8_lossy (drop ?n bs)) \<le> 3 * (length bs - ?n)" using 1 by simp
    have "length (if snd (utf8_step bs) then take ?n bs else replacement) \<le> 3 * min ?n (length bs)"
    proof -
      have "1 \<le> min ?n (length bs)" using False utf8_step_pos [of bs] by (simp add: Suc_le_eq)
      then show ?thesis
      proof (cases "snd (utf8_step bs)")
        case True
        have "length (take ?n bs) = min ?n (length bs)" by (simp add: min.commute)
        with True show ?thesis by simp
      next
        case False
        have "length replacement = 3" by (simp add: replacement_def)
        then have "length replacement \<le> 3 * min ?n (length bs)" using \<open>1 \<le> min ?n (length bs)\<close> by linarith
        with False show ?thesis by (simp only: if_False)
      qed
    qed
    then show ?thesis using IH False by (subst from_utf8_lossy.simps) (auto split: if_splits)
  qed simp
qed

lemma trim_valid: "utf8_valid s \<Longrightarrow> utf8_valid (trim s)"
proof -
  assume "utf8_valid s"
  then have "list_all utf8_unit (trim_chars (chars s))"
    using utf8_chars_units [of s]
    by (auto simp: trim_chars_def list_all_iff dest!: set_dropWhileD)
  then show ?thesis by (simp add: trim_def utf8_valid_concat)
qed

lemma length_concat_dropWhile: "length (concat (dropWhile P cs)) \<le> length (concat cs)"
  by (induction cs) auto

lemma length_concat_rev: "length (concat (rev cs)) = length (concat cs)"
  by (induction cs) auto

lemma trim_length: "length (trim s) \<le> length s"
  using length_concat_dropWhile [of is_whitespace "rev (dropWhile is_whitespace (chars s))"]
    length_concat_dropWhile [of is_whitespace "chars s"]
  by (simp add: trim_def trim_chars_def length_concat_rev)

lemma ascii_then_boundary:
  "list_all rchar_ok cs \<Longrightarrow> k < length (concat cs) \<Longrightarrow> u8 (concat cs ! k) < 128 \<Longrightarrow> boundary (concat cs) (Suc k)"
proof (induction cs arbitrary: k)
  case (Cons c cs)
  show ?case
  proof (cases "k < length c")
    case True
    have "k = 0"
    proof (rule ccontr)
      assume "k \<noteq> 0"
      then have "c ! k \<in> set (tl c)" using True by (cases c) (auto simp: nth_Cons split: nat.splits)
      then show False
        using Cons.prems True by (auto simp: rchar_ok_def list_all_iff nth_append is_continuation_iff)
    qed
    then have "length c = 1" using Cons.prems True by (cases c) (auto simp: rchar_ok_def nth_append)
    then show ?thesis using \<open>k = 0\<close> concat_rchars_head [of cs] Cons.prems
      by (cases "concat cs") (auto simp: boundary_def nth_append)
  next
    case False
    then have "boundary (concat cs) (Suc (k - length c))"
      using Cons.IH [of "k - length c"] Cons.prems by (auto simp: nth_append)
    then show ?thesis using False by (auto simp: boundary_def nth_append Suc_diff_le)
  qed
qed simp

lemma utf8_valid_around_ascii:
  assumes "utf8_valid (a @ d # b)" "u8 d < 128"
  shows "utf8_valid a" "utf8_valid b"
proof -
  let ?s = "a @ d # b"
  have cs: "list_all rchar_ok (chars ?s)" using utf8_valid_chars [OF assms(1)] .
  have "boundary ?s (Suc (length a))"
    using ascii_then_boundary [OF cs, of "length a"] assms(2) by simp
  from utf8_valid_cut(2) [OF assms(1) this] show "utf8_valid b" by simp
  have "boundary ?s (length a)" using ascii_not_continuation [OF assms(2)] by (simp add: boundary_def)
  from utf8_valid_cut(1) [OF assms(1) this] show "utf8_valid a" by simp
qed

end
