(* ===== verification/Scp.thy ===== *)
theory Scp
  imports Shell_Parser Utf8_Chars
begin

text \<open>
  The SCP sink (\<open>src/network/scp.rs\<close>): recognition of an \<open>scp\<close> command line and the state machine
  that receives files, fed the bytes of the channel. The SHA-256 implementation is a library; the
  sink uses it through its three operations, which are a record argument of the definitions here.
  \<open>hex\<close> is the helper of \<open>src/network/ssh.rs\<close>.
\<close>

record 'h hasher =
  h_new :: 'h
  h_update :: "'h \<Rightarrow> byte list \<Rightarrow> 'h"
  h_finalize :: "'h \<Rightarrow> byte list"

section \<open>The command line\<close>

datatype scp_mode =
    Sink str bool
  | Source str

definition after_last :: "(byte \<Rightarrow> bool) \<Rightarrow> str \<Rightarrow> str" where
  "after_last P s = rev (takeWhile (\<lambda>b. \<not> P b) (rev s))"

record scp_args =
  sa_sink :: bool
  sa_source :: bool
  sa_recursive :: bool
  sa_path :: "str option"

definition scp_flag :: "rchar \<Rightarrow> scp_args \<Rightarrow> scp_args" where
  "scp_flag ch a =
     (if ch = ''t'' then a\<lparr>sa_sink := True\<rparr>
      else if ch = ''f'' then a\<lparr>sa_source := True\<rparr>
      else if ch = ''r'' then a\<lparr>sa_recursive := True\<rparr>
      else a)"

definition scp_arg :: "str \<Rightarrow> scp_args \<Rightarrow> scp_args" where
  "scp_arg tok a =
     (if tok = ''--'' then a
      else case strip_prefix ''-'' tok of
        Some flags \<Rightarrow> fold scp_flag (chars flags) a
      | None \<Rightarrow> a\<lparr>sa_path := Some tok\<rparr>)"

definition parse_scp :: "str \<Rightarrow> scp_mode option" where
  "parse_scp cmd = (case tokenize cmd of
      [] \<Rightarrow> None
    | first # args \<Rightarrow>
        if after_last (\<lambda>b. b = CHR ''/'' \<or> b = CHR 0x5C) first \<noteq> ''scp'' then None
        else
          (let a = fold scp_arg args \<lparr>sa_sink = False, sa_source = False, sa_recursive = False, sa_path = None\<rparr> in
           case sa_path a of
             None \<Rightarrow> None
           | Some path \<Rightarrow>
               if sa_sink a then Some (Sink path (sa_recursive a))
               else if sa_source a then Some (Source path)
               else None))"

section \<open>The state machine\<close>

record completed_file =
  cf_name :: str
  cf_rel_dir :: str
  cf_mode :: nat
  cf_data :: "byte list"
  cf_size :: nat
  cf_sha256 :: str
  cf_truncated :: bool

record 'h incoming =
  in_name :: str
  in_mode :: nat
  in_size :: nat
  in_remaining :: nat
  in_data :: "byte list"
  in_hasher :: 'h
  in_truncated :: bool

record 'h scp_sink =
  sk_target :: str
  sk_recursive :: bool
  sk_max_bytes :: nat
  sk_dirs :: "str list"
  sk_buf :: "byte list"
  sk_file :: "'h incoming option"

definition scp_new :: "str \<Rightarrow> bool \<Rightarrow> nat \<Rightarrow> 'h scp_sink" where
  "scp_new target rec max_bytes =
     \<lparr>sk_target = target, sk_recursive = rec, sk_max_bytes = max_bytes, sk_dirs = [], sk_buf = [], sk_file = None\<rparr>"

definition MAX_CONTROL_LINE :: nat where "MAX_CONTROL_LINE = 8192"
definition MAX_SCP_DEPTH :: nat where "MAX_SCP_DEPTH = 32"

definition hex :: "byte list \<Rightarrow> str" where
  "hex bs = concat (map (\<lambda>b. [hex_digit (u8 b div 16), hex_digit (u8 b mod 16)]) bs)"

text \<open>\<open>str::replace("..", "_")\<close>: non-overlapping occurrences from the left.\<close>

fun replace_dotdot :: "str \<Rightarrow> str" where
  "replace_dotdot (a # b # s) =
     (if a = CHR ''.'' \<and> b = CHR ''.'' then CHR ''_'' # replace_dotdot s else a # replace_dotdot (b # s))"
| "replace_dotdot s = s"

definition sanitise_name :: "str \<Rightarrow> str" where
  "sanitise_name raw_name =
     (let stripped = concat (filter (\<lambda>c. \<not> is_control c) (chars raw_name));
          name = replace_dotdot (map (\<lambda>b. if b = CHR ''/'' \<or> b = CHR 0x5C then CHR ''_'' else b) stripped) in
      if name = [] then ''unnamed'' else name)"

text \<open>\<open>splitn(3, ' ')\<close>: at most three fields, the last one holding the rest of the text.\<close>

fun splitn :: "nat \<Rightarrow> byte \<Rightarrow> str \<Rightarrow> str list" where
  "splitn 0 d s = []"
| "splitn (Suc n) d s =
     (if n = 0 \<or> d \<notin> set s then [s]
      else takeWhile (\<lambda>b. b \<noteq> d) s # splitn n d (tl (dropWhile (\<lambda>b. b \<noteq> d) s)))"

text \<open>\<open>mode_field.get(1..)\<close> is \<open>None\<close> when the text is empty or its first character has several bytes.\<close>

definition parse_cd :: "str \<Rightarrow> (nat \<times> nat \<times> str) option" where
  "parse_cd line = (case splitn 3 (CHR '' '') line of
      [mode_field, size_field, rest] \<Rightarrow>
        if mode_field = [] \<or> \<not> boundary mode_field 1 then None
        else
          (case parse_unsigned 32 8 (drop 1 mode_field) of
             None \<Rightarrow> None
           | Some mode \<Rightarrow>
               (case parse_unsigned 64 10 size_field of
                  None \<Rightarrow> None
                | Some sz \<Rightarrow> Some (mode, sz, sanitise_name (trim rest))))
    | _ \<Rightarrow> None)"

definition handle_control :: "'h hasher \<Rightarrow> 'h scp_sink \<Rightarrow> byte list \<Rightarrow> 'h scp_sink" where
  "handle_control H sk line =
     (let t = from_utf8_lossy line in
      case chars t of
        [] \<Rightarrow> sk
      | c # _ \<Rightarrow>
          if c = ''C'' then
            (case parse_cd t of
               Some (mode, sz, name) \<Rightarrow>
                 sk\<lparr>sk_file := Some \<lparr>in_name = name, in_mode = mode, in_size = sz, in_remaining = sz,
                                    in_data = [], in_hasher = h_new H, in_truncated = False\<rparr>\<rparr>
             | None \<Rightarrow> sk)
          else if c = ''D'' then
            (case parse_cd t of
               Some (_, _, name) \<Rightarrow>
                 if length (sk_dirs sk) < MAX_SCP_DEPTH then sk\<lparr>sk_dirs := sk_dirs sk @ [name]\<rparr> else sk
             | None \<Rightarrow> sk)
          else if c = ''E'' then sk\<lparr>sk_dirs := butlast (sk_dirs sk)\<rparr>
          else sk)"

text \<open>One byte: the sink after it, the acknowledgement it causes and the file it completes.\<close>

definition feed_byte :: "'h hasher \<Rightarrow> 'h scp_sink \<Rightarrow> byte \<Rightarrow> 'h scp_sink \<times> byte list \<times> completed_file list" where
  "feed_byte H sk b = (case sk_file sk of
      Some f \<Rightarrow>
        if in_remaining f > 0 then
          (sk\<lparr>sk_file := Some (f\<lparr>in_hasher := h_update H (in_hasher f) [b],
                                 in_data := (if length (in_data f) < sk_max_bytes sk then in_data f @ [b] else in_data f),
                                 in_truncated := (if length (in_data f) < sk_max_bytes sk then in_truncated f else True),
                                 in_remaining := in_remaining f - 1\<rparr>)\<rparr>, [], [])
        else
          (sk\<lparr>sk_file := None\<rparr>, [CHR 0x00],
           [\<lparr>cf_name = in_name f, cf_rel_dir = join ''/'' (sk_dirs sk), cf_mode = in_mode f, cf_data = in_data f,
             cf_size = in_size f, cf_sha256 = hex (h_finalize H (in_hasher f)), cf_truncated = in_truncated f\<rparr>])
    | None \<Rightarrow>
        if b = CHR 0x0A then (handle_control H (sk\<lparr>sk_buf := []\<rparr>) (sk_buf sk), [CHR 0x00], [])
        else if b \<noteq> CHR 0x0D then
          (if length (sk_buf sk) < MAX_CONTROL_LINE then (sk\<lparr>sk_buf := sk_buf sk @ [b]\<rparr>, [], [])
           else (sk\<lparr>sk_buf := [], sk_file := None, sk_dirs := []\<rparr>, [], []))
        else (sk, [], []))"

fun feed :: "'h hasher \<Rightarrow> 'h scp_sink \<Rightarrow> byte list \<Rightarrow> 'h scp_sink \<times> byte list \<times> completed_file list" where
  "feed H sk [] = (sk, [], [])"
| "feed H sk (b # bs) =
     (let (sk1, acks1, done1) = feed_byte H sk b;
          (sk2, acks2, done2) = feed H sk1 bs
      in (sk2, acks1 @ acks2, done1 @ done2))"

end
