(* ===== verification/Sftp_Wire.thy ===== *)
theory Sftp_Wire
  imports Listing Scp
begin

text \<open>
  The wire format of \<open>src/network/sftp.rs\<close>: packet types and status codes, the big-endian encoders
  (a source function appending to \<open>out\<close> is the byte list it appends), the decoders (a cursor that
  advances is the rest returned) and the path normalisation that every request goes through.
\<close>

definition SSH_FXP_INIT :: nat where "SSH_FXP_INIT = 1"
definition SSH_FXP_VERSION :: nat where "SSH_FXP_VERSION = 2"
definition SSH_FXP_OPEN :: nat where "SSH_FXP_OPEN = 3"
definition SSH_FXP_CLOSE :: nat where "SSH_FXP_CLOSE = 4"
definition SSH_FXP_READ :: nat where "SSH_FXP_READ = 5"
definition SSH_FXP_WRITE :: nat where "SSH_FXP_WRITE = 6"
definition SSH_FXP_LSTAT :: nat where "SSH_FXP_LSTAT = 7"
definition SSH_FXP_FSTAT :: nat where "SSH_FXP_FSTAT = 8"
definition SSH_FXP_SETSTAT :: nat where "SSH_FXP_SETSTAT = 9"
definition SSH_FXP_FSETSTAT :: nat where "SSH_FXP_FSETSTAT = 10"
definition SSH_FXP_OPENDIR :: nat where "SSH_FXP_OPENDIR = 11"
definition SSH_FXP_READDIR :: nat where "SSH_FXP_READDIR = 12"
definition SSH_FXP_REMOVE :: nat where "SSH_FXP_REMOVE = 13"
definition SSH_FXP_MKDIR :: nat where "SSH_FXP_MKDIR = 14"
definition SSH_FXP_RMDIR :: nat where "SSH_FXP_RMDIR = 15"
definition SSH_FXP_REALPATH :: nat where "SSH_FXP_REALPATH = 16"
definition SSH_FXP_STAT :: nat where "SSH_FXP_STAT = 17"
definition SSH_FXP_RENAME :: nat where "SSH_FXP_RENAME = 18"
definition SSH_FXP_READLINK :: nat where "SSH_FXP_READLINK = 19"
definition SSH_FXP_SYMLINK :: nat where "SSH_FXP_SYMLINK = 20"
definition SSH_FXP_STATUS :: nat where "SSH_FXP_STATUS = 101"
definition SSH_FXP_HANDLE :: nat where "SSH_FXP_HANDLE = 102"
definition SSH_FXP_DATA :: nat where "SSH_FXP_DATA = 103"
definition SSH_FXP_NAME :: nat where "SSH_FXP_NAME = 104"
definition SSH_FXP_ATTRS :: nat where "SSH_FXP_ATTRS = 105"

definition SSH_FX_OK :: u32 where "SSH_FX_OK = 0"
definition SSH_FX_EOF :: u32 where "SSH_FX_EOF = 1"
definition SSH_FX_NO_SUCH_FILE :: u32 where "SSH_FX_NO_SUCH_FILE = 2"
definition SSH_FX_FAILURE :: u32 where "SSH_FX_FAILURE = 4"
definition SSH_FX_BAD_MESSAGE :: u32 where "SSH_FX_BAD_MESSAGE = 5"
definition SSH_FX_OP_UNSUPPORTED :: u32 where "SSH_FX_OP_UNSUPPORTED = 8"

definition SSH_FXF_READ :: u32 where "SSH_FXF_READ = 1"
definition SSH_FXF_WRITE :: u32 where "SSH_FXF_WRITE = 2"

lemmas sftp_codes = SSH_FXP_INIT_def SSH_FXP_VERSION_def SSH_FXP_OPEN_def SSH_FXP_CLOSE_def SSH_FXP_READ_def
  SSH_FXP_WRITE_def SSH_FXP_LSTAT_def SSH_FXP_FSTAT_def SSH_FXP_SETSTAT_def SSH_FXP_FSETSTAT_def
  SSH_FXP_OPENDIR_def SSH_FXP_READDIR_def SSH_FXP_REMOVE_def SSH_FXP_MKDIR_def SSH_FXP_RMDIR_def
  SSH_FXP_REALPATH_def SSH_FXP_STAT_def SSH_FXP_RENAME_def SSH_FXP_READLINK_def SSH_FXP_SYMLINK_def
  SSH_FXP_STATUS_def SSH_FXP_HANDLE_def SSH_FXP_DATA_def SSH_FXP_NAME_def SSH_FXP_ATTRS_def SSH_FX_OK_def
  SSH_FX_EOF_def SSH_FX_NO_SUCH_FILE_def SSH_FX_FAILURE_def SSH_FX_BAD_MESSAGE_def SSH_FX_OP_UNSUPPORTED_def
  SSH_FXF_READ_def SSH_FXF_WRITE_def

section \<open>Encoding\<close>

text \<open>\<open>to_be_bytes\<close> of a number of \<open>k\<close> bytes.\<close>

fun be_bytes :: "nat \<Rightarrow> nat \<Rightarrow> byte list" where
  "be_bytes 0 x = []"
| "be_bytes (Suc k) x = be_bytes k (x div 256) @ [char_of (x mod 256)]"

definition be_value :: "byte list \<Rightarrow> nat" where
  "be_value bs = foldl (\<lambda>a b. a * 256 + u8 b) 0 bs"

definition put_u32 :: "u32 \<Rightarrow> byte list" where "put_u32 v = be_bytes 4 (unat v)"
definition put_u64 :: "nat \<Rightarrow> byte list" where "put_u64 v = be_bytes 8 v"

definition put_bytes :: "byte list \<Rightarrow> byte list" where
  "put_bytes d = put_u32 (word_of_nat (length d)) @ d"

definition put_str :: "str \<Rightarrow> byte list" where "put_str s = put_bytes s"

definition put_attrs :: "metadata \<Rightarrow> nat \<Rightarrow> byte list" where
  "put_attrs m sz = put_u32 (1 OR 2 OR 4 OR 8) @ put_u64 sz @ put_u32 (m_uid m) @ put_u32 (m_gid m) @ put_u32 (m_mode m)
     @ put_u32 (word_of_int (m_mtime m)) @ put_u32 (word_of_int (m_mtime m))"

definition send_packet :: "nat \<Rightarrow> byte list \<Rightarrow> byte list" where
  "send_packet ty payload = put_u32 (word_of_nat (length payload + 1)) @ char_of ty # payload"

definition put_status :: "u32 \<Rightarrow> u32 \<Rightarrow> str \<Rightarrow> byte list" where
  "put_status rid code msg = send_packet SSH_FXP_STATUS (put_u32 rid @ put_u32 code @ put_str msg @ put_str [])"

definition put_handle :: "u32 \<Rightarrow> byte list \<Rightarrow> byte list" where
  "put_handle rid h = send_packet SSH_FXP_HANDLE (put_u32 rid @ put_bytes h)"

definition put_data :: "u32 \<Rightarrow> byte list \<Rightarrow> byte list" where
  "put_data rid d = send_packet SSH_FXP_DATA (put_u32 rid @ put_bytes d)"

definition put_attrs_pkt :: "u32 \<Rightarrow> metadata \<Rightarrow> nat \<Rightarrow> byte list" where
  "put_attrs_pkt rid m sz = send_packet SSH_FXP_ATTRS (put_u32 rid @ put_attrs m sz)"

type_synonym name_entry = "str \<times> str \<times> (metadata \<times> nat) option"

definition put_name_entry :: "name_entry \<Rightarrow> byte list" where
  "put_name_entry e = (case e of (nm, longname, attrs) \<Rightarrow>
     put_str nm @ put_str longname @ (case attrs of Some (m, sz) \<Rightarrow> put_attrs m sz | None \<Rightarrow> put_u32 0))"

definition put_name_pkt :: "u32 \<Rightarrow> name_entry list \<Rightarrow> byte list" where
  "put_name_pkt rid es = send_packet SSH_FXP_NAME
     (put_u32 rid @ put_u32 (word_of_nat (length es)) @ concat (map put_name_entry es))"

section \<open>Decoding\<close>

type_synonym 'a decoder = "byte list \<Rightarrow> ('a \<times> byte list) option"

definition get_u32 :: "u32 decoder" where
  "get_u32 cur = (if length cur < 4 then None else Some (word_of_nat (be_value (take 4 cur)), drop 4 cur))"

definition get_u64 :: "nat decoder" where
  "get_u64 cur = (if length cur < 8 then None else Some (be_value (take 8 cur), drop 8 cur))"

definition get_bytes :: "byte list decoder" where
  "get_bytes cur = (case get_u32 cur of
      None \<Rightarrow> None
    | Some (n, cur1) \<Rightarrow> if length cur1 < unat n then None else Some (take (unat n) cur1, drop (unat n) cur1))"

definition get_str :: "str decoder" where
  "get_str cur = (case get_bytes cur of
      None \<Rightarrow> None
    | Some (bs, cur1) \<Rightarrow> if utf8_valid bs then Some (bs, cur1) else None)"

record parsed_attrs =
  pa_permissions :: "u32 option"
  pa_uid_gid :: "(u32 \<times> u32) option"
  pa_acmodtime :: "(u32 \<times> u32) option"

definition get_u32_pair :: "(u32 \<times> u32) decoder" where
  "get_u32_pair cur = Option.bind (get_u32 cur) (\<lambda>(a, cur1).
     Option.bind (get_u32 cur1) (\<lambda>(b, cur2). Some ((a, b), cur2)))"

text \<open>A field that is present when its flag is set.\<close>

definition get_if :: "bool \<Rightarrow> 'a decoder \<Rightarrow> 'a option decoder" where
  "get_if present d cur = (if present then Option.bind (d cur) (\<lambda>(a, cur1). Some (Some a, cur1)) else Some (None, cur))"

text \<open>The extended pairs, decoded and dropped.\<close>

fun skip_pairs :: "nat \<Rightarrow> unit decoder" where
  "skip_pairs 0 cur = Some ((), cur)"
| "skip_pairs (Suc k) cur = Option.bind (get_bytes cur) (\<lambda>(_, cur1).
     Option.bind (get_bytes cur1) (\<lambda>(_, cur2). skip_pairs k cur2))"

definition get_attrs :: "byte list \<Rightarrow> parsed_attrs option" where
  "get_attrs cur = Option.bind (get_u32 cur) (\<lambda>(flags, c1).
     Option.bind (get_if (flags AND 1 \<noteq> 0) get_u64 c1) (\<lambda>(_, c2).
     Option.bind (get_if (flags AND 2 \<noteq> 0) get_u32_pair c2) (\<lambda>(uid_gid, c3).
     Option.bind (get_if (flags AND 4 \<noteq> 0) get_u32 c3) (\<lambda>(permissions, c4).
     Option.bind (get_if (flags AND 8 \<noteq> 0) get_u32_pair c4) (\<lambda>(acmodtime, c5).
     Option.bind (get_if (flags AND 0x80000000 \<noteq> 0)
         (\<lambda>c. Option.bind (get_u32 c) (\<lambda>(count, c'). skip_pairs (unat count) c')) c5) (\<lambda>_.
       Some \<lparr>pa_permissions = permissions, pa_uid_gid = uid_gid, pa_acmodtime = acmodtime\<rparr>))))))"

section \<open>Paths\<close>

definition sanitise_path :: "str \<Rightarrow> str" where
  "sanitise_path path =
     concat (filter (\<lambda>c. \<not> is_control c) (chars (map (\<lambda>b. if b = CHR 0x5C then CHR ''/'' else b) path)))"

definition push_component :: "str \<Rightarrow> str list \<Rightarrow> str list" where
  "push_component c parts =
     (if c = [] \<or> c = ''.'' then parts
      else if c = ''..'' then butlast parts
      else parts @ [c])"

definition normalize_path :: "str \<Rightarrow> str \<Rightarrow> str" where
  "normalize_path cwd path =
     (let sanitized = sanitise_path path;
          raw = (if starts_with sanitized ''/'' then sanitized
                 else if cwd = ''/'' then ''/'' @ sanitized
                 else cwd @ ''/'' @ sanitized);
          parts = fold push_component (split_on (CHR ''/'') raw) []
      in if parts = [] then ''/'' else ''/'' @ join ''/'' parts)"

definition format_dir_entry :: "int \<Rightarrow> str \<Rightarrow> metadata \<Rightarrow> nat \<Rightarrow> str option \<Rightarrow> str" where
  "format_dir_entry now nm m sz target =
     mode_string (m_mode m) @ '' '' @ spaces 2 (if is_dir m then 2 else 1) @ '' ''
     @ pad_right CHR '' '' 8 (uid_name (m_uid m)) @ '' '' @ pad_right CHR '' '' 8 (gid_name (m_gid m)) @ '' ''
     @ spaces 8 sz @ '' '' @ format_time now (m_mtime m) @ '' '' @ nm
     @ (case target of Some t \<Rightarrow> '' -> '' @ t | None \<Rightarrow> [])"

end
