(* ===== verification/Env.thy ===== *)
theory Env
  imports Mimic_Prelude
begin

text \<open>
  The shell's environment variables (\<open>src/shell/env.rs\<close>): an ordered map with a cap on the
  number of variables and on the length of a value, counted in characters.
\<close>

type_synonym env = "(str, str) btree"

definition MAX_ENV_VARS :: nat where "MAX_ENV_VARS = 256"
definition MAX_ENV_VALUE_LEN :: nat where "MAX_ENV_VALUE_LEN = 4096"

definition env_login :: "str \<Rightarrow> str \<Rightarrow> str \<Rightarrow> env" where
  "env_login user home hostname =
     fold (\<lambda>(k, v). bt_insert k v)
       [(''USER'', user), (''LOGNAME'', user), (''HOME'', home), (''PWD'', home),
        (''SHELL'', ''/bin/bash''),
        (''PATH'', ''/usr/local/sbin:/usr/local/bin:/usr/sbin:/usr/bin:/sbin:/bin:/usr/games:/usr/local/games''),
        (''TERM'', ''xterm-256color''), (''LANG'', ''en_US.UTF-8''),
        (''MAIL'', ''/var/mail/'' @ user), (''HOSTNAME'', hostname), (''SHLVL'', ''1''),
        (''_'', ''/usr/bin/bash'')]
       []"

definition env_get :: "env \<Rightarrow> str \<Rightarrow> str option" where
  "env_get e k = bt_get e k"

definition env_set :: "env \<Rightarrow> str \<Rightarrow> str \<Rightarrow> env" where
  "env_set e k v =
     (if bt_get e k = None \<and> length e \<ge> MAX_ENV_VARS then e
      else bt_insert k (concat (take MAX_ENV_VALUE_LEN (chars v))) e)"

definition env_unset :: "env \<Rightarrow> str \<Rightarrow> bool \<times> env" where
  "env_unset e k = (bt_get e k \<noteq> None, bt_remove k e)"

definition env_iter :: "env \<Rightarrow> (str \<times> str) list" where
  "env_iter e = e"

text \<open>The well-formed environments: sorted, at most 256 variables.\<close>

definition env_ok :: "env \<Rightarrow> bool" where
  "env_ok e \<longleftrightarrow> bt_ok e \<and> length e \<le> MAX_ENV_VARS"

lemma length_bt_insert:
  "length (bt_insert k v m) = (if bt_get m k = None then Suc (length m) else length m)" if "bt_ok m"
  using that
proof (induction k v m rule: bt_insert.induct)
  case (2 k v k' v' m)
  have "bt_get ((k', v') # m) k = None" if "k < k'"
  proof -
    have "\<forall>x \<in> fst ` set m. k < x" using "2.prems" that by (auto simp: bt_ok_def)
    then show ?thesis using that by (auto simp: bt_get_def map_of_eq_None_iff)
  qed
  with 2 show ?case by (auto simp: bt_get_def bt_ok_def)
qed (simp add: bt_get_def)

lemma env_ok_set [wf_intros]: "env_ok e \<Longrightarrow> env_ok (env_set e k v)"
  by (auto simp: env_ok_def env_set_def bt_ok_insert length_bt_insert)

lemma env_ok_unset [wf_intros]: "env_ok e \<Longrightarrow> env_ok (snd (env_unset e k))"
  by (simp add: env_ok_def env_unset_def bt_ok_remove) (simp add: bt_remove_def le_trans [OF length_filter_le])

lemma env_get_set:
  "env_ok e \<Longrightarrow> env_get (env_set e k v) k' =
     (if k' = k \<and> (env_get e k \<noteq> None \<or> length e < MAX_ENV_VARS)
      then Some (concat (take MAX_ENV_VALUE_LEN (chars v))) else env_get e k')"
  by (auto simp: env_get_def env_set_def env_ok_def bt_get_insert)

lemma env_get_unset: "env_ok e \<Longrightarrow> env_get (snd (env_unset e k)) k' = (if k' = k then None else env_get e k')"
  by (simp add: env_get_def env_unset_def bt_get_remove)

lemma env_ok_login: "env_ok (env_login user home hostname)"
  by (simp add: env_ok_def env_login_def MAX_ENV_VARS_def) (simp add: bt_ok_def)

section \<open>Properties\<close>

inductive env_states :: "env \<Rightarrow> bool" where
  env_start: "env_states (env_login user home hostname)"
| env_set_step: "env_states e \<Longrightarrow> env_states (env_set e k v)"
| env_unset_step: "env_states e \<Longrightarrow> env_states (snd (env_unset e k))"

lemma env_states_ok: "env_states e \<Longrightarrow> env_ok e"
  by (induction rule: env_states.induct) (auto intro: env_ok_login wf_intros)

text \<open>
  The environment is a bounded map: from the login environment on, \<open>set\<close> and \<open>unset\<close> keep it
  sorted and at most 256 variables large; a value set is read back (cut after 4,096 characters)
  unless the variable is new and the table is full, in which case nothing changes; every other
  variable keeps its value; and an unset variable is gone.
\<close>

theorem env_bounded_map:
  assumes "env_states e"
  shows "length e \<le> 256 \<and> sorted (map fst (env_iter e)) \<and> distinct (map fst (env_iter e))
    \<and> env_get (env_set e k v) k' =
        (if k' = k \<and> (env_get e k \<noteq> None \<or> length e < 256)
         then Some (concat (take 4096 (chars v))) else env_get e k')
    \<and> env_get (snd (env_unset e k)) k' = (if k' = k then None else env_get e k')
    \<and> fst (env_unset e k) = (env_get e k \<noteq> None)"
proof -
  have ok: "env_ok e" using env_states_ok [OF assms] .
  then have "sorted (map fst e)" "distinct (map fst e)"
    by (simp_all add: env_ok_def bt_ok_def strict_sorted_iff)
  then show ?thesis
    using ok env_get_set [OF ok, of k v k'] env_get_unset [OF ok, of k k']
    by (simp add: env_ok_def MAX_ENV_VARS_def MAX_ENV_VALUE_LEN_def env_iter_def env_unset_def env_get_def)
qed

theorem env_bounded_map_witness:
  "env_states (env_login ''bob'' ''/home/bob'' ''h'')
   \<and> env_get (env_set (env_login ''bob'' ''/home/bob'' ''h'') ''X'' ''1'') ''X'' = Some ''1''
   \<and> env_get (env_set (env_login ''bob'' ''/home/bob'' ''h'') ''X'' ''1'') ''USER'' = Some ''bob''"
proof -
  let ?e = "env_login ''bob'' ''/home/bob'' ''h''"
  have len: "length ?e < 256" "env_get ?e ''USER'' = Some ''bob''"
    by (simp_all add: env_login_def env_get_def bt_get_def)
  have "env_states ?e" by (rule env_start)
  from env_bounded_map [OF this, of "''X''" "''1''" "''X''"] env_bounded_map [OF this, of "''X''" "''1''" "''USER''"]
  show ?thesis using len \<open>env_states ?e\<close> by simp
qed

end
