(* ===== verification/Arith.thy ===== *)
theory Arith
  imports Env "HOL-Library.Signed_Division"
begin

text \<open>
  Integer arithmetic for \<open>$((...))\<close> (\<open>src/shell/arith.rs\<close>). Values are \<open>i64\<close>, modelled as
  64-bit words read as two's complement. The parser's position is the list of tokens still
  to come, and its nesting depth is passed down, so the methods of \<open>Parser\<close> are mutually
  recursive functions from tokens to an optional value and remaining tokens; their
  termination is proved from the fact that none of them puts tokens back.

  Which characters beyond ASCII are alphabetic or numeric is decided by the Unicode tables
  of the standard library; the tokenizer takes the two classifications as a parameter.
\<close>

definition MAX_DEPTH :: nat where "MAX_DEPTH = 32"

record unicode =
  u_alphabetic :: "rchar \<Rightarrow> bool"
  u_alphanumeric :: "rchar \<Rightarrow> bool"

definition char_alphabetic :: "unicode \<Rightarrow> rchar \<Rightarrow> bool" where
  "char_alphabetic uc c = (case c of [b] \<Rightarrow> is_ascii_alpha b | _ \<Rightarrow> u_alphabetic uc c)"

definition char_alphanumeric :: "unicode \<Rightarrow> rchar \<Rightarrow> bool" where
  "char_alphanumeric uc c = (case c of [b] \<Rightarrow> is_ascii_alnum b | _ \<Rightarrow> u_alphanumeric uc c)"

definition char_ascii_digit :: "rchar \<Rightarrow> bool" where
  "char_ascii_digit c = (case c of [b] \<Rightarrow> is_ascii_digit b | _ \<Rightarrow> False)"

definition char_ascii_alnum :: "rchar \<Rightarrow> bool" where
  "char_ascii_alnum c = (case c of [b] \<Rightarrow> is_ascii_alnum b | _ \<Rightarrow> False)"

datatype token = Num i64 | Name str | Op str

section \<open>The tokenizer\<close>

definition number_value :: "str \<Rightarrow> i64 option" where
  "number_value text =
     (case (case strip_prefix ''0x'' text of Some h \<Rightarrow> Some h | None \<Rightarrow> strip_prefix ''0X'' text) of
        Some hex \<Rightarrow> parse_i64 16 hex
      | None \<Rightarrow> parse_i64 10 text)"

definition two_char_ops :: "str list" where
  "two_char_ops = [''=='', ''!='', ''<='', ''>='']"

definition one_char_ops :: "str list" where
  "one_char_ops = [''+'', ''-'', ''*'', ''/'', ''%'', ''('', '')'', ''<'', ''>'']"

function (sequential) arith_tokenize :: "unicode \<Rightarrow> rchar list \<Rightarrow> token list option" where
  "arith_tokenize uc [] = Some []"
| "arith_tokenize uc (c # cs) =
     (if is_whitespace c then arith_tokenize uc cs
      else if char_ascii_digit c then
        (case number_value (concat (takeWhile char_ascii_alnum (c # cs))) of
           None \<Rightarrow> None
         | Some v \<Rightarrow> map_option (Cons (Num v)) (arith_tokenize uc (dropWhile char_ascii_alnum cs)))
      else if char_alphabetic uc c \<or> c = ''_'' then
        (let nm = (\<lambda>d. char_alphanumeric uc d \<or> d = ''_'') in
         map_option (Cons (Name (concat (c # takeWhile nm cs)))) (arith_tokenize uc (dropWhile nm cs)))
      else if concat (take 2 (c # cs)) \<in> set two_char_ops then
        map_option (Cons (Op (concat (take 2 (c # cs))))) (arith_tokenize uc (drop 1 cs))
      else if c \<in> set one_char_ops then map_option (Cons (Op c)) (arith_tokenize uc cs)
      else None)"
  by pat_completeness auto
termination
  by (relation "measure (\<lambda>(_, cs). length cs)") (auto simp: length_dropWhile_le le_imp_less_Suc)

section \<open>The parser\<close>

definition checked_div :: "i64 \<Rightarrow> i64 \<Rightarrow> i64 option" where
  "checked_div a b =
     (if b = 0 \<or> sint a = - (2 ^ 63) \<and> sint b = - 1 then None
      else Some (word_of_int (sint a sdiv sint b)))"

definition checked_rem :: "i64 \<Rightarrow> i64 \<Rightarrow> i64 option" where
  "checked_rem a b =
     (if b = 0 \<or> sint a = - (2 ^ 63) \<and> sint b = - 1 then None
      else Some (word_of_int (sint a smod sint b)))"

definition truth :: "str \<Rightarrow> i64 \<Rightarrow> i64 \<Rightarrow> bool" where
  "truth op l r =
     (if op = ''=='' then l = r
      else if op = ''!='' then l \<noteq> r
      else if op = ''<='' then sint l \<le> sint r
      else if op = ''>='' then sint l \<ge> sint r
      else if op = ''<'' then sint l < sint r
      else sint l > sint r)"

definition name_value :: "env \<Rightarrow> str \<Rightarrow> i64" where
  "name_value e nm = (case env_get e nm of
      None \<Rightarrow> 0
    | Some v \<Rightarrow> (case parse_i64 10 (trim v) of None \<Rightarrow> 0 | Some n \<Rightarrow> n))"

text \<open>\<open>eat\<close> and \<open>eat_any\<close>: the operator and the tokens after it, if it is one of the list.\<close>

definition eat_any :: "str list \<Rightarrow> token list \<Rightarrow> (str \<times> token list) option" where
  "eat_any ops ts = (case ts of Op op # rest \<Rightarrow> if op \<in> set ops then Some (op, rest) else None | _ \<Rightarrow> None)"

definition cmp_ops :: "str list" where "cmp_ops = [''=='', ''!='', ''<='', ''>='', ''<'', ''>'']"
definition add_ops :: "str list" where "add_ops = [''+'', ''-'']"
definition mul_ops :: "str list" where "mul_ops = [''*'', ''/'', ''%'']"

lemma eat_any_length: "eat_any ops ts = Some (op, rest) \<Longrightarrow> length rest < length ts"
  by (auto simp: eat_any_def split: list.splits token.splits if_splits)

definition add_step :: "str \<Rightarrow> i64 \<Rightarrow> i64 \<Rightarrow> i64" where
  "add_step op l r = (if op = ''+'' then l + r else l - r)"

definition mul_step :: "str \<Rightarrow> i64 \<Rightarrow> i64 \<Rightarrow> i64 option" where
  "mul_step op l r =
     (if op = ''*'' then Some (l * r) else if op = ''/'' then checked_div l r else checked_rem l r)"

function (sequential, domintros)
  comparison :: "env \<Rightarrow> nat \<Rightarrow> token list \<Rightarrow> (i64 \<times> token list) option"
and comparison_loop :: "env \<Rightarrow> nat \<Rightarrow> i64 \<Rightarrow> token list \<Rightarrow> (i64 \<times> token list) option"
and additive :: "env \<Rightarrow> nat \<Rightarrow> token list \<Rightarrow> (i64 \<times> token list) option"
and additive_loop :: "env \<Rightarrow> nat \<Rightarrow> i64 \<Rightarrow> token list \<Rightarrow> (i64 \<times> token list) option"
and multiplicative :: "env \<Rightarrow> nat \<Rightarrow> token list \<Rightarrow> (i64 \<times> token list) option"
and multiplicative_loop :: "env \<Rightarrow> nat \<Rightarrow> i64 \<Rightarrow> token list \<Rightarrow> (i64 \<times> token list) option"
and unary :: "env \<Rightarrow> nat \<Rightarrow> token list \<Rightarrow> (i64 \<times> token list) option"
and primary :: "env \<Rightarrow> nat \<Rightarrow> token list \<Rightarrow> (i64 \<times> token list) option"
where
  "comparison e d ts =
     (case additive e d ts of None \<Rightarrow> None | Some (left, rest) \<Rightarrow> comparison_loop e d left rest)"
| "comparison_loop e d left ts =
     (case eat_any cmp_ops ts of
        None \<Rightarrow> Some (left, ts)
      | Some (op, ts') \<Rightarrow>
          (case additive e d ts' of
             None \<Rightarrow> None
           | Some (right, rest) \<Rightarrow>
               comparison_loop e d (if truth op left right then 1 else 0) rest))"
| "additive e d ts =
     (case multiplicative e d ts of None \<Rightarrow> None | Some (left, rest) \<Rightarrow> additive_loop e d left rest)"
| "additive_loop e d left ts =
     (case eat_any add_ops ts of
        None \<Rightarrow> Some (left, ts)
      | Some (op, ts') \<Rightarrow>
          (case multiplicative e d ts' of
             None \<Rightarrow> None
           | Some (right, rest) \<Rightarrow> additive_loop e d (add_step op left right) rest))"
| "multiplicative e d ts =
     (case unary e d ts of None \<Rightarrow> None | Some (left, rest) \<Rightarrow> multiplicative_loop e d left rest)"
| "multiplicative_loop e d left ts =
     (case eat_any mul_ops ts of
        None \<Rightarrow> Some (left, ts)
      | Some (op, ts') \<Rightarrow>
          (case unary e d ts' of
             None \<Rightarrow> None
           | Some (right, rest) \<Rightarrow>
               (case mul_step op left right of
                  None \<Rightarrow> None
                | Some left' \<Rightarrow> multiplicative_loop e d left' rest)))"
| "unary e d ts =
     (case eat_any [''-''] ts of
        Some (_, ts') \<Rightarrow>
          (case unary e d ts' of None \<Rightarrow> None | Some (v, rest) \<Rightarrow> Some (- v, rest))
      | None \<Rightarrow>
          (case eat_any [''+''] ts of
             Some (_, ts') \<Rightarrow> unary e d ts'
           | None \<Rightarrow> primary e d ts))"
| "primary e d ts =
     (case eat_any [''(''] ts of
        Some (_, ts') \<Rightarrow>
          if d \<ge> MAX_DEPTH then None
          else (case comparison e (d + 1) ts' of
                  None \<Rightarrow> None
                | Some (v, rest) \<Rightarrow>
                    (case eat_any ['')''] rest of Some (_, rest') \<Rightarrow> Some (v, rest') | None \<Rightarrow> None))
      | None \<Rightarrow>
          (case ts of
             Num v # rest \<Rightarrow> Some (v, rest)
           | Name nm # rest \<Rightarrow> Some (name_value e nm, rest)
           | _ \<Rightarrow> None))"
  by pat_completeness auto

text \<open>No method puts tokens back; on the domain of the functions, by their own induction.\<close>

lemmas parser_pinduct =
  comparison_comparison_loop_additive_additive_loop_multiplicative_multiplicative_loop_unary_primary.pinduct

lemmas parser_psimps = comparison.psimps comparison_loop.psimps additive.psimps additive_loop.psimps
  multiplicative.psimps multiplicative_loop.psimps unary.psimps primary.psimps

abbreviation parser_dom where
  "parser_dom \<equiv>
     comparison_comparison_loop_additive_additive_loop_multiplicative_multiplicative_loop_unary_primary_dom"

abbreviation no_longer :: "token list \<Rightarrow> (i64 \<times> token list) option \<Rightarrow> bool" where
  "no_longer ts r \<equiv> (\<forall>v rest. r = Some (v, rest) \<longrightarrow> length rest \<le> length ts)"


lemma parser_length:
  "parser_dom (Inl (Inl (Inl (e, d, ts)))) \<Longrightarrow> no_longer ts (comparison e d ts)"
  "parser_dom (Inl (Inl (Inr (e, d, l, ts)))) \<Longrightarrow> no_longer ts (comparison_loop e d l ts)"
  "parser_dom (Inl (Inr (Inl (e, d, ts)))) \<Longrightarrow> no_longer ts (additive e d ts)"
  "parser_dom (Inl (Inr (Inr (e, d, l, ts)))) \<Longrightarrow> no_longer ts (additive_loop e d l ts)"
  "parser_dom (Inr (Inl (Inl (e, d, ts)))) \<Longrightarrow> no_longer ts (multiplicative e d ts)"
  "parser_dom (Inr (Inl (Inr (e, d, l, ts)))) \<Longrightarrow> no_longer ts (multiplicative_loop e d l ts)"
  "parser_dom (Inr (Inr (Inl (e, d, ts)))) \<Longrightarrow> no_longer ts (unary e d ts)"
  "parser_dom (Inr (Inr (Inr (e, d, ts)))) \<Longrightarrow> no_longer ts (primary e d ts)"
proof (induction e d ts and e d l ts and e d ts and e d l ts and e d ts and e d l ts and e d ts and e d ts
    rule: parser_pinduct)
  case (1 e d ts)
  then show ?case by (fastforce simp: parser_psimps split: option.splits prod.splits)
next
  case (2 e d l ts)
  then show ?case by (fastforce simp: parser_psimps dest: eat_any_length split: option.splits prod.splits)
next
  case (3 e d ts)
  then show ?case by (fastforce simp: parser_psimps split: option.splits prod.splits)
next
  case (4 e d l ts)
  then show ?case by (fastforce simp: parser_psimps dest: eat_any_length split: option.splits prod.splits)
next
  case (5 e d ts)
  then show ?case by (fastforce simp: parser_psimps split: option.splits prod.splits)
next
  case (6 e d l ts)
  then show ?case by (fastforce simp: parser_psimps dest: eat_any_length split: option.splits prod.splits)
next
  case (7 e d ts)
  then show ?case by (fastforce simp: parser_psimps dest: eat_any_length split: option.splits prod.splits)
next
  case (8 e d ts)
  then show ?case by (fastforce simp: parser_psimps dest: eat_any_length split: option.splits prod.splits list.splits token.splits if_splits)
qed

termination comparison
proof (relation "measures
    [\<lambda>x. case x of
        Inl (Inl (Inl (_, _, ts))) \<Rightarrow> length ts | Inl (Inl (Inr (_, _, _, ts))) \<Rightarrow> length ts
      | Inl (Inr (Inl (_, _, ts))) \<Rightarrow> length ts | Inl (Inr (Inr (_, _, _, ts))) \<Rightarrow> length ts
      | Inr (Inl (Inl (_, _, ts))) \<Rightarrow> length ts | Inr (Inl (Inr (_, _, _, ts))) \<Rightarrow> length ts
      | Inr (Inr (Inl (_, _, ts))) \<Rightarrow> length ts | Inr (Inr (Inr (_, _, ts))) \<Rightarrow> length ts,
     \<lambda>x. case x of
        Inl (Inl (Inl _)) \<Rightarrow> 8 | Inl (Inl (Inr _)) \<Rightarrow> 7 | Inl (Inr (Inl _)) \<Rightarrow> 6 | Inl (Inr (Inr _)) \<Rightarrow> 5
      | Inr (Inl (Inl _)) \<Rightarrow> 4 | Inr (Inl (Inr _)) \<Rightarrow> 3 | Inr (Inr (Inl _)) \<Rightarrow> 2 | Inr (Inr (Inr _)) \<Rightarrow> (1::nat)]",
    goal_cases)
qed (fastforce dest: eat_any_length parser_length)+

declare comparison.simps [simp del] comparison_loop.simps [simp del] additive.simps [simp del]
  additive_loop.simps [simp del] multiplicative.simps [simp del] multiplicative_loop.simps [simp del]
  unary.simps [simp del] primary.simps [simp del]

definition eval_tokens :: "env \<Rightarrow> token list \<Rightarrow> i64 option" where
  "eval_tokens e ts = (case comparison e 0 ts of
      None \<Rightarrow> None
    | Some (v, rest) \<Rightarrow> if rest = [] then Some v else None)"

definition arith_eval :: "unicode \<Rightarrow> env \<Rightarrow> str \<Rightarrow> i64 option" where
  "arith_eval uc e expr = (case arith_tokenize uc (chars expr) of
      None \<Rightarrow> None
    | Some ts \<Rightarrow> eval_tokens e ts)"

section \<open>Reference semantics\<close>

text \<open>
  Expressions as trees, their value, and the tokens of their written form at a precedence level
  (0 comparison, 1 additive, 2 multiplicative, 3 unary, 4 primary; all binary operators
  associate to the left). \<open>nest l x\<close> is how deeply the written form nests parentheses.
\<close>

datatype aexpr =
    Lit i64 | Var str | Neg aexpr | Pos aexpr
  | Mul str aexpr aexpr | Add str aexpr aexpr | Cmp str aexpr aexpr

fun ops_ok :: "aexpr \<Rightarrow> bool" where
  "ops_ok (Neg a) = ops_ok a"
| "ops_ok (Pos a) = ops_ok a"
| "ops_ok (Mul op a b) = (op \<in> set mul_ops \<and> ops_ok a \<and> ops_ok b)"
| "ops_ok (Add op a b) = (op \<in> set add_ops \<and> ops_ok a \<and> ops_ok b)"
| "ops_ok (Cmp op a b) = (op \<in> set cmp_ops \<and> ops_ok a \<and> ops_ok b)"
| "ops_ok _ = True"

fun sem :: "env \<Rightarrow> aexpr \<Rightarrow> i64 option" where
  "sem e (Lit v) = Some v"
| "sem e (Var nm) = Some (name_value e nm)"
| "sem e (Neg a) = map_option uminus (sem e a)"
| "sem e (Pos a) = sem e a"
| "sem e (Mul op a b) =
     Option.bind (sem e a) (\<lambda>l. Option.bind (sem e b) (\<lambda>r. mul_step op l r))"
| "sem e (Add op a b) =
     Option.bind (sem e a) (\<lambda>l. Option.bind (sem e b) (\<lambda>r. Some (add_step op l r)))"
| "sem e (Cmp op a b) =
     Option.bind (sem e a) (\<lambda>l. Option.bind (sem e b) (\<lambda>r. Some (if truth op l r then 1 else 0)))"

definition paren :: "bool \<Rightarrow> token list \<Rightarrow> token list" where
  "paren b ts = (if b then Op ''('' # ts @ [Op '')''] else ts)"

fun level :: "aexpr \<Rightarrow> nat" where
  "level (Lit _) = 4" | "level (Var _) = 4" | "level (Neg _) = 3" | "level (Pos _) = 3"
| "level (Mul _ _ _) = 2" | "level (Add _ _ _) = 1" | "level (Cmp _ _ _) = 0"

fun written :: "nat \<Rightarrow> aexpr \<Rightarrow> token list" where
  "written l (Lit v) = paren (l > 4) [Num v]"
| "written l (Var nm) = paren (l > 4) [Name nm]"
| "written l (Neg a) = paren (l > 3) (Op ''-'' # written 3 a)"
| "written l (Pos a) = paren (l > 3) (Op ''+'' # written 3 a)"
| "written l (Mul op a b) = paren (l > 2) (written 2 a @ Op op # written 3 b)"
| "written l (Add op a b) = paren (l > 1) (written 1 a @ Op op # written 2 b)"
| "written l (Cmp op a b) = paren (l > 0) (written 0 a @ Op op # written 1 b)"

fun nest :: "nat \<Rightarrow> aexpr \<Rightarrow> nat" where
  "nest l (Lit v) = (if l > 4 then 1 else 0)"
| "nest l (Var nm) = (if l > 4 then 1 else 0)"
| "nest l (Neg a) = (if l > 3 then 1 else 0) + nest 3 a"
| "nest l (Pos a) = (if l > 3 then 1 else 0) + nest 3 a"
| "nest l (Mul op a b) = (if l > 2 then 1 else 0) + max (nest 2 a) (nest 3 b)"
| "nest l (Add op a b) = (if l > 1 then 1 else 0) + max (nest 1 a) (nest 2 b)"
| "nest l (Cmp op a b) = (if l > 0 then 1 else 0) + max (nest 0 a) (nest 1 b)"

definition parse_at :: "nat \<Rightarrow> env \<Rightarrow> nat \<Rightarrow> token list \<Rightarrow> (i64 \<times> token list) option" where
  "parse_at l = (if l = 0 then comparison else if l = 1 then additive
     else if l = 2 then multiplicative else if l = 3 then unary else primary)"

definition continue_at :: "nat \<Rightarrow> env \<Rightarrow> nat \<Rightarrow> i64 \<Rightarrow> token list \<Rightarrow> (i64 \<times> token list) option" where
  "continue_at l e d v rest = (if l = 0 then comparison_loop e d v rest
     else if l = 1 then additive_loop e d v rest
     else if l = 2 then multiplicative_loop e d v rest else Some (v, rest))"

definition stops :: "nat \<Rightarrow> token list \<Rightarrow> bool" where
  "stops l rest \<longleftrightarrow> (l \<le> 1 \<longrightarrow> eat_any mul_ops rest = None) \<and> (l = 0 \<longrightarrow> eat_any add_ops rest = None)"

text \<open>
  What it means that the parser reads \<open>x\<close>, written at level \<open>l\<close>, at nesting depth \<open>d\<close>: it has the value of
  \<open>x\<close>, unless the parentheses nest too deeply from there.
\<close>

definition sem_at :: "env \<Rightarrow> nat \<Rightarrow> nat \<Rightarrow> aexpr \<Rightarrow> i64 option" where
  "sem_at e d l x = (if d + nest l x \<le> MAX_DEPTH then sem e x else None)"

definition reads :: "env \<Rightarrow> nat \<Rightarrow> nat \<Rightarrow> aexpr \<Rightarrow> bool" where
  "reads e d l x \<longleftrightarrow> (\<forall>rest. d \<le> MAX_DEPTH \<longrightarrow> stops l rest \<longrightarrow>
     parse_at l e d (written l x @ rest) = Option.bind (sem_at e d l x) (\<lambda>v. continue_at l e d v rest))"

lemmas parser_unfold = comparison.simps additive.simps multiplicative.simps
lemmas level_defs = parse_at_def continue_at_def

lemma loops_stop:
  "eat_any mul_ops rest = None \<Longrightarrow> multiplicative_loop e d v rest = Some (v, rest)"
  "eat_any add_ops rest = None \<Longrightarrow> additive_loop e d v rest = Some (v, rest)"
  "eat_any cmp_ops rest = None \<Longrightarrow> comparison_loop e d v rest = Some (v, rest)"
  by (simp_all add: multiplicative_loop.simps additive_loop.simps comparison_loop.simps)

lemma reads_lower:
  assumes "reads e d (Suc l) x" "written l x = written (Suc l) x" "nest l x = nest (Suc l) x" "l < 3"
  shows "reads e d l x"
  unfolding reads_def
proof (intro allI impI)
  fix rest assume st: "d \<le> MAX_DEPTH" "stops l rest"
  then have *: "parse_at (Suc l) e d (written l x @ rest) =
      Option.bind (sem_at e d l x) (\<lambda>v. continue_at (Suc l) e d v rest)"
    using assms by (auto simp: reads_def stops_def sem_at_def)
  consider "l = 0" | "l = 1" | "l = 2" using assms(4) by linarith
  then show "parse_at l e d (written l x @ rest) = Option.bind (sem_at e d l x) (\<lambda>v. continue_at l e d v rest)"
    using * st
    by cases (cases "sem_at e d l x"; simp add: level_defs parser_unfold loops_stop stops_def numeral_2_eq_2)+
qed

lemma written_head: "level x = 4 \<or> l > level x \<Longrightarrow> l \<le> 4 \<Longrightarrow>
  \<exists>t ts. written l x = t # ts \<and> (\<forall>op. t = Op op \<longrightarrow> op = ''('')"
  by (cases x) (auto simp: paren_def)

lemma reads_unary:
  assumes "reads e d 4 x" "written 3 x = written 4 x" "nest 3 x = nest 4 x" "level x = 4 \<or> 3 > level x"
  shows "reads e d 3 x"
  unfolding reads_def
proof (intro allI impI)
  fix rest assume "d \<le> MAX_DEPTH" "stops 3 rest"
  obtain t ts where t: "written 3 x = t # ts" "\<forall>op. t = Op op \<longrightarrow> op = ''(''"
    using written_head [of x 3] assms(4) by auto
  then have "eat_any [''-''] (written 3 x @ rest) = None" "eat_any [''+''] (written 3 x @ rest) = None"
    by (auto simp: eat_any_def split: token.splits)
  then have "unary e d (written 3 x @ rest) = primary e d (written 4 x @ rest)"
    using assms(2) by (subst unary.simps) simp
  moreover have "primary e d (written 4 x @ rest) = Option.bind (sem_at e d 3 x) (\<lambda>v. Some (v, rest))"
    using assms(1,3) \<open>d \<le> MAX_DEPTH\<close> by (simp add: reads_def stops_def level_defs sem_at_def)
  ultimately show "parse_at 3 e d (written 3 x @ rest) = Option.bind (sem_at e d 3 x) (\<lambda>v. continue_at 3 e d v rest)"
    by (simp add: level_defs)
qed

lemma eat_close: "eat_any ['')''] (Op '')'' # rest) = Some ('')'', rest)"
  "eat_any mul_ops (Op '')'' # rest) = None" "eat_any add_ops (Op '')'' # rest) = None"
  "eat_any cmp_ops (Op '')'' # rest) = None"
  by (simp_all add: eat_any_def mul_ops_def add_ops_def cmp_ops_def)

lemma reads_paren:
  assumes "reads e (Suc d) 0 x" "written 4 x = Op ''('' # written 0 x @ [Op '')'']" "nest 4 x = Suc (nest 0 x)"
  shows "reads e d 4 x"
  unfolding reads_def
proof (intro allI impI)
  fix rest assume "d \<le> MAX_DEPTH"
  show "parse_at 4 e d (written 4 x @ rest) = Option.bind (sem_at e d 4 x) (\<lambda>v. continue_at 4 e d v rest)"
  proof (cases "d = MAX_DEPTH")
    case True
    have "primary e d (written 4 x @ rest) = None"
      unfolding assms(2) by (subst primary.simps) (simp add: eat_any_def True)
    then show ?thesis using True assms(3) by (simp add: level_defs sem_at_def)
  next
    case False
    then have "d < MAX_DEPTH" using \<open>d \<le> MAX_DEPTH\<close> by simp
    then have "comparison e (Suc d) (written 0 x @ Op '')'' # rest) =
        Option.bind (sem_at e d 4 x) (\<lambda>v. Some (v, Op '')'' # rest))"
      using assms(1,3) by (simp add: reads_def stops_def level_defs eat_close loops_stop sem_at_def)
    then have "primary e d (written 4 x @ rest) = Option.bind (sem_at e d 4 x) (\<lambda>v. Some (v, rest))"
      using assms(2) \<open>d < MAX_DEPTH\<close>
      by (subst primary.simps) (cases "sem_at e d 4 x"; simp add: eat_any_def eat_close [unfolded eat_any_def])
    then show ?thesis by (simp add: level_defs)
  qed
qed

lemma written_paren: "written l x = paren (l > level x) (written (level x) x)" if "l \<le> 4"
  using that by (cases x) (auto simp: paren_def)

lemma nest_paren: "nest l x = (if l > level x then 1 else 0) + nest (level x) x" if "l \<le> 4"
  using that by (cases x) auto

lemma level_le: "level x \<le> 4" by (cases x) auto

lemma reads_downto:
  assumes "reads e d k x" "k \<le> level x \<or> level x < 3 \<and> k = 4" "l \<le> k" "l > level x \<or> k \<le> level x"
  shows "reads e d l x"
  using assms(3,1,2,4)
proof (induction rule: inc_induct)
  case base
  then show ?case by blast
next
  case (step n)
  then have IH: "reads e d (Suc n) x" by auto
  have w: "written n x = written (Suc n) x"
    using step.prems step.hyps level_le [of x]
    by (subst (1 2) written_paren) (auto simp: paren_def)
  have n: "nest n x = nest (Suc n) x"
    using step.prems step.hyps level_le [of x] by (subst (1 2) nest_paren) auto
  show ?case
  proof (cases "n = 3")
    case True
    then have "level x = 4 \<or> 3 > level x" using step.prems step.hyps level_le [of x] by auto
    with IH w n True show ?thesis using reads_unary [of e d x] by simp
  next
    case False
    then show ?thesis using reads_lower [OF IH w n] step.hyps step.prems level_le [of x] by auto
  qed
qed

text \<open>It is enough to read an expression at its own level: the levels below fall through to it,
  the levels above need parentheses.\<close>

lemma reads_all:
  assumes own: "\<And>d. reads e d (level x) x" and l: "l \<le> 4"
  shows "reads e d l x"
proof (cases "l \<le> level x")
  case True
  from own [of d] show ?thesis by (rule reads_downto) (use True in auto)
next
  case False
  from own [of "Suc d"] have "reads e (Suc d) 0 x" by (rule reads_downto) auto
  moreover have "written 4 x = Op ''('' # written 0 x @ [Op '')'']"
    using False l by (subst (1 2) written_paren) (auto simp: paren_def)
  moreover have "nest 4 x = Suc (nest 0 x)" using False l by (subst (1 2) nest_paren) auto
  ultimately have four: "reads e d 4 x" by (rule reads_paren)
  show ?thesis
  proof (cases "l = 4")
    case True
    then show ?thesis using four by simp
  next
    case l4: False
    then have "level x < 3" using False l by linarith
    then show ?thesis using reads_downto [OF four] False l by auto
  qed
qed

lemma op_not_tighter:
  "op \<in> set add_ops \<Longrightarrow> eat_any mul_ops (Op op # ts) = None"
  "op \<in> set cmp_ops \<Longrightarrow> eat_any mul_ops (Op op # ts) = None"
  "op \<in> set cmp_ops \<Longrightarrow> eat_any add_ops (Op op # ts) = None"
  by (auto simp: eat_any_def mul_ops_def add_ops_def cmp_ops_def)

lemma eat_any_in: "op \<in> set ops \<Longrightarrow> eat_any ops (Op op # ts) = Some (op, ts)"
  by (simp add: eat_any_def)

lemma loops_step:
  "op \<in> set mul_ops \<Longrightarrow> multiplicative_loop e d v (Op op # ts) =
     (case unary e d ts of None \<Rightarrow> None | Some (r, rest) \<Rightarrow>
        (case mul_step op v r of None \<Rightarrow> None | Some v' \<Rightarrow> multiplicative_loop e d v' rest))"
  "op \<in> set add_ops \<Longrightarrow> additive_loop e d v (Op op # ts) =
     (case multiplicative e d ts of None \<Rightarrow> None | Some (r, rest) \<Rightarrow>
        additive_loop e d (add_step op v r) rest)"
  "op \<in> set cmp_ops \<Longrightarrow> comparison_loop e d v (Op op # ts) =
     (case additive e d ts of None \<Rightarrow> None | Some (r, rest) \<Rightarrow>
        comparison_loop e d (if truth op v r then 1 else 0) rest)"
  by (simp_all add: eat_any_in multiplicative_loop.simps [of e d v "Op op # ts"]
      additive_loop.simps [of e d v "Op op # ts"] comparison_loop.simps [of e d v "Op op # ts"])

lemma reads_D:
  assumes "reads e d l x" "d \<le> MAX_DEPTH" "stops l rest"
  shows "parse_at l e d (written l x @ rest) = Option.bind (sem_at e d l x) (\<lambda>v. continue_at l e d v rest)"
  using assms by (simp add: reads_def)

lemma reads_mul:
  assumes a: "reads e d 2 a" and b: "reads e d 3 b" and op: "op \<in> set mul_ops"
  shows "reads e d 2 (Mul op a b)"
  unfolding reads_def
proof (intro allI impI)
  fix rest assume d: "d \<le> MAX_DEPTH"
  note ra = reads_D [OF a d, of "Op op # written 3 b @ rest"] and rb = reads_D [OF b d, of rest]
  have both: "sem_at e d 2 (Mul op a b) = Option.bind (sem_at e d 2 a) (\<lambda>l. Option.bind (sem_at e d 3 b) (\<lambda>r. mul_step op l r))"
    by (simp add: sem_at_def nat_add_max_right)
  show "parse_at 2 e d (written 2 (Mul op a b) @ rest) =
      Option.bind (sem_at e d 2 (Mul op a b)) (\<lambda>v. continue_at 2 e d v rest)"
  proof (cases "sem_at e d 2 a")
    case None
    then show ?thesis using ra by (simp add: both level_defs stops_def paren_def)
  next
    case (Some v)
    then show ?thesis using ra rb op
      by (cases "sem_at e d 3 b")
        (simp_all add: both level_defs stops_def paren_def loops_step split: option.split)
  qed
qed

lemma reads_add:
  assumes a: "reads e d 1 a" and b: "reads e d 2 b" and op: "op \<in> set add_ops"
  shows "reads e d 1 (Add op a b)"
  unfolding reads_def
proof (intro allI impI)
  fix rest assume d: "d \<le> MAX_DEPTH" and st: "stops 1 rest"
  note ra = reads_D [OF a d, of "Op op # written 2 b @ rest"] and rb = reads_D [OF b d, of rest]
  have both: "sem_at e d 1 (Add op a b) = Option.bind (sem_at e d 1 a) (\<lambda>l. Option.bind (sem_at e d 2 b) (\<lambda>r. Some (add_step op l r)))"
    by (simp add: sem_at_def nat_add_max_right)
  show "parse_at 1 e d (written 1 (Add op a b) @ rest) =
      Option.bind (sem_at e d 1 (Add op a b)) (\<lambda>v. continue_at 1 e d v rest)"
  proof (cases "sem_at e d 1 a")
    case None
    then show ?thesis using ra op by (simp add: both [unfolded One_nat_def] level_defs stops_def paren_def op_not_tighter)
  next
    case (Some v)
    then show ?thesis using ra rb op st
      by (cases "sem_at e d 2 b")
        (simp_all add: both [unfolded One_nat_def] level_defs stops_def paren_def op_not_tighter loops_stop loops_step)
  qed
qed

lemma reads_cmp:
  assumes a: "reads e d 0 a" and b: "reads e d 1 b" and op: "op \<in> set cmp_ops"
  shows "reads e d 0 (Cmp op a b)"
  unfolding reads_def
proof (intro allI impI)
  fix rest assume d: "d \<le> MAX_DEPTH" and st: "stops 0 rest"
  note ra = reads_D [OF a d, of "Op op # written 1 b @ rest"] and rb = reads_D [OF b d, of rest]
  have both: "sem_at e d 0 (Cmp op a b) = Option.bind (sem_at e d 0 a) (\<lambda>l. Option.bind (sem_at e d 1 b) (\<lambda>r. Some (if truth op l r then 1 else 0)))"
    by (simp add: sem_at_def nat_add_max_right)
  show "parse_at 0 e d (written 0 (Cmp op a b) @ rest) =
      Option.bind (sem_at e d 0 (Cmp op a b)) (\<lambda>v. continue_at 0 e d v rest)"
  proof (cases "sem_at e d 0 a")
    case None
    then show ?thesis using ra op by (simp add: both level_defs stops_def paren_def op_not_tighter)
  next
    case (Some v)
    then show ?thesis using ra rb op st
      by (cases "sem_at e d 1 b")
        (simp_all add: both level_defs stops_def paren_def op_not_tighter loops_stop loops_step)
  qed
qed

lemma reads_signs:
  assumes a: "reads e d 3 a"
  shows "reads e d 3 (Neg a)" "reads e d 3 (Pos a)"
proof -
  have a': "unary e d (written 3 a @ rest) = Option.bind (sem_at e d 3 a) (\<lambda>v. Some (v, rest))" if "d \<le> MAX_DEPTH" for rest
    using reads_D [OF a that, of rest] by (simp add: level_defs stops_def)
  have "unary e d (Op ''-'' # written 3 a @ rest) = Option.bind (sem_at e d 3 (Neg a)) (\<lambda>v. Some (v, rest))"
    "unary e d (Op ''+'' # written 3 a @ rest) = Option.bind (sem_at e d 3 (Pos a)) (\<lambda>v. Some (v, rest))"
    if "d \<le> MAX_DEPTH" for rest
    by (subst unary.simps, cases "sem e a"; simp add: eat_any_def a' [OF that] sem_at_def)+
  then show "reads e d 3 (Neg a)" "reads e d 3 (Pos a)"
    by (simp_all add: reads_def level_defs paren_def)
qed

lemma reads_atom:
  "reads e d 4 (Lit v)" "reads e d 4 (Var nm)"
proof -
  have "primary e d (Num v # rest) = Some (v, rest)"
    "primary e d (Name nm # rest) = Some (name_value e nm, rest)" for rest
    by (subst primary.simps, simp add: eat_any_def)+
  then show "reads e d 4 (Lit v)" "reads e d 4 (Var nm)"
    by (simp_all add: reads_def level_defs paren_def sem_at_def)
qed

lemma reads_written:
  assumes "ops_ok x" "l \<le> 4"
  shows "reads e d l x"
  using assms
proof (induction x arbitrary: l d)
  case (Lit v)
  show ?case by (rule reads_all) (use Lit in \<open>simp_all add: reads_atom\<close>)
next
  case (Var nm)
  show ?case by (rule reads_all) (use Var in \<open>simp_all add: reads_atom\<close>)
next
  case (Neg a)
  show ?case by (rule reads_all) (use Neg in \<open>auto intro!: reads_signs\<close>)
next
  case (Pos a)
  show ?case by (rule reads_all) (use Pos in \<open>auto intro!: reads_signs\<close>)
next
  case (Mul op a b)
  show ?case by (rule reads_all) (use Mul in \<open>auto intro!: reads_mul\<close>)
next
  case (Add op a b)
  show ?case by (rule reads_all) (use Add in \<open>auto intro!: reads_add [unfolded One_nat_def]\<close>)
next
  case (Cmp op a b)
  show ?case by (rule reads_all) (use Cmp in \<open>auto intro!: reads_cmp [unfolded One_nat_def]\<close>)
qed

text \<open>More than \<open>MAX_DEPTH\<close> opening parentheses in a row are refused, whatever follows.\<close>

lemma open_paren_step:
  assumes "d \<ge> MAX_DEPTH \<or> comparison e (Suc d) ts = None"
  shows "comparison e d (Op ''('' # ts) = None"
proof -
  have "primary e d (Op ''('' # ts) = None"
    using assms by (subst primary.simps) (auto simp: eat_any_def)
  then have "unary e d (Op ''('' # ts) = None" by (subst unary.simps) (simp add: eat_any_def)
  then show ?thesis by (simp add: parser_unfold)
qed

lemma open_parens_refused:
  "d \<le> MAX_DEPTH \<Longrightarrow> d + n > MAX_DEPTH \<Longrightarrow> comparison e d (replicate n (Op ''('') @ ts) = None"
proof (induction n arbitrary: d)
  case 0
  then show ?case by simp
next
  case (Suc n)
  then have "d \<ge> MAX_DEPTH \<or> comparison e (Suc d) (replicate n (Op ''('') @ ts) = None"
    by (cases "d = MAX_DEPTH") auto
  then show ?case using open_paren_step by simp
qed

section \<open>The value as an integer\<close>

text \<open>The reference semantics on mathematical integers: 64-bit two's complement wrap-around written
  out, division truncating towards zero, and the two cases in which division has no value.\<close>

definition wrap64 :: "int \<Rightarrow> int" where
  "wrap64 z = (z + 2 ^ 63) mod 2 ^ 64 - 2 ^ 63"

definition quot :: "int \<Rightarrow> int \<Rightarrow> int" where
  "quot a b = sgn a * sgn b * (\<bar>a\<bar> div \<bar>b\<bar>)"

definition remd :: "int \<Rightarrow> int \<Rightarrow> int" where
  "remd a b = sgn a * (\<bar>a\<bar> mod \<bar>b\<bar>)"

fun int_mul :: "str \<Rightarrow> int \<Rightarrow> int \<Rightarrow> int option" where
  "int_mul op a b =
     (if op = ''*'' then Some (wrap64 (a * b))
      else if b = 0 \<or> a = - (2 ^ 63) \<and> b = - 1 then None
      else Some (if op = ''/'' then quot a b else remd a b))"

fun int_cmp :: "str \<Rightarrow> int \<Rightarrow> int \<Rightarrow> bool" where
  "int_cmp op a b \<longleftrightarrow>
     op = ''=='' \<and> a = b \<or> op = ''!='' \<and> a \<noteq> b \<or> op = ''<='' \<and> a \<le> b
     \<or> op = ''>='' \<and> b \<le> a \<or> op = ''<'' \<and> a < b \<or> op = ''>'' \<and> b < a"

fun int_sem :: "env \<Rightarrow> aexpr \<Rightarrow> int option" where
  "int_sem e (Lit v) = Some (sint v)"
| "int_sem e (Var nm) = Some (sint (name_value e nm))"
| "int_sem e (Neg a) = map_option (\<lambda>v. wrap64 (- v)) (int_sem e a)"
| "int_sem e (Pos a) = int_sem e a"
| "int_sem e (Mul op a b) =
     Option.bind (int_sem e a) (\<lambda>l. Option.bind (int_sem e b) (\<lambda>r. int_mul op l r))"
| "int_sem e (Add op a b) =
     Option.bind (int_sem e a) (\<lambda>l. Option.bind (int_sem e b) (\<lambda>r.
       Some (wrap64 (if op = ''+'' then l + r else l - r))))"
| "int_sem e (Cmp op a b) =
     Option.bind (int_sem e a) (\<lambda>l. Option.bind (int_sem e b) (\<lambda>r.
       Some (if int_cmp op l r then 1 else 0)))"

lemma sint_of_int: "sint (word_of_int z :: i64) = wrap64 z"
  by (simp add: wrap64_def signed_of_int signed_take_bit_eq_take_bit_shift take_bit_eq_mod)

lemma sint_bounds: "- (2 ^ 63) \<le> sint (a :: i64)" "sint (a :: i64) < 2 ^ 63"
  using sint_greater_eq [of a] sint_less [of a] by simp_all

lemma wrap64_id: "- (2 ^ 63) \<le> z \<Longrightarrow> z < 2 ^ 63 \<Longrightarrow> wrap64 z = z"
  by (simp add: wrap64_def)

lemma sint_ops:
  "sint (a + b :: i64) = wrap64 (sint a + sint b)"
  "sint (a - b :: i64) = wrap64 (sint a - sint b)"
  "sint (a * b :: i64) = wrap64 (sint a * sint b)"
  "sint (- a :: i64) = wrap64 (- sint a)"
  by (simp_all flip: sint_of_int)

lemma quot_bounds:
  assumes "- (2 ^ 63) \<le> a" "a < 2 ^ 63" "b \<noteq> 0" "\<not> (a = - (2 ^ 63) \<and> b = - 1)"
  shows "- (2 ^ 63) \<le> quot a b \<and> quot a b < 2 ^ 63"
proof (cases "\<bar>b\<bar> = 1")
  case True
  then show ?thesis using assms by (auto simp: quot_def abs_if sgn_if split: if_splits)
next
  case False
  then have "2 \<le> \<bar>b\<bar>" using assms(3) by linarith
  then have "\<bar>a\<bar> div \<bar>b\<bar> \<le> \<bar>a\<bar> div 2" by (intro zdiv_mono2) auto
  also have "\<dots> \<le> 2 ^ 62" using assms(1,2) by simp
  finally have le: "\<bar>a\<bar> div \<bar>b\<bar> \<le> 2 ^ 62" .
  have "0 \<le> \<bar>a\<bar> div \<bar>b\<bar>" using \<open>2 \<le> \<bar>b\<bar>\<close> by (simp add: pos_imp_zdiv_nonneg_iff)
  with le show ?thesis by (auto simp: quot_def sgn_if)
qed

lemma rem_bounds:
  assumes "- (2 ^ 63) \<le> a" "a < 2 ^ 63" "b \<noteq> 0"
  shows "- (2 ^ 63) \<le> remd a b \<and> remd a b < 2 ^ 63"
proof -
  have "0 \<le> \<bar>a\<bar> mod \<bar>b\<bar>" "\<bar>a\<bar> mod \<bar>b\<bar> \<le> \<bar>a\<bar>"
    using assms(3) by (simp_all add: zmod_le_nonneg_dividend)
  then show ?thesis using assms(1,2) by (auto simp: remd_def sgn_if)
qed

lemma sint_inject: "sint (a :: i64) = sint b \<longleftrightarrow> a = b" "sint (a :: i64) = 0 \<longleftrightarrow> a = 0"
  using signed_word_eqI [of a b] signed_word_eqI [of a 0] by auto

lemma sdiv_quot: "a sdiv b = quot a b" "a smod b = remd a b"
  by (simp_all add: quot_def remd_def signed_divide_int_def signed_modulo_int_def)

lemma mul_step_int:
  "op \<in> set mul_ops \<Longrightarrow> map_option sint (mul_step op l r) = int_mul op (sint l) (sint r)"
  using quot_bounds [OF sint_bounds, of "sint r" l] rem_bounds [OF sint_bounds, of "sint r" l]
  by (auto simp: sint_inject mul_step_def checked_div_def checked_rem_def sint_ops(3) sint_of_int wrap64_id mul_ops_def
      sdiv_quot )

lemma truth_int: "op \<in> set cmp_ops \<Longrightarrow> truth op l r = int_cmp op (sint l) (sint r)"
  by (auto simp: truth_def cmp_ops_def sint_inject)

lemma sem_int: "ops_ok x \<Longrightarrow> map_option sint (sem e x) = int_sem e x"
proof (induction x)
  case (Mul op a b)
  then show ?case using mul_step_int [of op]
    by (cases "sem e a"; cases "sem e b") (auto simp del: int_mul.simps simp flip: Mul.IH)
next
  case (Add op a b)
  then show ?case
    by (cases "sem e a"; cases "sem e b") (auto simp: add_step_def sint_ops simp flip: Add.IH)
next
  case (Cmp op a b)
  then show ?case using truth_int [of op]
    by (cases "sem e a"; cases "sem e b") (auto simp del: int_cmp.simps simp flip: Cmp.IH)
next
  case (Neg a)
  then show ?case by (cases "sem e a") (auto simp: sint_ops simp flip: Neg.IH)
qed auto

lemma eval_written_sem:
  assumes "ops_ok x"
  shows "eval_tokens e (written 0 x) = sem_at e 0 0 x"
proof -
  have "reads e 0 0 x" using assms by (intro reads_written) auto
  from reads_D [OF this, of "[]"]
  have "comparison e 0 (written 0 x) = Option.bind (sem_at e 0 0 x) (\<lambda>v. comparison_loop e 0 v [])"
    by (simp add: stops_def eat_any_def level_defs)
  then show ?thesis
    by (cases "sem_at e 0 0 x") (simp_all add: eval_tokens_def loops_stop eat_any_def)
qed

section \<open>Properties\<close>

text \<open>C10: the evaluator implements the usual grammar. On the tokens of any expression, written with
  the parentheses its precedences need, it returns exactly the value of the expression in 64-bit
  wrap-around arithmetic with truncating division, and refuses exactly when the expression divides
  by zero or overflows in a division, or when its written form nests parentheses more than 32 deep.\<close>

theorem eval_written:
  assumes "ops_ok x"
  shows "map_option sint (eval_tokens e (written 0 x)) = (if nest 0 x \<le> 32 then int_sem e x else None)"
  using sem_int [OF assms] by (simp add: eval_written_sem [OF assms] sem_at_def MAX_DEPTH_def)

theorem eval_written_witness:
  "map_option sint (eval_tokens [] (written 0 (Mul ''/'' (Add ''-'' (Lit 2) (Lit 9)) (Neg (Lit 2))))) = Some 3"
  using eval_written [of "Mul ''/'' (Add ''-'' (Lit 2) (Lit 9)) (Neg (Lit 2))" "[]"]
  by (simp add: mul_ops_def add_ops_def wrap64_def quot_def)

lemma chars_open: "s = [] \<or> \<not> is_continuation (hd s) \<Longrightarrow>
  chars (replicate n CHR ''('' @ s) = replicate n ''('' @ chars s"
proof (induction n)
  case (Suc n)
  have "replicate n CHR ''('' @ s = [] \<or> \<not> is_continuation (hd (replicate n CHR ''('' @ s))"
    using Suc.prems by (cases n) (auto simp: ascii_not_continuation)
  then have "takeWhile is_continuation (replicate n CHR ''('' @ s) = [] \<and>
      dropWhile is_continuation (replicate n CHR ''('' @ s) = replicate n CHR ''('' @ s"
    using takeWhile_continuation_append [of "[]"] by simp
  then show ?case using Suc by simp
qed simp

lemma tokenize_open:
  "arith_tokenize uc (replicate n ''('' @ cs) =
     map_option (\<lambda>ts. replicate n (Op ''('') @ ts) (arith_tokenize uc cs)"
proof (induction n)
  case (Suc n)
  have "arith_tokenize uc (''('' # xs) = map_option (Cons (Op ''('')) (arith_tokenize uc xs)" for xs
    by (simp add: is_whitespace_def char_ascii_digit_def char_alphabetic_def is_ascii_digit_def
        is_ascii_alpha_def two_char_ops_def one_char_ops_def)
  then show ?case using Suc by (simp add: option.map_comp comp_def)
qed (simp add: option.map_ident)

text \<open>Hostile parenthesis nesting is refused: text that opens more than \<open>MAX_DEPTH\<close>
  parentheses evaluates to nothing, whatever comes after them (the rest of the text starting at
  a character boundary).\<close>

theorem deep_nesting_refused:
  assumes "n > MAX_DEPTH" "s = [] \<or> \<not> is_continuation (hd s)"
  shows "arith_eval uc e (replicate n CHR ''('' @ s) = None"
  using assms(1) open_parens_refused [of 0 n e]
  by (auto simp: arith_eval_def eval_tokens_def chars_open [OF assms(2)] tokenize_open split: option.split)

theorem deep_nesting_refused_witness:
  "arith_eval (unicode.make (\<lambda>_. False) (\<lambda>_. False)) [] (replicate 33 CHR ''('' @ ''1'' @ replicate 33 CHR '')'') = None"
  using deep_nesting_refused [of 33 "''1'' @ replicate 33 CHR '')''"]
  by (simp add: MAX_DEPTH_def is_continuation_def)

lemma sign_chain:
  "unary e d (replicate n (Op ''-'') @ Num v # rest) = Some (if even n then v else - v, rest)"
proof (induction n)
  case 0
  show ?case by (simp add: unary.simps [of e d "Num v # rest"] primary.simps [of e d "Num v # rest"] eat_any_def)
next
  case (Suc n)
  then show ?case by (simp add: unary.simps [of e d "Op _ # _"] eat_any_def)
qed

text \<open>The depth limit covers parentheses only. A chain of any number of minus signs is
  accepted, and each sign is a recursive call of \<open>unary\<close>, so the length of the text is the
  only bound on the recursion of the parser.\<close>

theorem sign_chain_unlimited:
  "eval_tokens e (replicate n (Op ''-'') @ [Num v]) = Some (if even n then v else - v)"
  by (simp add: eval_tokens_def parser_unfold sign_chain loops_stop eat_any_def)

end
