(* ===== verification/Persona.thy ===== *)
theory Persona
  imports Mimic_Prelude
begin

text \<open>
  The hardware identity of a deployment (\<open>src/persona.rs\<close>): the SplitMix64 generator on 64-bit words
  and the facts derived from a seed, each draw passing the generator on.
\<close>

record cpu_model =
  cpu_name :: str
  cpu_vendor :: str
  cpu_family :: nat
  cpu_model_no :: nat
  cpu_stepping :: nat
  cpu_mhz :: nat
  cpu_cache_kb :: nat
  cpu_microcode :: str
  cpu_flags :: str
  cpu_bugs :: str

record persona =
  p_machine_id :: str
  p_boot_id :: str
  p_mem_total_kb :: nat
  p_disk_total_kb :: nat
  p_cpu_cores :: nat
  p_cpu :: cpu_model
  p_mac :: str
  p_ipv4 :: str
  p_subnet :: str
  p_host_keys :: "(str \<times> str) list"

definition CPUS :: "cpu_model list" where
  "CPUS = [
    \<lparr>cpu_name = ''Intel(R) Xeon(R) Platinum 8259CL CPU @ 2.50GHz'', cpu_vendor = ''GenuineIntel'',
      cpu_family = 6, cpu_model_no = 85, cpu_stepping = 7, cpu_mhz = 2500, cpu_cache_kb = 36608, cpu_microcode = ''0x5003604'',
      cpu_flags = ''fpu vme de pse tsc msr pae mce cx8 apic sep mtrr pge mca cmov pat pse36 clflush mmx fxsr sse sse2 ss ht syscall nx pdpe1gb rdtscp lm constant_tsc rep_good nopl xtopology nonstop_tsc cpuid aperfmperf tsc_known_freq pni pclmulqdq monitor ssse3 fma cx16 pcid sse4_1 sse4_2 x2apic movbe popcnt tsc_deadline_timer aes xsave avx f16c rdrand hypervisor lahf_lm abm 3dnowprefetch invpcid_single pti fsgsbase tsc_adjust bmi1 avx2 smep bmi2 erms invpcid mpx avx512f avx512dq rdseed adx smap clflushopt clwb avx512cd avx512bw avx512vl xsaveopt xsavec xgetbv1 xsaves ida arat pku ospke'',
      cpu_bugs = ''spectre_v1 spectre_v2 spec_store_bypass mds swapgs taa itlb_multihit mmio_stale_data retbleed''\<rparr>,
    \<lparr>cpu_name = ''Intel(R) Xeon(R) CPU E5-2686 v4 @ 2.30GHz'', cpu_vendor = ''GenuineIntel'',
      cpu_family = 6, cpu_model_no = 79, cpu_stepping = 1, cpu_mhz = 2300, cpu_cache_kb = 46080, cpu_microcode = ''0xb000038'',
      cpu_flags = ''fpu vme de pse tsc msr pae mce cx8 apic sep mtrr pge mca cmov pat pse36 clflush mmx fxsr sse sse2 ss ht syscall nx pdpe1gb rdtscp lm constant_tsc rep_good nopl xtopology nonstop_tsc cpuid aperfmperf pni pclmulqdq monitor est ssse3 fma cx16 pcid sse4_1 sse4_2 x2apic movbe popcnt tsc_deadline_timer aes xsave avx f16c rdrand hypervisor lahf_lm abm 3dnowprefetch invpcid_single pti fsgsbase tsc_adjust bmi1 hle avx2 smep bmi2 erms invpcid rtm rdseed adx xsaveopt'',
      cpu_bugs = ''cpu_meltdown spectre_v1 spectre_v2 spec_store_bypass l1tf mds swapgs itlb_multihit mmio_stale_data retbleed''\<rparr>,
    \<lparr>cpu_name = ''AMD EPYC 7571'', cpu_vendor = ''AuthenticAMD'',
      cpu_family = 23, cpu_model_no = 1, cpu_stepping = 2, cpu_mhz = 2199, cpu_cache_kb = 512, cpu_microcode = ''0x800126e'',
      cpu_flags = ''fpu vme de pse tsc msr pae mce cx8 apic sep mtrr pge mca cmov pat pse36 clflush mmx fxsr sse sse2 ht syscall nx mmxext fxsr_opt pdpe1gb rdtscp lm constant_tsc rep_good nopl nonstop_tsc cpuid extd_apicid aperfmperf tsc_known_freq pni pclmulqdq ssse3 fma cx16 sse4_1 sse4_2 movbe popcnt aes xsave avx f16c rdrand hypervisor lahf_lm cmp_legacy cr8_legacy abm sse4a misalignsse 3dnowprefetch topoext perfctr_core ssbd ibpb vmmcall fsgsbase bmi1 avx2 smep bmi2 rdseed adx smap clflushopt sha_ni xsaveopt xsavec xgetbv1 clzero xsaveerptr arat npt nrip_save'',
      cpu_bugs = ''sysret_ss_attrs null_seg spectre_v1 spectre_v2 spec_store_bypass retbleed smt_rsb''\<rparr>,
    \<lparr>cpu_name = ''Intel(R) Xeon(R) Gold 6248R CPU @ 3.00GHz'', cpu_vendor = ''GenuineIntel'',
      cpu_family = 6, cpu_model_no = 85, cpu_stepping = 7, cpu_mhz = 3000, cpu_cache_kb = 36608, cpu_microcode = ''0x5003604'',
      cpu_flags = ''fpu vme de pse tsc msr pae mce cx8 apic sep mtrr pge mca cmov pat pse36 clflush mmx fxsr sse sse2 ss ht syscall nx pdpe1gb rdtscp lm constant_tsc rep_good nopl xtopology nonstop_tsc cpuid aperfmperf tsc_known_freq pni pclmulqdq monitor ssse3 fma cx16 pcid sse4_1 sse4_2 x2apic movbe popcnt tsc_deadline_timer aes xsave avx f16c rdrand hypervisor lahf_lm abm 3dnowprefetch invpcid_single pti fsgsbase tsc_adjust bmi1 avx2 smep bmi2 erms invpcid avx512f avx512dq rdseed adx smap clflushopt clwb avx512cd avx512bw avx512vl xsaveopt xsavec xgetbv1 xsaves arat pku ospke avx512_vnni md_clear flush_l1d arch_capabilities'',
      cpu_bugs = ''spectre_v1 spectre_v2 spec_store_bypass swapgs taa itlb_multihit mmio_stale_data retbleed''\<rparr>]"

definition MEM_SIZES_KB :: "nat list" where
  "MEM_SIZES_KB = [1009428, 2041208, 4025464, 8148304, 16373612]"

definition DISK_SIZES_KB :: "nat list" where
  "DISK_SIZES_KB = [8065444, 16197524, 20263528, 32441516, 40593708, 64891496]"

section \<open>SplitMix64\<close>

type_synonym rng = "64 word"

definition rng_next :: "rng \<Rightarrow> 64 word \<times> rng" where
  "rng_next s0 =
     (let s = s0 + 0x9E3779B97F4A7C15;
          z1 = (s XOR drop_bit 30 s) * 0xBF58476D1CE4E5B9;
          z2 = (z1 XOR drop_bit 27 z1) * 0x94D049BB133111EB
      in (z2 XOR drop_bit 31 z2, s))"

definition rng_below :: "nat \<Rightarrow> rng \<Rightarrow> nat \<times> rng" where
  "rng_below n s = (let (z, s') = rng_next s in (unat z mod n, s'))"

text \<open>\<open>{:016x}\<close>\<close>

definition hex16 :: "64 word \<Rightarrow> str" where
  "hex16 z = map (\<lambda>i. hex_digit (unat z div 16 ^ (15 - i) mod 16)) [0..<16]"

function rng_hex_loop :: "nat \<Rightarrow> str \<Rightarrow> rng \<Rightarrow> str \<times> rng" where
  "rng_hex_loop n t s =
     (if length t < n then (let (z, s') = rng_next s in rng_hex_loop n (t @ hex16 z) s') else (t, s))"
  by pat_completeness auto

termination
  by (relation "measure (\<lambda>(n, t, s). n - length t)") (auto simp: hex16_def)

declare rng_hex_loop.simps [simp del]

definition rng_hex :: "nat \<Rightarrow> rng \<Rightarrow> str \<times> rng" where
  "rng_hex n s = (let (t, s') = rng_hex_loop n [] s in (take n t, s'))"

section \<open>The identity of a seed\<close>

definition substr :: "str \<Rightarrow> nat \<Rightarrow> nat \<Rightarrow> str" where
  "substr s a b = take (b - a) (drop a s)"

definition uuid_of :: "str \<Rightarrow> str" where
  "uuid_of h = substr h 0 8 @ ''-'' @ substr h 8 12 @ ''-'' @ substr h 12 16 @ ''-'' @ substr h 16 20 @ ''-'' @ substr h 20 32"

definition mac_first :: "nat \<Rightarrow> 8 word" where
  "mac_first n = push_bit 2 (of_nat n) OR 0b10"

text \<open>\<open>{:02x}\<close>\<close>

definition hex_byte :: "8 word \<Rightarrow> str" where
  "hex_byte w = [hex_digit (unat w div 16), hex_digit (unat w mod 16)]"

definition mac_of :: "8 word \<Rightarrow> str \<Rightarrow> str" where
  "mac_of w tail = hex_byte w @ '':'' @ substr tail 0 2 @ '':'' @ substr tail 2 4 @ '':'' @ substr tail 4 6 @ '':''
     @ substr tail 6 8 @ '':'' @ substr tail 8 10"

definition cores_of :: "nat \<Rightarrow> nat" where
  "cores_of n = (if n \<le> 4 then 1 else if n \<le> 8 then 2 else 4)"

definition draw_address :: "rng \<Rightarrow> (str \<times> nat) \<times> rng" where
  "draw_address s =
     (let (k, s) = rng_below 3 s in
      if k = 0 then
        (let (a, s) = rng_below 256 s; (b, s) = rng_below 256 s; (h, s) = rng_below 250 s
         in ((''10.'' @ show_nat a @ ''.'' @ show_nat b, h + 4), s))
      else if k = 1 then
        (let (a, s) = rng_below 16 s; (b, s) = rng_below 256 s; (h, s) = rng_below 250 s
         in ((''172.'' @ show_nat (a + 16) @ ''.'' @ show_nat b, h + 4), s))
      else
        (let (b, s) = rng_below 256 s; (h, s) = rng_below 250 s
         in ((''192.168.'' @ show_nat b, h + 4), s)))"

definition from_seed :: "64 word \<Rightarrow> persona" where
  "from_seed seed =
     (let s = seed;
          (machine_id, s) = rng_hex 32 s;
          (boot_hex, s) = rng_hex 32 s;
          (cpu, s) = rng_below (length CPUS) s;
          (cores, s) = rng_below 10 s;
          (mem, s) = rng_below (length MEM_SIZES_KB) s;
          (disk, s) = rng_below (length DISK_SIZES_KB) s;
          (mac_tail, s) = rng_hex 10 s;
          (first, s) = rng_below 64 s;
          ((subnet, host), s) = draw_address s
      in \<lparr>p_machine_id = machine_id, p_boot_id = uuid_of boot_hex,
          p_mem_total_kb = MEM_SIZES_KB ! mem, p_disk_total_kb = DISK_SIZES_KB ! disk,
          p_cpu_cores = cores_of cores, p_cpu = CPUS ! cpu,
          p_mac = mac_of (mac_first first) mac_tail,
          p_ipv4 = subnet @ ''.'' @ show_nat host, p_subnet = subnet, p_host_keys = []\<rparr>)"

definition with_host_keys :: "persona \<Rightarrow> (str \<times> str) list \<Rightarrow> persona" where
  "with_host_keys p keys = p\<lparr>p_host_keys := keys\<rparr>"

definition persona_sample :: persona where
  "persona_sample = from_seed 0x5EED123456789ABC"

definition bogomips :: "persona \<Rightarrow> str" where
  "bogomips p = show_nat (cpu_mhz (p_cpu p) * 2) @ ''.00''"

definition broadcast :: "persona \<Rightarrow> str" where
  "broadcast p = p_subnet p @ ''.255''"

definition gateway :: "persona \<Rightarrow> str" where
  "gateway p = p_subnet p @ ''.1''"

section \<open>What every seed gives\<close>

definition hex_char :: "char \<Rightarrow> bool" where
  "hex_char c \<longleftrightarrow> is_ascii_digit c \<or> 97 \<le> u8 c \<and> u8 c \<le> 102"

lemma hex_char_digit: "n < 16 \<Longrightarrow> hex_char (hex_digit n)"
  by (auto simp: hex_char_def hex_digit_def is_ascii_digit_def)

lemma rng_hex_loop_props:
  "list_all hex_char t \<Longrightarrow> list_all hex_char (fst (rng_hex_loop n t s)) \<and> n \<le> length (fst (rng_hex_loop n t s))"
proof (induction n t s rule: rng_hex_loop.induct)
  case (1 n t s)
  have "list_all hex_char (hex16 z)" for z by (auto simp: list_all_iff hex16_def intro!: hex_char_digit)
  then show ?case using 1 by (subst (1 2) rng_hex_loop.simps) (auto simp: split: prod.splits)
qed

lemma rng_hex_props: "rng_hex n s = (t, s') \<Longrightarrow> length t = n \<and> list_all hex_char t"
  using rng_hex_loop_props [of "[]" n s]
  by (auto simp: rng_hex_def list_all_iff split: prod.splits dest: in_set_takeD)

lemma rng_below_less: "rng_below n s = (k, s') \<Longrightarrow> 0 < n \<Longrightarrow> k < n"
  by (auto simp: rng_below_def split: prod.splits)

text \<open>The private ranges of RFC 1918, as the generator may use them.\<close>

definition private_net :: "nat \<Rightarrow> nat \<Rightarrow> bool" where
  "private_net a b \<longleftrightarrow> a = 10 \<or> a = 172 \<and> 16 \<le> b \<and> b < 32 \<or> a = 192 \<and> b = 168"

definition dotted :: "nat list \<Rightarrow> str" where
  "dotted ns = join ''.'' (map show_nat ns)"

lemma dotted_literals: "show_nat 10 = ''10''" "show_nat 172 = ''172''" "show_nat 192 = ''192''" "show_nat 168 = ''168''"
  "show_nat 1 = ''1''" "show_nat 255 = ''255''"
  by code_simp+

lemma draw_address_private:
  assumes "draw_address s = ((subnet, host), s')"
  shows "\<exists>a b c. subnet = dotted [a, b, c] \<and> private_net a b \<and> a < 256 \<and> b < 256 \<and> c < 256 \<and> 4 \<le> host \<and> host < 254"
proof -
  obtain k s1 where k: "rng_below 3 s = (k, s1)" by (cases "rng_below 3 s")
  consider "k = 0" | "k = 1" | "k \<noteq> 0" "k \<noteq> 1" by blast
  then show ?thesis
  proof cases
    case 1
    then obtain b s2 c s3 h s4 where d: "rng_below 256 s1 = (b, s2)" "rng_below 256 s2 = (c, s3)" "rng_below 250 s3 = (h, s4)"
      by (metis prod.exhaust)
    then show ?thesis using assms k 1 rng_below_less [OF d(1)] rng_below_less [OF d(2)] rng_below_less [OF d(3)]
      by (intro exI [of _ 10] exI [of _ b] exI [of _ c])
         (auto simp: draw_address_def dotted_def dotted_literals private_net_def)
  next
    case 2
    then obtain b s2 c s3 h s4 where d: "rng_below 16 s1 = (b, s2)" "rng_below 256 s2 = (c, s3)" "rng_below 250 s3 = (h, s4)"
      by (metis prod.exhaust)
    then show ?thesis using assms k 2 rng_below_less [OF d(1)] rng_below_less [OF d(2)] rng_below_less [OF d(3)]
      by (intro exI [of _ 172] exI [of _ "b + 16"] exI [of _ c])
         (auto simp: draw_address_def dotted_def dotted_literals private_net_def)
  next
    case 3
    then obtain c s3 h s4 where d: "rng_below 256 s1 = (c, s3)" "rng_below 250 s3 = (h, s4)"
      by (metis prod.exhaust)
    then show ?thesis using assms k 3 rng_below_less [OF d(1)] rng_below_less [OF d(2)]
      by (intro exI [of _ 192] exI [of _ 168] exI [of _ c])
         (auto simp: draw_address_def dotted_def dotted_literals private_net_def)
  qed
qed

lemma mac_first_bits: "bit (mac_first n) 1 \<and> \<not> bit (mac_first n) 0"
  by (simp add: mac_first_def bit_or_iff bit_push_bit_iff bit_numeral_rec)

lemma cores_of_cases: "cores_of n \<in> {1, 2, 4}"
  by (simp add: cores_of_def)

text \<open>Every seed gives a machine that could exist, and one description of it. The machine id is 32
  lower-case hexadecimal digits and the boot id a UUID of such digits; the core count, the memory
  and the disk are among those offered; the hardware address is a locally administered unicast one; the
  address is a private one, on the same /24 as the gateway and broadcast address the box reports
  and different from both.\<close>

theorem persona_plausible:
  fixes seed :: "64 word"
  defines "p \<equiv> from_seed seed"
  shows "length (p_machine_id p) = 32 \<and> list_all hex_char (p_machine_id p)
    \<and> (\<exists>h. length h = 32 \<and> list_all hex_char h \<and> p_boot_id p = uuid_of h)
    \<and> p_cpu_cores p \<in> {1, 2, 4} \<and> p_cpu p \<in> set CPUS
    \<and> p_mem_total_kb p \<in> set MEM_SIZES_KB \<and> p_disk_total_kb p \<in> set DISK_SIZES_KB
    \<and> (\<exists>w t. p_mac p = mac_of w t \<and> bit w 1 \<and> \<not> bit w 0 \<and> length t = 10 \<and> list_all hex_char t)
    \<and> (\<exists>a b c d. a < 256 \<and> b < 256 \<and> c < 256 \<and> 4 \<le> d \<and> d < 254 \<and> private_net a b
        \<and> p_ipv4 p = dotted [a, b, c, d] \<and> gateway p = dotted [a, b, c, 1] \<and> broadcast p = dotted [a, b, c, 255])"
proof -
  obtain mid s1 where 1: "rng_hex 32 seed = (mid, s1)" by (cases "rng_hex 32 seed")
  obtain bid s2 where 2: "rng_hex 32 s1 = (bid, s2)" by (cases "rng_hex 32 s1")
  obtain cpu s3 where 3: "rng_below (length CPUS) s2 = (cpu, s3)" by (cases "rng_below (length CPUS) s2")
  obtain cor s4 where 4: "rng_below 10 s3 = (cor, s4)" by (cases "rng_below 10 s3")
  obtain mem s5 where 5: "rng_below (length MEM_SIZES_KB) s4 = (mem, s5)" by (cases "rng_below (length MEM_SIZES_KB) s4")
  obtain dsk s6 where 6: "rng_below (length DISK_SIZES_KB) s5 = (dsk, s6)" by (cases "rng_below (length DISK_SIZES_KB) s5")
  obtain mt s7 where 7: "rng_hex 10 s6 = (mt, s7)" by (cases "rng_hex 10 s6")
  obtain fst_o s8 where 8: "rng_below 64 s7 = (fst_o, s8)" by (cases "rng_below 64 s7")
  obtain sn h s9 where 9: "draw_address s8 = ((sn, h), s9)" by (cases "draw_address s8") auto
  have p: "p = \<lparr>p_machine_id = mid, p_boot_id = uuid_of bid, p_mem_total_kb = MEM_SIZES_KB ! mem,
      p_disk_total_kb = DISK_SIZES_KB ! dsk, p_cpu_cores = cores_of cor, p_cpu = CPUS ! cpu,
      p_mac = mac_of (mac_first fst_o) mt, p_ipv4 = sn @ ''.'' @ show_nat h, p_subnet = sn, p_host_keys = []\<rparr>"
    unfolding p_def from_seed_def by (simp only: Let_def 1 2 3 4 5 6 7 8 9 prod.case)
  have sizes: "0 < length CPUS" "0 < length MEM_SIZES_KB" "0 < length DISK_SIZES_KB"
    by (simp_all add: CPUS_def MEM_SIZES_KB_def DISK_SIZES_KB_def)
  have "cpu < length CPUS" "mem < length MEM_SIZES_KB" "dsk < length DISK_SIZES_KB"
    using rng_below_less [OF 3] rng_below_less [OF 5] rng_below_less [OF 6] sizes by blast+
  then have picks: "CPUS ! cpu \<in> set CPUS" "MEM_SIZES_KB ! mem \<in> set MEM_SIZES_KB" "DISK_SIZES_KB ! dsk \<in> set DISK_SIZES_KB"
    by simp_all
  obtain a b c where net: "sn = dotted [a, b, c]" "private_net a b" "a < 256" "b < 256" "c < 256" "4 \<le> h" "h < 254"
    using draw_address_private [OF 9] by blast
  have addr: "p_ipv4 p = dotted [a, b, c, h]" "gateway p = dotted [a, b, c, 1]" "broadcast p = dotted [a, b, c, 255]"
    by (simp_all add: p net(1) dotted_def gateway_def broadcast_def dotted_literals del: One_nat_def)
  have "\<exists>h. length h = 32 \<and> list_all hex_char h \<and> p_boot_id p = uuid_of h"
    using rng_hex_props [OF 2] by (intro exI [of _ bid]) (simp add: p)
  moreover have "\<exists>w t. p_mac p = mac_of w t \<and> bit w 1 \<and> \<not> bit w 0 \<and> length t = 10 \<and> list_all hex_char t"
    using rng_hex_props [OF 7] mac_first_bits by (intro exI [of _ "mac_first fst_o"] exI [of _ mt]) (simp add: p)
  moreover have "\<exists>a b c d. a < 256 \<and> b < 256 \<and> c < 256 \<and> 4 \<le> d \<and> d < 254 \<and> private_net a b
      \<and> p_ipv4 p = dotted [a, b, c, d] \<and> gateway p = dotted [a, b, c, 1] \<and> broadcast p = dotted [a, b, c, 255]"
    using net addr by blast
  moreover have "p_machine_id p = mid" "p_cpu_cores p = cores_of cor" "p_cpu p = CPUS ! cpu"
    "p_mem_total_kb p = MEM_SIZES_KB ! mem" "p_disk_total_kb p = DISK_SIZES_KB ! dsk" by (simp_all add: p)
  ultimately show ?thesis using rng_hex_props [OF 1] picks cores_of_cases [of cor] by (simp only:)
qed

end
