(* ===== verification/Shell_State.thy ===== *)
theory Shell_State
  imports Vfs Env Arith Persona Shell_Parser Utf8_Chars
begin

text \<open>
  The state of a session (\<open>struct Shell\<close> of \<open>src/shell/mod.rs\<close>) with the values it holds: pending
  prompts, captured events, the full-screen displays of \<open>src/commands/system.rs\<close> and
  \<open>src/commands/text.rs\<close>; the result of a command and of a line, and the cap on their size
  (\<open>src/commands/mod.rs\<close>).

  A computation that may panic or recurse too deep for the given fuel has an \<open>outcome\<close>.
\<close>

datatype 'a outcome = Done 'a | Panicked | OutOfFuel

definition obind :: "'a outcome \<Rightarrow> ('a \<Rightarrow> 'b outcome) \<Rightarrow> 'b outcome" where
  "obind x f = (case x of Done a \<Rightarrow> f a | Panicked \<Rightarrow> Panicked | OutOfFuel \<Rightarrow> OutOfFuel)"

lemma obind_simps [simp]: "obind (Done a) f = f a" "obind Panicked f = Panicked" "obind OutOfFuel f = OutOfFuel"
  by (simp_all add: obind_def)

lemma obind_Done: "obind x f = Done b \<longleftrightarrow> (\<exists>a. x = Done a \<and> f a = Done b)"
  by (cases x) simp_all

lemma obind_OutOfFuel: "obind x f = OutOfFuel \<longleftrightarrow> x = OutOfFuel \<or> (\<exists>a. x = Done a \<and> f a = OutOfFuel)"
  by (cases x) simp_all

lemma obind_cong [fundef_cong]: "x = x' \<Longrightarrow> (\<And>a. x' = Done a \<Longrightarrow> f a = f' a) \<Longrightarrow> obind x f = obind x' f'"
  by (cases x') simp_all

section \<open>Results\<close>

definition MAX_COMMAND_OUTPUT_BYTES :: nat where "MAX_COMMAND_OUTPUT_BYTES = 1024 * 1024"
definition MAX_NESTED_COMMANDS :: nat where "MAX_NESTED_COMMANDS = 16"
definition LOGOUT :: str where "LOGOUT = ''logout'' @ [CHR 0x0A]"

record command_result =
  c_output :: str
  c_stderr :: str
  c_status :: int
  c_exit :: bool

definition cr_ok :: "str \<Rightarrow> command_result" where
  "cr_ok out = \<lparr>c_output = out, c_stderr = [], c_status = 0, c_exit = False\<rparr>"

definition cr_err :: "str \<Rightarrow> int \<Rightarrow> command_result" where
  "cr_err e status = \<lparr>c_output = [], c_stderr = e, c_status = status, c_exit = False\<rparr>"

definition cr_streams :: "str \<Rightarrow> str \<Rightarrow> int \<Rightarrow> command_result" where
  "cr_streams out e status = \<lparr>c_output = out, c_stderr = e, c_status = status, c_exit = False\<rparr>"

definition cr_empty :: command_result where
  "cr_empty = cr_ok []"

definition exiting :: "command_result \<Rightarrow> command_result" where
  "exiting r = r\<lparr>c_exit := True\<rparr>"

text \<open>\<open>while cut > 0 && !text.is_char_boundary(cut) \{ cut -= 1 \}\<close>\<close>

fun cut_back :: "str \<Rightarrow> nat \<Rightarrow> nat" where
  "cut_back s 0 = 0"
| "cut_back s (Suc n) = (if boundary s (Suc n) then Suc n else cut_back s n)"

definition truncation_notice :: str where
  "truncation_notice = [CHR 0x0A] @ ''... (output truncated)'' @ [CHR 0x0A]"

definition truncate_stream :: "str \<Rightarrow> nat \<Rightarrow> str" where
  "truncate_stream tx budget =
     (if length tx \<le> budget then tx else take (cut_back tx budget) tx @ truncation_notice)"

definition cr_truncate :: "command_result \<Rightarrow> command_result" where
  "cr_truncate r =
     (let out = truncate_stream (c_output r) MAX_COMMAND_OUTPUT_BYTES in
      r\<lparr>c_output := out, c_stderr := truncate_stream (c_stderr r) (MAX_COMMAND_OUTPUT_BYTES - length out)\<rparr>)"

record line_output =
  o_text :: str
  o_stdout :: str
  o_stderr :: str
  o_status :: int
  o_exit :: bool

definition output_default :: line_output where
  "output_default = \<lparr>o_text = [], o_stdout = [], o_stderr = [], o_status = 0, o_exit = False\<rparr>"

definition output_push :: "line_output \<Rightarrow> str \<Rightarrow> str \<Rightarrow> line_output" where
  "output_push o1 out err = o1\<lparr>o_text := o_text o1 @ err @ out, o_stdout := o_stdout o1 @ out, o_stderr := o_stderr o1 @ err\<rparr>"

definition output_written :: "str \<Rightarrow> str \<Rightarrow> int \<Rightarrow> line_output" where
  "output_written out err status = output_push (output_default\<lparr>o_status := status\<rparr>) out err"

section \<open>The session\<close>

datatype capture =
    Download str str str
  | ScriptCommand str int
  | PasswordChange str str
  | SuAuth str str

datatype pending =
    SuPassword str
  | NewPassword str "str option"
  | HeredocPending str str heredoc str

definition pending_echoes :: "pending \<Rightarrow> bool" where
  "pending_echoes p = (case p of HeredocPending _ _ _ _ \<Rightarrow> True | _ \<Rightarrow> False)"

definition pending_prompt :: "pending \<Rightarrow> str option" where
  "pending_prompt p = (case p of HeredocPending _ _ _ _ \<Rightarrow> Some ''> '' | _ \<Rightarrow> None)"

datatype editor_kind = Vi | Nano

record top_screen =
  ts_rows :: "str list"
  ts_total :: nat
  ts_running :: nat

record editor_screen =
  es_kind :: editor_kind
  es_path :: str
  es_lines :: "str list"
  es_exists :: bool

datatype screen = Top top_screen | Editor editor_screen | Listen

record shell =
  sh_vfs :: vfs
  sh_env :: env
  sh_cwd :: node_id
  sh_home :: node_id
  sh_prev_cwd :: node_id
  sh_username :: str
  sh_hostname :: str
  sh_uid :: u32
  sh_gid :: u32
  sh_last_status :: int
  sh_pid :: nat
  sh_login :: int
  sh_nesting :: nat
  sh_subst_budget :: nat
  sh_subst_stderr :: str
  sh_stdin :: "str option"
  sh_stdout_is_tty :: bool
  sh_interactive :: bool
  sh_history :: "str list"
  sh_captures :: "capture list"
  sh_pending :: "pending option"
  sh_screen :: "screen option"
  sh_subst_depth :: nat
  sh_persona :: persona
  sh_heredoc_stdin :: "str option"
  sh_heredoc_log :: "str option"

type_synonym dispatcher = "shell \<Rightarrow> str list \<Rightarrow> command_result \<times> shell"

section \<open>Size of a truncated stream\<close>

lemma cut_back_le: "cut_back s n \<le> n"
  by (induction n) auto

lemma cut_back_boundary: "boundary s (cut_back s n)"
  by (induction n) (simp_all add: boundary_def)

lemma length_notice: "length truncation_notice = 24"
  by (simp add: truncation_notice_def)

lemma truncate_stream_length: "length (truncate_stream tx n) \<le> n + 24"
  using cut_back_le [of tx n] by (auto simp: truncate_stream_def length_notice)

lemma truncate_stream_short [simp]: "length tx \<le> n \<Longrightarrow> truncate_stream tx n = tx"
  by (simp add: truncate_stream_def)

lemma truncate_stream_valid: "utf8_valid tx \<Longrightarrow> utf8_valid (truncate_stream tx n)"
proof -
  assume v: "utf8_valid tx"
  have "utf8_valid truncation_notice" by (simp add: truncation_notice_def utf8_valid.simps utf8_step_def byte_at_def)
  then show ?thesis using v utf8_valid_cut(1) [OF v cut_back_boundary [of tx n]]
    by (auto simp: truncate_stream_def utf8_valid_append)
qed

end
