(* ===== verification/Shell.thy ===== *)
theory Shell
  imports Shell_State
begin

text \<open>
  The shell session (\<open>src/shell/mod.rs\<close>): expansion of a line, command substitution in a subshell,
  arithmetic, redirections, pipelines, whole lines, here-documents and password prompts.

  A command is run by a \<open>dispatcher\<close>, an argument; the clock and the Unicode tables the
  session reads are the record \<open>world\<close>. Expansion, substitution and execution call each other
  through the nesting level: \<open>expand_at n\<close> allows \<open>n\<close> further levels and gives \<open>OutOfFuel\<close> below.
\<close>

record world =
  w_now :: int
  w_unicode :: unicode

definition CONNECTION_VARS :: "str list" where
  "CONNECTION_VARS = [''SSH_CLIENT'', ''SSH_CONNECTION'', ''SSH_TTY'']"

definition DEV_NULL :: str where "DEV_NULL = ''/dev/null''"

record redir_sink =
  k_path :: str
  k_node :: "node_id option"
  k_append :: bool

record sinks =
  ks_stdout :: "redir_sink option"
  ks_stderr :: "redir_sink option"
  ks_stderr_merged :: bool
  ks_stdout_merged :: bool

definition sinks_default :: sinks where
  "sinks_default = \<lparr>ks_stdout = None, ks_stderr = None, ks_stderr_merged = False, ks_stdout_merged = False\<rparr>"

section \<open>Session\<close>

definition ensure_home :: "int \<Rightarrow> vfs \<Rightarrow> str \<Rightarrow> u32 \<Rightarrow> u32 \<Rightarrow> node_id \<times> vfs" where
  "ensure_home now v home_path u g = (case resolve v (fs_root v) home_path of
      Some i \<Rightarrow> (i, v)
    | None \<Rightarrow>
        (case mkdir_p now v home_path o755 u g of
           (None, v1) \<Rightarrow> (fs_root v1, v1)
         | (Some home, v1) \<Rightarrow>
             (let v2 = snd (add_file now v1 home ''.bashrc'' (''# ~/.bashrc'' @ [CHR 0x0A]) o644 u g);
                  v3 = snd (add_file now v2 home ''.profile'' (''# ~/.profile'' @ [CHR 0x0A]) o644 u g)
              in (home, v3))))"

definition identity :: "str \<Rightarrow> u32 \<times> u32 \<times> str" where
  "identity user = (if user = ''root'' then (0, 0, ''/root'') else (1000, 1000, ''/home/'' @ user))"

text \<open>\<open>Shell::with_persona\<close>, the filesystem image being an argument.\<close>

definition shell_new :: "int \<Rightarrow> vfs \<Rightarrow> str \<Rightarrow> str \<Rightarrow> persona \<Rightarrow> shell" where
  "shell_new now v0 username hostname p =
     (let user = (if username = [] then ''root'' else username);
          (uid, gid, home_path) = identity user;
          (home, v) = ensure_home now v0 home_path uid gid
      in \<lparr>sh_vfs = v, sh_env = env_login user home_path hostname, sh_cwd = home, sh_home = home, sh_prev_cwd = home,
          sh_username = user, sh_hostname = hostname, sh_uid = uid, sh_gid = gid, sh_last_status = 0, sh_pid = 1337,
          sh_login = now, sh_nesting = 0, sh_subst_budget = MAX_COMMAND_OUTPUT_BYTES, sh_subst_stderr = [],
          sh_stdin = None, sh_stdout_is_tty = True, sh_interactive = True, sh_history = [], sh_captures = [],
          sh_pending = None, sh_screen = None, sh_subst_depth = 0, sh_persona = p, sh_heredoc_stdin = None,
          sh_heredoc_log = None\<rparr>)"

definition MAX_HISTORY :: nat where "MAX_HISTORY = 1000"

definition record_history :: "shell \<Rightarrow> str \<Rightarrow> shell" where
  "record_history s line =
     (let l = trim line in
      if l = [] then s
      else let h = sh_history s @ [l] in
        s\<lparr>sh_history := (if length h > MAX_HISTORY then drop (length h - MAX_HISTORY) h else h)\<rparr>)"

definition cwd_path :: "shell \<Rightarrow> str" where
  "cwd_path s = path_of (sh_vfs s) (sh_cwd s)"

definition shell_prompt :: "shell \<Rightarrow> str" where
  "shell_prompt s =
     (let sigil = (if sh_uid s = 0 then ''#'' else ''$'');
          cwd = cwd_path s;
          home = path_of (sh_vfs s) (sh_home s);
          display = (if cwd = home then ''~''
                     else case strip_prefix (home @ ''/'') cwd of
                       Some rest \<Rightarrow> ''~/'' @ rest
                     | None \<Rightarrow> cwd)
      in sh_username s @ ''@'' @ sh_hostname s @ '':'' @ display @ sigil @ '' '')"

definition switch_user :: "world \<Rightarrow> shell \<Rightarrow> str \<Rightarrow> shell" where
  "switch_user w s user0 =
     (let user = (if user0 = [] then ''root'' else user0);
          (uid, gid, home_path) = identity user;
          (home, v) = ensure_home (w_now w) (sh_vfs s) home_path uid gid;
          connection = List.map_filter (\<lambda>k. map_option (\<lambda>x. (k, x)) (env_get (sh_env s) k)) CONNECTION_VARS;
          env = fold (\<lambda>(k, x) e. env_set e k x) connection (env_login user home_path (sh_hostname s))
      in s\<lparr>sh_vfs := v, sh_env := env, sh_username := user, sh_uid := uid, sh_gid := gid,
           sh_cwd := home, sh_home := home, sh_prev_cwd := home\<rparr>)"

section \<open>Expansion\<close>

datatype expansion = Words | Literal

text \<open>What is written before a character of a value.\<close>

definition value_escape :: "bool \<Rightarrow> rchar \<Rightarrow> str" where
  "value_escape in_double c =
     (if c = [CHR 0x5C] \<or> c = [CHR 0x22] then [CHR 0x5C]
      else if c = [CHR 0x27] \<and> \<not> in_double then [CHR 0x5C]
      else [])"

definition push_value :: "str \<Rightarrow> str \<Rightarrow> bool \<Rightarrow> str" where
  "push_value out value in_double = out @ concat (map (\<lambda>c. value_escape in_double c @ c) (chars value))"

definition emit :: "str \<Rightarrow> expansion \<Rightarrow> str \<Rightarrow> bool \<Rightarrow> str" where
  "emit out mode value in_double = (case mode of
      Words \<Rightarrow> push_value out value in_double
    | Literal \<Rightarrow> out @ value)"

text \<open>\<open>line.char_indices()\<close>\<close>

fun char_indices_from :: "nat \<Rightarrow> rchar list \<Rightarrow> (nat \<times> rchar) list" where
  "char_indices_from i [] = []"
| "char_indices_from i (c # cs) = (i, c) # char_indices_from (i + length c) cs"

definition char_indices :: "str \<Rightarrow> (nat \<times> rchar) list" where
  "char_indices line = char_indices_from 0 (chars line)"

text \<open>\<open>&line[a..b]\<close>\<close>

definition str_slice :: "str \<Rightarrow> nat \<Rightarrow> nat \<Rightarrow> str outcome" where
  "str_slice line a b =
     (if a \<le> b \<and> b \<le> length line \<and> boundary line a \<and> boundary line b then Done (slice line a b) else Panicked)"

definition braced_value :: "shell \<Rightarrow> str \<Rightarrow> str" where
  "braced_value s name =
     (if name = ''#'' then ''0''
      else if name = ''0'' then ''-bash''
      else if name = ''?'' then show_int (sh_last_status s)
      else if name = ''$'' then show_nat (sh_pid s)
      else if name = ''*'' \<or> name = ''@'' then []
      else if name \<noteq> [] \<and> list_all char_ascii_digit (chars name) then []
      else (case env_get (sh_env s) name of Some x \<Rightarrow> x | None \<Rightarrow> []))"

text \<open>
  After an unquoted dollar sign: the value and the characters left, or \<open>None\<close> when the
  dollar sign stands for itself.
\<close>

definition dollar_value :: "world \<Rightarrow> shell \<Rightarrow> (nat \<times> rchar) list \<Rightarrow> (str \<times> (nat \<times> rchar) list) option" where
  "dollar_value w s cs = (case cs of
      [] \<Rightarrow> None
    | (_, n) # rest \<Rightarrow>
        if n = ''?'' then Some (show_int (sh_last_status s), rest)
        else if n = ''$'' then Some (show_nat (sh_pid s), rest)
        else if n = ''#'' then Some (''0'', rest)
        else if n = ''0'' then Some (''-bash'', rest)
        else if n = ''*'' \<or> n = ''@'' then Some ([], rest)
        else if char_ascii_digit n then Some ([], rest)
        else if n = ''{'' then
          (let open = (\<lambda>(_, c). c \<noteq> ''}'') in
           Some (braced_value s (concat (map snd (takeWhile open rest))), tl (dropWhile open rest)))
        else if char_alphabetic (w_unicode w) n \<or> n = ''_'' then
          (let in_name = (\<lambda>(_, c). char_alphanumeric (w_unicode w) c \<or> c = ''_'') in
           Some (case env_get (sh_env s) (concat (map snd (takeWhile in_name cs))) of Some x \<Rightarrow> x | None \<Rightarrow> [],
                 dropWhile in_name cs))
        else None)"

lemma length_tl_dropWhile_le: "length (tl (dropWhile P xs)) \<le> length xs"
  by (metis diff_le_self dual_order.trans length_dropWhile_le length_tl)

lemma dollar_value_shorter:
  assumes "dollar_value w s cs = Some (v, rest)"
  shows "length rest \<le> length cs"
proof (cases cs)
  case Nil
  then show ?thesis using assms by (simp add: dollar_value_def)
next
  case (Cons x r)
  obtain i n where x: "x = (i, n)" by (cases x)
  note bounds = length_dropWhile_le [of "\<lambda>(_, c). char_alphanumeric (w_unicode w) c \<or> c = ''_''" "(i, n) # r"]
    length_tl_dropWhile_le [of "\<lambda>(_, c). c \<noteq> ''}''" r]
  have "rest = r \<or> rest = tl (dropWhile (\<lambda>(_, c). c \<noteq> ''}'') r)
      \<or> rest = dropWhile (\<lambda>(_, c). char_alphanumeric (w_unicode w) c \<or> c = ''_'') ((i, n) # r)"
    using assms unfolding Cons x dollar_value_def Let_def
    by (simp only: list.case prod.case option.inject prod.inject split: if_split_asm) simp_all
  then show ?thesis using bounds unfolding Cons x by (elim disjE) simp_all
qed

type_synonym expander = "shell \<Rightarrow> str \<Rightarrow> expansion \<Rightarrow> (str \<times> shell) outcome"
type_synonym runner = "shell \<Rightarrow> str \<Rightarrow> (line_output \<times> shell) outcome"
type_synonym subst = "shell \<Rightarrow> str \<Rightarrow> (str \<times> shell) outcome"

text \<open>The loop of \<open>expand_with\<close>; \<open>sub\<close> and \<open>ari\<close> are \<open>substitute\<close> and \<open>arithmetic\<close>.\<close>

function expand_loop ::
  "world \<Rightarrow> subst \<Rightarrow> subst \<Rightarrow> expansion \<Rightarrow> str \<Rightarrow> shell \<Rightarrow> bool \<Rightarrow> bool \<Rightarrow> str \<Rightarrow> (nat \<times> rchar) list
     \<Rightarrow> (str \<times> shell) outcome" where
  "expand_loop w sub ari mode line s in_single in_double out [] = Done (out, s)"
| "expand_loop w sub ari mode line s in_single in_double out ((i, c) # cs) =
     (case (if \<not> in_single \<and> (c = ''$'' \<or> c = [CHR 0x60]) then substitution_at line i else None) of
        Some sb \<Rightarrow>
          obind (str_slice line (fst (s_body sb)) (snd (s_body sb))) (\<lambda>body.
          obind ((if s_arithmetic sb then ari else sub) s body) (\<lambda>(value, s').
            expand_loop w sub ari mode line s' in_single in_double (emit out mode value in_double)
              (dropWhile (\<lambda>(j, _). j < s_end sb) cs)))
      | None \<Rightarrow>
          if c = [CHR 0x5C] \<and> \<not> in_single then
            (case cs of
               [] \<Rightarrow> expand_loop w sub ari mode line s in_single in_double (out @ c) []
             | (_, n) # rest \<Rightarrow>
                 if mode = Words then expand_loop w sub ari mode line s in_single in_double (out @ c @ n) rest
                 else if n = ''$'' \<or> n = [CHR 0x60] \<or> n = [CHR 0x5C] then
                   expand_loop w sub ari mode line s in_single in_double (out @ n) rest
                 else expand_loop w sub ari mode line s in_single in_double (out @ c) cs)
          else if c = [CHR 0x27] \<and> mode = Words \<and> \<not> in_double then
            expand_loop w sub ari mode line s (\<not> in_single) in_double (out @ c) cs
          else if c = [CHR 0x22] \<and> mode = Words \<and> \<not> in_single then
            expand_loop w sub ari mode line s in_single (\<not> in_double) (out @ c) cs
          else if c = ''$'' \<and> \<not> in_single then
            (case dollar_value w s cs of
               Some (value, rest) \<Rightarrow>
                 expand_loop w sub ari mode line s in_single in_double (emit out mode value in_double) rest
             | None \<Rightarrow> expand_loop w sub ari mode line s in_single in_double (out @ ''$'') cs)
          else expand_loop w sub ari mode line s in_single in_double (out @ c) cs)"
  by pat_completeness auto

termination
  by (relation "measure (\<lambda>(w, sub, ari, mode, line, s, q, d, out, cs). length cs)")
     (auto simp: length_dropWhile_le le_imp_less_Suc dest: dollar_value_shorter)

declare expand_loop.simps(2) [simp del]

definition expand_with :: "world \<Rightarrow> subst \<Rightarrow> subst \<Rightarrow> expander" where
  "expand_with w sub ari s line mode = expand_loop w sub ari mode line s False False [] (char_indices line)"

definition parse_line :: "expander \<Rightarrow> shell \<Rightarrow> str \<Rightarrow> (str list \<times> shell) outcome" where
  "parse_line ex s line = obind (ex s line Words) (\<lambda>(expanded, s'). Done (tokenize expanded, s'))"

text \<open>The budget cut at the end of \<open>substitute\<close>: the value kept and the budget left.\<close>

definition spend_budget :: "nat \<Rightarrow> str \<Rightarrow> str \<times> nat" where
  "spend_budget budget value =
     (let v = (if length value > budget then take (cut_back value budget) value else value)
      in (v, budget - length v))"

definition strip_newlines :: "str \<Rightarrow> str" where
  "strip_newlines v = rev (dropWhile (\<lambda>b. b = CHR 0x0A) (rev v))"

definition strip_suffix :: "str \<Rightarrow> str \<Rightarrow> str option" where
  "strip_suffix p s =
     (if length p \<le> length s \<and> drop (length s - length p) s = p then Some (take (length s - length p) s) else None)"

definition substituted_text :: "line_output \<Rightarrow> str" where
  "substituted_text o1 =
     strip_newlines (if o_exit o1 then (case strip_suffix LOGOUT (o_stdout o1) of Some rest \<Rightarrow> rest | None \<Rightarrow> o_stdout o1)
                     else o_stdout o1)"

definition substitute :: "runner \<Rightarrow> subst" where
  "substitute exec s body =
     (if sh_nesting s \<ge> MAX_NESTED_COMMANDS then Done ([], s)
      else
        obind (exec (s\<lparr>sh_nesting := sh_nesting s + 1, sh_subst_depth := sh_subst_depth s + 1, sh_captures := []\<rparr>) body)
          (\<lambda>(o1, s1).
            let s2 = s1\<lparr>sh_captures := sh_captures s @ sh_captures s1,
                        sh_env := sh_env s, sh_cwd := sh_cwd s, sh_prev_cwd := sh_prev_cwd s, sh_home := sh_home s,
                        sh_username := sh_username s, sh_uid := sh_uid s, sh_gid := sh_gid s,
                        sh_pending := sh_pending s, sh_screen := sh_screen s,
                        sh_nesting := sh_nesting s1 - 1, sh_subst_depth := sh_subst_depth s1 - 1,
                        sh_subst_stderr := truncate_stream (sh_subst_stderr s1 @ o_stderr o1) MAX_COMMAND_OUTPUT_BYTES\<rparr>;
                (v, left) = spend_budget (sh_subst_budget s2) (substituted_text o1)
            in Done (v, s2\<lparr>sh_subst_budget := left\<rparr>)))"

definition arithmetic :: "world \<Rightarrow> expander \<Rightarrow> subst" where
  "arithmetic w ex s body =
     (if sh_nesting s \<ge> MAX_NESTED_COMMANDS then Done (''0'', s)
      else
        obind (ex (s\<lparr>sh_nesting := sh_nesting s + 1\<rparr>) body Words) (\<lambda>(expanded, s1).
          let s2 = s1\<lparr>sh_nesting := sh_nesting s1 - 1\<rparr> in
          Done (show_int (case arith_eval (w_unicode w) (sh_env s2) expanded of Some n \<Rightarrow> sint n | None \<Rightarrow> 0), s2)))"

section \<open>Redirections\<close>

definition strip_trailing_slashes :: "str \<Rightarrow> str" where
  "strip_trailing_slashes p =
     (let trimmed = rev (dropWhile (\<lambda>b. b = CHR ''/'') (rev p)) in if trimmed = [] then ''/'' else trimmed)"

definition resolve_parent :: "shell \<Rightarrow> str \<Rightarrow> (node_id \<times> str) option" where
  "resolve_parent s path0 =
     (let (dir, name) = split_path (strip_trailing_slashes path0) in
      if name = [] \<or> name = ''.'' \<or> name = ''..'' then None
      else case resolve (sh_vfs s) (sh_cwd s) dir of
        None \<Rightarrow> None
      | Some parent \<Rightarrow> if is_dir (n_meta (fnode (sh_vfs s) parent)) then Some (parent, name) else None)"

definition bash_error :: "str \<Rightarrow> str \<Rightarrow> str" where
  "bash_error path what = ''-bash: '' @ path @ '': '' @ what @ [CHR 0x0A]"

definition open_redirect :: "world \<Rightarrow> shell \<Rightarrow> str \<Rightarrow> bool \<Rightarrow> (str + node_id option) \<times> shell" where
  "open_redirect w s path app = (case resolve_parent s path of
      None \<Rightarrow> (Inl (bash_error path ''No such file or directory''), s)
    | Some (parent, name) \<Rightarrow>
        (case child (sh_vfs s) parent name of
           Some existing \<Rightarrow>
             if resolve (sh_vfs s) (fs_root (sh_vfs s)) DEV_NULL = Some existing then (Inr None, s)
             else (let meta = n_meta (fnode (sh_vfs s) existing) in
               if is_dir meta then (Inl (bash_error path ''Is a directory''), s)
               else if \<not> writable_by meta (sh_uid s) (sh_gid s) then (Inl (bash_error path ''Permission denied''), s)
               else if app then (Inr (Some existing), s)
               else (case write_file (w_now w) (sh_vfs s) existing [] False of
                 (True, v) \<Rightarrow> (Inr (Some existing), s\<lparr>sh_vfs := v\<rparr>)
               | (False, v) \<Rightarrow> (Inl (bash_error path ''No space left on device''), s\<lparr>sh_vfs := v\<rparr>)))
         | None \<Rightarrow>
             if \<not> writable_by (n_meta (fnode (sh_vfs s) parent)) (sh_uid s) (sh_gid s) then
               (Inl (bash_error path ''Permission denied''), s)
             else
               (let (i, v) = add_file (w_now w) (sh_vfs s) parent name [] o644 (sh_uid s) (sh_gid s) in
                if i = parent then (Inl (bash_error path ''No space left on device''), s\<lparr>sh_vfs := v\<rparr>)
                else (Inr (Some i), s\<lparr>sh_vfs := v\<rparr>))))"

text \<open>Pointing a stream at a sink.\<close>

definition set_sink :: "redir_stream \<Rightarrow> redir_sink option \<Rightarrow> bool \<Rightarrow> sinks \<Rightarrow> sinks" where
  "set_sink stream k merged ks = (case stream of
      Stdout \<Rightarrow> ks\<lparr>ks_stdout := k, ks_stdout_merged := merged\<rparr>
    | Stderr \<Rightarrow> ks\<lparr>ks_stderr := k, ks_stderr_merged := merged\<rparr>
    | Both \<Rightarrow> ks\<lparr>ks_stdout := k, ks_stderr := k, ks_stdout_merged := merged, ks_stderr_merged := merged\<rparr>)"

fun open_redirects :: "world \<Rightarrow> expander \<Rightarrow> shell \<Rightarrow> sinks \<Rightarrow> redirect list \<Rightarrow> ((str + sinks) \<times> shell) outcome" where
  "open_redirects w ex s ks [] = Done (Inr ks, s)"
| "open_redirects w ex s ks (r # rs) =
     (if r_target r = Dup (r_stream r) then open_redirects w ex s ks rs
      else case r_target r of
        ToFile path app \<Rightarrow>
          obind (parse_line ex s path) (\<lambda>(words, s1).
            case words of
              [p] \<Rightarrow>
                (case open_redirect w s1 p app of
                   (Inl message, s2) \<Rightarrow> Done (Inl message, s2)
                 | (Inr node, s2) \<Rightarrow>
                     open_redirects w ex s2
                       (set_sink (r_stream r) (Some \<lparr>k_path = p, k_node = node, k_append = app\<rparr>) False ks) rs)
            | _ \<Rightarrow> Done (Inl (bash_error path ''ambiguous redirect''), s1))
      | Dup Stdout \<Rightarrow> open_redirects w ex s (set_sink (r_stream r) (ks_stdout ks) (ks_stdout ks = None) ks) rs
      | Dup _ \<Rightarrow> open_redirects w ex s (set_sink (r_stream r) (ks_stderr ks) (ks_stderr ks = None) ks) rs)"

definition write_redirect :: "world \<Rightarrow> shell \<Rightarrow> redir_sink \<Rightarrow> byte list \<Rightarrow> bool \<Rightarrow> str option \<times> shell" where
  "write_redirect w s k bs app = (case k_node k of
      None \<Rightarrow> (None, s)
    | Some node \<Rightarrow>
        (case write_file (w_now w) (sh_vfs s) node bs app of
           (True, v) \<Rightarrow> (None, s\<lparr>sh_vfs := v\<rparr>)
         | (False, v) \<Rightarrow> (Some (bash_error (k_path k) ''No space left on device''), s\<lparr>sh_vfs := v\<rparr>)))"

text \<open>The failure, the node written last and the session after it.\<close>

definition divert :: "world \<Rightarrow> shell \<Rightarrow> redir_sink \<Rightarrow> str \<Rightarrow> node_id option \<Rightarrow> str option \<times> node_id option \<times> shell" where
  "divert w s k tx landed =
     (if tx = [] then (None, landed, s)
      else
        (let app = (k_append k \<or> k_node k \<noteq> None \<and> k_node k = landed);
             (failure, s') = write_redirect w s k tx app
         in (failure, k_node k, s')))"

definition merge_streams :: "sinks \<Rightarrow> command_result \<Rightarrow> command_result" where
  "merge_streams ks r =
     (let r1 = (if ks_stderr_merged ks then r\<lparr>c_output := c_stderr r @ c_output r, c_stderr := []\<rparr> else r)
      in if ks_stdout_merged ks then r1\<lparr>c_stderr := c_stderr r1 @ c_output r1, c_output := []\<rparr> else r1)"

definition route_output :: "world \<Rightarrow> shell \<Rightarrow> command_result \<Rightarrow> sinks \<Rightarrow> command_result \<times> shell" where
  "route_output w s r ks =
     (let (failure1, landed, s1, r1) = (case ks_stderr ks of
            None \<Rightarrow> (None, None, s, r)
          | Some k \<Rightarrow> (let (f, wr, s') = divert w s k (c_stderr r) None in (f, wr, s', r\<lparr>c_stderr := []\<rparr>)));
          (failure2, s2, r2) = (case ks_stdout ks of
            None \<Rightarrow> (failure1, s1, r1)
          | Some k \<Rightarrow>
              (let (f, wr, s') = divert w s1 k (c_output r1) landed
               in (if f \<noteq> None then f else failure1, s', r1\<lparr>c_output := []\<rparr>)));
          r3 = (case failure2 of
            None \<Rightarrow> r2
          | Some message \<Rightarrow> r2\<lparr>c_stderr := c_stderr r2 @ message, c_status := 1\<rparr>)
      in (merge_streams ks r3, s2))"

section \<open>Pipelines and lines\<close>

text \<open>How a stage ends: refused before its command ran, without a command, or run; with the pipeline's
  standard error so far.\<close>

datatype stage_end = Refused command_result | NoCommand str | Ran command_result str

definition run_stage ::
  "world \<Rightarrow> dispatcher \<Rightarrow> expander \<Rightarrow> bool \<Rightarrow> shell \<Rightarrow> str option \<Rightarrow> str \<Rightarrow> str \<Rightarrow> (stage_end \<times> shell) outcome" where
  "run_stage w d ex is_last s piped err stage =
     (case split_redirects stage of
        Inl message \<Rightarrow> Done (Refused (cr_err message 2), s)
      | Inr (tx, redirects) \<Rightarrow>
          obind (parse_line ex s tx) (\<lambda>(argv, s1).
          obind (open_redirects w ex s1 sinks_default redirects) (\<lambda>(opened, s2).
            case opened of
              Inl message \<Rightarrow> Done (Refused (cr_err message 1), s2)
            | Inr ks \<Rightarrow>
                (let err1 = truncate_stream (err @ sh_subst_stderr s2) MAX_COMMAND_OUTPUT_BYTES;
                     s3 = s2\<lparr>sh_subst_stderr := []\<rparr> in
                 if argv = [] then Done (NoCommand err1, s3)
                 else
                   (let (r, s4) = d (s3\<lparr>sh_stdin := piped,
                          sh_stdout_is_tty := (is_last \<and> ks_stdout ks = None \<and> sh_subst_depth s3 = 0)\<rparr>) argv;
                        (r', s5) = route_output w (s4\<lparr>sh_stdin := None, sh_stdout_is_tty := True\<rparr>) r ks
                    in Done (Ran (r'\<lparr>c_stderr := []\<rparr>)
                               (truncate_stream (err1 @ c_stderr r') MAX_COMMAND_OUTPUT_BYTES), s5))))))"

fun run_stages ::
  "world \<Rightarrow> dispatcher \<Rightarrow> expander \<Rightarrow> shell \<Rightarrow> str option \<Rightarrow> command_result option \<Rightarrow> str \<Rightarrow> str list
     \<Rightarrow> (command_result option \<times> shell) outcome" where
  "run_stages w d ex s piped latest err [] =
     Done (case latest of
             Some r \<Rightarrow> Some (r\<lparr>c_stderr := err\<rparr>)
           | None \<Rightarrow> if err \<noteq> [] then Some (cr_streams [] err 0) else None, s)"
| "run_stages w d ex s piped latest err (stage # stages) =
     obind (run_stage w d ex (stages = []) s piped err stage) (\<lambda>(e, s1).
       case e of
         Refused r \<Rightarrow> Done (Some r, s1)
       | NoCommand err1 \<Rightarrow> run_stages w d ex s1 piped latest err1 stages
       | Ran r err1 \<Rightarrow> run_stages w d ex s1 (Some (c_output r)) (Some r) err1 stages)"

definition run_pipeline :: "world \<Rightarrow> dispatcher \<Rightarrow> expander \<Rightarrow> shell \<Rightarrow> str \<Rightarrow> (command_result option \<times> shell) outcome" where
  "run_pipeline w d ex s segment =
     run_stages w d ex (s\<lparr>sh_heredoc_stdin := None\<rparr>) (sh_heredoc_stdin s) None [] (split_pipeline segment)"

definition should_run :: "separator \<Rightarrow> int \<Rightarrow> bool" where
  "should_run sep status = (case sep of Always \<Rightarrow> True | AndIf \<Rightarrow> status = 0 | OrIf \<Rightarrow> status \<noteq> 0)"

definition syntax_error :: line_output where
  "syntax_error = output_push (output_default\<lparr>o_status := 2\<rparr>) []
     (''-bash: syntax error near unexpected token `&&'' @ [CHR 0x27, CHR 0x0A])"

definition cap_output :: "line_output \<Rightarrow> line_output" where
  "cap_output o1 = o1\<lparr>o_text := truncate_stream (o_text o1) MAX_COMMAND_OUTPUT_BYTES,
     o_stdout := truncate_stream (o_stdout o1) MAX_COMMAND_OUTPUT_BYTES,
     o_stderr := truncate_stream (o_stderr o1) MAX_COMMAND_OUTPUT_BYTES\<rparr>"

definition finish_line :: "bool \<Rightarrow> int \<Rightarrow> line_output \<Rightarrow> line_output" where
  "finish_line has_run status o1 = (if has_run then o1\<lparr>o_status := status\<rparr> else o1)"

text \<open>The loop of \<open>execute\<close> over the segments; \<open>run\<close> is \<open>run_pipeline\<close>.\<close>

fun run_segments ::
  "(shell \<Rightarrow> str \<Rightarrow> (command_result option \<times> shell) outcome) \<Rightarrow> shell \<Rightarrow> line_output \<Rightarrow> int \<Rightarrow> bool \<Rightarrow> segment list
     \<Rightarrow> (line_output \<times> shell) outcome" where
  "run_segments run s o1 status has_run [] = Done (finish_line has_run status o1, s)"
| "run_segments run s o1 status has_run (g # gs) =
     (if trim (g_text g) = [] then
        (if g_run_if g \<noteq> Always then Done (syntax_error, s) else run_segments run s o1 status has_run gs)
      else if \<not> should_run (g_run_if g) status then run_segments run s o1 status has_run gs
      else
        obind (run s (g_text g)) (\<lambda>(result, s1).
          case result of
            None \<Rightarrow> run_segments run s1 o1 status has_run gs
          | Some r \<Rightarrow>
              (let s2 = s1\<lparr>sh_last_status := c_status r\<rparr>;
                   o2 = output_push o1 (c_output r) (c_stderr r) in
               if c_exit r then Done (finish_line True (c_status r) (o2\<lparr>o_exit := True\<rparr>), s2)
               else if length (o_text o2) \<ge> MAX_COMMAND_OUTPUT_BYTES then
                 Done (finish_line True (c_status r) (cap_output o2), s2)
               else run_segments run s2 o2 (c_status r) True gs)))"

definition execute_body :: "world \<Rightarrow> dispatcher \<Rightarrow> expander \<Rightarrow> runner" where
  "execute_body w d ex s line =
     (let s1 = s\<lparr>sh_captures := []\<rparr>;
          s2 = (if sh_nesting s1 = 0 then s1\<lparr>sh_subst_budget := MAX_COMMAND_OUTPUT_BYTES, sh_subst_stderr := []\<rparr> else s1) in
      case (if sh_nesting s1 = 0 then split_heredoc (strip_comment line) else None) of
        Some (doc, command) \<Rightarrow> Done (output_default, s2\<lparr>sh_pending := Some (HeredocPending command line doc [])\<rparr>)
      | None \<Rightarrow> run_segments (run_pipeline w d ex) s2 output_default 0 False (split_segments (strip_comment line)))"

primrec expand_at :: "nat \<Rightarrow> world \<Rightarrow> dispatcher \<Rightarrow> expander" where
  "expand_at 0 w d = expand_with w (substitute (\<lambda>s line. OutOfFuel)) (arithmetic w (\<lambda>s line mode. OutOfFuel))"
| "expand_at (Suc n) w d =
     expand_with w (substitute (execute_body w d (expand_at n w d))) (arithmetic w (expand_at n w d))"

text \<open>The session allows \<open>MAX_NESTED_COMMANDS\<close> levels.\<close>

definition expand :: "world \<Rightarrow> dispatcher \<Rightarrow> expander" where
  "expand w d = expand_at MAX_NESTED_COMMANDS w d"

definition execute :: "world \<Rightarrow> dispatcher \<Rightarrow> runner" where
  "execute w d = execute_body w d (expand w d)"

section \<open>Here-documents and prompts\<close>

definition run_heredoc :: "world \<Rightarrow> dispatcher \<Rightarrow> shell \<Rightarrow> str \<Rightarrow> str \<Rightarrow> heredoc \<Rightarrow> str \<Rightarrow> (line_output \<times> shell) outcome" where
  "run_heredoc w d s command raw doc body =
     (let s1 = s\<lparr>sh_pending := None, sh_heredoc_log := Some (raw @ [CHR 0x0A] @ body @ h_delimiter doc)\<rparr> in
      obind (if h_expand doc then expand w d s1 body Literal else Done (body, s1)) (\<lambda>(tx, s2).
      obind (execute w d (s2\<lparr>sh_heredoc_stdin := Some tx\<rparr>) command) (\<lambda>(o1, s3).
        Done (o1, s3\<lparr>sh_heredoc_stdin := None\<rparr>))))"

text \<open>The helpers of \<open>src/commands/admin.rs\<close> that a changed password goes through.\<close>

definition read_text :: "world \<Rightarrow> shell \<Rightarrow> str \<Rightarrow> str" where
  "read_text w s path = (case resolve (sh_vfs s) (sh_cwd s) path of
      None \<Rightarrow> []
    | Some i \<Rightarrow> (case file_bytes (w_now w) (fnode (sh_vfs s) i) of None \<Rightarrow> [] | Some bs \<Rightarrow> from_utf8_lossy bs))"

definition write_text :: "world \<Rightarrow> shell \<Rightarrow> str \<Rightarrow> str \<Rightarrow> bool \<times> shell" where
  "write_text w s path tx = (case resolve_parent s path of
      None \<Rightarrow> (False, s)
    | Some (parent, name) \<Rightarrow>
        (case child (sh_vfs s) parent name of
           Some i \<Rightarrow> (let (ok, v) = write_file (w_now w) (sh_vfs s) i tx False in (ok, s\<lparr>sh_vfs := v\<rparr>))
         | None \<Rightarrow>
             if is_full (sh_vfs s) parent then (False, s)
             else (True, s\<lparr>sh_vfs := snd (add_file (w_now w) (sh_vfs s) parent name tx o644 (sh_uid s) (sh_gid s))\<rparr>)))"

text \<open>\<open>str::lines\<close>: a line ends at a newline, with a carriage return before it dropped.\<close>

definition strip_cr :: "str \<Rightarrow> str" where
  "strip_cr l = (if l \<noteq> [] \<and> last l = CHR 0x0D then butlast l else l)"

definition lines :: "str \<Rightarrow> str list" where
  "lines s = (let ps = split_on (CHR 0x0A) s
              in map strip_cr (butlast ps) @ (if last ps = [] then [] else [last ps]))"

definition set_shadow_entry :: "world \<Rightarrow> shell \<Rightarrow> str \<Rightarrow> shell" where
  "set_shadow_entry w s user =
     (let shadow = read_text w s ''/etc/shadow'';
          updated = join [CHR 0x0A] (map (\<lambda>l.
            if starts_with l (user @ '':'') then user @ '':$6$mimic$changed:19999:0:99999:7:::'' else l) (lines shadow))
      in snd (write_text w s ''/etc/shadow'' (updated @ [CHR 0x0A])))"

definition mismatch_message :: str where
  "mismatch_message = ''Sorry, passwords do not match.'' @ [CHR 0x0A]
     @ ''passwd: Authentication token manipulation error'' @ [CHR 0x0A]
     @ ''passwd: password unchanged'' @ [CHR 0x0A]"

definition heredoc_line :: "heredoc \<Rightarrow> str \<Rightarrow> str" where
  "heredoc_line doc input = (if h_strip_tabs doc then dropWhile (\<lambda>b. b = CHR 0x09) input else input)"

definition resume :: "world \<Rightarrow> dispatcher \<Rightarrow> shell \<Rightarrow> str \<Rightarrow> (line_output \<times> shell) outcome" where
  "resume w d s0 input =
     (let s = s0\<lparr>sh_pending := None\<rparr> in
      case sh_pending s0 of
        None \<Rightarrow> Done (output_default, s)
      | Some (SuPassword target) \<Rightarrow>
          Done (output_default, switch_user w (s\<lparr>sh_captures := sh_captures s @ [SuAuth target input]\<rparr>) target)
      | Some (NewPassword target None) \<Rightarrow>
          Done (output_written ''Retype new password: '' [] 0,
                s\<lparr>sh_pending := Some (NewPassword target (Some input))\<rparr>)
      | Some (NewPassword target (Some first)) \<Rightarrow>
          if first \<noteq> input then Done (output_written [] mismatch_message 1, s)
          else Done (output_written (''passwd: password updated successfully'' @ [CHR 0x0A]) [] 0,
                     set_shadow_entry w (s\<lparr>sh_captures := sh_captures s @ [PasswordChange target first]\<rparr>) target)
      | Some (HeredocPending command raw doc body) \<Rightarrow>
          (let line = heredoc_line doc input in
           if line = h_delimiter doc then run_heredoc w d s command raw doc body
           else Done (output_default,
                  s\<lparr>sh_pending := Some (HeredocPending command raw doc
                    (truncate_stream (body @ line @ [CHR 0x0A]) MAX_COMMAND_OUTPUT_BYTES))\<rparr>)))"

definition eof_warning :: "heredoc \<Rightarrow> str" where
  "eof_warning doc = ''-bash: warning: here-document delimited by end-of-file (wanted `'' @ h_delimiter doc
     @ [CHR 0x27] @ '')'' @ [CHR 0x0A]"

text \<open>\<open>self.pending.take()\<close> empties the prompt whatever it was.\<close>

definition finish_heredoc_at_eof :: "world \<Rightarrow> dispatcher \<Rightarrow> shell \<Rightarrow> (line_output option \<times> shell) outcome" where
  "finish_heredoc_at_eof w d s0 =
     (let s = s0\<lparr>sh_pending := None\<rparr> in
      case sh_pending s0 of
        Some (HeredocPending command raw doc body) \<Rightarrow>
          obind (run_heredoc w d s command raw doc body) (\<lambda>(o1, s1).
            Done (Some (o1\<lparr>o_text := eof_warning doc @ o_text o1, o_stderr := eof_warning doc @ o_stderr o1\<rparr>), s1))
      | _ \<Rightarrow> Done (None, s))"

end
