(* ===== verification/Sftp.thy ===== *)
theory Sftp
  imports Sftp_Wire Shell
begin

text \<open>
  The SFTP server of \<open>src/network/sftp.rs\<close>: the session, one definition per request of
  \<open>handle_packet\<close>, and \<open>feed\<close>, which cuts the byte stream of the channel into packets. A handler
  gives the reply it appends to \<open>out\<close> and whatever it changes. \<open>usize\<close> is 64 bits wide. The SHA-256
  implementation is the record argument \<open>H\<close> of \<open>Scp\<close>, the clock is in \<open>world\<close>. \<open>rename\<close> runs the
  unbounded worklist of \<open>height_of\<close>, so its request, and with it the loop, is an option.
\<close>

definition MAX_SFTP_PACKET_LEN :: nat where "MAX_SFTP_PACKET_LEN = 256 * 1024"
definition MAX_SFTP_HANDLES :: nat where "MAX_SFTP_HANDLES = 64"
definition SFTP_SESSION_BUFFER_MULTIPLIER :: nat where "SFTP_SESSION_BUFFER_MULTIPLIER = 2"
definition MAX_SFTP_FEED_RESPONSE :: nat where "MAX_SFTP_FEED_RESPONSE = 1024 * 1024"
definition MAX_READ_CHUNK :: nat where "MAX_READ_CHUNK = 32 * 1024"
definition MAX_DIR_ENTRIES_PER_READ :: nat where "MAX_DIR_ENTRIES_PER_READ = 64"
definition USIZE_MAX :: nat where "USIZE_MAX = 2 ^ 64 - 1"

record sftp_upload =
  up_name :: str
  up_dest_path :: str
  up_mode :: u32
  up_data :: "byte list"
  up_size :: nat
  up_sha256 :: str
  up_truncated :: bool

record 'h write_handle =
  wh_dest_path :: str
  wh_name :: str
  wh_data :: "byte list"
  wh_size :: nat
  wh_hasher :: 'h
  wh_mode :: u32
  wh_truncated :: bool

datatype 'h sftp_handle =
    DirHandle "(str \<times> str \<times> metadata \<times> nat) list" nat
  | ReadFile "byte list" metadata
  | WriteFile "'h write_handle"

record 'h sftp_session =
  f_buf :: "byte list"
  f_handles :: "(byte list, 'h sftp_handle) btree"
  f_next_handle :: u32
  f_buffered_bytes :: nat

definition sftp_new :: "'h sftp_session" where
  "sftp_new = \<lparr>f_buf = [], f_handles = [], f_next_handle = 1, f_buffered_bytes = 0\<rparr>"

definition buffer_cap :: "nat \<Rightarrow> nat" where
  "buffer_cap max_upload = min (min (max_upload * SFTP_SESSION_BUFFER_MULTIPLIER) USIZE_MAX) USIZE_MAX"

definition can_buffer :: "'h sftp_session \<Rightarrow> nat \<Rightarrow> nat \<Rightarrow> bool" where
  "can_buffer f extra max_upload \<longleftrightarrow> min (f_buffered_bytes f + extra) USIZE_MAX \<le> buffer_cap max_upload"

definition alloc_handle :: "'h sftp_session \<Rightarrow> byte list \<times> 'h sftp_session" where
  "alloc_handle f = (put_u32 (f_next_handle f), f\<lparr>f_next_handle := f_next_handle f + 1\<rparr>)"

text \<open>Allocate a handle, store it and answer with its name.\<close>

definition open_handle :: "'h sftp_session \<Rightarrow> u32 \<Rightarrow> 'h sftp_handle \<Rightarrow> byte list \<times> 'h sftp_session" where
  "open_handle f rid h =
     (let (hb, f1) = alloc_handle f
      in (put_handle rid hb, f1\<lparr>f_handles := bt_insert hb h (f_handles f1)\<rparr>))"

section \<open>Requests\<close>

definition bad_message :: "u32 \<Rightarrow> byte list" where
  "bad_message rid = put_status rid SSH_FX_BAD_MESSAGE ''Malformed packet''"

definition no_such_file :: "u32 \<Rightarrow> byte list" where
  "no_such_file rid = put_status rid SSH_FX_NO_SUCH_FILE ''No such file or directory''"

definition invalid_handle :: "u32 \<Rightarrow> byte list" where
  "invalid_handle rid = put_status rid SSH_FX_FAILURE ''Invalid handle''"

definition failure :: "u32 \<Rightarrow> str \<Rightarrow> byte list" where
  "failure rid msg = put_status rid SSH_FX_FAILURE msg"

definition status_ok :: "u32 \<Rightarrow> byte list" where
  "status_ok rid = put_status rid SSH_FX_OK ''OK''"

definition end_of_file :: "u32 \<Rightarrow> byte list" where
  "end_of_file rid = put_status rid SSH_FX_EOF ''End of file''"

definition abs_of :: "shell \<Rightarrow> str \<Rightarrow> str" where
  "abs_of s path = normalize_path (path_of (sh_vfs s) (sh_cwd s)) path"

definition reply_attrs :: "world \<Rightarrow> shell \<Rightarrow> u32 \<Rightarrow> node_id option \<Rightarrow> byte list" where
  "reply_attrs w s rid found = (case found of
      Some i \<Rightarrow> put_attrs_pkt rid (n_meta (fnode (sh_vfs s) i)) (node_size (w_now w) (fnode (sh_vfs s) i))
    | None \<Rightarrow> no_such_file rid)"

text \<open>The entry itself, a symbolic link not followed: its parent resolved, then its name looked up.\<close>

definition lookup_entry :: "shell \<Rightarrow> str \<Rightarrow> node_id option" where
  "lookup_entry s apath = (case split_path apath of (parent_path, nm) \<Rightarrow>
     Option.bind (resolve (sh_vfs s) (sh_cwd s) parent_path) (\<lambda>p. child (sh_vfs s) p nm))"

definition do_realpath :: "shell \<Rightarrow> u32 \<Rightarrow> byte list \<Rightarrow> byte list" where
  "do_realpath s rid cur = (case get_str cur of
      None \<Rightarrow> bad_message rid
    | Some (path, _) \<Rightarrow> (let canonical = abs_of s path in put_name_pkt rid [(canonical, canonical, None)]))"

definition do_stat :: "world \<Rightarrow> shell \<Rightarrow> u32 \<Rightarrow> byte list \<Rightarrow> byte list" where
  "do_stat w s rid cur = (case get_str cur of
      None \<Rightarrow> bad_message rid
    | Some (path, _) \<Rightarrow> reply_attrs w s rid (resolve (sh_vfs s) (sh_cwd s) (abs_of s path)))"

definition do_lstat :: "world \<Rightarrow> shell \<Rightarrow> u32 \<Rightarrow> byte list \<Rightarrow> byte list" where
  "do_lstat w s rid cur = (case get_str cur of
      None \<Rightarrow> bad_message rid
    | Some (path, _) \<Rightarrow>
        (let apath = abs_of s path in
         reply_attrs w s rid (if apath = ''/'' then Some (fs_root (sh_vfs s)) else lookup_entry s apath)))"

definition dir_entry :: "world \<Rightarrow> vfs \<Rightarrow> str \<times> node_id \<Rightarrow> str \<times> str \<times> metadata \<times> nat" where
  "dir_entry w v e = (case e of (nm, i) \<Rightarrow>
     let n = fnode v i; sz = node_size (w_now w) n;
         target = (case n_kind n of Symlink t \<Rightarrow> Some t | _ \<Rightarrow> None)
     in (nm, format_dir_entry (w_now w) nm (n_meta n) sz target, n_meta n, sz))"

definition dir_entries :: "world \<Rightarrow> vfs \<Rightarrow> node_id \<Rightarrow> (str \<times> str \<times> metadata \<times> nat) list" where
  "dir_entries w v d =
     (let m = n_meta (fnode v d);
          p = (case n_parent (fnode v d) of Some p \<Rightarrow> p | None \<Rightarrow> d);
          pm = n_meta (fnode v p)
      in [(''.'', format_dir_entry (w_now w) ''.'' m 4096 None, m, 4096),
          (''..'', format_dir_entry (w_now w) ''..'' pm 4096 None, pm, 4096)]
         @ (case entries v d of Some es \<Rightarrow> map (dir_entry w v) es | None \<Rightarrow> []))"

definition do_opendir :: "world \<Rightarrow> 'h sftp_session \<Rightarrow> shell \<Rightarrow> u32 \<Rightarrow> byte list \<Rightarrow> byte list \<times> 'h sftp_session" where
  "do_opendir w f s rid cur = (case get_str cur of
      None \<Rightarrow> (bad_message rid, f)
    | Some (path, _) \<Rightarrow>
        (case resolve (sh_vfs s) (sh_cwd s) (abs_of s path) of
           None \<Rightarrow> (no_such_file rid, f)
         | Some d \<Rightarrow>
             if \<not> is_dir (n_meta (fnode (sh_vfs s) d)) then (failure rid ''Not a directory'', f)
             else if length (f_handles f) \<ge> MAX_SFTP_HANDLES then (failure rid ''Too many open handles'', f)
             else open_handle f rid (DirHandle (dir_entries w (sh_vfs s) d) 0)))"

definition do_readdir :: "'h sftp_session \<Rightarrow> u32 \<Rightarrow> byte list \<Rightarrow> byte list \<times> 'h sftp_session" where
  "do_readdir f rid cur = (case get_bytes cur of
      None \<Rightarrow> (bad_message rid, f)
    | Some (h, _) \<Rightarrow>
        (case bt_get (f_handles f) h of
           Some (DirHandle es offset) \<Rightarrow>
             if offset \<ge> length es then (end_of_file rid, f)
             else (let e = min (offset + MAX_DIR_ENTRIES_PER_READ) (length es) in
                   (put_name_pkt rid (map (\<lambda>(n, l, m, sz). (n, l, Some (m, sz))) (take (e - offset) (drop offset es))),
                    f\<lparr>f_handles := bt_insert h (DirHandle es e) (f_handles f)\<rparr>))
         | _ \<Rightarrow> (invalid_handle rid, f)))"

definition do_open :: "world \<Rightarrow> 'h hasher \<Rightarrow> nat \<Rightarrow> 'h sftp_session \<Rightarrow> shell \<Rightarrow> u32 \<Rightarrow> byte list \<Rightarrow> byte list \<times> 'h sftp_session" where
  "do_open w H max_upload f s rid cur = (case get_str cur of
      None \<Rightarrow> (bad_message rid, f)
    | Some (path, cur1) \<Rightarrow>
    (case get_u32 cur1 of
      None \<Rightarrow> (bad_message rid, f)
    | Some (pflags, cur2) \<Rightarrow>
        (let attrs = get_attrs cur2; apath = abs_of s path; nm = snd (split_path apath) in
         if nm = [] then (failure rid ''Invalid path'', f)
         else if length (f_handles f) \<ge> MAX_SFTP_HANDLES then (failure rid ''Too many open handles'', f)
         else if pflags AND SSH_FXF_WRITE \<noteq> 0 then
           (let mode = (case Option.bind attrs pa_permissions of Some p \<Rightarrow> p | None \<Rightarrow> o644) AND o7777 in
            open_handle f rid (WriteFile \<lparr>wh_dest_path = apath, wh_name = nm, wh_data = [], wh_size = 0,
              wh_hasher = h_new H, wh_mode = mode, wh_truncated = False\<rparr>))
         else if pflags AND SSH_FXF_READ \<noteq> 0 then
           (case resolve (sh_vfs s) (sh_cwd s) apath of
              None \<Rightarrow> (no_such_file rid, f)
            | Some i \<Rightarrow>
                (case file_bytes (w_now w) (fnode (sh_vfs s) i) of
                   None \<Rightarrow> (failure rid ''Not a regular file'', f)
                 | Some d \<Rightarrow>
                     if \<not> can_buffer f (length d) max_upload then (failure rid ''Too many open handles'', f)
                     else open_handle (f\<lparr>f_buffered_bytes := f_buffered_bytes f + length d\<rparr>) rid
                            (ReadFile d (n_meta (fnode (sh_vfs s) i)))))
         else (failure rid ''Invalid open flags'', f))))"

definition do_read :: "'h sftp_session \<Rightarrow> u32 \<Rightarrow> byte list \<Rightarrow> byte list" where
  "do_read f rid cur = (case get_bytes cur of
      None \<Rightarrow> bad_message rid
    | Some (h, cur1) \<Rightarrow>
    (case get_u64 cur1 of
      None \<Rightarrow> bad_message rid
    | Some (offset, cur2) \<Rightarrow>
    (case get_u32 cur2 of
      None \<Rightarrow> bad_message rid
    | Some (len, _) \<Rightarrow>
        (case bt_get (f_handles f) h of
           Some (ReadFile d _) \<Rightarrow>
             if offset > USIZE_MAX \<or> offset \<ge> length d then end_of_file rid
             else put_data rid (take (min (min (unat len) MAX_READ_CHUNK) (length d - offset)) (drop offset d))
         | _ \<Rightarrow> invalid_handle rid))))"

text \<open>\<open>Vec::resize\<close> with zeros, and \<open>copy_from_slice\<close> onto a range.\<close>

definition resize :: "byte list \<Rightarrow> nat \<Rightarrow> byte list" where
  "resize d n = take n d @ replicate (n - length d) (CHR 0x00)"

definition overlay :: "byte list \<Rightarrow> nat \<Rightarrow> byte list \<Rightarrow> byte list" where
  "overlay d off chunk = take off d @ chunk @ drop (off + length chunk) d"

text \<open>The closure \<open>grow_to\<close>: the grown data, or \<open>None\<close> when the budget does not allow it.\<close>

definition grow_to :: "nat \<Rightarrow> byte list \<Rightarrow> nat \<Rightarrow> byte list option" where
  "grow_to budget_left d e =
     (if e \<le> length d then Some d
      else if e - length d > budget_left then None
      else Some (resize d e))"

definition store_chunk :: "nat \<Rightarrow> nat \<Rightarrow> byte list \<Rightarrow> nat \<Rightarrow> byte list \<Rightarrow> byte list \<times> bool" where
  "store_chunk max_upload budget_left d offset chunk =
     (let raw_end = min (offset + length chunk) USIZE_MAX in
      if raw_end \<le> max_upload \<and> raw_end \<le> USIZE_MAX then
        (case grow_to budget_left d raw_end of
           Some d' \<Rightarrow> (overlay d' offset chunk, False)
         | None \<Rightarrow> (d, True))
      else if offset < max_upload \<and> offset < USIZE_MAX then
        (let allowed = min (max_upload - offset) (USIZE_MAX - offset);
             n = min allowed (length chunk) in
         case grow_to budget_left d (offset + n) of
           Some d' \<Rightarrow> (overlay d' offset (take n chunk), True)
         | None \<Rightarrow> (d, True))
      else (d, True))"

definition do_write :: "'h hasher \<Rightarrow> nat \<Rightarrow> 'h sftp_session \<Rightarrow> u32 \<Rightarrow> byte list \<Rightarrow> byte list \<times> 'h sftp_session" where
  "do_write H max_upload f rid cur = (case get_bytes cur of
      None \<Rightarrow> (bad_message rid, f)
    | Some (h, cur1) \<Rightarrow>
    (case get_u64 cur1 of
      None \<Rightarrow> (bad_message rid, f)
    | Some (offset, cur2) \<Rightarrow>
    (case get_bytes cur2 of
      None \<Rightarrow> (bad_message rid, f)
    | Some (chunk, _) \<Rightarrow>
        (case bt_get (f_handles f) h of
           Some (WriteFile x) \<Rightarrow>
             (let budget_left = buffer_cap max_upload - f_buffered_bytes f;
                  (d, cut) = store_chunk max_upload budget_left (wh_data x) offset chunk
              in (status_ok rid,
                  f\<lparr>f_handles := bt_insert h (WriteFile (x\<lparr>wh_hasher := h_update H (wh_hasher x) chunk,
                        wh_size := wh_size x + length chunk, wh_data := d,
                        wh_truncated := wh_truncated x \<or> cut\<rparr>)) (f_handles f),
                    f_buffered_bytes := f_buffered_bytes f + (length d - length (wh_data x))\<rparr>))
         | _ \<Rightarrow> (invalid_handle rid, f)))))"

definition handle_bytes :: "'h sftp_handle \<Rightarrow> nat" where
  "handle_bytes h = (case h of WriteFile x \<Rightarrow> length (wh_data x) | ReadFile d _ \<Rightarrow> length d | DirHandle _ _ \<Rightarrow> 0)"

text \<open>An upload that ended: mirrored into the filesystem where its directory can be made, and reported.\<close>

definition finish_upload :: "world \<Rightarrow> 'h hasher \<Rightarrow> shell \<Rightarrow> 'h write_handle \<Rightarrow> shell \<times> sftp_upload" where
  "finish_upload w H s x =
     (let dir_path = fst (split_path (wh_dest_path x));
          s' = (case mkdir_p (w_now w) (sh_vfs s) dir_path o755 (sh_uid s) (sh_gid s) of
                  (Some p, v) \<Rightarrow> s\<lparr>sh_vfs := snd (add_file (w_now w) v p (wh_name x) (wh_data x) (wh_mode x) (sh_uid s) (sh_gid s))\<rparr>
                | (None, v) \<Rightarrow> s\<lparr>sh_vfs := v\<rparr>)
      in (s', \<lparr>up_name = wh_name x, up_dest_path = wh_dest_path x, up_mode = wh_mode x, up_data = wh_data x,
               up_size = wh_size x, up_sha256 = hex (h_finalize H (wh_hasher x)), up_truncated = wh_truncated x\<rparr>))"

definition do_close ::
  "world \<Rightarrow> 'h hasher \<Rightarrow> 'h sftp_session \<Rightarrow> shell \<Rightarrow> u32 \<Rightarrow> byte list \<Rightarrow> byte list \<times> 'h sftp_session \<times> shell \<times> sftp_upload list" where
  "do_close w H f s rid cur = (case get_bytes cur of
      None \<Rightarrow> (bad_message rid, f, s, [])
    | Some (h, _) \<Rightarrow>
        (case bt_get (f_handles f) h of
           None \<Rightarrow> (invalid_handle rid, f, s, [])
         | Some x \<Rightarrow>
             (let f1 = f\<lparr>f_handles := bt_remove h (f_handles f), f_buffered_bytes := f_buffered_bytes f - handle_bytes x\<rparr> in
              case x of
                WriteFile wr \<Rightarrow> (let (s', u) = finish_upload w H s wr in (status_ok rid, f1, s', [u]))
              | _ \<Rightarrow> (status_ok rid, f1, s, []))))"

definition do_fstat :: "world \<Rightarrow> 'h sftp_session \<Rightarrow> shell \<Rightarrow> u32 \<Rightarrow> byte list \<Rightarrow> byte list" where
  "do_fstat w f s rid cur = (case get_bytes cur of
      None \<Rightarrow> bad_message rid
    | Some (h, _) \<Rightarrow>
        (case bt_get (f_handles f) h of
           Some (ReadFile d m) \<Rightarrow> put_attrs_pkt rid m (length d)
         | Some (WriteFile x) \<Rightarrow> put_attrs_pkt rid (metadata_new (w_now w) S_IFREG (wh_mode x) (sh_uid s) (sh_gid s)) (wh_size x)
         | Some (DirHandle _ _) \<Rightarrow> put_attrs_pkt rid (metadata_new (w_now w) S_IFDIR o755 (sh_uid s) (sh_gid s)) 4096
         | None \<Rightarrow> invalid_handle rid))"

definition apply_attrs :: "vfs \<Rightarrow> node_id \<Rightarrow> parsed_attrs \<Rightarrow> vfs" where
  "apply_attrs v i a =
     (let v1 = (case pa_permissions a of Some p \<Rightarrow> chmod v i p | None \<Rightarrow> v);
          v2 = (case pa_uid_gid a of Some (u, g) \<Rightarrow> chown v1 i u g | None \<Rightarrow> v1)
      in case pa_acmodtime a of Some (_, t) \<Rightarrow> set_mtime v2 i (uint t) | None \<Rightarrow> v2)"

definition do_setstat :: "shell \<Rightarrow> u32 \<Rightarrow> byte list \<Rightarrow> byte list \<times> shell" where
  "do_setstat s rid cur = (case get_str cur of
      None \<Rightarrow> (bad_message rid, s)
    | Some (path, cur1) \<Rightarrow>
        (case resolve (sh_vfs s) (sh_cwd s) (abs_of s path) of
           None \<Rightarrow> (no_such_file rid, s)
         | Some i \<Rightarrow>
             (status_ok rid, case get_attrs cur1 of Some a \<Rightarrow> s\<lparr>sh_vfs := apply_attrs (sh_vfs s) i a\<rparr> | None \<Rightarrow> s)))"

definition do_fsetstat :: "'h sftp_session \<Rightarrow> u32 \<Rightarrow> byte list \<Rightarrow> byte list \<times> 'h sftp_session" where
  "do_fsetstat f rid cur = (case get_bytes cur of
      None \<Rightarrow> (bad_message rid, f)
    | Some (h, cur1) \<Rightarrow>
        (case bt_get (f_handles f) h of
           Some (WriteFile x) \<Rightarrow>
             (status_ok rid,
              case Option.bind (get_attrs cur1) pa_permissions of
                Some p \<Rightarrow> f\<lparr>f_handles := bt_insert h (WriteFile (x\<lparr>wh_mode := p AND o7777\<rparr>)) (f_handles f)\<rparr>
              | None \<Rightarrow> f)
         | Some _ \<Rightarrow> (status_ok rid, f)
         | None \<Rightarrow> (invalid_handle rid, f)))"

text \<open>The requests that name an entry of a directory share their first steps.\<close>

definition with_parent :: "shell \<Rightarrow> u32 \<Rightarrow> str \<Rightarrow> (node_id \<Rightarrow> str \<Rightarrow> byte list \<times> shell) \<Rightarrow> byte list \<times> shell" where
  "with_parent s rid path k =
     (case split_path (abs_of s path) of (parent_path, nm) \<Rightarrow>
        if nm = [] then (failure rid ''Invalid path'', s)
        else case resolve (sh_vfs s) (sh_cwd s) parent_path of
               None \<Rightarrow> (no_such_file rid, s)
             | Some p \<Rightarrow> k p nm)"

definition do_remove :: "shell \<Rightarrow> u32 \<Rightarrow> byte list \<Rightarrow> byte list \<times> shell" where
  "do_remove s rid cur = (case get_str cur of
      None \<Rightarrow> (bad_message rid, s)
    | Some (path, _) \<Rightarrow> with_parent s rid path (\<lambda>p nm.
        case unlink (sh_vfs s) p nm of
          (Some _, v) \<Rightarrow> (status_ok rid, s\<lparr>sh_vfs := v\<rparr>)
        | (None, v) \<Rightarrow> (no_such_file rid, s\<lparr>sh_vfs := v\<rparr>)))"

definition do_mkdir :: "world \<Rightarrow> shell \<Rightarrow> u32 \<Rightarrow> byte list \<Rightarrow> byte list \<times> shell" where
  "do_mkdir w s rid cur = (case get_str cur of
      None \<Rightarrow> (bad_message rid, s)
    | Some (path, cur1) \<Rightarrow> with_parent s rid path (\<lambda>p nm.
        let perms = (case Option.bind (get_attrs cur1) pa_permissions of Some q \<Rightarrow> q | None \<Rightarrow> o755) AND o7777
        in (status_ok rid, s\<lparr>sh_vfs := snd (mkdir (w_now w) (sh_vfs s) p nm perms (sh_uid s) (sh_gid s))\<rparr>)))"

definition do_rmdir :: "shell \<Rightarrow> u32 \<Rightarrow> byte list \<Rightarrow> byte list \<times> shell" where
  "do_rmdir s rid cur = (case get_str cur of
      None \<Rightarrow> (bad_message rid, s)
    | Some (path, _) \<Rightarrow> with_parent s rid path (\<lambda>p nm.
        case child (sh_vfs s) p nm of
          None \<Rightarrow> (no_such_file rid, s)
        | Some c \<Rightarrow>
            (case entries (sh_vfs s) c of
               None \<Rightarrow> (failure rid ''Not a directory'', s)
             | Some es \<Rightarrow>
                 if es = [] then (status_ok rid, s\<lparr>sh_vfs := snd (unlink (sh_vfs s) p nm)\<rparr>)
                 else (failure rid ''Directory not empty'', s))))"

definition do_rename :: "shell \<Rightarrow> u32 \<Rightarrow> byte list \<Rightarrow> (byte list \<times> shell) option" where
  "do_rename s rid cur = (case get_str cur of
      None \<Rightarrow> Some (bad_message rid, s)
    | Some (oldpath, cur1) \<Rightarrow>
    (case get_str cur1 of
      None \<Rightarrow> Some (bad_message rid, s)
    | Some (newpath, _) \<Rightarrow>
        (case split_path (abs_of s newpath) of (new_parent_path, new_name) \<Rightarrow>
           if new_name = [] then Some (failure rid ''Invalid path'', s)
           else
             (case (resolve (sh_vfs s) (sh_cwd s) (abs_of s oldpath), resolve (sh_vfs s) (sh_cwd s) new_parent_path) of
                (Some i, Some p) \<Rightarrow>
                  Option.bind (rename (sh_vfs s) i p new_name) (\<lambda>(ok, v).
                    Some (if ok then status_ok rid else failure rid ''Rename failed'', s\<lparr>sh_vfs := v\<rparr>))
              | _ \<Rightarrow> Some (no_such_file rid, s)))))"

definition do_readlink :: "shell \<Rightarrow> u32 \<Rightarrow> byte list \<Rightarrow> byte list" where
  "do_readlink s rid cur = (case get_str cur of
      None \<Rightarrow> bad_message rid
    | Some (path, _) \<Rightarrow>
        (let apath = abs_of s path in
         if snd (split_path apath) = [] then failure rid ''Invalid path''
         else case lookup_entry s apath of
                None \<Rightarrow> no_such_file rid
              | Some i \<Rightarrow>
                  (case n_kind (fnode (sh_vfs s) i) of
                     Symlink target \<Rightarrow> put_name_pkt rid [(target, target, None)]
                   | _ \<Rightarrow> failure rid ''Not a symlink'')))"

definition do_symlink :: "world \<Rightarrow> shell \<Rightarrow> u32 \<Rightarrow> byte list \<Rightarrow> byte list \<times> shell" where
  "do_symlink w s rid cur = (case get_str cur of
      None \<Rightarrow> (bad_message rid, s)
    | Some (linkpath, cur1) \<Rightarrow>
    (case get_str cur1 of
      None \<Rightarrow> (bad_message rid, s)
    | Some (targetpath, _) \<Rightarrow> with_parent s rid linkpath (\<lambda>p nm.
        (status_ok rid, s\<lparr>sh_vfs := snd (add_symlink (w_now w) (sh_vfs s) p nm (sanitise_path targetpath))\<rparr>))))"

section \<open>Packets\<close>

type_synonym 'h sftp_step = "byte list \<times> 'h sftp_session \<times> shell \<times> sftp_upload list"

definition handle_request ::
  "world \<Rightarrow> 'h hasher \<Rightarrow> nat \<Rightarrow> 'h sftp_session \<Rightarrow> shell \<Rightarrow> nat \<Rightarrow> u32 \<Rightarrow> byte list \<Rightarrow> 'h sftp_step option" where
  "handle_request w H max_upload f s ty rid cur =
     (let quiet = (\<lambda>r. Some (r, f, s, []));
          in_sftp = (\<lambda>(r, f'). Some (r, f', s, []));
          in_shell = (\<lambda>(r, s'). Some (r, f, s', [])) in
      if ty = SSH_FXP_REALPATH then quiet (do_realpath s rid cur)
      else if ty = SSH_FXP_STAT then quiet (do_stat w s rid cur)
      else if ty = SSH_FXP_LSTAT then quiet (do_lstat w s rid cur)
      else if ty = SSH_FXP_OPENDIR then in_sftp (do_opendir w f s rid cur)
      else if ty = SSH_FXP_READDIR then in_sftp (do_readdir f rid cur)
      else if ty = SSH_FXP_OPEN then in_sftp (do_open w H max_upload f s rid cur)
      else if ty = SSH_FXP_READ then quiet (do_read f rid cur)
      else if ty = SSH_FXP_WRITE then in_sftp (do_write H max_upload f rid cur)
      else if ty = SSH_FXP_CLOSE then Some (do_close w H f s rid cur)
      else if ty = SSH_FXP_FSTAT then quiet (do_fstat w f s rid cur)
      else if ty = SSH_FXP_SETSTAT then in_shell (do_setstat s rid cur)
      else if ty = SSH_FXP_FSETSTAT then in_sftp (do_fsetstat f rid cur)
      else if ty = SSH_FXP_REMOVE then in_shell (do_remove s rid cur)
      else if ty = SSH_FXP_MKDIR then in_shell (do_mkdir w s rid cur)
      else if ty = SSH_FXP_RMDIR then in_shell (do_rmdir s rid cur)
      else if ty = SSH_FXP_RENAME then Option.bind (do_rename s rid cur) in_shell
      else if ty = SSH_FXP_READLINK then quiet (do_readlink s rid cur)
      else if ty = SSH_FXP_SYMLINK then in_shell (do_symlink w s rid cur)
      else quiet (put_status rid SSH_FX_OP_UNSUPPORTED ''Operation unsupported''))"

definition handle_packet ::
  "world \<Rightarrow> 'h hasher \<Rightarrow> nat \<Rightarrow> 'h sftp_session \<Rightarrow> shell \<Rightarrow> byte list \<Rightarrow> 'h sftp_step option" where
  "handle_packet w H max_upload f s pkt = (case pkt of
      [] \<Rightarrow> Some ([], f, s, [])
    | b # cur \<Rightarrow>
        if u8 b = SSH_FXP_INIT then Some (send_packet SSH_FXP_VERSION (put_u32 3), f, s, [])
        else case get_u32 cur of
               None \<Rightarrow> Some ([], f, s, [])
             | Some (rid, cur1) \<Rightarrow> handle_request w H max_upload f s (u8 b) rid cur1)"

text \<open>The loop of \<open>feed\<close>; \<open>buf\<close> is what is left of \<open>self.buf\<close> after the bytes already read.\<close>

function feed_requests ::
  "world \<Rightarrow> 'h hasher \<Rightarrow> nat \<Rightarrow> 'h sftp_session \<Rightarrow> shell \<Rightarrow> byte list \<Rightarrow> byte list \<Rightarrow> sftp_upload list \<Rightarrow> 'h sftp_step option" where
  "feed_requests w H max_upload f s buf out completed =
     (if length buf < 4 then Some (out, f\<lparr>f_buf := buf\<rparr>, s, completed)
      else
        (let n = be_value (take 4 buf) in
         if n > MAX_SFTP_PACKET_LEN then Some (out, f\<lparr>f_buf := []\<rparr>, s, completed)
         else if length buf < 4 + n then Some (out, f\<lparr>f_buf := buf\<rparr>, s, completed)
         else
           (case handle_packet w H max_upload f s (take n (drop 4 buf)) of
              None \<Rightarrow> None
            | Some (reply, f1, s1, ups) \<Rightarrow>
                (let out1 = out @ reply; rest = drop (4 + n) buf in
                 if length out1 \<ge> MAX_SFTP_FEED_RESPONSE then Some (out1, f1\<lparr>f_buf := rest\<rparr>, s1, completed @ ups)
                 else feed_requests w H max_upload f1 s1 rest out1 (completed @ ups)))))"
  by pat_completeness auto

termination
  by (relation "measure (\<lambda>(w, H, m, f, s, buf, out, c). length buf)") auto

declare feed_requests.simps [simp del]

definition sftp_feed :: "world \<Rightarrow> 'h hasher \<Rightarrow> nat \<Rightarrow> 'h sftp_session \<Rightarrow> shell \<Rightarrow> byte list \<Rightarrow> 'h sftp_step option" where
  "sftp_feed w H max_upload f s dat = feed_requests w H max_upload f s (f_buf f @ dat) [] []"

text \<open>\<open>into_pending_uploads\<close>: the write handles still open when the channel closes, in handle order.\<close>

fun pending_uploads :: "world \<Rightarrow> 'h hasher \<Rightarrow> shell \<Rightarrow> (byte list \<times> 'h sftp_handle) list \<Rightarrow> shell \<times> sftp_upload list" where
  "pending_uploads w H s [] = (s, [])"
| "pending_uploads w H s ((_, h) # hs) = (case h of
      WriteFile x \<Rightarrow>
        if wh_size x > 0 \<or> wh_data x \<noteq> [] then
          (let (s1, u) = finish_upload w H s x; (s2, us) = pending_uploads w H s1 hs in (s2, u # us))
        else pending_uploads w H s hs
    | _ \<Rightarrow> pending_uploads w H s hs)"

definition into_pending_uploads :: "world \<Rightarrow> 'h hasher \<Rightarrow> 'h sftp_session \<Rightarrow> shell \<Rightarrow> shell \<times> sftp_upload list" where
  "into_pending_uploads w H f s = pending_uploads w H s (f_handles f)"

end
