(* ===== verification/Quarantine.thy ===== *)
theory Quarantine
  imports Scp
begin

text \<open>
  The quarantine store of captured files (\<open>src/network/ssh.rs\<close>): a directory of the real filesystem whose
  files are named by the SHA-256 of their contents. The directory is a map from names to contents; what
  the operating system answers to the calls of one write is the record \<open>disk\<close>, so that every write can
  fail at every point, also part of the way through.
\<close>

type_synonym store = "(str, byte list) btree"

text \<open>
  The errors of the calls, with their messages: making the directory, creating the scratch file (an
  existing one apart), writing and syncing it (how much was written first), renaming it; and whether
  removing it works.
\<close>

record disk =
  dk_mkdir :: "str option"
  dk_create :: "str option"
  dk_write :: "(nat \<times> str) option"
  dk_rename :: "str option"
  dk_remove :: bool

definition staging_name :: "str \<Rightarrow> str" where
  "staging_name sha = sha @ ''.partial''"

text \<open>\<open>Path::join\<close> of a relative name.\<close>

definition join_path :: "str \<Rightarrow> str \<Rightarrow> str" where
  "join_path dir name = (if dir = [] \<or> last dir = CHR ''/'' then dir @ name else dir @ ''/'' @ name)"

definition drop_staging :: "disk \<Rightarrow> str \<Rightarrow> byte list \<Rightarrow> store \<Rightarrow> store" where
  "drop_staging dk sha bytes q = (if dk_remove dk then q else bt_insert (staging_name sha) bytes q)"

definition write_quarantine :: "disk \<Rightarrow> str \<Rightarrow> str \<Rightarrow> byte list \<Rightarrow> store \<Rightarrow> (str + str \<times> nat) \<times> store" where
  "write_quarantine dk dir sha dat q = (case dk_mkdir dk of
      Some e \<Rightarrow> (Inl e, q)
    | None \<Rightarrow>
        if bt_get q sha \<noteq> None then (Inr (join_path dir sha, 0), q)
        else case dk_create dk of
          Some e \<Rightarrow> (Inl e, q)
        | None \<Rightarrow>
            if bt_get q (staging_name sha) \<noteq> None then (Inr (join_path dir sha, 0), q)
            else case dk_write dk of
              Some (n, e) \<Rightarrow> (Inl e, drop_staging dk sha (take n dat) q)
            | None \<Rightarrow>
                (case dk_rename dk of
                   Some e \<Rightarrow> (Inl e, drop_staging dk sha dat q)
                 | None \<Rightarrow> (Inr (join_path dir sha, length dat), bt_insert sha dat q)))"

definition measure_dir_size :: "store \<Rightarrow> nat" where
  "measure_dir_size q = sum_list (map (\<lambda>(n, c). length c) q)"

text \<open>The digest the store names a payload by.\<close>

definition payload_sha256 :: "'h hasher \<Rightarrow> byte list \<Rightarrow> str" where
  "payload_sha256 H dat = hex (h_finalize H (h_update H (h_new H) dat))"

section \<open>The invariant of the store\<close>

definition is_staging :: "str \<Rightarrow> bool" where
  "is_staging n \<longleftrightarrow> (\<exists>p. n = staging_name p)"

definition addressed :: "'h hasher \<Rightarrow> store \<Rightarrow> bool" where
  "addressed H q \<longleftrightarrow> bt_ok q \<and> (\<forall>n c. bt_get q n = Some c \<longrightarrow> is_staging n \<or> n = payload_sha256 H c)"

lemma hex_no_dot: "CHR ''.'' \<notin> set (hex bs)"
proof -
  have dot: "CHR ''.'' \<noteq> hex_digit n" if "n < 16" for n
  proof -
    have "of_char (hex_digit n) \<noteq> (46 :: nat)" using that by (auto simp: hex_digit_def)
    moreover have "of_char CHR ''.'' = (46 :: nat)" by simp
    ultimately show ?thesis by metis
  qed
  have "u8 b div 16 < 16" for b by (simp add: less_mult_imp_div_less)
  then show ?thesis unfolding hex_def by (simp add: dot)
qed

lemma sha_not_staging: "\<not> is_staging (payload_sha256 H c)"
proof
  assume "is_staging (payload_sha256 H c)"
  then have "CHR ''.'' \<in> set (payload_sha256 H c)" by (auto simp: is_staging_def staging_name_def)
  then show False using hex_no_dot unfolding payload_sha256_def by blast
qed

lemma staging_name_staging [simp]: "is_staging (staging_name sha)"
  by (auto simp: is_staging_def)

lemma addressed_insert:
  assumes "addressed H q" "is_staging n \<or> n = payload_sha256 H c"
  shows "addressed H (bt_insert n c q)"
  using assms by (auto simp: addressed_def bt_ok_insert bt_get_insert split: if_splits)

lemma write_quarantine_cases:
  assumes "write_quarantine dk dir sha dat q = (r, q')"
  obtains (kept) "q' = q" "\<And>p n. r = Inr (p, n) \<Longrightarrow> p = join_path dir sha \<and> n = 0 \<and> (bt_get q sha \<noteq> None \<or> bt_get q (staging_name sha) \<noteq> None)"
  | (partial) n e where "q' = bt_insert (staging_name sha) (take n dat) q" "r = Inl e" "bt_get q (staging_name sha) = None"
      "\<not> dk_remove dk"
  | (stored) "q' = bt_insert sha dat q" "r = Inr (join_path dir sha, length dat)" "bt_get q sha = None"
  using assms unfolding write_quarantine_def drop_staging_def
  by (auto split: option.splits if_splits prod.splits)
     (metis take_all_iff order_refl)+

lemma addressed_write:
  assumes "addressed H q" "write_quarantine dk dir (payload_sha256 H dat) dat q = (r, q')"
  shows "addressed H q'"
  using assms(2) by (cases rule: write_quarantine_cases) (use assms(1) in \<open>auto intro: addressed_insert\<close>)

lemma measure_insert:
  "bt_ok q \<Longrightarrow> bt_get q n = None \<Longrightarrow> measure_dir_size (bt_insert n c q) = measure_dir_size q + length c"
  by (induction n c q rule: bt_insert.induct) (auto simp: measure_dir_size_def bt_get_def bt_ok_def split: if_splits)

lemma write_measured:
  assumes "bt_ok q" "write_quarantine dk dir sha dat q = (r, q')" "dk_remove dk"
  shows "measure_dir_size q' = measure_dir_size q + (case r of Inl _ \<Rightarrow> 0 | Inr (p, n) \<Rightarrow> n)"
  using assms(2)
proof (cases rule: write_quarantine_cases)
  case kept
  then show ?thesis by (cases r) auto
qed (use assms(1,3) in \<open>auto simp: measure_insert\<close>)

text \<open>
  The stores a server can leave behind: writes with any answers of the disk, and, at any moment, a process
  that stops in the middle of one.
\<close>

inductive store_reach :: "'h hasher \<Rightarrow> store \<Rightarrow> bool" for H where
  fresh: "store_reach H []"
| written_to: "store_reach H q \<Longrightarrow> write_quarantine dk dir (payload_sha256 H dat) dat q = (r, q') \<Longrightarrow> store_reach H q'"
| stopped: "store_reach H q \<Longrightarrow> store_reach H (bt_insert (staging_name (payload_sha256 H dat)) (take n dat) q)"

lemma store_reach_addressed: "store_reach H q \<Longrightarrow> addressed H q"
proof (induction rule: store_reach.induct)
  case fresh
  show ?case by (simp add: addressed_def bt_ok_def bt_get_def)
qed (auto intro: addressed_write addressed_insert)


text \<open>A hash for examples: the bytes themselves.\<close>

definition echo_hasher :: "byte list hasher" where
  "echo_hasher = \<lparr>h_new = [], h_update = (\<lambda>h d. h @ d), h_finalize = id\<rparr>"

definition sound_disk :: disk where
  "sound_disk = \<lparr>dk_mkdir = None, dk_create = None, dk_write = None, dk_rename = None, dk_remove = True\<rparr>"


text \<open>
  The scratch name is where the protection ends: once a process has stopped in the middle of a write, the
  scratch file it left makes every later write of the same payload report success, with a path where
  there is no file.
\<close>

lemma stale_staging_hides_payload:
  assumes "store_reach H q" "bt_get q (payload_sha256 H dat) = None" "dk_mkdir dk = None" "dk_create dk = None"
    and "q1 = bt_insert (staging_name (payload_sha256 H dat)) (take n dat) q"
  shows "store_reach H q1 \<and> write_quarantine dk dir (payload_sha256 H dat) dat q1 = (Inr (join_path dir (payload_sha256 H dat), 0), q1)
    \<and> bt_get q1 (payload_sha256 H dat) = None"
proof -
  have "bt_ok q" using store_reach_addressed [OF assms(1)] by (simp add: addressed_def)
  moreover have "payload_sha256 H dat \<noteq> staging_name (payload_sha256 H dat)" by (simp add: staging_name_def)
  ultimately show ?thesis
    using assms store_reach.stopped [OF assms(1)] by (auto simp: write_quarantine_def bt_get_insert)
qed

end
