(* ===== verification/Events.thy ===== *)
theory Events
  imports Utf8_Chars
begin

text \<open>
  The events of the forensic log (\<open>src/logging/event.rs\<close>): each function builds one event with the common
  envelope and its own fields, every text that comes from outside through \<open>sanitise_field\<close>. Writing the
  event as a JSON line is the logging library's. An address is its texts, as the standard library
  displays them, and its port.
\<close>

record socket_addr =
  sa_text :: str
  sa_ip :: str
  sa_port :: nat

datatype log_field = FText str | FNum int | FBool bool

datatype log_level = Info | Warn

record log_event =
  ev_level :: log_level
  ev_name :: str
  ev_fields :: "(str \<times> log_field) list"

section \<open>The process-wide names\<close>

record log_site =
  site_sensor :: "str option"
  site_boot :: "str option"

text \<open>\<open>init\<close> panics when it is called twice (\<open>None\<close>); the random boot number is an argument.\<close>

definition event_init :: "str \<Rightarrow> 64 word \<Rightarrow> log_site \<Rightarrow> log_site option" where
  "event_init name r lg =
     (if site_sensor lg \<noteq> None \<or> site_boot lg \<noteq> None then None
      else Some (lg\<lparr>site_sensor := Some name, site_boot := Some (pad_left CHR ''0'' 16 (show_hex (unat r)))\<rparr>))"

definition sensor_name :: "log_site \<Rightarrow> str" where
  "sensor_name lg = (case site_sensor lg of None \<Rightarrow> ''mimic'' | Some s \<Rightarrow> s)"

definition boot_id :: "log_site \<Rightarrow> str" where
  "boot_id lg = (case site_boot lg of None \<Rightarrow> ''0000000000000000'' | Some s \<Rightarrow> s)"

definition peer_parts :: "socket_addr \<Rightarrow> str \<times> nat" where
  "peer_parts peer = (sa_ip peer, sa_port peer)"

section \<open>Sanitising\<close>

text \<open>\<open>c as u32\<close>\<close>

definition code_point :: "rchar \<Rightarrow> nat" where
  "code_point c = (case c of
      [a] \<Rightarrow> u8 a
    | [a, b] \<Rightarrow> (u8 a mod 32) * 64 + u8 b mod 64
    | [a, b, d] \<Rightarrow> ((u8 a mod 16) * 64 + u8 b mod 64) * 64 + u8 d mod 64
    | [a, b, d, e] \<Rightarrow> (((u8 a mod 8) * 64 + u8 b mod 64) * 64 + u8 d mod 64) * 64 + u8 e mod 64
    | _ \<Rightarrow> 0)"

definition must_escape :: "rchar \<Rightarrow> bool" where
  "must_escape c \<longleftrightarrow> is_control c \<and> c \<noteq> [CHR 0x09] \<and> c \<noteq> [CHR 0x0A] \<and> c \<noteq> [CHR 0x0D] \<or> c = [CHR 0x7F]"

definition escape_char :: "rchar \<Rightarrow> str" where
  "escape_char c =
     (if must_escape c then
        (let u = code_point c in
         if u \<le> 0xFF then [CHR 0x5C, CHR ''x''] @ pad_left CHR ''0'' 2 (show_hex u)
         else [CHR 0x5C, CHR ''u'', CHR 0x7B] @ show_hex u @ [CHR 0x7D])
      else c)"

definition sanitise_field :: "str \<Rightarrow> str" where
  "sanitise_field s = (if list_ex must_escape (chars s) then concat (map escape_char (chars s)) else s)"

section \<open>The envelope\<close>

definition EVENT_KIND :: str where "EVENT_KIND = ''event''"
definition EVENT_CATEGORY :: str where "EVENT_CATEGORY = ''intrusion_detection''"
definition EVENT_DATASET :: str where "EVENT_DATASET = ''mimic.ssh''"
definition ECS_VERSION :: str where "ECS_VERSION = ''8.11.0''"

definition emit_event :: "log_site \<Rightarrow> log_level \<Rightarrow> str \<Rightarrow> (str \<times> log_field) list \<Rightarrow> log_event" where
  "emit_event lg level name rest = \<lparr>ev_level = level, ev_name = name, ev_fields =
     [(''event'', FText name), (''sensor_name'', FText (sensor_name lg)), (''boot_id'', FText (boot_id lg)),
      (''event_kind'', FText EVENT_KIND), (''event_category'', FText EVENT_CATEGORY), (''event_dataset'', FText EVENT_DATASET),
      (''ecs_version'', FText ECS_VERSION)] @ rest\<rparr>"

definition peer_fields :: "socket_addr \<Rightarrow> (str \<times> log_field) list" where
  "peer_fields peer = (case peer_parts peer of (ip, port) \<Rightarrow>
     [(''peer'', FText (sa_text peer)), (''src_ip'', FText ip), (''src_port'', FNum (int port))])"

definition session_fields :: "nat \<Rightarrow> socket_addr \<Rightarrow> (str \<times> log_field) list" where
  "session_fields sid peer = (''session_id'', FNum (int sid)) # peer_fields peer"

definition clean :: "str \<Rightarrow> log_field" where
  "clean s = FText (sanitise_field s)"

section \<open>The events\<close>

definition ev_connection_opened :: "log_site \<Rightarrow> nat \<Rightarrow> socket_addr \<Rightarrow> log_event" where
  "ev_connection_opened lg sid peer = emit_event lg Info ''connection_opened'' (session_fields sid peer)"

definition ev_client_banner :: "log_site \<Rightarrow> nat \<Rightarrow> socket_addr \<Rightarrow> str \<Rightarrow> log_event" where
  "ev_client_banner lg sid peer banner =
     emit_event lg Info ''client_banner'' (session_fields sid peer @ [(''banner'', clean banner)])"

definition ev_listening :: "log_site \<Rightarrow> str \<Rightarrow> nat \<Rightarrow> nat \<Rightarrow> nat \<Rightarrow> log_event" where
  "ev_listening lg addr port max_sessions per_ip =
     emit_event lg Info ''listening'' [(''addr'', FText addr), (''port'', FNum (int port)),
       (''max_sessions'', FNum (int max_sessions)), (''per_ip_connections'', FNum (int per_ip))]"

definition ev_shutdown :: "log_site \<Rightarrow> log_event" where
  "ev_shutdown lg = emit_event lg Info ''shutdown'' []"

definition ev_log_retention_pruned :: "log_site \<Rightarrow> nat \<Rightarrow> nat \<Rightarrow> log_event" where
  "ev_log_retention_pruned lg removed days =
     emit_event lg Info ''log_retention_pruned'' [(''removed'', FNum (int removed)), (''retention_days'', FNum (int days))]"

definition ev_accept_error :: "log_site \<Rightarrow> str \<Rightarrow> log_event" where
  "ev_accept_error lg err = emit_event lg Warn ''accept_error'' [(''error'', clean err)]"

definition ev_session_timeout :: "log_site \<Rightarrow> nat \<Rightarrow> socket_addr \<Rightarrow> log_event" where
  "ev_session_timeout lg sid peer = emit_event lg Info ''session_timeout'' (session_fields sid peer)"

definition ev_login_timeout :: "log_site \<Rightarrow> nat \<Rightarrow> socket_addr \<Rightarrow> log_event" where
  "ev_login_timeout lg sid peer = emit_event lg Info ''login_timeout'' (session_fields sid peer)"

definition ev_quarantine_session_cap :: "log_site \<Rightarrow> nat \<Rightarrow> socket_addr \<Rightarrow> log_event" where
  "ev_quarantine_session_cap lg sid peer = emit_event lg Warn ''quarantine_session_cap'' (session_fields sid peer)"

definition ev_quarantine_global_cap :: "log_site \<Rightarrow> nat \<Rightarrow> socket_addr \<Rightarrow> log_event" where
  "ev_quarantine_global_cap lg sid peer = emit_event lg Warn ''quarantine_global_cap'' (session_fields sid peer)"

definition ev_quarantine_error :: "log_site \<Rightarrow> nat \<Rightarrow> socket_addr \<Rightarrow> str \<Rightarrow> log_event" where
  "ev_quarantine_error lg sid peer err =
     emit_event lg Warn ''quarantine_error'' (session_fields sid peer @ [(''error'', clean err)])"

definition text_or_empty :: "str option \<Rightarrow> str" where
  "text_or_empty x = (case x of None \<Rightarrow> [] | Some s \<Rightarrow> s)"

definition ev_auth_attempt ::
  "log_site \<Rightarrow> nat \<Rightarrow> socket_addr \<Rightarrow> str \<Rightarrow> str \<Rightarrow> str option \<Rightarrow> str option \<Rightarrow> bool \<Rightarrow> log_event" where
  "ev_auth_attempt lg sid peer user meth secret fingerprint accepted =
     emit_event lg (if accepted then Warn else Info) ''auth_attempt''
       (session_fields sid peer @
        [(''username'', clean user), (''method'', clean meth), (''password'', clean (text_or_empty secret)),
         (''key_fingerprint'', clean (text_or_empty fingerprint)), (''accepted'', FBool accepted)])"

definition ev_connection_rejected :: "log_site \<Rightarrow> socket_addr \<Rightarrow> str \<Rightarrow> log_event" where
  "ev_connection_rejected lg peer reason =
     emit_event lg Info ''connection_rejected'' (peer_fields peer @ [(''reason'', clean reason)])"

definition ev_connection_closed :: "log_site \<Rightarrow> nat \<Rightarrow> socket_addr \<Rightarrow> nat \<Rightarrow> nat \<Rightarrow> log_event" where
  "ev_connection_closed lg sid peer secs commands =
     emit_event lg Info ''connection_closed''
       (session_fields sid peer @ [(''duration_secs'', FNum (int secs)), (''command_count'', FNum (int commands))])"

definition ev_download :: "log_site \<Rightarrow> nat \<Rightarrow> socket_addr \<Rightarrow> str \<Rightarrow> str \<Rightarrow> str \<Rightarrow> log_event" where
  "ev_download lg sid peer tool url dest =
     emit_event lg Info ''download''
       (session_fields sid peer @ [(''tool'', clean tool), (''url'', clean url), (''dest'', clean dest)])"

datatype command_source = SInteractive | SExec | SPipe | SHeredoc | SScript | STransfer

fun source_text :: "command_source \<Rightarrow> str" where
  "source_text SInteractive = ''interactive''"
| "source_text SExec = ''exec''"
| "source_text SPipe = ''pipe''"
| "source_text SHeredoc = ''heredoc''"
| "source_text SScript = ''script''"
| "source_text STransfer = ''transfer''"

definition ev_command :: "log_site \<Rightarrow> nat \<Rightarrow> socket_addr \<Rightarrow> str \<Rightarrow> command_source \<Rightarrow> int option \<Rightarrow> log_event" where
  "ev_command lg sid peer cmd src status =
     emit_event lg Info ''command''
       (session_fields sid peer @ [(''command'', clean cmd), (''source'', FText (source_text src)),
         (''status'', FNum (case status of None \<Rightarrow> - 1 | Some n \<Rightarrow> n))])"

definition ev_subsystem_request :: "log_site \<Rightarrow> nat \<Rightarrow> socket_addr \<Rightarrow> str \<Rightarrow> bool \<Rightarrow> log_event" where
  "ev_subsystem_request lg sid peer sub_name accepted =
     emit_event lg Info ''subsystem_request''
       (session_fields sid peer @ [(''subsystem'', clean sub_name), (''accepted'', FBool accepted)])"

definition ev_upload ::
  "log_site \<Rightarrow> nat \<Rightarrow> socket_addr \<Rightarrow> str \<Rightarrow> str \<Rightarrow> nat \<Rightarrow> str \<Rightarrow> str \<Rightarrow> str \<Rightarrow> bool \<Rightarrow> log_event" where
  "ev_upload lg sid peer name dest sz sha stored_sha stored_path truncated =
     emit_event lg Warn ''upload''
       (session_fields sid peer @
        [(''name'', clean name), (''dest'', clean dest), (''size'', FNum (int sz)), (''sha256'', clean sha),
         (''stored_sha256'', clean stored_sha), (''stored_path'', clean stored_path), (''truncated'', FBool truncated)])"

section \<open>Sanitised text\<close>

definition printable :: "byte \<Rightarrow> bool" where
  "printable b \<longleftrightarrow> 32 \<le> u8 b \<and> u8 b < 127"

lemma hex_digit_printable: "n < 16 \<Longrightarrow> printable (hex_digit n)"
  by (simp add: printable_def hex_digit_def)

lemma show_hex_printable: "list_all printable (show_hex n)"
proof (induction n rule: show_hex.induct)
  case (1 n)
  then show ?case by (subst show_hex.simps) (simp add: hex_digit_printable)
qed

lemma escape_printable: "must_escape c \<Longrightarrow> list_all printable (escape_char c)"
  using show_hex_printable by (auto simp: escape_char_def Let_def pad_left_def list_all_iff printable_def)

definition pieces :: "rchar \<Rightarrow> rchar list" where
  "pieces c = (if must_escape c then map (\<lambda>b. [b]) (escape_char c) else [c])"

lemma concat_pieces [simp]: "concat (pieces c) = escape_char c"
  by (simp add: pieces_def escape_char_def concat_map_singleton comp_def)

lemma printable_piece: "printable b \<Longrightarrow> utf8_unit [b] \<and> \<not> must_escape [b]"
  by (auto simp: printable_def utf8_unit_def utf8_step_def byte_at_def must_escape_def is_control_def)

lemma pieces_ok: "utf8_unit c \<Longrightarrow> list_all (\<lambda>x. utf8_unit x \<and> \<not> must_escape x) (pieces c)"
  using escape_printable [of c] printable_piece by (auto simp: pieces_def list_all_iff)

lemma sanitise_pieces: "sanitise_field s = concat (concat (map pieces (chars s)))"
proof -
  have "concat (concat (map pieces cs)) = concat (map escape_char cs)" for cs by (induction cs) simp_all
  moreover have "map escape_char (chars s) = chars s" if "\<not> list_ex must_escape (chars s)"
    using that by (intro map_idI) (auto simp: list_ex_iff escape_char_def)
  ultimately show ?thesis by (auto simp: sanitise_field_def)
qed

text \<open>
  What a terminal may be shown, said of the encoded characters themselves: of the ASCII bytes the printable
  ones and tab, line feed and carriage return; none of the second block of control characters, U+0080 to U+009F.
\<close>

definition harmless :: "rchar \<Rightarrow> bool" where
  "harmless c \<longleftrightarrow> (case c of
      [b] \<Rightarrow> 0x20 \<le> u8 b \<and> u8 b \<noteq> 0x7F \<or> u8 b \<in> {9, 10, 13}
    | [a, b] \<Rightarrow> \<not> (u8 a = 0xC2 \<and> 0x80 \<le> u8 b \<and> u8 b < 0xA0)
    | _ \<Rightarrow> True)"

definition text_clean :: "str \<Rightarrow> bool" where
  "text_clean s \<longleftrightarrow> utf8_valid s \<and> list_all harmless (chars s)"

lemma byte_codes: "b = CHR 0x09 \<longleftrightarrow> u8 b = 9" "b = CHR 0x0A \<longleftrightarrow> u8 b = 10" "b = CHR 0x0D \<longleftrightarrow> u8 b = 13"
  "b = CHR 0x7F \<longleftrightarrow> u8 b = 0x7F" "b = CHR 0xC2 \<longleftrightarrow> u8 b = 0xC2"
proof -
  have eq: "b = x \<longleftrightarrow> u8 b = u8 x" for x by simp
  show "b = CHR 0x09 \<longleftrightarrow> u8 b = 9" "b = CHR 0x0A \<longleftrightarrow> u8 b = 10" "b = CHR 0x0D \<longleftrightarrow> u8 b = 13"
    "b = CHR 0x7F \<longleftrightarrow> u8 b = 0x7F" "b = CHR 0xC2 \<longleftrightarrow> u8 b = 0xC2"
    by (subst eq, simp)+
qed

lemma harmless_iff: "harmless c = (\<not> must_escape c)"
proof -
  consider "c = []" | b where "c = [b]" | a b where "c = [a, b]" | a b d r where "c = a # b # d # r"
    by (metis list.exhaust)
  then show ?thesis
    by cases (auto simp: harmless_def must_escape_def is_control_def byte_codes)
qed

lemma text_clean_iff: "text_clean s \<longleftrightarrow> utf8_valid s \<and> list_all (\<lambda>c. \<not> must_escape c) (chars s)"
  by (simp add: text_clean_def harmless_iff list_all_iff)

lemma sanitise_clean:
  assumes "utf8_valid s"
  shows "text_clean (sanitise_field s)"
proof -
  let ?ps = "concat (map pieces (chars s))"
  have ok: "list_all (\<lambda>x. utf8_unit x \<and> \<not> must_escape x) ?ps"
    using utf8_chars_units [OF assms] pieces_ok by (fastforce simp: list_all_iff)
  then have "utf8_valid (concat ?ps)" by (intro utf8_valid_concat) (simp add: list_all_iff)
  moreover have "chars (concat ?ps) = ?ps" using ok utf8_unit_rchar by (intro chars_concat) (simp add: list_all_iff)
  ultimately show ?thesis using ok by (simp add: text_clean_iff sanitise_pieces list_all_iff)
qed

lemma sanitise_id: "text_clean s \<Longrightarrow> sanitise_field s = s"
  by (auto simp: text_clean_iff sanitise_field_def list_all_iff list_ex_iff)

fun field_clean :: "log_field \<Rightarrow> bool" where
  "field_clean (FText s) = text_clean s"
| "field_clean _ = True"

definition event_clean :: "log_event \<Rightarrow> bool" where
  "event_clean e \<longleftrightarrow> list_all (\<lambda>(k, x). field_clean x) (ev_fields e)"

text \<open>The texts the operator and the operating system supply: the sensor's names and the client's address.\<close>

definition site_clean :: "log_site \<Rightarrow> bool" where
  "site_clean lg \<longleftrightarrow> text_clean (sensor_name lg) \<and> text_clean (boot_id lg)"

definition peer_clean :: "socket_addr \<Rightarrow> bool" where
  "peer_clean p \<longleftrightarrow> text_clean (sa_text p) \<and> text_clean (sa_ip p)"

lemma clean_field: "utf8_valid s \<Longrightarrow> field_clean (clean s)"
  by (simp add: clean_def sanitise_clean)

section \<open>The property\<close>

text \<open>
  The events the server can log: any of the functions above on texts that are valid UTF-8, as every
  Rust string is.
\<close>

inductive logged :: "log_site \<Rightarrow> log_event \<Rightarrow> bool" for lg where
  "peer_clean p \<Longrightarrow> logged lg (ev_connection_opened lg sid p)"
| "peer_clean p \<Longrightarrow> utf8_valid b \<Longrightarrow> logged lg (ev_client_banner lg sid p b)"
| "text_clean a \<Longrightarrow> logged lg (ev_listening lg a port m n)"
| "logged lg (ev_shutdown lg)"
| "logged lg (ev_log_retention_pruned lg n d)"
| "utf8_valid e \<Longrightarrow> logged lg (ev_accept_error lg e)"
| "peer_clean p \<Longrightarrow> logged lg (ev_session_timeout lg sid p)"
| "peer_clean p \<Longrightarrow> logged lg (ev_login_timeout lg sid p)"
| "peer_clean p \<Longrightarrow> logged lg (ev_quarantine_session_cap lg sid p)"
| "peer_clean p \<Longrightarrow> logged lg (ev_quarantine_global_cap lg sid p)"
| "peer_clean p \<Longrightarrow> utf8_valid e \<Longrightarrow> logged lg (ev_quarantine_error lg sid p e)"
| "peer_clean p \<Longrightarrow> utf8_valid u \<Longrightarrow> utf8_valid m \<Longrightarrow> utf8_valid (text_or_empty s) \<Longrightarrow> utf8_valid (text_or_empty f) \<Longrightarrow>
     logged lg (ev_auth_attempt lg sid p u m s f ok)"
| "peer_clean p \<Longrightarrow> utf8_valid r \<Longrightarrow> logged lg (ev_connection_rejected lg p r)"
| "peer_clean p \<Longrightarrow> logged lg (ev_connection_closed lg sid p secs n)"
| "peer_clean p \<Longrightarrow> utf8_valid t \<Longrightarrow> utf8_valid u \<Longrightarrow> utf8_valid d \<Longrightarrow> logged lg (ev_download lg sid p t u d)"
| "peer_clean p \<Longrightarrow> utf8_valid c \<Longrightarrow> logged lg (ev_command lg sid p c src status)"
| "peer_clean p \<Longrightarrow> utf8_valid n \<Longrightarrow> logged lg (ev_subsystem_request lg sid p n ok)"
| "peer_clean p \<Longrightarrow> utf8_valid n \<Longrightarrow> utf8_valid d \<Longrightarrow> utf8_valid h \<Longrightarrow> utf8_valid k \<Longrightarrow> utf8_valid q \<Longrightarrow>
     logged lg (ev_upload lg sid p n d sz h k q t)"

lemma ascii_clean: "list_all printable s \<Longrightarrow> text_clean s"
proof -
  assume "list_all printable s"
  then have ps: "list_all utf8_unit (map (\<lambda>b. [b]) s)" "list_all (\<lambda>c. \<not> must_escape c) (map (\<lambda>b. [b]) s)"
    using printable_piece by (auto simp: list_all_iff)
  moreover have "concat (map (\<lambda>b. [b]) s) = s" by (induction s) simp_all
  moreover have "chars (concat (map (\<lambda>b. [b]) s)) = map (\<lambda>b. [b]) s"
    using ps(1) utf8_unit_rchar by (intro chars_concat) (simp add: list_all_iff)
  ultimately show ?thesis using utf8_valid_concat [OF ps(1)] by (simp add: text_clean_iff)
qed

lemma source_clean: "text_clean (source_text src)"
  by (rule ascii_clean) (cases src; simp add: printable_def)

lemma envelope_clean:
  assumes "site_clean lg" "list_all printable name" "list_all (\<lambda>(k, x). field_clean x) rest"
  shows "event_clean (emit_event lg level name rest)"
proof -
  have "text_clean EVENT_KIND" "text_clean EVENT_CATEGORY" "text_clean EVENT_DATASET" "text_clean ECS_VERSION"
    by (intro ascii_clean; simp add: EVENT_KIND_def EVENT_CATEGORY_def EVENT_DATASET_def ECS_VERSION_def printable_def)+
  then show ?thesis using assms ascii_clean by (simp add: event_clean_def emit_event_def site_clean_def)
qed

lemma session_fields_clean:
  "peer_clean p \<Longrightarrow> list_all (\<lambda>(k, x). field_clean x) (session_fields sid p)"
  "peer_clean p \<Longrightarrow> list_all (\<lambda>(k, x). field_clean x) (peer_fields p)"
  by (simp_all add: session_fields_def peer_fields_def peer_parts_def peer_clean_def)

lemmas event_defs = ev_connection_opened_def ev_client_banner_def ev_listening_def ev_shutdown_def ev_log_retention_pruned_def
  ev_accept_error_def ev_session_timeout_def ev_login_timeout_def ev_quarantine_session_cap_def ev_quarantine_global_cap_def
  ev_quarantine_error_def ev_auth_attempt_def ev_connection_rejected_def ev_connection_closed_def ev_download_def
  ev_command_def ev_subsystem_request_def ev_upload_def

text \<open>
  C6: Nothing a client sends can put a control character into the log. Whatever valid text an event
  carries, each of its text fields is valid UTF-8 without control characters other than tab, newline
  and carriage return, so no escape sequence reaches an operator's terminal; and text that has none is
  logged as it is.
\<close>

theorem log_lines_clean:
  assumes "site_clean lg" "logged lg e"
  shows "event_clean e \<and> (text_clean s \<longrightarrow> sanitise_field s = s)"
proof -
  have "event_clean e" using assms(2)
    by (cases; simp only: event_defs; intro envelope_clean [OF assms(1)];
        simp add: printable_def session_fields_clean clean_field source_clean)
  then show ?thesis using sanitise_id by blast
qed

theorem log_lines_clean_witness:
  "event_clean (ev_command \<lparr>site_sensor = None, site_boot = None\<rparr> 1 \<lparr>sa_text = ''10.0.0.9:4022'', sa_ip = ''10.0.0.9'', sa_port = 4022\<rparr>
      [CHR 0x1B, CHR ''['', CHR ''H''] SExec (Some 0))
   \<and> sanitise_field [CHR 0x1B, CHR ''['', CHR ''H''] = [CHR 0x5C] @ ''x1b[H'' \<and> sanitise_field ''id'' = ''id''"
proof -
  let ?lg = "\<lparr>site_sensor = None, site_boot = None\<rparr>" and ?p = "\<lparr>sa_text = ''10.0.0.9:4022'', sa_ip = ''10.0.0.9'', sa_port = 4022\<rparr>"
  have lg: "site_clean ?lg" unfolding site_clean_def
    by (intro conjI ascii_clean) (simp_all add: sensor_name_def boot_id_def printable_def)
  have esc: "utf8_valid [CHR 0x1B, CHR ''['', CHR ''H'']" by code_simp
  have "peer_clean ?p" unfolding peer_clean_def by (intro conjI ascii_clean) (simp_all add: printable_def)
  then have e: "logged ?lg (ev_command ?lg 1 ?p [CHR 0x1B, CHR ''['', CHR ''H''] SExec (Some 0))"
    using esc by (intro logged.intros)
  have "text_clean ''id''" by (rule ascii_clean) (simp add: printable_def)
  moreover have "sanitise_field [CHR 0x1B, CHR ''['', CHR ''H''] = [CHR 0x5C] @ ''x1b[H''"
    by (simp add: sanitise_field_def escape_char_def must_escape_def is_control_def code_point_def show_hex.simps pad_left_def
        hex_digit_def is_continuation_def Let_def char_of_def bit_0)
  ultimately show ?thesis using log_lines_clean [OF lg e] by blast
qed

end
