(* ===== verification/Config.thy ===== *)
theory Config
  imports Mimic_Prelude
begin

text \<open>
  The configuration (\<open>src/config.rs\<close>): its fields, their defaults and the range checks of
  \<open>validate\<close>, which every configuration passes before the server starts. Reading the file and parsing
  TOML are the argument \<open>parse\<close> of \<open>config_load\<close>. Addresses and directories are their texts.
\<close>

definition MAX_AUTH_ATTEMPTS :: nat where "MAX_AUTH_ATTEMPTS = 6"

record logging_config =
  lg_dir :: "str option"
  lg_retention_days :: "nat option"

datatype auth_mode = AcceptAll | RejectAll | AcceptAfter | Credentials

record credential =
  cr_username :: str
  cr_password :: str

record auth_config =
  au_mode :: auth_mode
  au_accept_after :: nat
  au_credentials :: "credential list"

record config =
  cfg_listen_addr :: str
  cfg_port :: nat
  cfg_server_id :: str
  cfg_hostname :: str
  cfg_sensor_name :: str
  cfg_max_sessions :: nat
  cfg_per_ip_connections :: nat
  cfg_idle_timeout_secs :: nat
  cfg_max_session_secs :: nat
  cfg_quarantine_dir :: str
  cfg_max_upload_bytes :: nat
  cfg_quarantine_max_total_bytes :: "nat option"
  cfg_host_key_dir :: str
  cfg_auth :: auth_config
  cfg_logging :: logging_config

definition logging_default :: logging_config where
  "logging_default = \<lparr>lg_dir = None, lg_retention_days = None\<rparr>"

definition auth_default :: auth_config where
  "auth_default = \<lparr>au_mode = AcceptAll, au_accept_after = 2, au_credentials = []\<rparr>"

definition config_default :: config where
  "config_default =
     \<lparr>cfg_listen_addr = ''0.0.0.0'', cfg_port = 2222, cfg_server_id = ''SSH-2.0-OpenSSH_9.2p1 Debian-2+deb12u3'',
      cfg_hostname = ''debian'', cfg_sensor_name = ''mimic'', cfg_max_sessions = 32, cfg_per_ip_connections = 4,
      cfg_idle_timeout_secs = 300, cfg_max_session_secs = 1800, cfg_quarantine_dir = ''quarantine'',
      cfg_max_upload_bytes = 8 * 1024 * 1024, cfg_quarantine_max_total_bytes = None, cfg_host_key_dir = ''host_keys'',
      cfg_auth = auth_default, cfg_logging = logging_default\<rparr>"

text \<open>\<open>anyhow::ensure!\<close>: the message of the first check that fails.\<close>

fun ensure_all :: "(bool \<times> str) list \<Rightarrow> str + unit" where
  "ensure_all [] = Inr ()"
| "ensure_all ((ok, msg) # cs) = (if ok then ensure_all cs else Inl msg)"

definition validate :: "config \<Rightarrow> str + unit" where
  "validate c = ensure_all (
     [(starts_with (cfg_server_id c) ''SSH-2.0-'', ''server_id must begin with '' @ [CHR 0x22] @ ''SSH-2.0-'' @ [CHR 0x22]),
      (cfg_max_sessions c > 0 \<and> cfg_max_sessions c \<le> 100000, ''max_sessions must be between 1 and 100000''),
      (cfg_per_ip_connections c > 0 \<and> cfg_per_ip_connections c \<le> cfg_max_sessions c,
        ''per_ip_connections must be between 1 and max_sessions''),
      (cfg_idle_timeout_secs c \<ge> 10 \<and> cfg_idle_timeout_secs c \<le> 3600, ''idle_timeout_secs must be between 10 and 3600 seconds''),
      (cfg_max_session_secs c \<ge> cfg_idle_timeout_secs c \<and> cfg_max_session_secs c \<le> 86400,
        ''max_session_secs must be between idle_timeout_secs and 86400 seconds''),
      (cfg_max_upload_bytes c > 0 \<and> cfg_max_upload_bytes c \<le> 1024 * 1024 * 1024,
        ''max_upload_bytes must be between 1 and 1073741824 (1 GiB)''),
      (1 \<le> au_accept_after (cfg_auth c) \<and> au_accept_after (cfg_auth c) \<le> MAX_AUTH_ATTEMPTS,
        ''auth.accept_after must be between 1 and '' @ show_nat MAX_AUTH_ATTEMPTS)]
     @ (if au_mode (cfg_auth c) = Credentials
        then [(au_credentials (cfg_auth c) \<noteq> [], ''auth.mode = '' @ [CHR 0x22] @ ''credentials'' @ [CHR 0x22] @ '' requires at least one credential pair'')]
        else [])
     @ (case lg_retention_days (cfg_logging c) of
          None \<Rightarrow> []
        | Some days \<Rightarrow> [(1 \<le> days \<and> days \<le> 3650, ''logging.retention_days must be between 1 and 3650'')]))"

definition config_load :: "(str \<Rightarrow> str + config) \<Rightarrow> str option \<Rightarrow> str + config" where
  "config_load parse path = (case (case path of Some p \<Rightarrow> parse p | None \<Rightarrow> Inr config_default) of
      Inl e \<Rightarrow> Inl e
    | Inr c \<Rightarrow> (case validate c of Inl e \<Rightarrow> Inl e | Inr _ \<Rightarrow> Inr c))"

section \<open>What a loaded configuration satisfies\<close>

lemma ensure_all_iff: "ensure_all cs = Inr () \<longleftrightarrow> list_all fst cs"
  by (induction cs rule: ensure_all.induct) auto

definition config_ok :: "config \<Rightarrow> bool" where
  "config_ok c \<longleftrightarrow> starts_with (cfg_server_id c) ''SSH-2.0-''
     \<and> cfg_max_sessions c \<in> {1..100000} \<and> cfg_per_ip_connections c \<in> {1..cfg_max_sessions c}
     \<and> cfg_idle_timeout_secs c \<in> {10..3600} \<and> cfg_max_session_secs c \<in> {cfg_idle_timeout_secs c..86400}
     \<and> cfg_max_upload_bytes c \<in> {1..2 ^ 30} \<and> au_accept_after (cfg_auth c) \<in> {1..MAX_AUTH_ATTEMPTS}
     \<and> (au_mode (cfg_auth c) = Credentials \<longrightarrow> au_credentials (cfg_auth c) \<noteq> [])
     \<and> (\<forall>d. lg_retention_days (cfg_logging c) = Some d \<longrightarrow> d \<in> {1..3650})"

lemma validate_iff: "validate c = Inr () \<longleftrightarrow> config_ok c"
  unfolding validate_def ensure_all_iff config_ok_def by (auto split: option.split)

lemma config_load_ok: "config_load parse path = Inr c \<Longrightarrow> config_ok c"
  by (auto simp: config_load_def validate_iff [symmetric] split: sum.splits)

lemma default_ok: "config_ok config_default"
  by (simp add: config_ok_def config_default_def auth_default_def logging_default_def MAX_AUTH_ATTEMPTS_def starts_with_def)

lemma default_loads: "config_load parse None = Inr config_default"
  using default_ok by (auto simp: config_load_def validate_iff [symmetric] split: sum.split)

end
