(* ===== verification/Line_Editor.thy ===== *)
theory Line_Editor
  imports Utf8_Chars
begin

text \<open>
  The interactive line editor (\<open>src/shell/line.rs\<close>): a state machine that takes one input byte at
  a time and answers with a reaction. The state is the record \<open>line_editor\<close>; an operation returns
  its reaction and the new state. Indexing (\<open>self.buf[i]\<close>, \<open>self.history[i]\<close>) and slicing are in
  range in every reachable state, which is what the invariant of the next theory gives.
\<close>

datatype reaction =
    Ignore
  | Write "byte list"
  | Submit "byte list" str
  | Eof
  | Complete

datatype esc = EscNone | EscGot | EscCsi

record search =
  sr_query :: "byte list"
  sr_matched :: "nat option"

record line_editor =
  le_prompt :: "byte list"
  le_buf :: "byte list"
  le_cursor :: nat
  le_kill :: "byte list"
  le_history :: "str list"
  le_hist_pos :: "nat option"
  le_stash :: "byte list"
  le_esc :: esc
  le_csi_params :: "byte list"
  le_search :: "search option"
  le_max_line :: nat
  le_max_history :: nat

definition ed_new :: "nat \<Rightarrow> nat \<Rightarrow> line_editor" where
  "ed_new max_line max_history =
     \<lparr>le_prompt = [], le_buf = [], le_cursor = 0, le_kill = [], le_history = [], le_hist_pos = None,
      le_stash = [], le_esc = EscNone, le_csi_params = [], le_search = None,
      le_max_line = max_line, le_max_history = max_history\<rparr>"

definition set_prompt :: "line_editor \<Rightarrow> str \<Rightarrow> line_editor" where
  "set_prompt e p = e\<lparr>le_prompt := p\<rparr>"

section \<open>Helpers\<close>

definition contains_sub :: "byte list \<Rightarrow> byte list \<Rightarrow> bool" where
  "contains_sub haystack needle =
     (if needle = [] \<or> length needle > length haystack then needle = []
      else list_ex (\<lambda>i. take (length needle) (drop i haystack) = needle)
             [0..<length haystack - length needle + 1])"

definition crlf :: "str \<Rightarrow> byte list" where
  "crlf text = concat (map (\<lambda>b. if b = CHR 0x0A then [CHR 0x0D, CHR 0x0A] else [b]) text)"

text \<open>\<open>while start > 0 && P (buf[start - 1]) \{ start -= 1 \}\<close>\<close>

fun back_while :: "(byte \<Rightarrow> bool) \<Rightarrow> byte list \<Rightarrow> nat \<Rightarrow> nat" where
  "back_while P s 0 = 0"
| "back_while P s (Suc n) = (if P (s ! n) then back_while P s n else Suc n)"

definition word_start :: "line_editor \<Rightarrow> nat" where
  "word_start e = back_while (\<lambda>b. \<not> is_ascii_whitespace b) (le_buf e) (le_cursor e)"

text \<open>\<open>while start > 0 && is_continuation (buf[start]) \{ start -= 1 \}\<close>\<close>

fun back_to_lead :: "byte list \<Rightarrow> nat \<Rightarrow> nat" where
  "back_to_lead s 0 = 0"
| "back_to_lead s (Suc n) = (if is_continuation (s ! Suc n) then back_to_lead s n else Suc n)"

definition prev_char :: "line_editor \<Rightarrow> nat \<Rightarrow> nat" where
  "prev_char e i = back_to_lead (le_buf e) (i - 1)"

function skip_continuation :: "byte list \<Rightarrow> nat \<Rightarrow> nat" where
  "skip_continuation s i =
     (if i < length s \<and> is_continuation (s ! i) then skip_continuation s (i + 1) else i)"
  by auto
termination by (relation "measure (\<lambda>(s, i). length s - i)") auto

declare skip_continuation.simps [simp del]

definition next_char :: "line_editor \<Rightarrow> nat \<Rightarrow> nat" where
  "next_char e i = skip_continuation (le_buf e) (i + 1)"

definition clear_to_eol :: "byte list" where "clear_to_eol = [CHR 0x1B, CHR ''['', CHR ''K'']"

definition redraw :: "line_editor \<Rightarrow> byte list" where
  "redraw e =
     (let back = length (filter (\<lambda>b. \<not> is_continuation b) (drop (le_cursor e) (le_buf e)))
      in [CHR 0x0D] @ le_prompt e @ le_buf e @ clear_to_eol @
         (if back > 0 then [CHR 0x1B, CHR ''[''] @ show_nat back @ ''D'' else []))"

definition ed_render :: "line_editor \<Rightarrow> byte list" where "ed_render e = redraw e"

definition current_word :: "line_editor \<Rightarrow> str \<times> bool" where
  "current_word e =
     (let start = word_start e in
      (from_utf8_lossy (take (le_cursor e - start) (drop start (le_buf e))),
       list_all is_ascii_whitespace (take start (le_buf e))))"

text \<open>\<open>while keep > 0 && is_continuation (tail[keep]) \{ keep -= 1 \}\<close>, the trim of a completion.\<close>

definition apply_completion :: "line_editor \<Rightarrow> str \<Rightarrow> bool \<Rightarrow> byte list \<times> line_editor" where
  "apply_completion e repl add_space =
     (let start = word_start e;
          tail = drop (le_cursor e) (le_buf e);
          buf = take start (le_buf e) @ repl @ (if add_space then '' '' else []);
          tail = (if length buf + length tail > le_max_line e
                  then take (back_to_lead tail (le_max_line e - length buf)) tail else tail);
          e' = e\<lparr>le_buf := buf @ tail, le_cursor := length buf\<rparr>
      in (redraw e', e'))"

definition show_listing :: "line_editor \<Rightarrow> str \<Rightarrow> byte list" where
  "show_listing e listing =
     [CHR 0x0D, CHR 0x0A] @ crlf listing @
     (if listing \<noteq> [] \<and> last listing = CHR 0x0A then [] else [CHR 0x0D, CHR 0x0A]) @ redraw e"

section \<open>History\<close>

definition push_history :: "line_editor \<Rightarrow> str \<Rightarrow> line_editor" where
  "push_history e line0 =
     (let line = trim line0; h = le_history e @ [line] in
      if line = [] \<or> (le_history e \<noteq> [] \<and> last (le_history e) = line) then e
      else e\<lparr>le_history := drop (length h - le_max_history e) h\<rparr>)"

definition history_prev :: "line_editor \<Rightarrow> reaction \<times> line_editor" where
  "history_prev e =
     (if le_history e = [] then (Ignore, e)
      else case le_hist_pos e of
        Some 0 \<Rightarrow> (Ignore, e)
      | p \<Rightarrow>
          (let nxt = (case p of None \<Rightarrow> length (le_history e) - 1 | Some i \<Rightarrow> i - 1);
               e1 = (if p = None then e\<lparr>le_stash := le_buf e\<rparr> else e);
               line = le_history e ! nxt;
               e2 = e1\<lparr>le_hist_pos := Some nxt, le_buf := line, le_cursor := length line\<rparr>
           in (Write (redraw e2), e2)))"

definition history_next :: "line_editor \<Rightarrow> reaction \<times> line_editor" where
  "history_next e = (case le_hist_pos e of
      None \<Rightarrow> (Ignore, e)
    | Some i \<Rightarrow>
        if i + 1 < length (le_history e) then
          (let line = le_history e ! (i + 1);
               e' = e\<lparr>le_hist_pos := Some (i + 1), le_buf := line, le_cursor := length line\<rparr>
           in (Write (redraw e'), e'))
        else
          (let e' = e\<lparr>le_hist_pos := None, le_buf := le_stash e, le_stash := [], le_cursor := length (le_stash e)\<rparr>
           in (Write (redraw e'), e')))"

section \<open>Editing primitives\<close>

definition ed_submit :: "line_editor \<Rightarrow> reaction \<times> line_editor" where
  "ed_submit e =
     (let line = from_utf8_lossy (le_buf e) in
      (Submit [CHR 0x0D, CHR 0x0A] line,
       (push_history e line)\<lparr>le_buf := [], le_cursor := 0, le_hist_pos := None, le_stash := []\<rparr>))"

definition ed_insert :: "line_editor \<Rightarrow> byte \<Rightarrow> reaction \<times> line_editor" where
  "ed_insert e b =
     (if length (le_buf e) \<ge> le_max_line e then (Ignore, e)
      else let e' = e\<lparr>le_buf := take (le_cursor e) (le_buf e) @ b # drop (le_cursor e) (le_buf e),
                      le_cursor := le_cursor e + 1, le_hist_pos := None\<rparr>
           in (if le_cursor e' = length (le_buf e') then Write [b] else Write (redraw e'), e'))"

definition ed_backspace :: "line_editor \<Rightarrow> reaction \<times> line_editor" where
  "ed_backspace e =
     (if le_cursor e = 0 then (Ignore, e)
      else let start = prev_char e (le_cursor e);
               e' = e\<lparr>le_buf := take start (le_buf e) @ drop (le_cursor e) (le_buf e), le_cursor := start\<rparr>
           in (Write (redraw e'), e'))"

definition delete_forward :: "line_editor \<Rightarrow> reaction \<times> line_editor" where
  "delete_forward e =
     (if le_cursor e \<ge> length (le_buf e) then (Ignore, e)
      else let stop = next_char e (le_cursor e);
               e' = e\<lparr>le_buf := take (le_cursor e) (le_buf e) @ drop stop (le_buf e)\<rparr>
           in (Write (redraw e'), e'))"

definition move_home :: "line_editor \<Rightarrow> reaction \<times> line_editor" where
  "move_home e = (let e' = e\<lparr>le_cursor := 0\<rparr> in (Write (redraw e'), e'))"

definition move_end :: "line_editor \<Rightarrow> reaction \<times> line_editor" where
  "move_end e = (let e' = e\<lparr>le_cursor := length (le_buf e)\<rparr> in (Write (redraw e'), e'))"

definition move_left :: "line_editor \<Rightarrow> reaction \<times> line_editor" where
  "move_left e =
     (if le_cursor e = 0 then (Ignore, e)
      else (Write [CHR 0x1B, CHR ''['', CHR ''D''], e\<lparr>le_cursor := prev_char e (le_cursor e)\<rparr>))"

definition move_right :: "line_editor \<Rightarrow> reaction \<times> line_editor" where
  "move_right e =
     (if le_cursor e \<ge> length (le_buf e) then (Ignore, e)
      else (Write [CHR 0x1B, CHR ''['', CHR ''C''], e\<lparr>le_cursor := next_char e (le_cursor e)\<rparr>))"

definition kill_to_start :: "line_editor \<Rightarrow> reaction \<times> line_editor" where
  "kill_to_start e =
     (if le_cursor e = 0 then (Ignore, e)
      else let e' = e\<lparr>le_kill := take (le_cursor e) (le_buf e), le_buf := drop (le_cursor e) (le_buf e), le_cursor := 0\<rparr>
           in (Write (redraw e'), e'))"

definition kill_to_end :: "line_editor \<Rightarrow> reaction \<times> line_editor" where
  "kill_to_end e =
     (if le_cursor e \<ge> length (le_buf e) then (Ignore, e)
      else let e' = e\<lparr>le_kill := drop (le_cursor e) (le_buf e), le_buf := take (le_cursor e) (le_buf e)\<rparr>
           in (Write (redraw e'), e'))"

definition kill_word :: "line_editor \<Rightarrow> reaction \<times> line_editor" where
  "kill_word e =
     (if le_cursor e = 0 then (Ignore, e)
      else let start = back_while (\<lambda>b. \<not> is_ascii_whitespace b) (le_buf e)
                         (back_while is_ascii_whitespace (le_buf e) (le_cursor e));
               e' = e\<lparr>le_kill := take (le_cursor e - start) (drop start (le_buf e)),
                      le_buf := take start (le_buf e) @ drop (le_cursor e) (le_buf e), le_cursor := start\<rparr>
           in (Write (redraw e'), e'))"

definition ed_yank :: "line_editor \<Rightarrow> reaction \<times> line_editor" where
  "ed_yank e =
     (if le_kill e = [] \<or> length (le_buf e) + length (le_kill e) > le_max_line e then (Ignore, e)
      else let e' = e\<lparr>le_buf := take (le_cursor e) (le_buf e) @ le_kill e @ drop (le_cursor e) (le_buf e),
                      le_cursor := le_cursor e + length (le_kill e), le_hist_pos := None\<rparr>
           in (Write (redraw e'), e'))"

definition clear_screen :: "line_editor \<Rightarrow> reaction \<times> line_editor" where
  "clear_screen e =
     (Write ([CHR 0x1B, CHR ''['', CHR ''H'', CHR 0x1B, CHR ''['', CHR ''2'', CHR ''J''] @ redraw e), e)"

definition ed_interrupt :: "line_editor \<Rightarrow> reaction \<times> line_editor" where
  "ed_interrupt e =
     (let e' = e\<lparr>le_buf := [], le_cursor := 0, le_hist_pos := None, le_stash := []\<rparr>
      in (Write (''^C'' @ [CHR 0x0D, CHR 0x0A] @ redraw e'), e'))"

definition ctrl_d :: "line_editor \<Rightarrow> reaction \<times> line_editor" where
  "ctrl_d e = (if le_buf e = [] then (Eof, e) else delete_forward e)"

section \<open>Reverse incremental search\<close>

definition find_match :: "line_editor \<Rightarrow> nat \<Rightarrow> byte list \<Rightarrow> nat option" where
  "find_match e before query =
     (if query = [] then None
      else find (\<lambda>i. contains_sub (le_history e ! i) query) (rev [0..<min before (length (le_history e))]))"

definition render_search :: "line_editor \<Rightarrow> byte list" where
  "render_search e = (case le_search e of
      None \<Rightarrow> redraw e
    | Some s \<Rightarrow>
        [CHR 0x0D] @ ''(reverse-i-search)`'' @ sr_query s @ [CHR 0x27] @ '': '' @
        (case sr_matched s of None \<Rightarrow> [] | Some i \<Rightarrow> le_history e ! i) @ clear_to_eol)"

definition start_search :: "line_editor \<Rightarrow> reaction \<times> line_editor" where
  "start_search e =
     (let e' = e\<lparr>le_search := Some \<lparr>sr_query = [], sr_matched = None\<rparr>\<rparr> in (Write (render_search e'), e'))"

definition search_recompute :: "line_editor \<Rightarrow> line_editor" where
  "search_recompute e = (case le_search e of
      None \<Rightarrow> e
    | Some s \<Rightarrow> e\<lparr>le_search := Some (s\<lparr>sr_matched := find_match e (length (le_history e)) (sr_query s)\<rparr>)\<rparr>)"

definition search_step :: "line_editor \<Rightarrow> line_editor" where
  "search_step e = (case le_search e of
      None \<Rightarrow> e
    | Some s \<Rightarrow>
        (let from = (case sr_matched s of None \<Rightarrow> length (le_history e) | Some i \<Rightarrow> i);
             matched = find_match e from (sr_query s)
         in if matched \<noteq> None then e\<lparr>le_search := Some (s\<lparr>sr_matched := matched\<rparr>)\<rparr> else e))"

definition accept_search :: "line_editor \<Rightarrow> line_editor" where
  "accept_search e = (case le_search e of
      None \<Rightarrow> e
    | Some s \<Rightarrow>
        (let buf = (case sr_matched s of
                      Some idx \<Rightarrow> take (le_max_line e) (le_history e ! idx)
                    | None \<Rightarrow> le_buf e)
         in e\<lparr>le_search := None, le_buf := buf, le_cursor := length buf, le_hist_pos := None\<rparr>))"

section \<open>Input\<close>

definition input_after_esc :: "line_editor \<Rightarrow> byte \<Rightarrow> reaction \<times> line_editor" where
  "input_after_esc e b =
     (if b = CHR ''['' \<or> b = CHR ''O'' then (Ignore, e\<lparr>le_esc := EscCsi, le_csi_params := []\<rparr>)
      else (Ignore, e\<lparr>le_esc := EscNone\<rparr>))"

definition input_csi :: "line_editor \<Rightarrow> byte \<Rightarrow> reaction \<times> line_editor" where
  "input_csi e b =
     (if is_ascii_digit b \<or> b = CHR '';'' then
        (Ignore, if length (le_csi_params e) < 8 then e\<lparr>le_csi_params := le_csi_params e @ [b]\<rparr> else e)
      else
        let params = le_csi_params e; e' = e\<lparr>le_esc := EscNone, le_csi_params := []\<rparr> in
        if b = CHR ''A'' then history_prev e'
        else if b = CHR ''B'' then history_next e'
        else if b = CHR ''C'' then move_right e'
        else if b = CHR ''D'' then move_left e'
        else if b = CHR ''H'' then move_home e'
        else if b = CHR ''F'' then move_end e'
        else if b = CHR ''~'' then
          (if params = ''1'' \<or> params = ''7'' then move_home e'
           else if params = ''4'' \<or> params = ''8'' then move_end e'
           else if params = ''3'' then delete_forward e'
           else (Ignore, e'))
        else (Ignore, e'))"

definition is_text :: "byte \<Rightarrow> bool" where
  "is_text b \<longleftrightarrow> 0x20 \<le> u8 b \<and> u8 b \<le> 0x7E \<or> 0x80 \<le> u8 b"

text \<open>The final \<open>match\<close> of \<open>input\<close>.\<close>

definition input_key :: "line_editor \<Rightarrow> byte \<Rightarrow> reaction \<times> line_editor" where
  "input_key e b =
     (if b = CHR 0x0D \<or> b = CHR 0x0A then ed_submit e
      else if b = CHR 0x1B then (Ignore, e\<lparr>le_esc := EscGot\<rparr>)
      else if b = CHR 0x09 then (Complete, e)
      else if b = CHR 0x08 \<or> b = CHR 0x7F then ed_backspace e
      else if b = CHR 0x01 then move_home e
      else if b = CHR 0x05 then move_end e
      else if b = CHR 0x02 then move_left e
      else if b = CHR 0x06 then move_right e
      else if b = CHR 0x10 then history_prev e
      else if b = CHR 0x0E then history_next e
      else if b = CHR 0x15 then kill_to_start e
      else if b = CHR 0x0B then kill_to_end e
      else if b = CHR 0x17 then kill_word e
      else if b = CHR 0x19 then ed_yank e
      else if b = CHR 0x0C then clear_screen e
      else if b = CHR 0x12 then start_search e
      else if b = CHR 0x03 then ed_interrupt e
      else if b = CHR 0x04 then ctrl_d e
      else if is_text b then ed_insert e b
      else (Ignore, e))"

text \<open>
  In its last arm \<open>input_search\<close> calls \<open>input\<close> again, with neither a search nor an escape sequence
  pending any more, which is the final match.
\<close>

definition input_search :: "line_editor \<Rightarrow> byte \<Rightarrow> reaction \<times> line_editor" where
  "input_search e b =
     (if b = CHR 0x0D \<or> b = CHR 0x0A then ed_submit (accept_search e)
      else if b = CHR 0x12 then (let e' = search_step e in (Write (render_search e'), e'))
      else if b = CHR 0x07 \<or> b = CHR 0x03 \<or> b = CHR 0x1B then
        (let e' = e\<lparr>le_search := None\<rparr> in (Write (redraw e'), e'))
      else if b = CHR 0x08 \<or> b = CHR 0x7F then
        (let e' = search_recompute (e\<lparr>le_search :=
                    map_option (\<lambda>s. s\<lparr>sr_query := butlast (sr_query s)\<rparr>) (le_search e)\<rparr>)
         in (Write (render_search e'), e'))
      else if is_text b then
        (let e' = search_recompute (e\<lparr>le_search :=
                    map_option (\<lambda>s. if length (sr_query s) < le_max_line e
                                    then s\<lparr>sr_query := sr_query s @ [b]\<rparr> else s) (le_search e)\<rparr>)
         in (Write (render_search e'), e'))
      else
        (let e1 = accept_search e; drawn = redraw e1 in
         case input_key e1 b of
           (Write out, e2) \<Rightarrow> (Write (drawn @ out), e2)
         | (Ignore, e2) \<Rightarrow> (Write drawn, e2)
         | other \<Rightarrow> other))"

definition ed_input :: "line_editor \<Rightarrow> byte \<Rightarrow> reaction \<times> line_editor" where
  "ed_input e b = (case le_esc e of
      EscGot \<Rightarrow> input_after_esc e b
    | EscCsi \<Rightarrow> input_csi e b
    | EscNone \<Rightarrow> if le_search e \<noteq> None then input_search e b else input_key e b)"

end
