(* ===== verification/Vfs_Wf.thy ===== *)
theory Vfs_Wf
  imports Vfs "HOL-Library.Multiset_Order"
begin

text \<open>
  The arena invariant of the virtual filesystem. \<open>at_depth v i k\<close> says that the parent chain
  of \<open>i\<close> stays inside the arena and ends at a parentless node after \<open>k\<close> steps;
  \<open>reachable\<close>, \<open>anc\<close> and \<open>desc\<close> follow child links and parent links. \<open>wf_tree\<close> is the
  shape (acyclic, child links and parent links agree), \<open>wf_caps\<close> the memory bounds, and
  \<open>wf_vfs\<close> both. The second half shows that the bounded loops of the source compute what
  they are for: \<open>depth_of\<close>, \<open>is_ancestor_of\<close> and \<open>height_of\<close> (which terminates).
\<close>

section \<open>Links\<close>

definition has_child :: "vfs \<Rightarrow> node_id \<Rightarrow> str \<Rightarrow> node_id \<Rightarrow> bool" where
  "has_child v d nm c \<longleftrightarrow>
     d < fsize v \<and> (case n_kind (fnode v d) of Directory ch \<Rightarrow> (nm, c) \<in> set ch | _ \<Rightarrow> False)"

inductive at_depth :: "vfs \<Rightarrow> node_id \<Rightarrow> nat \<Rightarrow> bool" for v where
  at_root: "i < fsize v \<Longrightarrow> n_parent (fnode v i) = None \<Longrightarrow> at_depth v i 0"
| at_below: "i < fsize v \<Longrightarrow> n_parent (fnode v i) = Some p \<Longrightarrow> at_depth v p k
     \<Longrightarrow> at_depth v i (Suc k)"

inductive reachable :: "vfs \<Rightarrow> node_id \<Rightarrow> bool" for v where
  reach_root: "reachable v (fs_root v)"
| reach_child: "reachable v d \<Longrightarrow> has_child v d nm c \<Longrightarrow> reachable v c"

inductive anc :: "vfs \<Rightarrow> node_id \<Rightarrow> node_id \<Rightarrow> bool" for v i where
  anc_refl: "anc v i i"
| anc_step: "n_parent (fnode v x) = Some p \<Longrightarrow> anc v i p \<Longrightarrow> anc v i x"

inductive desc :: "vfs \<Rightarrow> node_id \<Rightarrow> node_id \<Rightarrow> nat \<Rightarrow> bool" for v where
  desc_refl: "desc v i i 0"
| desc_step: "has_child v i nm c \<Longrightarrow> desc v c x k \<Longrightarrow> desc v i x (Suc k)"

inductive_simps at_depth_iff: "at_depth v i k"
inductive_simps anc_iff: "anc v i x"

definition wf_tree :: "vfs \<Rightarrow> bool" where
  "wf_tree v \<longleftrightarrow>
     fs_root v = 0 \<and> 0 < fsize v \<and> n_parent (fnode v 0) = None
     \<and> (\<forall>i < fsize v. \<exists>k. at_depth v i k)
     \<and> (\<forall>i < fsize v. n_parent (fnode v i) = None \<longrightarrow> i = 0)
     \<and> (\<forall>i < fsize v. \<forall>ch. n_kind (fnode v i) = Directory ch \<longrightarrow> bt_ok ch)
     \<and> (\<forall>d nm c. has_child v d nm c \<longrightarrow>
          c < fsize v \<and> n_parent (fnode v c) = Some d \<and> n_name (fnode v c) = nm)"

definition stored_bytes :: "vfs \<Rightarrow> nat" where
  "stored_bytes v = sum_list (map file_len (fs_nodes v))"

definition wf_caps :: "vfs \<Rightarrow> bool" where
  "wf_caps v \<longleftrightarrow>
     fsize v \<le> MAX_VFS_NODES \<and> stored_bytes v \<le> content_bytes v \<and> content_bytes v \<le> MAX_VFS_BYTES
     \<and> (\<forall>i k. reachable v i \<longrightarrow> at_depth v i k \<longrightarrow> k \<le> MAX_VFS_DEPTH)"

definition wf_vfs :: "vfs \<Rightarrow> bool" where
  "wf_vfs v \<longleftrightarrow> wf_tree v \<and> wf_caps v"

lemma wf_vfsI [intro?]: "wf_tree v \<Longrightarrow> wf_caps v \<Longrightarrow> wf_vfs v"
  by (simp add: wf_vfs_def)

lemma wf_vfsD [dest]: "wf_vfs v \<Longrightarrow> wf_tree v" "wf_vfs v \<Longrightarrow> wf_caps v"
  by (simp_all add: wf_vfs_def)

lemma wf_treeI:
  assumes "fs_root v = 0" "0 < fsize v" "n_parent (fnode v 0) = None"
    and "\<And>i. i < fsize v \<Longrightarrow> \<exists>k. at_depth v i k"
    and "\<And>i. i < fsize v \<Longrightarrow> n_parent (fnode v i) = None \<Longrightarrow> i = 0"
    and "\<And>i ch. i < fsize v \<Longrightarrow> n_kind (fnode v i) = Directory ch \<Longrightarrow> bt_ok ch"
    and "\<And>d nm c. has_child v d nm c \<Longrightarrow>
       c < fsize v \<and> n_parent (fnode v c) = Some d \<and> n_name (fnode v c) = nm"
  shows "wf_tree v"
  using assms unfolding wf_tree_def by blast

lemma wf_treeD:
  assumes "wf_tree v"
  shows "fs_root v = 0" "0 < fsize v" "n_parent (fnode v 0) = None"
    and "i < fsize v \<Longrightarrow> \<exists>k. at_depth v i k"
    and "i < fsize v \<Longrightarrow> n_parent (fnode v i) = None \<Longrightarrow> i = 0"
    and "i < fsize v \<Longrightarrow> n_kind (fnode v i) = Directory ch \<Longrightarrow> bt_ok ch"
    and "has_child v d nm c \<Longrightarrow> c < fsize v"
    and "has_child v d nm c \<Longrightarrow> n_parent (fnode v c) = Some d"
    and "has_child v d nm c \<Longrightarrow> n_name (fnode v c) = nm"
  using assms unfolding wf_tree_def by blast+

section \<open>Depth\<close>

lemma at_depth_range: "at_depth v i k \<Longrightarrow> i < fsize v"
  by (auto elim: at_depth.cases)

lemma at_depth_unique: "at_depth v i k \<Longrightarrow> at_depth v i k' \<Longrightarrow> k = k'"
proof (induction arbitrary: k' rule: at_depth.induct)
  case (at_below i p k)
  from at_below.prems obtain j where "k' = Suc j" "at_depth v p j"
    using at_below.hyps by cases simp_all
  then show ?case using at_below.IH by simp
qed (auto elim: at_depth.cases)

lemma at_depth_ancestors:
  "at_depth v x d \<Longrightarrow> \<exists>f. \<forall>j \<le> d. anc v (f j) x \<and> at_depth v (f j) j"
proof (induction rule: at_depth.induct)
  case (at_root i)
  then show ?case by (intro exI [of _ "\<lambda>_. i"]) (auto intro: anc.intros at_depth.intros)
next
  case (at_below i p k)
  then obtain f where f: "\<forall>j \<le> k. anc v (f j) p \<and> at_depth v (f j) j" by blast
  have "at_depth v i (Suc k)" using at_below by (auto intro: at_depth.intros)
  with f at_below show ?case
    by (intro exI [of _ "f(Suc k := i)"]) (auto simp: le_Suc_eq intro: anc.intros)
qed

lemma at_depth_chain:
  assumes "at_depth v x d"
  obtains f where "inj_on f {..d}" "f ` {..d} \<subseteq> {..<fsize v}" "\<forall>j \<le> d. anc v (f j) x"
proof -
  obtain f where f: "\<forall>j \<le> d. anc v (f j) x \<and> at_depth v (f j) j"
    using at_depth_ancestors [OF assms] by blast
  show ?thesis
  proof
    show "inj_on f {..d}" using f by (intro inj_onI) (metis atMost_iff at_depth_unique)
    show "f ` {..d} \<subseteq> {..<fsize v}" using f by (auto dest: at_depth_range)
  qed (use f in blast)
qed

lemma at_depth_less: "at_depth v x d \<Longrightarrow> d < fsize v"
proof -
  assume "at_depth v x d"
  then obtain f where f: "inj_on f {..d}" "f ` {..d} \<subseteq> {..<fsize v}" by (rule at_depth_chain)
  then have "card {..d} \<le> card {..<fsize v}" by (intro card_inj_on_le [of f]) auto
  then show ?thesis by simp
qed

lemma at_depth_full_chain:
  assumes "at_depth v x d" "Suc d = fsize v" "i < fsize v"
  shows "anc v i x"
proof -
  obtain f where f: "inj_on f {..d}" "f ` {..d} \<subseteq> {..<fsize v}" "\<forall>j \<le> d. anc v (f j) x"
    using assms(1) by (rule at_depth_chain)
  have "card (f ` {..d}) = card {..<fsize v}" using f(1) assms(2) by (simp add: card_image)
  then have "f ` {..d} = {..<fsize v}" using f(2) by (intro card_subset_eq) auto
  with assms(3) f(3) show ?thesis by (metis atMost_iff image_iff lessThan_iff)
qed

lemma depth_loop_correct:
  "at_depth v i k \<Longrightarrow> d + k \<le> fsize v \<Longrightarrow> depth_loop v i d = d + k"
proof (induction arbitrary: d rule: at_depth.induct)
  case (at_root i)
  then show ?case by (subst depth_loop.simps) simp
next
  case (at_below i p k)
  then show ?case by (subst depth_loop.simps) simp
qed

lemma depth_of_correct: "at_depth v i k \<Longrightarrow> depth_of v i = k"
  using at_depth_less [of v i k] by (simp add: depth_of_def depth_loop_correct)

section \<open>Ancestors\<close>

lemma ancestor_loop_correct:
  "at_depth v x d \<Longrightarrow> Suc d < k \<Longrightarrow> ancestor_loop v k i (Some x) = anc v i x"
proof (induction arbitrary: k rule: at_depth.induct)
  case (at_root x)
  from \<open>Suc 0 < k\<close> obtain m where "k = Suc (Suc m)" by (auto dest!: less_imp_Suc_add)
  with at_root show ?case by (auto simp: anc_iff [of v i x])
next
  case (at_below x p d)
  from \<open>Suc (Suc d) < k\<close> obtain m where "k = Suc m" "Suc d < m" by (cases k) simp_all
  with at_below show ?case by (auto simp: anc_iff [of v i x])
qed

lemma ancestor_loop_exhausted:
  "at_depth v x d \<Longrightarrow> k \<le> Suc d \<Longrightarrow> ancestor_loop v k i (Some x)"
proof (induction arbitrary: k rule: at_depth.induct)
  case (at_root x)
  then show ?case by (cases k) auto
next
  case (at_below x p d)
  then show ?case by (cases k) auto
qed

lemma is_ancestor_of_correct:
  assumes "at_depth v x d" "i < fsize v"
  shows "is_ancestor_of v i x \<longleftrightarrow> anc v i x"
proof (cases "Suc d < fsize v")
  case True
  with assms show ?thesis by (simp add: is_ancestor_of_def ancestor_loop_correct)
next
  case False
  then have "Suc d = fsize v" using at_depth_less [OF assms(1)] by simp
  with assms show ?thesis
    by (simp add: is_ancestor_of_def ancestor_loop_exhausted at_depth_full_chain)
qed

lemma anc_parent: "anc v i x \<Longrightarrow> x \<noteq> i \<Longrightarrow> n_parent (fnode v x) = Some p \<Longrightarrow> anc v i p"
  by (subst (asm) anc_iff) auto

section \<open>Height: the worklist ends and returns the longest descent\<close>

lemma desc_snoc: "desc v i d k \<Longrightarrow> has_child v d nm c \<Longrightarrow> desc v i c (Suc k)"
  by (induction rule: desc.induct) (auto intro: desc.intros)

lemma push_children_set:
  "i < fsize v \<Longrightarrow> set (push_children v i h stack) =
     {(c, h + 1) | c. \<exists>nm. has_child v i nm c} \<union> set stack"
  by (force simp: push_children_def has_child_def image_iff split: node_kind.splits)

lemma push_children_rank:
  assumes wf: "wf_tree v" and "at_depth v i k"
  shows "mset (map (\<lambda>(j, h). fsize v - depth_of v j) (push_children v i h stack))
         < mset (map (\<lambda>(j, h). fsize v - depth_of v j) ((i, h) # stack))"
    (is "mset (map ?rank _) < _")
proof (cases "n_kind (fnode v i)")
  case (Directory ch)
  have i: "i < fsize v" "k < fsize v" using assms(2) by (auto dest: at_depth_range at_depth_less)
  have "?rank (snd e, h + 1) < fsize v - k" if "e \<in> set ch" for e
  proof -
    have "has_child v i (fst e) (snd e)" using that Directory i by (simp add: has_child_def)
    then have "at_depth v (snd e) (Suc k)"
      using wf assms(2) by (auto simp: wf_tree_def intro: at_depth.intros)
    then show ?thesis using i(2) by (simp add: depth_of_correct)
  qed
  then have "(mset (map ?rank stack) + mset (map ?rank (map (\<lambda>e. (snd e, h + 1)) ch)),
              mset (map ?rank stack) + {# fsize v - k #}) \<in> mult {(x, y). x < y}"
    by (intro one_step_implies_mult) auto
  then show ?thesis
    using Directory assms(2)
    by (simp add: push_children_def depth_of_correct less_multiset_def multp_def add.commute rev_map)
qed (auto simp: push_children_def)

lemma height_loop_terminates:
  assumes "wf_tree v"
  shows "(\<forall>(i, h) \<in> set stack. i < fsize v) \<Longrightarrow> \<exists>r. height_loop v stack m = Some r"
proof (induction "mset (map (\<lambda>(j, h). fsize v - depth_of v j) stack)" arbitrary: stack m rule: less_induct)
  case less
  show ?case
  proof (cases stack)
    case Nil
    then show ?thesis by (simp add: height_loop.simps)
  next
    case (Cons e rest)
    obtain i h where e: "e = (i, h)" by fastforce
    with less.prems Cons have i: "i < fsize v" by simp
    then obtain k where "at_depth v i k" using assms by (auto simp: wf_tree_def)
    moreover have "\<forall>(j, h) \<in> set (push_children v i h rest). j < fsize v"
      using less.prems Cons i assms by (fastforce simp: push_children_set wf_tree_def)
    ultimately have "\<exists>r. height_loop v (push_children v i h rest) (max m h) = Some r"
      using less.hyps push_children_rank [OF assms] Cons e by blast
    then show ?thesis using Cons e by (subst height_loop.simps) simp
  qed
qed

lemma height_of_terminates: "wf_tree v \<Longrightarrow> i < fsize v \<Longrightarrow> \<exists>h. height_of v i = Some h"
  unfolding height_of_def by (rule height_loop_terminates) simp_all

lemma height_loop_bound:
  assumes wf: "wf_tree v"
  shows "height_loop v stack m = Some H \<Longrightarrow> (\<forall>(i, h) \<in> set stack. i < fsize v) \<Longrightarrow>
     m \<le> H \<and> (\<forall>(i, h) \<in> set stack. \<forall>x k. desc v i x k \<longrightarrow> h + k \<le> H)
     \<and> (H = m \<or> (\<exists>(i, h) \<in> set stack. \<exists>x k. desc v i x k \<and> H = h + k))"
proof (induction "mset (map (\<lambda>(j, h). fsize v - depth_of v j) stack)" arbitrary: stack m rule: less_induct)
  case less
  show ?case
  proof (cases stack)
    case Nil
    with less.prems show ?thesis by (simp add: height_loop.simps)
  next
    case (Cons e rest)
    obtain i h where e: "e = (i, h)" by fastforce
    let ?s = "push_children v i h rest"
    from less.prems Cons e have i: "i < fsize v" by simp
    then obtain k where k: "at_depth v i k" using wf by (auto simp: wf_tree_def)
    have ran: "\<forall>(j, h) \<in> set ?s. j < fsize v"
      using less.prems Cons i wf by (fastforce simp: push_children_set wf_tree_def)
    have loop: "height_loop v ?s (max m h) = Some H"
      using less.prems(1) Cons e by (subst (asm) height_loop.simps) simp
    have IH: "max m h \<le> H" "\<forall>(i, h) \<in> set ?s. \<forall>x k. desc v i x k \<longrightarrow> h + k \<le> H"
      "H = max m h \<or> (\<exists>(i, h) \<in> set ?s. \<exists>x k. desc v i x k \<and> H = h + k)"
      using less.hyps [OF _ loop ran] push_children_rank [OF wf k] Cons e by blast+
    have "h + k' \<le> H" if "desc v i x k'" for x k'
      using that
    proof cases
      case desc_refl
      then show ?thesis using IH(1) by simp
    next
      case (desc_step nm c j)
      then have "(c, h + 1) \<in> set ?s" using i by (auto simp: push_children_set)
      with IH(2) desc_step show ?thesis by fastforce
    qed
    moreover have "H = m \<or> (\<exists>(i, h) \<in> set stack. \<exists>x k. desc v i x k \<and> H = h + k)"
    proof -
      consider "H = m" | "H = h" | j h' x k' where "(j, h') \<in> set ?s" "desc v j x k'" "H = h' + k'"
        using IH(3) by (auto simp: max_def split: if_splits)
      then show ?thesis
      proof cases
        case 2
        then show ?thesis
          using Cons e desc_refl [of v i] by (intro disjI2 bexI [of _ "(i, h)"]) auto
      next
        case (3 j h' x k')
        then consider nm where "has_child v i nm j" "h' = h + 1" | "(j, h') \<in> set rest"
          using i by (auto simp: push_children_set)
        then show ?thesis
        proof cases
          case 1
          then have "desc v i x (Suc k')" "H = h + Suc k'" using 3 by (auto intro: desc.intros)
          then show ?thesis using Cons e by (intro disjI2 bexI [of _ "(i, h)"]) auto
        next
          case 2
          then show ?thesis using 3 Cons by (intro disjI2 bexI [of _ "(j, h')"]) auto
        qed
      qed simp
    qed
    ultimately show ?thesis using IH Cons e i by (auto simp: push_children_set)
  qed
qed

lemma height_of_max:
  assumes "wf_tree v" "i < fsize v" "height_of v i = Some H"
  shows "desc v i x k \<Longrightarrow> k \<le> H" and "\<exists>x. desc v i x H"
  using height_loop_bound [OF assms(1), of "[(i, 0)]" 0 H] assms(2,3)
  by (auto simp: height_of_def intro: desc.intros)

end
