(* ===== verification/Vfs_Ops.thy ===== *)
theory Vfs_Ops
  imports Vfs_Wf
begin

text \<open>
  Every mutation of the arena keeps the invariant \<open>wf_vfs\<close> and returns an id inside the
  arena. Two lemmas carry the section: \<open>wf_upd_node\<close> for operations that rewrite one node
  without adding a link, \<open>wf_insert\<close> for the one operation that adds a node. \<open>rename\<close> needs
  its own argument, because it is the only operation that changes a parent link.
\<close>

section \<open>One node rewritten\<close>

lemma upd_node_simps [simp]:
  "fsize (upd_node v i f) = fsize v" "fs_root (upd_node v i f) = fs_root v"
  "content_bytes (upd_node v i f) = content_bytes v"
  by (simp_all add: upd_node_def)

lemma fnode_upd_node:
  "i < fsize v \<Longrightarrow> fnode (upd_node v i f) j = (if j = i then f (fnode v i) else fnode v j)"
  by (simp add: upd_node_def)

lemma stored_bytes_upd:
  "i < fsize v \<Longrightarrow>
     stored_bytes (upd_node v i f) + file_len (fnode v i) = stored_bytes v + file_len (f (fnode v i))"
  using elem_le_sum_list [of i "map file_len (fs_nodes v)"]
  by (simp add: stored_bytes_def upd_node_def map_update sum_list_update)

lemma file_len_le_stored: "i < fsize v \<Longrightarrow> file_len (fnode v i) \<le> stored_bytes v"
  using elem_le_sum_list [of i "map file_len (fs_nodes v)"] by (simp add: stored_bytes_def)

lemma at_depth_mono:
  assumes "at_depth v i k" "fsize v \<le> fsize w"
    and "\<And>j. j < fsize v \<Longrightarrow> n_parent (fnode w j) = n_parent (fnode v j)"
  shows "at_depth w i k"
  using assms(1)
proof (induction rule: at_depth.induct)
  case (at_root i)
  then show ?case using assms(2,3) by (intro at_depth.at_root) auto
next
  case (at_below i p k)
  then show ?case using assms(2,3) by (intro at_depth.at_below [of i w p k]) auto
qed

lemma reachable_mono:
  assumes "reachable w i" "fs_root w = fs_root v"
    and "\<And>d nm c. has_child w d nm c \<Longrightarrow> has_child v d nm c"
  shows "reachable v i"
  using assms(1)
proof (induction rule: reachable.induct)
  case reach_root
  show ?case using reachable.reach_root [of v] assms(2) by simp
next
  case (reach_child d nm c)
  then show ?case using assms(3) by (blast intro: reachable.reach_child)
qed

lemma wf_shrink:
  assumes "wf_vfs v" and same: "fsize w = fsize v" "fs_root w = fs_root v"
    and up: "\<And>i. i < fsize v \<Longrightarrow> n_parent (fnode w i) = n_parent (fnode v i)
                \<and> n_name (fnode w i) = n_name (fnode v i)"
    and ok: "\<And>i ch. i < fsize v \<Longrightarrow> n_kind (fnode w i) = Directory ch \<Longrightarrow> bt_ok ch"
    and sub: "\<And>d nm c. has_child w d nm c \<Longrightarrow> has_child v d nm c"
    and bytes: "stored_bytes w \<le> content_bytes w" "content_bytes w \<le> MAX_VFS_BYTES"
  shows "wf_vfs w"
proof
  have d: "at_depth w i k \<longleftrightarrow> at_depth v i k" for i k
    using at_depth_mono [of v i k w] at_depth_mono [of w i k v] same up by auto
  have wf: "wf_tree v" "wf_caps v" using assms(1) by auto
  show "wf_tree w"
  proof (rule wf_treeI)
    show "n_parent (fnode w 0) = None" using wf_treeD(2,3) [OF wf(1)] up by simp
    show "\<exists>k. at_depth w i k" if "i < fsize w" for i using wf_treeD(4) [OF wf(1)] that same d by simp
    show "i = 0" if "i < fsize w" "n_parent (fnode w i) = None" for i
      using wf_treeD(5) [OF wf(1)] that same up by simp
    show "c < fsize w \<and> n_parent (fnode w c) = Some d \<and> n_name (fnode w c) = nm"
      if "has_child w d nm c" for d nm c
      using wf_treeD(7-9) [OF wf(1) sub [OF that]] same up by simp
  qed (use wf_treeD [OF wf(1)] same ok in auto)
  show "wf_caps w"
    using wf(2) d same bytes reachable_mono [of w _ v] sub unfolding wf_caps_def by (metis (no_types))
qed

lemma wf_upd_node:
  assumes "wf_vfs v" "i < fsize v"
    and f: "n_name (f (fnode v i)) = n_name (fnode v i)" "n_parent (f (fnode v i)) = n_parent (fnode v i)"
    and kind: "\<And>ch. n_kind (f (fnode v i)) = Directory ch \<Longrightarrow>
       \<exists>ch0. n_kind (fnode v i) = Directory ch0 \<and> bt_ok ch \<and> set ch \<subseteq> set ch0"
    and bytes: "stored_bytes v + file_len (f (fnode v i)) \<le> cb + file_len (fnode v i)"
      "cb \<le> MAX_VFS_BYTES"
  shows "wf_vfs ((upd_node v i f)\<lparr>content_bytes := cb\<rparr>)" (is "wf_vfs ?w")
proof (rule wf_shrink [OF assms(1)])
  show "n_parent (fnode ?w j) = n_parent (fnode v j) \<and> n_name (fnode ?w j) = n_name (fnode v j)"
    for j using f assms(2) by (simp add: fnode_upd_node)
  show "bt_ok ch" if "j < fsize v" "n_kind (fnode ?w j) = Directory ch" for j ch
  proof (cases "j = i")
    case True
    then show ?thesis using that(2) kind assms(2) by (auto simp: fnode_upd_node)
  next
    case False
    then show ?thesis
      using that assms(1,2) by (auto simp: fnode_upd_node wf_vfs_def wf_tree_def)
  qed
  show "has_child v d nm c" if "has_child ?w d nm c" for d nm c
  proof (cases "d = i")
    case True
    with that obtain ch where "n_kind (f (fnode v i)) = Directory ch" "(nm, c) \<in> set ch"
      using assms(2) by (auto simp: has_child_def fnode_upd_node split: node_kind.splits)
    with kind True assms(2) show ?thesis by (fastforce simp: has_child_def)
  next
    case False
    with that assms(2) show ?thesis by (simp add: has_child_def fnode_upd_node)
  qed
  have "stored_bytes ?w = stored_bytes (upd_node v i f)" by (simp add: stored_bytes_def)
  then show "stored_bytes ?w \<le> content_bytes ?w"
    using stored_bytes_upd [OF assms(2), of f] bytes(1) by simp
qed (use bytes in simp_all)

text \<open>Rewriting only the metadata: \<open>chmod\<close>, \<open>chown\<close>, \<open>set_mtime\<close>.\<close>

lemma wf_upd_meta:
  assumes "wf_vfs v" "i < fsize v"
  shows "wf_vfs (upd_node v i (\<lambda>n. n\<lparr>n_meta := h n\<rparr>))"
proof -
  have "file_len ((fnode v i)\<lparr>n_meta := h (fnode v i)\<rparr>) = file_len (fnode v i)"
    by (simp add: file_len_def)
  then have "wf_vfs ((upd_node v i (\<lambda>n. n\<lparr>n_meta := h n\<rparr>))\<lparr>content_bytes := content_bytes v\<rparr>)"
    using assms by (intro wf_upd_node) (auto simp: wf_vfs_def wf_caps_def wf_tree_def)
  then show ?thesis by (simp add: upd_node_def)
qed

lemma wf_chmod [wf_intros]: "wf_vfs v \<Longrightarrow> i < fsize v \<Longrightarrow> wf_vfs (chmod v i perms)"
  unfolding chmod_def by (rule wf_upd_meta)

lemma wf_chown [wf_intros]: "wf_vfs v \<Longrightarrow> i < fsize v \<Longrightarrow> wf_vfs (chown v i u g)"
  unfolding chown_def by (rule wf_upd_meta)

lemma wf_set_mtime [wf_intros]: "wf_vfs v \<Longrightarrow> i < fsize v \<Longrightarrow> wf_vfs (set_mtime v i t)"
  unfolding set_mtime_def by (rule wf_upd_meta)

lemma wf_set_all_mtimes [wf_intros]: "wf_vfs v \<Longrightarrow> wf_vfs (set_all_mtimes v ts)"
proof (rule wf_shrink)
  assume wf: "wf_vfs v"
  let ?w = "set_all_mtimes v ts"
  show "bt_ok ch" if "i < fsize v" "n_kind (fnode ?w i) = Directory ch" for i ch
    using wf that by (auto simp: set_all_mtimes_def wf_vfs_def wf_tree_def)
  show "has_child v d nm c" if "has_child ?w d nm c" for d nm c
    using that by (cases "d < fsize v") (auto simp: set_all_mtimes_def has_child_def)
  have "file_len \<circ> (\<lambda>n. n\<lparr>n_meta := (n_meta n)\<lparr>m_mtime := ts\<rparr>\<rparr>) = file_len"
    by (simp add: fun_eq_iff file_len_def)
  then show "stored_bytes ?w \<le> content_bytes ?w"
    using wf by (simp add: set_all_mtimes_def stored_bytes_def wf_vfs_def wf_caps_def)
  show "content_bytes ?w \<le> MAX_VFS_BYTES"
    using wf by (simp add: set_all_mtimes_def wf_vfs_def wf_caps_def)
qed (simp_all add: set_all_mtimes_def)

lemma wf_write_file [wf_intros]:
  assumes "wf_vfs v" "i < fsize v"
  shows "wf_vfs (snd (write_file now v i bs app))"
proof (cases "n_kind (fnode v i)")
  case (File c)
  have "file_len (fnode v i) = length c" using File by (simp add: file_len_def)
  then have "length c \<le> content_bytes v" "stored_bytes v \<le> content_bytes v"
    using file_len_le_stored [OF assms(2)] assms(1) by (auto simp: wf_vfs_def wf_caps_def)
  then show ?thesis
    using assms File unfolding write_file_def Let_def
    by (auto intro!: wf_upd_node simp: file_len_def)
qed (use assms in \<open>simp_all add: write_file_def\<close>)

lemma wf_upd_unlink:
  assumes "wf_vfs v" "p < fsize v"
  shows "wf_vfs (upd_node v p (unlink_child nm))"
proof -
  have "wf_vfs ((upd_node v p (unlink_child nm))\<lparr>content_bytes := content_bytes v\<rparr>)"
    using assms
    by (intro wf_upd_node)
      (auto simp: unlink_child_def file_len_def wf_vfs_def wf_caps_def wf_tree_def bt_remove_def
        bt_ok_remove [unfolded bt_remove_def] split: node_kind.splits)
  then show ?thesis by (simp add: upd_node_def)
qed

lemma wf_unlink [wf_intros]: "wf_vfs v \<Longrightarrow> p < fsize v \<Longrightarrow> wf_vfs (snd (unlink v p nm))"
  by (simp add: unlink_def wf_upd_unlink)

section \<open>The invariant does not read the byte counter's history\<close>

lemma at_depth_cb: "at_depth (v\<lparr>content_bytes := cb\<rparr>) i k \<longleftrightarrow> at_depth v i k"
  using at_depth_mono [of v i k "v\<lparr>content_bytes := cb\<rparr>"]
    at_depth_mono [of "v\<lparr>content_bytes := cb\<rparr>" i k v] by auto

lemma has_child_cb: "has_child (v\<lparr>content_bytes := cb\<rparr>) d nm c \<longleftrightarrow> has_child v d nm c"
  by (simp add: has_child_def)

lemma reachable_cb: "reachable (v\<lparr>content_bytes := cb\<rparr>) i \<longleftrightarrow> reachable v i"
  using reachable_mono [of v i "v\<lparr>content_bytes := cb\<rparr>"]
    reachable_mono [of "v\<lparr>content_bytes := cb\<rparr>" i v] by (auto simp: has_child_cb)

lemma wf_tree_vfs_cong: "wf_tree (v\<lparr>content_bytes := cb\<rparr>) \<longleftrightarrow> wf_tree v"
  by (simp add: wf_tree_def at_depth_cb has_child_cb)

lemma wf_caps_vfs_cong:
  "wf_caps (v\<lparr>content_bytes := cb\<rparr>) \<longleftrightarrow>
     fsize v \<le> MAX_VFS_NODES \<and> stored_bytes v \<le> cb \<and> cb \<le> MAX_VFS_BYTES
     \<and> (\<forall>i k. reachable v i \<longrightarrow> at_depth v i k \<longrightarrow> k \<le> MAX_VFS_DEPTH)"
  by (simp add: wf_caps_def at_depth_cb reachable_cb stored_bytes_def)

section \<open>One node added\<close>

definition ins_node :: "vfs \<Rightarrow> node_id \<Rightarrow> str \<Rightarrow> node_kind \<Rightarrow> metadata \<Rightarrow> vfs" where
  "ins_node v p nm k m =
     upd_node (v\<lparr>fs_nodes := fs_nodes v @
       [\<lparr>n_name = nm, n_parent = Some p, n_kind = k, n_meta = m\<rparr>]\<rparr>) p (link_child nm (fsize v))"

lemma vfs_insert_eq:
  "vfs_insert v p nm k m = (if is_full v p then (p, v) else (fsize v, ins_node v p nm k m))"
  by (simp add: vfs_insert_def ins_node_def Let_def)

lemma link_child_simps [simp]:
  "n_name (link_child nm i n) = n_name n" "n_parent (link_child nm i n) = n_parent n"
  "n_meta (link_child nm i n) = n_meta n" "file_len (link_child nm i n) = file_len n"
  by (simp_all add: link_child_def file_len_def split: node_kind.splits)

lemma unlink_child_simps [simp]:
  "n_name (unlink_child nm n) = n_name n" "n_parent (unlink_child nm n) = n_parent n"
  "n_meta (unlink_child nm n) = n_meta n" "file_len (unlink_child nm n) = file_len n"
  by (simp_all add: unlink_child_def file_len_def split: node_kind.splits)

lemma ins_node_simps [simp]:
  "fsize (ins_node v p nm k m) = Suc (fsize v)" "fs_root (ins_node v p nm k m) = fs_root v"
  "content_bytes (ins_node v p nm k m) = content_bytes v"
  by (simp_all add: ins_node_def)

lemma fnode_ins_node:
  "p < fsize v \<Longrightarrow> fnode (ins_node v p nm k m) j =
     (if j = p then link_child nm (fsize v) (fnode v p)
      else if j = fsize v then \<lparr>n_name = nm, n_parent = Some p, n_kind = k, n_meta = m\<rparr>
      else fnode v j)" if "j \<le> fsize v"
  using that by (simp add: ins_node_def fnode_upd_node nth_append)

lemma stored_bytes_ins_node:
  assumes "p < fsize v"
  shows "stored_bytes (ins_node v p nm k m) =
     stored_bytes v + file_len \<lparr>n_name = nm, n_parent = Some p, n_kind = k, n_meta = m\<rparr>"
proof -
  let ?n = "\<lparr>n_name = nm, n_parent = Some p, n_kind = k, n_meta = m\<rparr>"
  let ?v1 = "v\<lparr>fs_nodes := fs_nodes v @ [?n]\<rparr>"
  have "stored_bytes ?v1 = stored_bytes v + file_len ?n" by (simp add: stored_bytes_def)
  moreover have "stored_bytes (upd_node ?v1 p (link_child nm (fsize v))) = stored_bytes ?v1"
    using stored_bytes_upd [of p ?v1 "link_child nm (fsize v)"] assms by simp
  ultimately show ?thesis by (simp add: ins_node_def)
qed

definition fresh_kind :: "node_kind \<Rightarrow> bool" where
  "fresh_kind k \<longleftrightarrow> (case k of Directory ch \<Rightarrow> ch = [] | _ \<Rightarrow> True)"

lemma fresh_kind_simps [simp]:
  "fresh_kind (Directory [])" "fresh_kind (File c)" "fresh_kind (Symlink t)" "fresh_kind (DynamicFile g)"
  by (simp_all add: fresh_kind_def)

lemma has_child_ins_node:
  assumes wf: "wf_tree v" and "p < fsize v" and k: "fresh_kind k"
  shows "has_child (ins_node v p nm k m) d nm' c \<longleftrightarrow>
     (if d = p \<and> nm' = nm then c = fsize v \<and> (\<exists>ch. n_kind (fnode v p) = Directory ch)
      else has_child v d nm' c)"
proof -
  consider "d = p" | "d = fsize v" | "d \<noteq> p" "d < fsize v" | "fsize v < d" by linarith
  then show ?thesis
  proof cases
    case 1
    then show ?thesis
      using assms(2) wf_treeD(6) [OF wf]
      by (auto simp: has_child_def fnode_ins_node link_child_def bt.entries_ins split: node_kind.splits)
  next
    case 2
    then show ?thesis
      using assms(2) k by (auto simp: has_child_def fnode_ins_node fresh_kind_def split: node_kind.splits)
  qed (use assms(2) in \<open>auto simp: has_child_def fnode_ins_node\<close>)
qed

lemma at_depth_ins_node:
  assumes "p < fsize v" "at_depth v i k"
  shows "at_depth (ins_node v p nm kd m) i k"
  using assms by (intro at_depth_mono [OF assms(2)]) (auto simp: fnode_ins_node)

lemma wf_tree_ins_node:
  assumes wf: "wf_tree v" and p: "p < fsize v" and k: "fresh_kind k"
  shows "wf_tree (ins_node v p nm k m)" (is "wf_tree ?w")
proof (rule wf_treeI)
  note node = fnode_ins_node [OF _ p]
  show "n_parent (fnode ?w 0) = None" using wf_treeD(2,3) [OF wf] by (simp add: node)
  show "\<exists>k. at_depth ?w i k" if "i < fsize ?w" for i
  proof (cases "i < fsize v")
    case True
    then show ?thesis using wf_treeD(4) [OF wf] at_depth_ins_node [OF p] by blast
  next
    case False
    obtain d where "at_depth ?w p d" using wf_treeD(4) [OF wf p] at_depth_ins_node [OF p] by blast
    then have "at_depth ?w i (Suc d)"
      using False that p by (intro at_depth.at_below [of i ?w p d]) (auto simp: node)
    then show ?thesis by blast
  qed
  show "i = 0" if "i < fsize ?w" "n_parent (fnode ?w i) = None" for i
    using that wf_treeD(5) [OF wf] p by (cases "i < fsize v") (auto simp: node split: if_splits)
  show "bt_ok ch" if "i < fsize ?w" "n_kind (fnode ?w i) = Directory ch" for i ch
    using that k p wf_treeD(6) [OF wf]
    by (cases "i < fsize v")
      (auto simp: node fresh_kind_def link_child_def bt_ok_insert bt.ok_empty less_Suc_eq split: if_splits node_kind.splits)
  show "c < fsize ?w \<and> n_parent (fnode ?w c) = Some d \<and> n_name (fnode ?w c) = nm'"
    if "has_child ?w d nm' c" for d nm' c
    using that wf_treeD(7-9) [OF wf, of d nm' c] p
    unfolding has_child_ins_node [OF wf p k] by (auto simp: node less_Suc_eq split: if_splits)
qed (use wf_treeD [OF wf] in simp_all)

lemma reachable_ins_node:
  assumes wf: "wf_tree v" and p: "p < fsize v" and k: "fresh_kind k"
    and "reachable (ins_node v p nm k m) i"
  shows "reachable v i \<or> i = fsize v \<and> reachable v p"
  using assms(4)
proof (induction rule: reachable.induct)
  case reach_root
  show ?case using reachable.reach_root [of v] by simp
next
  case (reach_child d nm' c)
  from reach_child.hyps(2) have "d = p \<and> c = fsize v \<or> has_child v d nm' c"
    by (auto simp: has_child_ins_node [OF wf p k] split: if_splits)
  then show ?case
    using reach_child.IH p reachable.reach_child by (auto simp: has_child_def)
qed

lemma wf_ins_node:
  assumes wf: "wf_vfs v" and p: "p < fsize v" and k: "fresh_kind k"
    and full: "\<not> is_full v p"
    and bytes: "stored_bytes v + file_len \<lparr>n_name = nm, n_parent = Some p, n_kind = k, n_meta = m\<rparr> \<le> cb"
      "cb \<le> MAX_VFS_BYTES"
  shows "wf_vfs ((ins_node v p nm k m)\<lparr>content_bytes := cb\<rparr>)" (is "wf_vfs (?w\<lparr>content_bytes := cb\<rparr>)")
proof -
  have wft: "wf_tree v" and wfc: "wf_caps v" using wf by auto
  have tw: "wf_tree ?w" using wf_tree_ins_node [OF wft p k] .
  obtain dp where dp: "at_depth v p dp" using wf_treeD(4) [OF wft p] by blast
  have new: "at_depth ?w (fsize v) (Suc dp)"
    using at_depth_ins_node [OF p dp] p
    by (intro at_depth.at_below [of _ ?w p dp]) (auto simp: fnode_ins_node [OF _ p])
  have "d \<le> MAX_VFS_DEPTH" if "reachable ?w i" "at_depth ?w i d" for i d
  proof (cases "i = fsize v")
    case True
    with that new have "d = Suc dp" using at_depth_unique by blast
    then show ?thesis using full depth_of_correct [OF dp] by (simp add: is_full_def)
  next
    case False
    with reachable_ins_node [OF wft p k that(1)] have r: "reachable v i" by blast
    from that(2) False have "i < fsize v" using at_depth_range by fastforce
    then obtain d' where "at_depth v i d'" using wf_treeD(4) [OF wft] by blast
    moreover from this have "d = d'"
      using at_depth_ins_node [OF p] that(2) at_depth_unique by blast
    ultimately show ?thesis using r wfc by (simp add: wf_caps_def)
  qed
  moreover have "fsize ?w \<le> MAX_VFS_NODES" using full by (simp add: is_full_def)
  ultimately have "wf_caps (?w\<lparr>content_bytes := cb\<rparr>)"
    using bytes stored_bytes_ins_node [OF p, of nm k m] by (simp add: wf_caps_vfs_cong)
  moreover have "wf_tree (?w\<lparr>content_bytes := cb\<rparr>)" using tw by (simp add: wf_tree_vfs_cong)
  ultimately show ?thesis by (rule wf_vfsI [rotated])
qed

section \<open>Operations that may add a node\<close>

text \<open>What a caller gets back: a well-formed arena no smaller than before, and an id inside it.\<close>

definition good_result :: "vfs \<Rightarrow> node_id \<times> vfs \<Rightarrow> bool" where
  "good_result v r \<longleftrightarrow> wf_vfs (snd r) \<and> fst r < fsize (snd r) \<and> fsize v \<le> fsize (snd r)"

lemma good_resultD [dest]:
  "good_result v r \<Longrightarrow> wf_vfs (snd r)" "good_result v r \<Longrightarrow> fst r < fsize (snd r)"
  "good_result v r \<Longrightarrow> fsize v \<le> fsize (snd r)"
  by (simp_all add: good_result_def)

lemma good_result_same: "wf_vfs v \<Longrightarrow> i < fsize v \<Longrightarrow> good_result v (i, v)"
  by (simp add: good_result_def)

lemma child_has_child:
  "wf_tree v \<Longrightarrow> p < fsize v \<Longrightarrow> child v p nm = Some c \<longleftrightarrow> has_child v p nm c"
  using wf_treeD(6) [of v p]
  by (auto simp: child_def has_child_def bt.get_entries split: node_kind.splits)

lemma child_range: "wf_vfs v \<Longrightarrow> p < fsize v \<Longrightarrow> child v p nm = Some c \<Longrightarrow> c < fsize v"
  using wf_treeD(7) child_has_child by (metis wf_vfsD(1))

lemma entries_range:
  "wf_vfs v \<Longrightarrow> d < fsize v \<Longrightarrow> entries v d = Some es \<Longrightarrow> (nm, c) \<in> set es \<Longrightarrow> c < fsize v"
  using wf_treeD(7) [of v d nm c] by (auto simp: entries_def has_child_def split: node_kind.splits)

lemma good_insert:
  assumes "wf_vfs v" "p < fsize v" "fresh_kind k" and "\<And>c. k \<noteq> File c"
  shows "good_result v (vfs_insert v p nm k m)"
proof (cases "is_full v p")
  case False
  have "wf_vfs ((ins_node v p nm k m)\<lparr>content_bytes := content_bytes v\<rparr>)"
    using assms False
    by (intro wf_ins_node) (auto simp: file_len_def wf_vfs_def wf_caps_def split: node_kind.splits)
  moreover have "(ins_node v p nm k m)\<lparr>content_bytes := content_bytes v\<rparr> = ins_node v p nm k m"
    by (simp add: ins_node_def upd_node_def)
  ultimately show ?thesis using False by (simp add: vfs_insert_eq good_result_def)
qed (use assms in \<open>simp add: vfs_insert_eq good_result_same\<close>)

lemma good_mkdir: "wf_vfs v \<Longrightarrow> p < fsize v \<Longrightarrow> good_result v (mkdir now v p nm perms u g)"
  using child_range good_result_same
  by (auto simp: mkdir_def good_insert split: option.splits)

lemma good_add_symlink: "wf_vfs v \<Longrightarrow> p < fsize v \<Longrightarrow> good_result v (add_symlink now v p nm t)"
  using child_range good_result_same
  by (auto simp: add_symlink_def good_insert split: option.splits)

text \<open>Replacing the payload of an existing entry in place.\<close>

lemma wf_overwrite:
  assumes "wf_vfs v" "i < fsize v" and "\<And>ch. k \<noteq> Directory ch"
    and "stored_bytes v + (case k of File c \<Rightarrow> length c | _ \<Rightarrow> 0) \<le> cb + file_len (fnode v i)"
    and "cb \<le> MAX_VFS_BYTES"
  shows "wf_vfs ((upd_node v i (\<lambda>n. n\<lparr>n_kind := k, n_meta := m\<rparr>))\<lparr>content_bytes := cb\<rparr>)"
  using assms by (intro wf_upd_node) (auto simp: file_len_def split: node_kind.splits)

lemma good_add_dynamic_file:
  assumes "wf_vfs v" "p < fsize v"
  shows "good_result v (add_dynamic_file now v p nm gen perms u g)"
proof (cases "child v p nm")
  case None
  then show ?thesis using assms by (simp add: add_dynamic_file_def good_insert)
next
  case (Some i)
  let ?w = "upd_node v i (\<lambda>n. n\<lparr>n_kind := DynamicFile gen, n_meta := metadata_new now S_IFREG perms u g\<rparr>)"
  have i: "i < fsize v" using child_range [OF assms Some] .
  have "wf_vfs (?w\<lparr>content_bytes := content_bytes v\<rparr>)"
    using assms i by (intro wf_overwrite) (auto simp: wf_vfs_def wf_caps_def)
  moreover have "?w\<lparr>content_bytes := content_bytes v\<rparr> = ?w" by (simp add: upd_node_def)
  ultimately show ?thesis using Some i by (simp add: add_dynamic_file_def good_result_def)
qed

lemma good_add_file:
  assumes "wf_vfs v" "p < fsize v"
  shows "good_result v (add_file now v p nm c perms u g)"
proof -
  have caps: "stored_bytes v \<le> content_bytes v" using assms(1) by (simp add: wf_vfs_def wf_caps_def)
  show ?thesis
  proof (cases "child v p nm")
    case (Some i)
    have i: "i < fsize v" using child_range [OF assms Some] .
    then have "file_len (fnode v i) \<le> content_bytes v" using file_len_le_stored caps le_trans by blast
    then show ?thesis
      using Some i caps assms(1)
      by (auto simp: add_file_def Let_def good_result_def intro!: wf_overwrite)
  next
    case None
    show ?thesis
    proof (cases "is_full v p \<or> content_bytes v + length c > MAX_VFS_BYTES")
      case True
      then show ?thesis
        using None assms by (auto simp: add_file_def Let_def vfs_insert_eq good_result_same)
    next
      case False
      then have "wf_vfs ((ins_node v p nm (File c) (metadata_new now S_IFREG perms u g))
          \<lparr>content_bytes := content_bytes v + length c\<rparr>)"
        using assms caps by (intro wf_ins_node) (auto simp: file_len_def)
      then show ?thesis
        using None False assms(2) by (auto simp: add_file_def Let_def vfs_insert_eq good_result_def)
    qed
  qed
qed

lemma good_touch:
  assumes "wf_vfs v" "p < fsize v"
  shows "good_result v (touch now v p nm u g)"
proof (cases "child v p nm")
  case (Some i)
  then show ?thesis
    using assms child_range [OF assms Some] wf_set_mtime
    by (simp add: touch_def good_result_def set_mtime_def)
next
  case None
  obtain i w where r: "add_file now v p nm [] o644 u g = (i, w)" by fastforce
  then have "good_result v (i, w)" using good_add_file [OF assms, of now nm "[]" o644 u g] by simp
  then show ?thesis
    using None r wf_set_mtime by (auto simp: touch_def good_result_def set_mtime_def)
qed

lemma wf_mkdir_p_loop:
  "wf_vfs v \<Longrightarrow> i < fsize v \<Longrightarrow>
     wf_vfs (snd (mkdir_p_loop now v i segs perms u g))
     \<and> fsize v \<le> fsize (snd (mkdir_p_loop now v i segs perms u g))
     \<and> (\<forall>j. fst (mkdir_p_loop now v i segs perms u g) = Some j
          \<longrightarrow> j < fsize (snd (mkdir_p_loop now v i segs perms u g)))"
proof (induction segs arbitrary: v i)
  case (Cons seg segs)
  obtain j w where r: "mkdir now v i seg perms u g = (j, w)" by fastforce
  have "good_result v (j, w)" using good_mkdir [OF Cons.prems, of now seg perms u g] r by simp
  then have "wf_vfs w" "j < fsize w" "fsize v \<le> fsize w" by (auto simp: good_result_def)
  with Cons r show ?case by (auto intro: le_trans)
qed simp

lemma wf_mkdir_p [wf_intros]: "wf_vfs v \<Longrightarrow> wf_vfs (snd (mkdir_p now v path perms u g))"
  using wf_mkdir_p_loop [of v "fs_root v"] wf_treeD(1,2) by (auto simp: mkdir_p_def)

lemma good_deep_copy_inner:
  "wf_vfs v \<Longrightarrow> src < fsize v \<Longrightarrow> dst < fsize v \<Longrightarrow>
     good_result v (deep_copy_inner now v src dst nm depth)"
proof (induction "Suc MAX_COPY_DEPTH - depth" arbitrary: v src dst nm depth rule: less_induct)
  case less
  show ?case
  proof (cases "depth > MAX_COPY_DEPTH")
    case True
    then show ?thesis
      using less.prems by (subst deep_copy_inner.simps) (simp add: good_result_same)
  next
    case False
    show ?thesis
    proof (cases "n_kind (fnode v src)")
      case (Directory ch)
      let ?m = "n_meta (fnode v src)"
      obtain d w where mk: "mkdir now v dst nm (m_mode ?m AND o7777) (m_uid ?m) (m_gid ?m) = (d, w)"
        by fastforce
      have w: "wf_vfs w" "d < fsize w" "fsize v \<le> fsize w"
        using good_mkdir [OF less.prems(1,3), of now nm "m_mode ?m AND o7777" "m_uid ?m" "m_gid ?m"] mk
        by (auto simp: good_result_def)
      define es where "es = (case entries w src of Some es \<Rightarrow> es | None \<Rightarrow> [])"
      have "src < fsize w" using less.prems(2) w(3) by simp
      from entries_range [OF w(1) this] have es: "\<And>e. e \<in> set es \<Longrightarrow> snd e < fsize w"
        by (cases "entries w src") (auto simp: es_def)
      define f where "f = (\<lambda>(n, c) x. snd (deep_copy_inner now x c d n (depth + 1)))"
      have "wf_vfs (fold f es w) \<and> fsize w \<le> fsize (fold f es w)"
      proof (rule fold_invariant [where Q = "\<lambda>e. snd e < fsize w"])
        fix e :: "str \<times> node_id" and x assume "snd e < fsize w" "wf_vfs x \<and> fsize w \<le> fsize x"
        then have "good_result x (deep_copy_inner now x (snd e) d (fst e) (depth + 1))"
          using w(2) False by (intro less.hyps) auto
        then show "wf_vfs (f e x) \<and> fsize w \<le> fsize (f e x)"
          using \<open>wf_vfs x \<and> fsize w \<le> fsize x\<close> by (auto simp: f_def good_result_def split: prod.splits)
      qed (use es w in auto)
      then show ?thesis
        using False Directory mk w es_def f_def
        by (subst deep_copy_inner.simps) (simp add: Let_def good_result_def)
    next
      case (File c)
      then show ?thesis
        using less.prems False by (subst deep_copy_inner.simps) (simp add: Let_def good_add_file)
    next
      case (Symlink t)
      have "good_result (snd (unlink v dst nm)) (vfs_insert (snd (unlink v dst nm)) dst nm (Symlink t) m)" for m
        using less.prems wf_unlink by (intro good_insert) (auto simp: unlink_def)
      then show ?thesis
        using Symlink False
        by (subst deep_copy_inner.simps) (simp add: Let_def good_result_def unlink_def)
    next
      case (DynamicFile gen)
      then show ?thesis
        using less.prems False
        by (subst deep_copy_inner.simps) (simp add: Let_def good_add_dynamic_file)
    qed
  qed
qed

section \<open>Rename\<close>

text \<open>
  The guards of \<open>rename\<close> as one assumption: the target is a directory of the arena outside
  the moved subtree. Under it the moved node has a parent, and \<open>relink\<close> changes exactly one
  parent link and at most two directories.
\<close>

lemma root_anc:
  assumes "wf_tree v" "at_depth v x k"
  shows "anc v 0 x"
  using assms(2)
proof (induction rule: at_depth.induct)
  case (at_root x)
  then show ?case using wf_treeD(5) [OF assms(1)] anc.anc_refl by blast
qed (auto intro: anc.intros)

definition may_move :: "vfs \<Rightarrow> node_id \<Rightarrow> node_id \<Rightarrow> bool" where
  "may_move v i np \<longleftrightarrow> wf_tree v \<and> i < fsize v \<and> np < fsize v
     \<and> (\<exists>ch. n_kind (fnode v np) = Directory ch) \<and> \<not> anc v i np"

lemma may_moveD:
  assumes "may_move v i np"
  shows "wf_tree v" "i < fsize v" "np < fsize v" "\<not> anc v i np" "np \<noteq> i" "i \<noteq> 0"
    and "\<exists>ch. n_kind (fnode v np) = Directory ch"
    and "\<exists>old. n_parent (fnode v i) = Some old \<and> old < fsize v"
proof -
  show wf: "wf_tree v" "i < fsize v" "np < fsize v" "\<not> anc v i np"
    and "\<exists>ch. n_kind (fnode v np) = Directory ch"
    using assms by (auto simp: may_move_def)
  show "np \<noteq> i" using wf(4) anc.anc_refl by blast
  show "i \<noteq> 0" using root_anc [OF wf(1)] wf_treeD(4) [OF wf(1,3)] wf(4) by metis
  then obtain old where old: "n_parent (fnode v i) = Some old" using wf_treeD(5) [OF wf(1,2)] by blast
  obtain k where "at_depth v i k" using wf_treeD(4) wf by blast
  from this old have "old < fsize v" by cases (auto dest: at_depth_range)
  with old show "\<exists>old. n_parent (fnode v i) = Some old \<and> old < fsize v" by blast
qed

lemma relink_simps [simp]:
  "fsize (relink v i np nm) = fsize v" "fs_root (relink v i np nm) = fs_root v"
  "content_bytes (relink v i np nm) = content_bytes v"
  by (simp_all add: relink_def Let_def split: option.splits)

lemma relink_up:
  assumes "may_move v i np"
  shows "n_parent (fnode (relink v i np nm) j) = (if j = i then Some np else n_parent (fnode v j))"
    and "n_name (fnode (relink v i np nm) j) = (if j = i then nm else n_name (fnode v j))"
  using may_moveD [OF assms] by (auto simp: relink_def Let_def fnode_upd_node)

lemma relink_kind:
  assumes "may_move v i np" "n_parent (fnode v i) = Some old" "n_kind (fnode v np) = Directory ch"
  shows "n_kind (fnode (relink v i np nm) np) =
       Directory (bt_insert nm i (bt_remove nm
         (if old = np then bt_remove (n_name (fnode v i)) ch else ch)))"
    and "j \<noteq> np \<Longrightarrow> n_kind (fnode (relink v i np nm) j) =
       (if j = old then n_kind (unlink_child (n_name (fnode v i)) (fnode v old)) else n_kind (fnode v j))"
  using may_moveD [OF assms(1)] assms(2,3)
  by (auto simp: relink_def Let_def fnode_upd_node unlink_child_def link_child_def split: node_kind.splits)

lemma bt_ok_relink:
  assumes "may_move v i np" "j < fsize v" "n_kind (fnode (relink v i np nm) j) = Directory ch"
  shows "bt_ok ch"
proof -
  note m = may_moveD [OF assms(1)]
  obtain old ch0 where o: "n_parent (fnode v i) = Some old" "old < fsize v" "n_kind (fnode v np) = Directory ch0"
    using m by blast
  then have ch0: "bt_ok ch0" using wf_treeD(6) m by blast
  show ?thesis
  proof (cases "j = np")
    case True
    then show ?thesis
      using assms(3) relink_kind(1) [OF assms(1) o(1,3), of nm] ch0
      by (auto simp: bt_ok_insert bt_ok_remove)
  next
    case False
    then show ?thesis
      using assms(2,3) relink_kind(2) [OF assms(1) o(1,3) False, of nm] wf_treeD(6) [OF m(1)] o(2)
      by (auto simp: unlink_child_def bt_ok_remove split: if_splits node_kind.splits)
  qed
qed

lemma has_child_relink:
  assumes "may_move v i np"
  shows "has_child (relink v i np nm) d nm' c \<Longrightarrow>
     d = np \<and> nm' = nm \<and> c = i \<or> has_child v d nm' c \<and> c \<noteq> i" (is "?hc \<Longrightarrow> ?goal")
proof -
  assume h: ?hc
  note m = may_moveD [OF assms]
  obtain old ch0 where o: "n_parent (fnode v i) = Some old" "old < fsize v" "n_kind (fnode v np) = Directory ch0"
    using m by blast
  have ch0: "bt_ok ch0" using wf_treeD(6) m o by blast
  have only: "d = old \<and> nm' = n_name (fnode v i)" if "has_child v d nm' i"
    using wf_treeD(8,9) [OF m(1) that] o(1) by simp
  show ?goal
  proof (cases "d = np")
    case True
    then have "nm' = nm \<and> c = i \<or> has_child v np nm' c \<and> (old = np \<longrightarrow> nm' \<noteq> n_name (fnode v i))"
      using h relink_kind(1) [OF assms o(1,3), of nm] ch0 o(3)
      by (auto simp: has_child_def bt.entries_ins bt.entries_del bt_ok_remove split: if_splits)
    then show ?thesis using True only by blast
  next
    case False
    then have "has_child v d nm' c \<and> (d = old \<longrightarrow> nm' \<noteq> n_name (fnode v i))"
      using h relink_kind(2) [OF assms o(1,3) False, of nm] wf_treeD(6) [OF m(1)]
      by (auto simp: has_child_def unlink_child_def bt.entries_del split: if_splits node_kind.splits)
    then show ?thesis using only by blast
  qed
qed

lemma has_child_relink_new:
  assumes "may_move v i np"
  shows "has_child (relink v i np nm) np nm i"
proof -
  obtain old ch0 where o: "n_parent (fnode v i) = Some old" "n_kind (fnode v np) = Directory ch0"
    using may_moveD [OF assms] by blast
  then have "bt_ok ch0" using may_moveD [OF assms] wf_treeD(6) by blast
  then show ?thesis
    using relink_kind(1) [OF assms o, of nm] may_moveD(3) [OF assms]
    by (auto simp: has_child_def bt.entries_ins bt_ok_remove)
qed

lemma at_depth_relink:
  assumes m: "may_move v i np" and np: "at_depth v np kp" and "at_depth v x k"
  shows "(\<not> anc v i x \<longrightarrow> at_depth (relink v i np nm) x k)
     \<and> (anc v i x \<longrightarrow> (\<exists>k'. at_depth (relink v i np nm) x k'))" (is "(_ \<longrightarrow> at_depth ?w x k) \<and> _")
proof -
  note up = relink_up(1) [OF m, of nm]
  have out: "\<not> anc v i x \<longrightarrow> at_depth ?w x k" if "at_depth v x k" for x k
    using that
  proof (induction rule: at_depth.induct)
    case (at_root x)
    then show ?case using up [of x] anc.anc_refl [of v i] by (auto intro!: at_depth.at_root)
  next
    case (at_below x p k)
    show ?case
    proof
      assume "\<not> anc v i x"
      then have "x \<noteq> i" "\<not> anc v i p" using at_below.hyps anc.intros by blast+
      then show "at_depth ?w x (Suc k)"
        using at_below up [of x] by (intro at_depth.at_below [of x ?w p k]) auto
    qed
  qed
  have i: "at_depth ?w i (Suc kp)"
    using out [OF np] may_moveD [OF m] up by (intro at_depth.at_below [of i ?w np kp]) auto
  have "anc v i x \<longrightarrow> (\<exists>k'. at_depth ?w x k')"
    using assms(3)
  proof (induction rule: at_depth.induct)
    case (at_root x)
    then show ?case using i anc_iff [of v i x] by auto
  next
    case (at_below x p k)
    show ?case
    proof (cases "x = i")
      case True
      then show ?thesis using i by blast
    next
      case False
      then show ?thesis
        using at_below up [of x] anc_parent [of v i x p]
        by (metis at_depth.at_below relink_simps(1))
    qed
  qed
  with out [OF assms(3)] show ?thesis by blast
qed

lemma wf_tree_relink:
  assumes m: "may_move v i np"
  shows "wf_tree (relink v i np nm)" (is "wf_tree ?w")
proof (rule wf_treeI)
  note wf = may_moveD [OF m]
  obtain kp where kp: "at_depth v np kp" using wf_treeD(4) wf by blast
  show "\<exists>k. at_depth ?w x k" if "x < fsize ?w" for x
    using at_depth_relink [OF m kp] wf_treeD(4) [OF wf(1), of x] that by (metis relink_simps(1))
  show "n_parent (fnode ?w 0) = None" using relink_up(1) [OF m] wf wf_treeD(3) by simp
  show "x = 0" if "x < fsize ?w" "n_parent (fnode ?w x) = None" for x
    using that relink_up(1) [OF m, of nm x] wf_treeD(5) [OF wf(1)] by (auto split: if_splits)
  show "c < fsize ?w \<and> n_parent (fnode ?w c) = Some d \<and> n_name (fnode ?w c) = nm'"
    if "has_child ?w d nm' c" for d nm' c
    using has_child_relink [OF m that] relink_up [OF m, of nm c] wf wf_treeD(7-9) [OF wf(1), of d nm' c]
    by auto
qed (use bt_ok_relink [OF m] wf_treeD [OF may_moveD(1) [OF m]] in simp_all)

lemma no_anc_parent:
  assumes "wf_tree v" "n_parent (fnode v i) = Some p" "i < fsize v"
  shows "\<not> anc v i p"
proof
  assume a: "anc v i p"
  have shallower: "anc v i x \<Longrightarrow> at_depth v x k \<Longrightarrow> at_depth v i j \<Longrightarrow> j \<le> k" for x k j
  proof (induction arbitrary: k rule: anc.induct)
    case anc_refl
    then show ?case using at_depth_unique by blast
  next
    case (anc_step x p)
    from anc_step.prems(1) anc_step.hyps(1) obtain k' where "k = Suc k'" "at_depth v p k'" by cases auto
    then show ?case using anc_step.IH anc_step.prems(2) by fastforce
  qed
  obtain k where k: "at_depth v i k" using wf_treeD(4) assms by blast
  from k assms(2) obtain k' where "k = Suc k'" "at_depth v p k'" by cases auto
  with shallower [OF a] k show False by fastforce
qed

lemma reachable_relink:
  assumes m: "may_move v i np" and "reachable (relink v i np nm) x"
  shows "reachable v x \<and> \<not> anc v i x \<or> (\<exists>h. desc v i x h)"
  using assms(2)
proof (induction rule: reachable.induct)
  case reach_root
  have "\<not> anc v i 0" using may_moveD [OF m] wf_treeD(3) by (subst anc_iff) auto
  then show ?case using reachable.reach_root [of v] wf_treeD(1) may_moveD(1) [OF m] by simp
next
  case (reach_child d nm' c)
  from has_child_relink [OF m reach_child.hyps(2)]
  show ?case
  proof
    assume "d = np \<and> nm' = nm \<and> c = i"
    then show ?thesis using desc.desc_refl by blast
  next
    assume c: "has_child v d nm' c \<and> c \<noteq> i"
    then have "anc v i c \<Longrightarrow> anc v i d"
      using anc_parent wf_treeD(8) may_moveD(1) [OF m] by blast
    then show ?thesis
      using reach_child.IH c reachable.reach_child desc_snoc by blast
  qed
qed

lemma at_depth_relink_desc:
  assumes m: "may_move v i np" and kp: "at_depth v np kp" and "desc v i x h"
  shows "at_depth (relink v i np nm) x (Suc kp + h)" (is "at_depth ?w _ _")
proof -
  note wf = may_moveD [OF m]
  have "at_depth ?w a k \<Longrightarrow> desc v a x h \<Longrightarrow> anc v i a \<Longrightarrow> at_depth ?w x (k + h)" for a k x h
  proof (induction h arbitrary: a k)
    case 0
    then show ?case by (auto elim: desc.cases)
  next
    case (Suc h)
    from Suc.prems(2) obtain nm' c where c: "has_child v a nm' c" "desc v c x h"
      by (cases rule: desc.cases) auto
    then have up: "n_parent (fnode v c) = Some a" "c < fsize v" using wf_treeD(7,8) wf(1) by blast+
    have "c \<noteq> i"
    proof
      assume "c = i"
      moreover obtain ka where "at_depth v a ka" using wf_treeD(4) [OF wf(1)] c by (auto simp: has_child_def)
      ultimately show False using Suc.prems(3) up no_anc_parent [OF wf(1)] by blast
    qed
    then have "at_depth ?w c (Suc k)"
      using Suc.prems(1) up relink_up(1) [OF m] by (intro at_depth.at_below [of c ?w a k]) auto
    with Suc.IH c(2) Suc.prems(3) up show ?case by (metis add_Suc_shift anc.anc_step)
  qed
  moreover have "at_depth ?w i (Suc kp)"
    using at_depth_relink [OF m kp kp, of nm] wf relink_up(1) [OF m]
    by (intro at_depth.at_below [of i ?w np kp]) auto
  ultimately show ?thesis using assms(3) anc.anc_refl by blast
qed

lemma stored_bytes_relink:
  assumes m: "may_move v i np"
  shows "stored_bytes (relink v i np nm) = stored_bytes v"
proof -
  have same: "stored_bytes (upd_node x j f) = stored_bytes x"
    if "j < fsize x" "file_len (f (fnode x j)) = file_len (fnode x j)" for x j f
    using stored_bytes_upd [OF that(1), of f] that(2) by simp
  have "file_len (n\<lparr>n_name := a, n_parent := b\<rparr>) = file_len n" for n a b by (simp add: file_len_def)
  then show ?thesis using may_moveD [OF m] by (auto simp: relink_def Let_def same)
qed

lemma wf_relink:
  assumes wf: "wf_vfs v" and m: "may_move v i np" and h: "height_of v i = Some h"
    and cap: "depth_of v np + 1 + h \<le> MAX_VFS_DEPTH"
  shows "wf_vfs (relink v i np nm)" (is "wf_vfs ?w")
proof
  note mm = may_moveD [OF m]
  obtain kp where kp: "at_depth v np kp" using wf_treeD(4) mm by blast
  show "wf_tree ?w" using wf_tree_relink [OF m] .
  have "k \<le> MAX_VFS_DEPTH" if r: "reachable ?w x" and k: "at_depth ?w x k" for x k
  proof -
    from reachable_relink [OF m r] consider "reachable v x" "\<not> anc v i x" | j where "desc v i x j" by blast
    then show ?thesis
    proof cases
      case 1
      have "x < fsize v" using k at_depth_range by fastforce
      then obtain k' where k': "at_depth v x k'" using wf_treeD(4) mm by blast
      then have "k = k'" using at_depth_relink [OF m kp k'] 1 k at_depth_unique by blast
      then show ?thesis using wf k' 1 by (auto simp: wf_vfs_def wf_caps_def)
    next
      case 2
      then have "j \<le> h" using height_of_max(1) [OF mm(1,2) h] by blast
      moreover have "k = Suc kp + j" using at_depth_relink_desc [OF m kp 2] k at_depth_unique by blast
      ultimately show ?thesis using cap depth_of_correct [OF kp] by simp
    qed
  qed
  then show "wf_caps ?w"
    using wf stored_bytes_relink [OF m] by (simp add: wf_caps_def wf_vfs_def)
qed

lemma rename_cases:
  assumes wf: "wf_vfs v" and "i < fsize v" "np < fsize v"
  obtains "rename v i np nm = Some (False, v)"
  | h where "rename v i np nm = Some (True, relink v i np nm)" "may_move v i np"
      "height_of v i = Some h" "depth_of v np + 1 + h \<le> MAX_VFS_DEPTH"
proof -
  have t: "wf_tree v" using wf by blast
  obtain h where h: "height_of v i = Some h" using height_of_terminates [OF t assms(2)] by blast
  obtain k where k: "at_depth v np k" using wf_treeD(4) [OF t assms(3)] by blast
  show ?thesis
  proof (cases "\<exists>ch. n_kind (fnode v np) = Directory ch")
    case True
    then have "may_move v i np \<longleftrightarrow> \<not> is_ancestor_of v i np"
      using t assms is_ancestor_of_correct [OF k assms(2)] by (auto simp: may_move_def)
    then show ?thesis
      using that True h
      by (cases "depth_of v np + 1 + h > MAX_VFS_DEPTH") (auto simp: rename_def not_less)
  next
    case False
    then show ?thesis using that by (auto simp: rename_def split: node_kind.splits)
  qed
qed

lemma wf_rename [wf_intros]:
  assumes "wf_vfs v" "i < fsize v" "np < fsize v" "rename v i np nm = Some (b, w)"
  shows "wf_vfs w"
  using assms(1,2,3)
proof (cases rule: rename_cases [where nm = nm])
  case (2 h)
  then show ?thesis using assms wf_relink by simp
qed (use assms in simp)

section \<open>The arena as a state machine\<close>

text \<open>
  One step is one call of a public mutator with ids of the arena, at any time of day.
  \<open>vfs_states\<close> are the states a sequence of calls reaches from the empty filesystem.
\<close>

inductive vfs_step :: "vfs \<Rightarrow> vfs \<Rightarrow> bool" where
  step_mkdir: "p < fsize v \<Longrightarrow> vfs_step v (snd (mkdir now v p nm perms u g))"
| step_add_file: "p < fsize v \<Longrightarrow> vfs_step v (snd (add_file now v p nm c perms u g))"
| step_add_dynamic_file: "p < fsize v \<Longrightarrow> vfs_step v (snd (add_dynamic_file now v p nm gen perms u g))"
| step_write_file: "i < fsize v \<Longrightarrow> vfs_step v (snd (write_file now v i bs app))"
| step_add_symlink: "p < fsize v \<Longrightarrow> vfs_step v (snd (add_symlink now v p nm t))"
| step_mkdir_p: "vfs_step v (snd (mkdir_p now v path perms u g))"
| step_touch: "p < fsize v \<Longrightarrow> vfs_step v (snd (touch now v p nm u g))"
| step_set_all_mtimes: "vfs_step v (set_all_mtimes v ts)"
| step_chmod: "i < fsize v \<Longrightarrow> vfs_step v (chmod v i perms)"
| step_chown: "i < fsize v \<Longrightarrow> vfs_step v (chown v i u g)"
| step_set_mtime: "i < fsize v \<Longrightarrow> vfs_step v (set_mtime v i ts)"
| step_unlink: "p < fsize v \<Longrightarrow> vfs_step v (snd (unlink v p nm))"
| step_rename: "i < fsize v \<Longrightarrow> p < fsize v \<Longrightarrow> rename v i p nm = Some (b, w) \<Longrightarrow> vfs_step v w"
| step_deep_copy: "src < fsize v \<Longrightarrow> dst < fsize v \<Longrightarrow> vfs_step v (snd (deep_copy now v src dst nm))"

inductive vfs_states :: "vfs \<Rightarrow> bool" where
  vfs_start: "vfs_states (vfs_new now)"
| vfs_next: "vfs_states v \<Longrightarrow> vfs_step v w \<Longrightarrow> vfs_states w"

lemma wf_vfs_new: "wf_vfs (vfs_new now)"
proof
  let ?v = "vfs_new now"
  have root: "at_depth ?v 0 0" by (rule at_depth.at_root) (simp_all add: vfs_new_def)
  have none: "\<not> has_child ?v d nm c" for d nm c
    by (cases d) (simp_all add: vfs_new_def has_child_def)
  show "wf_tree ?v"
    using root none by (intro wf_treeI) (auto simp: vfs_new_def bt.ok_empty)
  have "k = 0" if "at_depth ?v i k" for i k
    using at_depth_less [OF that] by (simp add: vfs_new_def)
  then show "wf_caps ?v"
    by (auto simp: wf_caps_def vfs_new_def stored_bytes_def file_len_def MAX_VFS_NODES_def
        MAX_VFS_BYTES_def MAX_VFS_DEPTH_def)
qed

lemma wf_vfs_step: "vfs_step v w \<Longrightarrow> wf_vfs v \<Longrightarrow> wf_vfs w"
  by (induction rule: vfs_step.induct)
    (auto intro: wf_intros simp: deep_copy_def
      dest: good_mkdir good_add_file good_add_dynamic_file good_add_symlink good_touch good_deep_copy_inner)

lemma vfs_states_wf: "vfs_states v \<Longrightarrow> wf_vfs v"
  by (induction rule: vfs_states.induct) (auto intro: wf_vfs_new wf_vfs_step)

end
