(* ===== verification/Vfs_Paths.thy ===== *)
theory Vfs_Paths
  imports Vfs_Ops
begin

text \<open>
  Laws of the virtual filesystem as its clients (shell commands, SCP, SFTP) use it: what a
  lookup returns after a creation or a removal (the locale \<open>directory\<close>, interpreted for
  \<open>mkdir\<close>, \<open>add_file\<close> and \<open>add_symlink\<close>), the round trip between \<open>path_of\<close> and \<open>resolve\<close>,
  and what is read back after a write.
\<close>

section \<open>Walking links\<close>

lemma follow_no_symlink: "(\<And>t. n_kind (fnode v i) \<noteq> Symlink t) \<Longrightarrow> follow v i depth = Some i"
  by (cases "n_kind (fnode v i)") auto

lemma follow_directory: "n_kind (fnode v i) = Directory ch \<Longrightarrow> follow v i depth = Some i"
  by (simp add: follow_no_symlink)

definition name_ok :: "str \<Rightarrow> bool" where
  "name_ok nm \<longleftrightarrow> nm \<noteq> [] \<and> nm \<noteq> ''.'' \<and> nm \<noteq> ''..'' \<and> CHR ''/'' \<notin> set nm"

definition names_ok :: "vfs \<Rightarrow> bool" where
  "names_ok v \<longleftrightarrow> (\<forall>i < fsize v. i \<noteq> 0 \<longrightarrow> name_ok (n_name (fnode v i)))"

lemma resolve_comps_child:
  assumes "wf_tree v" "has_child v d nm c" "name_ok nm"
  shows "resolve_comps v d (nm # segs) depth =
     (case follow v c depth of None \<Rightarrow> None | Some j \<Rightarrow> resolve_comps v j segs depth)"
proof -
  from assms(2) obtain ch where ch: "n_kind (fnode v d) = Directory ch" "(nm, c) \<in> set ch" "d < fsize v"
    by (auto simp: has_child_def split: node_kind.splits)
  then have "bt_get ch nm = Some c" using wf_treeD(6) [OF assms(1)] by (simp add: bt.get_entries)
  then show ?thesis using ch assms(3) by (simp add: name_ok_def)
qed

text \<open>The names on the way from the root to a linked node, and how a lookup walks them.\<close>

lemma reachable_walk:
  assumes wf: "wf_tree v" and names: "names_ok v" and "reachable v i"
  shows "\<exists>ns. (\<forall>fuel parts. depth_of v i \<le> fuel \<longrightarrow> path_loop v fuel i parts = parts @ rev ns)
     \<and> list_all name_ok ns \<and> (i \<noteq> 0 \<longrightarrow> ns \<noteq> [])
     \<and> (\<forall>segs. resolve_comps v 0 (ns @ segs) 0 =
          (case follow v i 0 of None \<Rightarrow> None | Some j \<Rightarrow> resolve_comps v j segs 0) \<or> i = 0 \<and> ns = [])"
  using assms(3)
proof (induction rule: reachable.induct)
  case reach_root
  have "path_loop v fuel 0 parts = parts" for fuel parts
    using wf_treeD(3) [OF wf] by (cases fuel) simp_all
  then show ?case using wf_treeD(1) [OF wf] by (intro exI [of _ "[]"]) simp
next
  case (reach_child d nm c)
  note c = wf_treeD(7-9) [OF wf reach_child.hyps(2)]
  from reach_child.IH obtain ns where ns:
    "\<And>fuel parts. depth_of v d \<le> fuel \<Longrightarrow> path_loop v fuel d parts = parts @ rev ns"
    "list_all name_ok ns" "d \<noteq> 0 \<Longrightarrow> ns \<noteq> []"
    "\<And>segs. resolve_comps v 0 (ns @ segs) 0 =
       (case follow v d 0 of None \<Rightarrow> None | Some j \<Rightarrow> resolve_comps v j segs 0) \<or> d = 0 \<and> ns = []"
    by blast
  obtain ch where dir: "n_kind (fnode v d) = Directory ch" "d < fsize v"
    using reach_child.hyps(2) by (auto simp: has_child_def split: node_kind.splits)
  obtain k where k: "at_depth v d k" using wf_treeD(4) [OF wf dir(2)] by blast
  then have "at_depth v c (Suc k)" using c by (blast intro: at_depth.at_below)
  then have depth: "depth_of v c = Suc (depth_of v d)" using k by (simp add: depth_of_correct)
  have "c \<noteq> 0" using c wf_treeD(3) [OF wf] by (metis option.distinct(1))
  then have ok: "name_ok nm" using names c by (auto simp: names_ok_def)
  have "path_loop v fuel c parts = parts @ rev (ns @ [nm])" if "depth_of v c \<le> fuel" for fuel parts
  proof -
    from that depth obtain m where "fuel = Suc m" "depth_of v d \<le> m" by (cases fuel) simp_all
    then show ?thesis using c ns(1) [of m "parts @ [nm]"] by simp
  qed
  moreover have "resolve_comps v 0 ((ns @ [nm]) @ segs) 0 =
      (case follow v c 0 of None \<Rightarrow> None | Some j \<Rightarrow> resolve_comps v j segs 0)" for segs
    using ns(4) [of "nm # segs"] resolve_comps_child [OF wf reach_child.hyps(2) ok, of segs 0]
      follow_directory [OF dir(1), of 0] by auto
  ultimately show ?case
    using ns(2) ok by (intro exI [of _ "ns @ [nm]"]) simp
qed

lemma resolve_path_of:
  assumes wf: "wf_tree v" and "names_ok v" "reachable v i" "i < fsize v"
  shows "resolve v start (path_of v i) = (if i = 0 then Some i else follow v i 0)"
proof -
  obtain ns where ns: "path_loop v (fsize v) i [] = rev ns" "list_all name_ok ns" "i \<noteq> 0 \<Longrightarrow> ns \<noteq> []"
    "\<And>segs. resolve_comps v 0 (ns @ segs) 0 =
       (case follow v i 0 of None \<Rightarrow> None | Some j \<Rightarrow> resolve_comps v j segs 0) \<or> i = 0 \<and> ns = []"
  proof -
    obtain k where "at_depth v i k" using wf_treeD(4) [OF wf assms(4)] by blast
    then have "depth_of v i \<le> fsize v" using depth_of_correct at_depth_less by fastforce
    then show ?thesis using reachable_walk [OF wf assms(2,3)] that by (metis append_Nil)
  qed
  show ?thesis
  proof (cases "ns = []")
    case True
    then have "path_of v i = ''/''" using ns(1) by (simp add: path_of_def)
    moreover have "i = 0" using ns(3) True by blast
    ultimately show ?thesis
      using wf_treeD(1) [OF wf] by (simp add: resolve_def starts_with_def MAX_SYMLINK_DEPTH_def)
  next
    case False
    have "starts_with (path_of v i) ''/''" using ns(1) False by (simp add: path_of_def starts_with_def)
    moreover have "split_on (CHR ''/'') (path_of v i) = [] # ns"
      using ns(1,2) False split_on_join [of ns "CHR ''/''"]
      by (simp add: path_of_def list_all_iff name_ok_def)
    moreover have "i \<noteq> 0"
    proof
      assume "i = 0"
      then have "path_loop v (fsize v) i [] = []" using wf_treeD(3) [OF wf] by (cases "fsize v") simp_all
      then show False using ns(1) False by simp
    qed
    ultimately show ?thesis
      using ns(4) [of "[]"] False wf_treeD(1) [OF wf]
      by (auto simp: resolve_def MAX_SYMLINK_DEPTH_def split: option.splits)
  qed
qed

section \<open>Creation and removal: the directory interface\<close>

text \<open>
  \<open>look s d n\<close> is the entry \<open>n\<close> of directory \<open>d\<close>, \<open>mk\<close> an operation that makes an entry
  (or returns the one that is there), \<open>rm\<close> the operation that detaches it. \<open>valid\<close> says that
  \<open>d\<close> belongs to the store, \<open>room\<close> that it is a directory in which the creation succeeds.
\<close>

locale directory =
  fixes look :: "'s \<Rightarrow> 'd \<Rightarrow> 'n \<Rightarrow> 'd option"
    and mk :: "'s \<Rightarrow> 'd \<Rightarrow> 'n \<Rightarrow> 'd \<times> 's"
    and rm :: "'s \<Rightarrow> 'd \<Rightarrow> 'n \<Rightarrow> 's"
    and valid :: "'s \<Rightarrow> 'd \<Rightarrow> bool"
    and room :: "'s \<Rightarrow> 'd \<Rightarrow> 'n \<Rightarrow> bool"
  assumes room_valid: "room s d n \<Longrightarrow> valid s d"
    and mk_valid: "room s d n \<Longrightarrow> valid s e \<Longrightarrow> valid (snd (mk s d n)) e"
    and mk_look: "room s d n \<Longrightarrow> look (snd (mk s d n)) d n = Some (fst (mk s d n))"
    and mk_frame: "room s d n \<Longrightarrow> valid s e \<Longrightarrow> (e, m) \<noteq> (d, n) \<Longrightarrow> look s d n \<noteq> Some e
       \<Longrightarrow> look (snd (mk s d n)) e m = look s e m"
    and mk_existing: "room s d n \<Longrightarrow> look s d n = Some i \<Longrightarrow> fst (mk s d n) = i"
    and rm_look: "valid s d \<Longrightarrow> look (rm s d n) d n = None"
    and rm_frame: "valid s d \<Longrightarrow> (e, m) \<noteq> (d, n) \<Longrightarrow> look (rm s d n) e m = look s e m"
begin

lemma mk_then_rm:
  assumes "room s d n" "valid s e" "look s d n \<noteq> Some e"
  shows "look (rm (snd (mk s d n)) d n) e m = (if (e, m) = (d, n) then None else look s e m)"
  using assms mk_frame [OF assms(1,2) _ assms(3)] rm_look rm_frame mk_valid [OF assms(1)] room_valid
  by (metis (no_types, lifting) prod.inject)

lemma mk_idempotent:
  assumes "room s d n" "room (snd (mk s d n)) d n"
  shows "fst (mk (snd (mk s d n)) d n) = fst (mk s d n)"
  using assms mk_existing mk_look by blast

end

definition in_arena :: "vfs \<Rightarrow> node_id \<Rightarrow> bool" where
  "in_arena v d \<longleftrightarrow> wf_vfs v \<and> d < fsize v"

definition has_room :: "nat \<Rightarrow> vfs \<Rightarrow> node_id \<Rightarrow> str \<Rightarrow> bool" where
  "has_room extra v d nm \<longleftrightarrow> wf_vfs v \<and> d < fsize v \<and> (\<exists>ch. n_kind (fnode v d) = Directory ch)
     \<and> (child v d nm = None \<longrightarrow> \<not> is_full v d) \<and> content_bytes v + extra \<le> MAX_VFS_BYTES"

definition detach :: "vfs \<Rightarrow> node_id \<Rightarrow> str \<Rightarrow> vfs" where
  "detach v d nm = snd (unlink v d nm)"

lemma child_ins_node:
  assumes "wf_tree v" "p < fsize v" "n_kind (fnode v p) = Directory ch" "fresh_kind k" "e < fsize v"
  shows "child (ins_node v p nm k m) e nm' =
     (if e = p \<and> nm' = nm then Some (fsize v) else child v e nm')"
proof -
  have "child (ins_node v p nm k m) e nm' = Some c \<longleftrightarrow>
      (if e = p \<and> nm' = nm then Some (fsize v) else child v e nm') = Some c" for c
    using assms wf_tree_ins_node [OF assms(1,2,4)]
    by (auto simp: child_has_child has_child_ins_node)
  then show ?thesis by (metis not_Some_eq)
qed

lemma child_cb [simp]: "child (v\<lparr>content_bytes := cb\<rparr>) d nm = child v d nm"
  by (simp add: child_def)

lemma child_detach:
  "d < fsize v \<Longrightarrow> child (detach v d nm) e nm' = (if e = d \<and> nm' = nm then None else child v e nm')"
  by (auto simp: detach_def unlink_def child_def fnode_upd_node unlink_child_def bt_get_remove
      split: node_kind.splits)

interpretation mkdir_dir: directory child "\<lambda>v d nm. mkdir now v d nm perms u g" detach in_arena "has_room 0"
  for now perms u g
proof
  fix v d nm e nm' i
  assume room: "has_room 0 v d nm"
  then obtain ch where r: "wf_vfs v" "wf_tree v" "d < fsize v" "n_kind (fnode v d) = Directory ch"
    "child v d nm = None \<Longrightarrow> \<not> is_full v d"
    by (auto simp: has_room_def)
  show "in_arena v d" using r by (simp add: in_arena_def)
  show "in_arena (snd (mkdir now v d nm perms u g)) e" if "in_arena v e"
    using good_mkdir [OF r(1,3), of now nm perms u g] that by (auto simp: in_arena_def good_result_def)
  show "child (snd (mkdir now v d nm perms u g)) d nm = Some (fst (mkdir now v d nm perms u g))"
    using r by (cases "child v d nm") (simp_all add: mkdir_def vfs_insert_eq child_ins_node)
  show "child (snd (mkdir now v d nm perms u g)) e nm' = child v e nm'"
    if "in_arena v e" "(e, nm') \<noteq> (d, nm)"
    using r that by (cases "child v d nm") (auto simp: mkdir_def vfs_insert_eq child_ins_node in_arena_def)
  show "fst (mkdir now v d nm perms u g) = i" if "child v d nm = Some i"
    using that by (simp add: mkdir_def)
qed (auto simp: in_arena_def child_detach)

interpretation symlink_dir: directory child "\<lambda>v d nm. add_symlink now v d nm t" detach in_arena "has_room 0"
  for now t
proof
  fix v d nm e nm' i
  assume room: "has_room 0 v d nm"
  then obtain ch where r: "wf_vfs v" "wf_tree v" "d < fsize v" "n_kind (fnode v d) = Directory ch"
    "child v d nm = None \<Longrightarrow> \<not> is_full v d"
    by (auto simp: has_room_def)
  show "in_arena v d" using r by (simp add: in_arena_def)
  show "in_arena (snd (add_symlink now v d nm t)) e" if "in_arena v e"
    using good_add_symlink [OF r(1,3), of now nm t] that by (auto simp: in_arena_def good_result_def)
  show "child (snd (add_symlink now v d nm t)) d nm = Some (fst (add_symlink now v d nm t))"
    using r by (cases "child v d nm") (simp_all add: add_symlink_def vfs_insert_eq child_ins_node)
  show "child (snd (add_symlink now v d nm t)) e nm' = child v e nm'"
    if "in_arena v e" "(e, nm') \<noteq> (d, nm)"
    using r that
    by (cases "child v d nm") (auto simp: add_symlink_def vfs_insert_eq child_ins_node in_arena_def)
  show "fst (add_symlink now v d nm t) = i" if "child v d nm = Some i"
    using that by (simp add: add_symlink_def)
qed (auto simp: in_arena_def child_detach)

lemma add_file_room:
  assumes "has_room (length c) v d nm"
  shows "add_file now v d nm c perms u g =
     (let m = metadata_new now S_IFREG perms u g in
      case child v d nm of
        Some i \<Rightarrow> (i, (upd_node v i (\<lambda>n. n\<lparr>n_kind := File c, n_meta := m\<rparr>))
                \<lparr>content_bytes := content_bytes v - file_len (fnode v i) + length c\<rparr>)
      | None \<Rightarrow> (fsize v, (ins_node v d nm (File c) m)\<lparr>content_bytes := content_bytes v + length c\<rparr>))"
  using assms by (auto simp: add_file_def has_room_def vfs_insert_eq Let_def split: option.splits)

lemma child_overwrite:
  "i < fsize v \<Longrightarrow> e \<noteq> i \<Longrightarrow> child (upd_node v i f) e nm = child v e nm"
  by (simp add: child_def fnode_upd_node)

lemma child_not_self:
  assumes "wf_tree v" "d < fsize v" "child v d nm = Some i"
  shows "d \<noteq> i"
proof
  assume "d = i"
  with assms have p: "n_parent (fnode v i) = Some i" "i < fsize v"
    using child_has_child wf_treeD(8) by blast+
  then show False using no_anc_parent [OF assms(1) p] anc.anc_refl by blast
qed

interpretation file_dir: directory child "\<lambda>v d nm. add_file now v d nm c perms u g" detach in_arena
    "has_room (length c)"
  for now c perms u g
proof
  fix v d nm e nm' i
  assume room: "has_room (length c) v d nm"
  then obtain ch where r: "wf_vfs v" "wf_tree v" "d < fsize v" "n_kind (fnode v d) = Directory ch"
    "child v d nm = None \<Longrightarrow> \<not> is_full v d"
    by (auto simp: has_room_def)
  note af = add_file_room [OF room, of now perms u g]
  have range: "i < fsize v" "d \<noteq> i" if "child v d nm = Some i" for i
    using child_range [OF r(1,3) that] child_not_self [OF r(2,3) that] by auto
  show "in_arena v d" using r by (simp add: in_arena_def)
  show "in_arena (snd (add_file now v d nm c perms u g)) e" if "in_arena v e"
    using good_add_file [OF r(1,3), of now nm c perms u g] that by (auto simp: in_arena_def good_result_def)
  show "child (snd (add_file now v d nm c perms u g)) d nm = Some (fst (add_file now v d nm c perms u g))"
    using r range by (cases "child v d nm") (simp_all add: af child_ins_node child_overwrite)
  show "child (snd (add_file now v d nm c perms u g)) e nm' = child v e nm'"
    if "in_arena v e" "(e, nm') \<noteq> (d, nm)" "child v d nm \<noteq> Some e"
    using r range that
    by (cases "child v d nm") (auto simp: af child_ins_node child_overwrite in_arena_def)
  show "fst (add_file now v d nm c perms u g) = i" if "child v d nm = Some i"
    using that by (simp add: af)
qed (auto simp: in_arena_def child_detach)

end
