(* ===== verification/Completion.thy ===== *)
theory Completion
  imports Vfs_Paths Utf8_Chars
begin

text \<open>
  Tab completion (\<open>src/shell/complete.rs\<close>): candidates for the current word from the directories of
  the search path and the builtins, or from the directory the word names. Of the shell it reads
  the filesystem and the working directory.
\<close>

definition BUILTINS :: "str list" where
  "BUILTINS = [''cd'', ''export'', ''unset'', ''history'', ''exit'', ''logout'', ''alias'', ''source'']"

datatype completion =
    NoCompletion
  | Single str bool
  | Listing "str list"

section \<open>Longest common prefix\<close>

text \<open>\<open>while s[..end] != first[..end] \{ end -= 1 \}\<close>\<close>

fun lcp_back :: "str \<Rightarrow> str \<Rightarrow> nat \<Rightarrow> nat" where
  "lcp_back fst_s s 0 = 0"
| "lcp_back fst_s s (Suc n) = (if take (Suc n) s = take (Suc n) fst_s then Suc n else lcp_back fst_s s n)"

fun lcp_loop :: "str \<Rightarrow> nat \<Rightarrow> str list \<Rightarrow> nat" where
  "lcp_loop fst_s n [] = n"
| "lcp_loop fst_s n (s # ss) =
     (let m = lcp_back fst_s s (min n (length s)) in if m = 0 then 0 else lcp_loop fst_s m ss)"

text \<open>\<open>while end > 0 && !first.is_char_boundary(end) \{ end -= 1 \}\<close>\<close>

fun back_off :: "str \<Rightarrow> nat \<Rightarrow> nat" where
  "back_off s 0 = 0"
| "back_off s (Suc n) = (if boundary s (Suc n) then Suc n else back_off s n)"

definition longest_common_prefix :: "str list \<Rightarrow> str" where
  "longest_common_prefix items = (case items of
      [] \<Rightarrow> []
    | f # rest \<Rightarrow> take (back_off f (lcp_loop f (length f) rest)) f)"

section \<open>Candidates\<close>

definition resolve_dir :: "vfs \<Rightarrow> node_id \<Rightarrow> str \<Rightarrow> node_id option" where
  "resolve_dir v cwd dir_part =
     (case (if dir_part = [] then Some cwd else resolve v cwd dir_part) of
        None \<Rightarrow> None
      | Some i \<Rightarrow> if is_dir (n_meta (fnode v i)) then Some i else None)"

definition follow_is_dir :: "vfs \<Rightarrow> node_id \<Rightarrow> bool" where
  "follow_is_dir v i =
     (if is_symlink (n_meta (fnode v i)) then
        (case resolve v (fs_root v) (path_of v i) of
           Some target \<Rightarrow> is_dir (n_meta (fnode v target))
         | None \<Rightarrow> False)
      else is_dir (n_meta (fnode v i)))"

definition path_commands :: "vfs \<Rightarrow> str list" where
  "path_commands v = concat (map (\<lambda>dir.
     case resolve v (fs_root v) dir of
       None \<Rightarrow> []
     | Some i \<Rightarrow> (case entries v i of None \<Rightarrow> [] | Some es \<Rightarrow> map fst es)) [''/usr/bin'', ''/usr/sbin''])"

definition complete_command :: "vfs \<Rightarrow> str \<Rightarrow> completion" where
  "complete_command v word =
     (let names = remdups_adj (sort (filter (\<lambda>c. starts_with c word) (path_commands v @ BUILTINS))) in
      case names of
        [] \<Rightarrow> NoCompletion
      | [n] \<Rightarrow> Single n True
      | _ \<Rightarrow>
          (let lcp = longest_common_prefix names in
           if length lcp > length word then Single lcp False else Listing names))"

definition split_word :: "str \<Rightarrow> str \<times> str" where
  "split_word word = (case rfind (CHR ''/'') word of
      Some i \<Rightarrow> (take (i + 1) word, drop (i + 1) word)
    | None \<Rightarrow> ([], word))"

definition path_candidates :: "vfs \<Rightarrow> str \<Rightarrow> (str \<times> node_id) list \<Rightarrow> (str \<times> bool) list" where
  "path_candidates v base es =
     sort_key fst (map (\<lambda>(nm, i). (nm, follow_is_dir v i))
       (filter (\<lambda>(nm, _). starts_with base ''.'' \<or> \<not> starts_with nm ''.'')
         (filter (\<lambda>(nm, _). starts_with nm base) es)))"

definition complete_path :: "vfs \<Rightarrow> node_id \<Rightarrow> str \<Rightarrow> completion" where
  "complete_path v cwd word =
     (let (dir_part, base) = split_word word in
      case resolve_dir v cwd dir_part of
        None \<Rightarrow> NoCompletion
      | Some dir \<Rightarrow>
          (case entries v dir of
             None \<Rightarrow> NoCompletion
           | Some es \<Rightarrow>
               (let cands = path_candidates v base es in
                case cands of
                  [] \<Rightarrow> NoCompletion
                | [(nm, d)] \<Rightarrow> Single (dir_part @ nm @ (if d then ''/'' else [])) (\<not> d)
                | _ \<Rightarrow>
                    (let lcp = longest_common_prefix (map fst cands) in
                     if length lcp > length base then Single (dir_part @ lcp) False
                     else Listing (map (\<lambda>(n, d). if d then n @ ''/'' else n) cands)))))"

definition complete :: "vfs \<Rightarrow> node_id \<Rightarrow> str \<Rightarrow> bool \<Rightarrow> completion" where
  "complete v cwd word is_command =
     (if is_command \<and> CHR ''/'' \<notin> set word then complete_command v word else complete_path v cwd word)"

section \<open>Correctness of the common prefix\<close>

lemma lcp_back_props: "lcp_back f s n \<le> n \<and> take (lcp_back f s n) s = take (lcp_back f s n) f
    \<and> (\<forall>k. lcp_back f s n < k \<and> k \<le> n \<longrightarrow> take k s \<noteq> take k f)"
  by (induction n) (auto simp: le_Suc_eq)

lemma lcp_loop_props:
  "n \<le> length f \<Longrightarrow> lcp_loop f n ss \<le> n \<and> (\<forall>s\<in>set ss. take (lcp_loop f n ss) f = take (lcp_loop f n ss) s)
    \<and> (\<forall>k\<le>n. (\<forall>s\<in>set ss. k \<le> length s \<and> take k s = take k f) \<longrightarrow> k \<le> lcp_loop f n ss)"
proof (induction ss arbitrary: n)
  case (Cons s ss)
  let ?m = "lcp_back f s (min n (length s))"
  have m: "?m \<le> n" "?m \<le> length s" "take ?m s = take ?m f"
    and max: "k \<le> n \<Longrightarrow> k \<le> length s \<Longrightarrow> take k s = take k f \<Longrightarrow> k \<le> ?m" for k
    using lcp_back_props [of f s "min n (length s)"] by (auto simp: not_le [symmetric])
  show ?case
  proof (cases "?m = 0")
    case True
    then show ?thesis using max by (auto simp: Let_def)
  next
    case False
    let ?r = "lcp_loop f ?m ss"
    have IH: "?r \<le> ?m" "\<forall>s\<in>set ss. take ?r f = take ?r s"
      "\<forall>k\<le>?m. (\<forall>s\<in>set ss. k \<le> length s \<and> take k s = take k f) \<longrightarrow> k \<le> ?r"
      using Cons.IH [of ?m] m(1) Cons.prems by auto
    have "take ?r s = take ?r f" using m(3) IH(1) by (metis min.absorb1 take_take)
    then show ?thesis using IH m(1) False max by (auto simp: Let_def)
  qed
qed simp

lemma back_off_props: "back_off s n \<le> n \<and> boundary s (back_off s n)
    \<and> (\<forall>k\<le>n. boundary s k \<longrightarrow> k \<le> back_off s n)"
  by (induction n) (auto simp: le_Suc_eq boundary_def)

lemma lcp_prefix:
  assumes "s \<in> set items"
  shows "starts_with s (longest_common_prefix items)"
proof (cases items)
  case (Cons f rest)
  let ?n = "lcp_loop f (length f) rest" and ?k = "back_off f (lcp_loop f (length f) rest)"
  have k: "?k \<le> ?n" "?n \<le> length f" "\<forall>s\<in>set rest. take ?n f = take ?n s"
    using back_off_props [of f ?n] lcp_loop_props [of "length f" f rest] by auto
  have "take ?k s = take ?k f"
  proof (cases "s = f")
    case False
    then have "take ?n s = take ?n f" using k(3) assms Cons by auto
    then show ?thesis using k(1) by (metis min.absorb1 take_take)
  qed simp
  then show ?thesis using k(1,2) by (simp add: Cons longest_common_prefix_def starts_with_def)
qed (use assms in simp)

section \<open>Completion extends the word\<close>

lemma starts_with_longer:
  "starts_with s a \<Longrightarrow> starts_with s b \<Longrightarrow> length a \<le> length b \<Longrightarrow> starts_with b a"
  unfolding starts_with_def by (metis min.absorb1 take_take)

lemma starts_with_append: "starts_with (a @ b) (a @ c) \<longleftrightarrow> starts_with b c"
  by (simp add: starts_with_def)

lemma split_word_append: "split_word word = (d, b) \<Longrightarrow> word = d @ b"
  by (auto simp: split_word_def split: option.splits)

lemma lcp_extends:
  assumes "items \<noteq> []" "\<forall>s\<in>set items. starts_with s base" "length base \<le> length (longest_common_prefix items)"
  shows "starts_with (longest_common_prefix items) base"
  using assms lcp_prefix [of "hd items" items] starts_with_longer by (metis list.set_sel(1))

lemma path_candidates_set:
  "(nm, d) \<in> set (path_candidates v base es) \<longleftrightarrow>
     (\<exists>i. (nm, i) \<in> set es \<and> starts_with nm base \<and> d = follow_is_dir v i
       \<and> (starts_with base ''.'' \<or> \<not> starts_with nm ''.''))"
  by (force simp: path_candidates_def)

lemma complete_command_extends: "complete_command v word = Single r sp \<Longrightarrow> starts_with r word"
proof -
  assume c: "complete_command v word = Single r sp"
  define names where "names = remdups_adj (sort (filter (\<lambda>c. starts_with c word) (path_commands v @ BUILTINS)))"
  have all: "\<forall>n\<in>set names. starts_with n word" by (auto simp: names_def)
  have c': "(case names of [] \<Rightarrow> NoCompletion | [n] \<Rightarrow> Single n True
      | _ \<Rightarrow> (let lcp = longest_common_prefix names in
              if length lcp > length word then Single lcp False else Listing names)) = Single r sp"
    using c by (simp only: complete_command_def names_def Let_def)
  show ?thesis
  proof (cases names rule: remdups_adj.cases)
    case (3 m n ns)
    then show ?thesis using c' all lcp_extends [of names word] by (auto simp: Let_def split: if_splits)
  qed (use c' all in auto)
qed

lemma complete_path_extends: "complete_path v cwd word = Single r sp \<Longrightarrow> starts_with r word"
proof -
  assume c: "complete_path v cwd word = Single r sp"
  obtain d b where w: "split_word word = (d, b)" by (cases "split_word word")
  obtain dir es where e: "resolve_dir v cwd d = Some dir" "entries v dir = Some es"
    using c w by (auto simp: complete_path_def split: option.splits)
  define cs where "cs = path_candidates v b es"
  have all: "\<forall>n\<in>set (map fst cs). starts_with n b" by (auto simp: cs_def path_candidates_set)
  have "starts_with r (d @ b)"
  proof (cases cs rule: remdups_adj.cases)
    case 1
    then show ?thesis using c w e by (simp add: complete_path_def cs_def [symmetric])
  next
    case (2 x)
    then show ?thesis using c w e all
      by (cases x) (auto simp: complete_path_def cs_def [symmetric] starts_with_append starts_with_iff)
  next
    case (3 x y xs)
    then show ?thesis using c w e all lcp_extends [of "map fst cs" b]
      by (auto simp: complete_path_def cs_def [symmetric] Let_def starts_with_append split: if_splits prod.splits)
  qed
  then show ?thesis using split_word_append [OF w] by simp
qed

section \<open>Properties\<close>

definition one_file :: vfs where "one_file = snd (add_file 0 (vfs_new 0) 0 ''notes'' ''x'' o644 0 0)"

lemma one_file_completes: "complete_path one_file 0 ''no'' = Single ''notes'' True"
  by (simp add: complete_path_def split_word_def rfind_def resolve_dir_def one_file_def add_file_def vfs_new_def
      child_def vfs_insert_def is_full_def depth_of_def depth_loop.simps upd_node_def link_child_def metadata_new_def
      bt_get_def MAX_VFS_NODES_def MAX_VFS_DEPTH_def MAX_VFS_BYTES_def S_IFDIR_def S_IFREG_def S_IFMT_def is_dir_def
      is_symlink_def S_IFLNK_def entries_def path_candidates_def follow_is_dir_def starts_with_def Let_def)

text \<open>Completion never loses what was typed: a replacement always starts with the word it
  replaces, for commands and for paths, for a unique candidate and for a common prefix.\<close>

theorem complete_extends:
  assumes "complete v cwd word is_command = Single r sp"
  shows "\<exists>rest. r = word @ rest"
  using assms complete_command_extends [of v word r sp] complete_path_extends [of v cwd word r sp]
  by (auto simp: complete_def starts_with_iff split: if_splits)

theorem complete_extends_witness:
  "complete one_file 0 ''no'' False = Single ''notes'' True \<and> (\<exists>rest. ''notes'' = ''no'' @ rest)"
  using complete_extends [of one_file 0 "''no''" False "''notes''" True] one_file_completes by (simp add: complete_def)

text \<open>The longest common prefix is one, ends on a character boundary, and is the longest such:
  every candidate starts with it, it is valid UTF-8 when the first candidate is, and any common
  prefix of the candidates that ends on a character boundary is no longer.\<close>

theorem longest_common_prefix_correct:
  fixes rest :: "str list"
  assumes "utf8_valid f"
  defines "l \<equiv> longest_common_prefix (f # rest)"
  shows "(\<forall>s\<in>set (f # rest). \<exists>t. s = l @ t) \<and> utf8_valid l
    \<and> (\<forall>p. (\<forall>s\<in>set (f # rest). \<exists>t. s = p @ t) \<and> boundary f (length p) \<longrightarrow> length p \<le> length l)"
proof -
  let ?n = "lcp_loop f (length f) rest"
  have k: "back_off f ?n \<le> ?n" "?n \<le> length f" "boundary f (back_off f ?n)"
    "\<forall>k\<le>?n. boundary f k \<longrightarrow> k \<le> back_off f ?n"
    "\<forall>k\<le>length f. (\<forall>s\<in>set rest. k \<le> length s \<and> take k s = take k f) \<longrightarrow> k \<le> ?n"
    using back_off_props [of f ?n] lcp_loop_props [of "length f" f rest] by auto
  have l: "l = take (back_off f ?n) f" by (simp add: l_def longest_common_prefix_def)
  have "length p \<le> length l" if p: "\<forall>s\<in>set (f # rest). \<exists>t. s = p @ t" "boundary f (length p)" for p
  proof -
    have "length p \<le> length f" "\<forall>s\<in>set rest. length p \<le> length s \<and> take (length p) s = take (length p) f"
      using p(1) by fastforce+
    then have "length p \<le> back_off f ?n" using k(4,5) p(2) by blast
    then show ?thesis using k(1,2) by (simp add: l)
  qed
  moreover have "\<forall>s\<in>set (f # rest). \<exists>t. s = l @ t"
    using lcp_prefix [of _ "f # rest"] unfolding l_def starts_with_iff by blast
  moreover have "utf8_valid l" unfolding l using utf8_valid_cut(1) [OF assms(1) k(3)] .
  ultimately show ?thesis by blast
qed

theorem longest_common_prefix_correct_witness:
  "longest_common_prefix [''abc'', ''abd''] = ''ab'' \<and> (\<exists>t. ''abd'' = longest_common_prefix [''abc'', ''abd''] @ t)"
proof -
  have "utf8_valid ''abc''" by (simp add: utf8_valid.simps utf8_step_def byte_at_def)
  from longest_common_prefix_correct [OF this, of "[''abd'']"] show ?thesis
    by (simp add: longest_common_prefix_def numeral_3_eq_3 boundary_def is_continuation_iff)
qed

text \<open>A completion that is final is a real entry. When path completion adds a blank, the word became the
  directory part it had and the name of an entry of the directory it names; that entry is not a
  directory (through a symlink either), and no other visible entry matches.\<close>

theorem complete_path_final:
  assumes "complete_path v cwd word = Single r True"
  shows "\<exists>d b dir es nm i. word = d @ b \<and> resolve_dir v cwd d = Some dir \<and> entries v dir = Some es
    \<and> (nm, i) \<in> set es \<and> r = d @ nm \<and> \<not> follow_is_dir v i
    \<and> (\<forall>(nm', i')\<in>set es. starts_with nm' b \<and> (starts_with b ''.'' \<or> \<not> starts_with nm' ''.'') \<longrightarrow> nm' = nm)"
proof -
  obtain d b where w: "split_word word = (d, b)" by (cases "split_word word")
  obtain dir es where e: "resolve_dir v cwd d = Some dir" "entries v dir = Some es"
    using assms w by (auto simp: complete_path_def split: option.splits)
  obtain nm where cs: "path_candidates v b es = [(nm, False)]" "r = d @ nm"
    using assms w e by (auto simp: complete_path_def Let_def split: list.splits if_splits)
  then obtain i where i: "(nm, i) \<in> set es" "\<not> follow_is_dir v i"
    using path_candidates_set [of nm False v b es] by auto
  have "nm' = nm" if "(nm', i') \<in> set es" "starts_with nm' b" "starts_with b ''.'' \<or> \<not> starts_with nm' ''.''" for nm' i'
    using that cs path_candidates_set [of nm' "follow_is_dir v i'" v b es] by auto
  then show ?thesis using split_word_append [OF w] e i cs(2)
    by (intro exI [of _ d] exI [of _ b] exI [of _ dir] exI [of _ es] exI [of _ nm] exI [of _ i]) auto
qed

theorem complete_path_final_witness:
  "complete_path one_file 0 ''no'' = Single ''notes'' True \<and>
   (\<exists>d dir es nm i. resolve_dir one_file 0 d = Some dir \<and> entries one_file dir = Some es \<and> (nm, i) \<in> set es
      \<and> ''notes'' = d @ nm \<and> \<not> follow_is_dir one_file i)"
  using complete_path_final [OF one_file_completes] one_file_completes by blast

end
