(* ===== verification/Ssh.thy ===== *)
theory Ssh
  imports Sftp Quarantine Events Config Line_Editor Completion Clock
begin

text \<open>
  The connection handler (\<open>src/network/ssh.rs\<close>): the state of one client connection and one definition per
  request of the SSH protocol, composed the way \<open>MimicHandler\<close> composes them. The russh library calls the
  handler and carries out what it asks the session to send: here the requests are definitions on the
  record \<open>mimic_handler\<close>, and what they send and log is appended to its fields \<open>mh_sent\<close> and \<open>mh_events\<close>.
  Sending succeeds; an \<open>await\<close> on a delay is no step. The store of captured files and the counter of its
  bytes are shared by the connections of the process, and are fields too; other connections may change them
  between two requests.
\<close>

section \<open>Screens\<close>

definition EDITOR_ROWS :: nat where "EDITOR_ROWS = 23"

definition nl :: str where "nl = [CHR 0x0A]"

definition shown_lines :: "editor_screen \<Rightarrow> str" where
  "shown_lines e = concat (map (\<lambda>l. l @ nl) (take EDITOR_ROWS (es_lines e)))"

definition render_vi :: "editor_screen \<Rightarrow> str" where
  "render_vi e =
     shown_lines e
     @ concat (replicate (EDITOR_ROWS - length (es_lines e)) (''~'' @ nl))
     @ (if es_path e = [] then []
        else if es_exists e then
          [CHR 0x22] @ es_path e @ [CHR 0x22] @ '' '' @ show_nat (length (es_lines e)) @ ''L, ''
            @ show_nat (sum_list (map (\<lambda>l. length l + 1) (es_lines e))) @ ''B'' @ nl
        else [CHR 0x22] @ es_path e @ [CHR 0x22] @ '' [New File]'' @ nl)"

definition render_nano :: "editor_screen \<Rightarrow> str" where
  "render_nano e =
     ''  GNU nano    '' @ (if es_path e = [] then ''New Buffer'' else es_path e) @ nl
     @ shown_lines e
     @ concat (replicate (EDITOR_ROWS - length (es_lines e)) nl)
     @ ''^G Help      ^O Write Out ^W Where Is  ^K Cut       ^T Execute   ^C Location'' @ nl
     @ ''^X Exit      ^R Read File ^'' @ [CHR 0x5C] @ '' Replace   ^U Paste     ^J Justify   ^_ Go To Line'' @ nl"

definition editor_render :: "editor_screen \<Rightarrow> str" where
  "editor_render e = (case es_kind e of Vi \<Rightarrow> render_vi e | Nano \<Rightarrow> render_nano e)"

definition top_render :: "int \<Rightarrow> clock \<Rightarrow> top_screen \<Rightarrow> str \<times> clock" where
  "top_render now c t = (case uptime_banner now now now c of (banner, c') \<Rightarrow>
     (''top - '' @ banner @ nl
      @ ''Tasks: '' @ pad_left CHR '' '' 3 (show_nat (ts_total t)) @ '' total,   '' @ show_nat (ts_running t) @ '' running, ''
      @ pad_left CHR '' '' 3 (show_nat (ts_total t - ts_running t)) @ '' sleeping,   0 stopped,   0 zombie'' @ nl
      @ ''%Cpu(s):  0.3 us,  0.2 sy,  0.0 ni, 99.4 id,  0.1 wa,  0.0 hi,  0.0 si,  0.0 st'' @ nl
      @ ''MiB Mem :   1993.4 total,   1468.3 free,    179.0 used,    346.0 buff/cache'' @ nl
      @ ''MiB Swap:      0.0 total,      0.0 free,      0.0 used.   1723.6 avail Mem'' @ nl
      @ nl
      @ ''    PID USER      PR  NI    VIRT    RES    SHR S  %CPU  %MEM     TIME+ COMMAND'' @ nl
      @ concat (ts_rows t), c'))"

datatype screen_kind = KTop | KVi | KNano | KListen

record screen_hold =
  ho_kind :: screen_kind
  ho_colon :: "str option"
  ho_redraw :: "top_screen option"

definition SCREEN_HOME :: str where
  "SCREEN_HOME = [CHR 0x1B, CHR ''['', CHR ''H'', CHR 0x1B, CHR ''['', CHR ''J'']"

definition vi_screen_input :: "screen_hold \<Rightarrow> byte \<Rightarrow> bool \<times> screen_hold" where
  "vi_screen_input hold b =
     (if b = CHR 0x03 then (True, hold)
      else case ho_colon hold of
        Some buf \<Rightarrow>
          if b = CHR 0x0D \<or> b = CHR 0x0A then
            (buf \<in> set [''q'', ''q!'', ''wq'', ''wq!'', ''x''], hold\<lparr>ho_colon := None\<rparr>)
          else if b = CHR 0x1B then (False, hold\<lparr>ho_colon := None\<rparr>)
          else if b = CHR 0x08 \<or> b = CHR 0x7F then (False, hold\<lparr>ho_colon := Some (butlast buf)\<rparr>)
          else if 0x20 \<le> u8 b \<and> u8 b \<le> 0x7E then (False, hold\<lparr>ho_colon := Some (buf @ [b])\<rparr>)
          else (False, hold)
      | None \<Rightarrow> (False, if b = CHR '':'' then hold\<lparr>ho_colon := Some []\<rparr> else hold))"

section \<open>The connection\<close>

definition MAX_COMMAND_LEN :: nat where "MAX_COMMAND_LEN = 4096"
definition SSH_EXTENDED_DATA_STDERR :: nat where "SSH_EXTENDED_DATA_STDERR = 1"
definition QUARANTINE_SESSION_MULTIPLIER :: nat where "QUARANTINE_SESSION_MULTIPLIER = 32"
definition QUARANTINE_GLOBAL_MULTIPLIER :: nat where "QUARANTINE_GLOBAL_MULTIPLIER = 64"
definition MAX_ACCEPTED_ENV :: nat where "MAX_ACCEPTED_ENV = 32"
definition PREV_LOGIN_FROM :: str where "PREV_LOGIN_FROM = ''10.0.0.5''"

record pty_request =
  pt_term :: str
  pt_cols :: nat
  pt_rows :: nat

text \<open>What the handler asks the session to send on a channel.\<close>

datatype packet =
    Data "byte list"
  | ExtendedData nat "byte list"
  | ExitStatus nat
  | EofPacket
  | ClosePacket
  | ChannelSuccess
  | ChannelFailure
  | OpenAccepted
  | OpenProhibited

record 'h mimic_handler =
  mh_config :: config
  mh_session_id :: nat
  mh_peer :: socket_addr
  mh_local :: socket_addr
  mh_pty :: bool
  mh_auth_attempts :: nat
  mh_authenticated :: bool
  mh_username :: str
  mh_editor :: line_editor
  mh_shell_started :: bool
  mh_shell :: "shell option"
  mh_active_channel :: "nat option"
  mh_scp :: "'h scp_sink option"
  mh_sftp :: "'h sftp_session option"
  mh_quarantine_bytes :: nat
  mh_global_quarantine_bytes :: nat
  mh_password_buf :: "byte list option"
  mh_line_buf :: "byte list"
  mh_screen :: "screen_hold option"
  mh_pty_term :: "pty_request option"
  mh_accepted_env :: "(str \<times> str) list"
  mh_banner_logged :: bool
  mh_opened_at :: int
  mh_command_count :: nat
  mh_persona :: persona
  mh_store :: store
  mh_clock :: clock
  mh_events :: "log_event list"
  mh_sent :: "(nat \<times> packet) list"

text \<open>
  What a request finds around it: the time and the Unicode tables, the commands, the SHA-256 library, the
  filesystem image of a new session, the names in the log, and the disk.
\<close>

record 'h server =
  sv_world :: world
  sv_dispatch :: dispatcher
  sv_hasher :: "'h hasher"
  sv_image :: vfs
  sv_log :: log_site
  sv_disk :: "nat \<Rightarrow> disk"

definition handler_new :: "config \<Rightarrow> persona \<Rightarrow> nat \<Rightarrow> socket_addr \<Rightarrow> socket_addr \<Rightarrow> int \<Rightarrow> nat \<Rightarrow> store \<Rightarrow> clock \<Rightarrow> 'h mimic_handler" where
  "handler_new c p sid peer loc now global q ck =
     \<lparr>mh_config = c, mh_session_id = sid, mh_peer = peer, mh_local = loc, mh_pty = False, mh_auth_attempts = 0,
      mh_authenticated = False, mh_username = [], mh_editor = ed_new MAX_COMMAND_LEN 1000, mh_shell_started = False,
      mh_shell = None, mh_active_channel = None, mh_scp = None, mh_sftp = None, mh_quarantine_bytes = 0,
      mh_global_quarantine_bytes = global, mh_password_buf = None, mh_line_buf = [], mh_screen = None, mh_pty_term = None,
      mh_accepted_env = [], mh_banner_logged = False, mh_opened_at = now, mh_command_count = 0, mh_persona = p,
      mh_store = q, mh_clock = ck, mh_events = [], mh_sent = []\<rparr>"

definition send :: "nat \<Rightarrow> packet \<Rightarrow> 'h mimic_handler \<Rightarrow> 'h mimic_handler" where
  "send ch p h = h\<lparr>mh_sent := mh_sent h @ [(ch, p)]\<rparr>"

definition log_ev :: "log_event \<Rightarrow> 'h mimic_handler \<Rightarrow> 'h mimic_handler" where
  "log_ev e h = h\<lparr>mh_events := mh_events h @ [e]\<rparr>"

definition out_bytes :: "'h mimic_handler \<Rightarrow> str \<Rightarrow> byte list" where
  "out_bytes h text = (if mh_pty h then crlf text else text)"

definition try_open_channel :: "nat \<Rightarrow> 'h mimic_handler \<Rightarrow> bool \<times> 'h mimic_handler" where
  "try_open_channel ch h = (if mh_active_channel h \<noteq> None then (False, h) else (True, h\<lparr>mh_active_channel := Some ch\<rparr>))"

definition log_command :: "'h server \<Rightarrow> str \<Rightarrow> command_source \<Rightarrow> int option \<Rightarrow> 'h mimic_handler \<Rightarrow> 'h mimic_handler" where
  "log_command sv text src status h =
     log_ev (ev_command (sv_log sv) (mh_session_id h) (mh_peer h) text src status) (h\<lparr>mh_command_count := mh_command_count h + 1\<rparr>)"

definition log_client_banner :: "'h server \<Rightarrow> byte list \<Rightarrow> 'h mimic_handler \<Rightarrow> 'h mimic_handler" where
  "log_client_banner sv remote_sshid h =
     (if mh_banner_logged h then h
      else (let h1 = h\<lparr>mh_banner_logged := True\<rparr>; banner = from_utf8_lossy remote_sshid
            in if banner \<noteq> [] then log_ev (ev_client_banner (sv_log sv) (mh_session_id h) (mh_peer h) banner) h1 else h1))"

section \<open>The session's shell\<close>

definition new_shell :: "'h server \<Rightarrow> 'h mimic_handler \<Rightarrow> shell" where
  "new_shell sv h =
     (let s = shell_new (w_now (sv_world sv)) (sv_image sv) (mh_username h) (cfg_hostname (mh_config h)) (mh_persona h);
          from = sa_ip (mh_peer h) @ '' '' @ show_nat (sa_port (mh_peer h)) @ '' '';
          e1 = env_set (sh_env s) ''SSH_CLIENT'' (from @ show_nat (sa_port (mh_local h)));
          e2 = env_set e1 ''SSH_CONNECTION'' (from @ sa_ip (mh_local h) @ '' '' @ show_nat (sa_port (mh_local h)));
          e3 = (if mh_pty h then env_set e2 ''SSH_TTY'' ''/dev/pts/0'' else e2);
          e4 = (case mh_pty_term h of
                  None \<Rightarrow> e3
                | Some p \<Rightarrow> env_set (env_set (env_set e3 ''TERM'' (pt_term p)) ''COLUMNS'' (show_nat (pt_cols p))) ''LINES'' (show_nat (pt_rows p)))
      in s\<lparr>sh_env := fold (\<lambda>(k, x) e. env_set e k x) (mh_accepted_env h) e4\<rparr>)"

text \<open>\<open>self.shell()\<close>: the session's shell, made on first use.\<close>

definition shell_of :: "'h server \<Rightarrow> 'h mimic_handler \<Rightarrow> shell" where
  "shell_of sv h = (case mh_shell h of Some s \<Rightarrow> s | None \<Rightarrow> new_shell sv h)"

definition put_shell :: "shell \<Rightarrow> 'h mimic_handler \<Rightarrow> 'h mimic_handler" where
  "put_shell s h = h\<lparr>mh_shell := Some s\<rparr>"

section \<open>Captures and uploads\<close>

definition log_capture :: "'h server \<Rightarrow> capture \<Rightarrow> 'h mimic_handler \<Rightarrow> 'h mimic_handler" where
  "log_capture sv c h = (case c of
      Download tool url dest \<Rightarrow> log_ev (ev_download (sv_log sv) (mh_session_id h) (mh_peer h) tool url dest) h
    | ScriptCommand line status \<Rightarrow> log_command sv line SScript (Some status) h
    | PasswordChange target password \<Rightarrow>
        log_ev (ev_auth_attempt (sv_log sv) (mh_session_id h) (mh_peer h) target ''chpasswd'' (Some password) None True) h
    | SuAuth target password \<Rightarrow>
        log_ev (ev_auth_attempt (sv_log sv) (mh_session_id h) (mh_peer h) target ''su'' (Some password) None True) h)"

definition drain_captures :: "'h server \<Rightarrow> 'h mimic_handler \<Rightarrow> 'h mimic_handler" where
  "drain_captures sv h =
     (let s = shell_of sv h in fold (log_capture sv) (sh_captures s) (put_shell (s\<lparr>sh_captures := []\<rparr>) h))"

definition U64_MAX :: nat where "U64_MAX = 2 ^ 64 - 1"

definition session_cap :: "config \<Rightarrow> nat" where
  "session_cap c = min (cfg_max_upload_bytes c * QUARANTINE_SESSION_MULTIPLIER) U64_MAX"

definition global_cap :: "config \<Rightarrow> nat" where
  "global_cap c = (case cfg_quarantine_max_total_bytes c of
      Some n \<Rightarrow> n
    | None \<Rightarrow> min (cfg_max_upload_bytes c * QUARANTINE_GLOBAL_MULTIPLIER) U64_MAX)"

text \<open>
  The part the two kinds of upload share: the caps, the write and the accounting; the path of the stored
  file, empty when there is none. The disk answers by the number of events logged so far, which tells any
  two writes apart.
\<close>

definition quarantine_payload :: "'h server \<Rightarrow> byte list \<Rightarrow> 'h mimic_handler \<Rightarrow> str \<times> 'h mimic_handler" where
  "quarantine_payload sv dat h =
     (let c = mh_config h; sid = mh_session_id h; peer = mh_peer h in
      if min (mh_quarantine_bytes h + length dat) U64_MAX > session_cap c then
        ([], log_ev (ev_quarantine_session_cap (sv_log sv) sid peer) h)
      else if min (mh_global_quarantine_bytes h + length dat) U64_MAX > global_cap c then
        ([], log_ev (ev_quarantine_global_cap (sv_log sv) sid peer) h)
      else case write_quarantine (sv_disk sv (length (mh_events h))) (cfg_quarantine_dir c) (payload_sha256 (sv_hasher sv) dat) dat (mh_store h) of
          (Inr (p, n), q) \<Rightarrow>
            (p, h\<lparr>mh_store := q, mh_quarantine_bytes := mh_quarantine_bytes h + n,
                  mh_global_quarantine_bytes := mh_global_quarantine_bytes h + n\<rparr>)
        | (Inl e, q) \<Rightarrow> ([], log_ev (ev_quarantine_error (sv_log sv) sid peer e) (h\<lparr>mh_store := q\<rparr>)))"

definition abs_path :: "str \<Rightarrow> str \<Rightarrow> str" where
  "abs_path cwd path =
     (if starts_with path ''/'' then path else if cwd = ''/'' then ''/'' @ path else cwd @ ''/'' @ path)"

definition upload_place :: "shell \<Rightarrow> str \<Rightarrow> bool \<Rightarrow> completed_file \<Rightarrow> str \<times> str" where
  "upload_place s target rec f =
     (let v = sh_vfs s; cwd = sh_cwd s;
          target_abs = abs_path (path_of v cwd) target;
          base = (if cf_rel_dir f = [] then target_abs else trim_end_slashes target_abs @ ''/'' @ cf_rel_dir f);
          target_is_dir = (case resolve v cwd base of Some i \<Rightarrow> is_dir (n_meta (fnode v i)) | None \<Rightarrow> False)
      in if target_is_dir \<or> (target \<noteq> [] \<and> last target = CHR ''/'') \<or> rec \<or> cf_rel_dir f \<noteq> [] then (base, cf_name f)
         else split_path (trim_end_slashes base))"

definition write_to_vfs :: "'h server \<Rightarrow> str \<Rightarrow> bool \<Rightarrow> completed_file \<Rightarrow> 'h mimic_handler \<Rightarrow> str \<times> 'h mimic_handler" where
  "write_to_vfs sv target rec f h =
     (let s = shell_of sv h; now = w_now (sv_world sv) in
      case upload_place s target rec f of (dir_path, name) \<Rightarrow>
        (let intended = trim_end_slashes dir_path @ ''/'' @ name in
         case mkdir_p now (sh_vfs s) dir_path o755 (sh_uid s) (sh_gid s) of
           (None, v1) \<Rightarrow> (intended, put_shell (s\<lparr>sh_vfs := v1\<rparr>) h)
         | (Some parent, v1) \<Rightarrow>
             (case add_file now v1 parent name (cf_data f) (word_of_nat (cf_mode f) AND 0xFFF) (sh_uid s) (sh_gid s) of
                (i, v2) \<Rightarrow> (if i = parent then intended else path_of v2 i, put_shell (s\<lparr>sh_vfs := v2\<rparr>) h))))"

definition store_upload :: "'h server \<Rightarrow> completed_file \<Rightarrow> 'h mimic_handler \<Rightarrow> 'h mimic_handler" where
  "store_upload sv f h =
     (let target = (case mh_scp h of Some k \<Rightarrow> sk_target k | None \<Rightarrow> ''/tmp'');
          rec = (case mh_scp h of Some k \<Rightarrow> sk_recursive k | None \<Rightarrow> False)
      in case write_to_vfs sv target rec f h of (dest_path, h1) \<Rightarrow>
           (case quarantine_payload sv (cf_data f) h1 of (stored_path, h2) \<Rightarrow>
              log_ev (ev_upload (sv_log sv) (mh_session_id h) (mh_peer h) (cf_name f) dest_path (cf_size f) (cf_sha256 f)
                (payload_sha256 (sv_hasher sv) (cf_data f)) stored_path (cf_truncated f)) h2))"

definition store_sftp_upload :: "'h server \<Rightarrow> sftp_upload \<Rightarrow> 'h mimic_handler \<Rightarrow> 'h mimic_handler" where
  "store_sftp_upload sv u h =
     (case quarantine_payload sv (up_data u) h of (stored_path, h1) \<Rightarrow>
        log_ev (ev_upload (sv_log sv) (mh_session_id h) (mh_peer h) (up_name u) (up_dest_path u) (up_size u) (up_sha256 u)
          (payload_sha256 (sv_hasher sv) (up_data u)) stored_path (up_truncated u)) h1)"

definition drain_sftp_uploads :: "'h server \<Rightarrow> 'h mimic_handler \<Rightarrow> 'h mimic_handler" where
  "drain_sftp_uploads sv h = (case mh_sftp h of
      None \<Rightarrow> h
    | Some f \<Rightarrow>
        (case mh_shell h of
           None \<Rightarrow> h\<lparr>mh_sftp := None\<rparr>
         | Some s \<Rightarrow>
             (case into_pending_uploads (sv_world sv) (sv_hasher sv) f s of (s1, us) \<Rightarrow>
                fold (store_sftp_upload sv) us (h\<lparr>mh_sftp := None, mh_shell := Some s1\<rparr>))))"

section \<open>Channels and output\<close>

definition close_channel :: "'h server \<Rightarrow> nat \<Rightarrow> 'h mimic_handler \<Rightarrow> 'h mimic_handler" where
  "close_channel sv ch h =
     (if mh_active_channel h = Some ch then
        (drain_sftp_uploads sv h)\<lparr>mh_active_channel := None, mh_editor := ed_new MAX_COMMAND_LEN 1000, mh_shell := None,
          mh_scp := None, mh_sftp := None, mh_password_buf := None, mh_line_buf := [], mh_screen := None,
          mh_shell_started := False, mh_pty := False\<rparr>
      else h)"

text \<open>\<open>status as u32\<close>\<close>

definition status_u32 :: "int \<Rightarrow> nat" where
  "status_u32 n = nat (n mod 2 ^ 32)"

definition end_channel :: "'h server \<Rightarrow> nat \<Rightarrow> nat \<Rightarrow> 'h mimic_handler \<Rightarrow> 'h mimic_handler" where
  "end_channel sv ch status h =
     close_channel sv ch (send ch ClosePacket (send ch EofPacket (send ch (ExitStatus status) h)))"

definition send_data :: "nat \<Rightarrow> byte list \<Rightarrow> 'h mimic_handler \<Rightarrow> 'h mimic_handler" where
  "send_data ch bs h = (if bs = [] then h else send ch (Data bs) h)"

definition write_output :: "nat \<Rightarrow> line_output \<Rightarrow> 'h mimic_handler \<Rightarrow> 'h mimic_handler" where
  "write_output ch o1 h =
     (if mh_pty h then send_data ch (out_bytes h (o_text o1)) h
      else
        (let h1 = send_data ch (out_bytes h (o_stdout o1)) h
         in if o_stderr o1 = [] then h1 else send ch (ExtendedData SSH_EXTENDED_DATA_STDERR (out_bytes h1 (o_stderr o1))) h1))"

definition deliver :: "'h server \<Rightarrow> nat \<Rightarrow> line_output \<Rightarrow> 'h mimic_handler \<Rightarrow> bool \<times> 'h mimic_handler" where
  "deliver sv ch o1 h =
     (let h1 = write_output ch o1 (drain_captures sv h)
      in if o_exit o1 then (True, end_channel sv ch (status_u32 (o_status o1)) h1) else (False, h1))"

definition parked :: "shell \<Rightarrow> bool" where
  "parked s = (case sh_pending s of Some p \<Rightarrow> pending_echoes p | None \<Rightarrow> False)"

definition submit_line :: "'h server \<Rightarrow> nat \<Rightarrow> str \<Rightarrow> 'h mimic_handler \<Rightarrow> (bool \<times> 'h mimic_handler) outcome" where
  "submit_line sv ch line h =
     (let trimmed = trim line; s = shell_of sv h; s1 = (if trimmed \<noteq> [] then record_history s trimmed else s) in
      obind (execute (sv_world sv) (sv_dispatch sv) s1 trimmed) (\<lambda>(o1, s2).
        (let h1 = put_shell s2 h;
             h2 = (if trimmed \<noteq> [] \<and> \<not> parked s2
                   then log_command sv trimmed (if mh_pty h then SInteractive else SPipe) (Some (o_status o1)) h1 else h1)
         in Done (deliver sv ch o1 h2))))"

definition log_closed_heredoc :: "'h server \<Rightarrow> 'h mimic_handler \<Rightarrow> 'h mimic_handler" where
  "log_closed_heredoc sv h =
     (let s = shell_of sv h in
      case sh_heredoc_log s of
        Some text \<Rightarrow> log_command sv text SHeredoc None (put_shell (s\<lparr>sh_heredoc_log := None\<rparr>) h)
      | None \<Rightarrow> put_shell s h)"

text \<open>Answering a prompt or a here-document: \<open>resume\<close>, then the log, then the output.\<close>

definition answer :: "'h server \<Rightarrow> nat \<Rightarrow> str \<Rightarrow> 'h mimic_handler \<Rightarrow> (bool \<times> 'h mimic_handler) outcome" where
  "answer sv ch line h =
     obind (resume (sv_world sv) (sv_dispatch sv) (shell_of sv h) line) (\<lambda>(o1, s).
       Done (deliver sv ch o1 (log_closed_heredoc sv (put_shell s h))))"

definition run_no_tty_line :: "'h server \<Rightarrow> nat \<Rightarrow> str \<Rightarrow> 'h mimic_handler \<Rightarrow> (bool \<times> 'h mimic_handler) outcome" where
  "run_no_tty_line sv ch line h =
     (if sh_pending (shell_of sv h) \<noteq> None then answer sv ch line h else submit_line sv ch line h)"

definition buffered_line :: "'h mimic_handler \<Rightarrow> str" where
  "buffered_line h = rev (dropWhile (\<lambda>b. b = CHR 0x0D) (rev (from_utf8_lossy (mh_line_buf h))))"

fun feed_no_tty :: "'h server \<Rightarrow> nat \<Rightarrow> byte list \<Rightarrow> 'h mimic_handler \<Rightarrow> 'h mimic_handler outcome" where
  "feed_no_tty sv ch [] h = Done h"
| "feed_no_tty sv ch (b # bs) h =
     (if b = CHR 0x0D then feed_no_tty sv ch bs h
      else if b = CHR 0x0A then
        obind (run_no_tty_line sv ch (buffered_line h) (h\<lparr>mh_line_buf := []\<rparr>)) (\<lambda>(ended, h1).
          if ended then Done h1 else feed_no_tty sv ch bs h1)
      else feed_no_tty sv ch bs (if length (mh_line_buf h) < MAX_COMMAND_LEN then h\<lparr>mh_line_buf := mh_line_buf h @ [b]\<rparr> else h))"

section \<open>The terminal\<close>

definition hold_screen :: "'h server \<Rightarrow> nat \<Rightarrow> screen \<Rightarrow> 'h mimic_handler \<Rightarrow> 'h mimic_handler" where
  "hold_screen sv ch sc h = (case sc of
      Top t \<Rightarrow>
        (case top_render (w_now (sv_world sv)) (mh_clock h) t of (frame, c) \<Rightarrow>
           (send ch (Data (out_bytes h (SCREEN_HOME @ frame))) h)
             \<lparr>mh_clock := c, mh_screen := Some \<lparr>ho_kind = KTop, ho_colon = None, ho_redraw = Some t\<rparr>\<rparr>)
    | Editor e \<Rightarrow>
        (send ch (Data (out_bytes h (SCREEN_HOME @ editor_render e))) h)
          \<lparr>mh_screen := Some \<lparr>ho_kind = (case es_kind e of Vi \<Rightarrow> KVi | Nano \<Rightarrow> KNano), ho_colon = None, ho_redraw = None\<rparr>\<rparr>
    | Listen \<Rightarrow> h\<lparr>mh_screen := Some \<lparr>ho_kind = KListen, ho_colon = None, ho_redraw = None\<rparr>\<rparr>)"

text \<open>One tick of the task that repaints \<open>top\<close>, which lives as long as the hold.\<close>

definition redraw_tick :: "'h server \<Rightarrow> nat \<Rightarrow> 'h mimic_handler \<Rightarrow> 'h mimic_handler" where
  "redraw_tick sv ch h = (case mh_screen h of
      None \<Rightarrow> h
    | Some hold \<Rightarrow>
        (case ho_redraw hold of
           None \<Rightarrow> h
         | Some t \<Rightarrow>
             (case top_render (w_now (sv_world sv)) (mh_clock h) t of (frame, c) \<Rightarrow>
                (send ch (Data (out_bytes h (SCREEN_HOME @ frame))) h)\<lparr>mh_clock := c\<rparr>)))"

definition screen_input :: "byte \<Rightarrow> 'h mimic_handler \<Rightarrow> bool \<times> 'h mimic_handler" where
  "screen_input b h = (case mh_screen h of
      None \<Rightarrow> (False, h)
    | Some hold \<Rightarrow>
        (let (quit, hold') = (case ho_kind hold of
               KTop \<Rightarrow> (b = CHR ''q'' \<or> b = CHR 0x03, hold)
             | KNano \<Rightarrow> (b = CHR 0x18 \<or> b = CHR 0x03, hold)
             | KListen \<Rightarrow> (b = CHR 0x03, hold)
             | KVi \<Rightarrow> vi_screen_input hold b)
         in (\<not> quit, h\<lparr>mh_screen := if quit then None else Some hold'\<rparr>)))"

text \<open>\<open>data.iter().position(...)\<close>: the bytes after the key that quits the display, if one does.\<close>

fun screen_bytes :: "byte list \<Rightarrow> 'h mimic_handler \<Rightarrow> byte list option \<times> 'h mimic_handler" where
  "screen_bytes [] h = (None, h)"
| "screen_bytes (b # bs) h = (case screen_input b h of (up, h1) \<Rightarrow> if up then screen_bytes bs h1 else (Some bs, h1))"

definition format_columns :: "str list \<Rightarrow> str" where
  "format_columns items =
     (if items = [] then []
      else
        (let width = Max (set (map length items)) + 2; cols = max (80 div width) 1 in
         concat (map (\<lambda>(i, item). item @
            (if (i + 1) mod cols = 0 \<or> i + 1 = length items then nl else replicate (width - length item) CHR '' ''))
           (enumerate 0 items))))"

definition complete_current_word :: "'h server \<Rightarrow> 'h mimic_handler \<Rightarrow> byte list \<times> 'h mimic_handler" where
  "complete_current_word sv h =
     (case current_word (mh_editor h) of (word, is_command) \<Rightarrow>
        (let s = shell_of sv h; h1 = put_shell s h in
         case complete (sh_vfs s) (sh_cwd s) word is_command of
           NoCompletion \<Rightarrow> ([], h1)
         | Single repl add_space \<Rightarrow>
             (case apply_completion (mh_editor h1) repl add_space of (bs, e) \<Rightarrow> (bs, h1\<lparr>mh_editor := e\<rparr>))
         | Listing items \<Rightarrow> (show_listing (mh_editor h1) (format_columns items), h1)))"

definition draw_prompt :: "nat \<Rightarrow> str \<Rightarrow> 'h mimic_handler \<Rightarrow> 'h mimic_handler" where
  "draw_prompt ch p h =
     (let e = set_prompt (mh_editor h) p in send ch (Data (ed_render e)) (h\<lparr>mh_editor := e\<rparr>))"

definition shell_prompt_again :: "'h server \<Rightarrow> nat \<Rightarrow> 'h mimic_handler \<Rightarrow> 'h mimic_handler" where
  "shell_prompt_again sv ch h = (let s = shell_of sv h in draw_prompt ch (shell_prompt s) (put_shell s h))"

definition silent_pending :: "shell \<Rightarrow> bool" where
  "silent_pending s = (case sh_pending s of Some p \<Rightarrow> \<not> pending_echoes p | None \<Rightarrow> False)"

text \<open>\<open>while buf.pop().is_some_and(is_continuation) \{\}\<close>\<close>

definition pop_char :: "byte list \<Rightarrow> byte list" where
  "pop_char buf = rev (tl (dropWhile is_continuation (rev buf)))"

text \<open>A byte while a password is being collected; the flag says that the session has ended.\<close>

definition password_byte :: "'h server \<Rightarrow> nat \<Rightarrow> byte list \<Rightarrow> byte \<Rightarrow> 'h mimic_handler \<Rightarrow> (bool \<times> 'h mimic_handler) outcome" where
  "password_byte sv ch buf b h =
     (if b = CHR 0x0D \<or> b = CHR 0x0A then
        (let h1 = send ch (Data [CHR 0x0D, CHR 0x0A]) (h\<lparr>mh_password_buf := None\<rparr>) in
         obind (resume (sv_world sv) (sv_dispatch sv) (shell_of sv h1) (from_utf8_lossy buf)) (\<lambda>(o1, s).
           case deliver sv ch o1 (put_shell s h1) of (ended, h2) \<Rightarrow>
             if ended then Done (True, h2)
             else if silent_pending (shell_of sv h2) then Done (False, (put_shell (shell_of sv h2) h2)\<lparr>mh_password_buf := Some []\<rparr>)
             else Done (False, shell_prompt_again sv ch h2)))
      else if b = CHR 0x03 then
        (let s = shell_of sv h; h1 = (put_shell (s\<lparr>sh_pending := None\<rparr>) h)\<lparr>mh_password_buf := None\<rparr>
         in Done (False, shell_prompt_again sv ch (send ch (Data [CHR 0x0D, CHR 0x0A]) h1)))
      else if b = CHR 0x08 \<or> b = CHR 0x7F then Done (False, h\<lparr>mh_password_buf := Some (pop_char buf)\<rparr>)
      else if u8 b \<ge> 0x20 then
        Done (False, if length buf < MAX_COMMAND_LEN then h\<lparr>mh_password_buf := Some (buf @ [b])\<rparr> else h)
      else Done (False, h))"

text \<open>After a line that did not end the session: a display, a prompt for a password, or the next prompt.\<close>

definition after_line :: "'h server \<Rightarrow> nat \<Rightarrow> 'h mimic_handler \<Rightarrow> 'h mimic_handler" where
  "after_line sv ch h =
     (let s = shell_of sv h in
      case sh_screen s of
        Some sc \<Rightarrow> hold_screen sv ch sc (put_shell (s\<lparr>sh_screen := None\<rparr>) h)
      | None \<Rightarrow>
          (case sh_pending s of
             None \<Rightarrow> shell_prompt_again sv ch h
           | Some p \<Rightarrow>
               if \<not> pending_echoes p then (put_shell s h)\<lparr>mh_password_buf := Some []\<rparr>
               else case pending_prompt p of
                   Some ps2 \<Rightarrow> draw_prompt ch ps2 (put_shell s h)
                 | None \<Rightarrow> shell_prompt_again sv ch h))"

definition editor_byte :: "'h server \<Rightarrow> nat \<Rightarrow> byte \<Rightarrow> 'h mimic_handler \<Rightarrow> (bool \<times> 'h mimic_handler) outcome" where
  "editor_byte sv ch b h = (case ed_input (mh_editor h) b of (r, e) \<Rightarrow>
     (let h0 = h\<lparr>mh_editor := e\<rparr> in
      case r of
        Ignore \<Rightarrow> Done (False, h0)
      | Write bs \<Rightarrow> Done (False, send ch (Data bs) h0)
      | Complete \<Rightarrow> (case complete_current_word sv h0 of (bs, h1) \<Rightarrow> Done (False, send_data ch bs h1))
      | Eof \<Rightarrow>
          (let h1 = send ch (Data (out_bytes h0 LOGOUT)) h0; s = shell_of sv h1
           in Done (True, end_channel sv ch (status_u32 (sh_last_status s)) (put_shell s h1)))
      | Submit echo line \<Rightarrow>
          (let h1 = send ch (Data echo) h0 in
           obind (if parked (shell_of sv h1) then answer sv ch line h1 else submit_line sv ch line h1) (\<lambda>(ended, h2).
             Done (if ended then (True, h2) else (False, after_line sv ch h2))))))"

fun terminal_bytes :: "'h server \<Rightarrow> nat \<Rightarrow> byte list \<Rightarrow> 'h mimic_handler \<Rightarrow> 'h mimic_handler outcome" where
  "terminal_bytes sv ch [] h = Done h"
| "terminal_bytes sv ch (b # bs) h =
     obind (case mh_password_buf h of Some buf \<Rightarrow> password_byte sv ch buf b h | None \<Rightarrow> editor_byte sv ch b h) (\<lambda>(ended, h1).
       if ended then Done h1 else terminal_bytes sv ch bs h1)"

section \<open>Requests\<close>

definition decide_auth :: "'h mimic_handler \<Rightarrow> str \<Rightarrow> str \<Rightarrow> bool" where
  "decide_auth h user password =
     (let a = cfg_auth (mh_config h) in
      case au_mode a of
        AcceptAll \<Rightarrow> True
      | RejectAll \<Rightarrow> False
      | AcceptAfter \<Rightarrow> mh_auth_attempts h \<ge> au_accept_after a
      | Credentials \<Rightarrow> list_ex (\<lambda>c. cr_username c = user \<and> cr_password c = password) (au_credentials a))"

text \<open>Whether the login is accepted; a rejected client is offered the password method again.\<close>

definition auth_password :: "'h server \<Rightarrow> str \<Rightarrow> str \<Rightarrow> 'h mimic_handler \<Rightarrow> bool \<times> 'h mimic_handler" where
  "auth_password sv user password h0 =
     (let h = h0\<lparr>mh_auth_attempts := mh_auth_attempts h0 + 1\<rparr>;
          accepted = decide_auth h user password;
          h1 = log_ev (ev_auth_attempt (sv_log sv) (mh_session_id h) (mh_peer h) user ''password'' (Some password) None accepted) h
      in (accepted, if accepted then h1\<lparr>mh_username := user, mh_authenticated := True\<rparr> else h1))"

text \<open>The fingerprint of the offered key is the library's.\<close>

definition auth_publickey :: "'h server \<Rightarrow> str \<Rightarrow> str \<Rightarrow> 'h mimic_handler \<Rightarrow> bool \<times> 'h mimic_handler" where
  "auth_publickey sv user fingerprint h0 =
     (let h = h0\<lparr>mh_auth_attempts := mh_auth_attempts h0 + 1\<rparr>
      in (False, log_ev (ev_auth_attempt (sv_log sv) (mh_session_id h) (mh_peer h) user ''publickey'' None (Some fingerprint) False) h))"

definition channel_open_session :: "'h server \<Rightarrow> byte list \<Rightarrow> nat \<Rightarrow> 'h mimic_handler \<Rightarrow> 'h mimic_handler" where
  "channel_open_session sv remote_sshid ch h =
     (case try_open_channel ch (log_client_banner sv remote_sshid h) of (ok, h1) \<Rightarrow>
        send ch (if ok then OpenAccepted else OpenProhibited) h1)"

definition sanitise_term :: "str \<Rightarrow> str" where
  "sanitise_term term1 =
     (let cleaned = concat (take 64 (filter (\<lambda>c. case c of
            [b] \<Rightarrow> is_ascii_alnum b \<or> b = CHR ''-'' \<or> b = CHR ''_'' \<or> b = CHR ''.'' \<or> b = CHR ''+''
          | _ \<Rightarrow> False) (chars term1)))
      in if cleaned = [] then ''xterm-256color'' else cleaned)"

definition sanitise_env_value :: "str \<Rightarrow> str" where
  "sanitise_env_value x = concat (take 256 (filter (\<lambda>c. \<not> is_control c) (chars x)))"

definition pty_request_call :: "'h server \<Rightarrow> byte list \<Rightarrow> nat \<Rightarrow> str \<Rightarrow> nat \<Rightarrow> nat \<Rightarrow> 'h mimic_handler \<Rightarrow> 'h mimic_handler" where
  "pty_request_call sv remote_sshid ch term1 cols rows h =
     send ch ChannelSuccess
       ((log_client_banner sv remote_sshid (h\<lparr>mh_pty := True\<rparr>))
          \<lparr>mh_pty_term := Some \<lparr>pt_term = sanitise_term term1, pt_cols = (if cols = 0 then 80 else min cols 10000),
             pt_rows = (if rows = 0 then 24 else min rows 10000)\<rparr>\<rparr>)"

definition env_request :: "nat \<Rightarrow> str \<Rightarrow> str \<Rightarrow> 'h mimic_handler \<Rightarrow> 'h mimic_handler" where
  "env_request ch name x h =
     (if name = ''LANG'' \<or> starts_with name ''LC_'' then
        send ch ChannelSuccess
          (if length (mh_accepted_env h) < MAX_ACCEPTED_ENV
           then h\<lparr>mh_accepted_env := mh_accepted_env h @ [(name, sanitise_env_value x)]\<rparr> else h)
      else send ch ChannelFailure h)"

definition window_change_request :: "nat \<Rightarrow> nat \<Rightarrow> nat \<Rightarrow> 'h mimic_handler \<Rightarrow> 'h mimic_handler" where
  "window_change_request ch cols rows h =
     (let term1 = map_option (\<lambda>p. p\<lparr>pt_cols := (if cols > 0 then min cols 10000 else pt_cols p),
                                   pt_rows := (if rows > 0 then min rows 10000 else pt_rows p)\<rparr>) (mh_pty_term h);
          h1 = h\<lparr>mh_pty_term := term1\<rparr>;
          h2 = (case (mh_shell h1, term1) of
                  (Some s, Some p) \<Rightarrow>
                    put_shell (s\<lparr>sh_env := env_set (env_set (sh_env s) ''COLUMNS'' (show_nat (pt_cols p))) ''LINES'' (show_nat (pt_rows p))\<rparr>) h1
                | _ \<Rightarrow> h1)
      in send ch ChannelSuccess h2)"

definition subsystem_request :: "'h server \<Rightarrow> nat \<Rightarrow> str \<Rightarrow> 'h mimic_handler \<Rightarrow> 'h mimic_handler" where
  "subsystem_request sv ch name h =
     (if name = ''sftp'' then
        send ch ChannelSuccess
          ((log_ev (ev_subsystem_request (sv_log sv) (mh_session_id h) (mh_peer h) ''sftp'' True) h)\<lparr>mh_sftp := Some sftp_new\<rparr>)
      else
        send ch ChannelFailure (log_ev (ev_subsystem_request (sv_log sv) (mh_session_id h) (mh_peer h) name False) h))"

definition agent_request :: "nat \<Rightarrow> 'h mimic_handler \<Rightarrow> bool \<times> 'h mimic_handler" where
  "agent_request ch h = (False, send ch ChannelFailure h)"

definition motd :: "'h mimic_handler \<Rightarrow> str" where
  "motd h =
     ''Linux '' @ cfg_hostname (mh_config h) @ '' 6.1.0-21-amd64 #1 SMP PREEMPT_DYNAMIC Debian 6.1.90-1 (2024-05-03) x86_64'' @ nl
     @ nl
     @ ''The programs included with the Debian GNU/Linux system are free software;'' @ nl
     @ ''the exact distribution terms for each program are described in the'' @ nl
     @ ''individual files in /usr/share/doc/*/copyright.'' @ nl
     @ nl
     @ ''Debian GNU/Linux comes with ABSOLUTELY NO WARRANTY, to the extent'' @ nl
     @ ''permitted by applicable law.'' @ nl"

definition shell_request :: "'h server \<Rightarrow> nat \<Rightarrow> 'h mimic_handler \<Rightarrow> 'h mimic_handler" where
  "shell_request sv ch h0 =
     (let h = (send ch ChannelSuccess h0)\<lparr>mh_shell_started := True\<rparr>;
          s = shell_of sv h;
          h1 = put_shell (s\<lparr>sh_interactive := mh_pty h\<rparr>) h;
          h2 = send ch (Data (out_bytes h1 (motd h1))) h1
      in if \<not> mh_pty h2 then h2
         else case prev_login (w_now (sv_world sv)) (mh_clock h2) of ((prev, _), c) \<Rightarrow>
           shell_prompt_again sv ch
             (send ch (Data (out_bytes h2 (''Last login: '' @ clock_format prev ''%a %b %e %H:%M:%S %Y'' @ '' from '' @ PREV_LOGIN_FROM @ nl)))
               (h2\<lparr>mh_clock := c\<rparr>)))"

definition exec_request :: "'h server \<Rightarrow> nat \<Rightarrow> byte list \<Rightarrow> 'h mimic_handler \<Rightarrow> 'h mimic_handler outcome" where
  "exec_request sv ch dat h0 =
     (let h = send ch ChannelSuccess h0; cmd = trim (from_utf8_lossy (take MAX_COMMAND_LEN dat)) in
      case parse_scp cmd of
        Some (Sink target rec) \<Rightarrow>
          Done (send ch (Data [CHR 0x00])
            ((log_command sv (''[scp upload to '' @ target @ '']'') STransfer None (log_command sv cmd SExec None h))
               \<lparr>mh_scp := Some (scp_new target rec (cfg_max_upload_bytes (mh_config h)))\<rparr>))
      | Some (Source path) \<Rightarrow>
          Done (end_channel sv ch 1
            (send ch (Data ([CHR 0x01] @ ''scp: '' @ path @ '': No such file or directory'' @ nl)) (log_command sv cmd SExec (Some 1) h)))
      | None \<Rightarrow>
          (let s = (shell_of sv h)\<lparr>sh_interactive := False\<rparr> in
           obind (execute (sv_world sv) (sv_dispatch sv) s cmd) (\<lambda>(o1, s1).
           obind (finish_heredoc_at_eof (sv_world sv) (sv_dispatch sv) s1) (\<lambda>(fin, s2).
             (let h1 = put_shell s2 h;
                  h2 = (if fin = None then h1 else log_closed_heredoc sv h1);
                  o2 = (case fin of None \<Rightarrow> o1 | Some o' \<Rightarrow> o');
                  s3 = shell_of sv h2;
                  h3 = drain_captures sv (log_command sv cmd SExec (Some (o_status o2)) (put_shell (s3\<lparr>sh_pending := None\<rparr>) h2))
              in Done (end_channel sv ch (status_u32 (o_status o2)) (write_output ch o2 h3)))))))"

definition data_request :: "'h server \<Rightarrow> nat \<Rightarrow> byte list \<Rightarrow> 'h mimic_handler \<Rightarrow> 'h mimic_handler outcome" where
  "data_request sv ch dat h = (case mh_sftp h of
      Some f \<Rightarrow>
        (case sftp_feed (sv_world sv) (sv_hasher sv) (cfg_max_upload_bytes (mh_config h)) f (shell_of sv h) dat of
           None \<Rightarrow> OutOfFuel
         | Some (resp, f1, s1, ups) \<Rightarrow>
             Done (send_data ch resp (fold (store_sftp_upload sv) ups (h\<lparr>mh_sftp := Some f1, mh_shell := Some s1\<rparr>))))
    | None \<Rightarrow>
        (case mh_scp h of
           Some k \<Rightarrow>
             (case feed (sv_hasher sv) k dat of (k1, acks, files) \<Rightarrow>
                Done (send_data ch acks (fold (store_upload sv) files (h\<lparr>mh_scp := Some k1\<rparr>))))
         | None \<Rightarrow>
             if \<not> mh_pty h then feed_no_tty sv ch dat h
             else case mh_screen h of
                 None \<Rightarrow> terminal_bytes sv ch dat h
               | Some hold \<Rightarrow>
                   (case screen_bytes dat h of
                      (None, h1) \<Rightarrow> Done h1
                    | (Some rest, h1) \<Rightarrow>
                        terminal_bytes sv ch rest
                          (shell_prompt_again sv ch
                            (send ch (Data (if ho_kind hold = KListen then out_bytes h1 (''^C'' @ nl) else out_bytes h1 SCREEN_HOME)) h1)))))"

definition channel_eof :: "'h server \<Rightarrow> nat \<Rightarrow> 'h mimic_handler \<Rightarrow> 'h mimic_handler outcome" where
  "channel_eof sv ch h =
     (if mh_scp h \<noteq> None then Done (end_channel sv ch 0 (h\<lparr>mh_scp := None\<rparr>))
      else if mh_sftp h \<noteq> None then
        Done (end_channel sv ch 0 (drain_sftp_uploads sv (put_shell (shell_of sv h) h)))
      else if mh_shell_started h \<and> mh_active_channel h = Some ch then
        (if \<not> mh_pty h then
           obind (if mh_line_buf h \<noteq> [] then run_no_tty_line sv ch (buffered_line h) (h\<lparr>mh_line_buf := []\<rparr>) else Done (False, h)) (\<lambda>(ended, h1).
             if ended then Done h1
             else
               obind (finish_heredoc_at_eof (sv_world sv) (sv_dispatch sv) (shell_of sv h1)) (\<lambda>(fin, s).
                 case (case fin of
                         None \<Rightarrow> (False, put_shell s h1)
                       | Some o1 \<Rightarrow> deliver sv ch o1 (log_closed_heredoc sv (put_shell s h1))) of
                   (ended2, h2) \<Rightarrow>
                     if ended2 then Done h2
                     else (let s2 = shell_of sv h2 in Done (end_channel sv ch (status_u32 (sh_last_status s2)) (put_shell s2 h2)))))
         else
           (let h1 = send ch (Data (out_bytes h LOGOUT)) h; s = shell_of sv h1
            in Done (end_channel sv ch (status_u32 (sh_last_status s)) (put_shell s h1))))
      else Done h)"

text \<open>The handler is dropped when the connection ends, however it ends.\<close>

definition drop_handler :: "'h server \<Rightarrow> 'h mimic_handler \<Rightarrow> 'h mimic_handler" where
  "drop_handler sv h0 =
     (let h = drain_sftp_uploads sv h0
      in log_ev (ev_connection_closed (sv_log sv) (mh_session_id h) (mh_peer h) (nat (w_now (sv_world sv) - mh_opened_at h)) (mh_command_count h)) h)"

end
