(* ===== verification/Vfs_Props.thy ===== *)
theory Vfs_Props
  imports Vfs_Paths
begin

text \<open>
  The correctness properties of the virtual filesystem, stated over the states that its own
  operations reach (\<open>vfs_states\<close>), and the concrete filesystem their witnesses use:
  \<open>/tmp\<close> holding a file \<open>a\<close> and a directory \<open>d\<close>, the fixture of the source's tests.
\<close>

section \<open>Resolution stays among the linked nodes\<close>

lemma reachable_range: "reachable v i \<Longrightarrow> wf_tree v \<Longrightarrow> i < fsize v"
proof (induction rule: reachable.induct)
  case reach_root
  then show ?case using wf_treeD(1,2) by simp
qed (auto dest: wf_treeD(7))

lemma reachable_parent:
  assumes wf: "wf_tree v" and "reachable v i"
  shows "reachable v (parent_or_root v i)"
  using assms(2)
proof (cases rule: reachable.cases)
  case reach_root
  then show ?thesis
    using wf_treeD(1,3) [OF wf] reachable.reach_root [of v] by (simp add: parent_or_root_def)
next
  case (reach_child d nm)
  then show ?thesis using wf_treeD(8) [OF wf] by (auto simp: parent_or_root_def)
qed

text \<open>Resolution stays within any set of nodes that holds the root and is closed under entries and parents.\<close>

definition closed_nodes :: "vfs \<Rightarrow> (node_id \<Rightarrow> bool) \<Rightarrow> bool" where
  "closed_nodes v P \<longleftrightarrow> P (fs_root v) \<and> (\<forall>d nm c. P d \<and> child v d nm = Some c \<longrightarrow> P c)
     \<and> (\<forall>i. P i \<longrightarrow> P (parent_or_root v i))"

lemma closed_nodesD:
  assumes "closed_nodes v P"
  shows "P (fs_root v)" "P d \<Longrightarrow> child v d nm = Some c \<Longrightarrow> P c" "P i \<Longrightarrow> P (parent_or_root v i)"
  using assms unfolding closed_nodes_def by blast+

lemma resolve_closed_aux:
  "closed_nodes v P \<longrightarrow> P start \<longrightarrow> (\<forall>j. resolve_inner v start path depth = Some j \<longrightarrow> P j)"
  "closed_nodes v' P \<longrightarrow> P cur \<longrightarrow> (\<forall>j. resolve_comps v' cur segs depth' = Some j \<longrightarrow> P j)"
  "closed_nodes v'' P \<longrightarrow> P i \<longrightarrow> (\<forall>j. follow v'' i depth'' = Some j \<longrightarrow> P j)"
proof (induction v start path depth and v' cur segs depth' and v'' i depth''
    rule: resolve_inner_resolve_comps_follow.induct)
  case (1 v start path depth)
  show ?case
  proof (intro impI allI)
    fix j assume cl: "closed_nodes v P" and st: "P start" and res: "resolve_inner v start path depth = Some j"
    let ?s = "if starts_with path ''/'' then fs_root v else start"
    have "\<not> depth > MAX_SYMLINK_DEPTH" "resolve_comps v ?s (split_on (CHR ''/'') path) depth = Some j"
      using res by (simp_all only: resolve_inner.simps split: if_split_asm) simp_all
    moreover have "P ?s" using st closed_nodesD(1) [OF cl] by simp
    ultimately show "P j" using "1.IH" cl by blast
  qed
next
  case (2 v current depth)
  then show ?case by simp
next
  case (3 v current seg segs depth)
  show ?case
  proof (intro impI allI)
    fix j assume cl: "closed_nodes v P" and cur: "P current"
      and res: "resolve_comps v current (seg # segs) depth = Some j"
    consider "seg = [] \<or> seg = ''.''" | "seg = ''..''" | "\<not> (seg = [] \<or> seg = ''.'')" "seg \<noteq> ''..''" by blast
    then show "P j"
    proof cases
      case 1
      with res have "resolve_comps v current segs depth = Some j" by (simp only: resolve_comps.simps if_True)
      then show ?thesis using "3.IH"(1) [OF 1] cl cur by blast
    next
      case 2
      with res have "resolve_comps v (parent_or_root v current) segs depth = Some j" by simp
      then show ?thesis using "3.IH"(2) 2 cl closed_nodesD(3) [OF cl cur] by blast
    next
      case 3
      note named = this
      with res obtain ch c n where ch: "n_kind (fnode v current) = Directory ch" "bt_get ch seg = Some c"
        "follow v c depth = Some n" "resolve_comps v n segs depth = Some j"
        by (auto split: node_kind.splits option.splits)
      then have "child v current seg = Some c" by (simp add: child_def)
      then have "P c" using closed_nodesD(2) [OF cl cur] by blast
      then show ?thesis using "3.IH"(3,4) named cl ch by blast
    qed
  qed
next
  case (4 v i depth)
  show ?case
  proof (intro impI allI)
    fix j assume cl: "closed_nodes v P" and i: "P i" and res: "follow v i depth = Some j"
    show "P j"
    proof (cases "\<exists>t. n_kind (fnode v i) = Symlink t")
      case True
      then obtain t where t: "n_kind (fnode v i) = Symlink t" by blast
      with res have "resolve_inner v (parent_or_root v i) t (depth + 1) = Some j"
        by (simp only: follow.simps node_kind.case)
      with "4.IH" [OF t] cl closed_nodesD(3) [OF cl i] show ?thesis by blast
    next
      case False
      then have "follow v i depth = Some i" using follow_no_symlink by blast
      then show ?thesis using res i by simp
    qed
  qed
qed

lemma resolve_closed: "closed_nodes v P \<Longrightarrow> P start \<Longrightarrow> resolve v start path = Some j \<Longrightarrow> P j"
  using resolve_closed_aux(1) unfolding resolve_def by blast

lemma closed_reachable: "wf_tree v \<Longrightarrow> closed_nodes v (reachable v)"
  using reachable.intros reachable_parent child_has_child reachable_range unfolding closed_nodes_def by metis

lemma parent_or_root_range:
  assumes "wf_tree v" "i < fsize v"
  shows "parent_or_root v i < fsize v"
proof -
  obtain k where "at_depth v i k" using wf_treeD(4) assms by blast
  then show ?thesis using wf_treeD(1,2) [OF assms(1)]
    by cases (auto simp: parent_or_root_def dest: at_depth_range)
qed

lemma resolve_range: "wf_vfs v \<Longrightarrow> start < fsize v \<Longrightarrow> resolve v start path = Some j \<Longrightarrow> j < fsize v"
  using resolve_closed [of v "\<lambda>i. i < fsize v"] wf_treeD(1,2) [of v] child_range parent_or_root_range
  unfolding closed_nodes_def by (metis wf_vfsD(1))

section \<open>Reading back what was written\<close>

lemma file_bytes_add_file:
  assumes room: "has_room (length c) v d nm"
  shows "file_bytes t (fnode (snd (add_file now v d nm c perms u g)) (fst (add_file now v d nm c perms u g)))
    = Some c"
proof (cases "child v d nm")
  case None
  then show ?thesis
    using room add_file_room [OF room, of now perms u g]
    by (auto simp: file_bytes_def Let_def has_room_def fnode_ins_node)
next
  case (Some i)
  then have "i < fsize v" using room child_range by (auto simp: has_room_def)
  with Some show ?thesis
    using add_file_room [OF room, of now perms u g]
    by (simp add: file_bytes_def Let_def fnode_upd_node)
qed

section \<open>A concrete filesystem\<close>

definition fx1 :: vfs where "fx1 = snd (mkdir 0 (vfs_new 0) 0 ''tmp'' 0x3FF 0 0)"
definition fx2 :: vfs where "fx2 = snd (add_file 0 fx1 1 ''a'' ''hello'' o644 0 0)"
definition fx3 :: vfs where "fx3 = snd (mkdir 0 fx2 1 ''d'' o755 0 0)"
definition fx4 :: vfs where "fx4 = snd (add_file 0 fx3 3 ''inner'' ''x'' o644 0 0)"

lemmas fs_eval = mkdir_def add_file_def vfs_insert_def child_def is_full_def depth_of_def depth_loop.simps
  upd_node_def link_child_def metadata_new_def bt_get_def Let_def
  MAX_VFS_NODES_def MAX_VFS_DEPTH_def MAX_VFS_BYTES_def S_IFDIR_def S_IFREG_def

lemmas fx_eval = fx4_def fx3_def fx2_def fx1_def vfs_new_def fs_eval file_len_def

lemma fx_sizes: "fsize (vfs_new 0) = 1" "fsize fx1 = 2" "fsize fx2 = 3" "fsize fx3 = 4" "fsize fx4 = 5"
  by (simp_all add: fx_eval)

lemma fx_kinds:
  "n_kind (fnode fx4 0) = Directory [(''tmp'', 1)]"
  "n_kind (fnode fx4 1) = Directory [(''a'', 2), (''d'', 3)]"
  "n_kind (fnode fx4 2) = File ''hello''"
  "n_kind (fnode fx4 3) = Directory [(''inner'', 4)]"
  "n_kind (fnode fx4 4) = File ''x''"
  by (simp_all add: fx_eval)

lemma fx_up:
  "n_parent (fnode fx4 0) = None" "n_parent (fnode fx4 1) = Some 0" "n_parent (fnode fx4 2) = Some 1"
  "n_parent (fnode fx4 3) = Some 1" "n_parent (fnode fx4 4) = Some 3"
  "n_name (fnode fx4 1) = ''tmp''" "n_name (fnode fx4 2) = ''a''" "n_name (fnode fx4 3) = ''d''"
  "n_name (fnode fx4 4) = ''inner''" "content_bytes fx4 = 6" "fs_root fx4 = 0"
  by (simp_all add: fx_eval)

lemmas fx_facts = fx_sizes fx_kinds fx_up fx_kinds [unfolded One_nat_def] fx_up [unfolded One_nat_def]

lemma path_loop_step:
  "path_loop v k cur parts =
     (if k = 0 then parts
      else case n_parent (fnode v cur) of
             None \<Rightarrow> parts | Some p \<Rightarrow> path_loop v (k - 1) p (parts @ [n_name (fnode v cur)]))"
  by (cases k) (simp_all cong: option.case_cong)

lemma fx_states: "vfs_states fx4"
proof -
  have "vfs_states fx1" unfolding fx1_def
    by (rule vfs_next [OF vfs_start [of 0]]) (rule step_mkdir, simp add: fx_sizes)
  then have "vfs_states fx2" unfolding fx2_def
    by (rule vfs_next) (rule step_add_file, simp add: fx_sizes)
  then have "vfs_states fx3" unfolding fx3_def
    by (rule vfs_next) (rule step_mkdir, simp add: fx_sizes)
  then show ?thesis unfolding fx4_def
    by (rule vfs_next) (rule step_add_file, simp add: fx_sizes)
qed

section \<open>Creating a whole path\<close>

text \<open>
  \<open>walk\<close> follows literal child links. \<open>clear_path v i segs\<close>: starting at directory \<open>i\<close>, every
  component that exists and is not the last one is itself a directory.
\<close>

fun walk :: "vfs \<Rightarrow> node_id \<Rightarrow> str list \<Rightarrow> node_id option" where
  "walk v i [] = Some i"
| "walk v i (nm # nms) = (case child v i nm of None \<Rightarrow> None | Some c \<Rightarrow> walk v c nms)"

definition dir_node :: "vfs \<Rightarrow> node_id \<Rightarrow> bool" where
  "dir_node v i = (case n_kind (fnode v i) of Directory _ \<Rightarrow> True | _ \<Rightarrow> False)"

fun clear_path :: "vfs \<Rightarrow> node_id \<Rightarrow> str list \<Rightarrow> bool" where
  "clear_path v i [] = True"
| "clear_path v i (nm # nms) =
     (dir_node v i \<and> (case child v i nm of None \<Rightarrow> True | Some c \<Rightarrow> clear_path v c nms))"

definition real_segs :: "str list \<Rightarrow> str list" where
  "real_segs segs = filter (\<lambda>s. s \<noteq> [] \<and> s \<noteq> ''.'') segs"

lemma mkdir_keeps:
  assumes "wf_vfs v" "p < fsize v" "dir_node v p" "e < fsize v"
  shows "child v e m = Some c \<Longrightarrow> child (snd (mkdir now v p nm perms u g)) e m = Some c"
  using assms wf_vfsD(1) [OF assms(1)]
  by (cases "child v p nm"; cases "is_full v p")
    (auto simp: mkdir_def vfs_insert_eq child_ins_node dir_node_def split: node_kind.splits)

lemma mkdir_new_dir:
  assumes "wf_vfs v" "p < fsize v" "dir_node v p" "mkdir now v p nm perms u g = (j, w)" "j \<noteq> p"
  shows "child w p nm = Some j" and "child v p nm = None \<Longrightarrow> dir_node w j \<and> (\<forall>m. child w j m = None)"
    and "child v p nm = Some c \<Longrightarrow> w = v \<and> j = c"
proof -
  obtain ch where ch: "n_kind (fnode v p) = Directory ch"
    using assms(3) by (auto simp: dir_node_def split: node_kind.splits)
  show "child w p nm = Some j"
    using assms ch wf_vfsD(1) [OF assms(1)]
    by (cases "child v p nm"; cases "is_full v p") (auto simp: mkdir_def vfs_insert_eq child_ins_node)
  show "dir_node w j \<and> (\<forall>m. child w j m = None)" if "child v p nm = None"
    using assms that
    by (auto simp: mkdir_def vfs_insert_eq dir_node_def child_def fnode_ins_node bt.get_empty
        split: if_splits)
  show "w = v \<and> j = c" if "child v p nm = Some c" using assms(4) that by (simp add: mkdir_def)
qed

lemma clear_path_mkdir:
  assumes "wf_vfs v" "p < fsize v" "dir_node v p" "mkdir now v p nm perms u g = (j, w)" "j \<noteq> p"
    and "clear_path v p (nm # nms)"
  shows "clear_path w j nms"
proof (cases "child v p nm")
  case None
  then show ?thesis using mkdir_new_dir(2) [OF assms(1-5)] by (cases nms) auto
next
  case (Some c)
  then show ?thesis using mkdir_new_dir(3) [OF assms(1-5) Some] assms(6) by simp
qed

lemma mkdir_p_keeps:
  "wf_vfs v \<Longrightarrow> i < fsize v \<Longrightarrow> clear_path v i (real_segs segs) \<Longrightarrow> e < fsize v \<Longrightarrow>
     child v e m = Some c \<Longrightarrow> child (snd (mkdir_p_loop now v i segs perms u g)) e m = Some c"
proof (induction segs arbitrary: v i)
  case (Cons seg segs)
  show ?case
  proof (cases "seg = [] \<or> seg = ''.''")
    case True
    with Cons show ?thesis by (auto simp: real_segs_def)
  next
    case False
    with Cons.prems have d: "dir_node v i" by (simp add: real_segs_def)
    obtain j w where r: "mkdir now v i seg perms u g = (j, w)" by fastforce
    have w: "wf_vfs w" "j < fsize w" "fsize v \<le> fsize w"
      using good_mkdir [OF Cons.prems(1,2), of now seg perms u g] r by (auto simp: good_result_def)
    have keep: "child w e m = Some c"
      using mkdir_keeps [OF Cons.prems(1,2) d Cons.prems(4,5), of now seg perms u g] r by simp
    show ?thesis
    proof (cases "j = i")
      case True
      then show ?thesis using False r keep by simp
    next
      case ji: False
      have "clear_path w j (real_segs segs)"
        using clear_path_mkdir [OF Cons.prems(1,2) d r ji] Cons.prems(3) False by (simp add: real_segs_def)
      then show ?thesis using Cons.IH [OF w(1,2) _ _ keep] Cons.prems(4) w(3) False r ji by simp
    qed
  qed
qed simp

lemma mkdir_p_walk:
  "wf_vfs v \<Longrightarrow> i < fsize v \<Longrightarrow> clear_path v i (real_segs segs) \<Longrightarrow>
     mkdir_p_loop now v i segs perms u g = (Some j, w) \<Longrightarrow> walk w i (real_segs segs) = Some j"
proof (induction segs arbitrary: v i)
  case Nil
  then show ?case by (simp add: real_segs_def)
next
  case (Cons seg segs)
  show ?case
  proof (cases "seg = [] \<or> seg = ''.''")
    case True
    with Cons show ?thesis by (auto simp: real_segs_def)
  next
    case False
    with Cons.prems have d: "dir_node v i" by (simp add: real_segs_def)
    obtain n x where r: "mkdir now v i seg perms u g = (n, x)" by fastforce
    have x: "wf_vfs x" "n < fsize x" "fsize v \<le> fsize x"
      using good_mkdir [OF Cons.prems(1,2), of now seg perms u g] r by (auto simp: good_result_def)
    have ni: "n \<noteq> i" and loop: "mkdir_p_loop now x n segs perms u g = (Some j, w)"
      using Cons.prems(4) False r by (auto split: if_splits)
    have link: "child x i seg = Some n" using mkdir_new_dir(1) [OF Cons.prems(1,2) d r ni] .
    have clear: "clear_path x n (real_segs segs)"
      using clear_path_mkdir [OF Cons.prems(1,2) d r ni] Cons.prems(3) False by (simp add: real_segs_def)
    have "child w i seg = Some n"
      using mkdir_p_keeps [OF x(1,2) clear _ link, of now perms u g] Cons.prems(2) x(3) loop by simp
    moreover have "walk w n (real_segs segs) = Some j" using Cons.IH [OF x(1,2) clear loop] .
    ultimately show ?thesis using False by (simp add: real_segs_def)
  qed
qed

section \<open>Properties\<close>

text \<open>
  C2: Whatever sequence of filesystem calls a session makes, the arena stays within its memory
  caps (2,000 nodes, 8 MiB of counted content, which never undercounts the bytes stored), and
  every node linked under the root sits at most 128 levels deep, as measured by \<open>depth_of\<close>.
\<close>

theorem vfs_states_bounded:
  assumes "vfs_states v"
  shows "fsize v \<le> 2000 \<and> stored_bytes v \<le> content_bytes v \<and> content_bytes v \<le> 8388608
    \<and> (\<forall>i. reachable v i \<longrightarrow> i < fsize v \<and> depth_of v i \<le> 128)"
proof -
  have wf: "wf_tree v" "wf_caps v" using vfs_states_wf [OF assms] by auto
  have "i < fsize v \<and> depth_of v i \<le> 128" if "reachable v i" for i
  proof -
    have i: "i < fsize v" using reachable_range [OF that wf(1)] .
    then obtain k where "at_depth v i k" using wf_treeD(4) [OF wf(1)] by blast
    then show ?thesis using i wf(2) that by (simp add: depth_of_correct wf_caps_def MAX_VFS_DEPTH_def)
  qed
  then show ?thesis
    using wf(2) by (simp add: wf_caps_def MAX_VFS_NODES_def MAX_VFS_BYTES_def)
qed

theorem vfs_states_bounded_witness:
  "vfs_states fx4 \<and> fsize fx4 \<le> 2000 \<and> content_bytes fx4 = 6"
  using vfs_states_bounded [OF fx_states] fx_states fx_up by simp

text \<open>
  C11: The arena is always a tree: every node's parent chain ends at the root within the arena
  (there is no cycle, so no tree walker can loop), a child entry and the child's own parent and
  name agree, and no node is linked under two names.
\<close>

theorem vfs_states_tree:
  assumes "vfs_states v"
  shows "(\<forall>i < fsize v. anc v (fs_root v) i \<and> (\<exists>k < fsize v. at_depth v i k))
    \<and> (\<forall>d nm c. has_child v d nm c \<longrightarrow> n_parent (fnode v c) = Some d \<and> n_name (fnode v c) = nm)
    \<and> (\<forall>d nm d' nm' c. has_child v d nm c \<longrightarrow> has_child v d' nm' c \<longrightarrow> d = d' \<and> nm = nm')"
proof -
  have wf: "wf_tree v" using vfs_states_wf [OF assms] by blast
  have "anc v (fs_root v) i \<and> (\<exists>k < fsize v. at_depth v i k)" if "i < fsize v" for i
    using wf_treeD(1,4) [OF wf] that root_anc [OF wf] at_depth_less by metis
  moreover have "d = d' \<and> nm = nm'" if "has_child v d nm c" "has_child v d' nm' c" for d nm d' nm' c
    using wf_treeD(8,9) [OF wf that(1)] wf_treeD(8,9) [OF wf that(2)] by simp
  ultimately show ?thesis using wf_treeD(8,9) [OF wf] by blast
qed

theorem vfs_states_tree_witness: "vfs_states fx4 \<and> anc fx4 (fs_root fx4) 4"
  using vfs_states_tree [OF fx_states] fx_states fx_sizes by simp

lemma rename_result:
  assumes wf: "wf_vfs v" and "i < fsize v" "np < fsize v" "at_depth v np m"
  shows "\<exists>b. rename v i np nm = Some (b, if b then relink v i np nm else v)
    \<and> (b \<longleftrightarrow> may_move v i np \<and> (\<forall>x k. desc v i x k \<longrightarrow> m + 1 + k \<le> MAX_VFS_DEPTH))"
proof -
  have t: "wf_tree v" using wf by blast
  obtain h where h: "height_of v i = Some h" using height_of_terminates [OF t assms(2)] by blast
  have "(\<forall>x k. desc v i x k \<longrightarrow> m + 1 + k \<le> MAX_VFS_DEPTH) \<longleftrightarrow> depth_of v np + 1 + h \<le> MAX_VFS_DEPTH"
    using height_of_max [OF t assms(2) h] depth_of_correct [OF assms(4)] by fastforce
  moreover have "may_move v i np \<longleftrightarrow> (\<exists>ch. n_kind (fnode v np) = Directory ch) \<and> \<not> is_ancestor_of v i np"
    using t assms is_ancestor_of_correct [OF assms(4,2)] by (auto simp: may_move_def)
  ultimately show ?thesis using h
    by (cases "n_kind (fnode v np)") (auto simp: rename_def not_less)
qed

text \<open>
  C26: \<open>rename\<close> always returns. It moves the node exactly when the new parent is a directory, the node is not the
  new parent or one of its ancestors, and no node of the moved subtree comes to lie deeper than 128 levels;
  otherwise it changes nothing. When it moves the node, the node is found under its new parent and name and nowhere else,
  and the arena is still a well-formed tree within its caps.
\<close>

theorem rename_safe:
  assumes "vfs_states v" "i < fsize v" "np < fsize v" "at_depth v np m"
  shows "\<exists>b w. rename v i np nm = Some (b, w) \<and> wf_vfs w
    \<and> (b \<longleftrightarrow> (\<exists>ch. n_kind (fnode v np) = Directory ch) \<and> \<not> anc v i np \<and> (\<forall>x k. desc v i x k \<longrightarrow> m + 1 + k \<le> 128))
    \<and> (\<not> b \<longrightarrow> w = v)
    \<and> (b \<longrightarrow> child w np nm = Some i \<and> n_parent (fnode w i) = Some np \<and> n_name (fnode w i) = nm
         \<and> (\<forall>d nm'. has_child w d nm' i \<longrightarrow> d = np \<and> nm' = nm))"
proof -
  have wf: "wf_vfs v" using vfs_states_wf [OF assms(1)] .
  let ?w = "relink v i np nm"
  obtain b where r: "rename v i np nm = Some (b, if b then ?w else v)"
      and b: "b \<longleftrightarrow> may_move v i np \<and> (\<forall>x k. desc v i x k \<longrightarrow> m + 1 + k \<le> MAX_VFS_DEPTH)"
    using rename_result [OF wf assms(2-4), of nm] by blast
  have iff: "b \<longleftrightarrow> (\<exists>ch. n_kind (fnode v np) = Directory ch) \<and> \<not> anc v i np \<and> (\<forall>x k. desc v i x k \<longrightarrow> m + 1 + k \<le> 128)"
    using b wf assms(2,3) by (auto simp: may_move_def MAX_VFS_DEPTH_def)
  show ?thesis
  proof (cases b)
    case False
    then show ?thesis using r iff wf by auto
  next
    case True
    then have mv: "may_move v i np" using b by blast
    have w: "wf_vfs ?w" using wf_rename [OF wf assms(2,3)] r True by simp
    have "child ?w np nm = Some i"
      using child_has_child [of ?w np nm i] w has_child_relink_new [OF mv, of nm] assms(3) by auto
    moreover have "d = np \<and> nm' = nm" if "has_child ?w d nm' i" for d nm'
      using wf_treeD(8,9) [OF wf_vfsD(1) [OF w] that] relink_up [OF mv, of nm i] by simp
    ultimately show ?thesis using r iff True w relink_up [OF mv, of nm i] by auto
  qed
qed

theorem rename_safe_witness:
  "rename fx4 1 3 ''x'' = Some (False, fx4)
   \<and> (\<exists>w. rename fx4 2 0 ''b'' = Some (True, w) \<and> child w 0 ''b'' = Some 2)"
proof -
  have ids: "1 < fsize fx4" "2 < fsize fx4" "3 < fsize fx4" "0 < fsize fx4" by (simp_all add: fx_sizes)
  have d: "at_depth fx4 0 0" by (rule at_depth.at_root) (simp_all add: fx_facts)
  then have "at_depth fx4 1 (Suc 0)" by (rule at_depth.at_below [rotated 2]) (simp_all add: fx_facts)
  then have d3: "at_depth fx4 3 (Suc (Suc 0))" by (rule at_depth.at_below [rotated 2]) (simp_all add: fx_facts)
  have anc: "anc fx4 1 3" by (rule anc.anc_step [of _ _ 1]) (simp_all add: fx_facts anc.anc_refl)
  have one: "rename fx4 1 3 ''x'' = Some (False, fx4)"
    using rename_safe [OF fx_states ids(1,3) d3, of "''x''"] anc by auto
  have "\<not> anc fx4 2 0" by (subst anc_iff) (simp add: fx_facts)
  moreover have "k = 0" if "desc fx4 2 x k" for x k
    using that by cases (auto simp: has_child_def fx_facts)
  ultimately show ?thesis using one rename_safe [OF fx_states ids(2,4) d, of "''b''"] fx_kinds(1) by fastforce
qed

text \<open>
  The worklist of \<open>height_of\<close>, which runs without a bound, always ends, and what it returns
  is the length of the longest chain of child links below the node.
\<close>

theorem height_of_correct:
  assumes "vfs_states v" "i < fsize v"
  shows "\<exists>h. height_of v i = Some h \<and> (\<forall>x k. desc v i x k \<longrightarrow> k \<le> h) \<and> (\<exists>x. desc v i x h)"
proof -
  have wf: "wf_tree v" using vfs_states_wf [OF assms(1)] by blast
  obtain h where "height_of v i = Some h" using height_of_terminates [OF wf assms(2)] by blast
  then show ?thesis using height_of_max [OF wf assms(2)] by blast
qed

theorem height_of_correct_witness: "vfs_states fx4 \<and> height_of fx4 1 = Some 2 \<and> (\<exists>x. desc fx4 1 x 2)"
proof -
  have "height_of fx4 1 = Some 2"
    by (simp add: height_of_def height_loop.simps push_children_def fx_facts)
  moreover have "1 < fsize fx4" by (simp add: fx_sizes)
  ultimately show ?thesis using height_of_correct [OF fx_states, of 1] fx_states by simp
qed

text \<open>
  C36: \<open>path_of\<close> and \<open>resolve\<close> are inverse: the absolute path printed for a node that is linked
  under the root and is not a symbolic link resolves back to that node, from any working
  directory (for names without a slash that are not empty, \<open>.\<close> or \<open>..\<close>).
\<close>

theorem path_of_roundtrip:
  assumes "vfs_states v" "names_ok v" "reachable v i" "\<forall>t. n_kind (fnode v i) \<noteq> Symlink t"
  shows "resolve v start (path_of v i) = Some i"
proof -
  have wf: "wf_tree v" using vfs_states_wf [OF assms(1)] by blast
  have "follow v i 0 = Some i" using follow_no_symlink assms(4) by blast
  then show ?thesis
    using resolve_path_of [OF wf assms(2,3) reachable_range [OF assms(3) wf], of start] by simp
qed

lemma fx_links: "has_child fx4 0 ''tmp'' 1" "has_child fx4 1 ''d'' 3" "has_child fx4 3 ''inner'' 4"
  by (simp_all add: has_child_def fx_facts)

lemma fx_reachable: "reachable fx4 0" "reachable fx4 1" "reachable fx4 3" "reachable fx4 4"
proof -
  show r0: "reachable fx4 0" using reachable.reach_root [of fx4] fx_up by simp
  then show r1: "reachable fx4 1" using reachable.reach_child fx_links by blast
  then show "reachable fx4 3" using reachable.reach_child fx_links by blast
  then show "reachable fx4 4" using reachable.reach_child fx_links by blast
qed

lemma fx_names: "names_ok fx4"
proof -
  have "name_ok (n_name (fnode fx4 i))" if "i \<in> {1, 2, 3, 4}" for i
    using that by (auto simp: fx_facts name_ok_def)
  moreover have "i \<in> {1, 2, 3, 4}" if "i < 5" "i \<noteq> 0" for i :: nat using that by auto
  ultimately show ?thesis by (simp add: names_ok_def fx_sizes)
qed

theorem path_of_roundtrip_witness:
  "vfs_states fx4 \<and> names_ok fx4 \<and> reachable fx4 4 \<and> path_of fx4 4 = ''/tmp/d/inner''
   \<and> resolve fx4 2 (path_of fx4 4) = Some 4"
proof -
  have "path_of fx4 4 = ''/tmp/d/inner''"
    by (simp add: path_of_def path_loop_step fx_facts)
  moreover have "\<forall>t. n_kind (fnode fx4 4) \<noteq> Symlink t" by (simp add: fx_kinds)
  ultimately show ?thesis
    using path_of_roundtrip [OF fx_states fx_names fx_reachable(4), of 2] fx_states fx_names fx_reachable by simp
qed

text \<open>
  A lookup never leaves the linked tree: from a linked starting directory, \<open>resolve\<close> only
  returns nodes linked under the root, so an unlinked (deleted) node cannot be reached by any
  path, through \<open>..\<close> or through any chain of symbolic links.
\<close>

theorem resolve_stays_linked:
  assumes "vfs_states v" "reachable v start" "resolve v start path = Some j"
  shows "reachable v j \<and> j < fsize v"
proof -
  have wf: "wf_tree v" using vfs_states_wf [OF assms(1)] by blast
  then have "reachable v j" using resolve_closed [OF closed_reachable] assms(2,3) by blast
  then show ?thesis using reachable_range wf by blast
qed

theorem resolve_stays_linked_witness:
  "vfs_states fx4 \<and> resolve fx4 0 ''/tmp/./d/..'' = Some 1 \<and> reachable fx4 1"
proof -
  have r: "resolve fx4 0 ''/tmp/./d/..'' = Some 1"
    by (simp add: resolve_def starts_with_def MAX_SYMLINK_DEPTH_def fx_facts bt_get_def parent_or_root_def)
  then show ?thesis
    using resolve_stays_linked [OF fx_states fx_reachable(1) r] fx_states by simp
qed

text \<open>
  A file written with \<open>add_file\<close> where there is room for it is found under its name and reads
  back byte for byte, every other directory entry of the arena is unchanged, and the new id is
  the existing entry's id when the name was taken.
\<close>

theorem add_file_readback:
  assumes "has_room (length c) v d nm" "add_file now v d nm c perms u g = (i, w)"
  shows "child w d nm = Some i \<and> file_bytes t (fnode w i) = Some c
    \<and> (\<forall>j. child v d nm = Some j \<longrightarrow> i = j)
    \<and> (\<forall>e m. in_arena v e \<longrightarrow> (e, m) \<noteq> (d, nm) \<longrightarrow> child v d nm \<noteq> Some e \<longrightarrow> child w e m = child v e m)"
  using file_dir.mk_look [OF assms(1), of now perms u g]
    file_dir.mk_frame [OF assms(1), where now = now and perms = perms and u = u and g = g]
    file_dir.mk_existing [OF assms(1), where now = now and perms = perms and u = u and g = g]
    file_bytes_add_file [OF assms(1), of t now perms u g] assms(2)
  by simp

lemma fx_wf: "wf_vfs fx4" "wf_tree fx4"
  using vfs_states_wf [OF fx_states] by auto

theorem add_file_readback_witness:
  "has_room (length ''abc'') fx4 1 ''new'' \<and>
   child (snd (add_file 7 fx4 1 ''new'' ''abc'' o644 0 0)) 1 ''new'' = Some 5 \<and>
   file_bytes 0 (fnode (snd (add_file 7 fx4 1 ''new'' ''abc'' o644 0 0)) 5) = Some ''abc''"
proof -
  have room: "has_room (length ''abc'') fx4 1 ''new''"
    by (simp add: has_room_def fx_wf fx_facts is_full_def depth_of_def depth_loop.simps
        MAX_VFS_NODES_def MAX_VFS_DEPTH_def MAX_VFS_BYTES_def)
  have "fst (add_file 7 fx4 1 ''new'' ''abc'' o644 0 0) = 5"
    using add_file_room [OF room, of 7 o644 0 0] by (simp add: child_def fx_facts bt_get_def Let_def)
  then have "add_file 7 fx4 1 ''new'' ''abc'' o644 0 0 = (5, snd (add_file 7 fx4 1 ''new'' ''abc'' o644 0 0))"
    by (simp add: prod_eq_iff)
  from add_file_readback [OF room this, of 0] room show ?thesis by simp
qed

text \<open>
  \<open>write_file\<close> is all or nothing. On a regular file it succeeds exactly when the new total
  stays within the byte cap; then the file holds the new contents (or the old ones followed by
  the new ones), its permissions and owner are kept, its time is refreshed, and the byte counter
  moves by exactly the size difference, its subtraction never underflowing. Otherwise nothing
  changes, and a node that is not a regular file is always refused.
\<close>

theorem write_file_spec:
  assumes "vfs_states v" "i < fsize v" "write_file now v i bs app = (b, w)"
  shows "(case n_kind (fnode v i) of
       File c \<Rightarrow>
         length c \<le> content_bytes v
         \<and> (b \<longleftrightarrow> content_bytes v - length c + (if app then length c else 0) + length bs \<le> MAX_VFS_BYTES)
         \<and> (if b then n_kind (fnode w i) = File (if app then c @ bs else bs)
              \<and> n_meta (fnode w i) = (n_meta (fnode v i))\<lparr>m_mtime := now\<rparr>
              \<and> content_bytes w + length c = content_bytes v + (if app then length c else 0) + length bs
              \<and> (\<forall>j. j \<noteq> i \<longrightarrow> fnode w j = fnode v j)
            else w = v)
     | _ \<Rightarrow> \<not> b \<and> w = v)"
proof (cases "n_kind (fnode v i)")
  case (File c)
  have "stored_bytes v \<le> content_bytes v"
    using vfs_states_wf [OF assms(1)] by (simp add: wf_vfs_def wf_caps_def)
  moreover have "length c \<le> stored_bytes v" using file_len_le_stored [OF assms(2)] File by (simp add: file_len_def)
  ultimately show ?thesis
    using File assms(2,3) by (cases app) (auto simp: write_file_def Let_def fnode_upd_node split: if_splits)
qed (use assms(3) in \<open>auto simp: write_file_def\<close>)

theorem write_file_spec_witness:
  "vfs_states fx4 \<and> (2::nat) < fsize fx4 \<and>
   (\<exists>w. write_file 9 fx4 2 ''!'' True = (True, w) \<and> n_kind (fnode w 2) = File ''hello!'')"
proof -
  have i: "2 < fsize fx4" by (simp add: fx_sizes)
  obtain b w where r: "write_file 9 fx4 2 ''!'' True = (b, w)" by fastforce
  have "b \<longleftrightarrow> content_bytes fx4 - 5 + 5 + 1 \<le> MAX_VFS_BYTES"
    and "b \<longrightarrow> n_kind (fnode w 2) = File ''hello!''"
    using write_file_spec [OF fx_states i r] by (auto simp: fx_facts split: if_splits)
  then show ?thesis using r i fx_states by (simp add: fx_facts MAX_VFS_BYTES_def)
qed

text \<open>
  \<open>mkdir_p\<close> puts the directory where its caller says it is: when no existing component of the
  path is a file or a symbolic link and the call returns an id, walking the path's components by
  child links from the root ends at that id.
\<close>

theorem mkdir_p_places:
  assumes "vfs_states v" "clear_path v (fs_root v) (real_segs (split_on (CHR ''/'') path))"
    and "mkdir_p now v path perms u g = (Some j, w)"
  shows "walk w (fs_root v) (real_segs (split_on (CHR ''/'') path)) = Some j \<and> wf_vfs w"
proof -
  have wf: "wf_vfs v" "wf_tree v" using vfs_states_wf [OF assms(1)] by auto
  then have "fs_root v < fsize v" using wf_treeD(1,2) by simp
  then show ?thesis
    using mkdir_p_walk [OF wf(1) _ assms(2)] assms(3) wf_mkdir_p [OF wf(1), of now path perms u g]
    by (simp add: mkdir_p_def)
qed

theorem mkdir_p_places_witness:
  "vfs_states fx4 \<and> (\<exists>w. mkdir_p 0 fx4 ''/tmp/new'' o755 0 0 = (Some 5, w) \<and> walk w 0 [''tmp'', ''new''] = Some 5)"
proof -
  obtain r w where m: "mkdir_p 0 fx4 ''/tmp/new'' o755 0 0 = (r, w)" by fastforce
  have segs: "real_segs (split_on (CHR ''/'') ''/tmp/new'') = [''tmp'', ''new'']" by (simp add: real_segs_def)
  have "r = Some 5"
    using m by (simp add: mkdir_p_def mkdir_def child_def fx_facts bt_get_def vfs_insert_eq is_full_def
        depth_of_def depth_loop.simps MAX_VFS_NODES_def MAX_VFS_DEPTH_def split: prod.splits)
  moreover have "clear_path fx4 (fs_root fx4) [''tmp'', ''new'']"
    by (simp add: fx_facts dir_node_def child_def bt_get_def)
  ultimately show ?thesis
    using mkdir_p_places [OF fx_states, of "''/tmp/new''" 0 o755 0 0 5 w, unfolded segs] m fx_states
    by (simp add: fx_facts del: walk.simps clear_path.simps)
qed

text \<open>
  The precondition of the previous property is needed, and \<open>mkdir_p\<close> does not check it: a path
  that runs through a regular file still returns an id, but the directory behind that id is
  linked nowhere, so nothing written below it can ever be seen.
\<close>

theorem mkdir_p_through_file_lost:
  "\<exists>w. mkdir_p 0 fx4 ''/tmp/a/x'' o755 0 0 = (Some 5, w) \<and> \<not> reachable w 5
     \<and> walk w 0 [''tmp'', ''a'', ''x''] = None"
proof -
  define w where "w = snd (mkdir_p 0 fx4 ''/tmp/a/x'' o755 0 0)"
  have m: "mkdir_p 0 fx4 ''/tmp/a/x'' o755 0 0 = (Some 5, w)" and w: "w = ins_node fx4 2 ''x'' (Directory []) (metadata_new 0 S_IFDIR o755 0 0)"
    by (simp_all add: w_def mkdir_p_def mkdir_def child_def fx_facts bt_get_def vfs_insert_eq is_full_def
        depth_of_def depth_loop.simps MAX_VFS_NODES_def MAX_VFS_DEPTH_def)
  have nochild: "\<not> has_child w d nm 5" for d nm
  proof
    assume "has_child w d nm 5"
    then have "has_child fx4 d nm 5"
      using w has_child_ins_node [OF fx_wf(2), of 2 "Directory []"] by (auto simp: fx_facts split: if_splits)
    then show False using wf_treeD(7) [OF fx_wf(2)] by (fastforce simp: fx_sizes)
  qed
  have "\<not> reachable w 5"
  proof
    assume "reachable w 5"
    then show False by cases (use nochild w in \<open>auto simp: fx_facts\<close>)
  qed
  moreover have "walk w 0 [''tmp'', ''a'', ''x''] = None"
    using w by (simp add: child_ins_node child_def fnode_ins_node fx_facts bt_get_def link_child_def)
  ultimately show ?thesis using m by blast
qed

text \<open>
  \<open>deep_copy\<close> is safe for every source and destination, a directory copied into itself
  included: it ends (its recursion is cut at 64 levels), the arena stays a well-formed tree within
  its caps, no node is lost from it, and the returned id is inside it.
\<close>

theorem deep_copy_safe:
  assumes "vfs_states v" "src < fsize v" "dst < fsize v"
  shows "wf_vfs (snd (deep_copy now v src dst nm)) \<and> fsize v \<le> fsize (snd (deep_copy now v src dst nm))
    \<and> fst (deep_copy now v src dst nm) < fsize (snd (deep_copy now v src dst nm))"
  using good_deep_copy_inner [OF vfs_states_wf [OF assms(1)] assms(2,3), of now nm 0]
  by (auto simp: deep_copy_def good_result_def)

theorem deep_copy_safe_witness:
  "vfs_states fx4 \<and> wf_vfs (snd (deep_copy 0 fx4 1 3 ''self''))"
proof -
  have "1 < fsize fx4" "3 < fsize fx4" by (simp_all add: fx_sizes)
  from deep_copy_safe [OF fx_states this, of 0 "''self''"] fx_states show ?thesis by simp
qed

text \<open>
  \<open>chmod\<close> replaces exactly the twelve permission bits: the file-type bits (and with them
  \<open>is_dir\<close> and \<open>is_symlink\<close>), the owner, the time, the contents and every other node are kept.
\<close>

theorem chmod_spec:
  assumes "i < fsize v"
  shows "m_mode (n_meta (fnode (chmod v i perms) i)) AND S_IFMT = m_mode (n_meta (fnode v i)) AND S_IFMT
    \<and> m_mode (n_meta (fnode (chmod v i perms) i)) AND o7777 = perms AND o7777
    \<and> is_dir (n_meta (fnode (chmod v i perms) i)) = is_dir (n_meta (fnode v i))
    \<and> is_symlink (n_meta (fnode (chmod v i perms) i)) = is_symlink (n_meta (fnode v i))
    \<and> n_kind (fnode (chmod v i perms) i) = n_kind (fnode v i)
    \<and> (\<forall>j. j \<noteq> i \<longrightarrow> fnode (chmod v i perms) j = fnode v j)"
proof -
  have "(m AND S_IFMT) AND S_IFMT = m AND S_IFMT" for m :: u32 by (simp add: and.assoc)
  from mode_parts [OF this] show ?thesis
    using assms by (simp add: chmod_def fnode_upd_node is_dir_def is_symlink_def)
qed

theorem chmod_spec_witness:
  "1 < fsize fx4 \<and> is_dir (n_meta (fnode (chmod fx4 1 0) 1)) = is_dir (n_meta (fnode fx4 1))"
proof -
  have "1 < fsize fx4" by (simp add: fx_sizes)
  with chmod_spec [OF this, of 0] show ?thesis by blast
qed

end
