(* ===== verification/Shell_Safety.thy ===== *)
theory Shell_Safety
  imports Shell Vfs_Props
begin

text \<open>
  What every line keeps of the session. The locale \<open>session_relation\<close> states what a relation between
  the session before and after has to satisfy to be carried through expansion, substitution,
  redirection and pipelines whenever every command respects it; within it the recursion is
  shown to end. It is interpreted by two relations: the nesting level comes back to what it was,
  and the session stays well-formed.
\<close>

definition fine :: "(shell \<Rightarrow> shell \<Rightarrow> bool) \<Rightarrow> shell \<Rightarrow> ('a \<times> shell) outcome \<Rightarrow> bool" where
  "fine K s m \<longleftrightarrow> m \<noteq> OutOfFuel \<and> (\<forall>x s'. m = Done (x, s') \<longrightarrow> K s s')"

lemma fine_simps [simp]: "fine K s Panicked" "\<not> fine K s OutOfFuel" "fine K s (Done (x, s')) \<longleftrightarrow> K s s'"
  by (simp_all add: fine_def)

text \<open>Every command respects the relation; every expansion of words at nesting level \<open>N\<close> is fine.\<close>

definition obeys :: "(nat \<Rightarrow> shell \<Rightarrow> bool) \<Rightarrow> (shell \<Rightarrow> shell \<Rightarrow> bool) \<Rightarrow> dispatcher \<Rightarrow> bool" where
  "obeys L K d \<longleftrightarrow> (\<forall>N t argv. L N t \<longrightarrow> K t (snd (d t argv)))"

definition fine_words :: "(shell \<Rightarrow> bool) \<Rightarrow> (shell \<Rightarrow> shell \<Rightarrow> bool) \<Rightarrow> expander \<Rightarrow> bool" where
  "fine_words P K ex \<longleftrightarrow> (\<forall>t line. P t \<longrightarrow> fine K t (ex t line Words))"

lemma fineD: "fine K s m \<Longrightarrow> m = Done (x, s') \<Longrightarrow> K s s'"
  by (simp add: fine_def)

text \<open>The steps of the expansion loop: a substitution, or anything else, which leaves the session alone.\<close>

definition substitution_in :: "bool \<Rightarrow> str \<Rightarrow> nat \<Rightarrow> rchar \<Rightarrow> substitution option" where
  "substitution_in q line i c = (if \<not> q \<and> (c = ''$'' \<or> c = [CHR 0x60]) then substitution_at line i else None)"

lemma expand_loop_subst:
  assumes "substitution_in q line i c = Some r"
  shows "expand_loop w sb ari mode line s q dq out ((i, c) # cs) =
    obind (str_slice line (fst (s_body r)) (snd (s_body r))) (\<lambda>body.
      obind ((if s_arithmetic r then ari else sb) s body) (\<lambda>(v, t).
        expand_loop w sb ari mode line t q dq (emit out mode v dq) (dropWhile (\<lambda>(j, _). j < s_end r) cs)))"
  using assms by (simp add: substitution_in_def expand_loop.simps(2))

lemma expand_loop_plain:
  assumes "substitution_in q line i c = None"
  obtains q' dq' out' cs' where "length cs' \<le> length cs"
    "expand_loop w sb ari mode line s q dq out ((i, c) # cs) = expand_loop w sb ari mode line s q' dq' out' cs'"
proof -
  let ?L = "expand_loop w sb ari mode line s" and ?R = "expand_loop w sb ari mode line s q dq out ((i, c) # cs)"
  have sel: "(if \<not> q \<and> (c = ''$'' \<or> c = [CHR 0x60]) then substitution_at line i else None) = None"
    using assms by (simp add: substitution_in_def)
  note step = expand_loop.simps(2) [of w sb ari mode line s q dq out i c cs, unfolded sel option.case]
  consider (esc) "c = [CHR 0x5C] \<and> \<not> q" | (sq) "c = [CHR 0x27] \<and> mode = Words \<and> \<not> dq" | (dq) "c = [CHR 0x22] \<and> mode = Words \<and> \<not> q"
    | (dollar) "c = ''$'' \<and> \<not> q" | (other) "\<not> (c = [CHR 0x5C] \<and> \<not> q)" "\<not> (c = [CHR 0x27] \<and> mode = Words \<and> \<not> dq)"
        "\<not> (c = [CHR 0x22] \<and> mode = Words \<and> \<not> q)" "\<not> (c = ''$'' \<and> \<not> q)" by blast
  then have "\<exists>q' dq' out' cs'. length cs' \<le> length cs \<and> ?R = ?L q' dq' out' cs'"
  proof cases
    case esc
    show ?thesis
    proof (cases cs)
      case Nil
      then have "?R = ?L q dq (out @ c) []" unfolding step using esc by simp
      then show ?thesis using Nil by (intro exI [of _ q] exI [of _ dq] exI [of _ "out @ c"] exI [of _ "[]"]) simp
    next
      case (Cons x rest)
      obtain j n where x: "x = (j, n)" by (cases x)
      have "?R = ?L q dq (out @ c @ n) rest \<or> ?R = ?L q dq (out @ n) rest \<or> ?R = ?L q dq (out @ c) cs"
        unfolding step unfolding Cons x using esc by simp
      then show ?thesis using Cons by (metis dual_order.refl impossible_Cons linear)
    qed
  next
    case sq
    then have "?R = ?L (\<not> q) dq (out @ c) cs" unfolding step by simp
    then show ?thesis by blast
  next
    case dq
    then have "?R = ?L q (\<not> dq) (out @ c) cs" unfolding step by simp
    then show ?thesis by blast
  next
    case dollar
    then have "?R = (case dollar_value w s cs of
        Some (v, rest) \<Rightarrow> ?L q dq (emit out mode v dq) rest | None \<Rightarrow> ?L q dq (out @ ''$'') cs)" unfolding step by simp
    then show ?thesis using dollar_value_shorter [of w s cs] by (cases "dollar_value w s cs") (auto, blast+)
  next
    case other
    have "?R = ?L q dq (out @ c) cs" unfolding step by (simp only: other if_False)
    then show ?thesis by blast
  qed
  then show thesis using that by blast
qed

text \<open>The session without the fields a line uses for its own bookkeeping.\<close>

definition essence :: "shell \<Rightarrow> shell" where
  "essence s = s\<lparr>sh_captures := [], sh_subst_budget := 0, sh_subst_stderr := [], sh_stdin := None,
     sh_stdout_is_tty := True, sh_last_status := 0, sh_pending := None, sh_heredoc_stdin := None, sh_heredoc_log := None\<rparr>"

text \<open>What \<open>substitute\<close> puts back after its subshell.\<close>

definition leave_subshell :: "shell \<Rightarrow> shell \<Rightarrow> shell" where
  "leave_subshell s s1 = s1\<lparr>sh_env := sh_env s, sh_cwd := sh_cwd s, sh_prev_cwd := sh_prev_cwd s, sh_home := sh_home s,
     sh_username := sh_username s, sh_uid := sh_uid s, sh_gid := sh_gid s, sh_screen := sh_screen s,
     sh_nesting := sh_nesting s1 - 1, sh_subst_depth := sh_subst_depth s1 - 1\<rparr>"

locale session_relation =
  fixes L :: "nat \<Rightarrow> shell \<Rightarrow> bool" and K :: "shell \<Rightarrow> shell \<Rightarrow> bool" and G :: "shell \<Rightarrow> sinks \<Rightarrow> bool"
  assumes L_nesting: "L N s \<Longrightarrow> sh_nesting s = N"
    and L_subshell: "L N s \<Longrightarrow> L (Suc N) (s\<lparr>sh_nesting := Suc N, sh_subst_depth := m\<rparr>)"
    and L_arith: "L N s \<Longrightarrow> L (Suc N) (s\<lparr>sh_nesting := Suc N\<rparr>)"
    and K_L: "L N s \<Longrightarrow> K s t \<Longrightarrow> L N t"
    and K_trans: "K s t \<Longrightarrow> K t u \<Longrightarrow> K s u"
    and K_scratch: "L N s \<Longrightarrow> essence s = essence t \<Longrightarrow> K s t"
    and K_subshell: "L N s \<Longrightarrow> K (s\<lparr>sh_nesting := Suc N, sh_subst_depth := Suc (sh_subst_depth s)\<rparr>) s1
        \<Longrightarrow> K s (leave_subshell s s1)"
    and K_arith: "L N s \<Longrightarrow> K (s\<lparr>sh_nesting := Suc N\<rparr>) s1 \<Longrightarrow> K s (s1\<lparr>sh_nesting := sh_nesting s1 - 1\<rparr>)"
    and K_open: "L N s \<Longrightarrow> K s (snd (open_redirect w s p app))"
    and K_route: "L N s \<Longrightarrow> G s ks \<Longrightarrow> K s (snd (route_output w s r ks))"
    and G_default: "G s sinks_default"
    and G_mono: "G s ks \<Longrightarrow> K s t \<Longrightarrow> G t ks"
    and G_open: "L N s \<Longrightarrow> G s ks \<Longrightarrow> open_redirect w s p app = (Inr node, t) \<Longrightarrow>
        G t (set_sink str (Some \<lparr>k_path = p, k_node = node, k_append = app\<rparr>) False ks)"
    and G_dup: "G s ks \<Longrightarrow> k = ks_stdout ks \<or> k = ks_stderr ks \<Longrightarrow> G s (set_sink str k b ks)"
begin

lemma K_refl: "L N s \<Longrightarrow> K s s"
  using K_scratch by blast

lemma fine_trans: "K s t \<Longrightarrow> fine K t m \<Longrightarrow> fine K s m"
  using K_trans by (auto simp: fine_def)

lemma fine_obind:
  "fine K s m \<Longrightarrow> (\<And>x t. m = Done (x, t) \<Longrightarrow> K s t \<Longrightarrow> fine K s (f (x, t))) \<Longrightarrow> fine K s (obind m f)"
  by (cases m) (auto simp: fine_def)

lemma fine_expand_loop:
  assumes "\<And>t body. L N t \<Longrightarrow> fine K t (sb t body)" "\<And>t body. L N t \<Longrightarrow> fine K t (ari t body)"
  shows "L N s \<Longrightarrow> fine K s (expand_loop w sb ari mode line s q dq out cs)"
proof (induction "length cs" arbitrary: cs s q dq out rule: less_induct)
  case less
  show ?case
  proof (cases cs)
    case Nil
    then show ?thesis using less.prems K_refl by simp
  next
    case (Cons x rest)
    obtain i c where cs: "cs = (i, c) # rest" using Cons by (cases x) simp
    show ?thesis
    proof (cases "substitution_in q line i c")
      case None
      then obtain q' dq' out' cs' where "length cs' \<le> length rest"
          "expand_loop w sb ari mode line s q dq out cs = expand_loop w sb ari mode line s q' dq' out' cs'"
        unfolding cs by (rule expand_loop_plain)
      then show ?thesis using less cs by simp
    next
      case (Some r)
      let ?f = "if s_arithmetic r then ari else sb" and ?rest = "dropWhile (\<lambda>(j, _). j < s_end r) rest"
      have "fine K s (obind (?f s body) (\<lambda>(v, t). expand_loop w sb ari mode line t q dq (emit out mode v dq) ?rest))" for body
      proof (rule fine_obind)
        show "fine K s (?f s body)" using assms less.prems by simp
        fix v t assume "K s t"
        moreover have "fine K t (expand_loop w sb ari mode line t q dq (emit out mode v dq) ?rest)"
          using less.hyps [of ?rest t] length_dropWhile_le [of _ rest] K_L [OF less.prems \<open>K s t\<close>] cs
          by (simp add: le_imp_less_Suc)
        ultimately show "fine K s (case (v, t) of (v, t) \<Rightarrow> expand_loop w sb ari mode line t q dq (emit out mode v dq) ?rest)"
          using fine_trans by simp
      qed
      then show ?thesis unfolding cs expand_loop_subst [OF Some]
        by (cases "str_slice line (fst (s_body r)) (snd (s_body r))") (auto simp: str_slice_def split: if_splits)
    qed
  qed
qed

lemma fine_substitute:
  assumes "L N s" "\<And>t body. L (Suc N) t \<Longrightarrow> N < MAX_NESTED_COMMANDS \<Longrightarrow> fine K t (run t body)"
  shows "fine K s (substitute run s body)"
proof (cases "N \<ge> MAX_NESTED_COMMANDS")
  case True
  then show ?thesis using L_nesting [OF assms(1)] K_refl [OF assms(1)] by (simp add: substitute_def)
next
  case False
  let ?e = "s\<lparr>sh_nesting := Suc N, sh_subst_depth := Suc (sh_subst_depth s)\<rparr>"
  let ?in = "s\<lparr>sh_nesting := sh_nesting s + 1, sh_subst_depth := sh_subst_depth s + 1, sh_captures := []\<rparr>"
  have in_e: "K ?e ?in" using L_nesting [OF assms(1)]
    by (intro K_scratch [OF L_subshell [OF assms(1)]]) (simp add: essence_def)
  then have run: "fine K ?in (run ?in body)" using assms(2) [OF K_L [OF L_subshell [OF assms(1)]]] False by (meson not_le)
  have leave: "K s t" if "run ?in body = Done (x, u)" "essence t = essence (leave_subshell s u)" for x u t
  proof -
    have "K ?e u" using fineD [OF run that(1)] in_e K_trans by blast
    then have k: "K s (leave_subshell s u)" by (rule K_subshell [OF assms(1)])
    then show ?thesis using K_scratch [OF K_L [OF assms(1) k] that(2) [symmetric]] K_trans by blast
  qed
  show ?thesis
  proof (cases "run ?in body")
    case (Done p)
    then obtain x u where d: "run ?in body = Done (x, u)" by (cases p) simp
    then show ?thesis using False leave [OF d] L_nesting [OF assms(1)]
      by (simp add: substitute_def Let_def split: prod.split) (simp add: essence_def leave_subshell_def)
  qed (use run False L_nesting [OF assms(1)] in \<open>simp_all add: substitute_def\<close>)
qed

lemma fine_arithmetic:
  assumes "L N s" "\<And>t line. L (Suc N) t \<Longrightarrow> N < MAX_NESTED_COMMANDS \<Longrightarrow> fine K t (ex t line Words)"
  shows "fine K s (arithmetic w ex s body)"
proof (cases "N \<ge> MAX_NESTED_COMMANDS")
  case True
  then show ?thesis using L_nesting [OF assms(1)] K_refl [OF assms(1)] by (simp add: arithmetic_def)
next
  case False
  let ?e = "s\<lparr>sh_nesting := Suc N\<rparr>"
  have ex: "fine K ?e (ex ?e body Words)" using assms L_arith False by simp
  show ?thesis
  proof (cases "ex ?e body Words")
    case (Done p)
    then obtain x u where d: "ex ?e body Words = Done (x, u)" by (cases p) simp
    then show ?thesis using False K_arith [OF assms(1) fineD [OF ex d]] L_nesting [OF assms(1)]
      by (simp add: arithmetic_def Let_def)
  qed (use ex False L_nesting [OF assms(1)] in \<open>simp_all add: arithmetic_def\<close>)
qed

lemma fine_parse_line: "L N s \<Longrightarrow> fine_words (L N) K ex \<Longrightarrow> fine K s (parse_line ex s line)"
  unfolding parse_line_def by (rule fine_obind) (auto simp: fine_words_def)

lemma fine_open_redirects:
  assumes ex: "fine_words (L N) K ex"
  shows "L N s \<Longrightarrow> G s ks \<Longrightarrow> fine K s (open_redirects w ex s ks rs)
    \<and> (\<forall>ks' t. open_redirects w ex s ks rs = Done (Inr ks', t) \<longrightarrow> G t ks')"
proof (induction rs arbitrary: s ks)
  case Nil
  then show ?case using K_refl by simp
next
  case (Cons r rs)
  show ?case
  proof (cases "r_target r")
    case (ToFile path app)
    have pl: "fine K s (parse_line ex s path)" using fine_parse_line [OF Cons.prems(1) ex] .
    show ?thesis
    proof (cases "parse_line ex s path")
      case (Done p)
      then obtain ws u where d: "parse_line ex s path = Done (ws, u)" by (cases p) simp
      have u: "K s u" "L N u" using fineD [OF pl d] K_L Cons.prems(1) by blast+
      show ?thesis
      proof (cases "\<exists>q. ws = [q]")
        case True
        then obtain q where ws: "ws = [q]" by blast
        obtain res v where o: "open_redirect w u q app = (res, v)" by (cases "open_redirect w u q app")
        have v: "K s v" "L N v" using K_trans [OF u(1)] K_open [OF u(2), of w q app] o K_L Cons.prems(1) by auto
        show ?thesis
        proof (cases res)
          case (Inl m)
          then show ?thesis using ToFile d ws o v by simp
        next
          case (Inr node)
          let ?ks = "set_sink (r_stream r) (Some \<lparr>k_path = q, k_node = node, k_append = app\<rparr>) False ks"
          have "G v ?ks" using G_open [OF u(2) G_mono [OF Cons.prems(2) u(1)]] o Inr by simp
          then have IH: "fine K v (open_redirects w ex v ?ks rs)"
              "\<forall>ks' t. open_redirects w ex v ?ks rs = Done (Inr ks', t) \<longrightarrow> G t ks'"
            using Cons.IH [of v ?ks] v by simp_all
          show ?thesis using ToFile d ws o Inr fine_trans [OF v(1) IH(1)] IH(2) by simp
        qed
      next
        case False
        then show ?thesis using ToFile d u by (cases ws rule: list.exhaust; cases "tl ws") auto
      qed
    qed (use pl ToFile in simp_all)
  next
    case (Dup st)
    have "fine K s (open_redirects w ex s (set_sink (r_stream r) k m ks) rs)
        \<and> (\<forall>ks' t. open_redirects w ex s (set_sink (r_stream r) k m ks) rs = Done (Inr ks', t) \<longrightarrow> G t ks')"
      if "k = ks_stdout ks \<or> k = ks_stderr ks" for k m
      using Cons.IH [OF Cons.prems(1) G_dup [OF Cons.prems(2) that]] .
    then show ?thesis using Dup Cons by (cases st) auto
  qed
qed

lemma fine_run_stage:
  assumes d: "obeys L K d" and ex: "fine_words (L N) K ex" and s: "L N s"
  shows "fine K s (run_stage w d ex il s piped err stage)"
proof (cases "split_redirects stage")
  case (Inl m)
  then show ?thesis using K_refl [OF s] by (simp add: run_stage_def)
next
  case (Inr p)
  then obtain tx rs where sr: "split_redirects stage = Inr (tx, rs)" by (cases p) simp
  have pl: "fine K s (parse_line ex s tx)" using fine_parse_line [OF s ex] .
  show ?thesis
  proof (cases "parse_line ex s tx")
    case (Done q)
    then obtain argv s1 where 1: "parse_line ex s tx = Done (argv, s1)" by (cases q) simp
    have s1: "K s s1" using fineD [OF pl 1] .
    note opn = fine_open_redirects [OF ex K_L [OF s s1] G_default, of w rs]
    show ?thesis
    proof (cases "open_redirects w ex s1 sinks_default rs")
      case (Done q)
      then obtain opened s2 where 2: "open_redirects w ex s1 sinks_default rs = Done (opened, s2)" by (cases q) simp
      have s2: "K s s2" using K_trans [OF s1 fineD [OF conjunct1 [OF opn] 2]] .
      show ?thesis
      proof (cases opened)
        case (Inl m)
        then show ?thesis using sr 1 2 s2 by (simp add: run_stage_def)
      next
        case (Inr ks)
        let ?s3 = "s2\<lparr>sh_subst_stderr := []\<rparr>"
        let ?in = "?s3\<lparr>sh_stdin := piped, sh_stdout_is_tty := (il \<and> ks_stdout ks = None \<and> sh_subst_depth ?s3 = 0)\<rparr>"
        obtain r s4 where run: "d ?in argv = (r, s4)" by (cases "d ?in argv")
        let ?s4 = "s4\<lparr>sh_stdin := None, sh_stdout_is_tty := True\<rparr>"
        have L2: "L N s2" using K_L [OF s s2] .
        have "K s2 ?s3" "K s2 ?in" by (rule K_scratch [OF L2], simp add: essence_def)+
        moreover have "K ?in s4" using d run K_L [OF L2 \<open>K s2 ?in\<close>] unfolding obeys_def by (metis snd_conv)
        moreover have "K s4 ?s4" using K_L [OF K_L [OF L2 \<open>K s2 ?in\<close>] \<open>K ?in s4\<close>] by (rule K_scratch) (simp add: essence_def)
        ultimately have k: "K s2 ?s4" "K s ?s3" "K s ?s4" using K_trans s2 by blast+
        have "G ?s4 ks" using G_mono [of s2 ks] opn 2 Inr k(1) by simp
        then have "K ?s4 (snd (route_output w ?s4 r ks))" using K_route K_L [OF s k(3)] by blast
        then have "K s (snd (route_output w ?s4 r ks))" using K_trans k(3) by blast
        then show ?thesis using sr 1 2 Inr run k(2) by (auto simp: run_stage_def Let_def split: prod.split)
      qed
    qed (use opn sr 1 in \<open>simp_all add: run_stage_def\<close>)
  qed (use pl sr in \<open>simp_all add: run_stage_def\<close>)
qed

lemma fine_run_stages:
  assumes d: "obeys L K d" and ex: "fine_words (L N) K ex"
  shows "L N s \<Longrightarrow> fine K s (run_stages w d ex s piped latest err stages)"
proof (induction stages arbitrary: s piped latest err)
  case Nil
  then show ?case using K_refl by simp
next
  case (Cons stage stages)
  have "fine K s (run_stage w d ex (stages = []) s piped err stage)" using fine_run_stage [OF d ex Cons.prems] .
  then show ?case unfolding run_stages.simps
  proof (rule fine_obind)
    fix e t assume t: "K s t"
    have "fine K s (run_stages w d ex t pp ll ee stages)" for pp ll ee
      using fine_trans [OF t Cons.IH] K_L [OF Cons.prems t] by simp
    then show "fine K s (case (e, t) of (e, s1) \<Rightarrow> case e of
         Refused r \<Rightarrow> Done (Some r, s1)
       | NoCommand err1 \<Rightarrow> run_stages w d ex s1 piped latest err1 stages
       | Ran r err1 \<Rightarrow> run_stages w d ex s1 (Some (c_output r)) (Some r) err1 stages)"
      using t by (simp split: stage_end.split)
  qed
qed

lemma fine_run_pipeline:
  assumes "obeys L K d" "fine_words (L N) K ex" "L N s"
  shows "fine K s (run_pipeline w d ex s segment)"
proof -
  have k: "K s (s\<lparr>sh_heredoc_stdin := None\<rparr>)" by (rule K_scratch [OF assms(3)]) (simp add: essence_def)
  show ?thesis unfolding run_pipeline_def
    by (rule fine_trans [OF k]) (rule fine_run_stages [OF assms(1,2) K_L [OF assms(3) k]])
qed

lemma fine_run_segments:
  assumes run: "\<And>t tx. L N t \<Longrightarrow> fine K t (run t tx)"
  shows "L N s \<Longrightarrow> fine K s (run_segments run s o1 status rn gs)"
proof (induction gs arbitrary: s o1 status rn)
  case Nil
  then show ?case using K_refl by simp
next
  case (Cons g gs)
  have IH: "fine K s (run_segments run t o1 status rn gs)" if "K s t" for t o1 status rn
    using fine_trans [OF that Cons.IH] K_L [OF Cons.prems that] by simp
  have r: "fine K s (run s (g_text g))" using run Cons.prems by simp
  show ?case
  proof (cases "run s (g_text g)")
    case (Done p)
    then obtain res t where d: "run s (g_text g) = Done (res, t)" by (cases p) simp
    have t: "K s t" using fineD [OF r d] .
    have "K t (t\<lparr>sh_last_status := st\<rparr>)" for st
      by (rule K_scratch [OF K_L [OF Cons.prems t]]) (simp add: essence_def)
    then have "K s (t\<lparr>sh_last_status := st\<rparr>)" for st using K_trans t by blast
    then show ?thesis using d IH [OF t] IH [OF K_refl [OF Cons.prems]] IH K_refl [OF Cons.prems]
      by (auto simp: Let_def split: option.split)
  qed (use r IH [OF K_refl [OF Cons.prems]] K_refl [OF Cons.prems] in auto)
qed

lemma fine_execute_body:
  assumes "obeys L K d" "fine_words (L N) K ex" "L N s"
  shows "fine K s (execute_body w d ex s line)"
proof -
  let ?s1 = "s\<lparr>sh_captures := []\<rparr>"
  let ?s2 = "if sh_nesting ?s1 = 0 then ?s1\<lparr>sh_subst_budget := MAX_COMMAND_OUTPUT_BYTES, sh_subst_stderr := []\<rparr> else ?s1"
  have s2: "K s ?s2" by (rule K_scratch [OF assms(3)]) (simp add: essence_def)
  have "fine K ?s2 (run_segments (run_pipeline w d ex) ?s2 output_default 0 False gs)" for gs
    by (rule fine_run_segments [OF fine_run_pipeline [OF assms(1,2)] K_L [OF assms(3) s2]])
  then have "fine K s (run_segments (run_pipeline w d ex) ?s2 output_default 0 False gs)" for gs
    using fine_trans [OF s2] by blast
  moreover have "K s (?s2\<lparr>sh_pending := p\<rparr>)" for p by (rule K_scratch [OF assms(3)]) (simp add: essence_def)
  ultimately show ?thesis unfolding execute_body_def Let_def by (auto split: option.split prod.split simp del: update_convs)
qed

text \<open>With a level of fuel for every level of nesting left, expansion and execution return.\<close>

lemma fine_expand_at:
  assumes d: "obeys L K d"
  shows "MAX_NESTED_COMMANDS \<le> n + N \<Longrightarrow> L N s \<Longrightarrow> fine K s (expand_at n w d s line mode)"
proof (induction n arbitrary: N s line mode)
  case 0
  have "fine K t (substitute (\<lambda>s line. OutOfFuel) t body)" "fine K t (arithmetic w (\<lambda>s line mode. OutOfFuel) t body)"
    if "L N t" for t body using fine_substitute [OF that] fine_arithmetic [OF that] 0 by simp_all
  then show ?case unfolding expand_at.simps expand_with_def by (intro fine_expand_loop [where N = N]) (use 0 in simp_all)
next
  case (Suc n)
  have ex: "fine_words (L (Suc N)) K (expand_at n w d)"
    using Suc.IH [of "Suc N"] Suc.prems by (simp add: fine_words_def)
  have "fine K t (substitute (execute_body w d (expand_at n w d)) t body)" "fine K t (arithmetic w (expand_at n w d) t body)"
    if "L N t" for t body
    using fine_substitute [OF that, of "execute_body w d (expand_at n w d)"] fine_execute_body [OF d ex]
      fine_arithmetic [OF that, of "expand_at n w d"] ex by (simp_all add: fine_words_def)
  then show ?case unfolding expand_at.simps expand_with_def by (intro fine_expand_loop [where N = N]) (use Suc.prems in simp_all)
qed

lemma fine_expand: "obeys L K d \<Longrightarrow> L N s \<Longrightarrow> fine K s (expand w d s line mode)"
  unfolding expand_def using fine_expand_at [where n = MAX_NESTED_COMMANDS and N = N] by simp

lemma fine_execute: "obeys L K d \<Longrightarrow> L N s \<Longrightarrow> fine K s (execute w d s line)"
  unfolding execute_def using fine_execute_body [where N = N] fine_expand by (simp add: fine_words_def)

lemma fine_run_heredoc:
  assumes "obeys L K d" "L N s"
  shows "fine K s (run_heredoc w d s command raw doc body)"
proof -
  let ?s1 = "s\<lparr>sh_pending := None, sh_heredoc_log := Some (raw @ [CHR 0x0A] @ body @ h_delimiter doc)\<rparr>"
  have s1: "K s ?s1" by (rule K_scratch [OF assms(2)]) (simp add: essence_def)
  have "fine K ?s1 (if h_expand doc then expand w d ?s1 body Literal else Done (body, ?s1))"
    using fine_expand [OF assms(1) K_L [OF assms(2) s1]] K_refl [OF K_L [OF assms(2) s1]] by simp
  from fine_trans [OF s1 this] show ?thesis unfolding run_heredoc_def Let_def
  proof (rule fine_obind)
    fix tx t assume t: "K s t"
    have "K t (t\<lparr>sh_heredoc_stdin := Some tx\<rparr>)"
      by (rule K_scratch [OF K_L [OF assms(2) t]]) (simp add: essence_def)
    then have u: "K s (t\<lparr>sh_heredoc_stdin := Some tx\<rparr>)" using K_trans t by blast
    have "fine K s (obind (execute w d (t\<lparr>sh_heredoc_stdin := Some tx\<rparr>) command)
        (\<lambda>(o1, s3). Done (o1, s3\<lparr>sh_heredoc_stdin := None\<rparr>)))"
    proof (rule fine_obind [OF fine_trans [OF u fine_execute [OF assms(1) K_L [OF assms(2) u]]]])
      fix o1 v assume v: "K s v"
      have "K v (v\<lparr>sh_heredoc_stdin := None\<rparr>)" by (rule K_scratch [OF K_L [OF assms(2) v]]) (simp add: essence_def)
      then show "fine K s (case (o1, v) of (o1, s3) \<Rightarrow> Done (o1, s3\<lparr>sh_heredoc_stdin := None\<rparr>))"
        using K_trans v by simp
    qed
    then show "fine K s (case (tx, t) of (tx, s2) \<Rightarrow> obind (execute w d (s2\<lparr>sh_heredoc_stdin := Some tx\<rparr>) command)
        (\<lambda>(o1, s3). Done (o1, s3\<lparr>sh_heredoc_stdin := None\<rparr>)))" by simp
  qed
qed

end

section \<open>The nesting level\<close>

lemma open_redirect_keeps [frame_simps]:
  "sh_nesting (snd (open_redirect w s p app)) = sh_nesting s" "sh_env (snd (open_redirect w s p app)) = sh_env s"
  "sh_cwd (snd (open_redirect w s p app)) = sh_cwd s" "sh_home (snd (open_redirect w s p app)) = sh_home s"
  "sh_prev_cwd (snd (open_redirect w s p app)) = sh_prev_cwd s"
  by (simp_all add: open_redirect_def Let_def split: option.split prod.split bool.split)

lemma divert_keeps [frame_simps]:
  assumes "divert w s k tx landed = (f, l, t)"
  shows "sh_nesting t = sh_nesting s" "sh_env t = sh_env s" "sh_cwd t = sh_cwd s" "sh_home t = sh_home s"
    "sh_prev_cwd t = sh_prev_cwd s"
  using assms by (auto simp: divert_def write_redirect_def Let_def split: option.splits prod.splits bool.splits if_splits)

text \<open>The session after \<open>route_output\<close>: the two streams written one after the other.\<close>

lemma route_output_state:
  obtains (none) "snd (route_output w s r ks) = s"
  | (err) k f l where "ks_stderr ks = Some k" "divert w s k (c_stderr r) None = (f, l, snd (route_output w s r ks))"
  | (out) k tx l0 f l where "ks_stdout ks = Some k" "divert w s k tx l0 = (f, l, snd (route_output w s r ks))"
  | (both) k1 f1 l1 s1 k2 tx f2 l2 where "ks_stderr ks = Some k1" "divert w s k1 (c_stderr r) None = (f1, l1, s1)"
      "ks_stdout ks = Some k2" "divert w s1 k2 tx l1 = (f2, l2, snd (route_output w s r ks))"
proof (cases "ks_stderr ks"; cases "ks_stdout ks")
  assume "ks_stderr ks = None" "ks_stdout ks = None"
  then show thesis using none by (simp add: route_output_def)
next
  fix k assume a: "ks_stderr ks = None" "ks_stdout ks = Some k"
  obtain f l t where d: "divert w s k (c_output r) None = (f, l, t)" by (cases "divert w s k (c_output r) None") auto
  then show thesis using out [OF a(2)] a by (simp add: route_output_def Let_def)
next
  fix k assume a: "ks_stderr ks = Some k" "ks_stdout ks = None"
  obtain f l t where d: "divert w s k (c_stderr r) None = (f, l, t)" by (cases "divert w s k (c_stderr r) None") auto
  then show thesis using err [OF a(1)] a by (simp add: route_output_def Let_def)
next
  fix k1 k2 assume a: "ks_stderr ks = Some k1" "ks_stdout ks = Some k2"
  obtain f1 l1 s1 where d1: "divert w s k1 (c_stderr r) None = (f1, l1, s1)" by (cases "divert w s k1 (c_stderr r) None") auto
  obtain f2 l2 s2 where d2: "divert w s1 k2 (c_output r) l1 = (f2, l2, s2)" by (cases "divert w s1 k2 (c_output r) l1") auto
  then show thesis using both [OF a(1) d1 a(2)] a d1 by (simp add: route_output_def Let_def)
qed

definition same_nesting :: "shell \<Rightarrow> shell \<Rightarrow> bool" where
  "same_nesting s t \<longleftrightarrow> sh_nesting t = sh_nesting s"

lemma essence_fields:
  assumes "essence s = essence t"
  shows "sh_nesting t = sh_nesting s" "sh_vfs t = sh_vfs s" "sh_env t = sh_env s" "sh_cwd t = sh_cwd s"
    "sh_home t = sh_home s" "sh_prev_cwd t = sh_prev_cwd s"
  using arg_cong [OF assms, of sh_nesting] arg_cong [OF assms, of sh_vfs] arg_cong [OF assms, of sh_env]
    arg_cong [OF assms, of sh_cwd] arg_cong [OF assms, of sh_home] arg_cong [OF assms, of sh_prev_cwd]
  by (simp_all add: essence_def)

interpretation nest: session_relation "\<lambda>N s. sh_nesting s = N" same_nesting "\<lambda>s ks. True"
proof
  fix w s r ks
  show "same_nesting s (snd (route_output w s r ks))"
    by (cases rule: route_output_state [of w s r ks]) (auto simp: same_nesting_def divert_keeps)
next
  fix s t assume "essence s = essence t"
  then show "same_nesting s t" using essence_fields(1) [of s t] by (simp add: same_nesting_def)
qed (simp_all add: same_nesting_def leave_subshell_def open_redirect_keeps)

section \<open>A well-formed session\<close>

definition session_wf :: "shell \<Rightarrow> bool" where
  "session_wf s \<longleftrightarrow> wf_vfs (sh_vfs s) \<and> env_ok (sh_env s) \<and> sh_cwd s < fsize (sh_vfs s)
     \<and> sh_home s < fsize (sh_vfs s) \<and> sh_prev_cwd s < fsize (sh_vfs s)"

definition wf_at :: "nat \<Rightarrow> shell \<Rightarrow> bool" where
  "wf_at N s \<longleftrightarrow> sh_nesting s = N \<and> session_wf s"

text \<open>The arena only grows, so a node that was opened stays one.\<close>

definition keeps_wf :: "shell \<Rightarrow> shell \<Rightarrow> bool" where
  "keeps_wf s t \<longleftrightarrow> sh_nesting t = sh_nesting s \<and> session_wf t \<and> fsize (sh_vfs s) \<le> fsize (sh_vfs t)"

definition sinks_in :: "shell \<Rightarrow> sinks \<Rightarrow> bool" where
  "sinks_in s ks \<longleftrightarrow>
     (\<forall>k i. (ks_stdout ks = Some k \<or> ks_stderr ks = Some k) \<and> k_node k = Some i \<longrightarrow> i < fsize (sh_vfs s))"

lemma fsize_write_file: "fsize (snd (write_file now v i bs app)) = fsize v"
  by (simp add: write_file_def Let_def upd_node_simps split: node_kind.split)

lemma keeps_wf_vfs: "session_wf s \<Longrightarrow> wf_vfs v \<Longrightarrow> fsize (sh_vfs s) \<le> fsize v \<Longrightarrow> keeps_wf s (s\<lparr>sh_vfs := v\<rparr>)"
  by (auto simp: keeps_wf_def session_wf_def)

lemma keeps_wf_refl: "session_wf s \<Longrightarrow> keeps_wf s s"
  by (simp add: keeps_wf_def)

lemma keeps_wf_write:
  "session_wf s \<Longrightarrow> i < fsize (sh_vfs s) \<Longrightarrow> keeps_wf s (s\<lparr>sh_vfs := snd (write_file now (sh_vfs s) i bs app)\<rparr>)"
  by (intro keeps_wf_vfs) (simp_all add: wf_write_file fsize_write_file session_wf_def)

lemma keeps_wf_divert:
  assumes "divert w s k tx landed = (f, l, t)" "session_wf s" "\<And>i. k_node k = Some i \<Longrightarrow> i < fsize (sh_vfs s)"
  shows "keeps_wf s t"
proof (cases "tx = [] \<or> k_node k = None")
  case True
  then have "t = s" using assms(1) by (auto simp: divert_def write_redirect_def Let_def split: if_splits)
  then show ?thesis using assms(2) by (simp add: keeps_wf_refl)
next
  case False
  then obtain i where i: "k_node k = Some i" by auto
  let ?wr = "write_file (w_now w) (sh_vfs s) i tx (k_append k \<or> Some i = landed)"
  have "t = s\<lparr>sh_vfs := snd ?wr\<rparr>"
    using False i assms(1) by (cases ?wr) (auto simp: divert_def write_redirect_def split: bool.splits)
  then show ?thesis using keeps_wf_write [of s i] assms(2,3) i by simp
qed

lemma resolve_parent_range:
  "session_wf s \<Longrightarrow> resolve_parent s path = Some (p, nm) \<Longrightarrow> p < fsize (sh_vfs s)"
  using resolve_range [of "sh_vfs s" "sh_cwd s"]
  by (auto simp: resolve_parent_def session_wf_def Let_def split: prod.splits if_splits option.splits)

lemma open_redirect_wf:
  assumes "open_redirect w s p app = (res, t)" "session_wf s"
  shows "keeps_wf s t \<and> (\<forall>i. res = Inr (Some i) \<longrightarrow> i < fsize (sh_vfs t))"
proof (cases "resolve_parent s p")
  case None
  then show ?thesis using assms keeps_wf_refl by (auto simp: open_redirect_def)
next
  case (Some q)
  then obtain d nm where rp: "resolve_parent s p = Some (d, nm)" by (cases q) simp
  have d: "d < fsize (sh_vfs s)" using resolve_parent_range [OF assms(2) rp] .
  show ?thesis
  proof (cases "child (sh_vfs s) d nm")
    case (Some i)
    have i: "i < fsize (sh_vfs s)"
      using child_range [of "sh_vfs s" d nm i] d Some assms(2) by (simp add: session_wf_def)
    obtain b v where wr: "write_file (w_now w) (sh_vfs s) i [] False = (b, v)" by (cases "write_file (w_now w) (sh_vfs s) i [] False")
    have "keeps_wf s (s\<lparr>sh_vfs := v\<rparr>)" "fsize v = fsize (sh_vfs s)"
      using keeps_wf_write [OF assms(2) i] fsize_write_file [of "w_now w" "sh_vfs s" i "[]" False] wr by (metis snd_conv)+
    then show ?thesis using assms rp Some i wr keeps_wf_refl [OF assms(2)]
      by (auto simp: open_redirect_def Let_def split: if_splits bool.splits)
  next
    case None
    obtain i v where af: "add_file (w_now w) (sh_vfs s) d nm [] o644 (sh_uid s) (sh_gid s) = (i, v)"
      by (cases "add_file (w_now w) (sh_vfs s) d nm [] o644 (sh_uid s) (sh_gid s)")
    have g: "wf_vfs v" "i < fsize v" "fsize (sh_vfs s) \<le> fsize v"
      using good_add_file [of "sh_vfs s" d "w_now w" nm "[]" o644 "sh_uid s" "sh_gid s"] d assms(2) af
      by (simp_all add: session_wf_def good_result_def)
    then have "keeps_wf s (s\<lparr>sh_vfs := v\<rparr>)" using keeps_wf_vfs [OF assms(2)] by blast
    then show ?thesis using assms rp None af g keeps_wf_refl [OF assms(2)] by (auto simp: open_redirect_def split: if_splits)
  qed
qed

lemma sinks_in_mono: "sinks_in s ks \<Longrightarrow> keeps_wf s t \<Longrightarrow> sinks_in t ks"
  by (fastforce simp: sinks_in_def keeps_wf_def)

lemma sinks_in_set: "sinks_in s ks \<Longrightarrow> (\<And>x i. k = Some x \<Longrightarrow> k_node x = Some i \<Longrightarrow> i < fsize (sh_vfs s)) \<Longrightarrow>
    sinks_in s (set_sink st k b ks)"
  by (cases st) (auto simp: sinks_in_def set_sink_def)

interpretation wf: session_relation wf_at keeps_wf sinks_in
proof
  fix N s w r ks assume s: "wf_at N s" and ks: "sinks_in s ks"
  show "keeps_wf s (snd (route_output w s r ks))"
  proof (cases rule: route_output_state [of w s r ks])
    case none
    then show ?thesis using s by (simp add: wf_at_def keeps_wf_refl)
  next
    case (err k f l)
    then show ?thesis using keeps_wf_divert [OF err(2)] s ks by (auto simp: wf_at_def sinks_in_def)
  next
    case (out k tx l0 f l)
    then show ?thesis using keeps_wf_divert [OF out(2)] s ks by (auto simp: wf_at_def sinks_in_def)
  next
    case (both k1 f1 l1 s1 k2 tx f2 l2)
    have 1: "keeps_wf s s1" using keeps_wf_divert [OF both(2)] s ks both(1) by (auto simp: wf_at_def sinks_in_def)
    then have "keeps_wf s1 (snd (route_output w s r ks))"
      using keeps_wf_divert [OF both(4)] sinks_in_mono [OF ks 1] both(3) by (auto simp: keeps_wf_def sinks_in_def)
    with 1 show ?thesis by (auto simp: keeps_wf_def)
  qed
next
  fix N s ks w p app node t str assume "wf_at N s" "sinks_in s ks" "open_redirect w s p app = (Inr node, t)"
  then show "sinks_in t (set_sink str (Some \<lparr>k_path = p, k_node = node, k_append = app\<rparr>) False ks)"
    using open_redirect_wf [of w s p app "Inr node" t] sinks_in_mono [of s ks t]
    by (intro sinks_in_set) (auto simp: wf_at_def)
next
  fix N s w p app assume "wf_at N s"
  then show "keeps_wf s (snd (open_redirect w s p app))"
    using open_redirect_wf [of w s p app] by (cases "open_redirect w s p app") (simp add: wf_at_def)
next
  fix N s t assume "wf_at N s" "essence s = essence t"
  then show "keeps_wf s t" using essence_fields [of s t] by (simp add: wf_at_def keeps_wf_def session_wf_def)
next
  fix s show "sinks_in s sinks_default" by (simp add: sinks_in_def sinks_default_def)
next
  fix s ks k str b assume "sinks_in s ks" "k = ks_stdout ks \<or> k = ks_stderr ks"
  then show "sinks_in s (set_sink str k b ks)" by (intro sinks_in_set) (auto simp: sinks_in_def dest: sym)
qed (auto simp: wf_at_def keeps_wf_def session_wf_def leave_subshell_def intro: sinks_in_mono)

end
