(* ===== verification/Commands.thy ===== *)
theory Commands
  imports Shell_State
begin

text \<open>
  The command registry (\<open>src/commands/mod.rs\<close>): which name runs which function and whether that
  function may change the session, the nesting cap, the built-in \<open>true\<close>, \<open>false\<close> and \<open>exit\<close>, the
  fallback for names that are only listed, and the truncation of what a command writes.
  The command functions themselves are arguments: a reading one returns a result, a
  mutating one also the session after it.
\<close>

datatype access = Read | Mut
datatype cmd_module = Fs | TextCmd | System | Admin | Net | Pkg

record handlers =
  run_read :: "cmd_module \<Rightarrow> str \<Rightarrow> shell \<Rightarrow> str list \<Rightarrow> command_result"
  run_mut :: "cmd_module \<Rightarrow> str \<Rightarrow> shell \<Rightarrow> str list \<Rightarrow> command_result \<times> shell"

definition command_table :: "(str \<times> access \<times> cmd_module \<times> str) list" where
  "command_table = [
    (''ls'', Read, Fs, ''ls''),
    (''dir'', Read, Fs, ''ls''),
    (''cd'', Mut, Fs, ''cd''),
    (''pwd'', Read, Fs, ''pwd''),
    (''cat'', Read, Fs, ''cat''),
    (''head'', Read, Fs, ''head''),
    (''tail'', Read, Fs, ''tail''),
    (''wc'', Read, Fs, ''wc''),
    (''grep'', Read, Fs, ''grep''),
    (''find'', Read, Fs, ''find''),
    (''stat'', Read, Fs, ''stat''),
    (''du'', Read, Fs, ''du''),
    (''base64'', Read, TextCmd, ''base64''),
    (''sed'', Read, TextCmd, ''sed''),
    (''cut'', Read, TextCmd, ''cut''),
    (''tr'', Read, TextCmd, ''tr''),
    (''sort'', Read, TextCmd, ''sort''),
    (''uniq'', Read, TextCmd, ''uniq''),
    (''basename'', Read, TextCmd, ''basename''),
    (''dirname'', Read, TextCmd, ''dirname''),
    (''rev'', Read, TextCmd, ''rev''),
    (''nl'', Read, TextCmd, ''nl''),
    (''seq'', Read, TextCmd, ''seq''),
    (''tee'', Mut, TextCmd, ''tee''),
    (''xargs'', Mut, TextCmd, ''xargs''),
    (''awk'', Read, TextCmd, ''awk''),
    (''mawk'', Read, TextCmd, ''awk''),
    (''md5sum'', Read, TextCmd, ''md5sum''),
    (''sha1sum'', Read, TextCmd, ''sha1sum''),
    (''sha256sum'', Read, TextCmd, ''sha256sum''),
    (''sha512sum'', Read, TextCmd, ''sha512sum''),
    (''touch'', Mut, Fs, ''touch''),
    (''mkdir'', Mut, Fs, ''mkdir''),
    (''rmdir'', Mut, Fs, ''rmdir''),
    (''rm'', Mut, Fs, ''rm''),
    (''cp'', Mut, Fs, ''cp''),
    (''mv'', Mut, Fs, ''mv''),
    (''chmod'', Mut, Fs, ''chmod''),
    (''chown'', Mut, Fs, ''chown''),
    (''chgrp'', Mut, Fs, ''chgrp''),
    (''ln'', Mut, Fs, ''ln''),
    (''tar'', Mut, Fs, ''tar''),
    (''whoami'', Read, System, ''whoami''),
    (''id'', Read, System, ''id''),
    (''uname'', Read, System, ''uname''),
    (''hostname'', Read, System, ''hostname''),
    (''nproc'', Read, System, ''nproc''),
    (''lscpu'', Read, System, ''lscpu''),
    (''arch'', Read, System, ''arch''),
    (''groups'', Read, System, ''groups''),
    (''tty'', Read, System, ''tty''),
    (''lsb_release'', Read, System, ''lsb_release''),
    (''date'', Read, System, ''date''),
    (''sudo'', Mut, System, ''sudo''),
    (''su'', Mut, System, ''su''),
    (''bash'', Mut, System, ''shell_cmd''),
    (''sh'', Mut, System, ''shell_cmd''),
    (''scp'', Mut, System, ''scp''),
    (''echo'', Read, System, ''echo''),
    (''printf'', Read, System, ''printf''),
    (''env'', Read, System, ''env''),
    (''printenv'', Read, System, ''env''),
    (''export'', Mut, System, ''export''),
    (''unset'', Mut, System, ''unset''),
    (''clear'', Read, System, ''clear''),
    (''sleep'', Read, Admin, ''sleep''),
    (''passwd'', Mut, Admin, ''passwd''),
    (''chpasswd'', Mut, Admin, ''chpasswd''),
    (''useradd'', Mut, Admin, ''useradd''),
    (''adduser'', Mut, Admin, ''useradd''),
    (''userdel'', Mut, Admin, ''userdel''),
    (''deluser'', Mut, Admin, ''userdel''),
    (''groupadd'', Mut, Admin, ''groupadd''),
    (''addgroup'', Mut, Admin, ''groupadd''),
    (''systemctl'', Read, Admin, ''systemctl''),
    (''service'', Read, Admin, ''service''),
    (''chattr'', Read, Admin, ''chattr''),
    (''lsattr'', Read, Admin, ''lsattr''),
    (''nohup'', Mut, Admin, ''nohup''),
    (''getent'', Read, Admin, ''getent''),
    (''killall'', Read, Admin, ''killall''),
    (''sync'', Read, Admin, ''sync''),
    (''nologin'', Read, Admin, ''nologin''),
    (''pidof'', Read, Admin, ''pidof''),
    (''pgrep'', Read, Admin, ''pgrep''),
    (''ps'', Read, System, ''ps''),
    (''top'', Mut, System, ''top''),
    (''kill'', Read, System, ''kill''),
    (''pkill'', Read, System, ''pkill''),
    (''free'', Read, System, ''free''),
    (''uptime'', Read, System, ''uptime''),
    (''vi'', Mut, TextCmd, ''vi''),
    (''nano'', Mut, TextCmd, ''nano''),
    (''history'', Mut, System, ''history''),
    (''which'', Read, System, ''which''),
    (''w'', Read, System, ''w''),
    (''last'', Read, System, ''last''),
    (''df'', Read, System, ''df''),
    (''mount'', Read, System, ''mount''),
    (''crontab'', Read, System, ''crontab''),
    (''dmesg'', Read, System, ''dmesg''),
    (''wget'', Mut, Net, ''wget''),
    (''curl'', Mut, Net, ''curl''),
    (''ping'', Read, Net, ''ping''),
    (''ping6'', Read, Net, ''ping''),
    (''netstat'', Read, Net, ''netstat''),
    (''ss'', Read, Net, ''ss''),
    (''ip'', Read, Net, ''ip''),
    (''nc'', Mut, Net, ''nc''),
    (''netcat'', Mut, Net, ''nc''),
    (''python3'', Mut, Net, ''python3''),
    (''perl'', Mut, Net, ''perl''),
    (''apt'', Read, Pkg, ''apt''),
    (''apt-get'', Read, Pkg, ''apt''),
    (''dpkg'', Read, Pkg, ''dpkg'')]"

text \<open>The names of \<open>/usr/bin\<close> and \<open>/usr/sbin\<close> (\<open>src/vfs/snapshot.rs\<close>).\<close>

definition USR_BIN :: "str list" where
  "USR_BIN = [
    ''apt'', ''apt-get'', ''arch'', ''awk'', ''base64'', ''basename'', ''bash'', ''cat'', ''chattr'',
    ''chgrp'', ''chmod'', ''chown'', ''clear'', ''cp'', ''crontab'', ''curl'', ''cut'', ''date'', ''df'',
    ''dirname'', ''dmesg'', ''dpkg'', ''du'', ''echo'', ''env'', ''false'', ''find'', ''free'', ''getent'',
    ''grep'', ''groups'', ''head'', ''hostname'', ''id'', ''kill'', ''killall'', ''last'', ''ln'', ''ls'',
    ''lsattr'', ''lsb_release'', ''lscpu'', ''mawk'', ''mkdir'', ''mount'', ''mv'', ''nano'', ''nc'',
    ''netcat'', ''netstat'', ''nl'', ''nohup'', ''nproc'', ''passwd'', ''perl'', ''pgrep'', ''pidof'',
    ''ping'', ''ping6'', ''pkill'', ''printenv'', ''printf'', ''ps'', ''pwd'', ''python3'', ''rev'', ''rm'',
    ''rmdir'', ''scp'', ''sed'', ''seq'', ''sh'', ''sha256sum'', ''sha512sum'', ''sleep'', ''sort'',
    ''stat'', ''su'', ''sudo'', ''sync'', ''systemctl'', ''tail'', ''tar'', ''tee'', ''top'', ''touch'',
    ''tr'', ''true'', ''tty'', ''uname'', ''uniq'', ''uptime'', ''vi'', ''w'', ''wc'', ''wget'', ''which'',
    ''whoami'', ''xargs'', ''['', ''b2sum'', ''base32'', ''basenc'', ''chcon'', ''cksum'', ''comm'',
    ''csplit'', ''dd'', ''dir'', ''dircolors'', ''expand'', ''expr'', ''factor'', ''fmt'', ''fold'',
    ''hostid'', ''install'', ''join'', ''link'', ''logname'', ''md5sum'', ''md5sum.textutils'', ''mkfifo'',
    ''mknod'', ''mktemp'', ''nice'', ''numfmt'', ''od'', ''paste'', ''pathchk'', ''pinky'', ''pr'', ''ptx'',
    ''readlink'', ''realpath'', ''runcon'', ''sha1sum'', ''sha224sum'', ''sha384sum'', ''shred'', ''shuf'',
    ''split'', ''stdbuf'', ''stty'', ''sum'', ''tac'', ''test'', ''timeout'', ''truncate'', ''tsort'',
    ''unexpand'', ''unlink'', ''users'', ''vdir'', ''who'', ''yes'', ''addpart'', ''choom'', ''chrt'',
    ''delpart'', ''fallocate'', ''findmnt'', ''flock'', ''getopt'', ''hardlink'', ''i386'', ''ionice'',
    ''ipcmk'', ''ipcrm'', ''ipcs'', ''lastb'', ''linux32'', ''linux64'', ''lsblk'', ''lsipc'', ''lslocks'',
    ''lslogins'', ''lsmem'', ''lsns'', ''mcookie'', ''mesg'', ''more'', ''mountpoint'', ''namei'',
    ''nsenter'', ''partx'', ''prlimit'', ''rename.ul'', ''resizepart'', ''setarch'', ''setpriv'', ''setsid'',
    ''setterm'', ''taskset'', ''uclampset'', ''unshare'', ''utmpdump'', ''wdctl'', ''whereis'', ''x86_64'',
    ''pidwait'', ''pmap'', ''pwdx'', ''skill'', ''slabtop'', ''snice'', ''tload'', ''vmstat'', ''watch'',
    ''ctstat'', ''lnstat'', ''nstat'', ''rdma'', ''routel'', ''rtstat'', ''gunzip'', ''gzexe'', ''gzip'',
    ''uncompress'', ''zcat'', ''zcmp'', ''zdiff'', ''zegrep'', ''zfgrep'', ''zforce'', ''zgrep'', ''zless'',
    ''zmore'', ''znew'', ''bunzip2'', ''bzcat'', ''bzcmp'', ''bzdiff'', ''bzegrep'', ''bzexe'', ''bzfgrep'',
    ''bzgrep'', ''bzip2'', ''bzip2recover'', ''bzless'', ''bzmore'', ''lzmainfo'', ''unxz'', ''xz'',
    ''xzcat'', ''xzcmp'', ''xzdiff'', ''xzegrep'', ''xzfgrep'', ''xzgrep'', ''xzless'', ''xzmore'', ''less'',
    ''lessecho'', ''lessfile'', ''lesskey'', ''lesspipe'', ''rnano'', ''apropos'', ''catman'', ''lexgrog'',
    ''man'', ''man-recode'', ''mandb'', ''manpath'', ''whatis'', ''ischroot'', ''run-parts'', ''savelog'',
    ''tempfile'', ''sftp'', ''slogin'', ''ssh'', ''ssh-add'', ''ssh-agent'', ''ssh-argv0'', ''ssh-copy-id'',
    ''ssh-keygen'', ''ssh-keyscan'', ''delv'', ''dig'', ''dnstap-read'', ''mdig'', ''nslookup'',
    ''nsupdate'', ''captoinfo'', ''infocmp'', ''infotocap'', ''reset'', ''tabs'', ''tic'', ''toe'', ''tput'',
    ''tset'', ''getconf'', ''iconv'', ''ld.so'', ''ldd'', ''locale'', ''localedef'', ''pldd'', ''tzselect'',
    ''zdump'']"

definition USR_SBIN :: "str list" where
  "USR_SBIN = [
    ''addgroup'', ''adduser'', ''chpasswd'', ''deluser'', ''groupadd'', ''ip'', ''nologin'', ''service'',
    ''ss'', ''useradd'', ''userdel'', ''chroot'', ''agetty'', ''blkdiscard'', ''blkid'', ''blkzone'',
    ''blockdev'', ''chcpu'', ''chmem'', ''ctrlaltdel'', ''findfs'', ''fsck'', ''fsck.cramfs'',
    ''fsck.minix'', ''fsfreeze'', ''fstrim'', ''getty'', ''isosize'', ''ldattach'', ''mkfs'', ''mkfs.bfs'',
    ''mkfs.cramfs'', ''mkfs.minix'', ''mkswap'', ''pivot_root'', ''readprofile'', ''rtcwake'', ''runuser'',
    ''sulogin'', ''swaplabel'', ''switch_root'', ''wipefs'', ''zramctl'', ''sysctl'', ''arpd'', ''bridge'',
    ''dcb'', ''devlink'', ''genl'', ''rtacct'', ''rtmon'', ''tc'', ''tipc'', ''vdpa'', ''badblocks'',
    ''debugfs'', ''dumpe2fs'', ''e2freefrag'', ''e2fsck'', ''e2image'', ''e2label'', ''e2mmpstatus'',
    ''e2scrub'', ''e2scrub_all'', ''e2undo'', ''e4crypt'', ''e4defrag'', ''filefrag'', ''fsck.ext2'',
    ''fsck.ext3'', ''fsck.ext4'', ''mke2fs'', ''mkfs.ext2'', ''mkfs.ext3'', ''mkfs.ext4'', ''mklost+found'',
    ''resize2fs'', ''tune2fs'', ''delgroup'', ''cron'', ''accessdb'', ''add-shell'', ''installkernel'',
    ''remove-shell'', ''update-shells'', ''arp'', ''ifconfig'', ''ipmaddr'', ''iptunnel'', ''mii-tool'',
    ''nameif'', ''plipconfig'', ''rarp'', ''route'', ''slattach'', ''iconvconfig'', ''ldconfig'', ''zic'']"

text \<open>\<open>CommandHandler::run\<close>\<close>

definition handler_run :: "handlers \<Rightarrow> access \<Rightarrow> cmd_module \<Rightarrow> str \<Rightarrow> dispatcher" where
  "handler_run H a md f s args = (case a of
      Read \<Rightarrow> (run_read H md f s args, s)
    | Mut \<Rightarrow> run_mut H md f s args)"

definition run_exit :: "shell \<Rightarrow> str \<Rightarrow> str list \<Rightarrow> command_result" where
  "run_exit s cmd args =
     (let farewell = (if sh_interactive s then LOGOUT else []) in
      case args of
        [] \<Rightarrow> exiting (cr_streams farewell [] (sh_last_status s))
      | [a] \<Rightarrow>
          (case parse_i64 10 a of
             Some n \<Rightarrow> exiting (cr_streams farewell [] (sint n mod 256))
           | None \<Rightarrow> exiting (cr_streams farewell
               (''-bash: '' @ cmd @ '': '' @ a @ '': numeric argument required'' @ [CHR 0x0A]) 2))
      | _ \<Rightarrow> cr_err (''-bash: '' @ cmd @ '': too many arguments'' @ [CHR 0x0A]) 1)"

definition dispatch_inner :: "handlers \<Rightarrow> dispatcher" where
  "dispatch_inner H s argv =
     (let cmd = hd argv; args = tl argv in
      case map_of command_table cmd of
        Some (a, md, f) \<Rightarrow> (let (r, s') = handler_run H a md f s args in (cr_truncate r, s'))
      | None \<Rightarrow>
          if cmd = ''true'' then (cr_ok [], s)
          else if cmd = ''false'' then (cr_err [] 1, s)
          else if cmd = ''exit'' \<or> cmd = ''logout'' then (run_exit s cmd args, s)
          else if cmd \<in> set USR_BIN \<or> cmd \<in> set USR_SBIN then (cr_empty, s)
          else (cr_err (''-bash: '' @ cmd @ '': command not found'' @ [CHR 0x0A]) 127, s))"

definition dispatch :: "handlers \<Rightarrow> dispatcher" where
  "dispatch H s argv =
     (if sh_nesting s \<ge> MAX_NESTED_COMMANDS then
        (cr_err (''-bash: fork: retry: Resource temporarily unavailable'' @ [CHR 0x0A]) 1, s)
      else
        (let (r, s') = dispatch_inner H (s\<lparr>sh_nesting := sh_nesting s + 1\<rparr>) argv
         in (r, s'\<lparr>sh_nesting := sh_nesting s' - 1\<rparr>)))"

section \<open>Properties\<close>

lemma cr_truncate_length: "length (c_output (cr_truncate r)) + length (c_stderr (cr_truncate r)) \<le> MAX_COMMAND_OUTPUT_BYTES + 48"
proof -
  let ?o = "truncate_stream (c_output r) MAX_COMMAND_OUTPUT_BYTES"
  have "length ?o \<le> MAX_COMMAND_OUTPUT_BYTES + 24"
    "length (truncate_stream (c_stderr r) (MAX_COMMAND_OUTPUT_BYTES - length ?o)) \<le> MAX_COMMAND_OUTPUT_BYTES - length ?o + 24"
    using truncate_stream_length by blast+
  then show ?thesis by (simp add: cr_truncate_def Let_def)
qed

text \<open>A command registered as reading cannot change the session: whatever its function does, after
  the dispatch every field of the session is what it was, the nesting level included.\<close>

theorem dispatch_read_only:
  assumes "map_of command_table (hd argv) = Some (Read, md, f)"
  shows "snd (dispatch H s argv) = s"
  using assms by (simp add: dispatch_def dispatch_inner_def handler_run_def)

theorem dispatch_read_only_witness:
  "\<forall>H s. snd (dispatch H s [''cat'', ''/etc/passwd'']) = s"
  using dispatch_read_only [of "[''cat'', ''/etc/passwd'']" Fs "''cat''"] by (simp add: command_table_def)

text \<open>What one registered command writes is bounded: the two streams together hold at most the cap
  and the two notices that mark a cut, whatever the command function returned.\<close>

theorem dispatch_output_bounded:
  assumes "map_of command_table (hd argv) = Some e"
  shows "length (c_output (fst (dispatch H s argv))) + length (c_stderr (fst (dispatch H s argv)))
    \<le> MAX_COMMAND_OUTPUT_BYTES + 48"
proof (cases "sh_nesting s \<ge> MAX_NESTED_COMMANDS")
  case True
  then show ?thesis by (simp add: dispatch_def cr_err_def MAX_COMMAND_OUTPUT_BYTES_def)
next
  case False
  obtain a md f where "e = (a, md, f)" by (cases e)
  then show ?thesis using False assms cr_truncate_length
    by (simp add: dispatch_def dispatch_inner_def split: prod.split)
qed

theorem dispatch_output_bounded_witness:
  "\<forall>H s. length (c_output (fst (dispatch H s [''cat'', ''/big'']))) + length (c_stderr (fst (dispatch H s [''cat'', ''/big''])))
    \<le> MAX_COMMAND_OUTPUT_BYTES + 48"
  using dispatch_output_bounded [of "[''cat'', ''/big'']" "(Read, Fs, ''cat'')"] by (simp add: command_table_def)

end
