(* ===== verification/Shell_Session.thy ===== *)
theory Shell_Session
  imports Shell_Safety Commands
begin

text \<open>
  Whole sessions: from login through any sequence of lines, prompts answered and here-documents, each
  in its own world (the time and the machine it is run in), with commands that respect the session. The command registry of \<open>Commands\<close> is one such dispatcher when
  the command functions are.
\<close>

section \<open>The operations outside a line\<close>

lemma mkdir_p_good:
  assumes "wf_vfs v" "mkdir_p now v path perms u g = (r, v')"
  shows "wf_vfs v'" "fsize v \<le> fsize v'" "\<And>i. r = Some i \<Longrightarrow> i < fsize v'"
  using wf_mkdir_p_loop [of v "fs_root v"] wf_treeD(1,2) [of v] assms unfolding mkdir_p_def
  by (metis fst_conv snd_conv wf_vfsD(1))+

lemma ensure_home_good:
  assumes "wf_vfs v"
  shows "good_result v (ensure_home now v path u g)"
proof (cases "resolve v (fs_root v) path")
  case (Some i)
  then show ?thesis using assms resolve_range [of v "fs_root v" path i] wf_treeD(1,2) [of v]
    by (auto simp: ensure_home_def good_result_def)
next
  case None
  obtain r v1 where m: "mkdir_p now v path o755 u g = (r, v1)" by (cases "mkdir_p now v path o755 u g")
  note good = mkdir_p_good [OF assms m]
  show ?thesis
  proof (cases r)
    case None
    then show ?thesis using \<open>resolve v _ path = None\<close> m good wf_treeD(1,2) [of v1] by (auto simp: ensure_home_def good_result_def)
  next
    case (Some home)
    let ?v2 = "snd (add_file now v1 home ''.bashrc'' (''# ~/.bashrc'' @ [CHR 0x0A]) o644 u g)"
    have 2: "good_result v1 (add_file now v1 home ''.bashrc'' (''# ~/.bashrc'' @ [CHR 0x0A]) o644 u g)"
      using good Some by (intro good_add_file) simp_all
    have "good_result ?v2 (add_file now ?v2 home ''.profile'' (''# ~/.profile'' @ [CHR 0x0A]) o644 u g)"
      using good Some 2 by (intro good_add_file) (auto dest: good_resultD)
    then show ?thesis using \<open>resolve v _ path = None\<close> m Some good 2 by (auto simp: ensure_home_def good_result_def Let_def)
  qed
qed

lemma shell_new_wf:
  assumes "wf_vfs v0"
  shows "session_wf (shell_new now v0 user host p) \<and> sh_nesting (shell_new now v0 user host p) = 0"
proof -
  have "good_result v0 (ensure_home now v0 path u g)" for path u g using ensure_home_good [OF assms] .
  then show ?thesis
    by (auto simp: shell_new_def Let_def session_wf_def good_result_def env_ok_login split: prod.splits)
       (metis fst_conv snd_conv)+
qed

lemma env_ok_fold_set: "env_ok e \<Longrightarrow> env_ok (fold (\<lambda>(k, x) e. env_set e k x) kvs e)"
  by (induction kvs arbitrary: e) (auto intro: wf_intros)

lemma switch_user_wf:
  assumes "session_wf s"
  shows "keeps_wf s (switch_user w s user)"
proof -
  have "good_result (sh_vfs s) (ensure_home (w_now w) (sh_vfs s) path u g)" for path u g
    using ensure_home_good assms by (simp add: session_wf_def)
  then show ?thesis using assms
    by (auto simp: switch_user_def Let_def keeps_wf_def session_wf_def good_result_def env_ok_login env_ok_fold_set split: prod.splits)
       (metis fst_conv snd_conv)+
qed

lemma write_text_wf:
  assumes "session_wf s"
  shows "keeps_wf s (snd (write_text w s path tx))"
proof (cases "resolve_parent s path")
  case None
  then show ?thesis using keeps_wf_refl [OF assms] by (simp add: write_text_def)
next
  case (Some q)
  then obtain p nm where rp: "resolve_parent s path = Some (p, nm)" by (cases q) simp
  have p: "p < fsize (sh_vfs s)" "wf_vfs (sh_vfs s)" using resolve_parent_range [OF assms rp] assms by (simp_all add: session_wf_def)
  show ?thesis
  proof (cases "child (sh_vfs s) p nm")
    case (Some i)
    then show ?thesis using rp keeps_wf_write [OF assms child_range [OF p(2,1) Some]]
      by (simp add: write_text_def split: prod.split) (metis snd_conv)
  next
    case None
    have "good_result (sh_vfs s) (add_file (w_now w) (sh_vfs s) p nm tx o644 (sh_uid s) (sh_gid s))"
      using good_add_file p by blast
    then show ?thesis using rp None keeps_wf_refl [OF assms] keeps_wf_vfs [OF assms]
      by (auto simp: write_text_def dest: good_resultD)
  qed
qed

section \<open>Sessions\<close>

inductive session :: "(world \<Rightarrow> dispatcher) \<Rightarrow> shell \<Rightarrow> bool" for d where
  login: "wf_vfs img \<Longrightarrow> session d (shell_new now img user host p)"
| line: "session d s \<Longrightarrow> execute w (d w) s l = Done (o1, t) \<Longrightarrow> session d t"
| answer: "session d s \<Longrightarrow> resume w (d w) s input = Done (o1, t) \<Longrightarrow> session d t"
| end_of_input: "session d s \<Longrightarrow> finish_heredoc_at_eof w (d w) s = Done (r, t) \<Longrightarrow> session d t"
| remember: "session d s \<Longrightarrow> session d (record_history s l)"

lemma resume_wf:
  assumes "obeys wf_at keeps_wf d" "wf_at N s"
  shows "fine keeps_wf s (resume w d s input)"
proof -
  let ?s = "s\<lparr>sh_pending := None\<rparr>"
  have wf: "session_wf s" using assms(2) by (simp add: wf_at_def)
  have same: "keeps_wf s t" if "essence s = essence t" for t using wf.K_scratch [OF assms(2) that] .
  have su: "keeps_wf s (switch_user w (s\<lparr>sh_pending := None, sh_captures := cs\<rparr>) tg)" for cs tg
    using wf.K_trans [OF same switch_user_wf] same wf.K_L [OF assms(2) same] by (simp add: essence_def wf_at_def)
  have sh: "keeps_wf s (set_shadow_entry w (s\<lparr>sh_pending := None, sh_captures := cs\<rparr>) tg)" for cs tg
    using wf.K_trans [OF same write_text_wf] wf.K_L [OF assms(2) same]
    by (simp add: set_shadow_entry_def Let_def essence_def wf_at_def)
  have hd: "fine keeps_wf s (run_heredoc w d ?s c r doc b)" for c r doc b
    using wf.fine_trans [OF same wf.fine_run_heredoc [OF assms(1) wf.K_L [OF assms(2) same]]] by (simp add: essence_def)
  have "keeps_wf s ?s" "keeps_wf s (?s\<lparr>sh_pending := p\<rparr>)" for p by (rule same, simp add: essence_def)+
  then show ?thesis using su sh hd
    by (auto simp: resume_def Let_def split: option.split pending.split)
qed

lemma session_ok:
  assumes "session d s" "\<And>w. obeys wf_at keeps_wf (d w)"
  shows "wf_at 0 s"
  using assms(1)
proof (induction rule: session.induct)
  case (login img now user host p)
  then show ?case using shell_new_wf by (simp add: wf_at_def)
next
  case (line s w l o1 t)
  then show ?case using wf.K_L [OF line.IH fineD [OF wf.fine_execute [OF assms(2) line.IH] line.hyps(2)]] by simp
next
  case (answer s w input o1 t)
  then show ?case using wf.K_L [OF answer.IH fineD [OF resume_wf [OF assms(2) answer.IH] answer.hyps(2)]] by simp
next
  case (end_of_input s w r t)
  have "essence s = essence (s\<lparr>sh_pending := None\<rparr>)" by (simp add: essence_def)
  note same = wf.K_scratch [OF end_of_input.IH this]
  note run = wf.fine_trans [OF same wf.fine_run_heredoc [OF assms(2) wf.K_L [OF end_of_input.IH same]]]
  have "keeps_wf s t" using end_of_input.hyps(2) same fineD [OF run]
    by (auto simp: finish_heredoc_at_eof_def Let_def obind_Done split: option.splits pending.splits)
  then show ?case using wf.K_L [OF end_of_input.IH] by simp
next
  case (remember s l)
  then show ?case by (simp add: record_history_def Let_def wf_at_def session_wf_def)
qed

section \<open>The command registry as dispatcher\<close>

lemma dispatch_inner_cases:
  "snd (dispatch_inner H s argv) = s \<or> (\<exists>md f. snd (dispatch_inner H s argv) = snd (run_mut H md f s (tl argv)))"
proof (cases "map_of command_table (hd argv)")
  case None
  then show ?thesis by (simp add: dispatch_inner_def Let_def)
next
  case (Some e)
  obtain a md f where "e = (a, md, f)" by (cases e)
  then show ?thesis using Some
    by (cases a) (simp_all add: dispatch_inner_def handler_run_def split: prod.split, metis snd_conv)
qed

lemma dispatch_snd:
  "snd (dispatch H s argv) = (if sh_nesting s \<ge> MAX_NESTED_COMMANDS then s
     else (let t = snd (dispatch_inner H (s\<lparr>sh_nesting := sh_nesting s + 1\<rparr>) argv) in t\<lparr>sh_nesting := sh_nesting t - 1\<rparr>))"
  by (simp add: dispatch_def Let_def split: prod.split)

lemma dispatch_obeys_nesting:
  assumes "\<And>md f t args. sh_nesting (snd (run_mut H md f t args)) = sh_nesting t"
  shows "obeys (\<lambda>N s. sh_nesting s = N) same_nesting (dispatch H)"
proof -
  have "sh_nesting (snd (dispatch_inner H t argv)) = sh_nesting t" for t argv
    using dispatch_inner_cases [of H t argv] assms by auto
  then show ?thesis by (simp add: obeys_def same_nesting_def dispatch_snd Let_def)
qed

lemma dispatch_obeys_wf:
  assumes "\<And>md f t args. session_wf t \<Longrightarrow> keeps_wf t (snd (run_mut H md f t args))"
  shows "obeys wf_at keeps_wf (dispatch H)"
proof -
  have inner: "keeps_wf t (snd (dispatch_inner H t argv))" if "session_wf t" for t argv
    using dispatch_inner_cases [of H t argv] assms [OF that] keeps_wf_refl [OF that] by auto
  have "keeps_wf t (snd (dispatch H t argv))" if t: "session_wf t" for t argv
  proof (cases "sh_nesting t \<ge> MAX_NESTED_COMMANDS")
    case False
    let ?t = "t\<lparr>sh_nesting := sh_nesting t + 1\<rparr>"
    have "keeps_wf ?t (snd (dispatch_inner H ?t argv))" using t by (intro inner) (simp add: session_wf_def)
    then show ?thesis using False by (simp add: dispatch_snd Let_def keeps_wf_def session_wf_def)
  qed (simp add: dispatch_snd keeps_wf_refl [OF t])
  then show ?thesis by (simp add: obeys_def wf_at_def)
qed

section \<open>Properties\<close>

text \<open>Sixteen levels of nesting are enough for any line, answer and end of input.\<close>

lemma lines_have_fuel:
  assumes "\<And>md f t args. sh_nesting (snd (run_mut H md f t args)) = sh_nesting t"
  shows "execute w (dispatch H) s line \<noteq> OutOfFuel \<and> resume w (dispatch H) s line \<noteq> OutOfFuel
    \<and> finish_heredoc_at_eof w (dispatch H) s \<noteq> OutOfFuel"
proof -
  note d = dispatch_obeys_nesting [OF assms]
  have h: "run_heredoc w (dispatch H) t c r doc b \<noteq> OutOfFuel" for t c r doc b
    using nest.fine_run_heredoc [OF d refl] unfolding fine_def by blast
  have "execute w (dispatch H) s line \<noteq> OutOfFuel"
    using nest.fine_execute [OF d refl] unfolding fine_def by blast
  then show ?thesis using h
    by (auto simp: resume_def finish_heredoc_at_eof_def Let_def obind_OutOfFuel split: option.splits pending.splits)
qed

definition idle_handlers :: handlers where
  "idle_handlers = \<lparr>run_read = \<lambda>md f s args. cr_ok (join '' '' args), run_mut = \<lambda>md f s args. (cr_ok f, s)\<rparr>"

text \<open>A session stays within its bounds. From the login on, through any lines, answered prompts, ended
  here-documents and remembered lines, if each command function keeps a session well-formed (and
  frees no node), then so does the whole shell: the arena is a tree within its node and byte caps,
  the environment holds at most 256 variables, the working directories are nodes of the arena, and
  the nesting level is back to zero, so no line starts with part of its nesting used up.\<close>

theorem session_bounded:
  assumes "session (\<lambda>w. dispatch (H w)) s"
    and "\<And>w md f t args. session_wf t \<Longrightarrow> keeps_wf t (snd (run_mut (H w) md f t args))"
  shows "wf_tree (sh_vfs s) \<and> fsize (sh_vfs s) \<le> 2000 \<and> content_bytes (sh_vfs s) \<le> 8388608
    \<and> length (env_iter (sh_env s)) \<le> 256
    \<and> sh_cwd s < fsize (sh_vfs s) \<and> sh_home s < fsize (sh_vfs s) \<and> sh_prev_cwd s < fsize (sh_vfs s)
    \<and> sh_nesting s = 0"
proof -
  have "wf_at 0 s" using session_ok [OF assms(1) dispatch_obeys_wf [OF assms(2)]] .
  then show ?thesis
    by (auto simp: wf_at_def session_wf_def wf_vfs_def wf_caps_def env_ok_def env_iter_def MAX_VFS_NODES_def
        MAX_VFS_BYTES_def MAX_ENV_VARS_def)
qed

theorem session_bounded_witness:
  "\<exists>s. session (\<lambda>w. dispatch idle_handlers) s \<and> sh_nesting s = 0 \<and> length (env_iter (sh_env s)) \<le> 256"
proof -
  have s: "session (\<lambda>w. dispatch idle_handlers) (shell_new 0 (vfs_new 0) ''bob'' ''box'' persona_sample)"
    by (rule session.login) (rule wf_vfs_new)
  have "keeps_wf t (snd (run_mut idle_handlers md f t args))" if "session_wf t" for md f t args
    using keeps_wf_refl [OF that] by (simp add: idle_handlers_def)
  from session_bounded [OF s this] s show ?thesis by blast
qed

end
