(* ===== verification/Session_Keeps.thy ===== *)
theory Session_Keeps
  imports Shell_Session
begin

text \<open>
  How the well-formedness of a session is carried through the filesystem operations a command or a
  request calls: the relation \<open>keeps_wf\<close> composes, and each operation of \<open>Vfs\<close> on a node of the session keeps it.
\<close>

lemma keeps_wf_result: "session_wf s \<Longrightarrow> good_result (sh_vfs s) r \<Longrightarrow> keeps_wf s (s\<lparr>sh_vfs := snd r\<rparr>)"
  using keeps_wf_vfs by blast

lemma keeps_wf_trans: "keeps_wf s t \<Longrightarrow> keeps_wf t u \<Longrightarrow> keeps_wf s u"
  by (auto simp: keeps_wf_def)

lemma keeps_wf_session: "keeps_wf s t \<Longrightarrow> session_wf t"
  by (simp add: keeps_wf_def)

lemma resolve_session:
  "session_wf s \<Longrightarrow> resolve (sh_vfs s) (sh_cwd s) path = Some i \<Longrightarrow> i < fsize (sh_vfs s)"
  using resolve_range by (auto simp: session_wf_def)

lemma fsize_attr_ops [simp]:
  "fsize (chmod v i p) = fsize v" "fsize (chown v i u g) = fsize v" "fsize (set_mtime v i t) = fsize v"
  "fsize (snd (unlink v i nm)) = fsize v"
  by (simp_all add: chmod_def chown_def set_mtime_def unlink_def upd_node_def)

lemma keeps_unlink:
  "session_wf s \<Longrightarrow> p < fsize (sh_vfs s) \<Longrightarrow> keeps_wf s (s\<lparr>sh_vfs := snd (unlink (sh_vfs s) p nm)\<rparr>)"
  by (rule keeps_wf_vfs) (simp_all add: wf_unlink session_wf_def)

lemma keeps_vfs_op: "session_wf s \<Longrightarrow> good_result (sh_vfs s) r \<Longrightarrow> session_wf (s\<lparr>sh_vfs := snd r\<rparr>)"
  using keeps_wf_result keeps_wf_session by blast

lemma session_vfs: "session_wf s \<Longrightarrow> wf_vfs (sh_vfs s)"
  by (simp add: session_wf_def)

lemma child_session: "session_wf s \<Longrightarrow> p < fsize (sh_vfs s) \<Longrightarrow> child (sh_vfs s) p nm = Some i \<Longrightarrow> i < fsize (sh_vfs s)"
  using child_range session_vfs by blast

end
