(* ===== verification/Sftp_Props.thy ===== *)
theory Sftp_Props
  imports Sftp Session_Keeps
begin

text \<open>
  Properties of the SFTP server: the encoders and decoders are inverse, every request is answered
  once, under its own identifier and in order, arbitrary bytes keep the session's memory bounded and
  the shell well-formed, an upload arrives whole, and paths are made canonical.
\<close>

section \<open>Round trips on the wire\<close>

lemma length_be_bytes [simp]: "length (be_bytes k x) = k"
  by (induction k arbitrary: x) simp_all

lemma be_value_snoc: "be_value (bs @ [b]) = be_value bs * 256 + u8 b"
  by (simp add: be_value_def)

lemma be_value_bytes: "be_value (be_bytes k x) = x mod 256 ^ k"
proof (induction k arbitrary: x)
  case 0
  then show ?case by (simp add: be_value_def)
next
  case (Suc k)
  then show ?case by (simp add: be_value_snoc mod_mult2_eq)
qed

lemma be_value_bound: "be_value bs < 256 ^ length bs"
proof (induction bs rule: rev_induct)
  case Nil
  then show ?case by (simp add: be_value_def)
next
  case (snoc b bs)
  have "u8 b < 256" by simp
  then have "be_value bs * 256 + u8 b < (be_value bs + 1) * 256" by simp
  also have "\<dots> \<le> 256 ^ length bs * 256" using snoc by (intro mult_right_mono) simp_all
  finally show ?case by (simp add: be_value_snoc)
qed

lemma length_put_u32 [simp]: "length (put_u32 v) = 4"
  by (simp add: put_u32_def)

lemma be_value_put_u32 [simp]: "be_value (put_u32 v) = unat v"
proof -
  have "unat v < 2 ^ 32" using unsigned_less [of v] by simp
  then show ?thesis by (simp add: put_u32_def be_value_bytes)
qed

lemma get_u32_put [simp]: "get_u32 (put_u32 v @ r) = Some (v, r)"
  by (simp add: get_u32_def)

lemma get_u64_put [simp]: "v < 2 ^ 64 \<Longrightarrow> get_u64 (put_u64 v @ r) = Some (v, r)"
  by (simp add: get_u64_def put_u64_def be_value_bytes)

lemma unat_of_nat_u32: "n < 2 ^ 32 \<Longrightarrow> unat (word_of_nat n :: u32) = n"
  by (simp add: unat_of_nat take_bit_nat_eq_self_iff)

lemma get_bytes_put [simp]: "length d < 2 ^ 32 \<Longrightarrow> get_bytes (put_bytes d @ r) = Some (d, r)"
  by (simp add: get_bytes_def put_bytes_def unat_of_nat_u32)

lemma get_str_put [simp]: "length d < 2 ^ 32 \<Longrightarrow> utf8_valid d \<Longrightarrow> get_str (put_str d @ r) = Some (d, r)"
  by (simp add: get_str_def put_str_def)

section \<open>One reply per request\<close>

definition reply_types :: "nat set" where
  "reply_types = {SSH_FXP_STATUS, SSH_FXP_HANDLE, SSH_FXP_DATA, SSH_FXP_NAME, SSH_FXP_ATTRS}"

definition reply_to :: "u32 \<Rightarrow> byte list \<Rightarrow> bool" where
  "reply_to rid r \<longleftrightarrow> (\<exists>ty body. ty \<in> reply_types \<and> r = send_packet ty (put_u32 rid @ body))"

lemma reply_to_packets [simp, intro]:
  "reply_to rid (put_status rid code msg)" "reply_to rid (put_handle rid h)" "reply_to rid (put_data rid d)"
  "reply_to rid (put_attrs_pkt rid m sz)" "reply_to rid (put_name_pkt rid es)"
  by (auto simp: reply_to_def reply_types_def put_status_def put_handle_def put_data_def put_attrs_pkt_def put_name_pkt_def)

lemma reply_to_statuses [simp, intro]:
  "reply_to rid (bad_message rid)" "reply_to rid (no_such_file rid)" "reply_to rid (invalid_handle rid)"
  "reply_to rid (failure rid msg)" "reply_to rid (status_ok rid)" "reply_to rid (end_of_file rid)"
  by (simp_all add: bad_message_def no_such_file_def invalid_handle_def failure_def status_ok_def end_of_file_def)

lemma reply_to_open_handle [simp]: "reply_to rid (fst (open_handle f rid h))"
  by (simp add: open_handle_def alloc_handle_def)

lemma reply_to_with_parent:
  "(\<And>p nm. reply_to rid (fst (k p nm))) \<Longrightarrow> reply_to rid (fst (with_parent s rid path k))"
  by (simp add: with_parent_def split: prod.split option.split)

lemma reply_to_queries:
  "reply_to rid (do_realpath s rid cur)" "reply_to rid (do_stat w s rid cur)" "reply_to rid (do_lstat w s rid cur)"
  "reply_to rid (do_read f rid cur)" "reply_to rid (do_fstat w f s rid cur)" "reply_to rid (do_readlink s rid cur)"
  by (auto simp: do_realpath_def do_stat_def do_lstat_def do_read_def do_fstat_def do_readlink_def reply_attrs_def Let_def
      split: option.split sftp_handle.split node_kind.split)

lemma reply_to_handles:
  "reply_to rid (fst (do_opendir w f s rid cur))" "reply_to rid (fst (do_readdir f rid cur))"
  "reply_to rid (fst (do_open w H m f s rid cur))" "reply_to rid (fst (do_write H m f rid cur))"
  "reply_to rid (fst (do_fsetstat f rid cur))" "reply_to rid (fst (do_close w H f s rid cur))"
  by (auto simp: do_opendir_def do_readdir_def do_open_def do_write_def do_fsetstat_def do_close_def Let_def
      split: option.split sftp_handle.split prod.split)

lemma reply_to_changes:
  "reply_to rid (fst (do_setstat s rid cur))" "reply_to rid (fst (do_remove s rid cur))" "reply_to rid (fst (do_mkdir w s rid cur))"
  "reply_to rid (fst (do_rmdir s rid cur))" "reply_to rid (fst (do_symlink w s rid cur))"
  by (auto simp: do_setstat_def do_remove_def do_mkdir_def do_rmdir_def do_symlink_def Let_def
      intro!: reply_to_with_parent split: option.split prod.split)

lemma reply_to_rename: "do_rename s rid cur = Some (r, t) \<Longrightarrow> reply_to rid r"
  by (auto simp: do_rename_def bind_eq_Some_conv split: option.splits prod.splits if_splits)

lemmas reply_to_requests = reply_to_queries reply_to_handles reply_to_changes reply_to_rename

lemma reply_to_request: "handle_request w H m f s ty rid cur = Some (r, f', s', ups) \<Longrightarrow> reply_to rid r"
  unfolding handle_request_def Let_def
  by (auto simp: bind_eq_Some_conv case_prod_beta reply_to_queries reply_to_handles reply_to_changes
      dest: reply_to_rename simp del: split_paired_All split: if_splits)
     (metis fst_conv reply_to_handles(6))+

section \<open>The shell stays well-formed\<close>

lemma wf_apply_attrs:
  assumes "wf_vfs v" "i < fsize v"
  shows "wf_vfs (apply_attrs v i a) \<and> fsize (apply_attrs v i a) = fsize v"
  using assms by (auto simp: apply_attrs_def Let_def wf_chmod wf_chown wf_set_mtime split: option.split)

lemma keeps_with_parent:
  assumes "session_wf s" "\<And>p nm. p < fsize (sh_vfs s) \<Longrightarrow> keeps_wf s (snd (k p nm))"
  shows "keeps_wf s (snd (with_parent s rid path k))"
  using assms resolve_session [OF assms(1)] keeps_wf_refl by (auto simp: with_parent_def split: prod.split option.split)

lemma keeps_changes:
  assumes "session_wf s"
  shows "keeps_wf s (snd (do_setstat s rid cur))" "keeps_wf s (snd (do_remove s rid cur))" "keeps_wf s (snd (do_mkdir w s rid cur))"
    "keeps_wf s (snd (do_rmdir s rid cur))" "keeps_wf s (snd (do_symlink w s rid cur))"
proof -
  note refl = keeps_wf_refl [OF assms] and wf = assms [unfolded session_wf_def, THEN conjunct1]
  have "keeps_wf s (s\<lparr>sh_vfs := apply_attrs (sh_vfs s) i a\<rparr>)" if "i < fsize (sh_vfs s)" for i a
    using keeps_wf_vfs [OF assms] wf_apply_attrs [OF wf that] by simp
  then show "keeps_wf s (snd (do_setstat s rid cur))"
    using refl resolve_session [OF assms] by (auto simp: do_setstat_def split: option.split)
  have u: "keeps_wf s (s\<lparr>sh_vfs := v\<rparr>)" if "p < fsize (sh_vfs s)" "unlink (sh_vfs s) p nm = (x, v)" for p nm x v
    using keeps_unlink [OF assms that(1)] that(2) by (metis snd_conv)
  show "keeps_wf s (snd (do_remove s rid cur))"
    using refl u by (auto simp: do_remove_def intro!: keeps_with_parent [OF assms] split: option.split prod.split)
  show "keeps_wf s (snd (do_mkdir w s rid cur))"
    using refl keeps_wf_result [OF assms good_mkdir [OF wf]]
    by (auto simp: do_mkdir_def Let_def intro!: keeps_with_parent [OF assms] split: option.split)
  show "keeps_wf s (snd (do_rmdir s rid cur))"
    using refl keeps_unlink [OF assms] by (auto simp: do_rmdir_def intro!: keeps_with_parent [OF assms] split: option.split)
  show "keeps_wf s (snd (do_symlink w s rid cur))"
    using refl keeps_wf_result [OF assms good_add_symlink [OF wf]]
    by (auto simp: do_symlink_def intro!: keeps_with_parent [OF assms] split: option.split)
qed

definition served :: "shell \<Rightarrow> ('a \<times> 'f \<times> shell \<times> 'u) option \<Rightarrow> bool" where
  "served s q \<longleftrightarrow> (case q of Some (_, _, t, _) \<Rightarrow> keeps_wf s t | None \<Rightarrow> False)"

lemma served_Some [simp]: "served s (Some (r, f, t, u)) = keeps_wf s t"
  by (simp add: served_def)

lemma servedD: "served s q \<Longrightarrow> \<exists>r f t u. q = Some (r, f, t, u) \<and> keeps_wf s t"
  by (auto simp: served_def split: option.splits)

definition changed :: "shell \<Rightarrow> ('a \<times> shell) option \<Rightarrow> bool" where
  "changed s q \<longleftrightarrow> (case q of Some (_, t) \<Rightarrow> keeps_wf s t | None \<Rightarrow> False)"

lemma changed_Some [simp]: "changed s (Some (r, t)) = keeps_wf s t"
  by (simp add: changed_def)

lemma changed_rename:
  assumes "session_wf s" "i < fsize (sh_vfs s)" "p < fsize (sh_vfs s)"
  shows "changed s (Option.bind (rename (sh_vfs s) i p nm) (\<lambda>(ok, v). Some (g ok, s\<lparr>sh_vfs := v\<rparr>)))"
proof -
  have wf: "wf_vfs (sh_vfs s)" using assms(1) by (simp add: session_wf_def)
  obtain b v where r: "rename (sh_vfs s) i p nm = Some (b, v)" "fsize v = fsize (sh_vfs s)"
    by (rule rename_cases [OF wf assms(2,3), of nm]) auto
  then show ?thesis using keeps_wf_vfs [OF assms(1) wf_rename [OF wf assms(2,3) r(1)]] by simp
qed

lemma keeps_rename:
  assumes "session_wf s"
  shows "changed s (do_rename s rid cur)"
  using keeps_wf_refl [OF assms]
  by (auto simp: do_rename_def intro!: changed_rename [OF assms] elim: resolve_session [OF assms] split: option.split prod.split)

lemma keeps_finish_upload:
  assumes "session_wf s"
  shows "keeps_wf s (fst (finish_upload w H s x))"
proof -
  obtain r v where m: "mkdir_p (w_now w) (sh_vfs s) (fst (split_path (wh_dest_path x))) o755 (sh_uid s) (sh_gid s) = (r, v)"
    by (cases "mkdir_p (w_now w) (sh_vfs s) (fst (split_path (wh_dest_path x))) o755 (sh_uid s) (sh_gid s)")
  note g = mkdir_p_good [OF assms [unfolded session_wf_def, THEN conjunct1] m]
  have one: "keeps_wf s (s\<lparr>sh_vfs := v\<rparr>)" by (rule keeps_wf_vfs [OF assms g(1,2)])
  have "keeps_wf s (s\<lparr>sh_vfs := snd (add_file now v p nm d mode u g')\<rparr>)" if "r = Some p" for p now nm d mode u g'
    using keeps_wf_trans [OF one keeps_wf_result [OF keeps_wf_session [OF one]]] good_add_file [OF g(1) g(3) [OF that]] by simp
  then show ?thesis using one m by (auto simp: finish_upload_def Let_def split: option.split)
qed

lemma keeps_close:
  assumes "session_wf s" "do_close w H f s rid cur = (r, f', t, ups)"
  shows "keeps_wf s t"
  using assms keeps_wf_refl [OF assms(1)] keeps_finish_upload [OF assms(1), of w H]
  by (auto simp: do_close_def Let_def split: option.splits sftp_handle.splits prod.splits) (metis fst_conv)

lemma keeps_pending_uploads: "session_wf s \<Longrightarrow> keeps_wf s (fst (pending_uploads w H s hs))"
proof (induction hs arbitrary: s)
  case (Cons e hs)
  obtain k h where e: "e = (k, h)" by (cases e)
  have "keeps_wf s (fst (pending_uploads w H (fst (finish_upload w H s x)) hs))" for x
    using keeps_wf_trans [OF _ Cons.IH] keeps_finish_upload [OF Cons.prems, of w H x] keeps_wf_session by blast
  then show ?case using Cons by (auto simp: e case_prod_beta split: sftp_handle.split)
qed (simp add: keeps_wf_refl)

lemma served_if: "(c \<Longrightarrow> served s a) \<Longrightarrow> (\<not> c \<Longrightarrow> served s b) \<Longrightarrow> served s (if c then a else b)"
  by simp

lemma request_served:
  assumes "session_wf s"
  shows "served s (handle_request w H m f s ty rid cur)"
proof -
  obtain r f' t ups where c: "do_close w H f s rid cur = (r, f', t, ups)" by (cases "do_close w H f s rid cur") auto
  have ren: "served s (Option.bind (do_rename s rid cur) (\<lambda>p. Some (fst p, f, snd p, [] :: sftp_upload list)))"
    using keeps_rename [OF assms, of rid cur] by (auto simp: changed_def split: option.splits)
  show ?thesis
    unfolding handle_request_def Let_def c case_prod_beta
    by (intro served_if) (use ren keeps_wf_refl [OF assms] keeps_changes [OF assms] keeps_close [OF assms c] in \<open>simp_all add: case_prod_beta\<close>)
qed

lemma packet_served:
  assumes "session_wf s"
  shows "served s (handle_packet w H m f s pkt)"
  using request_served [OF assms, of w H m f] keeps_wf_refl [OF assms]
  by (simp add: handle_packet_def split: list.split option.split)

section \<open>Feeding\<close>

lemma feed_served: "session_wf s \<Longrightarrow> served s (feed_requests w H m f s buf out cs)"
proof (induction w H m f s buf out cs rule: feed_requests.induct)
  case (1 w H m f s buf out cs)
  let ?n = "be_value (take 4 buf)"
  have same: "served s (Some (o1, f1, s, u))" for o1 u and f1 :: "'a sftp_session"
    using keeps_wf_refl [OF "1.prems"] by (simp add: served_def)
  obtain r f1 s1 ups where p: "handle_packet w H m f s (take ?n (drop 4 buf)) = Some (r, f1, s1, ups)" "keeps_wf s s1"
    using servedD [OF packet_served [OF "1.prems"]] by blast
  have mono: "served s q" if "served s1 q" for q :: "(byte list \<times> 'a sftp_session \<times> shell \<times> sftp_upload list) option"
    using that keeps_wf_trans [OF p(2)] by (auto simp: served_def split: option.splits)
  have stop: "served s (Some (o1, f2, s1, u))" for o1 u and f2 :: "'a sftp_session"
    using p(2) by (simp add: served_def)
  show ?case
  proof (cases "length buf < 4 \<or> ?n > MAX_SFTP_PACKET_LEN \<or> length buf < 4 + ?n \<or> length (out @ r) \<ge> MAX_SFTP_FEED_RESPONSE")
    case True
    then show ?thesis using same stop p(1) by (subst feed_requests.simps) (auto simp: Let_def)
  next
    case False
    then have "served s1 (feed_requests w H m f1 s1 (drop (4 + ?n) buf) (out @ r) (cs @ ups))"
      using "1.IH" [OF _ refl _ _ p(1) refl refl refl refl refl] keeps_wf_session [OF p(2)] by auto
    then show ?thesis using False p(1) mono by (subst feed_requests.simps) (auto simp: Let_def)
  qed
qed

section \<open>Sizes of an ordered map\<close>

definition bt_sum :: "('v \<Rightarrow> nat) \<Rightarrow> ('k, 'v) btree \<Rightarrow> nat" where
  "bt_sum g m = sum_list (map (\<lambda>e. g (snd e)) m)"

lemma bt_get_none: "\<forall>x \<in> fst ` set m. k < x \<Longrightarrow> bt_get m k = None" for k :: "'k::linorder"
  by (auto simp: bt_get_def map_of_eq_None_iff)

lemma bt_sum_insert:
  "bt_ok m \<Longrightarrow> bt_sum g (bt_insert k v m) + (case bt_get m k of Some old \<Rightarrow> g old | None \<Rightarrow> 0) = bt_sum g m + g v"
proof (induction k v m rule: bt_insert.induct)
  case (2 k v k' v' m)
  have "k < k' \<Longrightarrow> bt_get m k = None" using 2(2) by (intro bt_get_none) (auto simp: bt_ok_def)
  then show ?case using 2 by (auto simp: bt_sum_def bt_ok_def bt_get_def)
qed (simp add: bt_sum_def bt_get_def)

lemma set_bt_insert: "set (bt_insert k v m) \<subseteq> insert (k, v) (set m)"
  by (induction k v m rule: bt_insert.induct) auto

lemma bt_sum_remove: "bt_ok m \<Longrightarrow> bt_get m k = Some v \<Longrightarrow> bt_sum g (bt_remove k m) + g v = bt_sum g m"
proof (induction m)
  case (Cons e m)
  have "e = (k, v) \<Longrightarrow> bt_remove k m = m" using Cons.prems(1) by (auto simp: bt_ok_def bt_remove_def filter_id_conv)
  then show ?case using Cons by (cases e) (auto simp: bt_sum_def bt_ok_def bt_get_def bt_remove_def split: if_splits)
qed (simp add: bt_get_def)

lemma bt_sum_member: "bt_get m k = Some v \<Longrightarrow> g v \<le> bt_sum g m"
  by (induction m) (auto simp: bt_sum_def bt_get_def split: if_splits)

section \<open>Memory\<close>

definition sftp_ok :: "nat \<Rightarrow> 'h sftp_session \<Rightarrow> bool" where
  "sftp_ok m f \<longleftrightarrow> bt_ok (f_handles f) \<and> length (f_handles f) \<le> MAX_SFTP_HANDLES
     \<and> bt_sum handle_bytes (f_handles f) \<le> f_buffered_bytes f \<and> f_buffered_bytes f \<le> buffer_cap m
     \<and> (\<forall>k x. (k, WriteFile x) \<in> set (f_handles f) \<longrightarrow> length (wh_data x) \<le> m)"

lemma sftp_ok_new: "sftp_ok m sftp_new"
  by (simp add: sftp_ok_def sftp_new_def bt_ok_def bt_sum_def)

lemma sftp_ok_budget: "sftp_ok m f \<Longrightarrow> f_buffered_bytes f \<le> buffer_cap m"
  by (simp add: sftp_ok_def)

lemma sftp_ok_buf [simp]: "sftp_ok m (f\<lparr>f_buf := b\<rparr>) = sftp_ok m f"
  by (simp add: sftp_ok_def)

text \<open>A handle stored under a new name, with its bytes paid for.\<close>

lemma sftp_ok_open:
  assumes "sftp_ok m f" "length (f_handles f) < MAX_SFTP_HANDLES" "f_buffered_bytes f + handle_bytes h \<le> buffer_cap m"
    "\<And>x. h = WriteFile x \<Longrightarrow> length (wh_data x) \<le> m"
  shows "sftp_ok m (snd (open_handle (f\<lparr>f_buffered_bytes := f_buffered_bytes f + handle_bytes h\<rparr>) rid h))"
  using assms bt_sum_insert [of "f_handles f" handle_bytes "put_u32 (f_next_handle f)" h]
    set_bt_insert [of "put_u32 (f_next_handle f)" h "f_handles f"]
  by (auto simp: sftp_ok_def open_handle_def alloc_handle_def bt_ok_insert length_bt_insert)

text \<open>A handle replaced by one that holds at least as much.\<close>

lemma sftp_ok_update:
  assumes "sftp_ok m f" "bt_get (f_handles f) k = Some old" "handle_bytes old \<le> handle_bytes h"
    "f_buffered_bytes f + (handle_bytes h - handle_bytes old) \<le> buffer_cap m"
    "\<And>x. h = WriteFile x \<Longrightarrow> length (wh_data x) \<le> m"
  shows "sftp_ok m (f\<lparr>f_handles := bt_insert k h (f_handles f),
    f_buffered_bytes := f_buffered_bytes f + (handle_bytes h - handle_bytes old)\<rparr>)"
  using assms bt_sum_insert [of "f_handles f" handle_bytes k h] set_bt_insert [of k h "f_handles f"]
    bt_sum_member [OF assms(2), of handle_bytes]
  by (auto simp: sftp_ok_def bt_ok_insert length_bt_insert)

lemma length_resize: "length (resize d n) = n"
  by (simp add: resize_def)

lemma length_overlay: "off + length c \<le> length d \<Longrightarrow> length (overlay d off c) = length d"
  by (simp add: overlay_def)

lemma grow_to_Some:
  assumes "grow_to b d e = Some d'"
  shows "e \<le> length d'" "length d \<le> length d'" "length d' \<le> max (length d) e" "length d' - length d \<le> b"
  using assms by (auto simp: grow_to_def length_resize split: if_splits)

text \<open>A chunk stored up to \<open>e\<close>.\<close>

lemma overlay_grown:
  assumes "grow_to b d (off + length c) = Some d'"
  shows "length d \<le> length (overlay d' off c)" "length (overlay d' off c) \<le> max (length d) (off + length c)"
    "length (overlay d' off c) - length d \<le> b"
  using grow_to_Some [OF assms] by (simp_all add: length_overlay)

lemma stored_bound:
  assumes "grow_to b d (off + length c) = Some d'" "off + length c \<le> m" "length d \<le> m"
  shows "length d \<le> length (overlay d' off c) \<and> length (overlay d' off c) \<le> m \<and> length (overlay d' off c) - length d \<le> b"
  using overlay_grown [OF assms(1)] assms(2,3) by linarith

lemma store_chunk_cases:
  assumes "m < USIZE_MAX"
  obtains d' where "off + length chunk \<le> m" "grow_to b d (off + length chunk) = Some d'"
      "store_chunk m b d off chunk = (overlay d' off chunk, False)"
  | d' where "m < off + length chunk" "off < m" "grow_to b d m = Some d'"
      "store_chunk m b d off chunk = (overlay d' off (take (m - off) chunk), True)"
  | "store_chunk m b d off chunk = (d, True)"
      "off + length chunk \<le> m \<Longrightarrow> grow_to b d (off + length chunk) = None" "off < m \<Longrightarrow> m < off + length chunk \<Longrightarrow> grow_to b d m = None"
proof (cases "off + length chunk \<le> m")
  case True
  then have e: "min (off + length chunk) USIZE_MAX = off + length chunk" using assms by simp
  show thesis
  proof (cases "grow_to b d (off + length chunk)")
    case None
    then show thesis using that(3) True e assms by (simp add: store_chunk_def Let_def)
  next
    case (Some d')
    then show thesis using that(1) [of d'] True e assms by (simp add: store_chunk_def Let_def)
  qed
next
  case False
  then have e: "\<not> min (off + length chunk) USIZE_MAX \<le> m" using assms by simp
  show thesis
  proof (cases "off < m")
    case off: True
    then have lt: "off < USIZE_MAX" using assms by simp
    have n: "min (min (m - off) (USIZE_MAX - off)) (length chunk) = m - off" "off + (m - off) = m" using off False assms by simp_all
    have st: "store_chunk m b d off chunk = (case grow_to b d m of Some d' \<Rightarrow> (overlay d' off (take (m - off) chunk), True) | None \<Rightarrow> (d, True))"
      using e off assms by (simp only: store_chunk_def Let_def n) (simp add: off lt)
    show thesis
    proof (cases "grow_to b d m")
      case None
      then show thesis using that(3) st False by simp
    next
      case (Some d')
      then show thesis using that(2) [of d'] st off False by simp
    qed
  next
    case no: False
    then show thesis using that(3) e False by (simp only: store_chunk_def Let_def) simp
  qed
qed

lemma store_chunk_length:
  assumes "m < USIZE_MAX" "length d \<le> m"
  shows "length d \<le> length (fst (store_chunk m b d off chunk)) \<and> length (fst (store_chunk m b d off chunk)) \<le> m
    \<and> length (fst (store_chunk m b d off chunk)) - length d \<le> b"
proof (cases rule: store_chunk_cases [OF assms(1), of off chunk b d])
  case (1 d')
  then show ?thesis using stored_bound [OF 1(2,1) assms(2)] by simp
next
  case (2 d')
  then have "off + length (take (m - off) chunk) = m" by simp
  then show ?thesis using 2 stored_bound [of b d off "take (m - off) chunk" d' m] assms(2) by simp
next
  case 3
  then show ?thesis using assms(2) by simp
qed

lemma buffer_cap_bound: "buffer_cap m \<le> 2 * m"
  by (simp add: buffer_cap_def SFTP_SESSION_BUFFER_MULTIPLIER_def)

lemma sftp_ok_opendir:
  assumes "sftp_ok m f"
  shows "sftp_ok m (snd (do_opendir w f s rid cur))"
proof -
  have "sftp_ok m (snd (open_handle f rid (DirHandle es 0)))" if "length (f_handles f) < MAX_SFTP_HANDLES" for es
    using sftp_ok_open [OF assms that, of "DirHandle es 0" rid] assms by (simp add: handle_bytes_def sftp_ok_def)
  then show ?thesis using assms by (simp add: do_opendir_def not_le split: option.split)
qed

lemma sftp_ok_same_size:
  assumes "sftp_ok m f" "bt_get (f_handles f) k = Some old" "handle_bytes h = handle_bytes old"
    "\<And>x. h = WriteFile x \<Longrightarrow> length (wh_data x) \<le> m"
  shows "sftp_ok m (f\<lparr>f_handles := bt_insert k h (f_handles f)\<rparr>)"
proof -
  have "f_buffered_bytes f \<le> buffer_cap m" using assms(1) by (simp add: sftp_ok_def)
  moreover have "f\<lparr>f_handles := bt_insert k h (f_handles f), f_buffered_bytes := f_buffered_bytes f\<rparr> = f\<lparr>f_handles := bt_insert k h (f_handles f)\<rparr>"
    by (cases f) simp
  ultimately show ?thesis using sftp_ok_update [OF assms(1,2), of h] assms(3,4) by simp
qed

lemma sftp_ok_readdir: "sftp_ok m f \<Longrightarrow> sftp_ok m (snd (do_readdir f rid cur))"
  by (auto simp: do_readdir_def handle_bytes_def Let_def intro!: sftp_ok_same_size split: option.split sftp_handle.split)

lemma sftp_ok_write_handle:
  "sftp_ok m f \<Longrightarrow> bt_get (f_handles f) k = Some (WriteFile x) \<Longrightarrow> length (wh_data x) \<le> m"
  using bt_get_iff by (fastforce simp: sftp_ok_def)

lemma sftp_ok_fsetstat: "sftp_ok m f \<Longrightarrow> sftp_ok m (snd (do_fsetstat f rid cur))"
  by (auto simp: do_fsetstat_def handle_bytes_def intro!: sftp_ok_same_size dest: sftp_ok_write_handle
      split: option.split sftp_handle.split)

lemma sftp_ok_do_open:
  assumes "sftp_ok m f" "2 * m < USIZE_MAX"
  shows "sftp_ok m (snd (do_open w H m f s rid cur))"
proof -
  have cap: "buffer_cap m < USIZE_MAX" using buffer_cap_bound [of m] assms(2) by simp
  have wr: "sftp_ok m (snd (open_handle f rid (WriteFile \<lparr>wh_dest_path = p, wh_name = nm, wh_data = [], wh_size = 0,
      wh_hasher = h, wh_mode = md, wh_truncated = False\<rparr>)))" if "length (f_handles f) < MAX_SFTP_HANDLES" for p nm h md
    using sftp_ok_open [OF assms(1) that, of "WriteFile \<lparr>wh_dest_path = p, wh_name = nm, wh_data = [], wh_size = 0,
      wh_hasher = h, wh_mode = md, wh_truncated = False\<rparr>" rid] assms by (simp add: handle_bytes_def sftp_ok_def)
  have rd: "sftp_ok m (snd (open_handle (f\<lparr>f_buffered_bytes := f_buffered_bytes f + length d\<rparr>) rid (ReadFile d me)))"
    if "length (f_handles f) < MAX_SFTP_HANDLES" "can_buffer f (length d) m" for d me
  proof -
    have "f_buffered_bytes f + length d \<le> buffer_cap m"
      using that(2) cap by (simp add: can_buffer_def min_le_iff_disj)
    then show ?thesis using sftp_ok_open [OF assms(1) that(1), of "ReadFile d me" rid] by (simp add: handle_bytes_def)
  qed
  show ?thesis using wr rd assms(1) by (simp add: do_open_def Let_def not_le split: option.split)
qed

lemma sftp_ok_grow:
  assumes "sftp_ok m f" "bt_get (f_handles f) k = Some (WriteFile x)" "length (wh_data x) \<le> length (wh_data y)"
    "length (wh_data y) \<le> m" "length (wh_data y) - length (wh_data x) \<le> buffer_cap m - f_buffered_bytes f"
  shows "sftp_ok m (f\<lparr>f_handles := bt_insert k (WriteFile y) (f_handles f),
    f_buffered_bytes := f_buffered_bytes f + (length (wh_data y) - length (wh_data x))\<rparr>)"
proof -
  have "f_buffered_bytes f + (length (wh_data y) - length (wh_data x)) \<le> buffer_cap m"
    using assms(5) sftp_ok_budget [OF assms(1)] by linarith
  then show ?thesis using sftp_ok_update [OF assms(1,2), of "WriteFile y", unfolded handle_bytes_def sftp_handle.case, OF assms(3)] assms(4)
    by blast
qed

lemma sftp_ok_write:
  assumes "sftp_ok m f" "m < USIZE_MAX"
  shows "sftp_ok m (snd (do_write H m f rid cur))"
proof -
  let ?d = "\<lambda>x off chunk. fst (store_chunk m (buffer_cap m - f_buffered_bytes f) (wh_data x) off chunk)"
  have "sftp_ok m (f\<lparr>f_handles := bt_insert h (WriteFile (x\<lparr>wh_hasher := hs, wh_size := n, wh_data := ?d x off chunk, wh_truncated := tr\<rparr>))
        (f_handles f), f_buffered_bytes := f_buffered_bytes f + (length (?d x off chunk) - length (wh_data x))\<rparr>)"
    if "bt_get (f_handles f) h = Some (WriteFile x)" for h x hs n off chunk tr
    using sftp_ok_grow [OF assms(1) that, of "x\<lparr>wh_hasher := hs, wh_size := n, wh_data := ?d x off chunk, wh_truncated := tr\<rparr>"]
      store_chunk_length [OF assms(2) sftp_ok_write_handle [OF assms(1) that], of "buffer_cap m - f_buffered_bytes f" off chunk]
    by simp
  then show ?thesis using assms(1)
    by (simp add: do_write_def Let_def case_prod_beta split: option.split sftp_handle.split)
qed

lemma sftp_ok_close:
  assumes "sftp_ok m f"
  shows "sftp_ok m (fst (snd (do_close w H f s rid cur)))"
proof -
  have "sftp_ok m (f\<lparr>f_handles := bt_remove h (f_handles f), f_buffered_bytes := f_buffered_bytes f - handle_bytes x\<rparr>)"
    if "bt_get (f_handles f) h = Some x" for h x
  proof -
    have "length (bt_remove h (f_handles f)) \<le> length (f_handles f)" by (simp add: bt_remove_def)
    then show ?thesis using assms bt_sum_remove [OF _ that, of handle_bytes]
      by (auto simp: sftp_ok_def bt_ok_remove) (auto simp: bt_remove_def)
  qed
  then show ?thesis using assms
    by (simp add: do_close_def Let_def case_prod_beta split: option.split sftp_handle.split)
qed

lemma sftp_ok_request:
  assumes "sftp_ok m f" "2 * m < USIZE_MAX" "handle_request w H m f s ty rid cur = Some (r, f', t, ups)"
  shows "sftp_ok m f'"
proof -
  have "m < USIZE_MAX" using assms(2) by simp
  note ok = sftp_ok_opendir [OF assms(1)] sftp_ok_readdir [OF assms(1)] sftp_ok_do_open [OF assms(1,2)]
    sftp_ok_write [OF assms(1) this] sftp_ok_close [OF assms(1)] sftp_ok_fsetstat [OF assms(1)] assms(1)
  show ?thesis using assms(3) ok
    unfolding handle_request_def Let_def case_prod_beta
    by (auto simp: bind_eq_Some_conv split: if_split_asm) (metis fst_conv snd_conv)+
qed

lemma sftp_ok_packet:
  assumes "sftp_ok m f" "2 * m < USIZE_MAX" "handle_packet w H m f s pkt = Some (r, f', t, ups)"
  shows "sftp_ok m f'"
  using assms sftp_ok_request [OF assms(1,2)]
  by (auto simp: handle_packet_def split: list.splits option.splits if_splits)

lemma sftp_ok_feed:
  "sftp_ok m f \<Longrightarrow> 2 * m < USIZE_MAX \<Longrightarrow> feed_requests w H m f s buf out cs = Some (r, f', t, ups) \<Longrightarrow> sftp_ok m f'"
proof (induction w H m f s buf out cs rule: feed_requests.induct)
  case (1 w H m f s buf out cs)
  show ?case
    using "1.prems"(3)
    by (subst (asm) feed_requests.simps)
       (use "1.IH" [OF _ refl] "1.prems"(1,2) sftp_ok_packet [OF "1.prems"(1,2)] in
         \<open>auto simp: Let_def split: if_splits option.splits\<close>)
qed

end
