(* ===== verification/Line_Editor_Props.thy ===== *)
theory Line_Editor_Props
  imports Line_Editor
begin

text \<open>
  What the line editor guarantees. \<open>ed_wf\<close> keeps every index the code uses in range and is kept by
  every operation; \<open>ed_small\<close> bounds the memory an attacker can drive through input bytes. Text is
  followed character by character by a zipper the editor refines.
\<close>

section \<open>Positions\<close>

lemma back_while_le: "back_while P s n \<le> n"
  by (induction n) (auto intro: le_SucI)

lemma back_while_stop: "back_while P s n = Suc k \<Longrightarrow> \<not> P (s ! k)"
  by (induction n) (auto split: if_splits)

lemma back_to_lead_le: "back_to_lead s n \<le> n"
  by (induction n) (auto intro: le_SucI)

lemma back_to_lead_boundary: "boundary s (back_to_lead s n)"
  by (induction n) (auto simp: boundary_def)

lemma skip_continuation_props:
  "i \<le> length s \<Longrightarrow> i \<le> skip_continuation s i \<and> skip_continuation s i \<le> length s \<and>
   (skip_continuation s i < length s \<longrightarrow> \<not> is_continuation (s ! skip_continuation s i))"
proof (induction s i rule: skip_continuation.induct)
  case (1 s i)
  then show ?case
    by (cases "i < length s \<and> is_continuation (s ! i)") (auto simp: skip_continuation.simps [of s i])
qed

lemma prev_char_props: "prev_char e i \<le> i - 1" "boundary (le_buf e) (prev_char e i)"
  by (simp_all add: prev_char_def back_to_lead_le back_to_lead_boundary)

lemma next_char_props:
  assumes "i < length (le_buf e)"
  shows "i < next_char e i" "next_char e i \<le> length (le_buf e)" "boundary (le_buf e) (next_char e i)"
  using skip_continuation_props [of "i + 1" "le_buf e"] assms
  by (auto simp: next_char_def boundary_def)

lemma ascii_boundary: "utf8_valid s \<Longrightarrow> k < length s \<Longrightarrow> u8 (s ! k) < 128 \<Longrightarrow> boundary s (Suc k)"
  using ascii_then_boundary [of "chars s" k] utf8_valid_chars [of s] by simp

lemma ascii_whitespace_u8: "is_ascii_whitespace b \<Longrightarrow> u8 b < 128"
  by (auto simp: is_ascii_whitespace_def)

lemma back_while_boundary:
  assumes "utf8_valid s" "n \<le> length s"
  shows "boundary s (back_while (\<lambda>b. \<not> is_ascii_whitespace b) s n)"
proof (cases "back_while (\<lambda>b. \<not> is_ascii_whitespace b) s n")
  case (Suc k)
  then have "is_ascii_whitespace (s ! k)" using back_while_stop by fastforce
  moreover have "k < length s" using back_while_le [of "\<lambda>b. \<not> is_ascii_whitespace b" s n] Suc assms(2) by simp
  ultimately show ?thesis using ascii_boundary [OF assms(1)] ascii_whitespace_u8 Suc by simp
qed (simp add: boundary_def)

section \<open>Invariants\<close>

definition ed_wf :: "line_editor \<Rightarrow> bool" where
  "ed_wf e \<longleftrightarrow> le_cursor e \<le> length (le_buf e)
     \<and> (\<forall>i. le_hist_pos e = Some i \<longrightarrow> i < length (le_history e))
     \<and> (\<forall>s. le_search e = Some s \<longrightarrow> length (sr_query s) \<le> le_max_line e
           \<and> (\<forall>i. sr_matched s = Some i \<longrightarrow> i < length (le_history e)))
     \<and> length (le_csi_params e) \<le> 8 \<and> length (le_history e) \<le> le_max_history e"

text \<open>Text is within the line cap, or it is well formed and at most three times as long (what the
  replacement of ill-formed bytes can make of a full line).\<close>

definition text_ok :: "nat \<Rightarrow> byte list \<Rightarrow> bool" where
  "text_ok n s \<longleftrightarrow> length s \<le> n \<or> utf8_valid s \<and> length s \<le> 3 * n"

definition ed_small :: "line_editor \<Rightarrow> bool" where
  "ed_small e \<longleftrightarrow> text_ok (le_max_line e) (le_buf e)
     \<and> (length (le_buf e) > le_max_line e \<longrightarrow> boundary (le_buf e) (le_cursor e))
     \<and> text_ok (le_max_line e) (le_stash e) \<and> length (le_kill e) \<le> 3 * le_max_line e
     \<and> (\<forall>h\<in>set (le_history e). utf8_valid h \<and> length h \<le> 3 * le_max_line e)"

lemma text_ok_length: "text_ok n s \<Longrightarrow> length s \<le> 3 * n"
  by (auto simp: text_ok_def)

lemma text_ok_boundary_end: "boundary s (length s)"
  by (simp add: boundary_def)

lemma text_cut:
  assumes "text_ok n s" "length s > n \<longrightarrow> boundary s i \<and> boundary s j" "i \<le> j" "j \<le> length s"
  shows "text_ok n (take i s @ drop j s)"
    and "length (take i s @ drop j s) > n \<longrightarrow> boundary (take i s @ drop j s) i"
proof -
  have len: "length (take i s @ drop j s) \<le> length s" using assms(3,4) by simp
  show "text_ok n (take i s @ drop j s)"
  proof (cases "length s \<le> n")
    case True
    then show ?thesis using len by (simp add: text_ok_def)
  next
    case False
    then have "utf8_valid s" "boundary s i" "boundary s j" "length s \<le> 3 * n" using assms by (auto simp: text_ok_def)
    then show ?thesis using utf8_valid_cut utf8_valid_append len by (auto simp: text_ok_def)
  qed
  show "length (take i s @ drop j s) > n \<longrightarrow> boundary (take i s @ drop j s) i"
  proof
    assume "length (take i s @ drop j s) > n"
    then have "boundary s j" using assms(2) len by linarith
    then show "boundary (take i s @ drop j s) i"
      using assms(3,4) by (auto simp: boundary_def nth_append)
  qed
qed

lemma text_drop:
  assumes "text_ok n s" "length s > n \<longrightarrow> boundary s i"
  shows "text_ok n (drop i s)" "text_ok n (take i s)"
proof -
  have "length s \<le> n \<or> utf8_valid s \<and> boundary s i \<and> length s \<le> 3 * n" using assms by (auto simp: text_ok_def)
  then show "text_ok n (drop i s)" "text_ok n (take i s)" using utf8_valid_cut [of s i] by (auto simp: text_ok_def)
qed

named_theorems ed_keeps \<open>operations keep the invariants of the editor\<close>

lemma wf_edit:
  assumes "ed_wf e" "c \<le> length b"
  shows "ed_wf (e\<lparr>le_buf := b, le_cursor := c\<rparr>)" "ed_wf (e\<lparr>le_buf := b, le_cursor := c, le_hist_pos := None\<rparr>)"
    "ed_wf (e\<lparr>le_kill := k, le_buf := b, le_cursor := c\<rparr>)"
  using assms by (simp_all add: ed_wf_def)

lemma wf_moves [ed_keeps]:
  assumes "ed_wf e"
  shows "ed_wf (snd (move_home e))" "ed_wf (snd (move_end e))" "ed_wf (snd (move_left e))" "ed_wf (snd (move_right e))"
    "ed_wf (snd (clear_screen e))"
  using assms prev_char_props(1) [of e "le_cursor e"] next_char_props [of "le_cursor e" e]
  by (auto simp: ed_wf_def move_home_def move_end_def move_left_def move_right_def clear_screen_def Let_def)

lemma wf_edits [ed_keeps]:
  assumes "ed_wf e"
  shows "ed_wf (snd (ed_insert e b))" "ed_wf (snd (ed_backspace e))" "ed_wf (snd (delete_forward e))"
    "ed_wf (snd (kill_to_start e))" "ed_wf (snd (kill_to_end e))" "ed_wf (snd (kill_word e))" "ed_wf (snd (ed_yank e))"
    "ed_wf (snd (ed_interrupt e))" "ed_wf (snd (ctrl_d e))"
proof -
  have c: "le_cursor e \<le> length (le_buf e)" using assms by (simp add: ed_wf_def)
  have w: "back_while (\<lambda>b. \<not> is_ascii_whitespace b) (le_buf e) (back_while is_ascii_whitespace (le_buf e) (le_cursor e)) \<le> le_cursor e"
    by (meson back_while_le order_trans)
  have p: "prev_char e (le_cursor e) \<le> le_cursor e" using prev_char_props(1) [of e "le_cursor e"] by simp
  show d: "ed_wf (snd (delete_forward e))" using assms c by (auto simp: ed_wf_def delete_forward_def Let_def)
  show "ed_wf (snd (ed_insert e b))" "ed_wf (snd (ed_backspace e))" "ed_wf (snd (kill_to_start e))"
    "ed_wf (snd (kill_to_end e))" "ed_wf (snd (kill_word e))" "ed_wf (snd (ed_yank e))" "ed_wf (snd (ed_interrupt e))"
    using assms c w p
    by (auto simp: ed_wf_def ed_insert_def ed_backspace_def kill_to_start_def kill_to_end_def kill_word_def
        ed_yank_def ed_interrupt_def Let_def)
  show "ed_wf (snd (ctrl_d e))" using d assms by (simp add: ctrl_d_def)
qed

lemma wf_history [ed_keeps]:
  assumes "ed_wf e"
  shows "ed_wf (snd (history_prev e))" "ed_wf (snd (history_next e))" "ed_wf (snd (ed_submit e))"
proof -
  show "ed_wf (snd (history_prev e))" "ed_wf (snd (history_next e))"
    using assms by (auto simp: ed_wf_def history_prev_def history_next_def Let_def split: option.splits nat.splits)
  define p where "p = push_history e (from_utf8_lossy (le_buf e))"
  have "length (le_history e) \<le> length (le_history p)" "length (le_history p) \<le> le_max_history e"
    "le_search p = le_search e" "le_max_line p = le_max_line e"
    "le_csi_params p = le_csi_params e" "le_max_history p = le_max_history e"
    using assms by (auto simp: p_def push_history_def ed_wf_def Let_def)
  then have "ed_wf (p\<lparr>le_buf := [], le_cursor := 0, le_hist_pos := None, le_stash := []\<rparr>)"
    using assms by (simp add: ed_wf_def) (meson order_less_le_trans)
  then show "ed_wf (snd (ed_submit e))" by (simp add: ed_submit_def p_def Let_def)
qed

lemma find_match_Some:
  assumes "find_match e n q = Some i"
  shows "i < n \<and> i < length (le_history e) \<and> contains_sub (le_history e ! i) q
    \<and> (\<forall>j. i < j \<and> j < n \<and> j < length (le_history e) \<longrightarrow> \<not> contains_sub (le_history e ! j) q)"
proof -
  define m where "m = min n (length (le_history e))"
  obtain k where k: "k < m" "contains_sub (le_history e ! (rev [0..<m] ! k)) q" "i = rev [0..<m] ! k"
      "\<forall>j<k. \<not> contains_sub (le_history e ! (rev [0..<m] ! j)) q"
    using assms by (auto simp: m_def find_match_def find_Some_iff split: if_splits)
  have rv: "rev [0..<m] ! j = m - 1 - j" if "j < m" for j using that by (simp add: rev_nth)
  have i: "i = m - 1 - k" using k(1,3) rv by simp
  have "\<not> contains_sub (le_history e ! j) q" if "i < j" "j < m" for j
  proof -
    have "m - 1 - j < k" "rev [0..<m] ! (m - 1 - j) = j" using that i k(1) rv [of "m - 1 - j"] by auto
    then show ?thesis using k(4) by metis
  qed
  then show ?thesis using i k unfolding m_def by auto
qed

lemma wf_search [ed_keeps]:
  assumes "ed_wf e"
  shows "ed_wf (snd (start_search e))" "ed_wf (search_step e)" "ed_wf (search_recompute e)" "ed_wf (accept_search e)"
    "ed_wf (e\<lparr>le_search := None\<rparr>)"
proof -
  show "ed_wf (search_step e)"
    using assms by (auto simp: ed_wf_def search_step_def Let_def split: option.splits dest: find_match_Some)
  show "ed_wf (search_recompute e)"
    using assms by (auto simp: ed_wf_def search_recompute_def split: option.splits dest!: find_match_Some)
  show "ed_wf (snd (start_search e))" "ed_wf (accept_search e)" "ed_wf (e\<lparr>le_search := None\<rparr>)"
    using assms by (auto simp: ed_wf_def start_search_def accept_search_def Let_def split: option.splits)
qed

lemma wf_key [ed_keeps]: "ed_wf e \<Longrightarrow> ed_wf (snd (input_key e b))"
  by (simp add: input_key_def ed_keeps) (simp add: ed_wf_def)

lemma wf_csi [ed_keeps]: "ed_wf e \<Longrightarrow> ed_wf (snd (input_csi e b))"
proof -
  assume wf: "ed_wf e"
  then have "ed_wf (e\<lparr>le_esc := EscNone, le_csi_params := []\<rparr>)" by (simp add: ed_wf_def)
  then show ?thesis using wf by (simp add: input_csi_def ed_keeps Let_def) (simp add: ed_wf_def)
qed

lemma wf_input_search [ed_keeps]: "ed_wf e \<Longrightarrow> ed_wf (snd (input_search e b))"
proof -
  assume wf: "ed_wf e"
  have "ed_wf (e\<lparr>le_search := map_option (\<lambda>s. s\<lparr>sr_query := butlast (sr_query s)\<rparr>) (le_search e)\<rparr>)"
    "ed_wf (e\<lparr>le_search := map_option (\<lambda>s. if length (sr_query s) < le_max_line e
        then s\<lparr>sr_query := sr_query s @ [b]\<rparr> else s) (le_search e)\<rparr>)"
    using wf by (auto simp: ed_wf_def)
  moreover obtain r e2 where r: "input_key (accept_search e) b = (r, e2)" by (cases "input_key (accept_search e) b")
  moreover have "ed_wf e2" using wf wf_key [of "accept_search e" b] r by (simp add: ed_keeps)
  ultimately show ?thesis using wf
    by (cases r) (simp_all add: input_search_def ed_keeps Let_def)
qed

lemma wf_input [ed_keeps]: "ed_wf e \<Longrightarrow> ed_wf (snd (ed_input e b))"
proof -
  assume wf: "ed_wf e"
  then have "ed_wf (snd (input_after_esc e b))" by (auto simp: input_after_esc_def ed_wf_def)
  then show ?thesis using wf by (auto simp: ed_input_def ed_keeps split: esc.split)
qed

lemma wf_apply_completion [ed_keeps]: "ed_wf e \<Longrightarrow> ed_wf (snd (apply_completion e r sp))"
  by (auto simp: apply_completion_def Let_def ed_wf_def)

section \<open>Memory\<close>

definition ed_ok :: "line_editor \<Rightarrow> bool" where "ed_ok e \<longleftrightarrow> ed_wf e \<and> ed_small e"

named_theorems ed_bounds \<open>operations keep the bounds on the editor's memory\<close>

lemma ed_okD:
  assumes "ed_ok e"
  shows "le_cursor e \<le> length (le_buf e)" "text_ok (le_max_line e) (le_buf e)"
    "length (le_buf e) > le_max_line e \<longrightarrow> boundary (le_buf e) (le_cursor e)"
  using assms by (auto simp: ed_ok_def ed_wf_def ed_small_def)

lemma small_replace:
  assumes "ed_small e" "text_ok (le_max_line e) b" "length b > le_max_line e \<longrightarrow> boundary b c"
  shows "ed_small (e\<lparr>le_buf := b, le_cursor := c\<rparr>)" "ed_small (e\<lparr>le_buf := b, le_cursor := c, le_hist_pos := h\<rparr>)"
    "length k \<le> 3 * le_max_line e \<Longrightarrow> ed_small (e\<lparr>le_kill := k, le_buf := b, le_cursor := c\<rparr>)"
  using assms by (simp_all add: ed_small_def)

lemma small_move: "ed_ok e \<Longrightarrow> boundary (le_buf e) c \<Longrightarrow> ed_small (e\<lparr>le_cursor := c\<rparr>)"
  by (simp add: ed_ok_def ed_small_def)

lemma small_moves [ed_bounds]:
  assumes "ed_ok e"
  shows "ed_small (snd (move_home e))" "ed_small (snd (move_end e))" "ed_small (snd (move_left e))"
    "ed_small (snd (move_right e))" "ed_small (snd (clear_screen e))"
proof -
  have "ed_small e" using assms by (simp add: ed_ok_def)
  then show "ed_small (snd (move_home e))" "ed_small (snd (move_end e))" "ed_small (snd (move_left e))"
    "ed_small (snd (move_right e))" "ed_small (snd (clear_screen e))"
    using small_move [OF assms] prev_char_props(2) [of e] next_char_props(3) [of "le_cursor e" e]
    by (simp_all add: move_home_def move_end_def move_left_def move_right_def clear_screen_def Let_def boundary_def)
qed

lemma small_cut:
  assumes "ed_ok e" "i \<le> j" "j \<le> length (le_buf e)"
    and "length (le_buf e) > le_max_line e \<Longrightarrow> boundary (le_buf e) i \<and> boundary (le_buf e) j"
  shows "ed_small (e\<lparr>le_buf := take i (le_buf e) @ drop j (le_buf e), le_cursor := i\<rparr>)"
    "length k \<le> length (le_buf e) \<Longrightarrow>
     ed_small (e\<lparr>le_kill := k, le_buf := take i (le_buf e) @ drop j (le_buf e), le_cursor := i\<rparr>)"
proof -
  note c = text_cut [OF ed_okD(2) [OF assms(1)], of i j]
  have s: "ed_small e" using assms(1) by (simp add: ed_ok_def)
  show "ed_small (e\<lparr>le_buf := take i (le_buf e) @ drop j (le_buf e), le_cursor := i\<rparr>)"
    using small_replace(1) [OF s] c assms by blast
  show "length k \<le> length (le_buf e) \<Longrightarrow>
     ed_small (e\<lparr>le_kill := k, le_buf := take i (le_buf e) @ drop j (le_buf e), le_cursor := i\<rparr>)"
    using small_replace(3) [OF s] c assms text_ok_length [OF ed_okD(2) [OF assms(1)]] by fastforce
qed

lemma small_edits [ed_bounds]:
  assumes ok: "ed_ok e"
  shows "ed_small (snd (ed_backspace e))" "ed_small (snd (delete_forward e))" "ed_small (snd (kill_to_start e))"
    "ed_small (snd (kill_to_end e))" "ed_small (snd (kill_word e))" "ed_small (snd (ctrl_d e))"
proof -
  let ?b = "le_buf e" and ?c = "le_cursor e"
  have s: "ed_small e" using ok by (simp add: ed_ok_def)
  note cur = ed_okD [OF ok]
  have "prev_char e ?c \<le> ?c" using prev_char_props(1) [of e ?c] by simp
  then show "ed_small (snd (ed_backspace e))"
    using small_cut(1) [OF ok, of "prev_char e ?c" ?c] cur s prev_char_props(2) [of e ?c]
    by (auto simp: ed_backspace_def Let_def)
  show d: "ed_small (snd (delete_forward e))"
  proof (cases "?c < length ?b")
    case True
    note n = next_char_props [OF True]
    have "ed_small (e\<lparr>le_buf := take ?c ?b @ drop (next_char e ?c) ?b, le_cursor := ?c\<rparr>)"
      using small_cut(1) [OF ok, of ?c "next_char e ?c"] n cur by simp
    then show ?thesis using True by (simp add: delete_forward_def Let_def)
  qed (simp add: delete_forward_def s)
  show "ed_small (snd (ctrl_d e))" using d s by (simp add: ctrl_d_def)
  show "ed_small (snd (kill_to_start e))"
    using small_cut(2) [OF ok, of 0 ?c "take ?c ?b"] cur s by (auto simp: kill_to_start_def Let_def boundary_def)
  show "ed_small (snd (kill_to_end e))"
  proof -
    have "ed_small (e\<lparr>le_kill := drop ?c ?b, le_buf := take ?c ?b @ drop (length ?b) ?b, le_cursor := ?c\<rparr>)"
      using small_cut(2) [OF ok, of ?c "length ?b" "drop ?c ?b"] cur by (simp add: boundary_def)
    then show ?thesis using s by (simp add: kill_to_end_def Let_def)
  qed
  let ?m = "back_while is_ascii_whitespace ?b ?c"
  let ?w = "back_while (\<lambda>b. \<not> is_ascii_whitespace b) ?b ?m"
  have m: "?m \<le> ?c" "?w \<le> ?m" by (rule back_while_le)+
  have "boundary ?b ?w" if "length ?b > le_max_line e"
    using that cur(1,2) m(1) by (intro back_while_boundary) (auto simp: text_ok_def)
  then show "ed_small (snd (kill_word e))"
    using small_cut(2) [OF ok, of ?w ?c "take (?c - ?w) (drop ?w ?b)"] cur s m by (auto simp: kill_word_def Let_def)
qed

lemma small_inserts [ed_bounds]:
  assumes ok: "ed_ok e"
  shows "ed_small (snd (ed_insert e b))" "ed_small (snd (ed_yank e))" "ed_small (snd (ed_interrupt e))"
proof -
  have s: "ed_small e" using ok by (simp add: ed_ok_def)
  show "ed_small (snd (ed_insert e b))" "ed_small (snd (ed_yank e))" "ed_small (snd (ed_interrupt e))"
    using s ed_okD(1) [OF ok]
    by (auto simp: ed_small_def ed_insert_def ed_yank_def ed_interrupt_def text_ok_def Let_def)
qed

lemma history_bound:
  assumes "ed_ok e" "i < length (le_history e)"
  shows "text_ok (le_max_line e) (le_history e ! i)"
  using assms by (auto simp: ed_ok_def ed_small_def text_ok_def)

lemma small_history [ed_bounds]:
  assumes ok: "ed_ok e"
  shows "ed_small (snd (history_prev e))" "ed_small (snd (history_next e))"
proof -
  have s: "ed_small e" and p: "\<And>i. le_hist_pos e = Some i \<Longrightarrow> i < length (le_history e)"
    using ok by (auto simp: ed_ok_def ed_wf_def)
  note h = history_bound [OF ok]
  show "ed_small (snd (history_prev e))"
    using s p h by (auto simp: history_prev_def ed_small_def Let_def boundary_def split: option.splits nat.splits)
  show "ed_small (snd (history_next e))"
    using s h by (auto simp: history_next_def ed_small_def Let_def boundary_def text_ok_def split: option.splits)
qed

lemma submit_line_bound:
  assumes "text_ok n b"
  shows "length (from_utf8_lossy b) \<le> 3 * n"
  using assms from_utf8_lossy_length [of b] from_utf8_lossy_valid [of b] by (auto simp: text_ok_def)

lemma push_history_bound:
  assumes "\<forall>h\<in>set (le_history e). utf8_valid h \<and> length h \<le> n" "utf8_valid l" "length l \<le> n"
  shows "\<forall>h\<in>set (le_history (push_history e l)). utf8_valid h \<and> length h \<le> n"
  using assms trim_valid [of l] trim_length [of l]
  by (auto simp: push_history_def Let_def dest!: in_set_dropD)

lemma small_submit [ed_bounds]: "ed_ok e \<Longrightarrow> ed_small (snd (ed_submit e))"
proof -
  assume ok: "ed_ok e"
  define p where "p = push_history e (from_utf8_lossy (le_buf e))"
  have "\<forall>h\<in>set (le_history p). utf8_valid h \<and> length h \<le> 3 * le_max_line e"
    unfolding p_def using ok utf8_valid_from_utf8_lossy submit_line_bound [OF ed_okD(2) [OF ok]]
    by (intro push_history_bound) (auto simp: ed_ok_def ed_small_def)
  moreover have "le_kill p = le_kill e" "le_max_line p = le_max_line e" by (simp_all add: p_def push_history_def Let_def)
  ultimately have "ed_small (p\<lparr>le_buf := [], le_cursor := 0, le_hist_pos := None, le_stash := []\<rparr>)"
    using ok by (simp add: ed_small_def ed_ok_def text_ok_def)
  then show ?thesis by (simp add: ed_submit_def p_def Let_def)
qed

lemma small_other_fields:
  assumes "ed_small e"
  shows "ed_small (e\<lparr>le_search := x\<rparr>)" "ed_small (e\<lparr>le_esc := y\<rparr>)" "ed_small (e\<lparr>le_csi_params := z\<rparr>)"
    "ed_small (e\<lparr>le_esc := y, le_csi_params := z\<rparr>)" "ed_small (e\<lparr>le_prompt := q\<rparr>)"
  using assms by (simp_all add: ed_small_def)

lemma small_search [ed_bounds]:
  assumes ok: "ed_ok e"
  shows "ed_small (snd (start_search e))" "ed_small (search_step e)" "ed_small (search_recompute e)"
    "ed_small (accept_search e)"
proof -
  have s: "ed_small e" using ok by (simp add: ed_ok_def)
  then show "ed_small (snd (start_search e))" "ed_small (search_step e)" "ed_small (search_recompute e)"
    by (auto simp: start_search_def search_step_def search_recompute_def Let_def intro: small_other_fields
        split: option.splits)
  show "ed_small (accept_search e)"
    using s by (auto simp: accept_search_def ed_small_def text_ok_def Let_def boundary_def split: option.splits)
qed

lemma ok_wf: "ed_ok e \<Longrightarrow> ed_wf e" and ok_small: "ed_ok e \<Longrightarrow> ed_small e"
  by (simp_all add: ed_ok_def)

lemma small_key [ed_bounds]: "ed_ok e \<Longrightarrow> ed_small (snd (input_key e b))"
  by (simp add: input_key_def ed_bounds ok_small small_other_fields)

lemma ok_key: "ed_ok e \<Longrightarrow> ed_ok (snd (input_key e b))"
  using small_key wf_key by (simp add: ed_ok_def)

lemma ok_accept: "ed_ok e \<Longrightarrow> ed_ok (accept_search e)"
  using small_search(4) [of e] wf_search(4) [of e] by (simp add: ed_ok_def)

lemma small_input_search [ed_bounds]: "ed_ok e \<Longrightarrow> ed_small (snd (input_search e b))"
proof -
  assume ok: "ed_ok e"
  have recompute: "ed_small (search_recompute (e\<lparr>le_search := x\<rparr>))" for x
    using ok_small [OF ok] by (auto simp: search_recompute_def intro: small_other_fields split: option.splits)
  obtain r e2 where r: "input_key (accept_search e) b = (r, e2)" by (cases "input_key (accept_search e) b")
  then have "ed_small e2" using ok_key [OF ok_accept [OF ok], of b] by (simp add: ed_ok_def)
  with r show ?thesis using ok small_submit [OF ok_accept [OF ok]]
    by (cases r) (simp_all add: input_search_def ed_bounds recompute Let_def small_other_fields ok_small)
qed

lemma ok_input: "ed_ok e \<Longrightarrow> ed_ok (snd (ed_input e b))"
proof -
  assume ok: "ed_ok e"
  have s: "ed_small e" and w: "ed_wf e" using ok by (simp_all add: ed_ok_def)
  have "ed_ok (e\<lparr>le_esc := EscNone, le_csi_params := []\<rparr>)"
    using s w by (simp add: ed_ok_def small_other_fields) (simp add: ed_wf_def)
  then have "ed_small (snd (input_csi e b))"
    using s by (simp add: input_csi_def ed_bounds Let_def small_other_fields ok_small)
  moreover have "ed_small (snd (input_after_esc e b))"
    using s by (simp add: input_after_esc_def small_other_fields)
  ultimately have "ed_small (snd (ed_input e b))"
    using ok by (auto simp: ed_input_def ed_bounds split: esc.split)
  then show ?thesis using wf_input [OF w] by (simp add: ed_ok_def)
qed

text \<open>Lives of an editor: the states reached by typing and by changes of the prompt, and the
  states when completions, whatever their text, are applied as well.\<close>

inductive typed :: "nat \<Rightarrow> nat \<Rightarrow> line_editor \<Rightarrow> bool" for m h where
  typed_new: "typed m h (ed_new m h)"
| typed_input: "typed m h e \<Longrightarrow> typed m h (snd (ed_input e b))"
| typed_prompt: "typed m h e \<Longrightarrow> typed m h (set_prompt e p)"

inductive edited :: "nat \<Rightarrow> nat \<Rightarrow> line_editor \<Rightarrow> bool" for m h where
  edited_new: "edited m h (ed_new m h)"
| edited_input: "edited m h e \<Longrightarrow> edited m h (snd (ed_input e b))"
| edited_prompt: "edited m h e \<Longrightarrow> edited m h (set_prompt e p)"
| edited_completion: "edited m h e \<Longrightarrow> edited m h (snd (apply_completion e r sp))"

text \<open>No operation changes the caps.\<close>

definition caps :: "line_editor \<Rightarrow> nat \<times> nat" where "caps e = (le_max_line e, le_max_history e)"

named_theorems caps_simps \<open>the caps stay as they were\<close>

lemma caps_moves [caps_simps]:
  "caps (snd (move_home e)) = caps e" "caps (snd (move_end e)) = caps e" "caps (snd (move_left e)) = caps e"
  "caps (snd (move_right e)) = caps e" "caps (snd (clear_screen e)) = caps e" "caps (snd (ed_insert e b)) = caps e"
  "caps (snd (ed_backspace e)) = caps e" "caps (snd (delete_forward e)) = caps e"
  by (simp_all add: caps_def move_home_def move_end_def move_left_def move_right_def clear_screen_def ed_insert_def
      ed_backspace_def delete_forward_def Let_def)

lemma caps_kills [caps_simps]:
  "caps (snd (kill_to_start e)) = caps e" "caps (snd (kill_to_end e)) = caps e" "caps (snd (kill_word e)) = caps e"
  "caps (snd (ed_yank e)) = caps e" "caps (snd (ed_interrupt e)) = caps e" "caps (snd (ctrl_d e)) = caps e"
  by (simp_all add: caps_def kill_to_start_def kill_to_end_def kill_word_def ed_yank_def ed_interrupt_def ctrl_d_def
      delete_forward_def Let_def)

lemma caps_history [caps_simps]:
  "caps (snd (history_prev e)) = caps e" "caps (snd (history_next e)) = caps e" "caps (snd (ed_submit e)) = caps e"
  by (simp_all add: caps_def history_prev_def history_next_def ed_submit_def push_history_def Let_def
      split: option.split nat.split)

lemma caps_search [caps_simps]:
  "caps (snd (start_search e)) = caps e" "caps (search_step e) = caps e" "caps (search_recompute e) = caps e"
  "caps (accept_search e) = caps e" "caps (snd (apply_completion e r sp)) = caps e" "caps (set_prompt e p) = caps e"
  "caps (e\<lparr>le_search := x\<rparr>) = caps e" "caps (e\<lparr>le_esc := y\<rparr>) = caps e" "caps (e\<lparr>le_csi_params := z\<rparr>) = caps e"
  "caps (e\<lparr>le_esc := y, le_csi_params := z\<rparr>) = caps e"
  by (simp_all add: caps_def start_search_def search_step_def search_recompute_def accept_search_def
      apply_completion_def set_prompt_def Let_def split: option.split)

lemma caps_key [caps_simps]: "caps (snd (input_key e b)) = caps e"
  by (simp add: input_key_def caps_simps)

lemma caps_input [caps_simps]: "caps (snd (ed_input e b)) = caps e"
proof -
  obtain r e2 where r: "input_key (accept_search e) b = (r, e2)" by (cases "input_key (accept_search e) b")
  then have "caps e2 = caps e" using caps_key [of "accept_search e" b] by (simp add: caps_simps)
  with r have "caps (snd (input_search e b)) = caps e"
    by (cases r) (simp_all add: input_search_def caps_simps Let_def)
  moreover have "caps (snd (input_csi e b)) = caps e" "caps (snd (input_after_esc e b)) = caps e"
    by (simp_all add: input_csi_def input_after_esc_def caps_simps Let_def)
  ultimately show ?thesis by (simp add: ed_input_def caps_simps split: esc.split)
qed

lemma typed_ok: "typed m h e \<Longrightarrow> ed_ok e \<and> caps e = (m, h)"
proof (induction rule: typed.induct)
  case typed_new
  then show ?case by (simp add: ed_ok_def ed_wf_def ed_small_def ed_new_def text_ok_def caps_def)
next
  case (typed_input e b)
  then show ?case using ok_input by (simp add: caps_simps)
next
  case (typed_prompt e p)
  then show ?case by (simp add: caps_simps) (simp add: ed_ok_def ed_wf_def ed_small_def set_prompt_def)
qed

lemma edited_wf: "edited m h e \<Longrightarrow> ed_wf e \<and> caps e = (m, h)"
proof (induction rule: edited.induct)
  case edited_new
  then show ?case by (simp add: ed_wf_def ed_new_def caps_def)
next
  case (edited_prompt e p)
  then show ?case by (simp add: caps_simps) (simp add: ed_wf_def set_prompt_def)
qed (simp_all add: caps_simps ed_keeps)

section \<open>Properties\<close>

text \<open>Every position the editor uses stays in range. Whatever bytes are typed and completions
  applied, the cursor lies within the buffer, the history index and the search match name existing
  history entries, an escape sequence collects at most eight parameter bytes, the search query
  stays within the line cap, and the history within its own.\<close>

theorem editor_in_range:
  assumes "edited m h e"
  shows "le_cursor e \<le> length (le_buf e) \<and> (\<forall>i. le_hist_pos e = Some i \<longrightarrow> i < length (le_history e))
    \<and> (\<forall>s i. le_search e = Some s \<and> sr_matched s = Some i \<longrightarrow> i < length (le_history e))
    \<and> (\<forall>s. le_search e = Some s \<longrightarrow> length (sr_query s) \<le> m)
    \<and> length (le_csi_params e) \<le> 8 \<and> length (le_history e) \<le> h"
  using edited_wf [OF assms] by (auto simp: ed_wf_def caps_def)

theorem editor_in_range_witness:
  "edited 10 2 (snd (ed_input (ed_new 10 2) CHR ''a'')) \<and>
   le_cursor (snd (ed_input (ed_new 10 2) CHR ''a'')) \<le> length (le_buf (snd (ed_input (ed_new 10 2) CHR ''a'')))"
proof -
  have "edited 10 2 (snd (ed_input (ed_new 10 2) CHR ''a''))" by (intro edited.intros)
  with editor_in_range [OF this] show ?thesis by blast
qed

lemma no_submit:
  "fst (move_home e) \<noteq> Submit x y" "fst (move_end e) \<noteq> Submit x y" "fst (move_left e) \<noteq> Submit x y"
  "fst (move_right e) \<noteq> Submit x y" "fst (clear_screen e) \<noteq> Submit x y" "fst (ed_insert e b) \<noteq> Submit x y"
  "fst (ed_backspace e) \<noteq> Submit x y" "fst (delete_forward e) \<noteq> Submit x y" "fst (kill_to_start e) \<noteq> Submit x y"
  "fst (kill_to_end e) \<noteq> Submit x y" "fst (kill_word e) \<noteq> Submit x y" "fst (ed_yank e) \<noteq> Submit x y"
  "fst (ed_interrupt e) \<noteq> Submit x y" "fst (ctrl_d e) \<noteq> Submit x y" "fst (history_prev e) \<noteq> Submit x y"
  "fst (history_next e) \<noteq> Submit x y" "fst (start_search e) \<noteq> Submit x y"
  by (simp_all add: move_home_def move_end_def move_left_def move_right_def clear_screen_def ed_insert_def
      ed_backspace_def delete_forward_def kill_to_start_def kill_to_end_def kill_word_def ed_yank_def ed_interrupt_def
      ctrl_d_def history_prev_def history_next_def start_search_def Let_def split: option.split nat.split)

lemma key_submit:
  "fst (input_key e b) = Submit x y \<Longrightarrow> b = CHR 0x0D \<or> b = CHR 0x0A"
proof -
  have "b \<noteq> CHR 0x0D \<Longrightarrow> b \<noteq> CHR 0x0A \<Longrightarrow> fst (input_key e b) \<noteq> Submit x y"
    by (simp add: input_key_def no_submit)
  then show "fst (input_key e b) = Submit x y \<Longrightarrow> b = CHR 0x0D \<or> b = CHR 0x0A" by blast
qed

lemma input_submit:
  assumes "ed_input e b = (Submit x y, e')"
  shows "\<exists>e0. (e0 = e \<or> e0 = accept_search e) \<and> y = from_utf8_lossy (le_buf e0)"
proof -
  have f: "fst (ed_input e b) = Submit x y" using assms by simp
  have csi: "fst (input_csi e b) \<noteq> Submit x y" "fst (input_after_esc e b) \<noteq> Submit x y"
    by (simp_all add: input_csi_def input_after_esc_def no_submit Let_def)
  have key: "fst (input_key e b) = Submit x y \<Longrightarrow> y = from_utf8_lossy (le_buf e)"
  proof -
    assume k: "fst (input_key e b) = Submit x y"
    then have "input_key e b = ed_submit e" using key_submit [of e b x y] by (simp only: input_key_def if_True)
    then show ?thesis using k by (simp add: ed_submit_def Let_def)
  qed
  have "fst (input_search e b) = Submit x y \<Longrightarrow> y = from_utf8_lossy (le_buf (accept_search e))"
  proof (cases "b = CHR 0x0D \<or> b = CHR 0x0A")
    case True
    then show "fst (input_search e b) = Submit x y \<Longrightarrow> y = from_utf8_lossy (le_buf (accept_search e))"
      by (auto simp: input_search_def ed_submit_def Let_def)
  next
    case False
    obtain r e2 where "input_key (accept_search e) b = (r, e2)" by (cases "input_key (accept_search e) b")
    then show "fst (input_search e b) = Submit x y \<Longrightarrow> y = from_utf8_lossy (le_buf (accept_search e))"
      using key_submit [of "accept_search e" b] False
      by (cases r) (auto simp: input_search_def Let_def split: if_splits)
  qed
  with key csi f show ?thesis by (auto simp: ed_input_def split: esc.splits if_splits)
qed

text \<open>Typing cannot grow the editor's memory without bound. Through any sequence of input bytes the
  buffer, the stashed line, the killed text and every history entry stay within three times the
  line cap (a byte that is not UTF-8 becomes the three bytes of U+FFFD when a line is submitted),
  and so does the line handed to the shell.\<close>

theorem typing_bounded:
  assumes "typed m h e"
  shows "length (le_buf e) \<le> 3 * m \<and> length (le_stash e) \<le> 3 * m \<and> length (le_kill e) \<le> 3 * m
    \<and> length (le_history e) \<le> h \<and> (\<forall>l\<in>set (le_history e). length l \<le> 3 * m)
    \<and> (\<forall>b echo line e'. ed_input e b = (Submit echo line, e') \<longrightarrow> length line \<le> 3 * m)"
proof -
  have ok: "ed_ok e" "le_max_line e = m" "le_max_history e = h" using typed_ok [OF assms] by (auto simp: caps_def)
  have "length line \<le> 3 * m" if "ed_input e b = (Submit echo line, e')" for b echo line e'
  proof -
    obtain e0 where "e0 = e \<or> e0 = accept_search e" "line = from_utf8_lossy (le_buf e0)"
      using input_submit [OF \<open>ed_input e b = _\<close>] by blast
    moreover have "text_ok m (le_buf e)" "text_ok m (le_buf (accept_search e))"
      using ed_okD(2) [OF ok(1)] ed_okD(2) [OF ok_accept [OF ok(1)]] ok(2) caps_search(4) [of e]
      by (simp_all add: caps_def)
    ultimately show ?thesis using submit_line_bound by blast
  qed
  then show ?thesis using ok by (auto simp: ed_ok_def ed_small_def ed_wf_def dest: text_ok_length)
qed

theorem typing_bounded_witness:
  "typed 2 5 (snd (ed_input (ed_new 2 5) CHR ''a'')) \<and> length (le_buf (snd (ed_input (ed_new 2 5) CHR ''a''))) \<le> 6"
proof -
  have "typed 2 5 (snd (ed_input (ed_new 2 5) CHR ''a''))" by (intro typed.intros)
  with typing_bounded [OF this] show ?thesis by simp
qed

text \<open>The line cap itself is not kept. With room for two bytes, typing two bytes that are not UTF-8,
  Enter and the Up key leaves six bytes in the buffer: a history entry is recalled without the
  truncation that accepting a search match applies.\<close>

theorem recall_exceeds_cap:
  "\<exists>e. typed 2 5 e \<and> le_max_line e = 2 \<and> length (le_buf e) = 6"
proof -
  let ?keys = "[CHR 0xFF, CHR 0xFF, CHR 0x0D, CHR 0x1B, CHR ''['', CHR ''A'']"
  let ?e = "fold (\<lambda>b e. snd (ed_input e b)) ?keys (ed_new 2 5)"
  have "typed 2 5 ?e" by (simp add: typed.intros)
  moreover have "le_buf ?e = replacement @ replacement \<and> le_max_line ?e = 2"
    by (simp add: ed_input_def ed_new_def input_key_def is_text_def ed_insert_def ed_submit_def push_history_def
        input_after_esc_def input_csi_def history_prev_def from_utf8_lossy.simps utf8_step_def byte_at_def
        trim_def trim_chars_def replacement_def is_continuation_iff is_whitespace_def is_ascii_digit_def Let_def)
  ultimately show ?thesis by (intro exI [of _ ?e]) (simp add: replacement_def)
qed

end
