(* ===== verification/Scp_Props.thy ===== *)
theory Scp_Props
  imports Scp
begin

text \<open>
  The SCP sink: what a sanitised name can contain, the bounds its state keeps on every input, that
  the split of the stream into packets does not matter, and that a file sent in the protocol
  arrives as sent.
\<close>

section \<open>Sanitised names\<close>

fun has_dotdot :: "str \<Rightarrow> bool" where
  "has_dotdot (a # b # s) \<longleftrightarrow> a = CHR ''.'' \<and> b = CHR ''.'' \<or> has_dotdot (b # s)"
| "has_dotdot _ \<longleftrightarrow> False"

definition safe_name :: "str \<Rightarrow> bool" where
  "safe_name s \<longleftrightarrow> s \<noteq> [] \<and> CHR ''/'' \<notin> set s \<and> CHR 0x5C \<notin> set s \<and> \<not> has_dotdot s
     \<and> (\<forall>b\<in>set s. 32 \<le> u8 b \<and> u8 b \<noteq> 127)"

lemma replace_dotdot_set: "set (replace_dotdot s) \<subseteq> insert (CHR ''_'') (set s)"
  by (induction s rule: replace_dotdot.induct) auto

lemma replace_dotdot_hd: "s \<noteq> [] \<Longrightarrow> replace_dotdot s \<noteq> [] \<and> (hd (replace_dotdot s) = CHR ''.'' \<longrightarrow> hd s = CHR ''.'')"
  by (induction s rule: replace_dotdot.induct) auto

lemma replace_dotdot_clean: "\<not> has_dotdot (replace_dotdot s)"
proof (induction s rule: replace_dotdot.induct)
  case (1 a b s)
  show ?case
  proof (cases "a = CHR ''.'' \<and> b = CHR ''.''")
    case True
    then show ?thesis using 1 by (cases "replace_dotdot s") auto
  next
    case False
    then show ?thesis using 1 replace_dotdot_hd [of "b # s"] by (cases "replace_dotdot (b # s)") auto
  qed
qed simp_all

lemma plain_bytes_of_chars:
  assumes "utf8_valid s" "b \<in> set (concat (filter (\<lambda>c. \<not> is_control c) (chars s)))"
  shows "32 \<le> u8 b \<and> u8 b \<noteq> 127"
proof -
  obtain c where c: "c \<in> set (chars s)" "\<not> is_control c" "b \<in> set c" using assms(2) by auto
  then have ok: "rchar_ok c" using utf8_valid_chars [OF assms(1)] by (simp add: list_all_iff)
  show ?thesis
  proof (cases "u8 (hd c) < 128")
    case True
    with ok have "c = [hd c]" by (cases c) (auto simp: rchar_ok_def)
    with c have "c = [b]" by (metis empty_iff list.set(1) set_ConsD)
    then show ?thesis using c(2) by (simp add: is_control_def)
  next
    case False
    have "u8 x \<ge> 128" if "x \<in> set c" for x
      using that ok False by (cases c) (auto simp: rchar_ok_def list_all_iff is_continuation_iff)
    then show ?thesis using c(3) by fastforce
  qed
qed

lemma sanitise_name_safe: "utf8_valid raw \<Longrightarrow> safe_name (sanitise_name raw)"
proof -
  assume v: "utf8_valid raw"
  define t where "t = concat (filter (\<lambda>c. \<not> is_control c) (chars raw))"
  define m where "m = map (\<lambda>b. if b = CHR ''/'' \<or> b = CHR 0x5C then CHR ''_'' else b) t"
  have plain: "32 \<le> u8 b \<and> u8 b \<noteq> 127" if "b \<in> set t" for b
    using plain_bytes_of_chars [OF v] that unfolding t_def by blast
  have m: "b \<noteq> CHR ''/'' \<and> b \<noteq> CHR 0x5C \<and> 32 \<le> u8 b \<and> u8 b \<noteq> 127" if "b \<in> set m" for b
    using that plain by (auto simp: m_def)
  have r: "b \<noteq> CHR ''/'' \<and> b \<noteq> CHR 0x5C \<and> 32 \<le> u8 b \<and> u8 b \<noteq> 127" if "b \<in> set (replace_dotdot m)" for b
    using replace_dotdot_set [of m] m that by fastforce
  show ?thesis
  proof (cases "replace_dotdot m = []")
    case True
    then show ?thesis by (simp add: sanitise_name_def Let_def m_def t_def safe_name_def)
  next
    case False
    then have "sanitise_name raw = replace_dotdot m" by (simp add: sanitise_name_def Let_def m_def t_def)
    then show ?thesis using False r replace_dotdot_clean [of m] by (auto simp: safe_name_def)
  qed
qed

lemma sanitise_name_id:
  assumes "utf8_valid s" "safe_name s" "\<forall>c\<in>set (chars s). \<not> is_control c"
  shows "sanitise_name s = s"
proof -
  have "replace_dotdot t = t" if "\<not> has_dotdot t" for t
    using that by (induction t rule: replace_dotdot.induct) auto
  moreover have "filter (\<lambda>c. \<not> is_control c) (chars s) = chars s" using assms(3) by (simp add: filter_id_conv)
  moreover have "map (\<lambda>b. if b = CHR ''/'' \<or> b = CHR 0x5C then CHR ''_'' else b) s = s"
    using assms(2) by (intro map_idI) (auto simp: safe_name_def)
  ultimately show ?thesis using assms(2) by (simp add: sanitise_name_def Let_def safe_name_def)
qed

section \<open>Fields of a control line\<close>

lemma set_splitn: "w \<in> set (splitn n d s) \<Longrightarrow> set w \<subseteq> set s"
proof (induction n d s arbitrary: w rule: splitn.induct)
  case (2 n d s)
  have "set (tl (dropWhile (\<lambda>b. b \<noteq> d) s)) \<subseteq> set s"
    by (metis dual_order.trans list.set_sel(2) set_dropWhileD subsetI tl_Nil)
  then show ?case using 2 by (auto split: if_splits dest: set_takeWhileD)
qed simp

lemma splitn_three:
  assumes "d \<notin> set a" "d \<notin> set b"
  shows "splitn 3 d (a @ d # b @ d # c) = [a, b, c]"
proof -
  have "takeWhile (\<lambda>x. x \<noteq> d) (w @ d # r) = w \<and> dropWhile (\<lambda>x. x \<noteq> d) (w @ d # r) = d # r"
    if "d \<notin> set w" for w r using that by (induction w) auto
  then show ?thesis using assms by (simp add: numeral_3_eq_3)
qed

lemma splitn_three_D:
  assumes "splitn 3 d s = [a, b, c]"
  shows "s = a @ d # b @ d # c"
proof -
  have cut: "t = takeWhile (\<lambda>x. x \<noteq> d) t @ d # tl (dropWhile (\<lambda>x. x \<noteq> d) t)" if "d \<in> set t" for t
    using that by (metis (mono_tags, lifting) dropWhile_eq_Nil_conv hd_dropWhile list.collapse takeWhile_dropWhile_id)
  from assms show ?thesis using cut [of s] cut [of "tl (dropWhile (\<lambda>x. x \<noteq> d) s)"]
    by (auto simp: numeral_3_eq_3 split: if_splits)
qed

lemma parse_cd_safe:
  assumes "utf8_valid line" "parse_cd line = Some (mode, sz, name)"
  shows "safe_name name" "mode < 2 ^ 32" "sz < 2 ^ 64"
proof -
  obtain a b c where f: "splitn 3 (CHR '' '') line = [a, b, c]"
      and name: "name = sanitise_name (trim c)"
      and num: "parse_unsigned 32 8 (drop 1 a) = Some mode" "parse_unsigned 64 10 b = Some sz"
    using assms(2) by (auto simp: parse_cd_def split: list.splits if_splits option.splits)
  have "line = a @ CHR '' '' # b @ CHR '' '' # c" using splitn_three_D [OF f] .
  then have "utf8_valid c"
    using assms(1) utf8_valid_around_ascii(2) [of a "CHR '' ''" "b @ CHR '' '' # c"]
      utf8_valid_around_ascii(2) [of b "CHR '' ''" c] by simp
  then show "safe_name name" using name sanitise_name_safe trim_valid by simp
  show "mode < 2 ^ 32" "sz < 2 ^ 64" using num by (auto simp: parse_unsigned_def Let_def split: option.splits if_splits)
qed

section \<open>The state on every input\<close>

definition file_ok :: "nat \<Rightarrow> 'h incoming \<Rightarrow> bool" where
  "file_ok cap f \<longleftrightarrow> safe_name (in_name f) \<and> length (in_data f) \<le> cap
     \<and> in_remaining f \<le> in_size f \<and> in_size f < 2 ^ 64
     \<and> length (in_data f) = min cap (in_size f - in_remaining f)
     \<and> (in_truncated f \<longleftrightarrow> cap < in_size f - in_remaining f)"

definition sink_ok :: "nat \<Rightarrow> 'h scp_sink \<Rightarrow> bool" where
  "sink_ok cap sk \<longleftrightarrow> sk_max_bytes sk = cap \<and> length (sk_buf sk) \<le> MAX_CONTROL_LINE
     \<and> length (sk_dirs sk) \<le> MAX_SCP_DEPTH \<and> list_all safe_name (sk_dirs sk)
     \<and> (case sk_file sk of None \<Rightarrow> True | Some f \<Rightarrow> file_ok cap f)"

definition upload_ok :: "nat \<Rightarrow> completed_file \<Rightarrow> bool" where
  "upload_ok cap c \<longleftrightarrow> safe_name (cf_name c) \<and> length (cf_data c) = min cap (cf_size c)
     \<and> (cf_truncated c \<longleftrightarrow> cap < cf_size c)
     \<and> (\<exists>ds. list_all safe_name ds \<and> length ds \<le> MAX_SCP_DEPTH \<and> cf_rel_dir c = join ''/'' ds)"

lemma sink_ok_new: "sink_ok cap (scp_new target r cap)"
  by (simp add: sink_ok_def scp_new_def)

lemma handle_control_keeps [frame_simps]:
  "sk_max_bytes (handle_control H sk line) = sk_max_bytes sk" "sk_buf (handle_control H sk line) = sk_buf sk"
  by (auto simp: handle_control_def Let_def split: list.splits option.splits prod.splits)

lemma sink_ok_control:
  assumes "sink_ok cap sk" "sk_file sk = None"
  shows "sink_ok cap (handle_control H sk line)"
proof -
  note valid = utf8_valid_from_utf8_lossy [of line]
  have dirs: "list_all safe_name (butlast (sk_dirs sk))" "length (butlast (sk_dirs sk)) \<le> MAX_SCP_DEPTH"
    using assms(1) by (auto simp: sink_ok_def list_all_iff dest: in_set_butlastD)
  show ?thesis
    using assms dirs parse_cd_safe [OF valid]
    by (auto simp: handle_control_def Let_def sink_ok_def file_ok_def split: list.splits option.splits prod.splits)
qed

lemma feed_byte_ok:
  assumes "sink_ok cap sk" "feed_byte H sk b = (sk', acks, fs)"
  shows "sink_ok cap sk'" "list_all (upload_ok cap) fs"
proof -
  have "sink_ok cap sk' \<and> list_all (upload_ok cap) fs"
  proof (cases "sk_file sk")
    case None
    have "sink_ok cap (handle_control H (sk\<lparr>sk_buf := []\<rparr>) (sk_buf sk))"
      using assms(1) None by (intro sink_ok_control) (simp_all add: sink_ok_def)
    then show ?thesis using assms None
      by (auto simp: feed_byte_def split: if_splits) (auto simp: sink_ok_def)
  next
    case (Some f)
    have f: "file_ok cap f" using assms(1) Some by (simp add: sink_ok_def)
    show ?thesis
    proof (cases "in_remaining f > 0")
      case True
      then have "file_ok cap (f\<lparr>in_hasher := h, in_data := (if length (in_data f) < cap then in_data f @ [b] else in_data f),
          in_truncated := (if length (in_data f) < cap then in_truncated f else True),
          in_remaining := in_remaining f - 1\<rparr>)" for h
        using f by (auto simp: file_ok_def)
      then show ?thesis using assms Some True by (auto simp: feed_byte_def sink_ok_def)
    next
      case False
      then show ?thesis using assms Some f
        by (auto simp: feed_byte_def sink_ok_def upload_ok_def file_ok_def)
    qed
  qed
  then show "sink_ok cap sk'" "list_all (upload_ok cap) fs" by simp_all
qed

lemma feed_ok:
  "sink_ok cap sk \<Longrightarrow> feed H sk bs = (sk', acks, fs) \<Longrightarrow> sink_ok cap sk' \<and> list_all (upload_ok cap) fs"
proof (induction bs arbitrary: sk sk' acks fs)
  case (Cons b bs)
  obtain sk1 a1 d1 where 1: "feed_byte H sk b = (sk1, a1, d1)" by (cases "feed_byte H sk b") auto
  obtain sk2 a2 d2 where 2: "feed H sk1 bs = (sk2, a2, d2)" by (cases "feed H sk1 bs") auto
  show ?case using Cons.IH [OF feed_byte_ok(1) [OF Cons.prems(1) 1] 2] feed_byte_ok(2) [OF Cons.prems(1) 1] 1 2 Cons.prems
    by auto
qed auto

section \<open>A file in the protocol\<close>

lemma feed_append:
  "feed H sk (xs @ ys) =
     (let (sk1, a1, d1) = feed H sk xs; (sk2, a2, d2) = feed H sk1 ys in (sk2, a1 @ a2, d1 @ d2))"
  by (induction xs arbitrary: sk) (auto simp: Let_def split: prod.splits)

lemma feed_line:
  assumes "sk_file sk = None" "CHR 0x0A \<notin> set line" "CHR 0x0D \<notin> set line"
    "length (sk_buf sk) + length line \<le> MAX_CONTROL_LINE"
  shows "feed H sk line = (sk\<lparr>sk_buf := sk_buf sk @ line\<rparr>, [], [])"
  using assms by (induction line arbitrary: sk) (auto simp: feed_byte_def)

lemma feed_body:
  assumes "sk_file sk = Some f" "in_remaining f = length body" "length (in_data f) \<le> sk_max_bytes sk"
    "in_truncated f \<longrightarrow> length (in_data f) = sk_max_bytes sk"
  shows "feed H sk body = (sk\<lparr>sk_file := Some (f\<lparr>
      in_hasher := foldl (\<lambda>h b. h_update H h [b]) (in_hasher f) body,
      in_data := take (sk_max_bytes sk) (in_data f @ body),
      in_truncated := (in_truncated f \<or> sk_max_bytes sk < length (in_data f) + length body),
      in_remaining := 0\<rparr>)\<rparr>, [], [])"
  using assms
proof (induction body arbitrary: sk f)
  case (Cons b body)
  let ?d = "if length (in_data f) < sk_max_bytes sk then in_data f @ [b] else in_data f"
  let ?f = "f\<lparr>in_hasher := h_update H (in_hasher f) [b], in_data := ?d,
      in_truncated := (if length (in_data f) < sk_max_bytes sk then in_truncated f else True),
      in_remaining := in_remaining f - 1\<rparr>"
  have "feed_byte H sk b = (sk\<lparr>sk_file := Some ?f\<rparr>, [], [])"
    using Cons.prems by (simp add: feed_byte_def)
  moreover note Cons.IH [of "sk\<lparr>sk_file := Some ?f\<rparr>" ?f]
  moreover have "take (sk_max_bytes sk) (?d @ body) = take (sk_max_bytes sk) (in_data f @ b # body)"
    using Cons.prems(3) by (auto simp: take_Cons')
  ultimately show ?case using Cons.prems by (cases "length (in_data f) < sk_max_bytes sk") simp_all
qed simp

lemma parse_unsigned_show_nat: "n < 2 ^ bits \<Longrightarrow> parse_unsigned bits 10 (show_nat n) = Some n"
proof -
  assume n: "n < 2 ^ bits"
  obtain b bs where s: "show_nat n = b # bs" by (cases "show_nat n") auto
  have "is_ascii_digit b" using show_nat_digits [of b n] s by simp
  then have "b \<noteq> CHR ''+''" by (auto simp: is_ascii_digit_def)
  then show ?thesis using n s parse_digits_show_nat [of n] by (simp add: parse_unsigned_def Let_def)
qed

lemma show_nat_no_blank: "CHR '' '' \<notin> set (show_nat n)"
  using show_nat_digits [of "CHR '' ''" n] by (auto simp: is_ascii_digit_def)

lemma octal_head:
  assumes "parse_unsigned 32 8 ms = Some mode"
  shows "ms = [] \<or> \<not> is_continuation (hd ms)"
proof (cases ms)
  case (Cons b bs)
  have "u8 b < 128"
  proof (rule ccontr)
    assume "\<not> u8 b < 128"
    then have "b \<noteq> CHR ''+''" "digit_val 8 b = None" by (auto simp: digit_val_def)
    then show False using assms Cons by (simp add: parse_unsigned_def Let_def)
  qed
  then show ?thesis using Cons ascii_not_continuation by simp
qed simp

lemma parse_cd_written:
  assumes "CHR '' '' \<notin> set ms" "parse_unsigned 32 8 ms = Some mode" "n < 2 ^ 64"
  shows "parse_cd (CHR ''C'' # ms @ '' '' @ show_nat n @ '' '' @ name) = Some (mode, n, sanitise_name (trim name))"
proof -
  have "splitn 3 (CHR '' '') (CHR ''C'' # ms @ '' '' @ show_nat n @ '' '' @ name) = [CHR ''C'' # ms, show_nat n, name]"
    using splitn_three [of "CHR '' ''" "CHR ''C'' # ms" "show_nat n" name] assms(1) show_nat_no_blank by simp
  moreover have "boundary (CHR ''C'' # ms) 1" using octal_head [OF assms(2)] by (cases ms) (auto simp: boundary_def)
  ultimately show ?thesis using assms by (simp add: parse_cd_def parse_unsigned_show_nat)
qed

lemma feed_file:
  fixes H :: "'h hasher" and body :: "byte list"
  assumes idle: "sk_file sk = None" "sk_buf sk = []"
    and mode: "CHR '' '' \<notin> set ms" "parse_unsigned 32 8 ms = Some mode"
    and line: "line = CHR ''C'' # ms @ '' '' @ show_nat (length body) @ '' '' @ name"
      "CHR 0x0A \<notin> set line" "CHR 0x0D \<notin> set line" "length line \<le> MAX_CONTROL_LINE" "utf8_valid line"
    and size: "length body < 2 ^ 64"
  shows "feed H sk (line @ [CHR 0x0A] @ body @ [last_byte]) =
    (sk, [CHR 0x00, CHR 0x00],
     [\<lparr>cf_name = sanitise_name (trim name), cf_rel_dir = join ''/'' (sk_dirs sk), cf_mode = mode,
       cf_data = take (sk_max_bytes sk) body, cf_size = length body,
       cf_sha256 = hex (h_finalize H (foldl (\<lambda>h b. h_update H h [b]) (h_new H) body)),
       cf_truncated = (sk_max_bytes sk < length body)\<rparr>])"
proof -
  let ?f = "\<lparr>in_name = sanitise_name (trim name), in_mode = mode, in_size = length body, in_remaining = length body,
    in_data = [], in_hasher = h_new H, in_truncated = False\<rparr>"
  have sk: "sk\<lparr>sk_buf := []\<rparr> = sk" "sk\<lparr>sk_file := None\<rparr> = sk" using idle by simp_all
  obtain cs where cs: "chars line = ''C'' # cs"
    using line(1) octal_head [OF mode(2)] ascii_not_continuation [of "CHR '' ''"] by (cases ms) auto
  have "handle_control H sk line = sk\<lparr>sk_file := Some ?f\<rparr>"
    using parse_cd_written [OF mode size, of name] line(1) cs from_utf8_lossy_valid [OF line(5)]
    by (simp add: handle_control_def Let_def)
  then have "handle_control H (sk\<lparr>sk_buf := []\<rparr>) line = sk\<lparr>sk_file := Some ?f\<rparr>" unfolding sk(1) .
  then have ctl: "feed H sk (line @ [CHR 0x0A]) = (sk\<lparr>sk_file := Some ?f\<rparr>, [CHR 0x00], [])"
    using feed_line [OF idle(1) line(2,3), of H] idle line(4) by (simp add: feed_append feed_byte_def)
  have body: "feed H (sk\<lparr>sk_file := Some ?f\<rparr>) body =
      (sk\<lparr>sk_file := Some (?f\<lparr>in_hasher := foldl (\<lambda>h b. h_update H h [b]) (h_new H) body,
        in_data := take (sk_max_bytes sk) body, in_truncated := (sk_max_bytes sk < length body), in_remaining := 0\<rparr>)\<rparr>, [], [])"
    using feed_body [of "sk\<lparr>sk_file := Some ?f\<rparr>" ?f body H] by simp
  have "feed H sk ((line @ [CHR 0x0A]) @ body @ [last_byte]) =
      (let (sk1, a1, d1) = feed H sk (line @ [CHR 0x0A]); (sk2, a2, d2) = feed H sk1 (body @ [last_byte]) in (sk2, a1 @ a2, d1 @ d2))"
    by (rule feed_append)
  also have "\<dots> = (sk, [CHR 0x00, CHR 0x00],
     [\<lparr>cf_name = sanitise_name (trim name), cf_rel_dir = join ''/'' (sk_dirs sk), cf_mode = mode,
       cf_data = take (sk_max_bytes sk) body, cf_size = length body,
       cf_sha256 = hex (h_finalize H (foldl (\<lambda>h b. h_update H h [b]) (h_new H) body)),
       cf_truncated = (sk_max_bytes sk < length body)\<rparr>])"
    using ctl body sk by (simp add: feed_append feed_byte_def)
  finally show ?thesis by simp
qed

text \<open>Packets one after the other.\<close>

definition feed_packets :: "'h hasher \<Rightarrow> 'h scp_sink \<Rightarrow> byte list list \<Rightarrow> 'h scp_sink \<times> byte list \<times> completed_file list" where
  "feed_packets H sk ps =
     foldl (\<lambda>(s, acks, fs) p. case feed H s p of (s', a, f) \<Rightarrow> (s', acks @ a, fs @ f)) (sk, [], []) ps"

lemma feed_packets_concat: "feed_packets H sk ps = feed H sk (concat ps)"
proof (induction ps rule: rev_induct)
  case (snoc p ps)
  then show ?case by (simp add: feed_packets_def feed_append Let_def split: prod.splits)
qed (simp add: feed_packets_def)

section \<open>Properties\<close>

text \<open>C20: whatever bytes a client sends, the sink stays within its bounds and hands on only harmless
  uploads. The pending control line never exceeds 8192 bytes, the directory stack 32 entries and the
  file in progress the configured cap; every completed file has a name, and sits in directories,
  that are not empty, hold no slash, backslash or control byte and contain no two dots in a row, its
  stored data is exactly as long as the cap and its declared size allow, and the truncation flag
  says whether something was dropped.\<close>

theorem scp_uploads_safe:
  assumes "feed_packets H (scp_new target r cap) ps = (sk, acks, fs)"
  shows "length (sk_buf sk) \<le> MAX_CONTROL_LINE \<and> length (sk_dirs sk) \<le> MAX_SCP_DEPTH
    \<and> (\<forall>d\<in>set (sk_dirs sk). safe_name d)
    \<and> (\<forall>f. sk_file sk = Some f \<longrightarrow> length (in_data f) \<le> cap)
    \<and> (\<forall>c\<in>set fs. safe_name (cf_name c) \<and> length (cf_data c) = min cap (cf_size c)
        \<and> (cf_truncated c \<longleftrightarrow> cap < cf_size c)
        \<and> (\<exists>ds. (\<forall>d\<in>set ds. safe_name d) \<and> length ds \<le> MAX_SCP_DEPTH \<and> cf_rel_dir c = join ''/'' ds))"
proof -
  have "feed H (scp_new target r cap) (concat ps) = (sk, acks, fs)" using assms by (simp add: feed_packets_concat)
  then have "sink_ok cap sk \<and> list_all (upload_ok cap) fs" using feed_ok [OF sink_ok_new] by blast
  then show ?thesis by (auto simp: sink_ok_def upload_ok_def file_ok_def list_all_iff)
qed

definition raw_hasher :: "byte list hasher" where
  "raw_hasher = \<lparr>h_new = [], h_update = (@), h_finalize = id\<rparr>"

lemma show_three: "show_nat (Suc (Suc (Suc 0))) = ''3''"
  by code_simp

text \<open>A path as name, and a cap of two bytes.\<close>

definition sample_upload :: "byte list list" where
  "sample_upload = [''C0644 3 a/../b'' @ [CHR 0x0A] @ ''x'', ''yz'' @ [CHR 0x00]]"

lemma feed_sample:
  "feed_packets raw_hasher (scp_new ''/tmp'' False 2) sample_upload =
     (scp_new ''/tmp'' False 2, [CHR 0x00, CHR 0x00],
      [\<lparr>cf_name = ''a___b'', cf_rel_dir = '''', cf_mode = 420, cf_data = ''xy'', cf_size = 3,
        cf_sha256 = hex ''xyz'', cf_truncated = True\<rparr>])"
proof -
  let ?l = "''C0644 3 a/../b''" and ?sk = "scp_new ''/tmp'' False 2 :: byte list scp_sink"
  have "parse_unsigned 32 8 ''0644'' = Some 420" by (simp add: parse_unsigned_def digit_val_def)
  moreover have "utf8_valid ?l" by (simp add: utf8_valid.simps utf8_step_def byte_at_def)
  moreover have "sanitise_name (trim ''a/../b'') = ''a___b''"
    by (simp add: sanitise_name_def trim_def trim_chars_def is_whitespace_def is_control_def ascii_not_continuation)
  ultimately show ?thesis
    using feed_file [of ?sk "''0644''" 420 ?l "''xyz''" "''a/../b''" raw_hasher "CHR 0x00"]
    by (simp add: feed_packets_concat sample_upload_def scp_new_def raw_hasher_def MAX_CONTROL_LINE_def show_three
        numeral_3_eq_3 del: feed.simps)
qed

theorem scp_uploads_safe_witness:
  "\<exists>c. feed_packets raw_hasher (scp_new ''/tmp'' False 2) sample_upload = (scp_new ''/tmp'' False 2, [CHR 0x00, CHR 0x00], [c])
     \<and> safe_name (cf_name c) \<and> cf_truncated c \<and> length (cf_data c) = 2"
  using scp_uploads_safe [OF feed_sample] feed_sample by (auto simp: numeral_2_eq_2)

text \<open>C35: a file sent in the protocol arrives. When the control line that announces a body of its
  length, the body and the closing byte are fed to an idle sink, in packets of any size, the client
  gets one acknowledgement for the line and one for the file, and exactly one file completes: it has
  the sanitised name and the mode announced, the first \<open>max_bytes\<close> bytes of the body, and the
  digest of the whole body, whatever part of it was kept.\<close>

theorem scp_receives:
  fixes H :: "'h hasher" and body :: "byte list"
  assumes digest: "\<And>bs. h_finalize H (foldl (\<lambda>h b. h_update H h [b]) (h_new H) bs) = sha256 bs"
    and idle: "sk_file sk = None" "sk_buf sk = []"
    and mode: "CHR '' '' \<notin> set ms" "parse_unsigned 32 8 ms = Some mode"
    and line: "line = CHR ''C'' # ms @ '' '' @ show_nat (length body) @ '' '' @ name"
      "CHR 0x0A \<notin> set line" "CHR 0x0D \<notin> set line" "length line \<le> MAX_CONTROL_LINE" "utf8_valid line"
    and packets: "concat ps = line @ [CHR 0x0A] @ body @ [last_byte]" "length body < 2 ^ 64"
  shows "feed_packets H sk ps =
    (sk, [CHR 0x00, CHR 0x00],
     [\<lparr>cf_name = sanitise_name (trim name), cf_rel_dir = join ''/'' (sk_dirs sk), cf_mode = mode,
       cf_data = take (sk_max_bytes sk) body, cf_size = length body, cf_sha256 = hex (sha256 body),
       cf_truncated = (sk_max_bytes sk < length body)\<rparr>])"
  using feed_file [OF idle mode line packets(2), of H last_byte] packets(1) digest
  by (simp add: feed_packets_concat)

theorem scp_receives_witness:
  "feed_packets raw_hasher (scp_new ''/tmp'' False 2) sample_upload =
    (scp_new ''/tmp'' False 2, [CHR 0x00, CHR 0x00],
     [\<lparr>cf_name = sanitise_name (trim ''a/../b''), cf_rel_dir = [], cf_mode = 420, cf_data = ''xy'', cf_size = 3,
       cf_sha256 = hex ''xyz'', cf_truncated = True\<rparr>])"
proof -
  let ?l = "''C0644 3 a/../b''" and ?sk = "scp_new ''/tmp'' False 2 :: byte list scp_sink"
  have "parse_unsigned 32 8 ''0644'' = Some 420" by (simp add: parse_unsigned_def digit_val_def)
  moreover have "utf8_valid ?l" by (simp add: utf8_valid.simps utf8_step_def byte_at_def)
  moreover have "foldl (\<lambda>h b. h_update raw_hasher h [b]) hs bs = hs @ bs" for hs bs
    by (induction bs arbitrary: hs) (simp_all add: raw_hasher_def)
  ultimately show ?thesis
    using scp_receives [of raw_hasher "\<lambda>bs. bs" ?sk "''0644''" 420 ?l "''xyz''" "''a/../b''" sample_upload "CHR 0x00"]
    by (simp add: scp_new_def sample_upload_def MAX_CONTROL_LINE_def show_three raw_hasher_def numeral_3_eq_3)
qed

end
