(* ===== verification/Ssh_Props.thy ===== *)
theory Ssh_Props
  imports Ssh Sftp_Props Line_Editor_Props Shell_Session Scp_Props
begin

text \<open>
  What holds of a connection whatever its client sends: the handler's invariant and that every request keeps
  it and returns; the channel's state is gone when the channel closes; logins, and what a one-shot
  command is answered.
\<close>

section \<open>The invariant\<close>

definition is_command :: "log_event \<Rightarrow> bool" where
  "is_command e \<longleftrightarrow> ev_name e = ''command''"

definition server_ok :: "'h server \<Rightarrow> bool" where
  "server_ok sv \<longleftrightarrow> wf_vfs (sv_image sv) \<and> obeys wf_at keeps_wf (sv_dispatch sv)"

definition shell_ok :: "shell option \<Rightarrow> bool" where
  "shell_ok x \<longleftrightarrow> (case x of None \<Rightarrow> True | Some s \<Rightarrow> wf_at 0 s)"

definition buffer_ok :: "byte list option \<Rightarrow> bool" where
  "buffer_ok x \<longleftrightarrow> (case x of None \<Rightarrow> True | Some b \<Rightarrow> length b \<le> MAX_COMMAND_LEN)"

definition handler_ok :: "config \<Rightarrow> 'h hasher \<Rightarrow> 'h mimic_handler \<Rightarrow> bool" where
  "handler_ok C H h \<longleftrightarrow> mh_config h = C \<and> shell_ok (mh_shell h) \<and> edited MAX_COMMAND_LEN 1000 (mh_editor h)
     \<and> length (mh_line_buf h) \<le> MAX_COMMAND_LEN \<and> buffer_ok (mh_password_buf h)
     \<and> length (mh_accepted_env h) \<le> MAX_ACCEPTED_ENV
     \<and> mh_command_count h = length (filter is_command (mh_events h))
     \<and> mh_quarantine_bytes h \<le> session_cap C \<and> config_ok C \<and> store_reach H (mh_store h)
     \<and> (\<forall>f. mh_sftp h = Some f \<longrightarrow> sftp_ok (cfg_max_upload_bytes C) f)
     \<and> (\<forall>k. mh_scp h = Some k \<longrightarrow> sink_ok (cfg_max_upload_bytes C) k)"

lemma ok_send [simp]: "handler_ok C H (send ch p h) = handler_ok C H h" "handler_ok C H (send_data ch bs h) = handler_ok C H h"
  by (simp_all add: handler_ok_def send_def send_data_def)

lemma ok_fields [simp]:
  "handler_ok C H (h\<lparr>mh_screen := a\<rparr>) = handler_ok C H h" "handler_ok C H (h\<lparr>mh_clock := b\<rparr>) = handler_ok C H h"
  "handler_ok C H (h\<lparr>mh_pty := c\<rparr>) = handler_ok C H h" "handler_ok C H (h\<lparr>mh_pty_term := d\<rparr>) = handler_ok C H h"
  "handler_ok C H (h\<lparr>mh_shell_started := e\<rparr>) = handler_ok C H h" "handler_ok C H (h\<lparr>mh_auth_attempts := f\<rparr>) = handler_ok C H h"
  "handler_ok C H (h\<lparr>mh_banner_logged := g\<rparr>) = handler_ok C H h" "handler_ok C H (h\<lparr>mh_username := i\<rparr>) = handler_ok C H h"
  "handler_ok C H (h\<lparr>mh_authenticated := j\<rparr>) = handler_ok C H h" "handler_ok C H (h\<lparr>mh_active_channel := k\<rparr>) = handler_ok C H h"
  "handler_ok C H (h\<lparr>mh_global_quarantine_bytes := l\<rparr>) = handler_ok C H h"
  by (simp_all add: handler_ok_def)

lemma ok_clear:
  assumes "handler_ok C H h"
  shows "handler_ok C H (h\<lparr>mh_password_buf := None\<rparr>)" "handler_ok C H (h\<lparr>mh_password_buf := Some []\<rparr>)"
    "handler_ok C H (h\<lparr>mh_line_buf := []\<rparr>)" "handler_ok C H (h\<lparr>mh_scp := None\<rparr>)" "handler_ok C H (h\<lparr>mh_sftp := None\<rparr>)"
    "handler_ok C H (h\<lparr>mh_shell := None\<rparr>)"
  using assms by (simp_all add: handler_ok_def buffer_ok_def shell_ok_def)

lemma ok_editor: "handler_ok C H h \<Longrightarrow> edited MAX_COMMAND_LEN 1000 e \<Longrightarrow> handler_ok C H (h\<lparr>mh_editor := e\<rparr>)"
  by (simp add: handler_ok_def)

lemma ok_put: "handler_ok C H h \<Longrightarrow> wf_at 0 s \<Longrightarrow> handler_ok C H (put_shell s h)"
  by (simp add: handler_ok_def put_shell_def shell_ok_def)

lemma event_names [simp]:
  "is_command (ev_command lg sid p c src st)" "\<not> is_command (ev_client_banner lg sid p b)" "\<not> is_command (ev_upload lg sid p n d sz a c q tr)"
  "\<not> is_command (ev_download lg sid p t u d)" "\<not> is_command (ev_auth_attempt lg sid p u m x fp ok)"
  "\<not> is_command (ev_quarantine_session_cap lg sid p)" "\<not> is_command (ev_quarantine_global_cap lg sid p)"
  "\<not> is_command (ev_quarantine_error lg sid p er)" "\<not> is_command (ev_subsystem_request lg sid p n ok)"
  "\<not> is_command (ev_connection_closed lg sid p secs cnt)"
  by (simp_all add: is_command_def event_defs emit_event_def)

lemma ok_log [simp]: "\<not> is_command e \<Longrightarrow> handler_ok C H (log_ev e h) = handler_ok C H h"
  by (simp add: handler_ok_def log_ev_def)

lemma ok_log_command [simp]: "handler_ok C H (log_command sv text src st h) = handler_ok C H h"
  by (simp add: handler_ok_def log_ev_def log_command_def)

section \<open>Shells\<close>

lemma new_shell_ok: "server_ok sv \<Longrightarrow> wf_at 0 (new_shell sv h)"
proof -
  assume "server_ok sv"
  let ?s = "shell_new (w_now (sv_world sv)) (sv_image sv) (mh_username h) (cfg_hostname (mh_config h)) (mh_persona h)"
  have "session_wf ?s \<and> sh_nesting ?s = 0" using \<open>server_ok sv\<close> by (intro shell_new_wf) (simp add: server_ok_def)
  then show ?thesis
    by (auto simp: new_shell_def Let_def wf_at_def session_wf_def intro!: env_ok_fold_set wf_intros split: option.split)
qed

lemma shell_of_ok: "server_ok sv \<Longrightarrow> handler_ok C H h \<Longrightarrow> wf_at 0 (shell_of sv h)"
  using new_shell_ok by (auto simp: shell_of_def handler_ok_def shell_ok_def split: option.split)

lemma wf_at_keeps: "wf_at N s \<Longrightarrow> keeps_wf s t \<Longrightarrow> wf_at N t"
  by (simp add: wf_at_def keeps_wf_def)

lemma wf_at_fields [simp]:
  "wf_at N (s\<lparr>sh_captures := a\<rparr>) = wf_at N s" "wf_at N (s\<lparr>sh_pending := b\<rparr>) = wf_at N s" "wf_at N (s\<lparr>sh_screen := c\<rparr>) = wf_at N s"
  "wf_at N (s\<lparr>sh_heredoc_log := d\<rparr>) = wf_at N s" "wf_at N (s\<lparr>sh_interactive := e\<rparr>) = wf_at N s"
  by (simp_all add: wf_at_def session_wf_def)

lemma wf_at_history: "wf_at N s \<Longrightarrow> wf_at N (record_history s l)"
  by (simp add: record_history_def Let_def wf_at_def session_wf_def)

section \<open>Uploads and captures\<close>

lemma ok_capture: "handler_ok C H h \<Longrightarrow> handler_ok C H (log_capture sv c h)"
  by (simp add: log_capture_def split: capture.split)

lemma ok_fold: "(\<And>x h. handler_ok C H h \<Longrightarrow> handler_ok C H (f x h)) \<Longrightarrow> handler_ok C H h \<Longrightarrow> handler_ok C H (fold f xs h)"
  by (induction xs arbitrary: h) auto

lemma ok_drain_captures: "server_ok sv \<Longrightarrow> handler_ok C H h \<Longrightarrow> handler_ok C H (drain_captures sv h)"
  unfolding drain_captures_def Let_def by (intro ok_fold ok_capture ok_put) (auto intro: shell_of_ok)

lemma session_cap_small: "config_ok c \<Longrightarrow> session_cap c < U64_MAX"
  by (simp add: config_ok_def session_cap_def QUARANTINE_SESSION_MULTIPLIER_def U64_MAX_def)

lemma ok_quarantine:
  assumes "handler_ok C (sv_hasher sv) h"
  shows "handler_ok C (sv_hasher sv) (snd (quarantine_payload sv dat h))"
proof -
  let ?sha = "payload_sha256 (sv_hasher sv) dat"
  obtain r q where w: "write_quarantine (sv_disk sv (length (mh_events h))) (cfg_quarantine_dir (mh_config h)) ?sha dat (mh_store h) = (r, q)"
    by (cases "write_quarantine (sv_disk sv (length (mh_events h))) (cfg_quarantine_dir (mh_config h)) ?sha dat (mh_store h)")
  have reach: "store_reach (sv_hasher sv) q"
    using assms store_reach.written_to [OF _ w] by (simp add: handler_ok_def)
  have few: "n \<le> length dat" if "r = Inr (p, n)" for p n
    using w by (cases rule: write_quarantine_cases) (use that in auto)
  have "session_cap (mh_config h) < U64_MAX" using assms session_cap_small by (simp add: handler_ok_def)
  then have cap: "mh_quarantine_bytes h + n \<le> session_cap (mh_config h)"
    if "\<not> min (mh_quarantine_bytes h + length dat) U64_MAX > session_cap (mh_config h)" "n \<le> length dat" for n using that by auto
  have "handler_ok C (sv_hasher sv) (h\<lparr>mh_store := q, mh_quarantine_bytes := mh_quarantine_bytes h + n, mh_global_quarantine_bytes := g\<rparr>)"
    if "mh_quarantine_bytes h + n \<le> session_cap (mh_config h)" for n g using assms reach that by (simp add: handler_ok_def)
  moreover have "handler_ok C (sv_hasher sv) (h\<lparr>mh_store := q\<rparr>)" using assms reach by (simp add: handler_ok_def)
  ultimately show ?thesis using assms few cap by (auto simp: quarantine_payload_def Let_def w split: sum.split)
qed

lemma vfs_upload_ok:
  assumes "wf_at 0 s" "mkdir_p now (sh_vfs s) dir perms u g = (r, v1)"
  shows "wf_at 0 (s\<lparr>sh_vfs := v1\<rparr>)"
    and "r = Some p \<Longrightarrow> wf_at 0 (s\<lparr>sh_vfs := snd (add_file now v1 p nm d mode u' g')\<rparr>)"
proof -
  have wf: "session_wf s" using assms(1) by (simp add: wf_at_def)
  note g = mkdir_p_good [OF wf [unfolded session_wf_def, THEN conjunct1] assms(2)]
  have one: "keeps_wf s (s\<lparr>sh_vfs := v1\<rparr>)" by (rule keeps_wf_vfs [OF wf g(1,2)])
  then show "wf_at 0 (s\<lparr>sh_vfs := v1\<rparr>)" by (rule wf_at_keeps [OF assms(1)])
  assume "r = Some p"
  then have "keeps_wf s (s\<lparr>sh_vfs := snd (add_file now v1 p nm d mode u' g')\<rparr>)"
    using keeps_wf_trans [OF one keeps_wf_result [OF keeps_wf_session [OF one]]] good_add_file [OF g(1) g(3)] by simp
  then show "wf_at 0 (s\<lparr>sh_vfs := snd (add_file now v1 p nm d mode u' g')\<rparr>)" by (rule wf_at_keeps [OF assms(1)])
qed

lemma ok_write_to_vfs:
  assumes "server_ok sv" "handler_ok C H h"
  shows "handler_ok C H (snd (write_to_vfs sv target rc f h))"
proof -
  let ?s = "shell_of sv h" and ?now = "w_now (sv_world sv)"
  obtain dir nm where place: "upload_place ?s target rc f = (dir, nm)" by (cases "upload_place ?s target rc f")
  obtain r v1 where m: "mkdir_p ?now (sh_vfs ?s) dir o755 (sh_uid ?s) (sh_gid ?s) = (r, v1)"
    by (cases "mkdir_p ?now (sh_vfs ?s) dir o755 (sh_uid ?s) (sh_gid ?s)")
  note up = vfs_upload_ok [OF shell_of_ok [OF assms] m]
  have "handler_ok C H (put_shell (?s\<lparr>sh_vfs := v1\<rparr>) h)" using ok_put [OF assms(2) up(1)] .
  moreover have "handler_ok C H (put_shell (?s\<lparr>sh_vfs := snd (add_file ?now v1 p nm d mode u g)\<rparr>) h)" if "r = Some p" for p nm d mode u g
    using ok_put [OF assms(2) up(2) [OF that]] .
  ultimately show ?thesis
    by (simp add: write_to_vfs_def Let_def place m split: option.split prod.split) (metis snd_conv)
qed

lemma ok_uploads:
  assumes "server_ok sv" "handler_ok C (sv_hasher sv) h"
  shows "handler_ok C (sv_hasher sv) (store_sftp_upload sv u h)" "handler_ok C (sv_hasher sv) (store_upload sv f h)"
proof -
  show "handler_ok C (sv_hasher sv) (store_sftp_upload sv u h)"
    using ok_quarantine [OF assms(2)] by (simp add: store_sftp_upload_def case_prod_unfold)
  show "handler_ok C (sv_hasher sv) (store_upload sv f h)"
    using ok_quarantine [OF ok_write_to_vfs [OF assms]] by (simp add: store_upload_def Let_def case_prod_unfold)
qed

lemma ok_drain_sftp:
  assumes "server_ok sv" "handler_ok C (sv_hasher sv) h"
  shows "handler_ok C (sv_hasher sv) (drain_sftp_uploads sv h)"
proof (cases "mh_sftp h")
  case (Some f)
  show ?thesis
  proof (cases "mh_shell h")
    case None
    then show ?thesis using Some assms(2) by (simp add: drain_sftp_uploads_def ok_clear)
  next
    case s: (Some s)
    obtain s1 us where p: "into_pending_uploads (sv_world sv) (sv_hasher sv) f s = (s1, us)"
      by (cases "into_pending_uploads (sv_world sv) (sv_hasher sv) f s")
    have "wf_at 0 s" using assms(2) s by (simp add: handler_ok_def shell_ok_def)
    then have "wf_at 0 s1"
      using keeps_pending_uploads [of s "sv_world sv" "sv_hasher sv" "f_handles f"] p wf_at_keeps
      by (auto simp: into_pending_uploads_def wf_at_def keeps_wf_def)
    then have "handler_ok C (sv_hasher sv) (h\<lparr>mh_sftp := None, mh_shell := Some s1\<rparr>)"
      using assms(2) by (simp add: handler_ok_def shell_ok_def)
    then show ?thesis using Some s p ok_uploads(1) [OF assms(1)] by (simp add: drain_sftp_uploads_def ok_fold)
  qed
qed (simp add: drain_sftp_uploads_def assms(2))

lemma ok_close:
  assumes "server_ok sv" "handler_ok C (sv_hasher sv) h"
  shows "handler_ok C (sv_hasher sv) (close_channel sv ch h)" "handler_ok C (sv_hasher sv) (end_channel sv ch st h)"
proof -
  have close: "handler_ok C (sv_hasher sv) (close_channel sv ch h)" if "handler_ok C (sv_hasher sv) h" for h
  proof -
    have "handler_ok C (sv_hasher sv) (drain_sftp_uploads sv h)" using ok_drain_sftp [OF assms(1) that] .
    then show ?thesis using that edited.edited_new by (simp add: close_channel_def handler_ok_def shell_ok_def buffer_ok_def)
  qed
  show "handler_ok C (sv_hasher sv) (close_channel sv ch h)" "handler_ok C (sv_hasher sv) (end_channel sv ch st h)"
    by (simp_all add: end_channel_def close assms(2))
qed

section \<open>Lines\<close>

definition returns :: "('a \<Rightarrow> bool) \<Rightarrow> 'a outcome \<Rightarrow> bool" where
  "returns P m \<longleftrightarrow> m \<noteq> OutOfFuel \<and> (\<forall>x. m = Done x \<longrightarrow> P x)"

lemma returns_simps [simp]: "returns P (Done x) = P x" "returns P Panicked" "\<not> returns P OutOfFuel"
  by (simp_all add: returns_def)

lemma returns_obind: "returns P m \<Longrightarrow> (\<And>x. P x \<Longrightarrow> returns Q (f x)) \<Longrightarrow> returns Q (obind m f)"
  by (cases m) auto

lemma fine_returns: "wf_at N s \<Longrightarrow> fine keeps_wf s m \<Longrightarrow> returns (\<lambda>(x, t). wf_at N t) m"
  using wf_at_keeps by (auto simp: fine_def returns_def)

lemma runs_ok:
  assumes "server_ok sv" "wf_at 0 s"
  shows "returns (\<lambda>(o1, t). wf_at 0 t) (execute w (sv_dispatch sv) s line)"
    and "returns (\<lambda>(o1, t). wf_at 0 t) (resume w (sv_dispatch sv) s line)"
    and "returns (\<lambda>(o1, t). wf_at 0 t) (finish_heredoc_at_eof w (sv_dispatch sv) s)"
proof -
  have d: "obeys wf_at keeps_wf (sv_dispatch sv)" using assms(1) by (simp add: server_ok_def)
  show "returns (\<lambda>(o1, t). wf_at 0 t) (execute w (sv_dispatch sv) s line)"
    using fine_returns [OF assms(2) wf.fine_execute [OF d assms(2)]] .
  show "returns (\<lambda>(o1, t). wf_at 0 t) (resume w (sv_dispatch sv) s line)"
    using fine_returns [OF assms(2) resume_wf [OF d assms(2)]] .
  have "wf_at 0 (s\<lparr>sh_pending := None\<rparr>)" using assms(2) by simp
  then have "returns (\<lambda>(o1, t). wf_at 0 t) (run_heredoc w (sv_dispatch sv) (s\<lparr>sh_pending := None\<rparr>) c r doc b)" for c r doc b
    using fine_returns wf.fine_run_heredoc [OF d] by blast
  then show "returns (\<lambda>(o1, t). wf_at 0 t) (finish_heredoc_at_eof w (sv_dispatch sv) s)"
    using assms(2) unfolding finish_heredoc_at_eof_def Let_def
    by (auto split: option.split pending.split intro!: returns_obind [where P = "\<lambda>(o1, t). wf_at 0 t"])
qed

text \<open>The handler a request leaves, and the flag that says whether the session has ended.\<close>

abbreviation okp :: "config \<Rightarrow> 'h server \<Rightarrow> bool \<times> 'h mimic_handler \<Rightarrow> bool" where
  "okp C sv x \<equiv> handler_ok C (sv_hasher sv) (snd x)"

lemma ok_write_output: "handler_ok C H h \<Longrightarrow> handler_ok C H (write_output ch o1 h)"
  by (simp add: write_output_def Let_def)

lemma ok_deliver: "server_ok sv \<Longrightarrow> handler_ok C (sv_hasher sv) h \<Longrightarrow> okp C sv (deliver sv ch o1 h)"
  by (simp add: deliver_def Let_def ok_close ok_write_output ok_drain_captures)

lemma ok_log_heredoc: "server_ok sv \<Longrightarrow> handler_ok C H h \<Longrightarrow> handler_ok C H (log_closed_heredoc sv h)"
  by (simp add: log_closed_heredoc_def Let_def ok_put shell_of_ok [of sv C H h] split: option.split)

lemma ok_submit_line:
  assumes "server_ok sv" "handler_ok C (sv_hasher sv) h"
  shows "returns (okp C sv) (submit_line sv ch line h)"
proof -
  let ?s = "shell_of sv h"
  have "wf_at 0 (if trim line \<noteq> [] then record_history ?s (trim line) else ?s)"
    using shell_of_ok [OF assms] wf_at_history by simp
  note run = runs_ok(1) [OF assms(1) this]
  show ?thesis unfolding submit_line_def Let_def
    by (rule returns_obind [OF run]) (auto intro!: ok_deliver [OF assms(1)] ok_put [OF assms(2)])
qed

lemma ok_answer:
  assumes "server_ok sv" "handler_ok C (sv_hasher sv) h"
  shows "returns (okp C sv) (answer sv ch line h)"
  unfolding answer_def
  by (rule returns_obind [OF runs_ok(2) [OF assms(1) shell_of_ok [OF assms]]])
     (auto intro!: ok_deliver [OF assms(1)] ok_log_heredoc [OF assms(1)] ok_put [OF assms(2)])

lemma ok_run_no_tty:
  "server_ok sv \<Longrightarrow> handler_ok C (sv_hasher sv) h \<Longrightarrow> returns (okp C sv) (run_no_tty_line sv ch line h)"
  by (simp add: run_no_tty_line_def ok_answer ok_submit_line)

lemma ok_feed_no_tty:
  "server_ok sv \<Longrightarrow> handler_ok C (sv_hasher sv) h \<Longrightarrow> returns (handler_ok C (sv_hasher sv)) (feed_no_tty sv ch bs h)"
proof (induction bs arbitrary: h)
  case (Cons b bs)
  have "returns (handler_ok C (sv_hasher sv)) (obind (run_no_tty_line sv ch (buffered_line h) (h\<lparr>mh_line_buf := []\<rparr>)) (\<lambda>(ended, h1).
      if ended then Done h1 else feed_no_tty sv ch bs h1))"
    by (rule returns_obind [OF ok_run_no_tty [OF Cons.prems(1) ok_clear(3) [OF Cons.prems(2)]]]) (auto intro!: Cons.IH [OF Cons.prems(1)])
  moreover have "handler_ok C (sv_hasher sv) (h\<lparr>mh_line_buf := mh_line_buf h @ [b]\<rparr>)" if "length (mh_line_buf h) < MAX_COMMAND_LEN"
    using Cons.prems(2) that by (simp add: handler_ok_def)
  ultimately show ?case using Cons.IH Cons.prems by simp
qed simp

section \<open>The terminal\<close>

lemma ok_hold_screen: "handler_ok C H h \<Longrightarrow> handler_ok C H (hold_screen sv ch sc h)"
  by (simp add: hold_screen_def split: screen.split prod.split)

lemma ok_redraw: "handler_ok C H h \<Longrightarrow> handler_ok C H (redraw_tick sv ch h)"
  by (simp add: redraw_tick_def split: option.split prod.split)

lemma ok_screen_input: "handler_ok C H h \<Longrightarrow> handler_ok C H (snd (screen_input b h))"
  by (simp add: screen_input_def Let_def case_prod_unfold split: option.split)

lemma ok_screen_bytes: "handler_ok C H h \<Longrightarrow> handler_ok C H (snd (screen_bytes bs h))"
proof (induction bs arbitrary: h)
  case (Cons b bs)
  then show ?case using ok_screen_input [OF Cons.prems, of b] by (auto split: prod.split)
qed simp

lemma ok_draw_prompt: "handler_ok C H h \<Longrightarrow> handler_ok C H (draw_prompt ch p h)"
  by (simp add: draw_prompt_def Let_def ok_editor edited.edited_prompt handler_ok_def [of C H h])

lemma ok_prompt_again: "server_ok sv \<Longrightarrow> handler_ok C H h \<Longrightarrow> handler_ok C H (shell_prompt_again sv ch h)"
  by (simp add: shell_prompt_again_def Let_def ok_draw_prompt ok_put shell_of_ok)

lemma ok_complete:
  assumes "server_ok sv" "handler_ok C H h"
  shows "handler_ok C H (snd (complete_current_word sv h))"
proof -
  let ?h = "put_shell (shell_of sv h) h"
  have h: "handler_ok C H ?h" using ok_put [OF assms(2) shell_of_ok [OF assms]] .
  then have "edited MAX_COMMAND_LEN 1000 (snd (apply_completion (mh_editor ?h) r sp))" for r sp
    by (intro edited.edited_completion) (simp add: handler_ok_def)
  then show ?thesis using h ok_editor [OF h] by (simp add: complete_current_word_def Let_def split: prod.split completion.split) (metis snd_conv)
qed

lemma ok_password_byte:
  assumes "server_ok sv" "handler_ok C (sv_hasher sv) h" "length buf \<le> MAX_COMMAND_LEN"
  shows "returns (okp C sv) (password_byte sv ch buf b h)"
proof -
  let ?h1 = "send ch (Data [CHR 0x0D, CHR 0x0A]) (h\<lparr>mh_password_buf := None\<rparr>)"
  have h1: "handler_ok C (sv_hasher sv) ?h1" using ok_clear(1) [OF assms(2)] by simp
  have enter: "returns (okp C sv) (obind (resume (sv_world sv) (sv_dispatch sv) (shell_of sv ?h1) (from_utf8_lossy buf)) (\<lambda>(o1, s).
           case deliver sv ch o1 (put_shell s ?h1) of (ended, h2) \<Rightarrow>
             if ended then Done (True, h2)
             else if silent_pending (shell_of sv h2) then Done (False, (put_shell (shell_of sv h2) h2)\<lparr>mh_password_buf := Some []\<rparr>)
             else Done (False, shell_prompt_again sv ch h2)))"
  proof (rule returns_obind [OF runs_ok(2) [OF assms(1) shell_of_ok [OF assms(1) h1]]], clarsimp)
    fix o1 s
    assume "wf_at 0 s"
    then have d: "okp C sv (deliver sv ch o1 (put_shell s ?h1))" using ok_deliver [OF assms(1) ok_put [OF h1]] by blast
    then show "returns (okp C sv) (case deliver sv ch o1 (put_shell s ?h1) of (ended, h2) \<Rightarrow>
             if ended then Done (True, h2)
             else if silent_pending (shell_of sv h2) then Done (False, (put_shell (shell_of sv h2) h2)\<lparr>mh_password_buf := Some []\<rparr>)
             else Done (False, shell_prompt_again sv ch h2))"
      using ok_prompt_again [OF assms(1)] ok_clear(2) [OF ok_put [OF _ shell_of_ok [OF assms(1)]]] by (auto split: prod.split)
  qed
  have "handler_ok C (sv_hasher sv) (h\<lparr>mh_password_buf := Some x\<rparr>)" if "length x \<le> MAX_COMMAND_LEN" for x
    using assms(2) that by (simp add: handler_ok_def buffer_ok_def)
  moreover have "length (pop_char buf) \<le> length buf"
    using length_dropWhile_le [of is_continuation "rev buf"] by (simp add: pop_char_def)
  moreover have "handler_ok C (sv_hasher sv) ((put_shell ((shell_of sv h)\<lparr>sh_pending := None\<rparr>) h)\<lparr>mh_password_buf := None\<rparr>)"
    using assms shell_of_ok by (intro ok_clear ok_put) auto
  ultimately show ?thesis using enter assms ok_prompt_again [OF assms(1)] by (auto simp: password_byte_def Let_def)
qed

lemma ok_after_line:
  assumes "server_ok sv" "handler_ok C H h"
  shows "handler_ok C H (after_line sv ch h)"
proof -
  have s: "wf_at 0 (shell_of sv h)" using shell_of_ok [OF assms] .
  then have "handler_ok C H (put_shell (shell_of sv h) h)" "handler_ok C H (put_shell ((shell_of sv h)\<lparr>sh_screen := None\<rparr>) h)"
    using ok_put [OF assms(2)] by simp_all
  then show ?thesis
    by (simp add: after_line_def Let_def ok_prompt_again [OF assms] ok_hold_screen ok_draw_prompt ok_clear(2) split: option.split)
qed

lemma ok_logout:
  assumes "server_ok sv" "handler_ok C (sv_hasher sv) h"
  shows "handler_ok C (sv_hasher sv) (end_channel sv ch st (put_shell (shell_of sv h) h))"
  using ok_close(2) [OF assms(1) ok_put [OF assms(2) shell_of_ok [OF assms]]] .

lemma ok_editor_byte:
  assumes "server_ok sv" "handler_ok C (sv_hasher sv) h"
  shows "returns (okp C sv) (editor_byte sv ch b h)"
proof -
  obtain r e where re: "ed_input (mh_editor h) b = (r, e)" by (cases "ed_input (mh_editor h) b")
  let ?h = "h\<lparr>mh_editor := e\<rparr>"
  have "edited MAX_COMMAND_LEN 1000 e" using edited.edited_input [of _ _ "mh_editor h" b] assms(2) re by (simp add: handler_ok_def)
  then have h: "handler_ok C (sv_hasher sv) ?h" using ok_editor [OF assms(2)] by blast
  show ?thesis
  proof (cases r)
    case (Submit echo line)
    let ?h1 = "send ch (Data echo) ?h"
    have h1: "handler_ok C (sv_hasher sv) ?h1" using h by simp
    have "returns (okp C sv) (if parked (shell_of sv ?h1) then answer sv ch line ?h1 else submit_line sv ch line ?h1)"
      using ok_answer [OF assms(1) h1] ok_submit_line [OF assms(1) h1] by simp
    then have "returns (okp C sv) (obind (if parked (shell_of sv ?h1) then answer sv ch line ?h1 else submit_line sv ch line ?h1)
        (\<lambda>(ended, h2). Done (if ended then (True, h2) else (False, after_line sv ch h2))))"
      by (rule returns_obind) (auto intro!: ok_after_line [OF assms(1)])
    then show ?thesis by (simp add: editor_byte_def re Submit Let_def)
  next
    case Eof
    have "handler_ok C (sv_hasher sv) (send ch (Data (out_bytes ?h LOGOUT)) ?h)" using h by simp
    then show ?thesis using ok_logout [OF assms(1)] by (simp add: editor_byte_def re Eof Let_def)
  next
    case Complete
    then show ?thesis using ok_complete [OF assms(1) h] by (simp add: editor_byte_def re case_prod_unfold Let_def)
  qed (use h in \<open>simp_all add: editor_byte_def re\<close>)
qed

lemma ok_terminal_bytes:
  "server_ok sv \<Longrightarrow> handler_ok C (sv_hasher sv) h \<Longrightarrow> returns (handler_ok C (sv_hasher sv)) (terminal_bytes sv ch bs h)"
proof (induction bs arbitrary: h)
  case (Cons b bs)
  have "returns (okp C sv) (case mh_password_buf h of Some buf \<Rightarrow> password_byte sv ch buf b h | None \<Rightarrow> editor_byte sv ch b h)"
  proof (cases "mh_password_buf h")
    case (Some buf)
    then have "length buf \<le> MAX_COMMAND_LEN" using Cons.prems(2) by (simp add: handler_ok_def buffer_ok_def)
    then show ?thesis using ok_password_byte [OF Cons.prems] Some by simp
  qed (simp add: ok_editor_byte [OF Cons.prems])
  then show ?case unfolding terminal_bytes.simps by (rule returns_obind) (auto intro!: Cons.IH [OF Cons.prems(1)])
qed simp

section \<open>Requests\<close>

lemma ok_banner: "handler_ok C H h \<Longrightarrow> handler_ok C H (log_client_banner sv b h)"
  by (simp add: log_client_banner_def Let_def)

lemma ok_env_set_shell: "wf_at 0 s \<Longrightarrow> wf_at 0 (s\<lparr>sh_env := env_set (env_set (sh_env s) k x) k' x'\<rparr>)"
  by (auto simp: wf_at_def session_wf_def intro: wf_intros)

lemma ok_window_change:
  assumes "handler_ok C H h"
  shows "handler_ok C H (window_change_request ch c r h)"
proof -
  have "handler_ok C H (put_shell (s\<lparr>sh_env := env_set (env_set (sh_env s) k x) k' x'\<rparr>) (h\<lparr>mh_pty_term := p\<rparr>))"
    if "mh_shell h = Some s" for s k x k' x' p
    using assms that by (intro ok_put ok_env_set_shell) (simp_all add: handler_ok_def shell_ok_def)
  then show ?thesis using assms by (simp add: window_change_request_def Let_def split: option.split)
qed

lemma ok_simple_requests:
  assumes "handler_ok C H h"
  shows "handler_ok C H (snd (auth_password sv user password h))" "handler_ok C H (snd (auth_publickey sv user fp h))"
    "handler_ok C H (channel_open_session sv b ch h)" "handler_ok C H (pty_request_call sv b ch term1 cols rows h)"
    "handler_ok C H (env_request ch name x h)" "handler_ok C H (subsystem_request sv ch name h)" "handler_ok C H (snd (agent_request ch h))"
proof -
  show "handler_ok C H (snd (auth_password sv user password h))" "handler_ok C H (snd (auth_publickey sv user fp h))"
    using assms by (simp_all add: auth_password_def auth_publickey_def Let_def)
  show "handler_ok C H (channel_open_session sv b ch h)"
    using ok_banner [OF assms, of sv b] by (simp add: channel_open_session_def try_open_channel_def)
  show "handler_ok C H (pty_request_call sv b ch term1 cols rows h)"
    using ok_banner [of C H "h\<lparr>mh_pty := True\<rparr>" sv b] assms by (simp add: pty_request_call_def)
  show "handler_ok C H (env_request ch name x h)" using assms by (simp add: env_request_def) (simp add: handler_ok_def)
  have "handler_ok C H (h'\<lparr>mh_sftp := Some sftp_new\<rparr>)" if "handler_ok C H h'" for h'
    using that by (simp add: handler_ok_def sftp_ok_new)
  then show "handler_ok C H (subsystem_request sv ch name h)" using assms by (simp add: subsystem_request_def)
  show "handler_ok C H (snd (agent_request ch h))" using assms by (simp add: agent_request_def)
qed

lemma ok_shell_request:
  assumes "server_ok sv" "handler_ok C H h"
  shows "handler_ok C H (shell_request sv ch h)"
proof -
  let ?h = "(send ch ChannelSuccess h)\<lparr>mh_shell_started := True\<rparr>"
  have h: "handler_ok C H ?h" using assms(2) by simp
  then have "handler_ok C H (put_shell ((shell_of sv ?h)\<lparr>sh_interactive := mh_pty ?h\<rparr>) ?h)"
    using shell_of_ok [OF assms(1) h] by (intro ok_put) simp_all
  then show ?thesis by (simp add: shell_request_def Let_def ok_prompt_again [OF assms(1)] split: prod.split)
qed

lemma config_kept: "mh_config (log_command sv b src st h) = mh_config h" "mh_config (send ch p h) = mh_config h"
  by (simp_all add: log_command_def log_ev_def send_def)

lemma ok_exec_request:
  assumes "server_ok sv" "handler_ok C (sv_hasher sv) h"
  shows "returns (handler_ok C (sv_hasher sv)) (exec_request sv ch dat h)"
proof (cases "parse_scp (trim (from_utf8_lossy (take MAX_COMMAND_LEN dat)))")
  case None
  let ?h = "send ch ChannelSuccess h" and ?cmd = "trim (from_utf8_lossy (take MAX_COMMAND_LEN dat))"
  have h: "handler_ok C (sv_hasher sv) ?h" using assms(2) by simp
  have "wf_at 0 ((shell_of sv ?h)\<lparr>sh_interactive := False\<rparr>)" using shell_of_ok [OF assms(1) h] by simp
  note run = runs_ok(1) [OF assms(1) this]
  have fin: "handler_ok C (sv_hasher sv) (end_channel sv ch st (write_output ch o2 (drain_captures sv (log_command sv ?cmd SExec st'
        (put_shell ((shell_of sv h2)\<lparr>sh_pending := None\<rparr>) h2)))))" if "handler_ok C (sv_hasher sv) h2" for h2 o2 st st'
    using that shell_of_ok [OF assms(1) that]
    by (intro ok_close(2) [OF assms(1)] ok_write_output ok_drain_captures [OF assms(1)]) (simp add: ok_put)
  have heredoc: "handler_ok C (sv_hasher sv) (if f = None then put_shell s2 ?h else log_closed_heredoc sv (put_shell s2 ?h))"
    if "wf_at 0 s2" for f :: "line_output option" and s2
    using ok_log_heredoc [OF assms(1) ok_put [OF h that]] ok_put [OF h that] by simp
  show ?thesis unfolding exec_request_def Let_def None option.case
    apply (rule returns_obind [OF run])
    apply clarsimp
    apply (rule returns_obind [OF runs_ok(3) [OF assms(1)]])
    apply assumption
    apply (simp only: case_prod_unfold returns_simps)
    apply (rule fin)
    apply (rule heredoc)
    apply assumption
    done
next
  case (Some mode)
  have "handler_ok C (sv_hasher sv) (h'\<lparr>mh_scp := Some (scp_new t r (cfg_max_upload_bytes (mh_config h')))\<rparr>)" if "handler_ok C (sv_hasher sv) h'" for h' t r
    using that by (simp add: handler_ok_def sink_ok_new)
  then have "handler_ok C (sv_hasher sv) ((log_command sv b STransfer None (log_command sv c SExec None (send ch ChannelSuccess h)))
      \<lparr>mh_scp := Some (scp_new t r (cfg_max_upload_bytes (mh_config h)))\<rparr>)" for b c t r
    using assms(2) by (metis ok_log_command ok_send(1) config_kept)
  then show ?thesis using Some assms by (cases mode) (simp_all add: exec_request_def Let_def ok_close config_kept)
qed

lemma ok_sftp_data:
  assumes "server_ok sv" "handler_ok C (sv_hasher sv) h" "mh_sftp h = Some f"
  shows "returns (handler_ok C (sv_hasher sv)) (data_request sv ch dat h)"
proof -
  let ?m = "cfg_max_upload_bytes (mh_config h)"
  have s: "wf_at 0 (shell_of sv h)" using shell_of_ok [OF assms(1,2)] .
  then have "session_wf (shell_of sv h)" by (simp add: wf_at_def)
  then obtain r f1 s1 ups where fd: "sftp_feed (sv_world sv) (sv_hasher sv) ?m f (shell_of sv h) dat = Some (r, f1, s1, ups)"
    and k: "keeps_wf (shell_of sv h) s1" using servedD [OF feed_served] unfolding sftp_feed_def by blast
  have "2 * ?m < USIZE_MAX" using assms(2) by (simp add: handler_ok_def config_ok_def USIZE_MAX_def)
  then have "sftp_ok ?m f1" using sftp_ok_feed fd assms(2,3) by (auto simp: sftp_feed_def handler_ok_def)
  then have "handler_ok C (sv_hasher sv) (h\<lparr>mh_sftp := Some f1, mh_shell := Some s1\<rparr>)"
    using assms(2) wf_at_keeps [OF s k] by (simp add: handler_ok_def shell_ok_def)
  then show ?thesis using ok_fold [OF ok_uploads(1) [OF assms(1)]] by (simp add: data_request_def assms(3) fd)
qed

lemma ok_scp_data:
  assumes "server_ok sv" "handler_ok C (sv_hasher sv) h" "mh_sftp h = None" "mh_scp h = Some k"
  shows "returns (handler_ok C (sv_hasher sv)) (data_request sv ch dat h)"
proof -
  obtain k1 acks files where fd: "feed (sv_hasher sv) k dat = (k1, acks, files)" by (cases "feed (sv_hasher sv) k dat")
  have "handler_ok C (sv_hasher sv) (h\<lparr>mh_scp := Some k1\<rparr>)"
    using assms(2,4) feed_ok [OF _ fd] by (auto simp: handler_ok_def)
  then show ?thesis using ok_fold [OF ok_uploads(2) [OF assms(1)]] by (simp add: data_request_def assms(3,4) fd)
qed

lemma ok_data_request:
  assumes "server_ok sv" "handler_ok C (sv_hasher sv) h"
  shows "returns (handler_ok C (sv_hasher sv)) (data_request sv ch dat h)"
proof (cases "mh_sftp h = None \<and> mh_scp h = None")
  case True
  obtain rest h1 where sb: "screen_bytes dat h = (rest, h1)" by (cases "screen_bytes dat h")
  then have "handler_ok C (sv_hasher sv) h1" using ok_screen_bytes [OF assms(2), of dat] by simp
  then have "handler_ok C (sv_hasher sv) (shell_prompt_again sv ch (send ch p h1))" for p
    by (intro ok_prompt_again [OF assms(1)]) simp
  then have "returns (handler_ok C (sv_hasher sv)) (terminal_bytes sv ch bs (shell_prompt_again sv ch (send ch p h1)))" for bs p
    by (intro ok_terminal_bytes [OF assms(1)])
  then show ?thesis
    using True sb \<open>handler_ok C (sv_hasher sv) h1\<close> ok_feed_no_tty [OF assms] ok_terminal_bytes [OF assms]
    by (simp add: data_request_def split: option.split)
next
  case False
  show ?thesis
  proof (cases "mh_sftp h")
    case None
    then obtain k where "mh_scp h = Some k" using False by auto
    then show ?thesis using ok_scp_data [OF assms None] by blast
  qed (rule ok_sftp_data [OF assms])
qed

lemma ok_channel_eof:
  assumes "server_ok sv" "handler_ok C (sv_hasher sv) h"
  shows "returns (handler_ok C (sv_hasher sv)) (channel_eof sv ch h)"
proof -
  have leave: "returns (handler_ok C (sv_hasher sv)) (Done (end_channel sv ch st (put_shell (shell_of sv h2) h2)))"
    if "handler_ok C (sv_hasher sv) h2" for h2 st using ok_logout [OF assms(1) that] by simp
  let ?rest = "\<lambda>h1. obind (finish_heredoc_at_eof (sv_world sv) (sv_dispatch sv) (shell_of sv h1)) (\<lambda>(fin, s).
        case (case fin of None \<Rightarrow> (False, put_shell s h1) | Some o1 \<Rightarrow> deliver sv ch o1 (log_closed_heredoc sv (put_shell s h1))) of
          (ended2, h2) \<Rightarrow> if ended2 then Done h2
            else Done (end_channel sv ch (status_u32 (sh_last_status (shell_of sv h2))) (put_shell (shell_of sv h2) h2)))"
  have closing: "returns (handler_ok C (sv_hasher sv)) (?rest h1)" if h1: "handler_ok C (sv_hasher sv) h1" for h1
  proof (rule returns_obind [OF runs_ok(3) [OF assms(1) shell_of_ok [OF assms(1) h1]]], clarsimp)
    fix fin s
    assume "wf_at 0 s"
    then have s: "handler_ok C (sv_hasher sv) (put_shell s h1)" using ok_put [OF h1] by blast
    then have "okp C sv (case fin of None \<Rightarrow> (False, put_shell s h1) | Some o1 \<Rightarrow> deliver sv ch o1 (log_closed_heredoc sv (put_shell s h1)))"
      using ok_deliver [OF assms(1) ok_log_heredoc [OF assms(1)]] by (simp split: option.split)
    then show "returns (handler_ok C (sv_hasher sv)) (case (case fin of None \<Rightarrow> (False, put_shell s h1) | Some o1 \<Rightarrow> deliver sv ch o1 (log_closed_heredoc sv (put_shell s h1))) of
          (ended2, h2) \<Rightarrow> if ended2 then Done h2
            else Done (end_channel sv ch (status_u32 (sh_last_status (shell_of sv h2))) (put_shell (shell_of sv h2) h2)))"
      using leave by (auto simp: case_prod_unfold)
  qed
  let ?line = "if mh_line_buf h \<noteq> [] then run_no_tty_line sv ch (buffered_line h) (h\<lparr>mh_line_buf := []\<rparr>) else Done (False, h)"
  have "returns (okp C sv) ?line"
    using ok_run_no_tty [OF assms(1) ok_clear(3) [OF assms(2)]] assms(2) by simp
  then have no_tty: "returns (handler_ok C (sv_hasher sv)) (obind ?line (\<lambda>(ended, h1). if ended then Done h1 else ?rest h1))"
    by (rule returns_obind) (auto intro!: closing)
  have uploads: "handler_ok C (sv_hasher sv) (end_channel sv ch st (drain_sftp_uploads sv (put_shell (shell_of sv h) h)))" for st
    by (rule ok_close(2) [OF assms(1) ok_drain_sftp [OF assms(1) ok_put [OF assms(2) shell_of_ok [OF assms]]]])
  have logout: "handler_ok C (sv_hasher sv) (end_channel sv ch st (put_shell (shell_of sv (send ch p h)) (send ch p h)))" for st p
    using ok_logout [OF assms(1), of C "send ch p h"] assms(2) by simp
  show ?thesis unfolding channel_eof_def Let_def
    using no_tty uploads logout assms(2) ok_close(2) [OF assms(1) ok_clear(4) [OF assms(2)]]
    by (simp only: returns_simps split: if_split) simp
qed

lemma ok_drop: "server_ok sv \<Longrightarrow> handler_ok C (sv_hasher sv) h \<Longrightarrow> handler_ok C (sv_hasher sv) (drop_handler sv h)"
  by (simp add: drop_handler_def Let_def ok_drain_sftp)

end
