(* ===== verification/Fs_Commands.thy ===== *)
theory Fs_Commands
  imports Shell Listing
begin

text \<open>
  The commands of \<open>src/commands/fs.rs\<close> that change the session: \<open>cd\<close>, \<open>touch\<close>, \<open>mkdir\<close>, \<open>rmdir\<close>,
  \<open>rm\<close>, \<open>cp\<close>, \<open>mv\<close>, \<open>chmod\<close>, \<open>ln\<close>, \<open>chown\<close> and \<open>chgrp\<close>. A loop over operands is a fold over
  the triple of the diagnostics collected, the exit status and the session. \<open>mv\<close> calls \<open>rename\<close> and
  the recursive \<open>chmod\<close> and \<open>chown\<close> descend the tree, so these commands are options; the descent has as
  much fuel as the arena has nodes.
\<close>

type_synonym tally = "str \<times> int \<times> shell"

fun fold_opt :: "('a \<Rightarrow> 's \<Rightarrow> 's option) \<Rightarrow> 'a list \<Rightarrow> 's \<Rightarrow> 's option" where
  "fold_opt f [] s = Some s"
| "fold_opt f (x # xs) s = Option.bind (f x s) (fold_opt f xs)"

definition basename :: "str \<Rightarrow> str" where
  "basename path = snd (split_path (strip_trailing_slashes path))"

definition finish :: "tally \<Rightarrow> command_result \<times> shell" where
  "finish t = (case t of (errs, status, s) \<Rightarrow> (cr_err errs status, s))"

text \<open>One more diagnostic: the tool, what it could not do, the operand in quotes and the reason.\<close>

definition complain :: "str \<Rightarrow> str \<Rightarrow> str \<Rightarrow> tally \<Rightarrow> tally" where
  "complain what path reason t = (case t of (errs, status, s) \<Rightarrow>
     (errs @ what @ '' '' @ [CHR 0x27] @ path @ [CHR 0x27] @ '': '' @ reason @ [CHR 0x0A], 1, s))"

definition missing :: "str \<Rightarrow> str \<Rightarrow> command_result" where
  "missing tool what = cr_err (tool @ '': '' @ what @ [CHR 0x0A] @ ''Try '' @ [CHR 0x27] @ tool @ '' --help'' @ [CHR 0x27]
     @ '' for more information.'' @ [CHR 0x0A]) 1"

definition dashed :: "str \<Rightarrow> bool" where
  "dashed a \<longleftrightarrow> starts_with a ''-'' \<and> length a > 1"

definition bundled :: "str \<Rightarrow> bool" where
  "bundled a \<longleftrightarrow> dashed a \<and> \<not> starts_with a ''--''"

section \<open>cd\<close>

definition cd_target :: "shell \<Rightarrow> str list \<Rightarrow> bool \<times> str" where
  "cd_target s args = (case args of
      [] \<Rightarrow> (False, path_of (sh_vfs s) (sh_home s))
    | a # _ \<Rightarrow>
        if a = ''~'' then (False, path_of (sh_vfs s) (sh_home s))
        else if a = ''-'' then (True, path_of (sh_vfs s) (sh_prev_cwd s))
        else if starts_with a ''~/'' then (False, path_of (sh_vfs s) (sh_home s) @ ''/'' @ drop 2 a)
        else (False, a))"

definition cmd_cd :: "shell \<Rightarrow> str list \<Rightarrow> command_result \<times> shell" where
  "cmd_cd s args = (case cd_target s args of (announce, target_path) \<Rightarrow>
     let refuse = (\<lambda>reason. (cr_err (''-bash: cd: '' @ target_path @ '': '' @ reason @ [CHR 0x0A]) 1, s)) in
     case resolve (sh_vfs s) (sh_cwd s) target_path of
       None \<Rightarrow> refuse ''No such file or directory''
     | Some target \<Rightarrow>
         (let meta = n_meta (fnode (sh_vfs s) target) in
          if \<not> is_dir meta then refuse ''Not a directory''
          else if \<not> executable_by meta (sh_uid s) (sh_gid s) then refuse ''Permission denied''
          else (let pwd = path_of (sh_vfs s) target;
                    s' = s\<lparr>sh_prev_cwd := sh_cwd s, sh_cwd := target, sh_env := env_set (sh_env s) ''PWD'' pwd\<rparr>
                in (if announce then cr_ok (pwd @ [CHR 0x0A]) else cr_empty, s'))))"

section \<open>touch\<close>

definition touch_arg :: "str \<Rightarrow> bool \<times> bool \<times> str list \<Rightarrow> bool \<times> bool \<times> str list" where
  "touch_arg a st = (case st of (skip_value, no_create, operands) \<Rightarrow>
     if skip_value then (False, no_create, operands)
     else if a = ''-c'' \<or> a = ''--no-create'' then (False, True, operands)
     else if a \<in> set [''-r'', ''--reference'', ''-d'', ''--date'', ''-t''] then (True, no_create, operands)
     else if a \<in> set [''-a'', ''-m'', ''--time''] then (False, no_create, operands)
     else if bundled a then (False, no_create, operands)
     else (False, no_create, operands @ [a]))"

definition touch_one :: "world \<Rightarrow> bool \<Rightarrow> str \<Rightarrow> tally \<Rightarrow> tally" where
  "touch_one w no_create path t = (case t of (errs, status, s) \<Rightarrow>
     case resolve_parent s path of
       None \<Rightarrow> complain ''touch: cannot touch'' path ''No such file or directory'' t
     | Some (p, nm) \<Rightarrow>
         if no_create \<and> child (sh_vfs s) p nm = None then t
         else if child (sh_vfs s) p nm = None \<and> is_full (sh_vfs s) p
         then complain ''touch: cannot touch'' path ''No space left on device'' t
         else (errs, status, s\<lparr>sh_vfs := snd (touch (w_now w) (sh_vfs s) p nm (sh_uid s) (sh_gid s))\<rparr>))"

definition cmd_touch :: "world \<Rightarrow> shell \<Rightarrow> str list \<Rightarrow> command_result \<times> shell" where
  "cmd_touch w s args = (case fold touch_arg args (False, False, []) of (_, no_create, operands) \<Rightarrow>
     if operands = [] then (missing ''touch'' ''missing file operand'', s)
     else finish (fold (touch_one w no_create) operands ([], 0, s)))"

section \<open>mkdir\<close>

definition mkdir_arg :: "str \<Rightarrow> bool \<times> bool \<times> str list \<Rightarrow> bool \<times> bool \<times> str list" where
  "mkdir_arg a st = (case st of (skip_value, parents, operands) \<Rightarrow>
     if skip_value then (False, parents, operands)
     else if a = ''-p'' \<or> a = ''--parents'' then (False, True, operands)
     else if a = ''-v'' \<or> a = ''--verbose'' then (False, parents, operands)
     else if a = ''-m'' \<or> a = ''--mode'' then (True, parents, operands)
     else if starts_with a ''-m'' \<and> length a > 2 then (False, parents, operands)
     else if bundled a then (False, parents \<or> CHR ''p'' \<in> set a, operands)
     else (False, parents, operands @ [a]))"

definition cannot_mkdir :: str where
  "cannot_mkdir = ''mkdir: cannot create directory''"

text \<open>The walk of \<open>mkdir -p\<close>, from the node \<open>current\<close> along the components left.\<close>

fun mkdir_walk :: "world \<Rightarrow> str \<Rightarrow> node_id \<Rightarrow> str list \<Rightarrow> tally \<Rightarrow> tally" where
  "mkdir_walk w path current [] t = t"
| "mkdir_walk w path current (seg # segs) (errs, status, s) =
     (if seg = [] \<or> seg = ''.'' then mkdir_walk w path current segs (errs, status, s)
      else if seg = ''..'' then
        mkdir_walk w path (case n_parent (fnode (sh_vfs s) current) of Some p \<Rightarrow> p | None \<Rightarrow> current) segs (errs, status, s)
      else case child (sh_vfs s) current seg of
             Some c \<Rightarrow>
               if \<not> is_dir (n_meta (fnode (sh_vfs s) c)) then complain cannot_mkdir path ''Not a directory'' (errs, status, s)
               else mkdir_walk w path c segs (errs, status, s)
           | None \<Rightarrow>
               if is_full (sh_vfs s) current then complain cannot_mkdir path ''No space left on device'' (errs, status, s)
               else (case mkdir (w_now w) (sh_vfs s) current seg o755 (sh_uid s) (sh_gid s) of (i, v) \<Rightarrow>
                       mkdir_walk w path i segs (errs, status, s\<lparr>sh_vfs := v\<rparr>)))"

definition mkdir_one :: "world \<Rightarrow> bool \<Rightarrow> str \<Rightarrow> tally \<Rightarrow> tally" where
  "mkdir_one w parents path t = (case t of (errs, status, s) \<Rightarrow>
     if parents then
       mkdir_walk w path (if starts_with path ''/'' then fs_root (sh_vfs s) else sh_cwd s)
         (split_on (CHR ''/'') (strip_trailing_slashes path)) t
     else case resolve_parent s path of
            None \<Rightarrow> complain cannot_mkdir path ''No such file or directory'' t
          | Some (p, nm) \<Rightarrow>
              if child (sh_vfs s) p nm \<noteq> None then complain cannot_mkdir path ''File exists'' t
              else if is_full (sh_vfs s) p then complain cannot_mkdir path ''No space left on device'' t
              else (errs, status, s\<lparr>sh_vfs := snd (mkdir (w_now w) (sh_vfs s) p nm o755 (sh_uid s) (sh_gid s))\<rparr>))"

definition cmd_mkdir :: "world \<Rightarrow> shell \<Rightarrow> str list \<Rightarrow> command_result \<times> shell" where
  "cmd_mkdir w s args = (case fold mkdir_arg args (False, False, []) of (_, parents, operands) \<Rightarrow>
     if operands = [] then (missing ''mkdir'' ''missing operand'', s)
     else finish (fold (mkdir_one w parents) operands ([], 0, s)))"

section \<open>rmdir\<close>

definition rmdir_arg :: "str \<Rightarrow> bool \<times> str list \<Rightarrow> bool \<times> str list" where
  "rmdir_arg a st = (case st of (parents, operands) \<Rightarrow>
     if a = ''-p'' \<or> a = ''--parents'' then (True, operands)
     else if a \<in> set [''-v'', ''--verbose'', ''--ignore-fail-on-non-empty''] then (parents, operands)
     else if dashed a then (parents, operands)
     else (parents, operands @ [a]))"

definition no_entries :: "vfs \<Rightarrow> node_id \<Rightarrow> bool" where
  "no_entries v i = (case entries v i of Some es \<Rightarrow> es = [] | None \<Rightarrow> True)"

definition cannot_rmdir :: str where
  "cannot_rmdir = ''rmdir: failed to remove''"

text \<open>The path shrinks with every turn of the loop of \<open>rmdir -p\<close>.\<close>

lemma split_path_shrinks:
  "fst (split_path p) \<noteq> ''.'' \<Longrightarrow> fst (split_path p) \<noteq> ''/'' \<Longrightarrow> length (fst (split_path p)) < length p"
  by (auto simp: split_path_def rfind_def split: option.splits nat.splits if_splits)

function rmdir_loop :: "bool \<Rightarrow> str \<Rightarrow> tally \<Rightarrow> tally" where
  "rmdir_loop parents p (errs, status, s) =
     (case resolve_parent s p of
        None \<Rightarrow> complain cannot_rmdir p ''No such file or directory'' (errs, status, s)
      | Some (parent, nm) \<Rightarrow>
          (case child (sh_vfs s) parent nm of
             None \<Rightarrow> complain cannot_rmdir p ''No such file or directory'' (errs, status, s)
           | Some target \<Rightarrow>
               if \<not> is_dir (n_meta (fnode (sh_vfs s) target)) then complain cannot_rmdir p ''Not a directory'' (errs, status, s)
               else if \<not> no_entries (sh_vfs s) target then complain cannot_rmdir p ''Directory not empty'' (errs, status, s)
               else
                 (let t = (errs, status, s\<lparr>sh_vfs := snd (unlink (sh_vfs s) parent nm)\<rparr>); dir = fst (split_path p) in
                  if \<not> parents \<or> dir = ''.'' \<or> dir = ''/'' \<or> dir = [] then t
                  else rmdir_loop parents dir t)))"
  by pat_completeness auto

termination
  by (relation "measure (\<lambda>(parents, p, t). length p)") (auto intro: split_path_shrinks)

declare rmdir_loop.simps [simp del]

definition cmd_rmdir :: "shell \<Rightarrow> str list \<Rightarrow> command_result \<times> shell" where
  "cmd_rmdir s args = (case fold rmdir_arg args (False, []) of (parents, operands) \<Rightarrow>
     if operands = [] then (missing ''rmdir'' ''missing operand'', s)
     else finish (fold (\<lambda>path. rmdir_loop parents (strip_trailing_slashes path)) operands ([], 0, s)))"

section \<open>rm\<close>

record rm_flags =
  rm_recursive :: bool
  rm_force :: bool
  rm_dir_ok :: bool

definition has_flag :: "str \<Rightarrow> char list \<Rightarrow> bool" where
  "has_flag a cs = list_ex (\<lambda>c. \<exists>b \<in> set cs. c = [b]) (chars (tl a))"

definition rm_arg :: "str \<Rightarrow> rm_flags \<times> str list \<Rightarrow> rm_flags \<times> str list" where
  "rm_arg a st = (case st of (fl, operands) \<Rightarrow>
     if a \<in> set [''-r'', ''-R'', ''--recursive''] then (fl\<lparr>rm_recursive := True\<rparr>, operands)
     else if a = ''-f'' \<or> a = ''--force'' then (fl\<lparr>rm_force := True\<rparr>, operands)
     else if a = ''-d'' \<or> a = ''--dir'' then (fl\<lparr>rm_dir_ok := True\<rparr>, operands)
     else if a \<in> set [''-v'', ''--verbose'', ''-i''] then (fl, operands)
     else if bundled a then
       (\<lparr>rm_recursive = rm_recursive fl \<or> has_flag a ''rR'', rm_force = rm_force fl \<or> has_flag a ''f'',
         rm_dir_ok = rm_dir_ok fl \<or> has_flag a ''d''\<rparr>, operands)
     else (fl, operands @ [a]))"

definition rm_one :: "rm_flags \<Rightarrow> str \<Rightarrow> tally \<Rightarrow> tally" where
  "rm_one fl path t = (case t of (errs, status, s) \<Rightarrow>
     let base = basename path;
         absent = (if rm_force fl then t else complain ''rm: cannot remove'' path ''No such file or directory'' t) in
     if base = ''.'' \<or> base = ''..'' then
       (errs @ ''rm: refusing to remove '' @ [CHR 0x27] @ ''.'' @ [CHR 0x27] @ '' or '' @ [CHR 0x27] @ ''..'' @ [CHR 0x27]
         @ '' directory: skipping '' @ [CHR 0x27] @ path @ [CHR 0x27] @ [CHR 0x0A], 1, s)
     else case resolve_parent s path of
       None \<Rightarrow> absent
     | Some (parent, nm) \<Rightarrow>
         (case child (sh_vfs s) parent nm of
            None \<Rightarrow> absent
          | Some target \<Rightarrow>
              if is_dir (n_meta (fnode (sh_vfs s) target)) \<and> \<not> rm_recursive fl \<and> \<not> rm_dir_ok fl
              then complain ''rm: cannot remove'' path ''Is a directory'' t
              else if is_dir (n_meta (fnode (sh_vfs s) target)) \<and> \<not> rm_recursive fl \<and> \<not> no_entries (sh_vfs s) target
              then complain ''rm: cannot remove'' path ''Directory not empty'' t
              else (errs, status, s\<lparr>sh_vfs := snd (unlink (sh_vfs s) parent nm)\<rparr>)))"

definition cmd_rm :: "shell \<Rightarrow> str list \<Rightarrow> command_result \<times> shell" where
  "cmd_rm s args =
     (case fold rm_arg args (\<lparr>rm_recursive = False, rm_force = False, rm_dir_ok = False\<rparr>, []) of (fl, operands) \<Rightarrow>
        if operands = [] then (if rm_force fl then cr_empty else missing ''rm'' ''missing operand'', s)
        else finish (fold (rm_one fl) operands ([], 0, s)))"

section \<open>cp and mv\<close>

definition existing_dir :: "shell \<Rightarrow> str \<Rightarrow> node_id option" where
  "existing_dir s path = (case resolve (sh_vfs s) (sh_cwd s) path of
      Some i \<Rightarrow> if is_dir (n_meta (fnode (sh_vfs s) i)) then Some i else None
    | None \<Rightarrow> None)"

text \<open>Where a source goes: into the destination directory under its own name, or to the destination itself.\<close>

definition place :: "shell \<Rightarrow> node_id option \<Rightarrow> str \<Rightarrow> str \<Rightarrow> (node_id \<times> str) option" where
  "place s dest_dir dest src = (case dest_dir of Some d \<Rightarrow> Some (d, basename src) | None \<Rightarrow> resolve_parent s dest)"

definition too_few :: "str \<Rightarrow> str list \<Rightarrow> command_result" where
  "too_few tool operands = missing tool (if operands = [] then ''missing file operand'' else ''missing destination file operand'')"

definition not_a_dir :: "str \<Rightarrow> str \<Rightarrow> command_result" where
  "not_a_dir tool dest =
     cr_err (tool @ '': target '' @ [CHR 0x27] @ dest @ [CHR 0x27] @ '' is not a directory'' @ [CHR 0x0A]) 1"

definition cp_arg :: "str \<Rightarrow> bool \<times> str list \<Rightarrow> bool \<times> str list" where
  "cp_arg a st = (case st of (recursive, operands) \<Rightarrow>
     if a \<in> set [''-r'', ''-R'', ''--recursive'', ''-a'', ''--archive''] then (True, operands)
     else if a \<in> set [''-v'', ''--verbose'', ''-f'', ''-p'', ''-i''] then (recursive, operands)
     else if bundled a then (recursive \<or> has_flag a ''rRa'', operands)
     else (recursive, operands @ [a]))"

definition cp_one :: "world \<Rightarrow> bool \<Rightarrow> node_id option \<Rightarrow> str \<Rightarrow> str \<Rightarrow> tally \<Rightarrow> tally" where
  "cp_one w recursive dest_dir dest src t = (case t of (errs, status, s) \<Rightarrow>
     case resolve (sh_vfs s) (sh_cwd s) src of
       None \<Rightarrow> complain ''cp: cannot stat'' src ''No such file or directory'' t
     | Some src_id \<Rightarrow>
         if is_dir (n_meta (fnode (sh_vfs s) src_id)) \<and> \<not> recursive then
           (errs @ ''cp: -r not specified; omitting directory '' @ [CHR 0x27] @ src @ [CHR 0x27] @ [CHR 0x0A], 1, s)
         else case place s dest_dir dest src of
           None \<Rightarrow> complain ''cp: cannot create regular file'' dest ''No such file or directory'' t
         | Some (p, nm) \<Rightarrow>
             if child (sh_vfs s) p nm = None \<and> is_full (sh_vfs s) p
             then complain ''cp: cannot create regular file'' nm ''No space left on device'' t
             else (errs, status, s\<lparr>sh_vfs := snd (deep_copy (w_now w) (sh_vfs s) src_id p nm)\<rparr>))"

definition cmd_cp :: "world \<Rightarrow> shell \<Rightarrow> str list \<Rightarrow> command_result \<times> shell" where
  "cmd_cp w s args = (case fold cp_arg args (False, []) of (recursive, operands) \<Rightarrow>
     if length operands < 2 then (too_few ''cp'' operands, s)
     else (let dest = last operands; srcs = butlast operands; dest_dir = existing_dir s dest in
           if length srcs > 1 \<and> dest_dir = None then (not_a_dir ''cp'' dest, s)
           else finish (fold (cp_one w recursive dest_dir dest) srcs ([], 0, s))))"

definition mv_arg :: "str \<Rightarrow> str list \<Rightarrow> str list" where
  "mv_arg a operands =
     (if a \<in> set [''-v'', ''--verbose'', ''-f'', ''-i'', ''-n'', ''--no-clobber''] then operands
      else if bundled a then operands
      else operands @ [a])"

definition cannot_move :: "str \<Rightarrow> str \<Rightarrow> str \<Rightarrow> tally \<Rightarrow> tally" where
  "cannot_move src dest reason t = (case t of (errs, status, s) \<Rightarrow>
     (errs @ ''mv: cannot move '' @ [CHR 0x27] @ src @ [CHR 0x27] @ '' to '' @ [CHR 0x27] @ dest @ [CHR 0x27] @ '': '' @ reason
       @ [CHR 0x0A], 1, s))"

definition into_itself :: "str \<Rightarrow> str \<Rightarrow> str \<Rightarrow> tally \<Rightarrow> tally" where
  "into_itself src dest nm t = (case t of (errs, status, s) \<Rightarrow>
     (errs @ ''mv: cannot move '' @ [CHR 0x27] @ src @ [CHR 0x27] @ '' to a subdirectory of itself, '' @ [CHR 0x27] @ dest @ ''/''
       @ nm @ [CHR 0x27] @ [CHR 0x0A], 1, s))"

definition mv_one :: "node_id option \<Rightarrow> str \<Rightarrow> str \<Rightarrow> tally \<Rightarrow> tally option" where
  "mv_one dest_dir dest src t = (case t of (errs, status, s) \<Rightarrow>
     let absent = complain ''mv: cannot stat'' src ''No such file or directory'' t in
     case resolve_parent s src of
       None \<Rightarrow> Some absent
     | Some (src_parent, src_name) \<Rightarrow>
         (case child (sh_vfs s) src_parent src_name of
            None \<Rightarrow> Some absent
          | Some src_id \<Rightarrow>
              (case place s dest_dir dest src of
                 None \<Rightarrow> Some (cannot_move src dest ''No such file or directory'' t)
               | Some (p, nm) \<Rightarrow>
                   Option.bind (rename (sh_vfs s) src_id p nm) (\<lambda>(moved, v).
                     Some (if moved then (errs, status, s\<lparr>sh_vfs := v\<rparr>)
                           else if is_ancestor_of v src_id p then into_itself src dest nm (errs, status, s\<lparr>sh_vfs := v\<rparr>)
                           else cannot_move src dest ''File name too long'' (errs, status, s\<lparr>sh_vfs := v\<rparr>))))))"

definition cmd_mv :: "shell \<Rightarrow> str list \<Rightarrow> (command_result \<times> shell) option" where
  "cmd_mv s args =
     (let operands = fold mv_arg args [] in
      if length operands < 2 then Some (too_few ''mv'' operands, s)
      else (let dest = last operands; srcs = butlast operands; dest_dir = existing_dir s dest in
            if length srcs > 1 \<and> dest_dir = None then Some (not_a_dir ''mv'' dest, s)
            else map_option finish (fold_opt (mv_one dest_dir dest) srcs ([], 0, s))))"

section \<open>chmod\<close>

text \<open>The bits a class of users and a permission letter stand for (octal \<open>4700\<close>, \<open>2070\<close>, \<open>1007\<close>; \<open>444\<close>,
  \<open>222\<close>, \<open>111\<close>, \<open>6000\<close>, \<open>1000\<close>).\<close>

definition who_bits :: "rchar \<Rightarrow> u32 option" where
  "who_bits c =
     (if c = ''u'' then Some 0x9C0 else if c = ''g'' then Some 0x438 else if c = ''o'' then Some 0x207 else None)"

definition letter_bits :: "rchar \<Rightarrow> u32 option" where
  "letter_bits c =
     (if c = ''r'' then Some 0x124 else if c = ''w'' then Some 0x92 else if c = ''x'' \<or> c = ''X'' then Some 0x49
      else if c = ''s'' then Some 0xC00 else if c = ''t'' then Some 0x200 else None)"

definition collect_bits :: "(rchar \<Rightarrow> u32 option) \<Rightarrow> str \<Rightarrow> u32 option" where
  "collect_bits f tx = fold_opt (\<lambda>c m. map_option (\<lambda>b. m OR b) (f c)) (chars tx) 0"

definition who_mask :: "str \<Rightarrow> u32 option" where
  "who_mask who = (if who = [] \<or> CHR ''a'' \<in> set who then Some o7777 else collect_bits who_bits who)"

definition apply_clause :: "str \<Rightarrow> u32 \<Rightarrow> u32 option" where
  "apply_clause clause mode =
     (let who = takeWhile (\<lambda>b. b \<notin> set ''+-='') clause in
      case dropWhile (\<lambda>b. b \<notin> set ''+-='') clause of
        [] \<Rightarrow> None
      | operator # perms \<Rightarrow>
          Option.bind (who_mask who) (\<lambda>mask.
          Option.bind (collect_bits letter_bits perms) (\<lambda>perm_bits.
            let effective = perm_bits AND mask in
            Some (if operator = CHR ''+'' then mode OR effective
                  else if operator = CHR ''-'' then mode AND NOT effective
                  else (mode AND NOT mask) OR effective))))"

definition compute_mode :: "str \<Rightarrow> u32 \<Rightarrow> u32 option" where
  "compute_mode spec current =
     (if spec \<noteq> [] \<and> list_all is_ascii_digit spec
      then map_option (\<lambda>n. word_of_nat n AND o7777) (parse_unsigned 32 8 spec)
      else map_option (\<lambda>m. m AND o7777) (fold_opt apply_clause (split_on (CHR '','') spec) current))"

text \<open>The descent of \<open>chmod -R\<close>; the first argument is the fuel.\<close>

primrec apply_chmod :: "nat \<Rightarrow> str \<Rightarrow> bool \<Rightarrow> u32 \<Rightarrow> node_id \<Rightarrow> vfs \<Rightarrow> vfs option" where
  "apply_chmod 0 spec recursive perms i v = None"
| "apply_chmod (Suc n) spec recursive perms i v =
     (let v1 = chmod v i perms in
      if recursive \<and> is_dir (n_meta (fnode v1 i)) then
        fold_opt (\<lambda>(_, c) v2.
            apply_chmod n spec recursive
              (case compute_mode spec (m_mode (n_meta (fnode v2 c)) AND o7777) of Some p \<Rightarrow> p | None \<Rightarrow> perms) c v2)
          (case entries v1 i of Some es \<Rightarrow> es | None \<Rightarrow> []) v1
      else Some v1)"

definition chmod_arg :: "str \<Rightarrow> bool \<times> str list \<Rightarrow> bool \<times> str list" where
  "chmod_arg a st = (case st of (recursive, rest) \<Rightarrow>
     if a = ''-R'' \<or> a = ''--recursive'' then (True, rest)
     else if a \<in> set [''-v'', ''--verbose'', ''-c'', ''-f''] then (recursive, rest)
     else (recursive, rest @ [a]))"

text \<open>An invalid mode ends the command at once, with the diagnostics so far dropped.\<close>

fun chmod_loop :: "bool \<Rightarrow> str \<Rightarrow> str list \<Rightarrow> tally \<Rightarrow> (command_result \<times> shell) option" where
  "chmod_loop recursive spec [] t = Some (finish t)"
| "chmod_loop recursive spec (path # paths) (errs, status, s) =
     (case resolve (sh_vfs s) (sh_cwd s) path of
        None \<Rightarrow> chmod_loop recursive spec paths (complain ''chmod: cannot access'' path ''No such file or directory'' (errs, status, s))
      | Some i \<Rightarrow>
          (case compute_mode spec (m_mode (n_meta (fnode (sh_vfs s) i)) AND o7777) of
             None \<Rightarrow> Some (cr_err (''chmod: invalid mode: '' @ [CHR 0x27] @ spec @ [CHR 0x27] @ [CHR 0x0A]) 1, s)
           | Some perms \<Rightarrow>
               Option.bind (apply_chmod (fsize (sh_vfs s)) spec recursive perms i (sh_vfs s)) (\<lambda>v.
                 chmod_loop recursive spec paths (errs, status, s\<lparr>sh_vfs := v\<rparr>))))"

definition cmd_chmod :: "shell \<Rightarrow> str list \<Rightarrow> (command_result \<times> shell) option" where
  "cmd_chmod s args = (case fold chmod_arg args (False, []) of (recursive, rest) \<Rightarrow>
     if length rest < 2 then Some (missing ''chmod'' ''missing operand'', s)
     else chmod_loop recursive (hd rest) (tl rest) ([], 0, s))"

section \<open>ln\<close>

definition ln_arg :: "str \<Rightarrow> bool \<times> bool \<times> str list \<Rightarrow> bool \<times> bool \<times> str list" where
  "ln_arg a st = (case st of (symbolic, force, operands) \<Rightarrow>
     if a = ''-s'' \<or> a = ''--symbolic'' then (True, force, operands)
     else if a = ''-f'' \<or> a = ''--force'' then (symbolic, True, operands)
     else if a = ''-sf'' \<or> a = ''-fs'' then (True, True, operands)
     else if dashed a then (symbolic, force, operands)
     else (symbolic, force, operands @ [a]))"

definition ln_error :: "str \<Rightarrow> str \<Rightarrow> command_result" where
  "ln_error nm reason = cr_err (''ln: failed to create symbolic link '' @ [CHR 0x27] @ nm @ [CHR 0x27] @ '': '' @ reason @ [CHR 0x0A]) 1"

text \<open>Where the link goes: inside an existing directory under the target's name, or where its own name says.\<close>

definition ln_dest :: "shell \<Rightarrow> str \<Rightarrow> str \<Rightarrow> (node_id \<times> str) option" where
  "ln_dest s link target = (case existing_dir s link of Some i \<Rightarrow> Some (i, basename target) | None \<Rightarrow> resolve_parent s link)"

definition ln_make :: "world \<Rightarrow> shell \<Rightarrow> bool \<Rightarrow> node_id \<Rightarrow> str \<Rightarrow> str \<Rightarrow> command_result \<times> shell" where
  "ln_make w s force p nm target =
     (if child (sh_vfs s) p nm \<noteq> None \<and> \<not> force then (ln_error nm ''File exists'', s)
      else
        (let v = (if child (sh_vfs s) p nm \<noteq> None then snd (unlink (sh_vfs s) p nm) else sh_vfs s);
             (i, v') = add_symlink (w_now w) v p nm target
         in (if i = p then ln_error nm ''No space left on device'' else cr_empty, s\<lparr>sh_vfs := v'\<rparr>)))"

definition cmd_ln :: "world \<Rightarrow> shell \<Rightarrow> str list \<Rightarrow> command_result \<times> shell" where
  "cmd_ln w s args = (case fold ln_arg args (False, False, []) of (symbolic, force, operands) \<Rightarrow>
     if operands = [] then (missing ''ln'' ''missing file operand'', s)
     else
       (let target = hd operands; link = (if length operands > 1 then operands ! 1 else basename target) in
        if \<not> symbolic then
          (cr_err (''ln: failed to create hard link '' @ [CHR 0x27] @ link @ [CHR 0x27] @ '' => '' @ [CHR 0x27] @ target @ [CHR 0x27]
             @ '': Invalid cross-device link'' @ [CHR 0x0A]) 1, s)
        else case ln_dest s link target of
               None \<Rightarrow> (ln_error link ''No such file or directory'', s)
             | Some (p, nm) \<Rightarrow> ln_make w s force p nm target))"

section \<open>chown and chgrp\<close>

definition login_uids :: "(str \<times> u32) list" where
  "login_uids = [(''root'', 0), (''daemon'', 1), (''bin'', 2), (''sys'', 3), (''www-data'', 33), (''nobody'', 65534), (''debian'', 1000)]"

definition lookup_uid :: "str \<Rightarrow> u32 option" where
  "lookup_uid nm = (case parse_unsigned 32 10 nm of Some n \<Rightarrow> Some (word_of_nat n) | None \<Rightarrow> map_of login_uids nm)"

definition login_gids :: "(str \<times> u32) list" where
  "login_gids = [(''root'', 0), (''daemon'', 1), (''bin'', 2), (''sys'', 3), (''adm'', 4), (''www-data'', 33), (''shadow'', 42),
     (''nogroup'', 65534), (''debian'', 1000)]"

definition lookup_gid :: "str \<Rightarrow> u32 option" where
  "lookup_gid nm = (case parse_unsigned 32 10 nm of Some n \<Rightarrow> Some (word_of_nat n) | None \<Rightarrow> map_of login_gids nm)"

text \<open>\<open>split_once\<close> at a colon or a full stop.\<close>

definition split_owner :: "str \<Rightarrow> str \<times> str option" where
  "split_owner spec = (case dropWhile (\<lambda>b. b \<noteq> CHR '':'' \<and> b \<noteq> CHR ''.'') spec of
      [] \<Rightarrow> (spec, None)
    | _ # g \<Rightarrow> (takeWhile (\<lambda>b. b \<noteq> CHR '':'' \<and> b \<noteq> CHR ''.'') spec, Some g))"

definition parse_owner_spec :: "str \<Rightarrow> str \<Rightarrow> (u32 option \<times> u32 option) option" where
  "parse_owner_spec spec tool =
     (if tool = ''chgrp'' then map_option (\<lambda>g. (None, Some g)) (lookup_gid spec)
      else case split_owner spec of (user, grp) \<Rightarrow>
        Option.bind (if user = [] then Some None else map_option Some (lookup_uid user)) (\<lambda>u.
        Option.bind (case grp of
            Some g \<Rightarrow> if g = [] then Some u else map_option Some (lookup_gid g)
          | None \<Rightarrow> Some None) (\<lambda>g.
          Some (u, g))))"

primrec apply_chown :: "nat \<Rightarrow> u32 option \<Rightarrow> u32 option \<Rightarrow> bool \<Rightarrow> node_id \<Rightarrow> vfs \<Rightarrow> vfs option" where
  "apply_chown 0 u g recursive i v = None"
| "apply_chown (Suc n) u g recursive i v =
     (let m = n_meta (fnode v i);
          v1 = chown v i (case u of Some x \<Rightarrow> x | None \<Rightarrow> m_uid m) (case g of Some x \<Rightarrow> x | None \<Rightarrow> m_gid m) in
      if recursive \<and> is_dir (n_meta (fnode v1 i)) then
        fold_opt (\<lambda>(_, c) v2. apply_chown n u g recursive c v2) (case entries v1 i of Some es \<Rightarrow> es | None \<Rightarrow> []) v1
      else Some v1)"

definition chown_arg :: "str \<Rightarrow> bool \<times> str list \<Rightarrow> bool \<times> str list" where
  "chown_arg a st = (case st of (recursive, rest) \<Rightarrow>
     if a = ''-R'' \<or> a = ''--recursive'' then (True, rest)
     else if dashed a then (recursive, rest)
     else (recursive, rest @ [a]))"

definition chown_one :: "str \<Rightarrow> u32 option \<Rightarrow> u32 option \<Rightarrow> bool \<Rightarrow> str \<Rightarrow> tally \<Rightarrow> tally option" where
  "chown_one tool u g recursive path t = (case t of (errs, status, s) \<Rightarrow>
     case resolve (sh_vfs s) (sh_cwd s) path of
       None \<Rightarrow> Some (complain (tool @ '': cannot access'') path ''No such file or directory'' t)
     | Some i \<Rightarrow>
         if sh_uid s \<noteq> 0 then Some (complain (tool @ '': changing ownership of'') path ''Operation not permitted'' t)
         else map_option (\<lambda>v. (errs, status, s\<lparr>sh_vfs := v\<rparr>)) (apply_chown (fsize (sh_vfs s)) u g recursive i (sh_vfs s)))"

definition chown_like :: "shell \<Rightarrow> str list \<Rightarrow> str \<Rightarrow> (command_result \<times> shell) option" where
  "chown_like s args tool = (case fold chown_arg args (False, []) of (recursive, rest) \<Rightarrow>
     if length rest < 2 then Some (missing tool ''missing operand'', s)
     else case parse_owner_spec (hd rest) tool of
       None \<Rightarrow> Some (cr_err (tool @ '': invalid '' @ (if tool = ''chgrp'' then ''group'' else ''user'') @ '': '' @ [CHR 0x27] @ hd rest
           @ [CHR 0x27] @ [CHR 0x0A]) 1, s)
     | Some (u, g) \<Rightarrow> map_option finish (fold_opt (chown_one tool u g recursive) (tl rest) ([], 0, s)))"

definition cmd_chown :: "shell \<Rightarrow> str list \<Rightarrow> (command_result \<times> shell) option" where
  "cmd_chown s args = chown_like s args ''chown''"

definition cmd_chgrp :: "shell \<Rightarrow> str list \<Rightarrow> (command_result \<times> shell) option" where
  "cmd_chgrp s args = chown_like s args ''chgrp''"

end
