(* ===== verification/Tar.thy ===== *)
theory Tar
  imports Fs_Commands
begin

text \<open>
  The \<open>tar\<close> command of \<open>src/commands/fs.rs\<close>: the ustar format, written and read, and creation, listing
  and extraction on the session's filesystem. A size field holds at most twelve octal digits, so the
  64-bit sums of the reader do not wrap and are plain additions. The walk that archives a tree has
  as much fuel as the arena has nodes.
\<close>

definition TAR_BLOCK :: nat where "TAR_BLOCK = 512"
definition TAR_BLOCKING :: nat where "TAR_BLOCKING = 20 * TAR_BLOCK"
definition TAR_UGSWIDTH :: nat where "TAR_UGSWIDTH = 18"

section \<open>Headers\<close>

definition tar_put :: "byte list \<Rightarrow> nat \<Rightarrow> nat \<Rightarrow> byte list \<Rightarrow> byte list" where
  "tar_put h at width bs = (let n = min (length bs) width in take at h @ take n bs @ drop (at + n) h)"

text \<open>\<open>{:o}\<close>\<close>

fun show_oct :: "nat \<Rightarrow> str" where
  "show_oct n = (if n < 8 then [char_of (48 + n)] else show_oct (n div 8) @ [char_of (48 + n mod 8)])"

declare show_oct.simps [simp del]

definition tar_put_octal :: "byte list \<Rightarrow> nat \<Rightarrow> nat \<Rightarrow> nat \<Rightarrow> byte list" where
  "tar_put_octal h at width n = tar_put h at (width - 1) (pad_left CHR ''0'' (width - 1) (show_oct n))"

definition tar_pad_char :: "byte \<Rightarrow> bool" where
  "tar_pad_char b \<longleftrightarrow> b = CHR 0x00 \<or> b = CHR '' ''"

definition tar_read_octal :: "byte list \<Rightarrow> nat" where
  "tar_read_octal f =
     (case parse_unsigned 64 8 (rev (dropWhile tar_pad_char (rev (dropWhile tar_pad_char (from_utf8_lossy f))))) of
        Some n \<Rightarrow> n | None \<Rightarrow> 0)"

definition tar_read_str :: "byte list \<Rightarrow> str" where
  "tar_read_str f = from_utf8_lossy (takeWhile (\<lambda>b. b \<noteq> CHR 0x00) f)"

text \<open>The first slash that leaves a prefix of at most 155 bytes and a rest of at most 100.\<close>

definition tar_split_name :: "str \<Rightarrow> str \<times> str" where
  "tar_split_name nm =
     (if length nm \<le> 100 then ([], nm)
      else case filter (\<lambda>i. nm ! i = CHR ''/'' \<and> i \<le> 155 \<and> length nm - (i + 1) \<le> 100) [0..<length nm] of
             i # _ \<Rightarrow> (take i nm, drop (i + 1) nm)
           | [] \<Rightarrow> ([], nm))"

text \<open>The header before its checksum is filled in: the checksum field reads as blanks.\<close>

definition tar_header_blank :: "str \<Rightarrow> str \<Rightarrow> metadata \<Rightarrow> byte \<Rightarrow> nat \<Rightarrow> byte list" where
  "tar_header_blank nm link m typeflag sz =
     (case tar_split_name nm of (prefix, stem) \<Rightarrow>
      let h0 = replicate TAR_BLOCK (CHR 0x00);
          h1 = tar_put h0 0 100 stem;
          h2 = tar_put_octal h1 100 8 (unat (m_mode m AND o7777));
          h3 = tar_put_octal h2 108 8 (unat (m_uid m));
          h4 = tar_put_octal h3 116 8 (unat (m_gid m));
          h5 = tar_put_octal h4 124 12 sz;
          h6 = tar_put_octal h5 136 12 (nat (max (m_mtime m) 0));
          h7 = tar_put h6 148 8 (replicate 8 CHR '' '');
          h8 = tar_put h7 156 1 [typeflag];
          h9 = tar_put h8 157 100 link;
          h10 = tar_put h9 257 6 (''ustar'' @ [CHR 0x00]);
          h11 = tar_put h10 263 2 ''00'';
          h12 = tar_put h11 265 32 (uid_name (m_uid m));
          h13 = tar_put h12 297 32 (gid_name (m_gid m))
      in tar_put h13 345 155 prefix)"

definition tar_write_header :: "str \<Rightarrow> str \<Rightarrow> metadata \<Rightarrow> byte \<Rightarrow> nat \<Rightarrow> byte list" where
  "tar_write_header nm link m typeflag sz =
     (let h = tar_header_blank nm link m typeflag sz;
          checksum = sum_list (map u8 h)
      in tar_put h 148 8 (pad_left CHR ''0'' 6 (show_oct checksum) @ [CHR 0x00, CHR '' '']))"

section \<open>Writing\<close>

definition next_multiple_of :: "nat \<Rightarrow> nat \<Rightarrow> nat" where
  "next_multiple_of n k = (n + (k - 1)) div k * k"

record tar_build =
  tb_bytes :: "byte list"
  tb_log :: str
  tb_errs :: str
  tb_status :: int
  tb_verbose :: bool
  tb_archive :: "node_id option"

definition tar_log :: "str \<Rightarrow> tar_build \<Rightarrow> tar_build" where
  "tar_log nm b = (if tb_verbose b then b\<lparr>tb_log := tb_log b @ nm @ [CHR 0x0A]\<rparr> else b)"

definition tar_denied :: "str \<Rightarrow> tar_build \<Rightarrow> tar_build" where
  "tar_denied nm b = b\<lparr>tb_errs := tb_errs b @ ''tar: '' @ nm @ '': Cannot open: Permission denied'' @ [CHR 0x0A], tb_status := 2\<rparr>"

definition tar_file :: "str \<Rightarrow> metadata \<Rightarrow> byte list \<Rightarrow> byte list" where
  "tar_file nm m c = tar_write_header nm [] m CHR ''0'' (length c) @ c
     @ replicate (next_multiple_of (length c) TAR_BLOCK - length c) (CHR 0x00)"

primrec tar_walk :: "nat \<Rightarrow> world \<Rightarrow> shell \<Rightarrow> node_id \<Rightarrow> str \<Rightarrow> tar_build \<Rightarrow> tar_build option" where
  "tar_walk 0 w s i nm b = None"
| "tar_walk (Suc k) w s i nm b =
     (if tb_archive b = Some i then
        Some (b\<lparr>tb_errs := tb_errs b @ ''tar: '' @ nm @ '': file is the archive; not dumped'' @ [CHR 0x0A]\<rparr>)
      else
        (let n = fnode (sh_vfs s) i; readable = readable_by (n_meta n) (sh_uid s) (sh_gid s) in
         case n_kind n of
           Symlink target \<Rightarrow>
             Some (tar_log nm (b\<lparr>tb_bytes := tb_bytes b @ tar_write_header nm target (n_meta n) CHR ''2'' 0\<rparr>))
         | File c \<Rightarrow>
             Some (if \<not> readable then tar_denied nm b else tar_log nm (b\<lparr>tb_bytes := tb_bytes b @ tar_file nm (n_meta n) c\<rparr>))
         | DynamicFile gen \<Rightarrow>
             Some (if \<not> readable then tar_denied nm b
                   else tar_log nm (b\<lparr>tb_bytes := tb_bytes b @ tar_file nm (n_meta n) (gen (w_now w))\<rparr>))
         | Directory _ \<Rightarrow>
             (let dir_name = trim_end_slashes nm @ ''/'';
                  b1 = tar_log dir_name (b\<lparr>tb_bytes := tb_bytes b @ tar_write_header dir_name [] (n_meta n) CHR ''5'' 0\<rparr>) in
              if \<not> readable then Some (tar_denied nm b1)
              else fold_opt (\<lambda>(cn, c). tar_walk k w s c (dir_name @ cn))
                     (case entries (sh_vfs s) i of Some es \<Rightarrow> es | None \<Rightarrow> []) b1)))"

section \<open>Reading\<close>

record tar_entry =
  te_name :: str
  te_mode :: u32
  te_uid :: u32
  te_gid :: u32
  te_size :: nat
  te_mtime :: int
  te_typeflag :: byte
  te_link :: str
  te_offset :: nat

definition byte_range :: "nat \<Rightarrow> nat \<Rightarrow> 'a list \<Rightarrow> 'a list" where
  "byte_range a b xs = take (b - a) (drop a xs)"

definition tar_read_header :: "byte list \<Rightarrow> nat \<Rightarrow> tar_entry" where
  "tar_read_header h offset =
     (let prefix = tar_read_str (byte_range 345 500 h); stem = tar_read_str (byte_range 0 100 h)
      in \<lparr>te_name = (if prefix = [] then stem else prefix @ ''/'' @ stem),
          te_mode = word_of_nat (tar_read_octal (byte_range 100 108 h)) AND o7777,
          te_uid = word_of_nat (tar_read_octal (byte_range 108 116 h)),
          te_gid = word_of_nat (tar_read_octal (byte_range 116 124 h)),
          te_size = tar_read_octal (byte_range 124 136 h),
          te_mtime = int (tar_read_octal (byte_range 136 148 h)),
          te_typeflag = h ! 156,
          te_link = tar_read_str (byte_range 157 257 h),
          te_offset = offset\<rparr>)"

function tar_parse_loop :: "byte list \<Rightarrow> nat \<Rightarrow> tar_entry list" where
  "tar_parse_loop dat at =
     (if at + TAR_BLOCK \<le> length dat then
        (let h = byte_range at (at + TAR_BLOCK) dat in
         if list_all (\<lambda>b. b = CHR 0x00) h \<or> byte_range 257 262 h \<noteq> ''ustar'' then []
         else (let e = tar_read_header h (at + TAR_BLOCK)
               in e # tar_parse_loop dat (at + (TAR_BLOCK + next_multiple_of (te_size e) TAR_BLOCK))))
      else [])"
  by pat_completeness auto

termination
  by (relation "measure (\<lambda>(dat, at). length dat - at)") (auto simp: TAR_BLOCK_def)

declare tar_parse_loop.simps [simp del]

definition tar_parse :: "byte list \<Rightarrow> tar_entry list option" where
  "tar_parse dat =
     (if length dat < TAR_BLOCK \<or> byte_range 257 262 dat \<noteq> ''ustar'' then None else Some (tar_parse_loop dat 0))"

section \<open>Names\<close>

definition tar_selected :: "str \<Rightarrow> str list \<Rightarrow> bool" where
  "tar_selected nm members \<longleftrightarrow>
     members = [] \<or>
     (let n = trim_end_slashes nm in
      list_ex (\<lambda>m. let k = dropWhile (\<lambda>b. b = CHR ''/'') (strip_trailing_slashes m) in n = k \<or> starts_with n (k @ ''/'')) members)"

definition tar_date :: "int \<Rightarrow> str" where
  "tar_date ts =
     (let (yr, mo, d) = civil_from_days (ts div 86400);
          secs = ts mod 86400
      in zeros 4 (nat yr) @ ''-'' @ zeros 2 mo @ ''-'' @ zeros 2 d @ '' '' @ zeros 2 (nat (secs sdiv 3600)) @ '':''
         @ zeros 2 (nat ((secs smod 3600) sdiv 60)))"

text \<open>One line of \<open>tar -tv\<close>, and the column width carried on.\<close>

definition tar_long_entry :: "tar_entry \<Rightarrow> nat \<Rightarrow> str \<times> nat" where
  "tar_long_entry e ugswidth =
     (let type_bits = (if te_typeflag e = CHR ''5'' then S_IFDIR else if te_typeflag e = CHR ''2'' then S_IFLNK else 0);
          mode = mode_string (type_bits OR te_mode e);
          owner = uid_name (te_uid e) @ ''/'' @ gid_name (te_gid e);
          sz = show_nat (te_size e);
          ugs = max ugswidth (length owner + length sz);
          link = (if te_typeflag e = CHR ''2'' then '' -> '' @ te_link e else [])
      in (mode @ '' '' @ owner @ '' '' @ pad_left CHR '' '' (ugs - length owner) sz @ '' '' @ tar_date (te_mtime e) @ '' ''
            @ te_name e @ link @ [CHR 0x0A], ugs))"

definition tar_has_dot_dot :: "str \<Rightarrow> bool" where
  "tar_has_dot_dot nm \<longleftrightarrow> ''..'' \<in> set (split_on (CHR ''/'') nm)"

lemma strip_scan_shrinks:
  assumes "rest \<noteq> []"
  shows "length (dropWhile (\<lambda>b. b = CHR ''/'') (dropWhile (\<lambda>b. b \<noteq> CHR ''/'') rest)) < length rest"
proof (cases rest)
  case (Cons b bs)
  have "length (dropWhile (\<lambda>b. b = CHR ''/'') (dropWhile (\<lambda>b. b \<noteq> CHR ''/'') bs)) \<le> length bs"
    by (rule order_trans [OF length_dropWhile_le length_dropWhile_le])
  then show ?thesis using Cons length_dropWhile_le [of "\<lambda>b. b = CHR ''/''" bs] by (cases "b = CHR ''/''") simp_all
qed (use assms in simp)

text \<open>The scan for the last component \<open>..\<close>: \<open>rest\<close> starts a component at index \<open>i\<close>.\<close>

function strip_scan :: "nat \<Rightarrow> str \<Rightarrow> nat \<Rightarrow> nat" where
  "strip_scan i rest prefix =
     (if rest = [] then prefix
      else
        (let prefix' = (if starts_with rest ''..'' \<and> (length rest = 2 \<or> rest ! 2 = CHR ''/'') then i + 2 else prefix);
             after = dropWhile (\<lambda>b. b \<noteq> CHR ''/'') rest;
             rest' = dropWhile (\<lambda>b. b = CHR ''/'') after
         in strip_scan (i + (length rest - length rest')) rest' prefix'))"
  by pat_completeness auto

termination
  by (relation "measure (\<lambda>(i, rest, prefix). length rest)") (simp_all add: strip_scan_shrinks)

declare strip_scan.simps [simp del]

definition strip_length :: "str \<Rightarrow> nat" where
  "strip_length nm = (let p = strip_scan 0 nm 0 in p + length (takeWhile (\<lambda>b. b = CHR ''/'') (drop p nm)))"

text \<open>The name stripped, with the prefix last warned about and the diagnostics, both passed on.\<close>

definition tar_strip_leading :: "str \<Rightarrow> str \<Rightarrow> str \<Rightarrow> str \<times> str \<times> str" where
  "tar_strip_leading nm warned errs =
     (let prefix = strip_length nm; dropped = take prefix nm in
      if prefix > 0 \<and> warned \<noteq> dropped
      then (drop prefix nm, dropped, errs @ ''tar: Removing leading `'' @ dropped @ [CHR 0x27] @ '' from member names'' @ [CHR 0x0A])
      else (drop prefix nm, warned, errs))"

section \<open>Extraction\<close>

fun tar_dest_loop :: "world \<Rightarrow> shell \<Rightarrow> node_id \<Rightarrow> str list \<Rightarrow> node_id option \<times> shell" where
  "tar_dest_loop w s dir [] = (Some dir, s)"
| "tar_dest_loop w s dir (seg # segs) =
     (case child (sh_vfs s) dir seg of
        Some existing \<Rightarrow>
          if is_dir (n_meta (fnode (sh_vfs s) existing)) then
            (if existing = dir then (None, s) else tar_dest_loop w s existing segs)
          else (None, s)
      | None \<Rightarrow>
          (case mkdir (w_now w) (sh_vfs s) dir seg o755 (sh_uid s) (sh_gid s) of (i, v) \<Rightarrow>
             if i = dir then (None, s\<lparr>sh_vfs := v\<rparr>) else tar_dest_loop w (s\<lparr>sh_vfs := v\<rparr>) i segs))"

definition tar_dest :: "world \<Rightarrow> shell \<Rightarrow> str \<Rightarrow> (node_id \<times> str) option \<times> shell" where
  "tar_dest w s nm =
     (if tar_has_dot_dot nm then (None, s)
      else (let parts = filter (\<lambda>c. c \<noteq> [] \<and> c \<noteq> ''.'') (split_on (CHR ''/'') nm) in
            if parts = [] then (None, s)
            else case tar_dest_loop w s (sh_cwd s) (butlast parts) of
                   (Some d, s') \<Rightarrow> (Some (d, last parts), s')
                 | (None, s') \<Rightarrow> (None, s')))"

record tar_run =
  tr_out :: str
  tr_errs :: str
  tr_status :: int
  tr_warned :: str
  tr_shell :: shell

definition tar_failed :: "str \<Rightarrow> str \<Rightarrow> tar_run \<Rightarrow> tar_run" where
  "tar_failed nm reason r = r\<lparr>tr_errs := tr_errs r @ ''tar: '' @ nm @ '': '' @ reason @ [CHR 0x0A], tr_status := 2\<rparr>"

definition is_file_of_length :: "node \<Rightarrow> nat \<Rightarrow> bool" where
  "is_file_of_length n k \<longleftrightarrow> (case n_kind n of File c \<Rightarrow> length c = k | _ \<Rightarrow> False)"

text \<open>The member of kind \<open>typeflag\<close> made under its parent.\<close>

definition tar_place :: "world \<Rightarrow> byte list \<Rightarrow> tar_entry \<Rightarrow> str \<Rightarrow> node_id \<Rightarrow> str \<Rightarrow> tar_run \<Rightarrow> tar_run" where
  "tar_place w dat e member p nm r =
     (let s = tr_shell r; now = w_now w;
          (owner, grp) = (if sh_uid s = 0 then (te_uid e, te_gid e) else (sh_uid s, sh_gid s)) in
      if te_typeflag e = CHR ''5'' then
        r\<lparr>tr_shell := s\<lparr>sh_vfs := snd (mkdir now (sh_vfs s) p nm (te_mode e) owner grp)\<rparr>\<rparr>
      else if te_typeflag e = CHR ''2'' then
        r\<lparr>tr_shell := s\<lparr>sh_vfs := snd (add_symlink now (sh_vfs s) p nm (te_link e))\<rparr>\<rparr>
      else if te_typeflag e = CHR ''0'' \<or> te_typeflag e = CHR 0x00 then
        (let en = min (te_offset e + te_size e) (length dat);
             body = byte_range (min (te_offset e) en) en dat;
             (i, v) = add_file now (sh_vfs s) p nm body (te_mode e) owner grp;
             r' = r\<lparr>tr_shell := s\<lparr>sh_vfs := v\<rparr>\<rparr>
         in if is_file_of_length (fnode v i) (length body) then r'
            else tar_failed member ''Cannot write: No space left on device'' r')
      else r)"

definition tar_extract_one :: "world \<Rightarrow> bool \<Rightarrow> byte list \<Rightarrow> str list \<Rightarrow> tar_entry \<Rightarrow> tar_run \<Rightarrow> tar_run" where
  "tar_extract_one w verbose dat members e r =
     (if \<not> tar_selected (te_name e) members then r
      else case tar_strip_leading (te_name e) (tr_warned r) (tr_errs r) of (member, warned, errs) \<Rightarrow>
        let r1 = r\<lparr>tr_warned := warned, tr_errs := errs\<rparr> in
        if tar_has_dot_dot (te_name e) then tar_failed (te_name e) (''Member name contains '' @ [CHR 0x27] @ ''..'' @ [CHR 0x27]) r1
        else
          (let r2 = (if verbose then r1\<lparr>tr_out := tr_out r1 @ member @ [CHR 0x0A]\<rparr> else r1) in
           case tar_dest w (tr_shell r2) member of
             (None, s) \<Rightarrow> tar_failed member ''Cannot open: No such file or directory'' (r2\<lparr>tr_shell := s\<rparr>)
           | (Some (p, nm), s) \<Rightarrow>
               if \<not> writable_by (n_meta (fnode (sh_vfs s) p)) (sh_uid s) (sh_gid s)
               then tar_failed member ''Cannot open: Permission denied'' (r2\<lparr>tr_shell := s\<rparr>)
               else tar_place w dat e member p nm (r2\<lparr>tr_shell := s\<rparr>)))"

definition tar_previous_errors :: str where
  "tar_previous_errors = ''tar: Exiting with failure status due to previous errors'' @ [CHR 0x0A]"

definition tar_extract :: "world \<Rightarrow> bool \<Rightarrow> byte list \<Rightarrow> tar_entry list \<Rightarrow> str list \<Rightarrow> shell \<Rightarrow> command_result \<times> shell" where
  "tar_extract w verbose dat es members s =
     (let r = fold (tar_extract_one w verbose dat members) es
                \<lparr>tr_out = [], tr_errs = [], tr_status = 0, tr_warned = [], tr_shell = s\<rparr>
      in (cr_streams (tr_out r) (if tr_status r \<noteq> 0 then tr_errs r @ tar_previous_errors else tr_errs r) (tr_status r), tr_shell r))"

section \<open>The command\<close>

record tar_opts =
  to_create :: bool
  to_extract :: bool
  to_list :: bool
  to_verbose :: bool
  to_expect_file :: bool
  to_first :: bool
  to_archive :: "str option"
  to_members :: "str list"

definition tar_opts_none :: tar_opts where
  "tar_opts_none = \<lparr>to_create = False, to_extract = False, to_list = False, to_verbose = False, to_expect_file = False,
     to_first = True, to_archive = None, to_members = []\<rparr>"

text \<open>The flags of a bundle, in order; the first unknown one is the error.\<close>

fun apply_tar_flags :: "rchar list \<Rightarrow> tar_opts \<Rightarrow> rchar + tar_opts" where
  "apply_tar_flags [] t = Inr t"
| "apply_tar_flags (ch # cs) t =
     (if ch = ''c'' then apply_tar_flags cs (t\<lparr>to_create := True\<rparr>)
      else if ch = ''x'' then apply_tar_flags cs (t\<lparr>to_extract := True\<rparr>)
      else if ch = ''t'' then apply_tar_flags cs (t\<lparr>to_list := True\<rparr>)
      else if ch = ''v'' then apply_tar_flags cs (t\<lparr>to_verbose := True\<rparr>)
      else if ch = ''f'' then apply_tar_flags cs (t\<lparr>to_expect_file := True\<rparr>)
      else if ch \<in> set [''z'', ''j'', ''J'', ''p'', ''k'', ''m''] then apply_tar_flags cs t
      else Inl ch)"

definition tar_invalid_option :: "rchar \<Rightarrow> command_result" where
  "tar_invalid_option bad = cr_err (''tar: invalid option -- '' @ [CHR 0x27] @ bad @ [CHR 0x27] @ [CHR 0x0A] @ ''Try '' @ [CHR 0x27]
     @ ''tar --help'' @ [CHR 0x27] @ '' or '' @ [CHR 0x27] @ ''tar --usage'' @ [CHR 0x27] @ '' for more information.'' @ [CHR 0x0A]) 2"

fun tar_args :: "str list \<Rightarrow> tar_opts \<Rightarrow> command_result + tar_opts" where
  "tar_args [] t = Inr t"
| "tar_args (a # as) t =
     (if to_expect_file t then tar_args as (t\<lparr>to_archive := Some a, to_expect_file := False, to_first := False\<rparr>)
      else if starts_with a ''--file='' then tar_args as (t\<lparr>to_archive := Some (drop 7 a), to_first := False\<rparr>)
      else if bundled a then
        (case apply_tar_flags (chars (tl a)) t of
           Inl bad \<Rightarrow> Inl (tar_invalid_option bad)
         | Inr t' \<Rightarrow> tar_args as (t'\<lparr>to_first := False\<rparr>))
      else if to_first t \<and> a \<noteq> [] \<and> list_all (\<lambda>b. b \<in> set ''cxtvzjJpkfm'') a then
        tar_args as ((case apply_tar_flags (chars a) t of Inr t' \<Rightarrow> t' | Inl _ \<Rightarrow> t)\<lparr>to_first := False\<rparr>)
      else tar_args as (t\<lparr>to_members := to_members t @ [a], to_first := False\<rparr>))"

definition tar_fatal :: "str \<Rightarrow> str \<Rightarrow> command_result" where
  "tar_fatal path reason = cr_err (''tar: '' @ path @ '': Cannot open: '' @ reason @ [CHR 0x0A]
     @ ''tar: Error is not recoverable: exiting now'' @ [CHR 0x0A]) 2"

definition tar_add_member :: "world \<Rightarrow> shell \<Rightarrow> str \<Rightarrow> str \<times> tar_build \<Rightarrow> (str \<times> tar_build) option" where
  "tar_add_member w s member st = (case st of (warned, b) \<Rightarrow>
     case resolve (sh_vfs s) (sh_cwd s) member of
       None \<Rightarrow> Some (warned, b\<lparr>tb_errs := tb_errs b @ ''tar: '' @ member @ '': Cannot stat: No such file or directory'' @ [CHR 0x0A],
                 tb_status := 2\<rparr>)
     | Some i \<Rightarrow>
         (case tar_strip_leading (strip_trailing_slashes member) warned (tb_errs b) of (stored, warned', errs) \<Rightarrow>
            map_option (\<lambda>b'. (warned', b'))
              (tar_walk (fsize (sh_vfs s)) w s i (if stored = [] then ''.'' else stored) (b\<lparr>tb_errs := errs\<rparr>))))"

text \<open>The end-of-archive marker and the padding to the blocking factor.\<close>

definition tar_finish :: "byte list \<Rightarrow> byte list" where
  "tar_finish bs =
     (let b1 = bs @ replicate (2 * TAR_BLOCK) (CHR 0x00)
      in b1 @ replicate (next_multiple_of (length b1) TAR_BLOCKING - length b1) (CHR 0x00))"

definition tar_create :: "world \<Rightarrow> bool \<Rightarrow> str \<Rightarrow> str list \<Rightarrow> shell \<Rightarrow> (command_result \<times> shell) option" where
  "tar_create w verbose path members s =
     (if members = [] then
        Some (cr_err (''tar: Cowardly refusing to create an empty archive'' @ [CHR 0x0A] @ ''Try '' @ [CHR 0x27] @ ''tar --help''
          @ [CHR 0x27] @ '' or '' @ [CHR 0x27] @ ''tar --usage'' @ [CHR 0x27] @ '' for more information.'' @ [CHR 0x0A]) 2, s)
      else case resolve_parent s path of
        None \<Rightarrow> Some (cr_err (''tar: '' @ path @ '': Cannot open: Not a directory'' @ [CHR 0x0A]) 2, s)
      | Some (p, nm) \<Rightarrow>
          if \<not> writable_by (n_meta (fnode (sh_vfs s) p)) (sh_uid s) (sh_gid s) then Some (tar_fatal path ''Permission denied'', s)
          else
            Option.bind (fold_opt (tar_add_member w s) members
                ([], \<lparr>tb_bytes = [], tb_log = [], tb_errs = [], tb_status = 0, tb_verbose = verbose, tb_archive = child (sh_vfs s) p nm\<rparr>))
              (\<lambda>(_, b).
                let bytes = tar_finish (tb_bytes b);
                    (i, v) = add_file (w_now w) (sh_vfs s) p nm bytes o644 (sh_uid s) (sh_gid s);
                    s' = s\<lparr>sh_vfs := v\<rparr> in
                Some (if \<not> is_file_of_length (fnode v i) (length bytes) then
                        (cr_streams (tb_log b) (tb_errs b @ ''tar: '' @ path @ '': Cannot write: No space left on device'' @ [CHR 0x0A]
                           @ ''tar: Error is not recoverable: exiting now'' @ [CHR 0x0A]) 2, s')
                      else
                        (cr_streams (tb_log b) (if tb_status b \<noteq> 0 then tb_errs b @ tar_previous_errors else tb_errs b) (tb_status b), s'))))"

definition tar_list_one :: "bool \<Rightarrow> tar_entry \<Rightarrow> str \<times> str \<times> nat \<times> str \<Rightarrow> str \<times> str \<times> nat \<times> str" where
  "tar_list_one verbose e st = (case st of (out, errs, ugswidth, warned) \<Rightarrow>
     case tar_strip_leading (te_name e) warned errs of (_, warned', errs') \<Rightarrow>
       if verbose then (case tar_long_entry e ugswidth of (line, ugs) \<Rightarrow> (out @ line, errs', ugs, warned'))
       else (out @ te_name e @ [CHR 0x0A], errs', ugswidth, warned'))"

definition tar_list :: "bool \<Rightarrow> tar_entry list \<Rightarrow> str list \<Rightarrow> command_result" where
  "tar_list verbose es members =
     (case fold (tar_list_one verbose) (filter (\<lambda>e. tar_selected (te_name e) members) es) ([], [], TAR_UGSWIDTH, []) of
        (out, errs, _, _) \<Rightarrow> cr_streams out errs 0)"

definition not_an_archive :: command_result where
  "not_an_archive = cr_err (''tar: This does not look like a tar archive'' @ [CHR 0x0A] @ tar_previous_errors) 2"

definition tar_read :: "world \<Rightarrow> tar_opts \<Rightarrow> str \<Rightarrow> str list \<Rightarrow> shell \<Rightarrow> command_result \<times> shell" where
  "tar_read w t path members s =
     (case resolve (sh_vfs s) (sh_cwd s) path of
        None \<Rightarrow> (tar_fatal path ''No such file or directory'', s)
      | Some i \<Rightarrow>
          (let n = fnode (sh_vfs s) i in
           if is_dir (n_meta n) then (tar_fatal path ''Is a directory'', s)
           else if \<not> readable_by (n_meta n) (sh_uid s) (sh_gid s) then (tar_fatal path ''Permission denied'', s)
           else case n_kind n of
             File c \<Rightarrow>
               if c = [] then
                 (cr_err (''gzip: stdin: unexpected end of file'' @ [CHR 0x0A] @ ''tar: Child returned status 1'' @ [CHR 0x0A]
                    @ ''tar: Error is not recoverable: exiting now'' @ [CHR 0x0A]) 2, s)
               else (case tar_parse c of
                   None \<Rightarrow> (not_an_archive, s)
                 | Some es \<Rightarrow>
                     if to_list t then (tar_list (to_verbose t) es members, s)
                     else tar_extract w (to_verbose t) c es members s)
           | _ \<Rightarrow> (not_an_archive, s)))"

definition cmd_tar :: "world \<Rightarrow> shell \<Rightarrow> str list \<Rightarrow> (command_result \<times> shell) option" where
  "cmd_tar w s args = (case tar_args args tar_opts_none of
      Inl r \<Rightarrow> Some (r, s)
    | Inr t \<Rightarrow>
        (case (case to_archive t of Some a \<Rightarrow> Some (a, to_members t)
               | None \<Rightarrow> (case to_members t of a # ms \<Rightarrow> Some (a, ms) | [] \<Rightarrow> None)) of
           None \<Rightarrow> Some (cr_err (''tar: refusing to read archive contents from terminal (missing -f option?)'' @ [CHR 0x0A]
                     @ ''tar: Error is not recoverable: exiting now'' @ [CHR 0x0A]) 2, s)
         | Some (path, members) \<Rightarrow>
             if to_create t then tar_create w (to_verbose t) path members s
             else if to_extract t \<or> to_list t then Some (tar_read w t path members s)
             else Some (cr_err (''tar: You must specify one of the '' @ [CHR 0x27] @ ''-Acdtrux'' @ [CHR 0x27] @ '', '' @ [CHR 0x27]
                    @ ''--delete'' @ [CHR 0x27] @ '' or '' @ [CHR 0x27] @ ''--test-label'' @ [CHR 0x27] @ '' options'' @ [CHR 0x0A]
                    @ ''Try '' @ [CHR 0x27] @ ''tar --help'' @ [CHR 0x27] @ '' or '' @ [CHR 0x27] @ ''tar --usage'' @ [CHR 0x27]
                    @ '' for more information.'' @ [CHR 0x0A]) 2, s)))"

end
