(* ===== verification/Vfs_Types.thy ===== *)
theory Vfs_Types
  imports Vfs_Props
begin

text \<open>
  The type bits of a node's mode and the kind of the node agree, in every filesystem the operations
  produce: what \<open>is_dir\<close> and \<open>is_symlink\<close> read off the mode is what the node is.
\<close>

definition type_ok :: "node \<Rightarrow> bool" where
  "type_ok n \<longleftrightarrow> (is_dir (n_meta n) \<longleftrightarrow> (\<exists>ch. n_kind n = Directory ch)) \<and> (is_symlink (n_meta n) \<longleftrightarrow> (\<exists>t. n_kind n = Symlink t))"

definition types_ok :: "vfs \<Rightarrow> bool" where
  "types_ok v \<longleftrightarrow> list_all type_ok (fs_nodes v)"

lemma types_okD: "types_ok v \<Longrightarrow> i < fsize v \<Longrightarrow> type_ok (fnode v i)"
  by (simp add: types_ok_def list_all_length)

section \<open>The type bits\<close>

lemma mode_type_bits: "(x OR (perms AND o7777)) AND S_IFMT = x AND S_IFMT" for x :: u32
  by (simp add: bit.conj_disj_distrib2 S_IFMT_def and.assoc)

lemma type_bits_new [simp]:
  "is_dir (metadata_new now S_IFDIR perms u g)" "\<not> is_symlink (metadata_new now S_IFDIR perms u g)"
  "\<not> is_dir (metadata_new now S_IFREG perms u g)" "\<not> is_symlink (metadata_new now S_IFREG perms u g)"
  "\<not> is_dir (metadata_new now S_IFLNK perms u g)" "is_symlink (metadata_new now S_IFLNK perms u g)"
  by (simp_all add: is_dir_def is_symlink_def metadata_new_def mode_type_bits)
     (simp_all add: S_IFMT_def S_IFDIR_def S_IFREG_def S_IFLNK_def)

lemma type_bits_stamped [simp]: "is_dir (m\<lparr>m_mtime := t\<rparr>) = is_dir m" "is_symlink (m\<lparr>m_mtime := t\<rparr>) = is_symlink m"
  by (simp_all add: is_dir_def is_symlink_def)

lemma type_bits_chmod:
  "is_dir (m\<lparr>m_mode := (m_mode m AND S_IFMT) OR (perms AND o7777)\<rparr>) = is_dir m"
  "is_symlink (m\<lparr>m_mode := (m_mode m AND S_IFMT) OR (perms AND o7777)\<rparr>) = is_symlink m"
  by (simp_all add: is_dir_def is_symlink_def mode_type_bits)

lemma type_ok_link [simp]: "type_ok (link_child nm i n) = type_ok n" "type_ok (unlink_child nm n) = type_ok n"
  by (simp_all add: type_ok_def link_child_def unlink_child_def split: node_kind.split)

lemma type_ok_made:
  "type_ok \<lparr>n_name = nm, n_parent = p, n_kind = Directory ch, n_meta = metadata_new now S_IFDIR perms u g\<rparr>"
  "type_ok \<lparr>n_name = nm, n_parent = p, n_kind = File c, n_meta = metadata_new now S_IFREG perms u g\<rparr>"
  "type_ok \<lparr>n_name = nm, n_parent = p, n_kind = DynamicFile gen, n_meta = metadata_new now S_IFREG perms u g\<rparr>"
  "type_ok \<lparr>n_name = nm, n_parent = p, n_kind = Symlink tgt, n_meta = metadata_new now S_IFLNK perms u g\<rparr>"
  "type_ok (n\<lparr>n_kind := File c, n_meta := metadata_new now S_IFREG perms u g\<rparr>)"
  "type_ok (n\<lparr>n_kind := DynamicFile gen, n_meta := metadata_new now S_IFREG perms u g\<rparr>)"
  by (simp_all add: type_ok_def)

section \<open>Every operation\<close>

lemma types_ok_upd: "types_ok v \<Longrightarrow> (i < fsize v \<Longrightarrow> type_ok (f (fnode v i))) \<Longrightarrow> types_ok (upd_node v i f)"
  by (cases "i < fsize v") (auto simp: types_ok_def upd_node_def list_all_length nth_list_update)

lemma types_ok_cb [simp]: "types_ok (v\<lparr>content_bytes := cb\<rparr>) = types_ok v"
  by (simp add: types_ok_def)

lemma types_ok_links [simp]: "types_ok v \<Longrightarrow> types_ok (upd_node v i (link_child nm c))" "types_ok v \<Longrightarrow> types_ok (upd_node v i (unlink_child nm))"
  by (simp_all add: types_ok_upd types_okD)

lemma types_ok_insert:
  assumes "types_ok v" "type_ok \<lparr>n_name = nm, n_parent = Some p, n_kind = k, n_meta = m\<rparr>"
  shows "types_ok (snd (vfs_insert v p nm k m))"
proof -
  have "types_ok (v\<lparr>fs_nodes := fs_nodes v @ [\<lparr>n_name = nm, n_parent = Some p, n_kind = k, n_meta = m\<rparr>]\<rparr>)"
    using assms by (simp add: types_ok_def)
  then show ?thesis using assms(1) by (simp add: vfs_insert_def Let_def)
qed

lemma types_ok_mkdir: "types_ok v \<Longrightarrow> types_ok (snd (mkdir now v p nm perms u g))"
  by (simp add: mkdir_def types_ok_insert type_ok_made split: option.split)

lemma types_ok_add_symlink: "types_ok v \<Longrightarrow> types_ok (snd (add_symlink now v p nm t))"
  by (simp add: add_symlink_def types_ok_insert type_ok_made split: option.split)

lemma types_ok_add_dynamic_file: "types_ok v \<Longrightarrow> types_ok (snd (add_dynamic_file now v p nm gen perms u g))"
  by (simp add: add_dynamic_file_def Let_def types_ok_insert types_ok_upd type_ok_made split: option.split)

lemma types_ok_add_file:
  assumes "types_ok v"
  shows "types_ok (snd (add_file now v p nm c perms u g))"
proof -
  have "types_ok w" if "vfs_insert v p nm (File c) (metadata_new now S_IFREG perms u g) = (i, w)" for i w
    using types_ok_insert [where v = v and nm = nm and p = p and k = "File c" and m = "metadata_new now S_IFREG perms u g"] assms type_ok_made(2) that by simp
  then show ?thesis using assms
    by (auto simp: add_file_def Let_def types_ok_upd type_ok_made split: option.split prod.split)
qed

lemma types_ok_meta: "types_ok v \<Longrightarrow> (\<And>n. type_ok n \<Longrightarrow> type_ok (f n)) \<Longrightarrow> types_ok (upd_node v i f)"
  by (simp add: types_ok_upd types_okD)

lemma types_ok_set_mtime: "types_ok v \<Longrightarrow> types_ok (set_mtime v i t)"
  unfolding set_mtime_def by (rule types_ok_meta) (simp_all add: type_ok_def)

lemma types_ok_chmod: "types_ok v \<Longrightarrow> types_ok (chmod v i perms)"
  unfolding chmod_def by (rule types_ok_meta) (simp_all add: type_ok_def type_bits_chmod)

lemma types_ok_chown: "types_ok v \<Longrightarrow> types_ok (chown v i u g)"
  unfolding chown_def by (rule types_ok_meta) (simp_all add: type_ok_def is_dir_def is_symlink_def)

lemma types_ok_set_all_mtimes: "types_ok v \<Longrightarrow> types_ok (set_all_mtimes v ts)"
  by (simp add: types_ok_def set_all_mtimes_def list_all_iff type_ok_def)

lemma types_ok_write_file: "types_ok v \<Longrightarrow> types_ok (snd (write_file now v i bs app))"
  by (auto simp: write_file_def Let_def type_ok_def intro!: types_ok_upd dest: types_okD [unfolded type_ok_def] split: node_kind.split)

lemma types_ok_touch: "types_ok v \<Longrightarrow> types_ok (snd (touch now v p nm u g))"
  using types_ok_add_file [of v now p nm "[]" o644 u g]
  by (cases "add_file now v p nm [] o644 u g") (simp add: touch_def types_ok_set_mtime split: option.split)

lemma types_ok_mkdir_p: "types_ok v \<Longrightarrow> types_ok (snd (mkdir_p now v path perms u g))"
proof -
  have "types_ok v \<Longrightarrow> types_ok (snd (mkdir_p_loop now v i segs perms u g))" for i segs
  proof (induction segs arbitrary: v i)
    case (Cons seg segs)
    then show ?case using types_ok_mkdir [OF Cons.prems, of now i seg perms u g]
      by (cases "mkdir now v i seg perms u g") simp
  qed simp
  then show "types_ok v \<Longrightarrow> types_ok (snd (mkdir_p now v path perms u g))" by (simp add: mkdir_p_def)
qed

lemma types_ok_relink: "types_ok v \<Longrightarrow> types_ok (relink v i p nm)"
proof -
  have moved: "types_ok w \<Longrightarrow> types_ok (upd_node w i (\<lambda>n. n\<lparr>n_name := nm, n_parent := Some p\<rparr>))" for w
    by (rule types_ok_meta) (simp_all add: type_ok_def)
  show "types_ok v \<Longrightarrow> types_ok (relink v i p nm)" by (simp add: relink_def Let_def moved split: option.split)
qed

lemma types_ok_rename: "types_ok v \<Longrightarrow> rename v i p nm = Some (b, w) \<Longrightarrow> types_ok w"
  by (auto simp: rename_def types_ok_relink split: node_kind.splits if_splits option.splits)

lemma types_ok_deep_copy:
  "wf_vfs v \<Longrightarrow> types_ok v \<Longrightarrow> src < fsize v \<Longrightarrow> dst < fsize v \<Longrightarrow> types_ok (snd (deep_copy_inner now v src dst nm depth))"
proof (induction "Suc MAX_COPY_DEPTH - depth" arbitrary: v src dst nm depth rule: less_induct)
  case less
  note wf = less.prems(1) and ty = less.prems(2)
  let ?m = "(n_meta (fnode v src))\<lparr>m_mtime := now\<rparr>"
  show ?case
  proof (cases "depth > MAX_COPY_DEPTH")
    case True
    then show ?thesis using ty by (subst deep_copy_inner.simps) simp
  next
    case False
    show ?thesis
    proof (cases "n_kind (fnode v src)")
      case (Directory ch)
      obtain d w where mk: "mkdir now v dst nm (m_mode ?m AND o7777) (m_uid ?m) (m_gid ?m) = (d, w)" by fastforce
      note good = good_mkdir [OF wf less.prems(4), of now nm "m_mode ?m AND o7777" "m_uid ?m" "m_gid ?m", unfolded mk]
      have w: "wf_vfs w" "d < fsize w" "fsize v \<le> fsize w" "types_ok w"
        using good types_ok_mkdir [OF ty, of now dst nm "m_mode ?m AND o7777" "m_uid ?m" "m_gid ?m"] mk by (auto simp: good_result_def)
      define es where "es = (case entries w src of Some es \<Rightarrow> es | None \<Rightarrow> [])"
      have es: "\<And>e. e \<in> set es \<Longrightarrow> snd e < fsize w"
        using entries_range [OF w(1) less_le_trans [OF less.prems(3) w(3)]] by (cases "entries w src") (auto simp: es_def)
      define f where "f = (\<lambda>(n, c) x. snd (deep_copy_inner now x c d n (depth + 1)))"
      have "(wf_vfs (fold f es w) \<and> fsize w \<le> fsize (fold f es w)) \<and> types_ok (fold f es w)"
      proof (rule fold_invariant [where Q = "\<lambda>e. snd e < fsize w"])
        fix e :: "str \<times> node_id" and x
        assume e: "snd e < fsize w" and x: "(wf_vfs x \<and> fsize w \<le> fsize x) \<and> types_ok x"
        have "good_result x (deep_copy_inner now x (snd e) d (fst e) (depth + 1))"
          using good_deep_copy_inner x e w(2) by simp
        moreover have "types_ok (snd (deep_copy_inner now x (snd e) d (fst e) (depth + 1)))"
          using less.hyps [of "depth + 1" x "snd e" d "fst e"] False x e w(2) by simp
        ultimately show "(wf_vfs (f e x) \<and> fsize w \<le> fsize (f e x)) \<and> types_ok (f e x)"
          using x by (auto simp: f_def good_result_def case_prod_beta)
      qed (use es w in auto)
      then show ?thesis using False Directory mk es_def f_def by (subst deep_copy_inner.simps) (simp add: Let_def)
    next
      case (File c)
      then show ?thesis using ty False by (subst deep_copy_inner.simps) (simp add: Let_def types_ok_add_file)
    next
      case (Symlink t)
      have "type_ok \<lparr>n_name = nm, n_parent = Some dst, n_kind = Symlink t, n_meta = ?m\<rparr>"
        using types_okD [OF ty less.prems(3)] Symlink by (simp add: type_ok_def)
      then show ?thesis using Symlink ty False by (subst deep_copy_inner.simps) (simp add: Let_def types_ok_insert unlink_def)
    next
      case (DynamicFile gen)
      then show ?thesis using ty False by (subst deep_copy_inner.simps) (simp add: Let_def types_ok_add_dynamic_file)
    qed
  qed
qed

lemma types_ok_step: "vfs_step v w \<Longrightarrow> wf_vfs v \<Longrightarrow> types_ok v \<Longrightarrow> types_ok w"
  by (induction rule: vfs_step.induct)
    (simp_all add: types_ok_mkdir types_ok_add_file types_ok_add_dynamic_file types_ok_write_file types_ok_add_symlink
      types_ok_mkdir_p types_ok_touch types_ok_set_all_mtimes types_ok_chmod types_ok_chown types_ok_set_mtime unlink_def
      types_ok_rename types_ok_deep_copy deep_copy_def)

lemma vfs_states_types: "vfs_states v \<Longrightarrow> types_ok v"
proof (induction rule: vfs_states.induct)
  case (vfs_start now)
  then show ?case by (simp add: types_ok_def vfs_new_def type_ok_def)
next
  case (vfs_next v w)
  then show ?case using types_ok_step vfs_states_wf by blast
qed

text \<open>C38: The mode of a node tells its kind. In every filesystem that calls of the operations lead to, the type bits
  of each node's mode say directory exactly when the node is a directory and symbolic link exactly
  when it is one, so the checks of the commands, which look at the mode, test what the node is.\<close>

theorem vfs_types_agree:
  assumes "vfs_states v"
  shows "list_all (\<lambda>n. (is_dir (n_meta n) \<longleftrightarrow> (\<exists>ch. n_kind n = Directory ch)) \<and> (is_symlink (n_meta n) \<longleftrightarrow> (\<exists>t. n_kind n = Symlink t))) (fs_nodes v)"
  using vfs_states_types [OF assms] by (simp add: types_ok_def type_ok_def [abs_def])

theorem vfs_types_agree_witness:
  "vfs_states fx4 \<and> list_all (\<lambda>n. (is_dir (n_meta n) \<longleftrightarrow> (\<exists>ch. n_kind n = Directory ch)) \<and> (is_symlink (n_meta n) \<longleftrightarrow> (\<exists>t. n_kind n = Symlink t))) (fs_nodes fx4)"
  using vfs_types_agree [OF fx_states] fx_states by blast

end
