(* ===== verification/Vfs_Descend.thy ===== *)
theory Vfs_Descend
  imports Vfs_Types Fs_Commands
begin

text \<open>
  Commands that descend a directory and change the attributes of every node below it. The locale
  \<open>tree_walk\<close> states what such a descent is, and proves that with as much fuel as the arena has nodes
  it returns, and that it changes exactly the nodes of the subtree.
\<close>

definition subtree :: "vfs \<Rightarrow> node_id \<Rightarrow> node_id set" where
  "subtree v i = {x. \<exists>k. desc v i x k}"

definition edited :: "(node \<Rightarrow> node) \<Rightarrow> node_id set \<Rightarrow> vfs \<Rightarrow> vfs \<Rightarrow> bool" where
  "edited g S v v' \<longleftrightarrow> fs_root v' = fs_root v \<and> content_bytes v' = content_bytes v \<and> fsize v' = fsize v
     \<and> (\<forall>x < fsize v. fnode v' x = (if x \<in> S then g (fnode v x) else fnode v x))"

definition same_links :: "vfs \<Rightarrow> vfs \<Rightarrow> bool" where
  "same_links v v' \<longleftrightarrow> fs_root v' = fs_root v \<and> content_bytes v' = content_bytes v \<and> fsize v' = fsize v
     \<and> (\<forall>x < fsize v. n_parent (fnode v' x) = n_parent (fnode v x) \<and> n_kind (fnode v' x) = n_kind (fnode v x)
          \<and> n_name (fnode v' x) = n_name (fnode v x))"

section \<open>The same links\<close>

lemma same_links_has_child: "same_links v v' \<Longrightarrow> has_child v' = has_child v"
  by (intro ext) (auto simp: has_child_def same_links_def split: node_kind.splits)

lemma same_links_sym: "same_links v v' \<Longrightarrow> same_links v' v"
  by (simp add: same_links_def)

lemma same_links_at_depth1: "at_depth v x k \<Longrightarrow> same_links v v' \<Longrightarrow> at_depth v' x k"
  by (induction rule: at_depth.induct) (auto simp: same_links_def intro: at_depth.intros)

lemma same_links_at_depth: "same_links v v' \<Longrightarrow> at_depth v' x k = at_depth v x k"
  using same_links_at_depth1 same_links_sym by blast

lemma same_links_reachable1: "reachable v x \<Longrightarrow> same_links v v' \<Longrightarrow> reachable v' x"
proof (induction rule: reachable.induct)
  case reach_root
  then show ?case using reachable.reach_root [of v'] by (simp add: same_links_def)
next
  case (reach_child d nm c)
  then show ?case by (metis reachable.reach_child same_links_has_child)
qed

lemma same_links_desc: "same_links v v' \<Longrightarrow> desc v' i x k = desc v i x k"
proof -
  have "desc a i x k \<Longrightarrow> same_links a b \<Longrightarrow> desc b i x k" for a b
    by (induction rule: desc.induct) (auto intro: desc.intros simp: same_links_has_child)
  then show "same_links v v' \<Longrightarrow> desc v' i x k = desc v i x k" using same_links_sym by blast
qed

lemma same_links_subtree: "same_links v v' \<Longrightarrow> subtree v' i = subtree v i"
  by (simp add: subtree_def same_links_desc)

lemma same_links_entries: "same_links v v' \<Longrightarrow> i < fsize v \<Longrightarrow> entries v' i = entries v i"
  by (simp add: same_links_def entries_def)

lemma same_links_stored: "same_links v v' \<Longrightarrow> stored_bytes v' = stored_bytes v"
proof -
  assume a: "same_links v v'"
  have "map file_len (fs_nodes v') = map file_len (fs_nodes v)"
    using a by (intro nth_equalityI) (simp_all add: same_links_def file_len_def)
  then show ?thesis by (simp add: stored_bytes_def)
qed

lemma same_links_tree:
  assumes "same_links v v'" "wf_tree v"
  shows "wf_tree v'"
proof -
  have l: "fs_root v' = fs_root v" "fsize v' = fsize v"
      "\<And>x. x < fsize v \<Longrightarrow> n_parent (fnode v' x) = n_parent (fnode v x) \<and> n_kind (fnode v' x) = n_kind (fnode v x) \<and> n_name (fnode v' x) = n_name (fnode v x)"
    using assms(1) by (simp_all add: same_links_def)
  note t = wf_treeD [OF assms(2)]
  show ?thesis
  proof (rule wf_treeI)
    show "c < fsize v' \<and> n_parent (fnode v' c) = Some d \<and> n_name (fnode v' c) = nm" if "has_child v' d nm c" for d nm c
      using that t(7,8,9) [of d nm c] l by (simp add: same_links_has_child [OF assms(1)])
  qed (use t(1-6) l in \<open>auto simp: same_links_at_depth [OF assms(1)]\<close>)
qed

lemma same_links_wf:
  assumes "same_links v v'" "wf_vfs v"
  shows "wf_vfs v'"
proof
  show "wf_tree v'" using same_links_tree [OF assms(1)] assms(2) by blast
  show "wf_caps v'" using wf_vfsD(2) [OF assms(2)] same_links_reachable1 [OF _ same_links_sym [OF assms(1)]] assms(1)
    by (auto simp: wf_caps_def same_links_def same_links_at_depth [OF assms(1)] same_links_stored [OF assms(1)])
qed

section \<open>Subtrees\<close>

lemma subtree_self: "i \<in> subtree v i"
  by (auto simp: subtree_def intro: desc.intros)

lemma subtree_unfold: "subtree v i = insert i (\<Union>c \<in> {c. \<exists>nm. has_child v i nm c}. subtree v c)"
proof -
  have "desc v i x k \<Longrightarrow> x = i \<or> (\<exists>nm c j. has_child v i nm c \<and> desc v c x j)" for x k
    by (cases rule: desc.cases) auto
  then show ?thesis by (auto simp: subtree_def intro: desc.intros)
qed

lemma desc_depth: "desc v i x k \<Longrightarrow> wf_tree v \<Longrightarrow> at_depth v i d \<Longrightarrow> at_depth v x (d + k) \<and> anc v i x"
proof (induction arbitrary: d rule: desc.induct)
  case (desc_refl i)
  then show ?case by (auto intro: anc.intros)
next
  case (desc_step i nm c x k)
  have p: "n_parent (fnode v c) = Some i" "c < fsize v" using wf_treeD(7,8) [OF desc_step.prems(1)] desc_step.hyps(1) by blast+
  have "at_depth v c (Suc d)" using p desc_step.prems(2) by (auto intro: at_depth.intros)
  then have c: "at_depth v x (Suc d + k)" "anc v c x" using desc_step.IH desc_step.prems(1) by blast+
  have "anc v i x" using c(2) by (induction rule: anc.induct) (auto intro: anc.intros p(1))
  then show ?case using c by simp
qed

lemma anc_same_depth: "anc v a x \<Longrightarrow> anc v b x \<Longrightarrow> at_depth v a k \<Longrightarrow> at_depth v b k \<Longrightarrow> a = b"
proof (induction rule: anc.induct)
  case anc_refl
  have up: "anc v b y \<Longrightarrow> at_depth v y j \<Longrightarrow> at_depth v b k \<Longrightarrow> k \<le> j \<and> (k = j \<longrightarrow> b = y)" for y j
  proof (induction arbitrary: j rule: anc.induct)
    case anc_refl
    then show ?case using at_depth_unique by blast
  next
    case (anc_step y p)
    then obtain j' where "j = Suc j'" "at_depth v p j'" by (auto elim: at_depth.cases)
    then show ?case using anc_step by fastforce
  qed
  show ?case using up [OF anc_refl.prems(1,2,3)] by simp
next
  case (anc_step x p)
  show ?case
  proof (cases "x = b")
    case True
    have "\<exists>j. at_depth v p j \<and> k = Suc j" using anc_step.hyps(1) anc_step.prems(3) True by (auto elim: at_depth.cases)
    moreover have "anc v a p \<Longrightarrow> at_depth v p j \<Longrightarrow> at_depth v a k \<Longrightarrow> k \<le> j" for j
    proof (induction arbitrary: j rule: anc.induct)
      case anc_refl
      then show ?case using at_depth_unique by blast
    next
      case (anc_step y q)
      then obtain j' where "j = Suc j'" "at_depth v q j'" by (auto elim: at_depth.cases)
      then show ?case using anc_step by fastforce
    qed
    ultimately show ?thesis using anc_step.hyps(2) anc_step.prems(2) by fastforce
  next
    case False
    then show ?thesis using anc_parent [OF anc_step.prems(1)] anc_step by blast
  qed
qed

lemma sibling_subtrees:
  assumes "wf_tree v" "at_depth v a k" "at_depth v b k" "a \<noteq> b"
  shows "subtree v a \<inter> subtree v b = {}"
  using assms desc_depth anc_same_depth by (auto simp: subtree_def) blast

section \<open>Edits\<close>

lemma edited_nothing: "edited g {} v v"
  by (simp add: edited_def)

lemma edited_upd: "i < fsize v \<Longrightarrow> edited g {i} v (upd_node v i g)"
  by (simp add: edited_def upd_node_def nth_list_update)

lemma edited_trans: "edited g S v v1 \<Longrightarrow> edited g T v1 v2 \<Longrightarrow> S \<inter> T = {} \<Longrightarrow> edited g (S \<union> T) v v2"
  by (auto simp: edited_def)

definition dir_list :: "vfs \<Rightarrow> node_id \<Rightarrow> (str \<times> node_id) list" where
  "dir_list v i = (case entries v i of Some es \<Rightarrow> es | None \<Rightarrow> [])"

lemma dir_list_child: "i < fsize v \<Longrightarrow> (nm, c) \<in> set (dir_list v i) \<longleftrightarrow> has_child v i nm c"
  by (simp add: dir_list_def has_child_def entries_def split: node_kind.split)

lemma dir_list_depth:
  assumes "wf_tree v" "at_depth v i k" "e \<in> set (dir_list v i)"
  shows "at_depth v (snd e) (Suc k)"
proof -
  have "has_child v i (fst e) (snd e)" using assms(3) dir_list_child [OF at_depth_range [OF assms(2)], of "fst e" "snd e"] by simp
  then show ?thesis using wf_treeD(7,8) [OF assms(1)] assms(2) by (auto intro: at_depth.intros)
qed

lemma dir_list_distinct:
  assumes "wf_tree v" "i < fsize v"
  shows "distinct (map snd (dir_list v i))"
proof -
  let ?es = "dir_list v i"
  have d: "distinct (map fst ?es)" using wf_treeD(6) [OF assms]
    by (auto simp: dir_list_def entries_def bt_ok_def strict_sorted_iff split: node_kind.split)
  have "fst x = fst y" if "x \<in> set ?es" "y \<in> set ?es" "snd x = snd y" for x y
  proof -
    have "has_child v i (fst x) (snd x)" "has_child v i (fst y) (snd x)" using that dir_list_child [OF assms(2)] by (metis prod.collapse)+
    then show ?thesis using wf_treeD(9) [OF assms(1)] by metis
  qed
  then have "inj_on snd (set ?es)" by (intro inj_onI prod_eqI)
  then show ?thesis using d by (simp add: distinct_map)
qed

lemma subtree_children:
  assumes "wf_tree v" "at_depth v i k"
  shows "subtree v i = insert i (\<Union>c \<in> set (map snd (dir_list v i)). subtree v c)"
    and "c \<in> set (map snd (dir_list v i)) \<Longrightarrow> i \<notin> subtree v c"
    and "c \<in> set (map snd (dir_list v i)) \<Longrightarrow> d \<in> set (map snd (dir_list v i)) \<Longrightarrow> c \<noteq> d \<Longrightarrow> subtree v c \<inter> subtree v d = {}"
    and "finite (subtree v i)"
proof -
  have depth: "at_depth v c (Suc k)" if "c \<in> set (map snd (dir_list v i))" for c
    using dir_list_depth [OF assms] that by auto
  have "{c. \<exists>nm. has_child v i nm c} = set (map snd (dir_list v i))"
    using dir_list_child [OF at_depth_range [OF assms(2)]] by force
  then show "subtree v i = insert i (\<Union>c \<in> set (map snd (dir_list v i)). subtree v c)" by (subst subtree_unfold) simp
  show "i \<notin> subtree v c" if "c \<in> set (map snd (dir_list v i))"
    using desc_depth [OF _ assms(1) depth [OF that]] at_depth_unique [OF assms(2)] by (fastforce simp: subtree_def)
  show "subtree v c \<inter> subtree v d = {}" if "c \<in> set (map snd (dir_list v i))" "d \<in> set (map snd (dir_list v i))" "c \<noteq> d"
    using sibling_subtrees [OF assms(1) depth [OF that(1)] depth [OF that(2)] that(3)] .
  have "subtree v i \<subseteq> {..<fsize v}"
    using desc_depth [OF _ assms] at_depth_range by (fastforce simp: subtree_def)
  then show "finite (subtree v i)" by (rule finite_subset) simp
qed

lemma same_links_trans: "same_links v v1 \<Longrightarrow> same_links v1 v2 \<Longrightarrow> same_links v v2"
  by (simp add: same_links_def)

text \<open>A descent that goes from a node to some of its children: it returns and keeps all links.\<close>

locale descent =
  fixes visit :: "node \<Rightarrow> node" and walk_node :: "nat \<Rightarrow> node_id \<Rightarrow> vfs \<Rightarrow> vfs option" and kids :: "vfs \<Rightarrow> node_id \<Rightarrow> (str \<times> node_id) list"
  assumes visit_links [simp]: "n_parent (visit n) = n_parent n" "n_kind (visit n) = n_kind n" "n_name (visit n) = n_name n"
    and kids_sub: "set (kids v i) \<subseteq> set (dir_list v i)"
    and walk_Suc: "i < fsize v \<Longrightarrow> walk_node (Suc m) i v = fold_opt (\<lambda>e. walk_node m (snd e)) (kids v i) (upd_node v i visit)"
begin

lemma links_visited: "i < fsize v \<Longrightarrow> same_links v (upd_node v i visit)"
  by (simp add: same_links_def upd_node_def nth_list_update)

lemma kids_depth:
  assumes "wf_tree v" "at_depth v i k" "c \<in> snd ` set (kids v i)"
  shows "at_depth v c (Suc k)"
proof -
  obtain nm where "(nm, c) \<in> set (dir_list v i)" using assms(3) kids_sub [of v i] by auto
  then have "has_child v i nm c" using dir_list_child [OF at_depth_range [OF assms(2)]] by blast
  then show ?thesis using wf_treeD(7,8) [OF assms(1)] assms(2) by (auto intro: at_depth.intros)
qed

lemma fold_links:
  assumes "wf_tree v" "\<And>c. c \<in> snd ` set es \<Longrightarrow> at_depth v c k"
    and one: "\<And>c v1. wf_tree v1 \<Longrightarrow> at_depth v1 c k \<Longrightarrow> fsize v1 = fsize v \<Longrightarrow> \<exists>v2. walk_node n c v1 = Some v2 \<and> same_links v1 v2"
  shows "\<exists>v'. fold_opt (\<lambda>e. walk_node n (snd e)) es v = Some v' \<and> same_links v v'"
  using assms
proof (induction es arbitrary: v)
  case Nil
  then show ?case by (simp add: same_links_def)
next
  case (Cons e es)
  obtain v1 where v1: "walk_node n (snd e) v = Some v1" "same_links v v1"
    using Cons.prems(3) [of v "snd e"] Cons.prems(1,2) by auto
  have w: "wf_tree v1" "fsize v1 = fsize v" using v1(2) same_links_tree Cons.prems(1) by (auto simp: same_links_def)
  have "\<exists>v'. fold_opt (\<lambda>e. walk_node n (snd e)) es v1 = Some v' \<and> same_links v1 v'"
    using Cons.prems(2,3) w same_links_at_depth [OF v1(2)] by (intro Cons.IH) auto
  then show ?case using v1 same_links_trans by auto
qed

lemma walk_returns:
  "wf_tree v \<Longrightarrow> at_depth v i k \<Longrightarrow> fsize v \<le> n + k \<Longrightarrow> \<exists>v'. walk_node n i v = Some v' \<and> same_links v v'"
proof (induction n arbitrary: i k v)
  case 0
  then show ?case using at_depth_less [OF 0(2)] by simp
next
  case (Suc n)
  have i: "i < fsize v" using at_depth_range [OF Suc.prems(2)] .
  note l = links_visited [OF i]
  have "\<exists>v'. fold_opt (\<lambda>e. walk_node n (snd e)) (kids v i) (upd_node v i visit) = Some v' \<and> same_links (upd_node v i visit) v'"
  proof (rule fold_links [OF same_links_tree [OF l Suc.prems(1)]])
    show "at_depth (upd_node v i visit) c (Suc k)" if "c \<in> snd ` set (kids v i)" for c
      using kids_depth [OF Suc.prems(1,2) that] same_links_at_depth [OF l] by simp
    show "\<exists>v2. walk_node n c x = Some v2 \<and> same_links x v2"
      if "wf_tree x" "at_depth x c (Suc k)" "fsize x = fsize (upd_node v i visit)" for c x
      using Suc.IH [OF that(1,2)] that(3) Suc.prems(3) by simp
  qed
  then show ?case using walk_Suc [OF i, of n] same_links_trans [OF l] by auto
qed

end

text \<open>A descent to all children.\<close>

locale tree_walk = descent +
  assumes visit_type [simp]: "type_ok (visit n) = type_ok n"
    and kids_all: "types_ok v \<Longrightarrow> i < fsize v \<Longrightarrow> kids v i = dir_list v i"
begin

lemma edited_links: "edited visit S v v' \<Longrightarrow> same_links v v'"
  by (auto simp: edited_def same_links_def)

lemma edited_types: "edited visit S v v' \<Longrightarrow> types_ok v \<Longrightarrow> types_ok v'"
  by (auto simp: edited_def types_ok_def list_all_length)

lemma walk_children:
  assumes "wf_tree v" "types_ok v" "\<And>c. c \<in> snd ` set es \<Longrightarrow> at_depth v c k" "distinct (map snd es)"
    and one: "\<And>c v1. c \<in> snd ` set es \<Longrightarrow> wf_tree v1 \<Longrightarrow> types_ok v1 \<Longrightarrow> at_depth v1 c k \<Longrightarrow> fsize v1 = fsize v \<Longrightarrow>
      \<exists>v2. walk_node n c v1 = Some v2 \<and> edited visit (subtree v1 c) v1 v2"
  shows "\<exists>v'. fold_opt (\<lambda>e. walk_node n (snd e)) es v = Some v' \<and> edited visit (\<Union>c \<in> snd ` set es. subtree v c) v v'"
  using assms
proof (induction es arbitrary: v)
  case Nil
  then show ?case by (simp add: edited_nothing)
next
  case (Cons e es)
  have depth: "at_depth v c k" if "c \<in> snd ` set (e # es)" for c using Cons.prems(3) that .
  obtain v1 where v1: "walk_node n (snd e) v = Some v1" "edited visit (subtree v (snd e)) v v1"
    using Cons.prems(5) [of "snd e" v] Cons.prems(1,2) depth by auto
  note l = edited_links [OF v1(2)]
  have w: "wf_tree v1" "types_ok v1" "fsize v1 = fsize v" using l same_links_tree Cons.prems(1,2) edited_types [OF v1(2)]
    by (auto simp: same_links_def)
  have "\<exists>v'. fold_opt (\<lambda>e. walk_node n (snd e)) es v1 = Some v' \<and> edited visit (\<Union>c \<in> snd ` set es. subtree v1 c) v1 v'"
  proof (rule Cons.IH [OF w(1,2)])
    show "at_depth v1 c k" if "c \<in> snd ` set es" for c using depth [of c] that same_links_at_depth [OF l] by simp
    show "distinct (map snd es)" using Cons.prems(4) by simp
    show "\<exists>v2. walk_node n c x = Some v2 \<and> edited visit (subtree x c) x v2"
      if "c \<in> snd ` set es" "wf_tree x" "types_ok x" "at_depth x c k" "fsize x = fsize v1" for c x
      using Cons.prems(5) [of c x] that w(3) by simp
  qed
  then obtain v' where v': "fold_opt (\<lambda>e. walk_node n (snd e)) es v1 = Some v'" "edited visit (\<Union>c \<in> snd ` set es. subtree v c) v1 v'"
    by (auto simp: same_links_subtree [OF l])
  have "subtree v (snd e) \<inter> subtree v c = {}" if "c \<in> snd ` set es" for c
    using sibling_subtrees [OF Cons.prems(1) depth [of "snd e"] depth [of c]] that Cons.prems(4) by auto
  then have "subtree v (snd e) \<inter> (\<Union>c \<in> snd ` set es. subtree v c) = {}" by blast
  then show ?case using v1 v' edited_trans [OF v1(2) v'(2)] by simp
qed

lemma walk_exact:
  "wf_tree v \<Longrightarrow> types_ok v \<Longrightarrow> at_depth v i k \<Longrightarrow> fsize v \<le> n + k \<Longrightarrow>
   \<exists>v'. walk_node n i v = Some v' \<and> edited visit (subtree v i) v v'"
proof (induction n arbitrary: i k v)
  case 0
  then show ?case using at_depth_less [OF 0(3)] by simp
next
  case (Suc n)
  have i: "i < fsize v" using at_depth_range [OF Suc.prems(3)] .
  let ?v1 = "upd_node v i visit"
  have e: "edited visit {i} v ?v1" using edited_upd [OF i] .
  note l = edited_links [OF e]
  define es where "es = dir_list v i"
  have es: "has_child v i nm c \<longleftrightarrow> (nm, c) \<in> set es" for nm c
    using dir_list_child [OF i] by (simp add: es_def)
  have kids: "at_depth v c (Suc k)" if "c \<in> snd ` set es" for c
    using kids_depth [OF Suc.prems(1,3)] that by (simp add: es_def kids_all [OF Suc.prems(2) i])
  have inj: "distinct (map snd es)" using dir_list_distinct [OF Suc.prems(1) i] by (simp add: es_def)
  have w: "wf_tree ?v1" "types_ok ?v1" "fsize ?v1 = fsize v"
    using same_links_tree [OF l Suc.prems(1)] edited_types [OF e Suc.prems(2)] by simp_all
  have "\<exists>v'. fold_opt (\<lambda>e. walk_node n (snd e)) es ?v1 = Some v' \<and> edited visit (\<Union>c \<in> snd ` set es. subtree ?v1 c) ?v1 v'"
  proof (rule walk_children [OF w(1,2) _ inj])
    show "at_depth ?v1 c (Suc k)" if "c \<in> snd ` set es" for c using kids [OF that] same_links_at_depth [OF l] by simp
    show "\<exists>v2. walk_node n c x = Some v2 \<and> edited visit (subtree x c) x v2"
      if "c \<in> snd ` set es" "wf_tree x" "types_ok x" "at_depth x c (Suc k)" "fsize x = fsize ?v1" for c x
      using Suc.IH [OF that(2-4)] that(5) Suc.prems(4) by simp
  qed
  then obtain v' where v': "fold_opt (\<lambda>e. walk_node n (snd e)) es ?v1 = Some v'" "edited visit (\<Union>c \<in> snd ` set es. subtree v c) ?v1 v'"
    by (auto simp: same_links_subtree [OF l])
  have "i \<notin> subtree v c" if "c \<in> snd ` set es" for c
    using desc_depth [OF _ Suc.prems(1) kids [OF that]] at_depth_unique [OF Suc.prems(3)] by (fastforce simp: subtree_def)
  then have "edited visit ({i} \<union> (\<Union>c \<in> snd ` set es. subtree v c)) v v'" by (intro edited_trans [OF e v'(2)]) auto
  moreover have "subtree v i = {i} \<union> (\<Union>c \<in> snd ` set es. subtree v c)"
    by (subst subtree_unfold) (auto simp: es image_iff)
  ultimately show ?case using v'(1) walk_Suc [OF i, of n] by (simp add: es_def kids_all [OF Suc.prems(2) i])
qed

end

section \<open>chmod and chown\<close>

text \<open>Whether a mode can be read does not depend on the permissions it is applied to, and what it does to
  them is to clear some bits and set others.\<close>

lemma fold_opt_affine:
  fixes f :: "'a \<Rightarrow> u32 \<Rightarrow> u32 option"
  assumes "\<And>x m r. f x m = Some r \<Longrightarrow> \<exists>a b. \<forall>m. f x m = Some ((m AND a) OR b)"
  shows "fold_opt f xs m = Some r \<Longrightarrow> \<exists>a b. \<forall>m. fold_opt f xs m = Some ((m AND a) OR b)"
proof (induction xs arbitrary: m r)
  case Nil
  show ?case by (intro exI [of _ "- 1"] exI [of _ 0]) simp
next
  case (Cons x xs)
  then obtain m1 where m1: "f x m = Some m1" "fold_opt f xs m1 = Some r" by (auto simp: bind_eq_Some_conv)
  obtain a b where one: "\<forall>m. f x m = Some ((m AND a) OR b)" using assms [OF m1(1)] by blast
  obtain c d where rest: "\<forall>m. fold_opt f xs m = Some ((m AND c) OR d)" using Cons.IH [OF m1(2)] by blast
  have "(((m AND a) OR b) AND c) OR d = (m AND (a AND c)) OR ((b AND c) OR d)" for m
    by (simp add: bit.conj_disj_distrib2 and.assoc or.assoc)
  then show ?case using one rest by (intro exI [of _ "a AND c"] exI [of _ "(b AND c) OR d"]) simp
qed

lemma apply_clause_affine: "apply_clause cl m = Some r \<Longrightarrow> \<exists>a b. \<forall>m. apply_clause cl m = Some ((m AND a) OR b)"
proof -
  assume "apply_clause cl m = Some r"
  then obtain opr perms mask bits where d: "dropWhile (\<lambda>b. b \<notin> set ''+-='') cl = opr # perms"
      "who_mask (takeWhile (\<lambda>b. b \<notin> set ''+-='') cl) = Some mask" "collect_bits letter_bits perms = Some bits"
    by (auto simp: apply_clause_def Let_def bind_eq_Some_conv split: list.splits)
  let ?e = "bits AND mask"
  have "apply_clause cl m = Some (if opr = CHR ''+'' then m OR ?e else if opr = CHR ''-'' then m AND NOT ?e else (m AND NOT mask) OR ?e)" for m
    unfolding apply_clause_def Let_def d by (simp add: d(3))
  then show ?thesis
    by (intro exI [of _ "if opr = CHR ''+'' then - 1 else if opr = CHR ''-'' then NOT ?e else NOT mask"]
        exI [of _ "if opr = CHR ''-'' then 0 else ?e"]) simp
qed

lemma compute_mode_affine:
  assumes "compute_mode spec m = Some r"
  shows "\<exists>a b. \<forall>m. compute_mode spec m = Some (((m AND a) OR b) AND o7777)"
proof (cases "spec \<noteq> [] \<and> list_all is_ascii_digit spec")
  case True
  then obtain n where "parse_unsigned 32 8 spec = Some n" using assms by (auto simp: compute_mode_def)
  then show ?thesis using True by (intro exI [of _ 0] exI [of _ "word_of_nat n"]) (simp add: compute_mode_def)
next
  case False
  then obtain r1 where r1: "fold_opt apply_clause (split_on (CHR '','') spec) m = Some r1"
    using assms by (auto simp: compute_mode_def split: if_splits)
  have "\<exists>a b. \<forall>m. fold_opt apply_clause (split_on (CHR '','') spec) m = Some ((m AND a) OR b)"
    by (rule fold_opt_affine [OF _ r1]) (rule apply_clause_affine)
  then obtain a b where "\<forall>m. fold_opt apply_clause (split_on (CHR '','') spec) m = Some ((m AND a) OR b)" by blast
  then show ?thesis using False by (intro exI [of _ a] exI [of _ b]) (simp add: compute_mode_def del: de_Morgan_conj)
qed

lemma compute_mode_defined: "compute_mode spec m = None \<Longrightarrow> compute_mode spec m' = None"
  using compute_mode_affine [of spec m'] by (cases "compute_mode spec m'") auto

definition chmod_perms :: "str \<Rightarrow> u32 \<Rightarrow> node \<Rightarrow> u32" where
  "chmod_perms spec q n = (case compute_mode spec (m_mode (n_meta n) AND o7777) of Some p \<Rightarrow> p | None \<Rightarrow> q)"

definition chmod_node :: "u32 \<Rightarrow> node \<Rightarrow> node" where
  "chmod_node perms n = n\<lparr>n_meta := (n_meta n)\<lparr>m_mode := (m_mode (n_meta n) AND S_IFMT) OR (perms AND o7777)\<rparr>\<rparr>"

lemma chmod_node_kind [simp]: "n_kind (chmod_node p n) = n_kind n"
  by (simp add: chmod_node_def)

lemma chmod_upd: "chmod v i perms = upd_node v i (chmod_node perms)"
  by (simp add: chmod_def chmod_node_def [abs_def])

lemma is_dir_entries: "types_ok v \<Longrightarrow> i < fsize v \<Longrightarrow> \<not> is_dir (n_meta (fnode v i)) \<Longrightarrow> entries v i = None"
  by (auto simp: entries_def dest: types_okD split: node_kind.split) (auto simp: type_ok_def dest!: types_okD)

text \<open>The nodes these commands go on to: none unless the mode says directory.\<close>

definition attr_kids :: "vfs \<Rightarrow> node_id \<Rightarrow> (str \<times> node_id) list" where
  "attr_kids v i = (if is_dir (n_meta (fnode v i)) then dir_list v i else [])"

lemma attr_kids_laws:
  "set (attr_kids v i) \<subseteq> set (dir_list v i)" "types_ok v \<Longrightarrow> i < fsize v \<Longrightarrow> attr_kids v i = dir_list v i"
  using is_dir_entries [of v i] by (auto simp: attr_kids_def dir_list_def)

lemma upd_node_dir:
  assumes "i < fsize v" "\<And>n. is_dir (n_meta (f n)) = is_dir (n_meta n)" "\<And>n. n_kind (f n) = n_kind n"
  shows "is_dir (n_meta (fnode (upd_node v i f) i)) = is_dir (n_meta (fnode v i))" "entries (upd_node v i f) i = entries v i"
  using assms by (simp_all add: upd_node_def entries_def)

interpretation chmod_walk: tree_walk "\<lambda>n. chmod_node (chmod_perms spec q n) n"
    "\<lambda>m i v. apply_chmod m spec True (chmod_perms spec q (fnode v i)) i v" attr_kids for spec q
proof
  fix v i m assume v: "i < fsize v"
  let ?p = "chmod_perms spec q (fnode v i)"
  have same: "upd_node v i (\<lambda>n. chmod_node (chmod_perms spec q n) n) = chmod v i ?p"
    by (simp add: chmod_def chmod_node_def upd_node_def)
  have dir: "is_dir (n_meta (chmod_node p n)) = is_dir (n_meta n)" for p n
    by (simp add: chmod_node_def type_bits_chmod)
  have up: "is_dir (n_meta (fnode (chmod v i ?p) i)) = is_dir (n_meta (fnode v i))" "entries (chmod v i ?p) i = entries v i"
    using upd_node_dir [OF v, of "chmod_node ?p"] dir by (simp_all add: chmod_upd)
  have kid: "(case compute_mode spec (m_mode (n_meta (fnode x c)) AND o7777) of Some p \<Rightarrow> p | None \<Rightarrow> ?p)
      = chmod_perms spec q (fnode x c)" for x c
    using compute_mode_defined [of spec "m_mode (n_meta (fnode x c)) AND o7777"] by (auto simp: chmod_perms_def split: option.split)
  show "apply_chmod (Suc m) spec True ?p i v = fold_opt (\<lambda>e v'. apply_chmod m spec True (chmod_perms spec q (fnode v' (snd e))) (snd e) v')
      (attr_kids v i) (upd_node v i (\<lambda>n. chmod_node (chmod_perms spec q n) n))"
    unfolding apply_chmod.simps Let_def up same kid by (auto simp: case_prod_unfold attr_kids_def dir_list_def)
qed (simp_all add: chmod_node_def type_ok_def type_bits_chmod attr_kids_laws)

definition chown_node :: "u32 option \<Rightarrow> u32 option \<Rightarrow> node \<Rightarrow> node" where
  "chown_node u g n = n\<lparr>n_meta := (n_meta n)\<lparr>m_uid := (case u of Some x \<Rightarrow> x | None \<Rightarrow> m_uid (n_meta n)),
     m_gid := (case g of Some x \<Rightarrow> x | None \<Rightarrow> m_gid (n_meta n))\<rparr>\<rparr>"

lemma chown_node_kind [simp]: "n_kind (chown_node u g n) = n_kind n"
  by (simp add: chown_node_def)

lemma chown_node_type: "is_dir (n_meta (chown_node u g n)) = is_dir (n_meta n)" "is_symlink (n_meta (chown_node u g n)) = is_symlink (n_meta n)"
  by (simp_all add: chown_node_def is_dir_def is_symlink_def)

interpretation chown_walk: tree_walk "chown_node u g" "\<lambda>m i v. apply_chown m u g True i v" attr_kids for u g
proof
  fix v i m assume v: "i < fsize v"
  let ?v = "chown v i (case u of Some x \<Rightarrow> x | None \<Rightarrow> m_uid (n_meta (fnode v i))) (case g of Some x \<Rightarrow> x | None \<Rightarrow> m_gid (n_meta (fnode v i)))"
  have same: "upd_node v i (chown_node u g) = ?v" by (simp add: chown_def chown_node_def upd_node_def)
  have up: "is_dir (n_meta (fnode ?v i)) = is_dir (n_meta (fnode v i))" "entries ?v i = entries v i"
    using upd_node_dir [OF v, of "chown_node u g"] chown_node_type by (simp_all add: same)
  show "apply_chown (Suc m) u g True i v = fold_opt (\<lambda>e. apply_chown m u g True (snd e))
      (attr_kids v i) (upd_node v i (chown_node u g))"
    unfolding apply_chown.simps Let_def up same by (auto simp: case_prod_unfold attr_kids_def dir_list_def)
qed (simp_all add: chown_node_def type_ok_def is_dir_def is_symlink_def attr_kids_laws)

end
