(* ===== verification/Shell_Parser_Props.thy ===== *)
theory Shell_Parser_Props
  imports Shell_Parser Utf8_Chars
begin

text \<open>
  What the tokenizer guarantees: the regions it steps over lie within the line, splitting
  loses no text, and quoting is inert: a line of single-quoted words passes every
  splitter unchanged and yields exactly the quoted words.
\<close>

section \<open>Substitutions lie within the line\<close>

lemma paren_close_deeper: "paren_close s j n q1 q2 = Some k \<Longrightarrow> 2 \<le> n \<Longrightarrow> j < k"
proof -
  assume k: "paren_close s j n q1 q2 = Some k" and n: "2 \<le> n"
  then obtain w d p p' where st: "paren_step (s ! j) n q1 q2 = Some (w, d, p, p')"
    using paren_step_None [of "s ! j" n q1 q2] by (cases "paren_step (s ! j) n q1 q2") auto
  then have "paren_close s (j + w) d p p' = Some k"
    using k by (auto simp: paren_close.simps [of s j] split: if_splits)
  from paren_close_bounds [OF this] paren_step_width [OF st] show ?thesis by linarith
qed

lemma paren_close_open:
  "j < length s \<Longrightarrow> s ! j = CHR ''('' \<Longrightarrow> paren_close s j n False False = paren_close s (j + 1) (n + 1) False False"
  by (subst paren_close.simps) (simp add: paren_step_def)

lemma byte_get_Some: "byte_get s i = Some c \<longleftrightarrow> i < length s \<and> s ! i = c"
  by (auto simp: byte_get_def)

lemma substitution_at_bounds:
  assumes "substitution_at s i = Some b"
  shows "s_end b \<le> length s \<and> i < fst (s_body b) \<and> fst (s_body b) \<le> snd (s_body b) \<and> snd (s_body b) < s_end b"
proof -
  consider (tick) j where "backtick_close s (i + 1) = Some j"
      "b = \<lparr>s_end = j + 1, s_body = (i + 1, j), s_arithmetic = False\<rparr>"
    | (cmd) j where "byte_get s (i + 1) = Some (CHR ''('')" "paren_close s (i + 1) 0 False False = Some j"
      "b = \<lparr>s_end = j + 1, s_body = (i + 2, j), s_arithmetic = False\<rparr>"
    | (arith) j where "byte_get s (i + 1) = Some (CHR ''('')" "byte_get s (i + 2) = Some (CHR ''('')"
      "paren_close s (i + 1) 0 False False = Some j"
      "b = \<lparr>s_end = j + 1, s_body = (i + 3, j - 1), s_arithmetic = True\<rparr>"
    using assms by (auto simp: substitution_at_def Let_def split: if_splits option.splits)
  then show ?thesis
  proof cases
    case tick
    then show ?thesis using backtick_close_bounds [of s "i + 1" j] by auto
  next
    case cmd
    then have "paren_close s (i + 2) 1 False False = Some j"
      using paren_close_open [of "i + 1" s 0] by (simp add: byte_get_Some)
    then show ?thesis using cmd paren_close_bounds [of s "i + 2" 1 False False j] by auto
  next
    case arith
    then have "paren_close s (i + 3) 2 False False = Some j"
      using paren_close_open [of "i + 1" s 0] paren_close_open [of "i + 2" s 1]
      by (simp add: byte_get_Some numeral_3_eq_3 numeral_2_eq_2)
    then show ?thesis
      using arith paren_close_bounds [of s "i + 3" 2 False False j] paren_close_deeper [of s "i + 3" 2 False False j]
      by auto
  qed
qed

section \<open>Splitting loses no text\<close>

fun separator_text :: "separator \<Rightarrow> str" where
  "separator_text Always = '';''"
| "separator_text AndIf = ''&&''"
| "separator_text OrIf = ''||''"

definition rejoin_rest :: "segment list \<Rightarrow> str" where
  "rejoin_rest gs = concat (map (\<lambda>g. separator_text (g_run_if g) @ g_text g) gs)"

fun rejoin :: "segment list \<Rightarrow> str" where
  "rejoin [] = []"
| "rejoin (g # gs) = g_text g @ rejoin_rest gs"

lemma slice_drop: "start \<le> i \<Longrightarrow> slice s start i @ drop i s = drop start s"
  unfolding slice_def by (metis append_take_drop_id drop_drop le_add_diff_inverse2)

lemma separator_at_text:
  "separator_at s i = Some (w, r) \<Longrightarrow> i < length s \<Longrightarrow> drop i s = separator_text r @ drop (i + w) s"
  by (auto simp: separator_at_def byte_get_def Cons_nth_drop_Suc [symmetric] split: if_splits)

lemma split_segments_loop_rejoin:
  "start \<le> i \<Longrightarrow> \<exists>g gs. split_segments_loop s q i r start = g # gs \<and> g_run_if g = r
     \<and> g_text g @ rejoin_rest gs = drop start s"
proof (induction s q i r start rule: split_segments_loop.induct)
  case (1 s q i r start)
  let ?l = "lexeme_at s q i"
  show ?case
  proof (cases "i \<ge> length s")
    case True
    then show ?thesis by (simp add: split_segments_loop.simps [of s q i] rejoin_rest_def)
  next
    case i: False
    show ?thesis
    proof (cases "if ?l = Plain then separator_at s i else None")
      case None
      then show ?thesis
        using 1(1) [OF i refl None] 1(3) i lexeme_progress [of i s q]
        by (simp add: split_segments_loop.simps [of s q i] Let_def)
    next
      case (Some wn)
      obtain w n where wn: "wn = (w, n)" by (cases wn)
      have sep: "separator_at s i = Some (w, n)" using Some wn by (simp split: if_splits)
      obtain g gs where *: "split_segments_loop s q (i + w) n (i + w) = g # gs" "g_run_if g = n"
          "g_text g @ rejoin_rest gs = drop (i + w) s"
        using 1(2) [OF i refl Some wn [symmetric]] by auto
      have "split_segments_loop s q i r start = \<lparr>g_run_if = r, g_text = slice s start i\<rparr> # g # gs"
        using i Some wn * by (simp add: split_segments_loop.simps [of s q i] Let_def)
      moreover have "slice s start i @ rejoin_rest (g # gs) = drop start s"
        using * separator_at_text [OF sep] i slice_drop [OF 1(3), of s] by (simp add: rejoin_rest_def)
      ultimately show ?thesis by simp
    qed
  qed
qed

lemma split_pipeline_loop_not_Nil: "split_pipeline_loop s q i start \<noteq> []"
  by (induction s q i start rule: split_pipeline_loop.induct) (subst split_pipeline_loop.simps, auto simp: Let_def)

lemma split_pipeline_loop_join:
  "start \<le> i \<Longrightarrow> join ''|'' (split_pipeline_loop s q i start) = drop start s"
proof (induction s q i start rule: split_pipeline_loop.induct)
  case (1 s q i start)
  let ?l = "lexeme_at s q i"
  consider "i \<ge> length s" | "i < length s" "?l = Plain" "s ! i = CHR ''|''"
    | "i < length s" "\<not> (?l = Plain \<and> s ! i = CHR ''|'')" by linarith
  then show ?case
  proof cases
    case 2
    then have "join ''|'' (split_pipeline_loop s q (i + 1) (i + 1)) = drop (i + 1) s"
      using 1(1) by simp
    then show ?thesis using 2 slice_drop [OF 1(3), of s] split_pipeline_loop_not_Nil
      by (simp add: split_pipeline_loop.simps [of s q i] Let_def join_Cons Cons_nth_drop_Suc [symmetric])
  next
    case 3
    then show ?thesis using 1(2) 1(3) lexeme_progress [of i s q]
      by (auto simp: split_pipeline_loop.simps [of s q i] Let_def)
  qed (simp add: split_pipeline_loop.simps)
qed

section \<open>Quoting is inert\<close>

text \<open>
  A byte is passive when it is quoted, escaped, quoting syntax or a plain blank. Runs of passive
  bytes are described once, independently of any splitter; the locale says what a splitter's
  loop promises on them, and is interpreted on each of the loops.
\<close>

definition inert_at :: "str \<Rightarrow> quoting \<Rightarrow> nat \<Rightarrow> bool" where
  "inert_at s q i \<longleftrightarrow> i < length s \<and> (lexeme_at s q i = Plain \<longrightarrow> s ! i = CHR '' '')"

inductive inert_run :: "str \<Rightarrow> quoting \<Rightarrow> nat \<Rightarrow> quoting \<Rightarrow> nat \<Rightarrow> bool" for s where
  run_refl: "inert_run s q i q i"
| run_step: "inert_at s q i \<Longrightarrow>
    inert_run s (flags_after (lexeme_at s q i) q) (index_after (lexeme_at s q i) i) q' i' \<Longrightarrow>
    inert_run s q i q' i'"

lemma inert_run_trans:
  "inert_run s q i q' i' \<Longrightarrow> inert_run s q' i' q'' i'' \<Longrightarrow> inert_run s q i q'' i''"
  by (induction rule: inert_run.induct) (auto intro: inert_run.intros)

locale scanner =
  fixes loop :: "str \<Rightarrow> quoting \<Rightarrow> nat \<Rightarrow> 'x \<Rightarrow> 'r"
    and keeps :: "'x \<Rightarrow> 'x \<Rightarrow> bool"
  assumes keeps_refl: "keeps x x"
    and keeps_trans: "keeps x y \<Longrightarrow> keeps y z \<Longrightarrow> keeps x z"
    and inert_step: "inert_at s q i \<Longrightarrow> \<exists>y. keeps x y \<and>
      loop s q i x = loop s (flags_after (lexeme_at s q i) q) (index_after (lexeme_at s q i) i) y"
begin

lemma inert_run_keeps:
  "inert_run s q i q' i' \<Longrightarrow> \<exists>y. keeps x y \<and> loop s q i x = loop s q' i' y"
proof (induction arbitrary: x rule: inert_run.induct)
  case (run_refl q i)
  then show ?case using keeps_refl by blast
next
  case (run_step q i q' i')
  obtain y where "keeps x y"
      "loop s q i x = loop s (flags_after (lexeme_at s q i) q) (index_after (lexeme_at s q i) i) y"
    using inert_step [OF run_step(1)] by blast
  with run_step.IH [of y] show ?case using keeps_trans by metis
qed

end

text \<open>Each loop keeps what it has collected on a passive byte.\<close>

interpretation segments_scan: scanner
  "\<lambda>s q i x. split_segments_loop s q i (fst x) (snd x)" "(=)"
proof unfold_locales
  fix s q i and x :: "separator \<times> nat"
  assume p: "inert_at s q i"
  then have "(if lexeme_at s q i = Plain then separator_at s i else None) = None"
    by (auto simp: inert_at_def separator_at_def)
  then show "\<exists>y. x = y \<and> split_segments_loop s q i (fst x) (snd x) =
      split_segments_loop s (flags_after (lexeme_at s q i) q) (index_after (lexeme_at s q i) i) (fst y) (snd y)"
    using p by (subst split_segments_loop.simps) (simp add: inert_at_def Let_def)
qed auto

interpretation pipeline_scan: scanner split_pipeline_loop "(=)"
proof unfold_locales
  fix s q i x
  assume "inert_at s q i"
  then show "\<exists>y. x = y \<and> split_pipeline_loop s q i x =
      split_pipeline_loop s (flags_after (lexeme_at s q i) q) (index_after (lexeme_at s q i) i) y"
    by (subst split_pipeline_loop.simps) (auto simp: inert_at_def Let_def)
qed auto

interpretation comment_scan: scanner strip_comment_loop "\<lambda>_ _. True"
proof unfold_locales
  fix s q i x
  assume "inert_at s q i"
  then show "\<exists>y. True \<and> strip_comment_loop s q i x =
      strip_comment_loop s (flags_after (lexeme_at s q i) q) (index_after (lexeme_at s q i) i) y"
    by (subst strip_comment_loop.simps) (auto simp: inert_at_def Let_def)
qed auto

interpretation redirect_scan: scanner split_redirects_loop
  "\<lambda>x y. x_command x = x_command y \<and> x_redirects x = x_redirects y \<and> x_copy_from x = x_copy_from y"
proof unfold_locales
  fix s q i and x :: redirect_scan
  assume "inert_at s q i"
  then have "split_redirects_loop s q i x = split_redirects_loop s (flags_after (lexeme_at s q i) q)
      (index_after (lexeme_at s q i) i) (word_after s i (lexeme_at s q i) x)"
    by (subst split_redirects_loop.simps) (auto simp: inert_at_def Let_def)
  moreover have "x_command x = x_command (word_after s i l x) \<and> x_redirects x = x_redirects (word_after s i l x)
      \<and> x_copy_from x = x_copy_from (word_after s i l x)" for l
    by (simp add: word_after_def split: lexeme.split)
  ultimately show "\<exists>y. (x_command x = x_command y \<and> x_redirects x = x_redirects y \<and> x_copy_from x = x_copy_from y)
      \<and> split_redirects_loop s q i x = split_redirects_loop s (flags_after (lexeme_at s q i) q)
          (index_after (lexeme_at s q i) i) y"
    by blast
qed auto

interpretation heredoc_scan: scanner "\<lambda>s q i (_::unit). split_heredoc_loop s q i" "(=)"
proof unfold_locales
  fix s q i and x :: unit
  assume "inert_at s q i"
  then show "\<exists>y. x = y \<and> split_heredoc_loop s q i =
      split_heredoc_loop s (flags_after (lexeme_at s q i) q) (index_after (lexeme_at s q i) i)"
    by (subst split_heredoc_loop.simps) (auto simp: inert_at_def Let_def)
qed auto

section \<open>Single-quoted words\<close>

text \<open>The usual way to quote a word: single quotes around it, an embedded single quote
  closed, escaped and reopened.\<close>

definition squote_byte :: "byte \<Rightarrow> str" where
  "squote_byte b = (if b = CHR 0x27 then [CHR 0x27, CHR 0x5C, CHR 0x27, CHR 0x27] else [b])"

definition squote :: "str \<Rightarrow> str" where
  "squote w = CHR 0x27 # concat (map squote_byte w) @ [CHR 0x27]"

abbreviation in_squotes :: quoting where
  "in_squotes \<equiv> \<lparr>q_single = True, q_double = False, q_escaped = False\<rparr>"

lemma substitution_at_other: "i < length s \<Longrightarrow> s ! i \<noteq> CHR 0x60 \<Longrightarrow> s ! i \<noteq> CHR ''$'' \<Longrightarrow> substitution_at s i = None"
  by (simp add: substitution_at_def byte_get_def)

lemma lexeme_quote:
  assumes "i < length s" "s ! i = CHR 0x27"
  shows "lexeme_at s unquoted i = SingleQuote" "lexeme_at s in_squotes i = SingleQuote"
  using assms by (simp_all add: lexeme_at_def unquoted_def substitution_at_other)

lemma lexeme_backslash:
  "i < length s \<Longrightarrow> s ! i = CHR 0x5C \<Longrightarrow> lexeme_at s unquoted i = Backslash"
  by (simp add: lexeme_at_def unquoted_def substitution_at_other)

lemma run_one:
  assumes "i < length s" "lexeme_at s q i = l" "l \<noteq> Plain \<or> s ! i = CHR '' ''" "flags_after l q = q'" "index_after l i = i'"
  shows "inert_run s q i q' i'"
proof -
  have "inert_at s q i" using assms(1,2,3) by (auto simp: inert_at_def)
  then show ?thesis using inert_run.run_step [of s q i q' i'] inert_run.run_refl [of s q' i'] assms(2,4,5) by simp
qed

lemma run_quote:
  assumes "i < length s" "s ! i = CHR 0x27"
  shows "inert_run s unquoted i in_squotes (i + 1)" "inert_run s in_squotes i unquoted (i + 1)"
  using run_one [OF assms(1) lexeme_quote(1) [OF assms]] run_one [OF assms(1) lexeme_quote(2) [OF assms]]
  by (simp_all add: flags_after_def index_after_def unquoted_def)

lemma run_escaped:
  assumes "i + 1 < length s" "s ! i = CHR 0x5C"
  shows "inert_run s unquoted i unquoted (i + 2)"
proof (rule inert_run_trans)
  show "inert_run s unquoted i (unquoted\<lparr>q_escaped := True\<rparr>) (i + 1)"
    using assms lexeme_backslash [of i s] by (intro run_one [where l = Backslash]) (simp_all add: flags_after_def index_after_def)
  show "inert_run s (unquoted\<lparr>q_escaped := True\<rparr>) (i + 1) unquoted (i + 2)"
    using assms(1)
    by (intro run_one [where l = Escaped])
      (simp_all add: flags_after_def index_after_def lexeme_at_def unquoted_def)
qed

lemma run_inside:
  assumes "i < length s" "s ! i \<noteq> CHR 0x27"
  shows "inert_run s in_squotes i in_squotes (i + 1)"
  using assms
  by (intro run_one [where l = Quoted]) (simp_all add: flags_after_def index_after_def lexeme_at_def)

lemma run_blank:
  assumes "i < length s" "s ! i = CHR '' ''"
  shows "inert_run s unquoted i unquoted (i + 1)"
  using assms
  by (intro run_one [where l = Plain])
    (simp_all add: flags_after_def index_after_def lexeme_at_def unquoted_def substitution_at_other)

lemma run_quoted_body:
  "s = pre @ concat (map squote_byte w) @ post \<Longrightarrow>
   inert_run s in_squotes (length pre) in_squotes (length pre + length (concat (map squote_byte w)))"
proof (induction w arbitrary: pre)
  case Nil
  then show ?case by (simp add: inert_run.run_refl)
next
  case (Cons b w)
  let ?n = "length pre"
  have s': "s = (pre @ squote_byte b) @ concat (map squote_byte w) @ post" using Cons.prems by simp
  have "inert_run s in_squotes ?n in_squotes (?n + length (squote_byte b))"
  proof (cases "b = CHR 0x27")
    case True
    then have s: "s = pre @ [CHR 0x27, CHR 0x5C, CHR 0x27, CHR 0x27] @ concat (map squote_byte w) @ post"
      using Cons.prems by (simp add: squote_byte_def [of "CHR 0x27"])
    have 1: "inert_run s in_squotes ?n unquoted (?n + 1)"
      by (rule run_quote) (simp_all add: s nth_append)
    have 2: "inert_run s unquoted (?n + 1) unquoted (?n + 3)"
      using run_escaped [of "?n + 1" s] by (simp add: s nth_append numeral_3_eq_3)
    have 3: "inert_run s unquoted (?n + 3) in_squotes (?n + 4)"
      using run_quote(1) [of "?n + 3" s] by (simp add: s nth_append add.commute)
    have "inert_run s in_squotes ?n in_squotes (?n + 4)"
      by (rule inert_run_trans [OF 1 inert_run_trans [OF 2 3]])
    then show ?thesis using True by (simp add: squote_byte_def numeral_eq_Suc)
  next
    case False
    then show ?thesis using Cons.prems run_inside [of ?n s] by (simp add: squote_byte_def [of b] nth_append)
  qed
  moreover have "inert_run s in_squotes (?n + length (squote_byte b)) in_squotes
      (?n + length (squote_byte b) + length (concat (map squote_byte w)))"
    using Cons.IH [OF s'] by simp
  ultimately show ?case using inert_run_trans by (fastforce simp: add.assoc)
qed

lemma run_squote:
  assumes "s = pre @ squote w @ post"
  shows "inert_run s unquoted (length pre) unquoted (length pre + length (squote w))"
proof -
  let ?c = "concat (map squote_byte w)"
  have s: "s = (pre @ [CHR 0x27]) @ ?c @ (CHR 0x27 # post)" using assms by (simp add: squote_def)
  have "inert_run s unquoted (length pre) in_squotes (length pre + 1)"
    by (rule run_quote) (simp_all add: s nth_append)
  moreover have "inert_run s in_squotes (length pre + 1) in_squotes (length pre + 1 + length ?c)"
    using run_quoted_body [OF s] by simp
  moreover have "inert_run s in_squotes (length pre + 1 + length ?c) unquoted (length pre + 1 + length ?c + 1)"
    by (rule run_quote) (simp_all add: s nth_append)
  ultimately have "inert_run s unquoted (length pre) unquoted (length pre + 1 + length ?c + 1)"
    using inert_run_trans by blast
  then show ?thesis by (simp add: squote_def)
qed

lemma run_squotes:
  "s = pre @ join '' '' (map squote ws) \<Longrightarrow> inert_run s unquoted (length pre) unquoted (length s)"
proof (induction ws arbitrary: pre)
  case Nil
  then show ?case by (simp add: inert_run.run_refl)
next
  case (Cons w ws)
  show ?case
  proof (cases "ws = []")
    case True
    then show ?thesis using Cons.prems run_squote [of s pre w "[]"] by simp
  next
    case False
    then have s: "s = pre @ squote w @ '' '' @ join '' '' (map squote ws)"
      using Cons.prems by (simp add: join_Cons)
    let ?n = "length pre + length (squote w)"
    have "inert_run s unquoted ?n unquoted (?n + 1)"
      by (rule run_blank) (simp_all add: s nth_append)
    moreover have "inert_run s unquoted (?n + 1) unquoted (length s)"
      using Cons.IH [of "pre @ squote w @ '' ''"] s by simp
    ultimately show ?thesis using run_squote [OF s] inert_run_trans by blast
  qed
qed

section \<open>Words of quoted text\<close>

definition squote_rchar :: "rchar \<Rightarrow> rchar list" where
  "squote_rchar c = (if c = [CHR 0x27] then [[CHR 0x27], [CHR 0x5C], [CHR 0x27], [CHR 0x27]] else [c])"

definition squote_chars :: "rchar list \<Rightarrow> rchar list" where
  "squote_chars cs = [CHR 0x27] # concat (map squote_rchar cs) @ [[CHR 0x27]]"

lemma squote_byte_rchar: "rchar_ok c \<Longrightarrow> concat (map squote_byte c) = concat (squote_rchar c)"
proof (cases "c = [CHR 0x27]")
  case True
  then show ?thesis by (simp add: squote_byte_def squote_rchar_def)
next
  case False
  assume ok: "rchar_ok c"
  have "CHR 0x27 \<notin> set c"
  proof
    assume q: "CHR 0x27 \<in> set c"
    obtain b bs where c: "c = b # bs" using ok by (cases c) (auto simp: rchar_ok_def)
    have "\<not> is_continuation CHR 0x27" by (simp add: ascii_not_continuation)
    then have "b = CHR 0x27" using q ok c by (auto simp: rchar_ok_def list_all_iff)
    then show False using ok c False by (simp add: rchar_ok_def)
  qed
  then have "map squote_byte c = map (\<lambda>b. [b]) c" by (auto simp: squote_byte_def)
  then have "concat (map squote_byte c) = c" by (simp only: concat_map_singleton map_ident)
  then show ?thesis using False by (simp add: squote_rchar_def)
qed

lemma squote_concat:
  "list_all rchar_ok cs \<Longrightarrow> squote (concat cs) = concat (squote_chars cs)"
proof -
  assume "list_all rchar_ok cs"
  then have "concat (map squote_byte (concat cs)) = concat (concat (map squote_rchar cs))"
    by (induction cs) (simp_all add: squote_byte_rchar)
  then show ?thesis by (simp add: squote_def squote_chars_def)
qed

lemma squote_chars_ok: "list_all rchar_ok cs \<Longrightarrow> list_all rchar_ok (squote_chars cs)"
  by (induction cs) (auto simp: squote_chars_def squote_rchar_def)

fun line_chars :: "rchar list list \<Rightarrow> rchar list" where
  "line_chars [] = []"
| "line_chars [cs] = squote_chars cs"
| "line_chars (cs # css) = squote_chars cs @ [CHR '' ''] # line_chars css"

lemma line_chars_concat:
  "list_all (list_all rchar_ok) css \<Longrightarrow>
   join '' '' (map (\<lambda>cs. squote (concat cs)) css) = concat (line_chars css) \<and> list_all rchar_ok (line_chars css)"
  by (induction css rule: line_chars.induct) (simp_all add: squote_concat squote_chars_ok)

lemma tokenize_quoted_body:
  "tokenize_chars cur True True False (concat (map squote_rchar cs) @ rest) =
   tokenize_chars (cur @ concat cs) True True False rest"
  by (induction cs arbitrary: cur) (simp_all add: squote_rchar_def)

lemma tokenize_squote_chars:
  "tokenize_chars cur b False False (squote_chars cs @ rest) =
   tokenize_chars (cur @ concat cs) True False False rest"
  by (simp add: squote_chars_def tokenize_quoted_body)

lemma tokenize_line_chars: "tokenize_chars [] False False False (line_chars css) = map concat css"
proof (induction css rule: line_chars.induct)
  case (2 cs)
  then show ?case using tokenize_squote_chars [of "[]" False cs "[]"] by simp
next
  case (3 cs v va)
  then show ?case by (simp add: tokenize_squote_chars is_whitespace_def)
qed simp

lemma chars_squotes:
  assumes "list_all utf8_valid ws"
  shows "chars (join '' '' (map squote ws)) = line_chars (map chars ws)"
proof -
  have ok: "list_all (list_all rchar_ok) (map chars ws)"
    using assms utf8_valid_chars by (auto simp: list_all_iff)
  have "map squote ws = map (\<lambda>cs. squote (concat cs)) (map chars ws)" by simp
  then have "join '' '' (map squote ws) = concat (line_chars (map chars ws))" "list_all rchar_ok (line_chars (map chars ws))"
    using line_chars_concat [OF ok] by (simp_all only:)
  then show ?thesis by (simp add: chars_concat)
qed

lemma tokenize_squotes: "list_all utf8_valid ws \<Longrightarrow> tokenize (join '' '' (map squote ws)) = ws"
  by (simp add: tokenize_def chars_squotes tokenize_line_chars comp_def)

text \<open>Quoting is inert: a line made of words in single quotes (an embedded quote closed, escaped and
  reopened), whatever bytes the words hold, is one command: no comment, separator, pipe,
  redirection, here-document or substitution inside the quotes takes effect, and splitting the line
  into words gives back exactly the words.\<close>

lemma squotes_inert:
  assumes "list_all utf8_valid ws"
  defines "line \<equiv> join '' '' (map squote ws)"
  shows "strip_comment line = line \<and> split_heredoc line = None
    \<and> split_segments line = [\<lparr>g_run_if = Always, g_text = line\<rparr>] \<and> split_pipeline line = [line]
    \<and> split_redirects line = Inr (line, []) \<and> tokenize line = ws"
proof -
  have run: "inert_run line unquoted 0 unquoted (length line)"
    using run_squotes [of line "[]" ws] by (simp add: line_def)
  have "strip_comment line = line"
    using comment_scan.inert_run_keeps [OF run, of True]
    by (auto simp: strip_comment_def strip_comment_loop.simps [of line _ "length line"])
  moreover have "split_heredoc line = None"
    using heredoc_scan.inert_run_keeps [OF run] by (simp add: split_heredoc_def split_heredoc_loop.simps)
  moreover have "split_segments line = [\<lparr>g_run_if = Always, g_text = line\<rparr>]"
    using segments_scan.inert_run_keeps [OF run, of "(Always, 0)"]
    by (simp add: split_segments_def split_segments_loop.simps [of line _ "length line"])
  moreover have "split_pipeline line = [line]"
    using pipeline_scan.inert_run_keeps [OF run, of 0]
    by (simp add: split_pipeline_def split_pipeline_loop.simps [of line _ "length line"])
  moreover have "split_redirects line = Inr (line, [])"
    using redirect_scan.inert_run_keeps [OF run, of "\<lparr>x_command = [], x_redirects = [], x_copy_from = 0, x_word_start = 0, x_plain_word = True\<rparr>"]
    by (auto simp: split_redirects_def split_redirects_loop.simps [of line _ "length line"])
  ultimately show ?thesis using tokenize_squotes [OF assms(1)] by (simp add: line_def)
qed

section \<open>Properties\<close>

text \<open>Splitting a line into the commands of a compound line loses nothing: the texts of the
  segments, each after the operator that gates it, put together are the line, and the first
  segment runs unconditionally.\<close>

theorem split_segments_rejoin:
  "rejoin (split_segments s) = s \<and> g_run_if (hd (split_segments s)) = Always"
  using split_segments_loop_rejoin [of 0 0 s unquoted Always] by (auto simp: split_segments_def)

text \<open>The stages of a pipeline, joined by the pipe character, are the segment.\<close>

theorem split_pipeline_rejoin: "join ''|'' (split_pipeline s) = s"
  by (simp add: split_pipeline_def split_pipeline_loop_join)

text \<open>A recognised substitution lies within the line: it ends after the position asked about and
  within the text, and its body is a well-ordered range strictly inside it, for nested,
  quoted and arithmetic forms alike.\<close>

theorem substitution_in_bounds:
  assumes "substitution_at s i = Some b"
  shows "i < s_end b \<and> s_end b \<le> length s \<and> i < fst (s_body b) \<and> fst (s_body b) \<le> snd (s_body b)
    \<and> snd (s_body b) < s_end b"
  using substitution_end [OF assms] substitution_at_bounds [OF assms] by simp

theorem substitution_in_bounds_witness:
  "substitution_at ''a$(b)'' 1 = Some \<lparr>s_end = 5, s_body = (3, 4), s_arithmetic = False\<rparr> \<and> (5::nat) \<le> length ''a$(b)''"
proof -
  have "substitution_at ''a$(b)'' 1 = Some \<lparr>s_end = 5, s_body = (3, 4), s_arithmetic = False\<rparr>"
    by (simp add: substitution_at_def byte_get_def paren_close.simps paren_step_def)
  with substitution_in_bounds [OF this] show ?thesis by simp
qed

section \<open>Redirections of plain text\<close>

text \<open>A calm byte has no meaning to the scanner outside quotes.\<close>

definition calm :: "byte \<Rightarrow> bool" where
  "calm b \<longleftrightarrow> b \<notin> {CHR 0x5C, CHR 0x27, CHR 0x22, CHR 0x60, CHR ''$'', CHR ''>'', CHR ''<''}"

lemma lexeme_calm: "i < length s \<Longrightarrow> calm (s ! i) \<Longrightarrow> lexeme_at s unquoted i = Plain"
  by (auto simp: lexeme_at_def unquoted_def calm_def substitution_at_other)

lemma lexeme_redirect: "i < length s \<Longrightarrow> s ! i = CHR ''>'' \<Longrightarrow> lexeme_at s unquoted i = Plain"
  by (simp add: lexeme_at_def unquoted_def substitution_at_other)

lemma word_end_calm:
  "(\<forall>k. i \<le> k \<and> k < length s \<longrightarrow> calm (s ! k) \<and> \<not> is_ascii_whitespace (s ! k)) \<Longrightarrow> i \<le> length s \<Longrightarrow>
   word_end_loop s unquoted i = length s"
proof (induction "length s - i" arbitrary: i)
  case 0
  then show ?case by (subst word_end_loop.simps) simp
next
  case (Suc n)
  then have "i < length s" "calm (s ! i)" "\<not> is_ascii_whitespace (s ! i)" by auto
  then have "word_end_loop s unquoted i = word_end_loop s unquoted (i + 1)"
    by (subst word_end_loop.simps)
      (auto simp: lexeme_calm ends_word_def calm_def flags_after_def index_after_def Let_def)
  then show ?case using Suc by simp
qed

lemma redirects_calm_run:
  "s = pre @ t @ post \<Longrightarrow> list_all calm t \<Longrightarrow>
   \<exists>y. x_command y = x_command x \<and> x_redirects y = x_redirects x \<and> x_copy_from y = x_copy_from x
     \<and> (t \<noteq> [] \<and> last t = CHR '' '' \<longrightarrow> x_word_start y = length pre + length t)
     \<and> split_redirects_loop s unquoted (length pre) x = split_redirects_loop s unquoted (length pre + length t) y"
proof (induction t arbitrary: pre x)
  case Nil
  then show ?case by auto
next
  case (Cons b t)
  let ?i = "length pre"
  let ?x = "word_after s ?i Plain x"
  have b: "?i < length s" "s ! ?i = b" "calm b" using Cons.prems by (simp_all add: nth_append)
  have l: "lexeme_at s unquoted ?i = Plain" using b lexeme_calm by simp
  have step: "split_redirects_loop s unquoted ?i x = split_redirects_loop s unquoted (?i + 1) ?x"
    using b l by (subst split_redirects_loop.simps) (simp add: calm_def flags_after_def index_after_def)
  have s': "s = (pre @ [b]) @ t @ post" using Cons.prems(1) by simp
  from Cons.IH [OF s', of ?x] Cons.prems(2) obtain y where
    y: "x_command y = x_command ?x" "x_redirects y = x_redirects ?x" "x_copy_from y = x_copy_from ?x"
      "t \<noteq> [] \<and> last t = CHR '' '' \<longrightarrow> x_word_start y = ?i + 1 + length t"
      "split_redirects_loop s unquoted (?i + 1) ?x = split_redirects_loop s unquoted (?i + 1 + length t) y"
    by auto
  show ?case
  proof (cases "t = []")
    case True
    then show ?thesis using step b(2)
      by (intro exI [of _ ?x]) (auto simp: word_after_def is_ascii_whitespace_def)
  next
    case False
    then show ?thesis using y step by (intro exI [of _ y]) (auto simp: word_after_def)
  qed
qed

text \<open>An output redirection is taken off the command and nothing else is. For a command text with no
  quoting, substitution or redirection in it, followed by a redirection to a plain word, the
  command text comes back unchanged with the one redirection, appending or not as written.\<close>

theorem split_redirects_plain:
  assumes "list_all calm cmd" "list_all calm w" "\<forall>b\<in>set w. \<not> is_ascii_whitespace b" "w \<noteq> []"
  shows "split_redirects (cmd @ '' '' @ (if app then ''>>'' else ''>'') @ '' '' @ w) =
    Inr (cmd @ '' '', [\<lparr>r_stream = Stdout, r_target = ToFile w app\<rparr>])"
proof -
  define op where "op = (if app then ''>>'' else ''>'')"
  define s where "s = cmd @ '' '' @ op @ '' '' @ w"
  let ?i = "length cmd + 1"
  let ?k = "?i + length op + 1"
  let ?x = "\<lparr>x_command = [], x_redirects = [], x_copy_from = 0, x_word_start = 0, x_plain_word = True\<rparr> :: redirect_scan"
  have i: "?i < length s" "s ! ?i = CHR ''>''" by (simp_all add: s_def op_def nth_append)
  obtain y where y: "x_command y = []" "x_redirects y = []" "x_copy_from y = 0" "x_word_start y = ?i"
      "split_redirects_loop s unquoted 0 ?x = split_redirects_loop s unquoted ?i y"
    using redirects_calm_run [of s "[]" "cmd @ '' ''" "op @ '' '' @ w" ?x] assms(1)
    by (auto simp: s_def calm_def)
  have w: "s ! (?k + j) = w ! j" if "j < length w" for j
    using that by (simp add: s_def nth_append)
  have len: "length s = ?k + length w" by (simp add: s_def)
  have we: "word_end s ?k = length s"
  proof -
    have "calm (s ! k) \<and> \<not> is_ascii_whitespace (s ! k)" if "?k \<le> k" "k < length s" for k
    proof -
      have "k = ?k + (k - ?k)" "k - ?k < length w" using that len by auto
      then have "s ! k \<in> set w" using w nth_mem by metis
      then show ?thesis using assms(2,3) by (auto simp: list_all_iff)
    qed
    then show ?thesis unfolding word_end_def using len by (intro word_end_calm) auto
  qed
  have skip: "skip_while is_ascii_whitespace s (?i + length op) = ?k"
  proof -
    have "s ! (?i + length op) = CHR '' ''" "?i + length op < length s" by (simp_all add: s_def nth_append)
    moreover have "\<not> is_ascii_whitespace (s ! ?k)" using w [of 0] assms(3,4) by simp
    ultimately show ?thesis by (simp add: skip_while.simps [of _ s] is_ascii_whitespace_def)
  qed
  have "slice s ?k (length s) = w" by (simp add: slice_def s_def)
  then have t: "redirect_target s ?i = Inr (ToFile w app, length s)"
    using skip we assms(4) len
    by (auto simp: redirect_target_def s_def op_def byte_get_def nth_append Let_def split: if_splits)
  have "split_redirects_loop s unquoted ?i y = Inr (slice s 0 ?i, [\<lparr>r_stream = Stdout, r_target = ToFile w app\<rparr>])"
    using i y t lexeme_redirect [OF i]
    by (simp add: split_redirects_loop.simps [of s unquoted] descriptor_def slice_def Let_def)
  moreover have "slice s 0 ?i = cmd @ '' ''" by (simp add: slice_def s_def)
  ultimately show ?thesis using y(5) by (simp add: split_redirects_def s_def op_def)
qed

theorem split_redirects_plain_witness:
  "split_redirects (''echo hi'' @ '' '' @ ''>>'' @ '' '' @ ''log'') =
     Inr (''echo hi '', [\<lparr>r_stream = Stdout, r_target = ToFile ''log'' True\<rparr>])"
  using split_redirects_plain [of "''echo hi''" "''log''" True]
  by (simp add: calm_def is_ascii_whitespace_def)

end
