(* ===== verification/Shell_Props.thy ===== *)
theory Shell_Props
  imports Shell_Safety Shell_Parser_Props
begin

text \<open>
  Behaviour of single lines: substitutions run in a subshell, output is bounded, redirections put the
  streams where they belong, here-documents collect their body, and expanded values are data.
\<close>

section \<open>Expansion leaves the session alone\<close>

lemma expand_loop_rel:
  assumes refl: "\<And>t. R t t" and trans: "\<And>t u v. R t u \<Longrightarrow> R u v \<Longrightarrow> R t v"
    and sb: "\<And>t body x u. sb t body = Done (x, u) \<Longrightarrow> R t u" and ari: "\<And>t body x u. ari t body = Done (x, u) \<Longrightarrow> R t u"
  shows "expand_loop w sb ari mode line s q dq out cs = Done (res, t) \<Longrightarrow> R s t"
proof (induction "length cs" arbitrary: cs s q dq out rule: less_induct)
  case less
  show ?case
  proof (cases cs)
    case Nil
    then show ?thesis using less.prems refl by simp
  next
    case (Cons x rest)
    obtain i c where cs: "cs = (i, c) # rest" using Cons by (cases x) simp
    show ?thesis
    proof (cases "substitution_in q line i c")
      case None
      then obtain q' dq' out' cs' where "length cs' \<le> length rest"
          "expand_loop w sb ari mode line s q dq out cs = expand_loop w sb ari mode line s q' dq' out' cs'"
        unfolding cs by (rule expand_loop_plain)
      then show ?thesis using less.hyps [of cs' s q' dq' out'] less.prems cs by simp
    next
      case (Some r)
      let ?rest = "dropWhile (\<lambda>(j, _). j < s_end r) rest"
      obtain body v u where u: "(if s_arithmetic r then ari else sb) s body = Done (v, u)"
          "expand_loop w sb ari mode line u q dq (emit out mode v dq) ?rest = Done (res, t)"
        using less.prems unfolding cs expand_loop_subst [OF Some] obind_Done by (auto split: prod.splits)
      have "R s u" using u(1) sb ari by (simp split: if_splits)
      moreover have "R u t" using less.hyps [OF _ u(2)] length_dropWhile_le [of _ rest] cs by (simp add: le_imp_less_Suc)
      ultimately show ?thesis using trans by blast
    qed
  qed
qed

definition identity_of :: "shell \<Rightarrow> env \<times> node_id \<times> node_id \<times> node_id \<times> str \<times> u32 \<times> u32 \<times> pending option \<times> screen option" where
  "identity_of s = (sh_env s, sh_cwd s, sh_prev_cwd s, sh_home s, sh_username s, sh_uid s, sh_gid s, sh_pending s, sh_screen s)"

definition subshell_rel :: "shell \<Rightarrow> shell \<Rightarrow> bool" where
  "subshell_rel s t \<longleftrightarrow> identity_of t = identity_of s \<and> (\<exists>cs. sh_captures t = sh_captures s @ cs)"

lemma subshell_rel_refl: "subshell_rel s s"
  by (simp add: subshell_rel_def)

lemma subshell_rel_trans: "subshell_rel s t \<Longrightarrow> subshell_rel t u \<Longrightarrow> subshell_rel s u"
  by (auto simp: subshell_rel_def)

lemma substitute_rel:
  assumes "substitute run s body = Done (x, t)"
  shows "subshell_rel s t"
proof (cases "sh_nesting s \<ge> MAX_NESTED_COMMANDS")
  case True
  then show ?thesis using assms by (simp add: substitute_def subshell_rel_refl)
next
  case False
  then obtain o1 s1 where "run (s\<lparr>sh_nesting := sh_nesting s + 1, sh_subst_depth := sh_subst_depth s + 1, sh_captures := []\<rparr>) body
      = Done (o1, s1)" using assms by (auto simp: substitute_def obind_Done)
  then have "sh_captures t = sh_captures s @ sh_captures s1 \<and> identity_of t = identity_of s"
    using False assms by (auto simp: substitute_def Let_def identity_of_def split: prod.splits)
  then show ?thesis by (simp add: subshell_rel_def)
qed

lemma arithmetic_rel:
  assumes "\<And>t line x u. ex t line Words = Done (x, u) \<Longrightarrow> subshell_rel t u" "arithmetic w ex s body = Done (x, t)"
  shows "subshell_rel s t"
proof (cases "sh_nesting s \<ge> MAX_NESTED_COMMANDS")
  case True
  then show ?thesis using assms by (simp add: arithmetic_def subshell_rel_refl)
next
  case False
  then obtain e s1 where e: "ex (s\<lparr>sh_nesting := sh_nesting s + 1\<rparr>) body Words = Done (e, s1)"
    using assms(2) by (auto simp: arithmetic_def obind_Done)
  then have "t = s1\<lparr>sh_nesting := sh_nesting s1 - 1\<rparr>" using False assms(2) by (auto simp: arithmetic_def Let_def)
  then show ?thesis using assms(1) [OF e] by (simp add: subshell_rel_def identity_of_def)
qed

lemma expand_at_rel: "expand_at n w d s line mode = Done (x, t) \<Longrightarrow> subshell_rel s t"
proof (induction n arbitrary: s line mode x t)
  case 0
  have a: "subshell_rel t u" if "arithmetic w (\<lambda>s line mode. OutOfFuel) t b = Done (x, u)" for t b x u
    using arithmetic_rel [OF _ that] by simp
  show ?case
    by (rule expand_loop_rel [OF subshell_rel_refl subshell_rel_trans substitute_rel a])
       (use 0 in \<open>simp_all add: expand_with_def\<close>)
next
  case (Suc n)
  have a: "subshell_rel t u" if "arithmetic w (expand_at n w d) t b = Done (x, u)" for t b x u
    using arithmetic_rel [OF Suc.IH that] .
  show ?case
    by (rule expand_loop_rel [OF subshell_rel_refl subshell_rel_trans substitute_rel a])
       (use Suc.prems in \<open>simp_all add: expand_with_def\<close>)
qed

section \<open>Bounded output\<close>

definition modest :: "line_output \<Rightarrow> bool" where
  "modest o1 \<longleftrightarrow> length (o_text o1) < MAX_COMMAND_OUTPUT_BYTES \<and> length (o_stdout o1) \<le> length (o_text o1)
     \<and> length (o_stderr o1) \<le> length (o_text o1)"

definition capped :: "line_output \<Rightarrow> bool" where
  "capped o1 \<longleftrightarrow> length (o_text o1) \<le> MAX_COMMAND_OUTPUT_BYTES + 24 \<and> length (o_stdout o1) \<le> MAX_COMMAND_OUTPUT_BYTES + 24
     \<and> length (o_stderr o1) \<le> MAX_COMMAND_OUTPUT_BYTES + 24"

lemma modest_capped: "modest o1 \<Longrightarrow> capped (finish_line b st o1)"
  by (auto simp: modest_def capped_def finish_line_def)

lemma capped_cap_output: "capped (finish_line b st (cap_output o1))"
  by (simp add: capped_def finish_line_def cap_output_def truncate_stream_length)

lemma capped_syntax_error: "capped syntax_error"
  by (simp add: capped_def syntax_error_def output_push_def output_default_def MAX_COMMAND_OUTPUT_BYTES_def)

lemma run_segments_capped:
  "modest o1 \<Longrightarrow> run_segments run s o1 status rn gs = Done (o2, t) \<Longrightarrow> \<not> o_exit o2 \<Longrightarrow> capped o2"
proof (induction gs arbitrary: s o1 status rn)
  case Nil
  then show ?case using modest_capped by auto
next
  case (Cons g gs)
  show ?case
  proof (cases "trim (g_text g) = [] \<or> \<not> should_run (g_run_if g) status")
    case True
    then show ?thesis using Cons capped_syntax_error by (auto split: if_splits)
  next
    case False
    then obtain res u where run: "run s (g_text g) = Done (res, u)"
      using Cons.prems by (auto simp: obind_Done)
    show ?thesis
    proof (cases res)
      case None
      then show ?thesis using False Cons run by simp
    next
      case (Some r)
      let ?o = "output_push o1 (c_output r) (c_stderr r)"
      consider "c_exit r" | "\<not> c_exit r" "length (o_text ?o) \<ge> MAX_COMMAND_OUTPUT_BYTES"
        | "\<not> c_exit r" "length (o_text ?o) < MAX_COMMAND_OUTPUT_BYTES" by fastforce
      then show ?thesis
      proof cases
        case 1
        then show ?thesis using False Some run Cons.prems by (auto simp: Let_def finish_line_def)
      next
        case 2
        then show ?thesis using False Some run Cons.prems capped_cap_output by (auto simp: Let_def)
      next
        case 3
        then have "modest ?o" using Cons.prems(1) by (auto simp: modest_def output_push_def)
        then show ?thesis using 3 False Some run Cons by (simp add: Let_def)
      qed
    qed
  qed
qed

lemma modest_default: "modest output_default"
  by (simp add: modest_def output_default_def MAX_COMMAND_OUTPUT_BYTES_def)

section \<open>Redirected output\<close>

lemma write_file_fits:
  assumes "n_kind (fnode v i) = File c" "i < fsize v" "length c \<le> content_bytes v"
    "content_bytes v - length c + length (if app then c @ bs else bs) \<le> MAX_VFS_BYTES"
  shows "\<exists>v'. write_file now v i bs app = (True, v') \<and> n_kind (fnode v' i) = File (if app then c @ bs else bs)
    \<and> fsize v' = fsize v \<and> content_bytes v' = content_bytes v - length c + length (if app then c @ bs else bs)"
  using assms by (auto simp: write_file_def Let_def upd_node_def)

text \<open>Both streams on the same open file.\<close>

lemma divert_file:
  assumes "k_node k = Some i" "n_kind (fnode (sh_vfs s) i) = File c" "i < fsize (sh_vfs s)"
    "length c \<le> content_bytes (sh_vfs s)" "tx \<noteq> []" "app = (k_append k \<or> landed = Some i)"
    "content_bytes (sh_vfs s) - length c + length (if app then c @ tx else tx) \<le> MAX_VFS_BYTES"
  obtains v where "divert w s k tx landed = (None, Some i, s\<lparr>sh_vfs := v\<rparr>)" "n_kind (fnode v i) = File (if app then c @ tx else tx)"
    "fsize v = fsize (sh_vfs s)" "content_bytes v = content_bytes (sh_vfs s) - length c + length (if app then c @ tx else tx)"
proof -
  obtain v where "write_file (w_now w) (sh_vfs s) i tx app = (True, v)" "n_kind (fnode v i) = File (if app then c @ tx else tx)"
      "fsize v = fsize (sh_vfs s)" "content_bytes v = content_bytes (sh_vfs s) - length c + length (if app then c @ tx else tx)"
    using write_file_fits [OF assms(2,3,4,7)] by blast
  then show thesis using that [of v] assms(1,5,6) by (auto simp: divert_def write_redirect_def Let_def)
qed

section \<open>Here-documents\<close>

definition parked :: "str \<Rightarrow> str \<Rightarrow> heredoc \<Rightarrow> str \<Rightarrow> shell \<Rightarrow> bool" where
  "parked command raw doc body s \<longleftrightarrow> sh_pending s = Some (HeredocPending command raw doc body)"

lemma resume_collects:
  assumes "parked command raw doc body s" "heredoc_line doc l \<noteq> h_delimiter doc"
    "length body + length (heredoc_line doc l) < MAX_COMMAND_OUTPUT_BYTES"
  shows "resume w d s l = Done (output_default,
    s\<lparr>sh_pending := Some (HeredocPending command raw doc (body @ heredoc_line doc l @ [CHR 0x0A]))\<rparr>)"
  using assms by (simp add: resume_def parked_def Let_def)

text \<open>The lines of a body, answered one after the other: what each of them printed, and the session after them.\<close>

primrec answer_all :: "world \<Rightarrow> dispatcher \<Rightarrow> shell \<Rightarrow> str list \<Rightarrow> (line_output list \<times> shell) outcome" where
  "answer_all w d s [] = Done ([], s)"
| "answer_all w d s (l # ls) =
     obind (resume w d s l) (\<lambda>(o1, t). obind (answer_all w d t ls) (\<lambda>(os, u). Done (o1 # os, u)))"

lemma answer_all_collects:
  assumes "parked command raw doc body s" "\<And>l. l \<in> set ls \<Longrightarrow> heredoc_line doc l \<noteq> h_delimiter doc"
    "heredoc_line doc final = h_delimiter doc"
    "length body + sum_list (map (\<lambda>l. Suc (length (heredoc_line doc l))) ls) \<le> MAX_COMMAND_OUTPUT_BYTES"
  shows "answer_all w d s (ls @ [final]) =
    obind (run_heredoc w d (s\<lparr>sh_pending := None\<rparr>) command raw doc (body @ concat (map (\<lambda>l. heredoc_line doc l @ [CHR 0x0A]) ls)))
      (\<lambda>(o1, t). Done (replicate (length ls) output_default @ [o1], t))"
  using assms
proof (induction ls arbitrary: s body)
  case Nil
  then show ?case by (simp add: resume_def parked_def Let_def)
next
  case (Cons l ls)
  let ?b = "body @ heredoc_line doc l @ [CHR 0x0A]"
  let ?t = "s\<lparr>sh_pending := Some (HeredocPending command raw doc ?b)\<rparr>"
  let ?run = "run_heredoc w d (s\<lparr>sh_pending := None\<rparr>) command raw doc (?b @ concat (map (\<lambda>l. heredoc_line doc l @ [CHR 0x0A]) ls))"
  have r: "resume w d s l = Done (output_default, ?t)"
    using Cons.prems by (intro resume_collects) auto
  have "answer_all w d ?t (ls @ [final]) = obind ?run (\<lambda>(o1, t). Done (replicate (length ls) output_default @ [o1], t))"
    using Cons.IH [of ?b ?t] Cons.prems by (auto simp: parked_def)
  then show ?case using r by (cases ?run) auto
qed

section \<open>Quoted lines\<close>

lemma char_indices_from_append:
  "char_indices_from i (xs @ ys) = char_indices_from i xs @ char_indices_from (i + length (concat xs)) ys"
  by (induction xs arbitrary: i) (simp_all add: add.assoc)

lemma expand_loop_quote:
  "expand_loop w sb ari Words line s q False out ((i, [CHR 0x27]) # cs) = expand_loop w sb ari Words line s (\<not> q) False (out @ [CHR 0x27]) cs"
  by (simp add: expand_loop.simps(2))

lemma expand_loop_quoted:
  "c \<noteq> [CHR 0x27] \<Longrightarrow>
   expand_loop w sb ari Words line s True False out ((i, c) # cs) = expand_loop w sb ari Words line s True False (out @ c) cs"
  by (simp add: expand_loop.simps(2))

lemma expand_loop_escaped:
  "expand_loop w sb ari Words line s False dq out ((i, [CHR 0x5C]) # (j, c) # cs)
     = expand_loop w sb ari Words line s False dq (out @ CHR 0x5C # c) cs"
  by (simp add: expand_loop.simps(2))

lemma expand_loop_blank:
  "expand_loop w sb ari Words line s False dq out ((i, '' '') # cs) = expand_loop w sb ari Words line s False dq (out @ '' '') cs"
  by (simp add: expand_loop.simps(2))

lemma expand_quoted_body:
  "expand_loop w sb ari Words line s True False out (char_indices_from i (concat (map squote_rchar cs)) @ rest)
     = expand_loop w sb ari Words line s True False (out @ concat (concat (map squote_rchar cs))) rest"
  by (induction cs arbitrary: i out)
     (simp_all add: squote_rchar_def expand_loop_quote expand_loop_quoted expand_loop_escaped char_indices_from_append)

lemma expand_squote_chars:
  "expand_loop w sb ari Words line s False False out (char_indices_from i (squote_chars cs) @ rest)
     = expand_loop w sb ari Words line s False False (out @ concat (squote_chars cs)) rest"
  by (simp add: squote_chars_def char_indices_from_append expand_loop_quote expand_quoted_body)

lemma expand_line_chars:
  "expand_loop w sb ari Words line s False False out (char_indices_from i (line_chars css))
     = Done (out @ concat (line_chars css), s)"
proof (induction css arbitrary: i out rule: line_chars.induct)
  case (2 cs)
  show ?case using expand_squote_chars [of w sb ari line s out i cs "[]"] by simp
qed (simp_all add: char_indices_from_append expand_squote_chars expand_loop_blank)

lemma expand_at_squotes:
  assumes "list_all utf8_valid ws"
  shows "expand_at n w d s (join '' '' (map squote ws)) Words = Done (join '' '' (map squote ws), s)"
proof -
  have "concat (line_chars (map chars ws)) = join '' '' (map squote ws)"
    using chars_squotes [OF assms] concat_chars by metis
  then show ?thesis
    by (cases n) (simp_all add: expand_with_def char_indices_def chars_squotes [OF assms] expand_line_chars)
qed

lemma squotes_not_blank:
  assumes "list_all utf8_valid ws" "ws \<noteq> []"
  shows "trim (join '' '' (map squote ws)) \<noteq> []"
proof -
  obtain cs where cs: "chars (join '' '' (map squote ws)) = [CHR 0x27] # cs"
    using chars_squotes [OF assms(1)] assms(2) by (cases "map chars ws" rule: line_chars.cases) (auto simp: squote_chars_def)
  have q: "\<not> is_whitespace [CHR 0x27]" by (simp add: is_whitespace_def)
  have "[CHR 0x27] \<in> set (dropWhile is_whitespace (rev cs @ [[CHR 0x27]]))"
    using q by (simp add: dropWhile_append)
  then show ?thesis using cs q by (auto simp: trim_def trim_chars_def)
qed

text \<open>What a line of one command reports, from the command's result.\<close>

definition report :: "command_result \<Rightarrow> line_output" where
  "report r =
     (let o1 = output_push output_default (c_output r) (truncate_stream (c_stderr r) MAX_COMMAND_OUTPUT_BYTES)
      in (if c_exit r then o1\<lparr>o_exit := True\<rparr>
          else if length (o_text o1) \<ge> MAX_COMMAND_OUTPUT_BYTES then cap_output o1 else o1)\<lparr>o_status := c_status r\<rparr>)"

text \<open>The session a line's only command starts in.\<close>

definition poised :: "shell \<Rightarrow> shell" where
  "poised s = s\<lparr>sh_heredoc_stdin := None, sh_subst_stderr := [], sh_stdin := sh_heredoc_stdin s,
     sh_stdout_is_tty := (sh_subst_depth s = 0)\<rparr>"

lemma run_pipeline_squotes:
  assumes ws: "list_all utf8_valid ws" "ws \<noteq> []" and r: "d (poised s) ws = (r, t)" and err: "sh_subst_stderr s = []"
  shows "run_pipeline w d (expand_at n w d) s (join '' '' (map squote ws))
    = Done (Some (r\<lparr>c_stderr := truncate_stream (c_stderr r) MAX_COMMAND_OUTPUT_BYTES\<rparr>),
        t\<lparr>sh_stdin := None, sh_stdout_is_tty := True\<rparr>)"
  using squotes_inert [OF ws(1)] r [unfolded poised_def] err ws(2)
  by (simp add: run_pipeline_def run_stage_def parse_line_def expand_at_squotes [OF ws(1)] sinks_default_def
      route_output_def merge_streams_def)

lemma run_segments_one:
  assumes "trim l \<noteq> []" "run s l = Done (Some (r\<lparr>c_stderr := truncate_stream (c_stderr r) MAX_COMMAND_OUTPUT_BYTES\<rparr>), t)"
  shows "run_segments run s output_default 0 False [\<lparr>g_run_if = Always, g_text = l\<rparr>] = Done (report r, t\<lparr>sh_last_status := c_status r\<rparr>)"
  using assms by (simp add: should_run_def report_def finish_line_def Let_def)

lemma execute_body_squotes:
  assumes ws: "list_all utf8_valid ws" "ws \<noteq> []" and s: "s' = (if sh_nesting s = 0
      then s\<lparr>sh_captures := [], sh_subst_budget := MAX_COMMAND_OUTPUT_BYTES, sh_subst_stderr := []\<rparr> else s\<lparr>sh_captures := []\<rparr>)"
    and r: "d (poised s') ws = (r, t)" and err: "sh_subst_stderr s' = []"
  shows "execute_body w d (expand_at n w d) s (join '' '' (map squote ws))
    = Done (report r, t\<lparr>sh_stdin := None, sh_stdout_is_tty := True, sh_last_status := c_status r\<rparr>)"
proof -
  let ?l = "join '' '' (map squote ws)"
  have "execute_body w d (expand_at n w d) s ?l
      = run_segments (run_pipeline w d (expand_at n w d)) s' output_default 0 False [\<lparr>g_run_if = Always, g_text = ?l\<rparr>]"
    using squotes_inert [OF ws(1)] by (simp add: execute_body_def Let_def s del: run_segments.simps)
  also have "\<dots> = Done (report r, t\<lparr>sh_stdin := None, sh_stdout_is_tty := True, sh_last_status := c_status r\<rparr>)"
    by (rule run_segments_one [OF squotes_not_blank [OF ws]]) (rule run_pipeline_squotes [where d = d, OF ws r err])
  finally show ?thesis .
qed

section \<open>A sample session\<close>

definition sample_world :: world where
  "sample_world = \<lparr>w_now = 0, w_unicode = \<lparr>u_alphabetic = \<lambda>_. False, u_alphanumeric = \<lambda>_. False\<rparr>\<rparr>"

definition sample_shell :: shell where
  "sample_shell = \<lparr>sh_vfs = vfs_new 0, sh_env = [], sh_cwd = 0, sh_home = 0, sh_prev_cwd = 0,
     sh_username = ''root'', sh_hostname = ''box'', sh_uid = 0, sh_gid = 0, sh_last_status = 0, sh_pid = 1337,
     sh_login = 0, sh_nesting = 0, sh_subst_budget = MAX_COMMAND_OUTPUT_BYTES, sh_subst_stderr = [],
     sh_stdin = None, sh_stdout_is_tty = True, sh_interactive = True, sh_history = [], sh_captures = [],
     sh_pending = None, sh_screen = None, sh_subst_depth = 0, sh_persona = persona_sample, sh_heredoc_stdin = None,
     sh_heredoc_log = None\<rparr>"

text \<open>Commands that write their operands, or fetch: change the directory and record a download.\<close>

definition sample_dispatch :: dispatcher where
  "sample_dispatch s argv =
     (if hd argv = ''get'' then (cr_ok [], s\<lparr>sh_cwd := 7, sh_captures := sh_captures s @ [Download ''get'' (concat (tl argv)) []]\<rparr>)
      else (cr_ok (concat (tl argv)), s))"

lemma sample_words: "list_all utf8_valid [''get'', ''u'']"
  by (simp add: utf8_valid.simps utf8_step_def byte_at_def)

lemma sample_get:
  assumes "sh_captures s = []"
  shows "sample_dispatch (poised s) [''get'', ''u''] = (cr_ok [], (poised s)\<lparr>sh_cwd := 7, sh_captures := [Download ''get'' ''u'' []]\<rparr>)"
  using assms by (simp add: sample_dispatch_def poised_def)

definition sample_line :: str where
  "sample_line = ''$('' @ join '' '' (map squote [''get'', ''u'']) @ '')''"

lemma sample_indices:
  "\<exists>rest. char_indices sample_line = (0, ''$'') # rest \<and> dropWhile (\<lambda>(j, _). j < 12) rest = []"
  by (rule exI [of _ "tl (char_indices sample_line)"]) code_simp

lemma sample_expand:
  "\<exists>tx t. expand sample_world sample_dispatch sample_shell sample_line mode = Done (tx, t) \<and> sh_captures t = [Download ''get'' ''u'' []]"
proof -
  let ?body = "join '' '' (map squote [''get'', ''u''])"
  have bytes: "sample_line = CHR ''$'' # CHR ''('' # CHR 0x27 # ''get'' @ CHR 0x27 # CHR '' '' # CHR 0x27 # ''u'' @ CHR 0x27 # '')''"
    by (simp add: sample_line_def squote_def squote_byte_def)
  have at: "substitution_at sample_line 0 = Some \<lparr>s_end = 12, s_body = (2, 11), s_arithmetic = False\<rparr>"
    unfolding bytes by (simp add: substitution_at_def byte_get_def paren_close.simps paren_step_def)
  have body: "str_slice sample_line 2 11 = Done ?body"
    by (simp add: str_slice_def bytes slice_def boundary_def squote_def squote_byte_def ascii_not_continuation)
  let ?s = "sample_shell\<lparr>sh_nesting := 1, sh_subst_depth := 1, sh_captures := []\<rparr>"
  have run: "\<exists>t. execute_body w sample_dispatch (expand_at n w sample_dispatch) ?s ?body
      = Done (report (cr_ok []), t) \<and> sh_captures t = [Download ''get'' ''u'' []]" for n w
    using execute_body_squotes [where s = ?s and d = sample_dispatch, OF sample_words _ refl sample_get]
    by (simp add: sample_shell_def)
  have "\<exists>tx t. substitute (execute_body w sample_dispatch (expand_at n w sample_dispatch)) sample_shell ?body
      = Done (tx, t) \<and> sh_captures t = [Download ''get'' ''u'' []]" for n w
  proof -
    obtain t where t: "execute_body w sample_dispatch (expand_at n w sample_dispatch) ?s ?body = Done (report (cr_ok []), t)"
        "sh_captures t = [Download ''get'' ''u'' []]" using run by blast
    have [simp]: "sh_nesting sample_shell = 0" "sh_subst_depth sample_shell = 0" "sh_captures sample_shell = []" 
      by (simp_all add: sample_shell_def)
    show ?thesis using t
      by (simp add: substitute_def MAX_NESTED_COMMANDS_def Let_def split: prod.split) 
  qed
  then obtain tx t where t: "substitute (execute_body sample_world sample_dispatch (expand_at 15 sample_world sample_dispatch))
      sample_shell ?body = Done (tx, t)" "sh_captures t = [Download ''get'' ''u'' []]" by blast
  obtain rest where rest: "char_indices sample_line = (0, ''$'') # rest" "dropWhile (\<lambda>(j, _). j < 12) rest = []"
    using sample_indices by blast
  have "substitution_in False sample_line 0 ''$'' = Some \<lparr>s_end = 12, s_body = (2, 11), s_arithmetic = False\<rparr>"
    using at by (simp add: substitution_in_def)
  note step = expand_loop_subst [OF this]
  have n: "MAX_NESTED_COMMANDS = Suc 15" by (simp add: MAX_NESTED_COMMANDS_def)
  show ?thesis unfolding expand_def n expand_at.simps expand_with_def rest(1) step
    using t body rest(2) by (simp del: dropWhile_eq_Nil_conv)
qed

definition sample_file_shell :: shell where
  "sample_file_shell = sample_shell\<lparr>sh_vfs := fx4\<rparr>"

definition sample_sink :: redir_sink where
  "sample_sink = \<lparr>k_path = ''/tmp/a'', k_node = Some 2, k_append = True\<rparr>"

definition sample_doc :: heredoc where
  "sample_doc = \<lparr>h_delimiter = ''EOF'', h_strip_tabs = True, h_expand = False\<rparr>"

section \<open>Captures of a here-document's body\<close>

text \<open>
  Running the line a here-document was opened on starts by dropping what was captured so far, which
  is what the substitutions in its body captured: a download made there leaves the filesystem changed
  and no event behind. The same substitution in the line itself keeps its event.
\<close>

lemma heredoc_forgets_captures:
  assumes "h_expand doc"
    and "expand w d (s\<lparr>sh_pending := None, sh_heredoc_log := Some (raw @ [CHR 0x0A] @ body @ h_delimiter doc)\<rparr>) body Literal = Done (tx, s2)"
  shows "run_heredoc w d s command raw doc body
    = obind (execute w d (s2\<lparr>sh_captures := [], sh_heredoc_stdin := Some tx\<rparr>) command) (\<lambda>(o1, s3). Done (o1, s3\<lparr>sh_heredoc_stdin := None\<rparr>))"
  using assms by (simp add: run_heredoc_def Let_def execute_def execute_body_def)

section \<open>Properties\<close>

text \<open>C12: a command substitution cannot touch the session it runs in. Expanding a line, whatever
  substitutions and arithmetic it holds and whatever their commands do, leaves the environment, the
  working, previous and home directories, the user and its ids, the pending prompt and the held
  screen as they were, and the events captured before are all still there, in order, followed by
  those the substitutions captured.\<close>

theorem substitution_isolated:
  assumes "expand w d s line mode = Done (tx, t)"
  shows "sh_env t = sh_env s \<and> sh_cwd t = sh_cwd s \<and> sh_prev_cwd t = sh_prev_cwd s \<and> sh_home t = sh_home s
    \<and> sh_username t = sh_username s \<and> sh_uid t = sh_uid s \<and> sh_gid t = sh_gid s
    \<and> sh_pending t = sh_pending s \<and> sh_screen t = sh_screen s
    \<and> (\<exists>cs. sh_captures t = sh_captures s @ cs)"
  using expand_at_rel [OF assms [unfolded expand_def]] by (simp add: subshell_rel_def identity_of_def)

theorem substitution_isolated_witness:
  "\<exists>tx t. expand sample_world sample_dispatch sample_shell sample_line Words = Done (tx, t) \<and> sh_cwd t = sh_cwd sample_shell
     \<and> sh_captures t = [Download ''get'' ''u'' []]"
proof -
  obtain tx t where "expand sample_world sample_dispatch sample_shell sample_line Words = Done (tx, t)"
      "sh_captures t = [Download ''get'' ''u'' []]"
    using sample_expand by blast
  with substitution_isolated [OF this(1)] show ?thesis by blast
qed

text \<open>C34: what a line writes is bounded as a whole. Unless the line ended the session, the terminal text
  and each of the two streams are at most the cap and the notice that marks a cut, however many commands
  the line chains and whatever they write.\<close>

theorem line_output_bounded:
  assumes "execute w d s line = Done (o1, t)" "\<not> o_exit o1"
  shows "length (o_text o1) \<le> MAX_COMMAND_OUTPUT_BYTES + 24 \<and> length (o_stdout o1) \<le> MAX_COMMAND_OUTPUT_BYTES + 24
    \<and> length (o_stderr o1) \<le> MAX_COMMAND_OUTPUT_BYTES + 24"
proof -
  have "capped output_default" using modest_capped [OF modest_default, of False 0] by (simp add: finish_line_def)
  then have "capped o1" using assms run_segments_capped [OF modest_default]
    by (auto simp: execute_def execute_body_def Let_def split: option.splits prod.splits if_splits)
  then show ?thesis by (simp add: capped_def)
qed

theorem line_output_bounded_witness:
  "\<exists>o1 t. execute sample_world sample_dispatch sample_shell (join '' '' (map squote [''get'', ''u''])) = Done (o1, t)
     \<and> length (o_text o1) \<le> MAX_COMMAND_OUTPUT_BYTES + 24"
proof -
  have "\<exists>t. execute sample_world sample_dispatch sample_shell (join '' '' (map squote [''get'', ''u''])) = Done (report (cr_ok []), t)"
    using execute_body_squotes [where s = sample_shell and d = sample_dispatch, OF sample_words _ refl sample_get]
    by (simp add: sample_shell_def execute_def expand_def)
  moreover have "\<not> o_exit (report (cr_ok []))"
    by (simp add: report_def cr_ok_def Let_def output_push_def output_default_def cap_output_def)
  ultimately show ?thesis using line_output_bounded by blast
qed

text \<open>\<open>cmd > f 2>&1\<close> collects both streams in one file, in the order the terminal would have shown
  them. When both streams are pointed at an open file and the filesystem has room, nothing reaches the
  client and the status is the command's; the file holds the error text followed by the output,
  replacing what it held or, when opened for appending, after it.\<close>

theorem both_streams_one_file:
  fixes v :: vfs
  assumes "sh_vfs s = v" "i < fsize v" "n_kind (fnode v i) = File c" "length c \<le> content_bytes v"
    and k: "k_node k = Some i" "ks = \<lparr>ks_stdout = Some k, ks_stderr = Some k, ks_stderr_merged = False, ks_stdout_merged = False\<rparr>"
    and room: "content_bytes v + length (c_stderr r) + length (c_output r) \<le> MAX_VFS_BYTES"
    and some: "c_stderr r @ c_output r \<noteq> []"
  shows "\<exists>r' t. route_output w s r ks = (r', t) \<and> c_output r' = [] \<and> c_stderr r' = [] \<and> c_status r' = c_status r
    \<and> n_kind (fnode (sh_vfs t) i) = File ((if k_append k then c else []) @ c_stderr r @ c_output r)"
proof -
  let ?pre = "if k_append k then c else []"
  have first: "\<exists>v1. divert w s k tx None = (None, Some i, s\<lparr>sh_vfs := v1\<rparr>) \<and> n_kind (fnode v1 i) = File (?pre @ tx)
      \<and> fsize v1 = fsize v \<and> content_bytes v1 = content_bytes v - length c + length (?pre @ tx)"
    if "tx \<noteq> []" "content_bytes v + length tx \<le> MAX_VFS_BYTES" for tx
    by (rule divert_file [OF k(1), of s c tx "k_append k" None w]) (use assms that in \<open>auto split: if_splits\<close>)
  have "\<exists>t. divert w s k (c_stderr r) None = (None, if c_stderr r = [] then None else Some i, t)
      \<and> (\<exists>l u. divert w t k (c_output r) (if c_stderr r = [] then None else Some i) = (None, l, u)
          \<and> n_kind (fnode (sh_vfs u) i) = File (?pre @ c_stderr r @ c_output r))"
  proof (cases "c_stderr r = []")
    case True
    then show ?thesis using first [of "c_output r"] room some by (fastforce simp: divert_def)
  next
    case False
    then obtain v1 where d: "divert w s k (c_stderr r) None = (None, Some i, s\<lparr>sh_vfs := v1\<rparr>)"
        and v1: "n_kind (fnode v1 i) = File (?pre @ c_stderr r)" "fsize v1 = fsize v"
          "content_bytes v1 = content_bytes v - length c + length (?pre @ c_stderr r)"
      using first [of "c_stderr r"] room by auto
    let ?s1 = "s\<lparr>sh_vfs := v1\<rparr>"
    have "\<exists>l u. divert w ?s1 k (c_output r) (Some i) = (None, l, u)
        \<and> n_kind (fnode (sh_vfs u) i) = File (?pre @ c_stderr r @ c_output r)"
    proof (cases "c_output r = []")
      case True
      then show ?thesis using v1(1) by (simp add: divert_def)
    next
      case out: False
      show ?thesis
        by (rule divert_file [OF k(1), of ?s1 "?pre @ c_stderr r" "c_output r" True "Some i" w])
           (use v1 out assms room in \<open>auto split: if_splits\<close>)
    qed
    then show ?thesis using d False by auto
  qed
  then show ?thesis using k(2) by (fastforce simp: route_output_def Let_def merge_streams_def)
qed

theorem both_streams_one_file_witness:
  "\<exists>r' t. route_output sample_world sample_file_shell (cr_streams ''out'' ''err'' 3)
       \<lparr>ks_stdout = Some sample_sink, ks_stderr = Some sample_sink, ks_stderr_merged = False, ks_stdout_merged = False\<rparr> = (r', t)
     \<and> c_output r' = [] \<and> c_stderr r' = [] \<and> c_status r' = 3 \<and> n_kind (fnode (sh_vfs t) 2) = File ''helloerrout''"
proof -
  let ?r = "cr_streams ''out'' ''err'' 3"
  have "sh_vfs sample_file_shell = fx4" "2 < fsize fx4" "n_kind (fnode fx4 2) = File ''hello''" "length ''hello'' \<le> content_bytes fx4"
      "k_node sample_sink = Some 2" "content_bytes fx4 + length (c_stderr ?r) + length (c_output ?r) \<le> MAX_VFS_BYTES"
      "c_stderr ?r @ c_output ?r \<noteq> []"
    by (simp_all add: sample_file_shell_def sample_sink_def cr_streams_def MAX_VFS_BYTES_def fx_facts)
  from both_streams_one_file [OF this(1-5) refl this(6,7), of sample_world] show ?thesis
    by (simp add: sample_sink_def cr_streams_def)
qed

text \<open>C33: a here-document hands its body on whole. When a line of quoted words has opened one, answering with
  any lines that are not its delimiter, as long as together they fit the cap of one mebibyte, prints nothing
  and runs nothing; the delimiter then calls the dispatcher once, with exactly those words and with
  exactly those lines, each ended by a newline (for \<open><<-\<close> without its leading tabs, and expanded once unless the
  delimiter was quoted), as standard input. What the command printed is the answer to the delimiter.\<close>

theorem heredoc_collects:
  assumes "sh_pending s = Some (HeredocPending (join '' '' (map squote ws)) raw doc [])"
    "\<And>l. l \<in> set ls \<Longrightarrow> heredoc_line doc l \<noteq> h_delimiter doc" "heredoc_line doc final = h_delimiter doc"
    "sum_list (map (\<lambda>l. Suc (length (heredoc_line doc l))) ls) \<le> 1048576"
    and ws: "list_all utf8_valid ws" "ws \<noteq> []"
    and body: "body = concat (map (\<lambda>l. heredoc_line doc l @ [CHR 0x0A]) ls)"
      "s1 = s\<lparr>sh_pending := None, sh_heredoc_log := Some (raw @ [CHR 0x0A] @ body @ h_delimiter doc)\<rparr>"
      "(if h_expand doc then expand w d s1 body Literal else Done (body, s1)) = Done (tx, s2)" "sh_nesting s2 = 0"
    and run: "d (s2\<lparr>sh_captures := [], sh_subst_budget := MAX_COMMAND_OUTPUT_BYTES, sh_heredoc_stdin := None,
      sh_subst_stderr := [], sh_stdin := Some tx, sh_stdout_is_tty := (sh_subst_depth s2 = 0)\<rparr>) ws = (r, t)"
  shows "answer_all w d s (ls @ [final]) = Done (replicate (length ls) output_default @ [report r],
    t\<lparr>sh_stdin := None, sh_stdout_is_tty := True, sh_last_status := c_status r, sh_heredoc_stdin := None\<rparr>)"
proof -
  let ?s = "s2\<lparr>sh_heredoc_stdin := Some tx\<rparr>"
  have "execute w d ?s (join '' '' (map squote ws))
      = Done (report r, t\<lparr>sh_stdin := None, sh_stdout_is_tty := True, sh_last_status := c_status r\<rparr>)"
    unfolding execute_def expand_def
    by (rule execute_body_squotes [where d = d, OF ws refl]) (use run body(4) in \<open>simp_all add: poised_def\<close>)
  moreover have same: "s\<lparr>sh_pending := None, sh_pending := None, sh_heredoc_log := Some (raw @ [CHR 0x0A] @ body @ h_delimiter doc)\<rparr> = s1"
    by (simp add: body(2))
  ultimately have "run_heredoc w d (s\<lparr>sh_pending := None\<rparr>) (join '' '' (map squote ws)) raw doc body
      = Done (report r, t\<lparr>sh_stdin := None, sh_stdout_is_tty := True, sh_last_status := c_status r, sh_heredoc_stdin := None\<rparr>)"
    unfolding run_heredoc_def Let_def same body(3) by simp
  then show ?thesis
    using answer_all_collects [of "join '' '' (map squote ws)" raw doc "[]" s ls final w d] assms(1-4) body(1)
    by (simp add: parked_def MAX_COMMAND_OUTPUT_BYTES_def)
qed

definition heredoc_shell :: shell where
  "heredoc_shell = sample_shell\<lparr>sh_pending := Some (HeredocPending (join '' '' (map squote [''get'', ''u''])) ''get u <<-EOF'' sample_doc [])\<rparr>"

theorem heredoc_collects_witness:
  "\<exists>t. answer_all sample_world sample_dispatch heredoc_shell [''a'', CHR 0x09 # ''b'', ''EOF'']
     = Done ([output_default, output_default, report (cr_ok [])], t) \<and> sh_captures t = [Download ''get'' ''u'' []]"
proof -
  have b: "heredoc_line sample_doc l \<noteq> h_delimiter sample_doc" if "l \<in> set [''a'', CHR 0x09 # ''b'']" for l
    using that by (auto simp: heredoc_line_def sample_doc_def)
  have e: "heredoc_line sample_doc ''EOF'' = h_delimiter sample_doc" by (simp add: heredoc_line_def sample_doc_def)
  have p: "sh_pending heredoc_shell = Some (HeredocPending (join '' '' (map squote [''get'', ''u''])) ''get u <<-EOF'' sample_doc [])"
    by (simp add: heredoc_shell_def)
  have n: "sum_list (map (\<lambda>l. Suc (length (heredoc_line sample_doc l))) [''a'', CHR 0x09 # ''b'']) \<le> 1048576"
    by (simp add: heredoc_line_def sample_doc_def)
  from heredoc_collects [OF p b e n sample_words _ refl refl, where w = sample_world and d = sample_dispatch]
  show ?thesis by (simp add: sample_doc_def heredoc_shell_def sample_shell_def sample_dispatch_def)
qed

text \<open>C14: a fully quoted line runs exactly the command it names. For any words of text, none of whose
  bytes can be read as syntax inside single quotes, the line of the words in single quotes (an
  embedded quote closed, escaped and reopened) calls the dispatcher once, with exactly those words,
  on a terminal and with the here-document text as standard input; no comment, separator, pipe,
  redirection, here-document, variable or substitution in them takes effect. The line reports the
  command's streams, status and exit, and the session is the one the command left, with its status
  remembered.\<close>

theorem quoted_line_runs:
  assumes "list_all utf8_valid ws" "ws \<noteq> []" "sh_nesting s = 0"
    and "d (poised (s\<lparr>sh_captures := [], sh_subst_budget := MAX_COMMAND_OUTPUT_BYTES, sh_subst_stderr := []\<rparr>)) ws = (r, t)"
  shows "execute w d s (join '' '' (map squote ws))
    = Done (report r, t\<lparr>sh_stdin := None, sh_stdout_is_tty := True, sh_last_status := c_status r\<rparr>)"
  unfolding execute_def expand_def
  by (rule execute_body_squotes [where d = d, OF assms(1,2) refl]) (use assms in simp_all)

theorem quoted_line_runs_witness:
  "\<exists>t. execute sample_world sample_dispatch sample_shell (join '' '' (map squote [''get'', ''u''])) = Done (report (cr_ok []), t)
     \<and> sh_captures t = [Download ''get'' ''u'' []]"
  using quoted_line_runs [where s = sample_shell and d = sample_dispatch and w = sample_world, OF sample_words _ _ sample_get]
  by (simp add: sample_shell_def)

end
