(* ===== verification/Fs_Commands_Props.thy ===== *)
theory Fs_Commands_Props
  imports Vfs_Descend Session_Keeps Shell_Props
begin

text \<open>
  The commands that change the filesystem. Their loops over operands share a contract, the locale
  \<open>operand_loop\<close>: one operand keeps the session well-formed, and the exit status tells whether anything was
  said. From it follows what every command does, and that the file commands discharge what the shell
  asks of the functions behind its command names.
\<close>

section \<open>Loops over operands\<close>

definition sess :: "tally \<Rightarrow> shell" where
  "sess t = snd (snd t)"

definition honest :: "tally \<Rightarrow> bool" where
  "honest t \<longleftrightarrow> (fst t = [] \<longleftrightarrow> fst (snd t) = 0)"

lemma sess_simps [simp]: "sess (errs, status, s) = s"
  by (simp add: sess_def)

lemma honest_start [simp]: "honest ([], 0, s)"
  by (simp add: honest_def)

lemma honest_said [simp]: "e \<noteq> [] \<Longrightarrow> honest (e, 1, s)"
  by (simp add: honest_def)

lemma honest_vfs: "honest (errs, status, s) \<Longrightarrow> honest (errs, status, t)"
  by (simp add: honest_def)

lemma complain_simps [simp]:
  "sess (complain what path reason t) = sess t" "honest (complain what path reason t)"
  "sess (cannot_move src dest reason t) = sess t" "honest (cannot_move src dest reason t)"
  "sess (into_itself src dest nm t) = sess t" "honest (into_itself src dest nm t)"
  by (cases t; simp add: complain_def cannot_move_def into_itself_def honest_def)+

text \<open>An operand may fail to return: \<open>None\<close>.\<close>

definition advances :: "tally \<Rightarrow> tally option \<Rightarrow> bool" where
  "advances t q \<longleftrightarrow> (case q of Some t' \<Rightarrow> keeps_wf (sess t) (sess t') \<and> (honest t \<longrightarrow> honest t') | None \<Rightarrow> False)"

lemma advances_Some: "advances t (Some t') \<longleftrightarrow> keeps_wf (sess t) (sess t') \<and> (honest t \<longrightarrow> honest t')"
  by (simp add: advances_def)

lemma advances_same: "session_wf (sess t) \<Longrightarrow> advances t (Some t)"
  by (simp add: advances_Some keeps_wf_refl)

lemma advances_said: "session_wf (sess t) \<Longrightarrow> sess t' = sess t \<Longrightarrow> honest t' \<Longrightarrow> advances t (Some t')"
  by (simp add: advances_Some keeps_wf_refl)

lemma advances_vfs: "keeps_wf s (s\<lparr>sh_vfs := v\<rparr>) \<Longrightarrow> advances (errs, status, s) (Some (errs, status, s\<lparr>sh_vfs := v\<rparr>))"
  by (auto simp: advances_Some honest_def)

lemma advancesE:
  assumes "advances t q"
  obtains t' where "q = Some t'" "keeps_wf (sess t) (sess t')" "honest t \<longrightarrow> honest t'"
  using assms by (auto simp: advances_def split: option.splits)

lemma advances_trans: "advances t (Some u) \<Longrightarrow> advances u q \<Longrightarrow> advances t q"
  by (auto simp: advances_def split: option.splits intro: keeps_wf_trans)

locale operand_loop =
  fixes step :: "'a \<Rightarrow> tally \<Rightarrow> tally option"
  assumes step_advances: "session_wf (sess t) \<Longrightarrow> advances t (step x t)"
begin

lemma loop_advances: "session_wf (sess t) \<Longrightarrow> advances t (fold_opt step xs t)"
proof (induction xs arbitrary: t)
  case Nil
  then show ?case by (simp add: advances_same)
next
  case (Cons x xs)
  obtain u where u: "step x t = Some u" "keeps_wf (sess t) (sess u)" "honest t \<longrightarrow> honest u"
    using step_advances [OF Cons.prems, of x] by (rule advancesE)
  then have "advances u (fold_opt step xs u)" using Cons.IH keeps_wf_session by blast
  then show ?case using u by (auto simp: advances_def split: option.splits intro: keeps_wf_trans)
qed

end

lemma fold_opt_total: "fold_opt (\<lambda>x t. Some (f x t)) xs t = Some (fold f xs t)"
  by (induction xs arbitrary: t) simp_all

locale total_operand_loop =
  fixes total_step :: "'a \<Rightarrow> tally \<Rightarrow> tally"
  assumes total_advances: "session_wf (sess t) \<Longrightarrow> advances t (Some (total_step x t))"

sublocale total_operand_loop \<subseteq> operand_loop "\<lambda>x t. Some (total_step x t)"
  by unfold_locales (rule total_advances)

section \<open>The operands of each command\<close>

lemma keeps_touch: "session_wf s \<Longrightarrow> p < fsize (sh_vfs s) \<Longrightarrow> keeps_wf s (s\<lparr>sh_vfs := snd (touch now (sh_vfs s) p nm u g)\<rparr>)"
  by (rule keeps_wf_result) (simp_all add: good_touch session_vfs)

lemma keeps_mkdir: "session_wf s \<Longrightarrow> p < fsize (sh_vfs s) \<Longrightarrow> keeps_wf s (s\<lparr>sh_vfs := snd (mkdir now (sh_vfs s) p nm perms u g)\<rparr>)"
  by (rule keeps_wf_result) (simp_all add: good_mkdir session_vfs)

lemma keeps_deep_copy:
  "session_wf s \<Longrightarrow> i < fsize (sh_vfs s) \<Longrightarrow> p < fsize (sh_vfs s) \<Longrightarrow> keeps_wf s (s\<lparr>sh_vfs := snd (deep_copy now (sh_vfs s) i p nm)\<rparr>)"
  unfolding deep_copy_def by (rule keeps_wf_result) (simp_all add: good_deep_copy_inner session_vfs)

interpretation touch: total_operand_loop "touch_one w no_create" for w no_create
proof
  fix t x assume wf: "session_wf (sess t)"
  obtain errs status s where t: "t = (errs, status, s)" by (cases t)
  have "advances t (Some (errs, status, s\<lparr>sh_vfs := snd (touch (w_now w) (sh_vfs s) p nm (sh_uid s) (sh_gid s))\<rparr>))"
    if "resolve_parent s x = Some (p, nm)" for p nm
    using advances_vfs [OF keeps_touch] resolve_parent_range [OF _ that] wf t by simp
  then show "advances t (Some (touch_one w no_create x t))"
    using wf t by (auto simp: touch_one_def intro!: advances_same advances_said split: option.split)
qed

lemma parent_range:
  assumes "wf_tree v" "i < fsize v" "n_parent (fnode v i) = Some p"
  shows "p < fsize v"
proof -
  obtain k where "at_depth v i k" using wf_treeD(4) [OF assms(1,2)] by blast
  then show ?thesis using assms(3) by (cases rule: at_depth.cases) (auto dest: at_depth_range)
qed

lemma mkdir_walk_advances:
  "session_wf (sess t) \<Longrightarrow> current < fsize (sh_vfs (sess t)) \<Longrightarrow> advances t (Some (mkdir_walk w path current segs t))"
proof (induction w path current segs t rule: mkdir_walk.induct)
  case (1 w path current t)
  then show ?case by (simp add: advances_same)
next
  case (2 w path current seg segs errs status s)
  let ?t = "(errs, status, s)"
  have wf: "session_wf s" "current < fsize (sh_vfs s)" using "2.prems" by simp_all
  have said: "advances ?t (Some (complain a b c ?t))" for a b c using wf by (intro advances_said) simp_all
  have up: "(case n_parent (fnode (sh_vfs s) current) of Some p \<Rightarrow> p | None \<Rightarrow> current) < fsize (sh_vfs s)"
    using wf parent_range [OF wf_vfsD(1) [OF session_vfs [OF wf(1)]] wf(2)] by (simp split: option.split)
  obtain i v where mk: "mkdir (w_now w) (sh_vfs s) current seg o755 (sh_uid s) (sh_gid s) = (i, v)" by fastforce
  note g = good_mkdir [OF session_vfs [OF wf(1)] wf(2), of "w_now w" seg o755 "sh_uid s" "sh_gid s", unfolded mk]
  have new: "advances ?t (Some (errs, status, s\<lparr>sh_vfs := v\<rparr>))" "session_wf (s\<lparr>sh_vfs := v\<rparr>)" "i < fsize v"
    using advances_vfs [OF keeps_wf_result [OF wf(1) g]] keeps_vfs_op [OF wf(1) g] g by (auto simp: good_result_def)
  have "advances ?t (Some (mkdir_walk w path i segs (errs, status, s\<lparr>sh_vfs := v\<rparr>)))"
    if "\<not> (seg = [] \<or> seg = ''.'')" "seg \<noteq> ''..''" "child (sh_vfs s) current seg = None" "\<not> is_full (sh_vfs s) current"
    using "2.IH"(3) [OF that mk [symmetric]] new advances_trans [OF new(1)] by simp
  moreover have "advances ?t (Some (mkdir_walk w path c segs ?t))"
    if "\<not> (seg = [] \<or> seg = ''.'')" "seg \<noteq> ''..''" "child (sh_vfs s) current seg = Some c" "\<not> \<not> is_dir (n_meta (fnode (sh_vfs s) c))" for c
    using "2.IH"(4) [OF that] wf child_session [OF wf that(3)] by simp
  ultimately show ?case using "2.IH"(1,2) wf up mk said by (auto split: option.split)
qed

interpretation mkdir: total_operand_loop "mkdir_one w parents" for w parents
proof
  fix t x assume wf: "session_wf (sess t)"
  obtain errs status s where t: "t = (errs, status, s)" by (cases t)
  have "advances t (Some (errs, status, s\<lparr>sh_vfs := snd (mkdir (w_now w) (sh_vfs s) p nm o755 (sh_uid s) (sh_gid s))\<rparr>))"
    if "resolve_parent s x = Some (p, nm)" for p nm
    using advances_vfs [OF keeps_mkdir] resolve_parent_range [OF _ that] wf t by simp
  moreover have "(if starts_with x ''/'' then fs_root (sh_vfs s) else sh_cwd s) < fsize (sh_vfs s)"
    using wf t wf_treeD(1,2) [of "sh_vfs s"] by (auto simp: session_wf_def)
  ultimately show "advances t (Some (mkdir_one w parents x t))"
    using wf t by (auto simp: mkdir_one_def intro!: advances_same advances_said mkdir_walk_advances split: option.split)
qed

lemma rmdir_loop_advances: "session_wf (sess t) \<Longrightarrow> advances t (Some (rmdir_loop parents p t))"
proof (induction parents p t rule: rmdir_loop.induct)
  case (1 parents p errs status s)
  let ?t = "(errs, status, s)"
  have wf: "session_wf s" using "1.prems" by simp
  have said: "advances ?t (Some (complain a b c ?t))" for a b c using wf by (intro advances_said) simp_all
  show ?case
  proof (cases "\<exists>parent nm target. resolve_parent s p = Some (parent, nm) \<and> child (sh_vfs s) parent nm = Some target
      \<and> is_dir (n_meta (fnode (sh_vfs s) target)) \<and> no_entries (sh_vfs s) target")
    case True
    then obtain parent nm target where h: "resolve_parent s p = Some (parent, nm)" "child (sh_vfs s) parent nm = Some target"
        "is_dir (n_meta (fnode (sh_vfs s) target))" "no_entries (sh_vfs s) target" by blast
    let ?u = "(errs, status, s\<lparr>sh_vfs := snd (unlink (sh_vfs s) parent nm)\<rparr>)"
    have k: "keeps_wf s (s\<lparr>sh_vfs := snd (unlink (sh_vfs s) parent nm)\<rparr>)"
      using keeps_unlink [OF wf resolve_parent_range [OF wf h(1)]] .
    have u: "advances ?t (Some ?u)" using advances_vfs [OF k] .
    have "advances ?u (Some (rmdir_loop parents (fst (split_path p)) ?u))"
      if "\<not> (\<not> parents \<or> fst (split_path p) = ''.'' \<or> fst (split_path p) = ''/'' \<or> fst (split_path p) = [])"
      using "1.IH" [OF h(1) refl h(2) _ _ refl refl that] h(3,4) keeps_wf_session [OF k] by simp
    then show ?thesis using u h advances_trans [OF u] by (subst rmdir_loop.simps) (simp add: Let_def)
  next
    case False
    then show ?thesis using said by (subst rmdir_loop.simps) (auto split: option.split)
  qed
qed

interpretation rmdir: total_operand_loop "\<lambda>path. rmdir_loop parents (strip_trailing_slashes path)" for parents
  by unfold_locales (rule rmdir_loop_advances)

interpretation rm: total_operand_loop "rm_one fl" for fl
proof
  fix t x assume wf: "session_wf (sess t)"
  obtain errs status s where t: "t = (errs, status, s)" by (cases t)
  have "advances t (Some (errs, status, s\<lparr>sh_vfs := snd (unlink (sh_vfs s) p nm)\<rparr>))"
    if "resolve_parent s x = Some (p, nm)" for p nm
    using advances_vfs [OF keeps_unlink] resolve_parent_range [OF _ that] wf t by simp
  then show "advances t (Some (rm_one fl x t))"
    using wf t by (auto simp: rm_one_def Let_def intro!: advances_same advances_said split: option.split)
qed

lemma place_range: "session_wf s \<Longrightarrow> (\<And>d. dest_dir = Some d \<Longrightarrow> d < fsize (sh_vfs s)) \<Longrightarrow> place s dest_dir dest src = Some (p, nm) \<Longrightarrow> p < fsize (sh_vfs s)"
  using resolve_parent_range by (auto simp: place_def split: option.splits)

lemma existing_dir_range: "session_wf s \<Longrightarrow> existing_dir s dest = Some d \<Longrightarrow> d < fsize (sh_vfs s)"
  using resolve_session by (auto simp: existing_dir_def split: option.splits if_splits)

text \<open>A destination directory stays a node while the sources are copied or moved, since nodes are never freed:
  the loops below start over with the destination as of the first source.\<close>

definition dest_in :: "node_id option \<Rightarrow> tally \<Rightarrow> bool" where
  "dest_in dest_dir t \<longleftrightarrow> (\<forall>d. dest_dir = Some d \<longrightarrow> d < fsize (sh_vfs (sess t)))"

lemma dest_in_keeps: "dest_in dest_dir t \<Longrightarrow> keeps_wf (sess t) (sess u) \<Longrightarrow> dest_in dest_dir u"
  by (auto simp: dest_in_def keeps_wf_def)

lemma fold_opt_dest:
  assumes "\<And>x t. session_wf (sess t) \<Longrightarrow> dest_in dest_dir t \<Longrightarrow> advances t (f x t)"
  shows "session_wf (sess t) \<Longrightarrow> dest_in dest_dir t \<Longrightarrow> advances t (fold_opt f xs t)"
proof (induction xs arbitrary: t)
  case Nil
  then show ?case by (simp add: advances_same)
next
  case (Cons x xs)
  obtain u where u: "f x t = Some u" "keeps_wf (sess t) (sess u)" "honest t \<longrightarrow> honest u"
    using assms [OF Cons.prems, of x] by (rule advancesE)
  then have "advances u (fold_opt f xs u)" using Cons.IH keeps_wf_session dest_in_keeps [OF Cons.prems(2)] by blast
  then show ?case using u by (auto simp: advances_def split: option.splits intro: keeps_wf_trans)
qed

lemma cp_one_advances:
  assumes "session_wf (sess t)" "dest_in dest_dir t"
  shows "advances t (Some (cp_one w recursive dest_dir dest src t))"
proof -
  obtain errs status s where t: "t = (errs, status, s)" by (cases t)
  have wf: "session_wf s" using assms(1) t by simp
  have "advances t (Some (errs, status, s\<lparr>sh_vfs := snd (deep_copy (w_now w) (sh_vfs s) i p nm)\<rparr>))"
    if "resolve (sh_vfs s) (sh_cwd s) src = Some i" "place s dest_dir dest src = Some (p, nm)" for i p nm
    using advances_vfs [OF keeps_deep_copy [OF wf resolve_session [OF wf that(1)] place_range [OF wf _ that(2)]]] assms(2) t
    by (simp add: dest_in_def)
  then show ?thesis using wf t by (auto simp: cp_one_def intro!: advances_same advances_said split: option.split)
qed

lemma mv_one_advances:
  assumes "session_wf (sess t)" "dest_in dest_dir t"
  shows "advances t (mv_one dest_dir dest src t)"
proof -
  obtain errs status s where t: "t = (errs, status, s)" by (cases t)
  have wf: "session_wf s" using assms(1) t by simp
  have "advances t (Option.bind (rename (sh_vfs s) i p nm) (\<lambda>(moved, v). Some (if moved then (errs, status, s\<lparr>sh_vfs := v\<rparr>)
        else if is_ancestor_of v i p then into_itself src dest nm (errs, status, s\<lparr>sh_vfs := v\<rparr>)
        else cannot_move src dest ''File name too long'' (errs, status, s\<lparr>sh_vfs := v\<rparr>))))"
    if "resolve_parent s src = Some (q, n)" "child (sh_vfs s) q n = Some i" "place s dest_dir dest src = Some (p, nm)" for q n i p nm
  proof -
    have i: "i < fsize (sh_vfs s)" using child_session [OF wf resolve_parent_range [OF wf that(1)] that(2)] .
    have p: "p < fsize (sh_vfs s)" using place_range [OF wf _ that(3)] assms(2) t by (simp add: dest_in_def)
    show ?thesis
    proof (cases rule: rename_cases [OF session_vfs [OF wf] i p, of nm])
      case 1
      then show ?thesis using t wf by (auto simp: advances_Some keeps_wf_refl)
    next
      case (2 h)
      have "keeps_wf s (s\<lparr>sh_vfs := relink (sh_vfs s) i p nm\<rparr>)"
        using keeps_wf_vfs [OF wf wf_rename [OF session_vfs [OF wf] i p 2(1)]] by simp
      then show ?thesis using 2(1) t advances_vfs by simp
    qed
  qed
  then show ?thesis using wf t by (auto simp: mv_one_def Let_def intro!: advances_said split: option.split)
qed

lemma apply_chmod_keeps:
  assumes "session_wf s" "i < fsize (sh_vfs s)" "compute_mode spec (m_mode (n_meta (fnode (sh_vfs s) i)) AND o7777) = Some perms"
  obtains v where "apply_chmod (fsize (sh_vfs s)) spec recursive perms i (sh_vfs s) = Some v" "keeps_wf s (s\<lparr>sh_vfs := v\<rparr>)"
proof (cases recursive)
  case True
  have wf: "wf_vfs (sh_vfs s)" "wf_tree (sh_vfs s)" using session_vfs [OF assms(1)] by blast+
  obtain k where k: "at_depth (sh_vfs s) i k" using wf_treeD(4) [OF wf(2) assms(2)] by blast
  have p: "chmod_perms spec 0 (fnode (sh_vfs s) i) = perms" using assms(3) by (simp add: chmod_perms_def)
  obtain v where v: "apply_chmod (fsize (sh_vfs s)) spec True perms i (sh_vfs s) = Some v" "same_links (sh_vfs s) v"
    using chmod_walk.walk_returns [OF wf(2) k, of "fsize (sh_vfs s)" spec 0] p by auto
  then show thesis using that [of v] True keeps_wf_vfs [OF assms(1) same_links_wf [OF v(2) wf(1)]] by (auto simp: same_links_def)
next
  case False
  obtain n where "fsize (sh_vfs s) = Suc n" using assms(2) by (cases "fsize (sh_vfs s)") simp_all
  moreover have "keeps_wf s (s\<lparr>sh_vfs := chmod (sh_vfs s) i perms\<rparr>)"
    using keeps_wf_vfs [OF assms(1) wf_chmod [OF session_vfs [OF assms(1)] assms(2)]] by simp
  ultimately show thesis using that False by simp
qed

lemma apply_chown_keeps:
  assumes "session_wf s" "i < fsize (sh_vfs s)"
  obtains v where "apply_chown (fsize (sh_vfs s)) u g recursive i (sh_vfs s) = Some v" "keeps_wf s (s\<lparr>sh_vfs := v\<rparr>)"
proof (cases recursive)
  case True
  have wf: "wf_vfs (sh_vfs s)" "wf_tree (sh_vfs s)" using session_vfs [OF assms(1)] by blast+
  obtain k where k: "at_depth (sh_vfs s) i k" using wf_treeD(4) [OF wf(2) assms(2)] by blast
  obtain v where v: "apply_chown (fsize (sh_vfs s)) u g True i (sh_vfs s) = Some v" "same_links (sh_vfs s) v"
    using chown_walk.walk_returns [OF wf(2) k, of "fsize (sh_vfs s)" u g] by auto
  then show thesis using that [of v] True keeps_wf_vfs [OF assms(1) same_links_wf [OF v(2) wf(1)]] by (auto simp: same_links_def)
next
  case False
  obtain n where n: "fsize (sh_vfs s) = Suc n" using assms(2) by (cases "fsize (sh_vfs s)") simp_all
  have "keeps_wf s (s\<lparr>sh_vfs := chown (sh_vfs s) i x y\<rparr>)" for x y
    using keeps_wf_vfs [OF assms(1) wf_chown [OF session_vfs [OF assms(1)] assms(2)]] by simp
  then show thesis using that False n by (simp add: Let_def)
qed

interpretation chown: operand_loop "chown_one tool u g recursive" for tool u g recursive
proof
  fix t x assume wf: "session_wf (sess t)"
  obtain errs status s where t: "t = (errs, status, s)" by (cases t)
  have "advances t (map_option (\<lambda>v. (errs, status, s\<lparr>sh_vfs := v\<rparr>)) (apply_chown (fsize (sh_vfs s)) u g recursive i (sh_vfs s)))"
    if i: "resolve (sh_vfs s) (sh_cwd s) x = Some i" for i
  proof -
    have s: "session_wf s" using wf t by simp
    obtain v where "apply_chown (fsize (sh_vfs s)) u g recursive i (sh_vfs s) = Some v" "keeps_wf s (s\<lparr>sh_vfs := v\<rparr>)"
      using apply_chown_keeps [OF s resolve_session [OF s i]] by blast
    then show ?thesis using t advances_vfs by simp
  qed
  then show "advances t (chown_one tool u g recursive x t)"
    using wf t by (auto simp: chown_one_def intro!: advances_said split: option.split)
qed

section \<open>The commands\<close>

definition behaves :: "shell \<Rightarrow> (command_result \<times> shell) option \<Rightarrow> bool" where
  "behaves s q \<longleftrightarrow> (case q of Some (r, t) \<Rightarrow> keeps_wf s t \<and> (c_stderr r = [] \<longleftrightarrow> c_status r = 0) | None \<Rightarrow> False)"

lemma behaves_Some [simp]: "behaves s (Some (r, t)) \<longleftrightarrow> keeps_wf s t \<and> (c_stderr r = [] \<longleftrightarrow> c_status r = 0)"
  by (simp add: behaves_def)

lemma behaves_quit: "session_wf s \<Longrightarrow> e \<noteq> [] \<Longrightarrow> behaves s (Some (cr_err e 1, s))"
  by (simp add: keeps_wf_refl cr_err_def)

lemma behaves_missing: "session_wf s \<Longrightarrow> behaves s (Some (missing tool what, s))"
  unfolding missing_def by (rule behaves_quit) simp_all

lemma behaves_finish: "advances ([], 0, s) q \<Longrightarrow> behaves s (map_option finish q)"
  by (auto simp: advances_def behaves_def finish_def honest_def cr_err_def split: option.splits)

lemma behaves_trans: "keeps_wf s t \<Longrightarrow> behaves t q \<Longrightarrow> behaves s q"
  by (auto simp: behaves_def split: option.splits intro: keeps_wf_trans)

context total_operand_loop
begin

lemma behaves_loop: "session_wf s \<Longrightarrow> behaves s (Some (finish (fold total_step xs ([], 0, s))))"
  using loop_advances [of "([], 0, s)" xs] behaves_finish [of s "Some (fold total_step xs ([], 0, s))"] by (simp add: fold_opt_total)

end

lemma behaves_cd:
  assumes "session_wf s"
  shows "behaves s (Some (cmd_cd s args))"
proof -
  obtain announce path where a: "cd_target s args = (announce, path)" by (cases "cd_target s args")
  have "keeps_wf s (s\<lparr>sh_prev_cwd := sh_cwd s, sh_cwd := i, sh_env := env_set (sh_env s) k x\<rparr>)" if "i < fsize (sh_vfs s)" for i k x
    using assms that env_ok_set by (simp add: keeps_wf_def session_wf_def)
  then show ?thesis using resolve_session [OF assms, of path] keeps_wf_refl [OF assms]
    by (auto simp: cmd_cd_def a Let_def cr_err_def cr_ok_def cr_empty_def split: option.split)
qed

lemma behaves_touch: "session_wf s \<Longrightarrow> behaves s (Some (cmd_touch w s args))"
  using touch.behaves_loop behaves_missing by (simp add: cmd_touch_def del: behaves_Some split: prod.split)

lemma behaves_mkdir: "session_wf s \<Longrightarrow> behaves s (Some (cmd_mkdir w s args))"
  using mkdir.behaves_loop behaves_missing by (simp add: cmd_mkdir_def del: behaves_Some split: prod.split)

lemma behaves_rmdir: "session_wf s \<Longrightarrow> behaves s (Some (cmd_rmdir s args))"
  using rmdir.behaves_loop behaves_missing by (simp add: cmd_rmdir_def del: behaves_Some split: prod.split)

lemma behaves_empty: "session_wf s \<Longrightarrow> behaves s (Some (cr_empty, s))"
  by (simp add: keeps_wf_refl cr_empty_def cr_ok_def)

lemma behaves_rm: "session_wf s \<Longrightarrow> behaves s (Some (cmd_rm s args))"
  using rm.behaves_loop behaves_missing behaves_empty by (simp add: cmd_rm_def del: behaves_Some split: prod.split)

lemma behaves_too_few: "session_wf s \<Longrightarrow> behaves s (Some (too_few tool ops, s))" "session_wf s \<Longrightarrow> behaves s (Some (not_a_dir tool dest, s))"
  by (simp_all add: too_few_def not_a_dir_def behaves_missing behaves_quit del: behaves_Some)

lemma dest_in_start: "session_wf s \<Longrightarrow> dest_in (existing_dir s dest) ([], 0, s)"
  using existing_dir_range by (simp add: dest_in_def)

lemma behaves_cp: "session_wf s \<Longrightarrow> behaves s (Some (cmd_cp w s args))"
proof -
  assume wf: "session_wf s"
  have "behaves s (Some (finish (fold (cp_one w r (existing_dir s dest) dest) srcs ([], 0, s))))" for r dest srcs
    using behaves_finish [OF fold_opt_dest [where f = "\<lambda>x t. Some (cp_one w r (existing_dir s dest) dest x t)",
        OF cp_one_advances _ dest_in_start [OF wf]]] wf by (simp add: fold_opt_total)
  then show ?thesis using behaves_too_few [OF wf] by (simp add: cmd_cp_def Let_def del: behaves_Some split: prod.split)
qed

lemma behaves_mv: "session_wf s \<Longrightarrow> behaves s (cmd_mv s args)"
proof -
  assume wf: "session_wf s"
  have "behaves s (map_option finish (fold_opt (mv_one (existing_dir s dest) dest) srcs ([], 0, s)))" for dest srcs
    using behaves_finish [OF fold_opt_dest [where f = "mv_one (existing_dir s dest) dest", OF mv_one_advances _ dest_in_start [OF wf]]] wf
    by simp
  then show ?thesis using behaves_too_few [OF wf] by (simp add: cmd_mv_def Let_def del: behaves_Some)
qed

lemma behaves_chown_like: "session_wf s \<Longrightarrow> behaves s (chown_like s args tool)"
proof -
  assume wf: "session_wf s"
  have "behaves s (map_option finish (fold_opt (chown_one tool u g r) xs ([], 0, s)))" for u g r xs
    using behaves_finish [OF chown.loop_advances] wf by simp
  moreover obtain r rest where "fold chown_arg args (False, []) = (r, rest)" by (cases "fold chown_arg args (False, [])")
  ultimately show ?thesis using behaves_missing [OF wf, of tool] behaves_quit [OF wf]
    by (cases "parse_owner_spec (hd rest) tool") (auto simp: chown_like_def simp del: behaves_Some)
qed

lemma chmod_loop_behaves: "session_wf (sess t) \<Longrightarrow> honest t \<Longrightarrow> behaves (sess t) (chmod_loop recursive spec paths t)"
proof (induction recursive spec paths t rule: chmod_loop.induct)
  case (1 recursive spec t)
  then show ?case using behaves_finish [of "sess t" "Some t"] by (cases t) (auto simp: finish_def honest_def cr_err_def keeps_wf_refl)
next
  case (2 recursive spec path paths errs status s)
  have wf: "session_wf s" using "2.prems" by simp
  have more: "behaves s (chmod_loop recursive spec paths (errs, status, s\<lparr>sh_vfs := v\<rparr>))"
    if i: "resolve (sh_vfs s) (sh_cwd s) path = Some i" and m: "compute_mode spec (m_mode (n_meta (fnode (sh_vfs s) i)) AND o7777) = Some p"
      and v: "apply_chmod (fsize (sh_vfs s)) spec recursive p i (sh_vfs s) = Some v" "keeps_wf s (s\<lparr>sh_vfs := v\<rparr>)" for i p v
    using behaves_trans [OF v(2)] "2.IH"(2) [OF i m, of v] keeps_wf_session [OF v(2)] "2.prems"(2) v(1) by (simp add: honest_def)
  show ?case
  proof (cases "resolve (sh_vfs s) (sh_cwd s) path")
    case None
    then show ?thesis using "2.IH"(1) [OF None] wf by simp
  next
    case (Some i)
    show ?thesis
    proof (cases "compute_mode spec (m_mode (n_meta (fnode (sh_vfs s) i)) AND o7777)")
      case None
      then show ?thesis using Some behaves_quit [OF wf] by (simp del: behaves_Some)
    next
      case m: (Some p)
      obtain v where "apply_chmod (fsize (sh_vfs s)) spec recursive p i (sh_vfs s) = Some v" "keeps_wf s (s\<lparr>sh_vfs := v\<rparr>)"
        using apply_chmod_keeps [OF wf resolve_session [OF wf Some] m] .
      then show ?thesis using more [OF Some m] Some m by simp
    qed
  qed
qed

lemma behaves_chmod: "session_wf s \<Longrightarrow> behaves s (cmd_chmod s args)"
  using chmod_loop_behaves [of "([], 0, s)"] behaves_missing by (simp add: cmd_chmod_def del: behaves_Some split: prod.split)

lemma ln_dest_range: "session_wf s \<Longrightarrow> ln_dest s link target = Some (p, nm) \<Longrightarrow> p < fsize (sh_vfs s)"
  using existing_dir_range resolve_parent_range by (auto simp: ln_dest_def split: option.splits)

lemma behaves_ln_error: "session_wf s \<Longrightarrow> behaves s (Some (ln_error nm reason, s))"
  unfolding ln_error_def by (rule behaves_quit) simp_all

lemma behaves_ln_make:
  assumes "session_wf s" "p < fsize (sh_vfs s)"
  shows "behaves s (Some (ln_make w s force p nm target))"
proof -
  let ?v = "if child (sh_vfs s) p nm \<noteq> None then snd (unlink (sh_vfs s) p nm) else sh_vfs s"
  have v: "wf_vfs ?v" "fsize ?v = fsize (sh_vfs s)" using assms wf_unlink session_vfs [OF assms(1)] by auto
  obtain i v' where a: "add_symlink (w_now w) ?v p nm target = (i, v')" by fastforce
  have "good_result ?v (i, v')" using good_add_symlink [OF v(1), of p "w_now w" nm target] assms(2) v(2) a by simp
  then have "keeps_wf s (s\<lparr>sh_vfs := v'\<rparr>)" using keeps_wf_vfs [OF assms(1)] v(2) by (auto simp: good_result_def)
  then have "behaves s (Some (if i = p then ln_error nm ''No space left on device'' else cr_empty, s\<lparr>sh_vfs := v'\<rparr>))"
    by (simp add: ln_error_def cr_err_def cr_empty_def cr_ok_def)
  then show ?thesis using behaves_ln_error [OF assms(1)] by (simp only: ln_make_def Let_def a prod.case) simp
qed

lemma behaves_ln: "session_wf s \<Longrightarrow> behaves s (Some (cmd_ln w s args))"
  using behaves_ln_error behaves_ln_make [OF _ ln_dest_range] behaves_missing behaves_quit
  by (auto simp: cmd_ln_def Let_def simp del: behaves_Some split: prod.split option.split)

text \<open>The commands by the names the registry gives their functions.\<close>

definition file_commands :: "str list" where
  "file_commands = [''cd'', ''touch'', ''mkdir'', ''rmdir'', ''rm'', ''cp'', ''mv'', ''chmod'', ''chown'', ''chgrp'', ''ln'']"

definition file_command :: "world \<Rightarrow> str \<Rightarrow> shell \<Rightarrow> str list \<Rightarrow> (command_result \<times> shell) option" where
  "file_command w f s args =
     (if f = ''cd'' then Some (cmd_cd s args) else if f = ''touch'' then Some (cmd_touch w s args)
      else if f = ''mkdir'' then Some (cmd_mkdir w s args) else if f = ''rmdir'' then Some (cmd_rmdir s args)
      else if f = ''rm'' then Some (cmd_rm s args) else if f = ''cp'' then Some (cmd_cp w s args)
      else if f = ''mv'' then cmd_mv s args else if f = ''chmod'' then cmd_chmod s args
      else if f = ''chown'' then cmd_chown s args else if f = ''chgrp'' then cmd_chgrp s args
      else if f = ''ln'' then Some (cmd_ln w s args) else None)"

lemma file_command_behaves: "f \<in> set file_commands \<Longrightarrow> session_wf s \<Longrightarrow> behaves s (file_command w f s args)"
  unfolding file_commands_def
  by (auto simp: file_command_def cmd_chown_def cmd_chgrp_def behaves_cd behaves_touch behaves_mkdir behaves_rmdir behaves_rm behaves_cp
      behaves_mv behaves_chmod behaves_chown_like behaves_ln simp del: behaves_Some)

section \<open>Properties\<close>

lemma sample_session: "session_wf sample_shell"
  using wf_vfs_new [of 0] fx_sizes(1) by (simp add: session_wf_def sample_shell_def env_ok_def bt_ok_def)

lemma sample_files:
  "session_wf sample_file_shell" "types_ok (sh_vfs sample_file_shell)" "sh_vfs sample_file_shell = fx4" "sh_cwd sample_file_shell = 0"
  using fx_wf(1) vfs_states_types [OF fx_states]
  by (simp_all add: sample_file_shell_def sample_shell_def session_wf_def env_ok_def bt_ok_def fx_sizes)

text \<open>C17: the commands that change files are safe and honest. For any arguments in any well-formed session, \<open>cd\<close>,
  \<open>touch\<close>, \<open>mkdir\<close>, \<open>rmdir\<close>, \<open>rm\<close>, \<open>cp\<close>, \<open>mv\<close>, \<open>chmod\<close>, \<open>chown\<close>, \<open>chgrp\<close> and \<open>ln\<close> return, leave the
  session well-formed (a tree within its caps, with its working directories in place) and exit with
  status 0 exactly when they have written no diagnostic.\<close>

theorem file_commands_honest:
  assumes "f \<in> set file_commands" "session_wf s"
  shows "\<exists>r t. file_command w f s args = Some (r, t) \<and> session_wf t \<and> (c_stderr r = [] \<longleftrightarrow> c_status r = 0)"
  using file_command_behaves [OF assms, of w args] by (auto simp: behaves_def keeps_wf_def split: option.splits)

theorem file_commands_honest_witness:
  "\<exists>r t. file_command sample_world ''mv'' sample_shell [''/tmp'', ''/tmp/x''] = Some (r, t) \<and> session_wf t \<and> (c_stderr r = [] \<longleftrightarrow> c_status r = 0)"
  by (rule file_commands_honest) (simp_all add: file_commands_def sample_session)

text \<open>\<open>chmod\<close> is idempotent: a mode, octal or a list of symbolic clauses, applied to the permissions it has just
  produced gives them again, so running the same command twice changes nothing more.\<close>

theorem chmod_idempotent:
  assumes "compute_mode spec m = Some m'"
  shows "compute_mode spec m' = Some m'"
proof -
  obtain a b where ab: "\<And>m. compute_mode spec m = Some (((m AND a) OR b) AND o7777)" using compute_mode_affine [OF assms] by blast
  then have m': "m' = ((m AND a) OR b) AND o7777" using assms by simp
  have "((((m AND a) OR b) AND o7777 AND a) OR b) AND o7777 = ((m AND a) OR b) AND o7777"
    by (rule bit_eqI) (auto simp: bit_and_iff bit_or_iff)
  then show ?thesis using ab [of m'] by (simp add: m' and.assoc)
qed

theorem chmod_idempotent_witness: "compute_mode ''u+x,go=r'' 0x180 = Some 0x1E4 \<and> compute_mode ''u+x,go=r'' 0x1E4 = Some 0x1E4"
proof -
  have "compute_mode ''u+x,go=r'' 0x180 = Some 0x1E4" by code_simp
  then show ?thesis using chmod_idempotent by blast
qed

text \<open>C31: \<open>chmod -R\<close> changes exactly the tree it names. Every node below the operand, and the operand itself, gets the
  mode computed from its own former permissions, its type bits kept; every other node of the filesystem is
  as it was, and so are all links, names, owners and contents.\<close>

theorem chmod_recursive_exact:
  assumes s: "session_wf s" "types_ok (sh_vfs s)" "resolve (sh_vfs s) (sh_cwd s) path = Some i"
    and mode: "compute_mode spec (m_mode (n_meta (fnode (sh_vfs s) i)) AND o7777) = Some p"
    and plain: "spec \<notin> set [''-R'', ''--recursive'', ''-v'', ''--verbose'', ''-c'', ''-f'']"
      "path \<notin> set [''-R'', ''--recursive'', ''-v'', ''--verbose'', ''-c'', ''-f'']"
  shows "\<exists>v. cmd_chmod s [''-R'', spec, path] = Some (cr_err [] 0, s\<lparr>sh_vfs := v\<rparr>)
    \<and> edited (\<lambda>n. chmod_node (the (compute_mode spec (m_mode (n_meta n) AND o7777))) n) (subtree (sh_vfs s) i) (sh_vfs s) v"
proof -
  have wf: "wf_tree (sh_vfs s)" using session_vfs [OF s(1)] by blast
  obtain k where k: "at_depth (sh_vfs s) i k" using wf_treeD(4) [OF wf resolve_session [OF s(1,3)]] by blast
  have def: "chmod_perms spec 0 n = the (compute_mode spec (m_mode (n_meta n) AND o7777))" for n
    using compute_mode_affine [OF mode] by (auto simp: chmod_perms_def)
  obtain v where v: "apply_chmod (fsize (sh_vfs s)) spec True p i (sh_vfs s) = Some v"
      "edited (\<lambda>n. chmod_node (chmod_perms spec 0 n) n) (subtree (sh_vfs s) i) (sh_vfs s) v"
    using chmod_walk.walk_exact [OF wf s(2) k, of "fsize (sh_vfs s)" spec 0] mode by (auto simp: chmod_perms_def)
  have "fold chmod_arg [''-R'', spec, path] (False, []) = (True, [spec, path])"
    using plain by (simp add: chmod_arg_def)
  then show ?thesis using v mode s(3) by (intro exI [of _ v]) (simp add: cmd_chmod_def finish_def def)
qed

theorem chmod_recursive_exact_witness:
  "\<exists>v. cmd_chmod sample_file_shell [''-R'', ''700'', ''/''] = Some (cr_err [] 0, sample_file_shell\<lparr>sh_vfs := v\<rparr>)
    \<and> edited (\<lambda>n. chmod_node (the (compute_mode ''700'' (m_mode (n_meta n) AND o7777))) n) (subtree fx4 0) fx4 v"
proof -
  have "resolve fx4 0 ''/'' = Some 0" using fx_up by (simp add: resolve_def starts_with_def MAX_SYMLINK_DEPTH_def)
  moreover have "compute_mode ''700'' m = Some 0x1C0" for m
  proof -
    have "parse_unsigned 32 8 ''700'' = Some 448" by (simp add: parse_unsigned_def digit_val_def)
    then show ?thesis by (simp add: compute_mode_def is_ascii_digit_def)
  qed
  ultimately show ?thesis
    using chmod_recursive_exact [where s = sample_file_shell and path = "''/''" and i = 0 and spec = "''700''"] sample_files by simp
qed

text \<open>\<open>cd -\<close> goes back. After a \<open>cd\<close> that worked, \<open>cd -\<close> returns to the directory left, as long as that
  directory is linked under the root and the user may enter it; it prints the directory's path, sets
  \<open>PWD\<close> to it, and remembers where it came from, so that a second \<open>cd -\<close> would go there.\<close>

theorem cd_back:
  assumes s: "session_wf s" "names_ok (sh_vfs s)" "reachable (sh_vfs s) (sh_cwd s)" "n_kind (fnode (sh_vfs s) (sh_cwd s)) = Directory ch"
    and enter: "is_dir (n_meta (fnode (sh_vfs s) (sh_cwd s)))" "executable_by (n_meta (fnode (sh_vfs s) (sh_cwd s))) (sh_uid s) (sh_gid s)"
    and left: "cmd_cd s [path] = (r, t)" "c_status r = 0"
  shows "cmd_cd t [''-''] = (cr_ok (path_of (sh_vfs s) (sh_cwd s) @ [CHR 0x0A]),
    t\<lparr>sh_prev_cwd := sh_cwd t, sh_cwd := sh_cwd s, sh_env := env_set (sh_env t) ''PWD'' (path_of (sh_vfs s) (sh_cwd s))\<rparr>)"
proof -
  obtain target env' where t: "t = s\<lparr>sh_prev_cwd := sh_cwd s, sh_cwd := target, sh_env := env'\<rparr>"
    using left by (auto simp: cmd_cd_def Let_def cr_err_def split: prod.splits option.splits if_splits)
  have wf: "wf_tree (sh_vfs s)" "sh_cwd s < fsize (sh_vfs s)" using s(1) by (auto simp: session_wf_def)
  have "resolve (sh_vfs s) start (path_of (sh_vfs s) (sh_cwd s)) = Some (sh_cwd s)" for start
    using resolve_path_of [OF wf(1) s(2,3) wf(2)] follow_directory [OF s(4)] by simp
  then show ?thesis using enter by (simp add: cmd_cd_def cd_target_def t Let_def)
qed

theorem cd_back_witness:
  "\<exists>r t. cmd_cd sample_file_shell [''/''] = (r, t) \<and> c_status r = 0
    \<and> cmd_cd t [''-''] = (cr_ok (''/'' @ [CHR 0x0A]), t\<lparr>sh_prev_cwd := sh_cwd t, sh_cwd := 0, sh_env := env_set (sh_env t) ''PWD'' ''/''\<rparr>)"
proof -
  let ?s = sample_file_shell
  have root: "resolve fx4 0 ''/'' = Some 0" using fx_up by (simp add: resolve_def starts_with_def MAX_SYMLINK_DEPTH_def)
  have dir: "is_dir (n_meta (fnode fx4 0))"
    using types_okD [OF sample_files(2), of 0] fx_sizes fx_kinds(1) by (simp add: type_ok_def sample_files(3))
  have may: "executable_by (n_meta (fnode fx4 0)) (sh_uid ?s) (sh_gid ?s)"
    by (simp add: executable_by_def sample_file_shell_def sample_shell_def)
  have path: "path_of fx4 0 = ''/''" by (simp add: path_of_def path_loop_step fx_facts)
  obtain r t where rt: "cmd_cd ?s [''/''] = (r, t)" by (cases "cmd_cd ?s [''/'']")
  then have st: "c_status r = 0" using root dir may sample_files(3,4)
    by (auto simp: cmd_cd_def cd_target_def starts_with_def Let_def cr_empty_def cr_ok_def)
  show ?thesis
    using cd_back [OF sample_files(1), of "[(''tmp'', 1)]" "''/''" r t] rt st dir may path sample_files(3,4) fx_names fx_reachable(1) fx_kinds(1)
    by simp
qed

end
