(* ===== verification/Tar_Confined.thy ===== *)
theory Tar_Confined
  imports Tar Fs_Commands_Props
begin

text \<open>
  The \<open>tar\<close> command always returns and keeps the session well-formed, and extraction, whatever the
  bytes of the archive, changes nothing outside the directory it runs in.
\<close>

section \<open>Changes confined to a subtree\<close>

definition confined :: "node_id \<Rightarrow> vfs \<Rightarrow> vfs \<Rightarrow> bool" where
  "confined base v v' \<longleftrightarrow> fsize v \<le> fsize v' \<and> (\<forall>x < fsize v. n_parent (fnode v' x) = n_parent (fnode v x))
     \<and> (\<forall>x < fsize v. \<not> anc v base x \<longrightarrow> fnode v' x = fnode v x)"

lemma confined_refl: "confined base v v"
  by (simp add: confined_def)

lemma confined_anc: "confined base v v' \<Longrightarrow> at_depth v x k \<Longrightarrow> anc v' base x \<longleftrightarrow> anc v base x"
proof (induction k arbitrary: x)
  case 0
  then show ?case by (auto simp: confined_def anc_iff [of _ base x] elim: at_depth.cases)
next
  case (Suc k)
  then obtain p where "x < fsize v" "n_parent (fnode v x) = Some p" "at_depth v p k" by (auto elim: at_depth.cases)
  then show ?case using Suc by (auto simp: confined_def anc_iff [of _ base x])
qed

lemma confined_trans:
  assumes "confined base v v1" "confined base v1 v2" "wf_tree v"
  shows "confined base v v2"
proof -
  have "anc v1 base x \<longleftrightarrow> anc v base x" if "x < fsize v" for x
    using confined_anc [OF assms(1)] wf_treeD(4) [OF assms(3) that] by blast
  then show ?thesis using assms(1,2) by (auto simp: confined_def)
qed

text \<open>An operation on the filesystem that returns a node of the subtree.\<close>

definition stays :: "node_id \<Rightarrow> vfs \<Rightarrow> node_id \<times> vfs \<Rightarrow> bool" where
  "stays base v r \<longleftrightarrow> confined base v (snd r) \<and> anc (snd r) base (fst r)"

lemma stays_same: "anc v base i \<Longrightarrow> stays base v (i, v)"
  by (simp add: stays_def confined_refl)

lemma anc_transfer: "anc v base i \<Longrightarrow> i < fsize v \<Longrightarrow> wf_tree v \<Longrightarrow> confined base v v' \<Longrightarrow> anc v' base i"
  using confined_anc wf_treeD(4) by blast

lemma confined_upd: "i < fsize v \<Longrightarrow> anc v base i \<Longrightarrow> n_parent (f (fnode v i)) = n_parent (fnode v i) \<Longrightarrow> confined base v (upd_node v i f)"
  by (auto simp: confined_def fnode_upd_node)

lemma confined_cb [simp]: "confined base v (v'\<lparr>content_bytes := cb\<rparr>) = confined base v v'"
  by (simp add: confined_def)

lemma stays_insert: "wf_tree v \<Longrightarrow> p < fsize v \<Longrightarrow> anc v base p \<Longrightarrow> stays base v (vfs_insert v p nm k m)"
proof (cases "is_full v p")
  case False
  assume a: "wf_tree v" "p < fsize v" "anc v base p"
  have c: "confined base v (ins_node v p nm k m)"
    using a by (auto simp: confined_def fnode_ins_node link_child_def split: node_kind.splits)
  moreover have "anc (ins_node v p nm k m) base (fsize v)"
    using a(2) anc_transfer [OF a(3,2,1) c] by (auto simp: fnode_ins_node intro: anc.anc_step)
  ultimately show ?thesis using False by (simp add: stays_def vfs_insert_eq)
qed (simp add: vfs_insert_eq stays_same)

lemma anc_child: "wf_tree v \<Longrightarrow> p < fsize v \<Longrightarrow> anc v base p \<Longrightarrow> child v p nm = Some i \<Longrightarrow> anc v base i"
  using wf_treeD(8) by (auto simp: child_has_child intro: anc.anc_step)

lemma stays_mkdir: "wf_tree v \<Longrightarrow> p < fsize v \<Longrightarrow> anc v base p \<Longrightarrow> stays base v (mkdir now v p nm perms u g)"
  by (auto simp: mkdir_def stays_insert stays_same anc_child split: option.split)

lemma stays_add_symlink: "wf_tree v \<Longrightarrow> p < fsize v \<Longrightarrow> anc v base p \<Longrightarrow> stays base v (add_symlink now v p nm t)"
  by (auto simp: add_symlink_def stays_insert stays_same anc_child split: option.split)

lemma confined_add_file:
  assumes "wf_tree v" "p < fsize v" "anc v base p"
  shows "confined base v (snd (add_file now v p nm c perms u g))"
proof (cases "child v p nm")
  case None
  then show ?thesis using stays_insert [OF assms, of nm "File c" "metadata_new now S_IFREG perms u g"]
    by (auto simp: add_file_def Let_def stays_def confined_refl split: prod.split)
next
  case (Some i)
  then have "i < fsize v" "anc v base i" using anc_child [OF assms Some] wf_treeD(7) assms by (auto simp: child_has_child)
  then show ?thesis using Some by (auto simp: add_file_def Let_def confined_refl confined_upd)
qed

section \<open>Extraction\<close>

text \<open>Only the filesystem changes, and only below the working directory.\<close>

definition digs :: "shell \<Rightarrow> shell \<Rightarrow> bool" where
  "digs s t \<longleftrightarrow> keeps_wf s t \<and> (\<exists>v. t = s\<lparr>sh_vfs := v\<rparr> \<and> confined (sh_cwd s) (sh_vfs s) v)"

lemma digs_refl: "session_wf s \<Longrightarrow> digs s s"
  by (auto simp: digs_def keeps_wf_def intro!: exI [of _ "sh_vfs s"] confined_refl)

lemma digs_trans:
  assumes "session_wf s" "digs s t" "digs t u"
  shows "digs s u"
proof -
  obtain v1 v2 where v: "t = s\<lparr>sh_vfs := v1\<rparr>" "confined (sh_cwd s) (sh_vfs s) v1" "u = t\<lparr>sh_vfs := v2\<rparr>" "confined (sh_cwd t) (sh_vfs t) v2"
    and k: "keeps_wf s t" "keeps_wf t u" using assms(2,3) unfolding digs_def by blast
  have "confined (sh_cwd s) (sh_vfs s) v2"
    using confined_trans [OF v(2), of v2] v wf_vfsD(1) [OF session_vfs [OF assms(1)]] by simp
  moreover have "u = s\<lparr>sh_vfs := v2\<rparr>" using v by simp
  ultimately show ?thesis using keeps_wf_trans [OF k] by (auto simp: digs_def)
qed

lemma digs_session: "digs s t \<Longrightarrow> session_wf t"
  using keeps_wf_session by (auto simp: digs_def)

lemma digs_op:
  assumes "session_wf s" "good_result (sh_vfs s) r" "confined (sh_cwd s) (sh_vfs s) (snd r)"
  shows "digs s (s\<lparr>sh_vfs := snd r\<rparr>)"
  using keeps_wf_result [OF assms(1,2)] assms(3) by (auto simp: digs_def)

text \<open>A node of the session's filesystem at or below its working directory.\<close>

definition below :: "shell \<Rightarrow> node_id \<Rightarrow> bool" where
  "below s i \<longleftrightarrow> i < fsize (sh_vfs s) \<and> anc (sh_vfs s) (sh_cwd s) i"

lemma below_cwd: "session_wf s \<Longrightarrow> below s (sh_cwd s)"
  by (auto simp: below_def session_wf_def intro: anc.anc_refl)

lemma below_child: "session_wf s \<Longrightarrow> below s p \<Longrightarrow> child (sh_vfs s) p nm = Some i \<Longrightarrow> below s i"
  using anc_child child_session wf_vfsD(1) [OF session_vfs] by (auto simp: below_def)

lemma digs_mkdir:
  assumes "session_wf s" "below s p" "mkdir now (sh_vfs s) p nm perms u g = (i, v)"
  shows "digs s (s\<lparr>sh_vfs := v\<rparr>)" and "below (s\<lparr>sh_vfs := v\<rparr>) i"
proof -
  have wf: "wf_vfs (sh_vfs s)" "p < fsize (sh_vfs s)" "anc (sh_vfs s) (sh_cwd s) p" using assms(1,2) by (auto simp: session_vfs below_def)
  note g = good_mkdir [OF wf(1,2), of now nm perms u g]
  note st = stays_mkdir [OF wf_vfsD(1) [OF wf(1)] wf(2,3), of now nm perms u g]
  show "digs s (s\<lparr>sh_vfs := v\<rparr>)" using digs_op [OF assms(1) g] st by (simp add: stays_def assms(3))
  show "below (s\<lparr>sh_vfs := v\<rparr>) i" using g st by (simp add: stays_def good_result_def below_def assms(3))
qed

lemma tar_dest_loop_digs:
  "session_wf s \<Longrightarrow> below s dir \<Longrightarrow> tar_dest_loop w s dir segs = (r, t) \<Longrightarrow> digs s t \<and> (\<forall>d. r = Some d \<longrightarrow> below t d)"
proof (induction w s dir segs rule: tar_dest_loop.induct)
  case (1 w s dir)
  then show ?case by (auto simp: digs_refl)
next
  case (2 w s dir seg segs)
  show ?case
  proof (cases "child (sh_vfs s) dir seg")
    case (Some i)
    then show ?thesis using "2.IH"(2) [OF Some] "2.prems" below_child [OF "2.prems"(1,2) Some]
      by (auto simp: digs_refl split: if_splits)
  next
    case None
    obtain i v where m: "mkdir (w_now w) (sh_vfs s) dir seg o755 (sh_uid s) (sh_gid s) = (i, v)" by (cases "mkdir (w_now w) (sh_vfs s) dir seg o755 (sh_uid s) (sh_gid s)")
    note d = digs_mkdir [OF "2.prems"(1,2) m]
    show ?thesis
    proof (cases "i = dir")
      case True
      then show ?thesis using None m d "2.prems"(3) by auto
    next
      case False
      then have "tar_dest_loop w (s\<lparr>sh_vfs := v\<rparr>) i segs = (r, t)" using None m "2.prems"(3) by simp
      then show ?thesis using "2.IH"(1) [OF None m [symmetric] False] digs_trans [OF "2.prems"(1) d(1)] digs_session d by blast
    qed
  qed
qed

lemma tar_dest_digs:
  assumes "session_wf s" "tar_dest w s nm = (r, t)"
  shows "digs s t" and "r = Some (p, n) \<Longrightarrow> below t p"
proof -
  have "digs s t \<and> (\<forall>p n. r = Some (p, n) \<longrightarrow> below t p)"
    using assms tar_dest_loop_digs [OF assms(1) below_cwd [OF assms(1)]]
    by (auto simp: tar_dest_def Let_def digs_refl split: if_splits prod.splits option.splits)
  then show "digs s t" and "r = Some (p, n) \<Longrightarrow> below t p" by blast+
qed

lemma tar_failed_shell [simp]: "tr_shell (tar_failed nm reason r) = tr_shell r"
  by (simp add: tar_failed_def)

lemma digs_place:
  assumes "session_wf (tr_shell r)" "below (tr_shell r) p"
  shows "digs (tr_shell r) (tr_shell (tar_place w dat e member p nm r))"
proof -
  let ?s = "tr_shell r"
  have wf: "wf_vfs (sh_vfs ?s)" "p < fsize (sh_vfs ?s)" "anc (sh_vfs ?s) (sh_cwd ?s) p" "wf_tree (sh_vfs ?s)"
    using assms wf_vfsD(1) by (auto simp: session_vfs below_def)
  have fl: "digs ?s (?s\<lparr>sh_vfs := v\<rparr>)" if "add_file now (sh_vfs ?s) p nm c perms u g = (i, v)" for now c perms u g i v
    using digs_op [OF assms(1) good_add_file [OF wf(1,2), of now nm c perms u g]]
      confined_add_file [OF wf(4,2,3), of now nm c perms u g] that by simp
  have dir: "digs ?s (?s\<lparr>sh_vfs := snd (mkdir now (sh_vfs ?s) p nm perms u g)\<rparr>)" for now perms u g
    using digs_mkdir(1) [OF assms prod.collapse [symmetric]] .
  have link: "digs ?s (?s\<lparr>sh_vfs := snd (add_symlink now (sh_vfs ?s) p nm t)\<rparr>)" for now t
    using digs_op [OF assms(1) good_add_symlink [OF wf(1,2), of now nm t]] stays_add_symlink [OF wf(4,2,3), of now nm t]
    by (simp add: stays_def)
  show ?thesis by (auto simp: tar_place_def Let_def dir link digs_refl [OF assms(1)] intro: fl split: prod.splits)
qed

lemma tar_extract_one_digs:
  assumes "session_wf (tr_shell r)"
  shows "digs (tr_shell r) (tr_shell (tar_extract_one w verbose dat members e r))"
proof -
  obtain member warned errs where l: "tar_strip_leading (te_name e) (tr_warned r) (tr_errs r) = (member, warned, errs)"
    by (cases "tar_strip_leading (te_name e) (tr_warned r) (tr_errs r)") auto
  obtain d t where d: "tar_dest w (tr_shell r) member = (d, t)" by (cases "tar_dest w (tr_shell r) member")
  note t = tar_dest_digs(1) [OF assms d]
  show ?thesis
  proof (cases d)
    case None
    then show ?thesis using t l d digs_refl [OF assms] by (simp add: tar_extract_one_def Let_def)
  next
    case (Some pn)
    obtain p nm where pn: "pn = (p, nm)" by (cases pn)
    have "below t p" using tar_dest_digs(2) [OF assms d] Some pn by blast
    then have "digs t (tr_shell (tar_place w dat e member p nm q))" if "tr_shell q = t" for q
      using digs_place [of q p w dat e member nm] digs_session [OF t] that by simp
    then show ?thesis using t l d Some pn digs_refl [OF assms] digs_trans [OF assms t] by (simp add: tar_extract_one_def Let_def)
  qed
qed

lemma extract_fold_digs:
  "session_wf (tr_shell r) \<Longrightarrow> digs (tr_shell r) (tr_shell (fold (tar_extract_one w verbose dat members) es r))"
proof (induction es arbitrary: r)
  case (Cons e es)
  note one = tar_extract_one_digs [OF Cons.prems, of w verbose dat members e]
  show ?case using digs_trans [OF Cons.prems one] Cons.IH [OF digs_session [OF one]] by simp
qed (simp add: digs_refl)

lemma tar_extract_digs: "session_wf s \<Longrightarrow> tar_extract w verbose dat es members s = (r, t) \<Longrightarrow> digs s t"
  using extract_fold_digs [of "\<lparr>tr_out = [], tr_errs = [], tr_status = 0, tr_warned = [], tr_shell = s\<rparr>" w verbose dat members es]
  by (auto simp: tar_extract_def Let_def)

section \<open>The command returns\<close>

lemma tar_walk_returns:
  "wf_tree (sh_vfs s) \<Longrightarrow> at_depth (sh_vfs s) i k \<Longrightarrow> fsize (sh_vfs s) \<le> n + k \<Longrightarrow> \<exists>b'. tar_walk n w s i nm b = Some b'"
proof (induction n arbitrary: i k nm b)
  case 0
  then show ?case using at_depth_less [OF 0(2)] by simp
next
  case (Suc n)
  have kid: "\<exists>b'. tar_walk n w s c nm b = Some b'" if "(cn, c) \<in> set (dir_list (sh_vfs s) i)" for cn c nm b
  proof -
    have "has_child (sh_vfs s) i cn c" using that dir_list_child [OF at_depth_range [OF Suc.prems(2)]] by blast
    then have "at_depth (sh_vfs s) c (Suc k)" using wf_treeD(7,8) [OF Suc.prems(1)] Suc.prems(2) by (auto intro: at_depth.intros)
    then show ?thesis using Suc.IH [OF Suc.prems(1)] Suc.prems(3) by simp
  qed
  have all: "\<exists>b'. fold_opt (\<lambda>(cn, c). tar_walk n w s c (dir @ cn)) es b = Some b'" if "set es \<subseteq> set (dir_list (sh_vfs s) i)" for dir es b
    using that
  proof (induction es arbitrary: b)
    case (Cons e es)
    then show ?case using kid [of "fst e" "snd e" "dir @ fst e" b] by (auto simp: case_prod_unfold)
  qed simp
  show ?case using all [OF order_refl, where dir = "trim_end_slashes nm @ ''/''"] by (auto simp: Let_def dir_list_def split: node_kind.splits)
qed

lemma fold_opt_returns: "(\<And>x t. \<exists>t'. f x t = Some t') \<Longrightarrow> \<exists>t'. fold_opt f xs t = Some t'"
proof (induction xs arbitrary: t)
  case (Cons x xs)
  obtain t1 where "f x t = Some t1" using Cons.prems by blast
  then show ?case using Cons.IH [OF Cons.prems, of t1] by simp
qed simp

lemma tar_create_keeps:
  assumes "session_wf s"
  shows "\<exists>r t. tar_create w verbose path members s = Some (r, t) \<and> keeps_wf s t"
proof -
  have keep: "keeps_wf s s" using assms by (simp add: keeps_wf_def)
  have one: "\<exists>st'. tar_add_member w s m st = Some st'" for m st
  proof -
    have "\<exists>b'. tar_walk (fsize (sh_vfs s)) w s i nm b = Some b'" if "resolve (sh_vfs s) (sh_cwd s) m = Some i" for i nm b
      using resolve_session [OF assms that] wf_vfsD(1) [OF session_vfs [OF assms]] wf_treeD(4) tar_walk_returns [of s i _ "fsize (sh_vfs s)"]
      by (meson le_add1)
    then show ?thesis by (cases st) (auto simp: tar_add_member_def split: option.split prod.split)
  qed
  have put: "keeps_wf s (s\<lparr>sh_vfs := v\<rparr>)"
    if "resolve_parent s path = Some (p, nm)" "add_file now (sh_vfs s) p nm c perms u g = (i, v)" for p nm now c perms u g i v
    using keeps_wf_result [OF assms good_add_file [OF session_vfs [OF assms] resolve_parent_range [OF assms that(1)], of now nm c perms u g]] that(2)
    by simp
  show ?thesis
  proof (cases "resolve_parent s path")
    case (Some pn)
    obtain p nm where pn: "pn = (p, nm)" by (cases pn)
    obtain wd b where b: "fold_opt (tar_add_member w s) members ([], \<lparr>tb_bytes = [], tb_log = [], tb_errs = [], tb_status = 0,
        tb_verbose = verbose, tb_archive = child (sh_vfs s) p nm\<rparr>) = Some (wd, b)"
      using fold_opt_returns [where f = "tar_add_member w s" and xs = members, OF one] by fast
    show ?thesis using Some pn b keep put [OF Some [unfolded pn]] by (auto simp: tar_create_def Let_def split: prod.split)
  qed (simp add: tar_create_def keep)
qed

lemma tar_read_digs:
  assumes "session_wf s"
  shows "\<exists>r u. tar_read w t path members s = (r, u) \<and> digs s u"
proof -
  have same: "digs s s" using digs_refl [OF assms] .
  have x: "digs s (snd (tar_extract w verbose dat es members s))" for verbose dat es
    using tar_extract_digs [OF assms prod.collapse [symmetric]] .
  have "digs s (snd (tar_read w t path members s))"
    by (auto simp: tar_read_def Let_def same x split: option.split node_kind.split)
  then show ?thesis by (metis prod.collapse)
qed

lemma cmd_tar_reads:
  assumes "session_wf s" "tar_args args tar_opts_none = Inr t" "\<not> to_create t"
  shows "\<exists>r u. cmd_tar w s args = Some (r, u) \<and> digs s u"
  using assms digs_refl [OF assms(1)] tar_read_digs [OF assms(1)]
  by (auto simp: cmd_tar_def split: option.split list.split)

lemma cmd_tar_keeps:
  assumes "session_wf s"
  shows "\<exists>r t. cmd_tar w s args = Some (r, t) \<and> keeps_wf s t"
proof (cases "tar_args args tar_opts_none")
  case (Inl r)
  then show ?thesis using assms by (auto simp: cmd_tar_def keeps_wf_def)
next
  case (Inr t)
  have keep: "keeps_wf s s" using assms by (simp add: keeps_wf_def)
  show ?thesis
  proof (cases "to_create t")
    case True
    then show ?thesis using Inr keep tar_create_keeps [OF assms] by (auto simp: cmd_tar_def split: option.split list.split)
  qed (use cmd_tar_reads [OF assms Inr, of w] in \<open>auto simp: digs_def\<close>)
qed

section \<open>The property\<close>

text \<open>
  C19: Extraction cannot escape. When \<open>tar\<close> is not asked to create an archive, it returns whatever the
  archive's bytes are, the session stays well-formed, and every node that is not in the tree below the
  working directory is as it was: absolute names, names with \<open>..\<close> and names that lead through links
  planted by earlier members reach nothing outside.
\<close>

theorem tar_extract_confined:
  assumes "session_wf s" "tar_args args tar_opts_none = Inr t" "\<not> to_create t"
  shows "\<exists>r u. cmd_tar w s args = Some (r, u) \<and> session_wf u
    \<and> (\<forall>x < fsize (sh_vfs s). \<not> anc (sh_vfs s) (sh_cwd s) x \<longrightarrow> fnode (sh_vfs u) x = fnode (sh_vfs s) x)"
proof -
  obtain r u where u: "cmd_tar w s args = Some (r, u)" "digs s u" using cmd_tar_reads [OF assms] by blast
  then show ?thesis using digs_session [OF u(2)] by (auto simp: digs_def confined_def)
qed

definition escaping_archive :: "byte list" where
  "escaping_archive = tar_finish (tar_file ''/etc/../../tmp/x'' \<lparr>m_mode = 0x81ED, m_uid = 0, m_gid = 0, m_mtime = 1\<rparr> ''id'')"

definition extracting_shell :: shell where
  "extracting_shell = sample_file_shell\<lparr>sh_vfs := snd (add_file 5 fx4 3 ''a.tar'' escaping_archive o644 0 0), sh_cwd := 3\<rparr>"

lemma extracting_session: "session_wf extracting_shell"
proof -
  have g: "good_result fx4 (add_file 5 fx4 3 ''a.tar'' escaping_archive o644 0 0)"
    using good_add_file [OF fx_wf(1), of 3] by (simp add: fx_sizes)
  then show ?thesis
    using sample_files(1) by (auto simp: session_wf_def extracting_shell_def sample_file_shell_def sample_shell_def good_result_def fx_sizes)
qed

theorem tar_extract_confined_witness:
  "\<exists>r u. cmd_tar sample_world extracting_shell [''xf'', ''a.tar''] = Some (r, u) \<and> session_wf u
    \<and> fnode (sh_vfs u) 0 = fnode (sh_vfs extracting_shell) 0"
proof -
  have a: "tar_args [''xf'', ''a.tar''] tar_opts_none
      = Inr (tar_opts_none\<lparr>to_extract := True, to_archive := Some ''a.tar'', to_first := False\<rparr>)"
    by code_simp
  have v: "wf_tree (sh_vfs extracting_shell)" "sh_cwd extracting_shell = 3"
    using wf_vfsD(1) [OF session_vfs [OF extracting_session]] by (simp_all add: extracting_shell_def)
  have "\<not> anc (sh_vfs extracting_shell) 3 0" using wf_treeD(3) [OF v(1)] by (subst anc_iff) simp
  moreover have "0 < fsize (sh_vfs extracting_shell)" using wf_treeD(2) [OF v(1)] .
  ultimately show ?thesis
    using tar_extract_confined [OF extracting_session a, of sample_world] v(2) by (auto simp: tar_opts_none_def)
qed

end
