(* ===== verification/Fs_Session.thy ===== *)
theory Fs_Session
  imports Tar_Confined
begin

text \<open>
  Sessions that run the modelled file commands: the registry's table leads to them, and what the
  session properties ask of every command function is proved for these.
\<close>

definition fs_mutators :: "str list" where
  "fs_mutators = ''tar'' # file_commands"

text \<open>The functions of \<open>commands/fs.rs\<close> that change the session, and \<open>H\<close> for all others.\<close>

definition with_files :: "world \<Rightarrow> handlers \<Rightarrow> handlers" where
  "with_files w H = H\<lparr>run_mut := \<lambda>md f s args.
     (case (if md \<noteq> Fs then None else if f = ''tar'' then cmd_tar w s args else file_command w f s args) of
        Some q \<Rightarrow> q | None \<Rightarrow> run_mut H md f s args)\<rparr>"

lemma fs_mutators_all: "(nm, Mut, Fs, f) \<in> set command_table \<Longrightarrow> f \<in> set fs_mutators"
  by (auto simp: command_table_def fs_mutators_def file_commands_def)

lemma file_command_modelled: "file_command w f s args = Some q \<Longrightarrow> f \<in> set file_commands"
  by (auto simp: file_command_def file_commands_def split: if_splits)

lemma with_files_keeps:
  assumes "session_wf s"
    and other: "md \<noteq> Fs \<or> f \<notin> set fs_mutators \<Longrightarrow> keeps_wf s (snd (run_mut H md f s args))"
  shows "keeps_wf s (snd (run_mut (with_files w H) md f s args))"
proof (cases "md = Fs \<and> f \<in> set fs_mutators")
  case False
  then have "(if md \<noteq> Fs then None else if f = ''tar'' then cmd_tar w s args else file_command w f s args) = None"
    using file_command_modelled by (cases "file_command w f s args") (auto simp: fs_mutators_def)
  then show ?thesis using False other by (simp add: with_files_def)
next
  case True
  show ?thesis
  proof (cases "f = ''tar''")
    case True
    then show ?thesis using \<open>md = Fs \<and> _\<close> cmd_tar_keeps [OF assms(1), of w args] by (auto simp: with_files_def)
  next
    case False
    then have "f \<in> set file_commands" using True by (simp add: fs_mutators_def)
    then show ?thesis using True False file_command_behaves [OF _ assms(1), of f w args]
      by (auto simp: with_files_def behaves_def split: option.splits)
  qed
qed

text \<open>
  C13: A session stays within its bounds. From the login on, through any lines, answered prompts, ended
  here-documents and remembered lines, with the file commands as they are and every other command
  function keeping a session well-formed, the arena is a tree within its node and byte caps, the
  environment holds at most 256 variables, the working directories are nodes of the arena, and the
  nesting level is back to zero, so no line starts with part of its nesting used up.
\<close>

theorem sessions_bounded:
  assumes "session (\<lambda>w. dispatch (with_files w H)) s"
    and other: "\<And>md f t args. session_wf t \<Longrightarrow> md \<noteq> Fs \<or> f \<notin> set fs_mutators \<Longrightarrow> keeps_wf t (snd (run_mut H md f t args))"
  shows "wf_tree (sh_vfs s) \<and> fsize (sh_vfs s) \<le> 2000 \<and> content_bytes (sh_vfs s) \<le> 8388608
    \<and> length (env_iter (sh_env s)) \<le> 256
    \<and> sh_cwd s < fsize (sh_vfs s) \<and> sh_home s < fsize (sh_vfs s) \<and> sh_prev_cwd s < fsize (sh_vfs s)
    \<and> sh_nesting s = 0"
  by (rule session_bounded [where H = "\<lambda>w. with_files w H", OF assms(1)]) (intro with_files_keeps other)

theorem sessions_bounded_witness:
  "\<exists>s. session (\<lambda>w. dispatch (with_files w idle_handlers)) s \<and> sh_nesting s = 0 \<and> length (env_iter (sh_env s)) \<le> 256"
proof -
  have s: "session (\<lambda>w. dispatch (with_files w idle_handlers)) (shell_new 0 (vfs_new 0) ''bob'' ''box'' persona_sample)"
    by (rule session.login) (rule wf_vfs_new)
  have "keeps_wf t (snd (run_mut idle_handlers md f t args))" if "session_wf t" for md f t args
    using keeps_wf_refl [OF that] by (simp add: idle_handlers_def)
  from sessions_bounded [OF s this] s show ?thesis by blast
qed

end
