(* ===== verification/Ssh_Connection.thy ===== *)
theory Ssh_Connection
  imports Ssh_Props Fs_Session "HOL-Library.Sublist"
begin

text \<open>
  Connections: the requests of a client as a step relation over the handler, with other connections
  writing to the shared quarantine in between, and what holds of every connection.
\<close>

section \<open>Requests as steps\<close>

text \<open>The calls of the library on the handler, and the tick of the task that redraws a held display.\<close>

datatype request =
    Password str str
  | Publickey str str
  | OpenSession "byte list" nat
  | PtyReq "byte list" nat str nat nat
  | EnvReq nat str str
  | WindowChange nat nat nat
  | Subsystem nat str
  | Agent nat
  | ShellReq nat
  | Exec nat "byte list"
  | DataReq nat "byte list"
  | ChannelEof nat
  | ChannelClose nat
  | Redraw nat

fun handle :: "'h server \<Rightarrow> request \<Rightarrow> 'h mimic_handler \<Rightarrow> 'h mimic_handler outcome" where
  "handle sv (Password u p) h = Done (snd (auth_password sv u p h))"
| "handle sv (Publickey u f) h = Done (snd (auth_publickey sv u f h))"
| "handle sv (OpenSession b ch) h = Done (channel_open_session sv b ch h)"
| "handle sv (PtyReq b ch t c r) h = Done (pty_request_call sv b ch t c r h)"
| "handle sv (EnvReq ch n x) h = Done (env_request ch n x h)"
| "handle sv (WindowChange ch c r) h = Done (window_change_request ch c r h)"
| "handle sv (Subsystem ch n) h = Done (subsystem_request sv ch n h)"
| "handle sv (Agent ch) h = Done (snd (agent_request ch h))"
| "handle sv (ShellReq ch) h = Done (shell_request sv ch h)"
| "handle sv (Exec ch d) h = exec_request sv ch d h"
| "handle sv (DataReq ch d) h = data_request sv ch d h"
| "handle sv (ChannelEof ch) h = channel_eof sv ch h"
| "handle sv (ChannelClose ch) h = Done (close_channel sv ch h)"
| "handle sv (Redraw ch) h = Done (redraw_tick sv ch h)"

text \<open>The environment of a request: a well-formed image, and the registry with the file commands.\<close>

definition serves :: "handlers \<Rightarrow> 'h hasher \<Rightarrow> 'h server \<Rightarrow> bool" where
  "serves F X sv \<longleftrightarrow> wf_vfs (sv_image sv) \<and> sv_hasher sv = X \<and> sv_dispatch sv = dispatch (with_files (sv_world sv) F)"

definition others_keep :: "handlers \<Rightarrow> bool" where
  "others_keep F \<longleftrightarrow> (\<forall>md f t args. session_wf t \<longrightarrow> md \<noteq> Fs \<or> f \<notin> set fs_mutators \<longrightarrow> keeps_wf t (snd (run_mut F md f t args)))"

inductive connection :: "config \<Rightarrow> 'h hasher \<Rightarrow> handlers \<Rightarrow> 'h mimic_handler \<Rightarrow> bool" for C X F where
  opened: "config_load parse path = Inr C \<Longrightarrow> store_reach X q \<Longrightarrow> connection C X F (handler_new C p sid peer loc now g q ck)"
| requested: "connection C X F h \<Longrightarrow> serves F X sv \<Longrightarrow> handle sv r h = Done h' \<Longrightarrow> connection C X F h'"
| interleaved: "connection C X F h \<Longrightarrow> store_reach X q \<Longrightarrow> connection C X F (h\<lparr>mh_store := q, mh_global_quarantine_bytes := g\<rparr>)"

lemma serves_ok: "serves F X sv \<Longrightarrow> others_keep F \<Longrightarrow> server_ok sv"
  unfolding serves_def server_ok_def others_keep_def by (auto intro!: dispatch_obeys_wf with_files_keeps)

lemma handle_ok:
  assumes "server_ok sv" "handler_ok C (sv_hasher sv) h"
  shows "returns (handler_ok C (sv_hasher sv)) (handle sv r h)"
  by (cases r) (simp_all add: assms ok_simple_requests ok_window_change ok_shell_request ok_exec_request ok_data_request
      ok_channel_eof ok_close ok_redraw)

lemma connection_ok:
  assumes "connection C X F h" "others_keep F"
  shows "handler_ok C X h"
  using assms(1)
proof (induction rule: connection.induct)
  case (opened parse path q p sid peer loc now g ck)
  then show ?case using config_load_ok [OF opened(1)] edited.edited_new
    by (simp add: handler_ok_def handler_new_def shell_ok_def buffer_ok_def)
next
  case (requested h sv r h')
  have "sv_hasher sv = X" using requested.hyps(2) by (simp add: serves_def)
  then show ?case using handle_ok [OF serves_ok [OF requested.hyps(2) assms(2)]] requested by (force simp: returns_def)
next
  case (interleaved h q g)
  then show ?case by (simp add: handler_ok_def)
qed

text \<open>
  C1: Every connection stays within its bounds. With a configuration that was loaded and
  validated, whatever a client requests in whatever order, and whatever other connections write to the quarantine in
  between, with the file commands as they are and every other command function keeping a session well-formed:
  no request runs without end (it returns, unless a line of text beyond ASCII makes the shell panic, which ends the connection); the shell's filesystem stays a tree within
  its caps and its environment within 256 variables; the buffer of input without a terminal and the password being typed stay within 4096 bytes, the
  accepted variables within 32, the handles of an SFTP session and the file contents they hold within their caps; the bytes the connection has
  added to the quarantine stay within 32 uploads, every file there but scratch files is named by its digest, and the
  number of commands the connection reports is the number of commands it has logged.
\<close>

theorem connections_served:
  assumes "connection C X F h" "others_keep F" "serves F X sv"
  shows "handle sv r h \<noteq> OutOfFuel
    \<and> (\<forall>s. mh_shell h = Some s \<longrightarrow> wf_tree (sh_vfs s) \<and> fsize (sh_vfs s) \<le> 2000 \<and> content_bytes (sh_vfs s) \<le> 8388608
          \<and> length (env_iter (sh_env s)) \<le> 256 \<and> sh_nesting s = 0)
    \<and> length (mh_line_buf h) \<le> 4096 \<and> (\<forall>b. mh_password_buf h = Some b \<longrightarrow> length b \<le> 4096) \<and> length (mh_accepted_env h) \<le> 32
    \<and> (\<forall>f. mh_sftp h = Some f \<longrightarrow> sftp_ok (cfg_max_upload_bytes C) f)
    \<and> mh_quarantine_bytes h \<le> 32 * cfg_max_upload_bytes C
    \<and> (\<forall>n c. bt_get (mh_store h) n = Some c \<and> \<not> is_staging n \<longrightarrow> n = payload_sha256 X c)
    \<and> mh_command_count h = length (filter is_command (mh_events h))"
proof -
  note h = connection_ok [OF assms(1,2)]
  have X: "sv_hasher sv = X" using assms(3) by (simp add: serves_def)
  then have run: "handle sv r h \<noteq> OutOfFuel" using handle_ok [OF serves_ok [OF assms(3,2)]] h by (auto simp: returns_def)
  have "addressed X (mh_store h)" using h by (intro store_reach_addressed) (simp add: handler_ok_def)
  then have named: "n = payload_sha256 X c" if "bt_get (mh_store h) n = Some c" "\<not> is_staging n" for n c
    using that unfolding addressed_def by blast
  have shell: "wf_tree (sh_vfs s) \<and> fsize (sh_vfs s) \<le> 2000 \<and> content_bytes (sh_vfs s) \<le> 8388608
      \<and> length (env_iter (sh_env s)) \<le> 256 \<and> sh_nesting s = 0" if "mh_shell h = Some s" for s
    using h that by (auto simp: handler_ok_def shell_ok_def wf_at_def session_wf_def wf_vfs_def wf_caps_def env_ok_def env_iter_def
        MAX_VFS_NODES_def MAX_VFS_BYTES_def MAX_ENV_VARS_def)
  have "mh_quarantine_bytes h \<le> 32 * cfg_max_upload_bytes C"
    using h by (simp add: handler_ok_def session_cap_def QUARANTINE_SESSION_MULTIPLIER_def)
  then show ?thesis using run named shell h
    by (auto simp: handler_ok_def buffer_ok_def MAX_COMMAND_LEN_def MAX_ACCEPTED_ENV_def)
qed

text \<open>A server for examples.\<close>

definition example_server :: "world \<Rightarrow> byte list server" where
  "example_server w = \<lparr>sv_world = w, sv_dispatch = dispatch (with_files w idle_handlers), sv_hasher = echo_hasher,
     sv_image = vfs_new 0, sv_log = \<lparr>site_sensor = Some ''s'', site_boot = Some ''b''\<rparr>, sv_disk = (\<lambda>_. sound_disk)\<rparr>"

definition example_handler :: "byte list mimic_handler" where
  "example_handler = handler_new config_default persona_sample 7 \<lparr>sa_text = ''10.0.0.9:4000'', sa_ip = ''10.0.0.9'', sa_port = 4000\<rparr>
     \<lparr>sa_text = ''10.0.0.1:22'', sa_ip = ''10.0.0.1'', sa_port = 22\<rparr> 0 0 [] clock_new"

lemma example_ok:
  "others_keep idle_handlers" "serves idle_handlers echo_hasher (example_server w)"
  "connection config_default echo_hasher idle_handlers example_handler"
proof -
  show "others_keep idle_handlers" by (simp add: others_keep_def idle_handlers_def keeps_wf_refl)
  show "serves idle_handlers echo_hasher (example_server w)" by (simp add: serves_def example_server_def wf_vfs_new)
  show "connection config_default echo_hasher idle_handlers example_handler"
    unfolding example_handler_def by (rule connection.opened [OF default_loads store_reach.fresh])
qed

theorem connections_served_witness:
  "connection config_default echo_hasher idle_handlers example_handler
    \<and> (\<forall>w. handle (example_server w) (Exec 0 ''uname -a'') example_handler \<noteq> OutOfFuel)"
  using connections_served [OF example_ok(3) example_ok(1) example_ok(2), where r = "Exec 0 ''uname -a''"] example_ok(3) by blast

section \<open>Logins\<close>

text \<open>A sequence of login attempts, by password or by key; what each is answered, and the handler after them.\<close>

primrec logins :: "'h server \<Rightarrow> (bool \<times> str \<times> str) list \<Rightarrow> 'h mimic_handler \<Rightarrow> bool list \<times> 'h mimic_handler" where
  "logins sv [] h = ([], h)"
| "logins sv (a # as) h =
     (case a of (by_password, user, secret) \<Rightarrow>
        case (if by_password then auth_password sv user secret h else auth_publickey sv user secret h) of (ok, h1) \<Rightarrow>
          case logins sv as h1 of (oks, h2) \<Rightarrow> (ok # oks, h2))"

definition attempt_event :: "'h server \<Rightarrow> 'h mimic_handler \<Rightarrow> bool \<times> str \<times> str \<Rightarrow> bool \<Rightarrow> log_event" where
  "attempt_event sv h a ok = (case a of (by_password, user, secret) \<Rightarrow>
     if by_password then ev_auth_attempt (sv_log sv) (mh_session_id h) (mh_peer h) user ''password'' (Some secret) None ok
     else ev_auth_attempt (sv_log sv) (mh_session_id h) (mh_peer h) user ''publickey'' None (Some secret) ok)"

lemma auth_step:
  fixes h :: "'h mimic_handler"
  assumes "(if b then auth_password sv user secret h else auth_publickey sv user secret h) = (ok, h1)"
  shows "mh_config h1 = mh_config h" "mh_session_id h1 = mh_session_id h" "mh_peer h1 = mh_peer h"
    "mh_auth_attempts h1 = mh_auth_attempts h + 1" "mh_events h1 = mh_events h @ [attempt_event sv h (b, user, secret) ok]"
  using assms by (auto simp: auth_password_def auth_publickey_def Let_def log_ev_def attempt_event_def split: if_splits)

lemma logins_frame:
  fixes h :: "'h mimic_handler"
  assumes "logins sv as h = (oks, h')"
  shows "length oks = length as \<and> mh_config h' = mh_config h \<and> mh_session_id h' = mh_session_id h \<and> mh_peer h' = mh_peer h
    \<and> mh_auth_attempts h' = mh_auth_attempts h + length as \<and> mh_events h' = mh_events h @ map2 (attempt_event sv h) as oks"
  using assms
proof (induction as arbitrary: h oks)
  case (Cons a as)
  obtain b user secret where a: "a = (b, user, secret)" by (cases a)
  obtain ok h1 where 1: "(if b then auth_password sv user secret h else auth_publickey sv user secret h) = (ok, h1)" by fastforce
  obtain oks1 where 2: "logins sv as h1 = (oks1, h')" "oks = ok # oks1"
    using Cons.prems a 1 by (auto split: prod.splits)
  have "attempt_event sv h1 = attempt_event sv h" using auth_step [OF 1] by (simp add: attempt_event_def fun_eq_iff)
  then show ?case using Cons.IH [OF 2(1)] 2(2) a auth_step [OF 1] by simp
qed simp

text \<open>
  C24: Logins are decided by the configured mode, after any number of attempts of either kind: accepted
  always, never, from the configured attempt on, or by the list of credentials. A key is never accepted;
  every attempt is logged once, in order, with the name, the secret and the answer. Where the mode is to
  accept from some attempt on, a validated configuration has that attempt come no later than the library's
  limit of attempts, which would end the connection.
\<close>

theorem logins_decided:
  fixes p :: persona
  assumes "config_load parse path = Inr C" "logins sv as (handler_new C p sid peer loc now g q ck) = (oks, h)"
  shows "fst (auth_password sv user password h) =
      (case au_mode (cfg_auth C) of AcceptAll \<Rightarrow> True | RejectAll \<Rightarrow> False
       | AcceptAfter \<Rightarrow> au_accept_after (cfg_auth C) \<le> length as + 1
       | Credentials \<Rightarrow> \<lparr>cr_username = user, cr_password = password\<rparr> \<in> set (au_credentials (cfg_auth C)))
    \<and> \<not> fst (auth_publickey sv user key h)
    \<and> mh_events (snd (auth_password sv user password h)) =
        map2 (attempt_event sv h) as oks @ [attempt_event sv h (True, user, password) (fst (auth_password sv user password h))]
    \<and> (au_mode (cfg_auth C) = AcceptAfter \<and> MAX_AUTH_ATTEMPTS \<le> length as + 1 \<longrightarrow> fst (auth_password sv user password h))"
proof -
  let ?h0 = "handler_new C p sid peer loc now g q ck"
  note f = logins_frame [OF assms(2)]
  have "attempt_event sv h = attempt_event sv ?h0" using f by (simp add: attempt_event_def fun_eq_iff)
  moreover have "mh_events ?h0 = []" "mh_auth_attempts ?h0 = 0" "mh_config ?h0 = C" by (simp_all add: handler_new_def)
  ultimately have h: "mh_config h = C" "mh_auth_attempts h = length as" "mh_events h = map2 (attempt_event sv h) as oks"
    using f by simp_all
  have mem: "list_ex (\<lambda>c. cr_username c = user \<and> cr_password c = password) cs \<longleftrightarrow> \<lparr>cr_username = user, cr_password = password\<rparr> \<in> set cs" for cs :: "credential list"
    by (induction cs) (auto)
  obtain ok h1 where a: "auth_password sv user password h = (ok, h1)" by fastforce
  have "ok = decide_auth (h\<lparr>mh_auth_attempts := mh_auth_attempts h + 1\<rparr>) user password"
    using a by (simp add: auth_password_def Let_def)
  then have "ok = (case au_mode (cfg_auth C) of AcceptAll \<Rightarrow> True | RejectAll \<Rightarrow> False
       | AcceptAfter \<Rightarrow> au_accept_after (cfg_auth C) \<le> length as + 1
       | Credentials \<Rightarrow> \<lparr>cr_username = user, cr_password = password\<rparr> \<in> set (au_credentials (cfg_auth C)))"
    by (simp add: decide_auth_def h(1,2) mem Let_def split: auth_mode.split)
  moreover have "au_accept_after (cfg_auth C) \<le> MAX_AUTH_ATTEMPTS" using config_load_ok [OF assms(1)] by (simp add: config_ok_def)
  moreover have "mh_events h1 = mh_events h @ [attempt_event sv h (True, user, password) ok]"
    using auth_step(5) [of True sv user password h ok h1] a by simp
  ultimately show ?thesis using a h(3) by (simp add: auth_publickey_def Let_def)
qed

definition patient_config :: config where
  "patient_config = config_default\<lparr>cfg_auth := (cfg_auth config_default)\<lparr>au_mode := AcceptAfter, au_accept_after := 2\<rparr>\<rparr>"

definition patient_handler :: "byte list mimic_handler" where
  "patient_handler = handler_new patient_config persona_sample 7 (mh_peer example_handler) (mh_local example_handler) 0 0 [] clock_new"

theorem logins_decided_witness:
  "\<not> fst (auth_password (example_server sample_world) ''root'' ''x'' (snd (logins (example_server sample_world) [] patient_handler)))
   \<and> fst (auth_password (example_server sample_world) ''root'' ''x''
        (snd (logins (example_server sample_world) [(False, ''root'', ''key'')] patient_handler)))"
proof -
  have "config_ok patient_config" using default_ok by (simp add: config_ok_def patient_config_def MAX_AUTH_ATTEMPTS_def)
  then have c: "config_load (\<lambda>_. Inr patient_config) (Some ''c'') = Inr patient_config"
    by (auto simp: config_load_def validate_iff [symmetric] split: sum.split)
  have p: "logins sv as (handler_new patient_config persona_sample 7 (mh_peer example_handler) (mh_local example_handler) 0 0 [] clock_new)
      = (fst (logins sv as patient_handler), snd (logins sv as patient_handler))" for sv :: "byte list server" and as
    by (simp add: patient_handler_def)
  have m: "au_mode (cfg_auth patient_config) = AcceptAfter" "au_accept_after (cfg_auth patient_config) = 2"
    by (simp_all add: patient_config_def)
  show ?thesis
    using logins_decided [OF c p, where as = "[]" and user = "''root''" and password = "''x''"]
      logins_decided [OF c p, where as = "[(False, ''root'', ''key'')]" and user = "''root''" and password = "''x''"] m by simp
qed

section \<open>One-shot commands\<close>

text \<open>What only the quarantine, the log and the shell see: the client is sent nothing and its input stays.\<close>

definition quiet_step :: "'h mimic_handler \<Rightarrow> 'h mimic_handler \<Rightarrow> bool" where
  "quiet_step h h' \<longleftrightarrow> mh_sent h' = mh_sent h \<and> mh_pty h' = mh_pty h \<and> mh_line_buf h' = mh_line_buf h
     \<and> mh_session_id h' = mh_session_id h \<and> mh_peer h' = mh_peer h \<and> mh_active_channel h' = mh_active_channel h
     \<and> mh_pty_term h' = mh_pty_term h \<and> mh_accepted_env h' = mh_accepted_env h \<and> prefix (mh_events h) (mh_events h')"

lemma quiet_refl [simp]: "quiet_step h h"
  by (simp add: quiet_step_def)

lemma quiet_trans: "quiet_step h h1 \<Longrightarrow> quiet_step h1 h2 \<Longrightarrow> quiet_step h h2"
  using prefix_order.trans by (simp add: quiet_step_def) blast

lemma quiet_fold: "(\<And>x h. quiet_step h (f x h)) \<Longrightarrow> quiet_step h (fold f xs h)"
  by (induction xs arbitrary: h) (auto intro: quiet_trans)

lemma quiet_basic [simp]: "quiet_step h (put_shell s h)" "quiet_step h (log_ev e h)" "quiet_step h (log_command sv text src st h)"
  by (simp_all add: quiet_step_def put_shell_def log_ev_def log_command_def)

lemma quiet_fields [simp]:
  "quiet_step h (h'\<lparr>mh_shell := a\<rparr>) = quiet_step h h'" "quiet_step h (h'\<lparr>mh_sftp := b\<rparr>) = quiet_step h h'"
  "quiet_step h (h'\<lparr>mh_store := c\<rparr>) = quiet_step h h'" "quiet_step h (h'\<lparr>mh_quarantine_bytes := d\<rparr>) = quiet_step h h'"
  "quiet_step h (h'\<lparr>mh_global_quarantine_bytes := e\<rparr>) = quiet_step h h'"
  "quiet_step h (put_shell s h') = quiet_step h h'"
  by (simp_all add: quiet_step_def put_shell_def)

lemma quiet_then_log: "quiet_step h h' \<Longrightarrow> quiet_step h (log_ev e h')" "quiet_step h h' \<Longrightarrow> quiet_step h (log_command sv text src st h')"
  by (blast intro: quiet_trans quiet_basic)+

lemma quiet_heredoc: "quiet_step h (log_closed_heredoc sv h)"
  by (simp add: log_closed_heredoc_def Let_def quiet_then_log split: option.split)

lemma quiet_captures: "quiet_step h (drain_captures sv h)"
  unfolding drain_captures_def Let_def
  by (rule quiet_trans [OF quiet_basic(1)], rule quiet_fold) (simp add: log_capture_def split: capture.split)

lemma quiet_quarantine: "quiet_step h (snd (quarantine_payload sv dat h))"
  by (simp add: quarantine_payload_def Let_def quiet_then_log split: prod.split sum.split)

lemma quiet_drain_sftp: "quiet_step h (drain_sftp_uploads sv h)"
proof -
  have "quiet_step h (store_sftp_upload sv u h)" for u h
    using quiet_quarantine by (auto simp: store_sftp_upload_def case_prod_unfold intro: quiet_then_log)
  then have "quiet_step (h\<lparr>mh_sftp := None, mh_shell := s\<rparr>) (fold (store_sftp_upload sv) us (h\<lparr>mh_sftp := None, mh_shell := s\<rparr>))" for us s
    by (rule quiet_fold)
  moreover have "quiet_step h (h\<lparr>mh_sftp := None, mh_shell := s\<rparr>)" for s by simp
  ultimately have "quiet_step h (fold (store_sftp_upload sv) us (h\<lparr>mh_sftp := None, mh_shell := s\<rparr>))" for us s
    using quiet_trans by blast
  then show ?thesis by (simp add: drain_sftp_uploads_def split: option.split prod.split)
qed

text \<open>
  Closing a channel forgets its shell, its buffers and that it had a terminal, but not the terminal's
  description or the variables the client sent, which the next channel's shell is made with.
\<close>

lemma closed_channel_keeps_terminal:
  assumes "mh_active_channel h = Some ch"
  shows "mh_shell (close_channel sv ch h) = None \<and> \<not> mh_pty (close_channel sv ch h)
    \<and> mh_pty_term (close_channel sv ch h) = mh_pty_term h \<and> mh_accepted_env (close_channel sv ch h) = mh_accepted_env h"
  using assms quiet_drain_sftp [of h sv] by (simp add: close_channel_def quiet_step_def)

text \<open>The packets a result is written in: one stream on a terminal, two without.\<close>

definition result_packets :: "bool \<Rightarrow> line_output \<Rightarrow> packet list" where
  "result_packets pty o1 =
     (if pty then (if o_text o1 = [] then [] else [Data (crlf (o_text o1))])
      else (if o_stdout o1 = [] then [] else [Data (o_stdout o1)])
        @ (if o_stderr o1 = [] then [] else [ExtendedData SSH_EXTENDED_DATA_STDERR (o_stderr o1)]))"

lemma crlf_empty [simp]: "crlf x = [] \<longleftrightarrow> x = []"
  by (cases x) (simp_all add: crlf_def)

lemma write_output_fields:
  "mh_sent (write_output ch o1 h) = mh_sent h @ map (Pair ch) (result_packets (mh_pty h) o1)"
  "mh_pty (write_output ch o1 h) = mh_pty h" "mh_line_buf (write_output ch o1 h) = mh_line_buf h"
  "mh_events (write_output ch o1 h) = mh_events h" "mh_active_channel (write_output ch o1 h) = mh_active_channel h"
  by (simp_all add: write_output_def Let_def send_data_def send_def out_bytes_def result_packets_def)

lemma end_channel_fields:
  "mh_sent (end_channel sv ch st h) = mh_sent h @ [(ch, ExitStatus st), (ch, EofPacket), (ch, ClosePacket)]"
  "prefix (mh_events h) (mh_events (end_channel sv ch st h))"
  "mh_active_channel h = Some ch \<Longrightarrow> mh_active_channel (end_channel sv ch st h) = None \<and> mh_shell (end_channel sv ch st h) = None"
proof -
  let ?h = "send ch ClosePacket (send ch EofPacket (send ch (ExitStatus st) h))"
  have sent: "mh_sent ?h = mh_sent h @ [(ch, ExitStatus st), (ch, EofPacket), (ch, ClosePacket)]" "mh_events ?h = mh_events h"
    "mh_active_channel ?h = mh_active_channel h" by (simp_all add: send_def)
  have q: "quiet_step ?h (drain_sftp_uploads sv ?h)" by (rule quiet_drain_sftp)
  show "mh_sent (end_channel sv ch st h) = mh_sent h @ [(ch, ExitStatus st), (ch, EofPacket), (ch, ClosePacket)]"
    "prefix (mh_events h) (mh_events (end_channel sv ch st h))"
    "mh_active_channel h = Some ch \<Longrightarrow> mh_active_channel (end_channel sv ch st h) = None \<and> mh_shell (end_channel sv ch st h) = None"
    using q sent by (simp_all add: end_channel_def close_channel_def quiet_step_def)
qed

text \<open>
  C5: A one-shot command is answered in full and logged. A request to run a command that is no file copy,
  when it returns, has run exactly that text (the first 4096 bytes of it) as a line of a shell without a terminal, with an unfinished
  here-document closed, and has sent, in this order and nothing else: the acceptance, the output on its
  streams, the exit status, the end of the output and the close; it has logged the command with that status,
  kept everything logged before, and released the channel.
\<close>

theorem exec_answered:
  assumes "exec_request sv ch dat h = Done h'" "parse_scp (trim (from_utf8_lossy (take MAX_COMMAND_LEN dat))) = None"
  shows "\<exists>o1 s1 fin s2. execute (sv_world sv) (sv_dispatch sv) ((shell_of sv h)\<lparr>sh_interactive := False\<rparr>)
        (trim (from_utf8_lossy (take MAX_COMMAND_LEN dat))) = Done (o1, s1)
    \<and> finish_heredoc_at_eof (sv_world sv) (sv_dispatch sv) s1 = Done (fin, s2)
    \<and> (let o2 = (case fin of None \<Rightarrow> o1 | Some o' \<Rightarrow> o') in
        mh_sent h' = mh_sent h @ map (Pair ch)
          (ChannelSuccess # result_packets (mh_pty h) o2 @ [ExitStatus (status_u32 (o_status o2)), EofPacket, ClosePacket])
        \<and> prefix (mh_events h) (mh_events h')
        \<and> ev_command (sv_log sv) (mh_session_id h) (mh_peer h) (trim (from_utf8_lossy (take MAX_COMMAND_LEN dat))) SExec (Some (o_status o2))
            \<in> set (drop (length (mh_events h)) (mh_events h'))
        \<and> (mh_active_channel h = Some ch \<longrightarrow> mh_active_channel h' = None \<and> mh_shell h' = None))"
proof -
  let ?cmd = "trim (from_utf8_lossy (take MAX_COMMAND_LEN dat))" and ?h = "send ch ChannelSuccess h"
  have same: "shell_of sv ?h = shell_of sv h" by (cases "mh_shell h") (simp_all add: shell_of_def new_shell_def send_def)
  obtain o1 s1 fin s2 where run: "execute (sv_world sv) (sv_dispatch sv) ((shell_of sv h)\<lparr>sh_interactive := False\<rparr>) ?cmd = Done (o1, s1)"
      "finish_heredoc_at_eof (sv_world sv) (sv_dispatch sv) s1 = Done (fin, s2)"
    using assms by (auto simp: exec_request_def Let_def same obind_Done)
  define o2 where "o2 = (case fin of None \<Rightarrow> o1 | Some o' \<Rightarrow> o')"
  define h2 where "h2 = (if fin = None then put_shell s2 ?h else log_closed_heredoc sv (put_shell s2 ?h))"
  define h3 where "h3 = log_command sv ?cmd SExec (Some (o_status o2)) (put_shell ((shell_of sv h2)\<lparr>sh_pending := None\<rparr>) h2)"
  define h4 where "h4 = drain_captures sv h3"
  have h': "h' = end_channel sv ch (status_u32 (o_status o2)) (write_output ch o2 h4)"
    using assms run by (simp add: exec_request_def Let_def same o2_def h2_def h3_def h4_def)
  have "quiet_step ?h h2" by (auto simp: h2_def intro: quiet_trans [OF quiet_basic(1) quiet_heredoc])
  moreover have "mh_events h3 = mh_events h2 @ [ev_command (sv_log sv) (mh_session_id h2) (mh_peer h2) ?cmd SExec (Some (o_status o2))]"
    "quiet_step h2 h3"
    by (simp_all add: h3_def log_command_def log_ev_def put_shell_def quiet_step_def)
  moreover have "quiet_step h3 h4" unfolding h4_def by (rule quiet_captures)
  ultimately have ev: "ev_command (sv_log sv) (mh_session_id h) (mh_peer h) ?cmd SExec (Some (o_status o2)) \<in> set (drop (length (mh_events h)) (mh_events h4))"
    and q: "quiet_step ?h h4"
    by (auto simp: quiet_step_def prefix_def send_def)
  have later: "prefix (mh_events h4) (mh_events h')" using end_channel_fields(2) [of "write_output ch o2 h4"] by (simp add: h' write_output_fields)
  have "mh_sent h' = mh_sent h @ map (Pair ch)
        (ChannelSuccess # result_packets (mh_pty h) o2 @ [ExitStatus (status_u32 (o_status o2)), EofPacket, ClosePacket])"
    using q by (simp add: h' end_channel_fields write_output_fields quiet_step_def) (simp add: send_def)
  moreover have "prefix (mh_events h) (mh_events h')" using later q by (auto simp: quiet_step_def send_def intro: prefix_order.trans)
  moreover have "ev_command (sv_log sv) (mh_session_id h) (mh_peer h) ?cmd SExec (Some (o_status o2))
      \<in> set (drop (length (mh_events h)) (mh_events h'))" using ev later by (auto simp: prefix_def)
  moreover have "mh_active_channel h' = None \<and> mh_shell h' = None" if "mh_active_channel h = Some ch"
    unfolding h' using q that by (intro end_channel_fields(3)) (simp add: write_output_fields quiet_step_def send_def)
  ultimately show ?thesis using run unfolding o2_def Let_def by blast
qed

definition exec_server :: "byte list server" where
  "exec_server = (example_server sample_world)\<lparr>sv_dispatch := sample_dispatch\<rparr>"

definition exec_handler :: "byte list mimic_handler" where
  "exec_handler = example_handler\<lparr>mh_shell := Some sample_shell, mh_active_channel := Some 0\<rparr>"

lemma sample_exec: "\<exists>h'. exec_request exec_server 0 (join '' '' (map squote [''get'', ''u''])) exec_handler = Done h'"
proof -
  let ?line = "join '' '' (map squote [''get'', ''u''])" and ?s = "sample_shell\<lparr>sh_interactive := False\<rparr>"
  have "\<exists>o1 t. execute sample_world sample_dispatch ?s ?line = Done (o1, t) \<and> sh_pending t = None"
    using execute_body_squotes [where s = ?s and d = sample_dispatch, OF sample_words _ refl sample_get]
    by (simp add: sample_shell_def execute_def expand_def poised_def)
  then obtain o1 t where e: "execute sample_world sample_dispatch ?s ?line = Done (o1, t)" "sh_pending t = None" by blast
  have p: "trim (from_utf8_lossy (take MAX_COMMAND_LEN ?line)) = ?line" "parse_scp ?line = None" by code_simp+
  have "shell_of exec_server (send 0 ChannelSuccess exec_handler) = sample_shell"
    by (simp add: shell_of_def send_def exec_handler_def)
  moreover have "sv_world exec_server = sample_world" "sv_dispatch exec_server = sample_dispatch"
    by (simp_all add: exec_server_def example_server_def)
  ultimately show ?thesis unfolding exec_request_def Let_def p using e by (simp add: finish_heredoc_at_eof_def Let_def)
qed

theorem exec_answered_witness:
  "\<exists>h' o2. exec_request exec_server 0 (join '' '' (map squote [''get'', ''u''])) exec_handler = Done h'
     \<and> mh_active_channel h' = None
     \<and> mh_sent h' = map (Pair 0)
         (ChannelSuccess # result_packets False o2 @ [ExitStatus (status_u32 (o_status o2)), EofPacket, ClosePacket])"
proof -
  obtain h' where e: "exec_request exec_server 0 (join '' '' (map squote [''get'', ''u''])) exec_handler = Done h'"
    using sample_exec by blast
  have p: "parse_scp (trim (from_utf8_lossy (take MAX_COMMAND_LEN (join '' '' (map squote [''get'', ''u'']))))) = None" by code_simp
  have h: "mh_sent exec_handler = []" "mh_pty exec_handler = False" "mh_active_channel exec_handler = Some 0"
    by (simp_all add: exec_handler_def example_handler_def handler_new_def)
  from exec_answered [OF e p] e show ?thesis unfolding Let_def h append_Nil by blast
qed

end
