(* ===== verification/Line_Editor_Zipper.thy ===== *)
theory Line_Editor_Zipper
  imports Line_Editor_Props
begin

text \<open>
  The contract of the line editor: a line is a sequence of characters with a cursor between two of
  them, and each key acts on whole characters. The specification is a zipper of characters; the
  byte-level editor simulates it, through the escape sequences a terminal sends.
\<close>

type_synonym zipper = "rchar list \<times> rchar list"

datatype action = Type rchar | LeftKey | RightKey | HomeKey | EndKey | Backspace | DeleteKey | KillStart | KillEnd

fun z_act :: "action \<Rightarrow> zipper \<Rightarrow> zipper" where
  "z_act (Type c) (ls, rs) = (ls @ [c], rs)"
| "z_act LeftKey (ls, rs) = (if ls = [] then (ls, rs) else (butlast ls, last ls # rs))"
| "z_act RightKey (ls, rs) = (if rs = [] then (ls, rs) else (ls @ [hd rs], tl rs))"
| "z_act HomeKey (ls, rs) = ([], ls @ rs)"
| "z_act EndKey (ls, rs) = (ls @ rs, [])"
| "z_act Backspace (ls, rs) = (butlast ls, rs)"
| "z_act DeleteKey (ls, rs) = (ls, tl rs)"
| "z_act KillStart (ls, rs) = ([], rs)"
| "z_act KillEnd (ls, rs) = (ls, [])"

text \<open>What the terminal sends for an action.\<close>

fun act_bytes :: "action \<Rightarrow> byte list" where
  "act_bytes (Type c) = c"
| "act_bytes LeftKey = [CHR 0x1B, CHR ''['', CHR ''D'']"
| "act_bytes RightKey = [CHR 0x1B, CHR ''['', CHR ''C'']"
| "act_bytes HomeKey = [CHR 0x01]"
| "act_bytes EndKey = [CHR 0x05]"
| "act_bytes Backspace = [CHR 0x7F]"
| "act_bytes DeleteKey = [CHR 0x1B, CHR ''['', CHR ''3'', CHR ''~'']"
| "act_bytes KillStart = [CHR 0x15]"
| "act_bytes KillEnd = [CHR 0x0B]"

definition ed_feed :: "byte list \<Rightarrow> line_editor \<Rightarrow> line_editor" where
  "ed_feed bs e = fold (\<lambda>b e. snd (ed_input e b)) bs e"

definition idle :: "line_editor \<Rightarrow> bool" where
  "idle e \<longleftrightarrow> le_esc e = EscNone \<and> le_search e = None"

definition represents :: "zipper \<Rightarrow> line_editor \<Rightarrow> bool" where
  "represents z e \<longleftrightarrow> idle e \<and> list_all rchar_ok (fst z) \<and> list_all rchar_ok (snd z)
     \<and> le_buf e = concat (fst z) @ concat (snd z) \<and> le_cursor e = length (concat (fst z))"

section \<open>Positions of characters\<close>

lemma back_to_lead_run:
  "(\<forall>j. n < j \<and> j \<le> n + k \<longrightarrow> is_continuation (s ! j)) \<Longrightarrow> n = 0 \<or> \<not> is_continuation (s ! n) \<Longrightarrow>
   back_to_lead s (n + k) = n"
proof (induction k)
  case 0
  then show ?case by (cases n) auto
qed auto

lemma skip_continuation_run:
  "(\<forall>j. i \<le> j \<and> j < i + k \<longrightarrow> is_continuation (s ! j)) \<Longrightarrow> i + k \<le> length s \<Longrightarrow>
   i + k = length s \<or> \<not> is_continuation (s ! (i + k)) \<Longrightarrow> skip_continuation s i = i + k"
proof (induction k arbitrary: i)
  case 0
  then show ?case by (subst skip_continuation.simps) auto
next
  case (Suc k)
  then have "skip_continuation s (i + 1) = i + 1 + k" by (intro Suc.IH) auto
  moreover have "i < length s" "is_continuation (s ! i)" using Suc.prems by auto
  ultimately show ?case by (subst skip_continuation.simps) simp
qed

lemma rchar_tail:
  assumes "rchar_ok c" "0 < j" "j < length c"
  shows "is_continuation (c ! j)"
proof -
  have "c ! j \<in> set (tl c)" using assms(2,3) by (cases c) (auto simp: nth_Cons split: nat.splits)
  then show ?thesis using assms(1) by (auto simp: rchar_ok_def list_all_iff)
qed

lemma rchar_head: "rchar_ok c \<Longrightarrow> 0 < length c \<and> \<not> is_continuation (c ! 0)"
  by (cases c) (auto simp: rchar_ok_def)

lemma prev_char_last:
  assumes "le_buf e = pre @ c @ post" "rchar_ok c"
  shows "prev_char e (length pre + length c) = length pre"
proof -
  have "back_to_lead (pre @ c @ post) (length pre + (length c - 1)) = length pre"
  proof (rule back_to_lead_run)
    show "\<forall>j. length pre < j \<and> j \<le> length pre + (length c - 1) \<longrightarrow> is_continuation ((pre @ c @ post) ! j)"
    proof (intro allI impI)
      fix j assume j: "length pre < j \<and> j \<le> length pre + (length c - 1)"
      then have "is_continuation (c ! (j - length pre))" using rchar_head [OF assms(2)] by (intro rchar_tail [OF assms(2)]) auto
      then show "is_continuation ((pre @ c @ post) ! j)" using j rchar_head [OF assms(2)] by (auto simp: nth_append)
    qed
    show "length pre = 0 \<or> \<not> is_continuation ((pre @ c @ post) ! length pre)"
      using rchar_head [OF assms(2)] by (simp add: nth_append)
  qed
  moreover have "length pre + length c - 1 = length pre + (length c - 1)" using rchar_head [OF assms(2)] by linarith
  ultimately show ?thesis by (simp add: prev_char_def assms(1))
qed

lemma next_char_first:
  assumes "le_buf e = pre @ c @ post" "rchar_ok c" "post = [] \<or> \<not> is_continuation (hd post)"
  shows "next_char e (length pre) = length pre + length c"
proof -
  have c: "0 < length c" using rchar_head [OF assms(2)] by simp
  have "skip_continuation (pre @ c @ post) (length pre + 1) = length pre + 1 + (length c - 1)"
  proof (rule skip_continuation_run)
    show "\<forall>j. length pre + 1 \<le> j \<and> j < length pre + 1 + (length c - 1) \<longrightarrow> is_continuation ((pre @ c @ post) ! j)"
    proof (intro allI impI)
      fix j assume j: "length pre + 1 \<le> j \<and> j < length pre + 1 + (length c - 1)"
      then have "is_continuation (c ! (j - length pre))" using c by (intro rchar_tail [OF assms(2)]) auto
      then show "is_continuation ((pre @ c @ post) ! j)" using j c by (auto simp: nth_append)
    qed
    show "length pre + 1 + (length c - 1) = length (pre @ c @ post) \<or>
        \<not> is_continuation ((pre @ c @ post) ! (length pre + 1 + (length c - 1)))"
      using assms(3) c by (cases post) (auto simp: nth_append)
  qed (use c in simp)
  then show ?thesis using c by (simp add: next_char_def assms(1))
qed

section \<open>Simulation\<close>

lemma input_idle: "idle e \<Longrightarrow> ed_input e b = input_key e b"
  by (simp add: idle_def ed_input_def)

lemma ed_feed_Cons: "ed_feed (b # bs) e = ed_feed bs (snd (ed_input e b))" "ed_feed [] e = e"
  by (simp_all add: ed_feed_def)

lemma ed_feed_append: "ed_feed (as @ bs) e = ed_feed bs (ed_feed as e)"
  by (simp add: ed_feed_def)

text \<open>An arrow key: the escape byte, the bracket and the final byte.\<close>

definition resting :: "line_editor \<Rightarrow> line_editor" where
  "resting e = e\<lparr>le_esc := EscNone, le_csi_params := []\<rparr>"

lemma resting_simps [simp]:
  "le_buf (resting e) = le_buf e" "le_cursor (resting e) = le_cursor e" "le_search (resting e) = le_search e"
  "le_esc (resting e) = EscNone" "le_max_line (resting e) = le_max_line e"
  by (simp_all add: resting_def)

lemma represents_resting: "represents z e \<Longrightarrow> represents z (resting e)"
  by (simp add: represents_def idle_def)

lemma ed_feed_arrow:
  assumes "idle e"
  shows "ed_feed [CHR 0x1B, CHR ''['', CHR ''D''] e = snd (move_left (resting e))"
    "ed_feed [CHR 0x1B, CHR ''['', CHR ''C''] e = snd (move_right (resting e))"
    "ed_feed [CHR 0x1B, CHR ''['', CHR ''3'', CHR ''~''] e = snd (delete_forward (resting e))"
  using assms
  by (simp_all add: ed_feed_Cons idle_def ed_input_def input_key_def input_after_esc_def input_csi_def is_ascii_digit_def
      resting_def Let_def)

lemma represents_split:
  assumes "represents (ls, rs) e"
  shows "idle e" "list_all rchar_ok ls" "list_all rchar_ok rs" "le_buf e = concat ls @ concat rs"
    "le_cursor e = length (concat ls)"
  using assms by (simp_all add: represents_def)

lemma idle_buf [simp]: "idle (e\<lparr>le_buf := b\<rparr>) = idle e" "idle (e\<lparr>le_cursor := c\<rparr>) = idle e"
    "idle (e\<lparr>le_kill := k\<rparr>) = idle e" "idle (e\<lparr>le_hist_pos := h\<rparr>) = idle e"
  by (simp_all add: idle_def)

lemma sim_left:
  assumes "represents (ls, rs) e"
  shows "represents (z_act LeftKey (ls, rs)) (snd (move_left e))"
proof (cases "ls = []")
  case True
  then show ?thesis using assms by (simp add: represents_def move_left_def)
next
  case False
  then obtain ks c where ls: "ls = ks @ [c]" by (metis append_butlast_last_id)
  note r = represents_split [OF assms]
  have "prev_char e (le_cursor e) = length (concat ks)"
    using prev_char_last [of e "concat ks" c "concat rs"] r ls by simp
  moreover have "le_cursor e \<noteq> 0" using r ls by (auto simp: rchar_ok_def)
  ultimately show ?thesis using r ls by (simp add: represents_def move_left_def)
qed

lemma sim_right:
  assumes "represents (ls, rs) e"
  shows "represents (z_act RightKey (ls, rs)) (snd (move_right e))"
proof (cases rs)
  case Nil
  then show ?thesis using assms by (simp add: represents_def move_right_def)
next
  case (Cons c qs)
  note r = represents_split [OF assms]
  have "next_char e (le_cursor e) = length (concat ls) + length c"
    using next_char_first [of e "concat ls" c "concat qs"] r Cons concat_rchars_head [of qs] by simp
  moreover have "le_cursor e < length (le_buf e)" using r Cons by (auto simp: rchar_ok_def)
  ultimately show ?thesis using r Cons by (simp add: represents_def move_right_def)
qed

lemma sim_backspace:
  assumes "represents (ls, rs) e"
  shows "represents (z_act Backspace (ls, rs)) (snd (ed_backspace e))"
proof (cases "ls = []")
  case True
  then show ?thesis using assms by (simp add: represents_def ed_backspace_def)
next
  case False
  then obtain ks c where ls: "ls = ks @ [c]" by (metis append_butlast_last_id)
  note r = represents_split [OF assms]
  have "prev_char e (le_cursor e) = length (concat ks)"
    using prev_char_last [of e "concat ks" c "concat rs"] r ls by simp
  moreover have "le_cursor e \<noteq> 0" using r ls by (auto simp: rchar_ok_def)
  ultimately show ?thesis using r ls by (simp add: represents_def ed_backspace_def Let_def)
qed

lemma sim_delete:
  assumes "represents (ls, rs) e"
  shows "represents (z_act DeleteKey (ls, rs)) (snd (delete_forward e))"
proof (cases rs)
  case Nil
  then show ?thesis using assms by (simp add: represents_def delete_forward_def)
next
  case (Cons c qs)
  note r = represents_split [OF assms]
  have "next_char e (le_cursor e) = length (concat ls) + length c"
    using next_char_first [of e "concat ls" c "concat qs"] r Cons concat_rchars_head [of qs] by simp
  moreover have "le_cursor e < length (le_buf e)" using r Cons by (auto simp: rchar_ok_def)
  ultimately show ?thesis using r Cons by (simp add: represents_def delete_forward_def Let_def)
qed

lemma sim_ends:
  assumes "represents (ls, rs) e"
  shows "represents (z_act HomeKey (ls, rs)) (snd (move_home e))"
    "represents (z_act EndKey (ls, rs)) (snd (move_end e))"
    "represents (z_act KillStart (ls, rs)) (snd (kill_to_start e))"
    "represents (z_act KillEnd (ls, rs)) (snd (kill_to_end e))"
  using assms
  by (auto simp: represents_def move_home_def move_end_def kill_to_start_def kill_to_end_def Let_def)

text \<open>Typing a character: its bytes go in one after the other at the cursor.\<close>

lemma text_key:
  assumes "is_text b"
  shows "input_key e b = ed_insert e b"
proof -
  have "b \<notin> {CHR 0x0D, CHR 0x0A, CHR 0x1B, CHR 0x09, CHR 0x08, CHR 0x7F, CHR 0x01, CHR 0x05, CHR 0x02, CHR 0x06,
      CHR 0x10, CHR 0x0E, CHR 0x15, CHR 0x0B, CHR 0x17, CHR 0x19, CHR 0x0C, CHR 0x12, CHR 0x03, CHR 0x04}"
    using assms by (auto simp: is_text_def)
  then show ?thesis using assms by (simp add: input_key_def)
qed

lemma ed_feed_text:
  "idle e \<Longrightarrow> list_all is_text bs \<Longrightarrow> le_cursor e \<le> length (le_buf e) \<Longrightarrow>
   length (le_buf e) + length bs \<le> le_max_line e \<Longrightarrow>
   idle (ed_feed bs e) \<and> le_max_line (ed_feed bs e) = le_max_line e \<and> le_cursor (ed_feed bs e) = le_cursor e + length bs
   \<and> le_buf (ed_feed bs e) = take (le_cursor e) (le_buf e) @ bs @ drop (le_cursor e) (le_buf e)"
proof (induction bs arbitrary: e)
  case Nil
  then show ?case by (simp add: ed_feed_Cons)
next
  case (Cons b bs)
  let ?e = "snd (ed_insert e b)"
  have ins: "idle ?e" "le_cursor ?e = le_cursor e + 1" "le_max_line ?e = le_max_line e"
      "le_buf ?e = take (le_cursor e) (le_buf e) @ b # drop (le_cursor e) (le_buf e)"
    using Cons.prems by (simp_all add: ed_insert_def Let_def idle_def)
  have "idle (ed_feed bs ?e) \<and> le_max_line (ed_feed bs ?e) = le_max_line ?e \<and> le_cursor (ed_feed bs ?e) = le_cursor ?e + length bs
   \<and> le_buf (ed_feed bs ?e) = take (le_cursor ?e) (le_buf ?e) @ bs @ drop (le_cursor ?e) (le_buf ?e)"
    using Cons.prems ins by (intro Cons.IH) auto
  moreover have "ed_feed (b # bs) e = ed_feed bs ?e"
    using Cons.prems by (simp add: ed_feed_Cons input_idle text_key)
  ultimately show ?case using ins Cons.prems by simp
qed

lemma sim_type:
  assumes "represents (ls, rs) e" "rchar_ok c" "list_all is_text c" "length (le_buf e) + length c \<le> le_max_line e"
  shows "represents (z_act (Type c) (ls, rs)) (ed_feed c e)"
proof -
  note r = represents_split [OF assms(1)]
  have "le_cursor e \<le> length (le_buf e)" using r by simp
  from ed_feed_text [OF r(1) assms(3) this assms(4)] show ?thesis using r assms(2) by (simp add: represents_def)
qed

fun typed_bytes :: "action \<Rightarrow> nat" where
  "typed_bytes (Type c) = length c"
| "typed_bytes _ = 0"

fun typable :: "action \<Rightarrow> bool" where
  "typable (Type c) \<longleftrightarrow> utf8_unit c \<and> list_all is_text c"
| "typable _ \<longleftrightarrow> True"

lemma sim_action:
  assumes "represents z e" "typable a" "length (le_buf e) + typed_bytes a \<le> le_max_line e"
  shows "represents (z_act a z) (ed_feed (act_bytes a) e)"
proof -
  obtain ls rs where z: "z = (ls, rs)" by (cases z)
  have rep: "represents (ls, rs) e" and rest: "represents (ls, rs) (resting e)"
    using assms(1) represents_resting z by auto
  have i: "idle e" using rep by (simp add: represents_def)
  have one: "ed_feed [b] e = snd (input_key e b)" for b using i by (simp add: ed_feed_Cons input_idle)
  show ?thesis unfolding z
  proof (cases a)
    case (Type c)
    then show "represents (z_act a (ls, rs)) (ed_feed (act_bytes a) e)"
      using sim_type [OF rep, of c] assms(2,3) utf8_unit_rchar [of c] by simp
  qed (use sim_left [OF rest] sim_right [OF rest] sim_delete [OF rest] sim_backspace [OF rep] sim_ends [OF rep]
      ed_feed_arrow [OF i] one in \<open>simp_all add: input_key_def\<close>)
qed

lemma ed_feed_caps: "caps (ed_feed bs e) = caps e"
  by (induction bs arbitrary: e) (simp_all add: ed_feed_Cons caps_simps)

lemma z_act_length:
  "length (concat (fst (z_act a z)) @ concat (snd (z_act a z))) \<le> length (concat (fst z) @ concat (snd z)) + typed_bytes a"
proof -
  obtain ls rs where z: "z = (ls, rs)" by (cases z)
  have "ls \<noteq> [] \<Longrightarrow> concat ls = concat (butlast ls) @ last ls"
    by (metis append_butlast_last_id concat.simps(1,2) concat_append append_Nil2)
  then show ?thesis by (cases a; cases rs; cases "ls = []") (auto simp: z)
qed

lemma sim_actions:
  "represents z e \<Longrightarrow> list_all typable as \<Longrightarrow> length (le_buf e) + sum_list (map typed_bytes as) \<le> le_max_line e \<Longrightarrow>
   represents (fold z_act as z) (ed_feed (concat (map act_bytes as)) e)"
proof (induction as arbitrary: z e)
  case Nil
  then show ?case by (simp add: ed_feed_Cons)
next
  case (Cons a as)
  let ?e = "ed_feed (act_bytes a) e"
  have r: "represents (z_act a z) ?e" using Cons.prems by (intro sim_action) auto
  have "length (le_buf ?e) \<le> length (le_buf e) + typed_bytes a"
    using r Cons.prems(1) z_act_length [of a z] by (simp add: represents_def)
  moreover have "le_max_line ?e = le_max_line e" using ed_feed_caps [of "act_bytes a" e] by (simp add: caps_def)
  ultimately have "represents (fold z_act as (z_act a z)) (ed_feed (concat (map act_bytes as)) ?e)"
    using Cons.prems r by (intro Cons.IH) auto
  then show ?case by (simp add: ed_feed_append)
qed

lemma z_units: "list_all typable as \<Longrightarrow> list_all utf8_unit (fst z @ snd z) \<Longrightarrow>
  list_all utf8_unit (fst (fold z_act as z) @ snd (fold z_act as z))"
proof (induction as arbitrary: z)
  case (Cons a as)
  obtain ls rs where z: "z = (ls, rs)" by (cases z)
  have "list_all utf8_unit (fst (z_act a z) @ snd (z_act a z))"
    using Cons.prems z by (cases a; cases rs) (auto simp: list_all_iff dest: in_set_butlastD)
  then show ?case using Cons by simp
qed simp

lemma zipper_reached:
  assumes "list_all typable as" "sum_list (map typed_bytes as) \<le> m"
  defines "z \<equiv> fold z_act as ([], [])" and "e \<equiv> \<lambda>h. ed_feed (concat (map act_bytes as)) (ed_new m h)"
  shows "represents z (e h)" "from_utf8_lossy (le_buf (e h)) = concat (fst z) @ concat (snd z)"
    "ed_input (e h) CHR 0x0D = ed_submit (e h)"
proof -
  have "represents ([], []) (ed_new m h)" by (simp add: represents_def idle_def ed_new_def)
  then show r: "represents z (e h)"
    unfolding z_def e_def using assms(1,2) by (intro sim_actions) (auto simp: ed_new_def)
  have "list_all utf8_unit (fst z @ snd z)" unfolding z_def using assms(1) by (intro z_units) auto
  then have "utf8_valid (concat (fst z @ snd z))" by (rule utf8_valid_concat)
  then show "from_utf8_lossy (le_buf (e h)) = concat (fst z) @ concat (snd z)"
    using r by (simp add: represents_def from_utf8_lossy_valid)
  show "ed_input (e h) CHR 0x0D = ed_submit (e h)"
    using r by (simp add: represents_def input_idle) (simp add: input_key_def)
qed

text \<open>C32: the editor refines the zipper. Whatever keys are pressed on a fresh editor, typing
  characters of UTF-8 text within the line cap in all, moving by the arrow keys, Home and End,
  deleting either way and killing, pressing Enter submits exactly the text the zipper
  specification holds: every key acted on one whole character.\<close>

theorem editor_refines_zipper:
  assumes "list_all typable as" "sum_list (map typed_bytes as) \<le> m"
  defines "z \<equiv> fold z_act as ([], [])"
  shows "fst (ed_input (ed_feed (concat (map act_bytes as)) (ed_new m h)) CHR 0x0D) =
    Submit [CHR 0x0D, CHR 0x0A] (concat (fst z) @ concat (snd z))"
  using zipper_reached [OF assms(1,2), of h, folded z_def] by (simp add: ed_submit_def Let_def)

theorem editor_refines_zipper_witness:
  "fst (ed_input (ed_feed (concat (map act_bytes [Type ''b'', Type [CHR 0xC3, CHR 0xA9], LeftKey, Backspace, Type ''a'']))
     (ed_new 80 10)) CHR 0x0D) = Submit [CHR 0x0D, CHR 0x0A] [CHR ''a'', CHR 0xC3, CHR 0xA9]"
  using editor_refines_zipper [of "[Type ''b'', Type [CHR 0xC3, CHR 0xA9], LeftKey, Backspace, Type ''a'']" 80 10]
  by (simp add: utf8_unit_def utf8_step_def byte_at_def cont_at_def is_text_def)

text \<open>Killed text comes back. Killing to either end of the line and yanking at once restores the
  buffer, when it was within the line cap.\<close>

theorem kill_yank_restores:
  assumes "le_cursor e \<le> length (le_buf e)" "length (le_buf e) \<le> le_max_line e"
  shows "(le_cursor e < length (le_buf e) \<longrightarrow> le_buf (snd (ed_yank (snd (kill_to_end e)))) = le_buf e)
    \<and> (0 < le_cursor e \<longrightarrow> le_buf (snd (ed_yank (snd (kill_to_start e)))) = le_buf e
        \<and> le_cursor (snd (ed_yank (snd (kill_to_start e)))) = le_cursor e)"
  using assms by (auto simp: ed_yank_def kill_to_end_def kill_to_start_def Let_def)

theorem kill_yank_restores_witness:
  "le_buf (snd (ed_yank (snd (kill_to_end ((ed_new 9 9)\<lparr>le_buf := ''abc'', le_cursor := 1\<rparr>))))) = ''abc''"
  using kill_yank_restores [of "(ed_new 9 9)\<lparr>le_buf := ''abc'', le_cursor := 1\<rparr>"] by (simp add: ed_new_def)

definition press_tab :: "str \<Rightarrow> line_editor \<Rightarrow> line_editor" where
  "press_tab cand e = snd (apply_completion e cand True)"

lemma press_tab_append:
  assumes "le_cursor e = length (le_buf e)" "le_buf e = [] \<or> last (le_buf e) = CHR '' ''"
  shows "le_buf (press_tab cand e) = le_buf e @ cand @ '' ''" "le_cursor (press_tab cand e) = length (le_buf (press_tab cand e))"
proof -
  have "word_start e = length (le_buf e)"
  proof (cases "le_buf e" rule: rev_cases)
    case (snoc xs x)
    then show ?thesis using assms by (simp add: word_start_def is_ascii_whitespace_def nth_append)
  qed (use assms in \<open>simp add: word_start_def\<close>)
  then show "le_buf (press_tab cand e) = le_buf e @ cand @ '' ''"
    "le_cursor (press_tab cand e) = length (le_buf (press_tab cand e))"
    using assms(1) by (simp_all add: press_tab_def apply_completion_def Let_def)
qed

text \<open>C40: completions escape the line cap. Each Tab that completes the empty word to a unique candidate
  appends the candidate and a blank whatever the length of the line already is: after \<open>n\<close> of them
  an editor with any cap holds \<open>n\<close> copies.\<close>

theorem completions_escape_cap:
  "length (le_buf ((press_tab cand ^^ n) (ed_new m h))) = n * (length cand + 1)"
proof -
  define e where "e n = (press_tab cand ^^ n) (ed_new m h)" for n
  have "le_cursor (e n) = length (le_buf (e n)) \<and> (le_buf (e n) = [] \<or> last (le_buf (e n)) = CHR '' '')
      \<and> length (le_buf (e n)) = n * (length cand + 1)"
  proof (induction n)
    case 0
    then show ?case by (simp add: e_def ed_new_def)
  next
    case (Suc n)
    have "e (Suc n) = press_tab cand (e n)" by (simp add: e_def)
    then show ?case using Suc press_tab_append [of "e n" cand] by simp
  qed
  then show ?thesis by (simp add: e_def)
qed

end
