(* ===== verification/Ssh_Input.thy ===== *)
theory Ssh_Input
  imports Ssh_Connection Line_Editor_Zipper
begin

text \<open>
  From the bytes of a channel to the commands that run: input without a terminal is read by lines, whatever
  packets it comes in; keystrokes on a terminal go through the line editor. Both are compared with
  the shell run directly on the lines.
\<close>

section \<open>The shell on its own\<close>

text \<open>
  One line given to the shell: an answer when a prompt or a here-document is waiting, otherwise a command,
  remembered first. The handler then takes the captured events and the text of a closed here-document out of the session.
\<close>

definition give_line :: "world \<Rightarrow> dispatcher \<Rightarrow> shell \<Rightarrow> str \<Rightarrow> (line_output \<times> shell) outcome" where
  "give_line w d s l =
     (if sh_pending s \<noteq> None then
        obind (resume w d s l) (\<lambda>(o1, t). Done (o1, t\<lparr>sh_heredoc_log := None, sh_captures := []\<rparr>))
      else
        obind (execute w d (record_history s (trim l)) (trim l)) (\<lambda>(o1, t). Done (o1, t\<lparr>sh_captures := []\<rparr>)))"

text \<open>The outputs of a list of lines, whether one of them ended the session, and the session after them.\<close>

primrec shell_lines :: "world \<Rightarrow> dispatcher \<Rightarrow> str list \<Rightarrow> shell \<Rightarrow> (line_output list \<times> bool \<times> shell) outcome" where
  "shell_lines w d [] s = Done ([], False, s)"
| "shell_lines w d (l # ls) s = obind (give_line w d s l) (\<lambda>(o1, t).
     if o_exit o1 then Done ([o1], True, t)
     else obind (shell_lines w d ls t) (\<lambda>(os, ended, u). Done (o1 # os, ended, u)))"

lemma shell_lines_append:
  "shell_lines w d (ls @ ls') s = obind (shell_lines w d ls s) (\<lambda>(os, ended, t).
     if ended then Done (os, True, t) else obind (shell_lines w d ls' t) (\<lambda>(os', e, u). Done (os @ os', e, u)))"
proof (induction ls arbitrary: s)
  case Nil
  show ?case by (cases "shell_lines w d ls' s") auto
next
  case (Cons l ls)
  show ?case
  proof (cases "give_line w d s l")
    case (Done x)
    obtain o1 t where x: "x = (o1, t)" by (cases x)
    show ?thesis
    proof (cases "shell_lines w d ls t")
      case y: (Done y)
      obtain os e u where "y = (os, e, u)" by (cases y)
      then show ?thesis using Done x y Cons.IH [of t] by (cases "shell_lines w d ls' u") auto
    qed (use Done x Cons.IH [of t] in auto)
  qed simp_all
qed

section \<open>One line through the handler\<close>

text \<open>Logging touches neither the transfers nor the shell.\<close>

definition log_step :: "'h mimic_handler \<Rightarrow> 'h mimic_handler \<Rightarrow> bool" where
  "log_step h h' \<longleftrightarrow> mh_sent h' = mh_sent h \<and> mh_pty h' = mh_pty h \<and> mh_line_buf h' = mh_line_buf h \<and> mh_shell h' = mh_shell h
     \<and> mh_sftp h' = mh_sftp h \<and> mh_scp h' = mh_scp h \<and> mh_editor h' = mh_editor h \<and> mh_screen h' = mh_screen h
     \<and> mh_session_id h' = mh_session_id h \<and> mh_peer h' = mh_peer h \<and> mh_password_buf h' = mh_password_buf h
     \<and> prefix (mh_events h) (mh_events h')"

lemma log_step_refl: "log_step h h"
  by (simp add: log_step_def)

lemma log_step_trans: "log_step h h1 \<Longrightarrow> log_step h1 h2 \<Longrightarrow> log_step h h2"
  using prefix_order.trans by (simp add: log_step_def) blast

lemma log_step_basic: "log_step h (log_ev e h)" "log_step h (log_command sv tx src st h)"
  by (simp_all add: log_step_def log_ev_def log_command_def)

lemma log_step_fold: "(\<And>x h. log_step h (f x h)) \<Longrightarrow> log_step h (fold f xs h)"
  by (induction xs arbitrary: h) (auto intro: log_step_trans log_step_refl)

lemma drain_step: "log_step (put_shell ((shell_of sv h)\<lparr>sh_captures := []\<rparr>) h) (drain_captures sv h)"
  unfolding drain_captures_def Let_def
  by (rule log_step_fold) (simp add: log_capture_def log_step_basic split: capture.split)

definition leaving :: "line_output \<Rightarrow> packet list" where
  "leaving o1 = (if o_exit o1 then [ExitStatus (status_u32 (o_status o1)), EofPacket, ClosePacket] else [])"

lemma deliver_step:
  fixes h0 :: "'h mimic_handler"
  assumes "log_step (put_shell s h) h0"
  shows "\<exists>h1. deliver sv ch o1 h0 = (o_exit o1, h1) \<and> mh_sent h1 = mh_sent h @ map (Pair ch) (result_packets (mh_pty h) o1 @ leaving o1)
    \<and> prefix (mh_events h0) (mh_events h1) \<and> prefix (mh_events h) (mh_events h1)
    \<and> (\<not> o_exit o1 \<longrightarrow> log_step (put_shell (s\<lparr>sh_captures := []\<rparr>) h) (h1\<lparr>mh_sent := mh_sent h\<rparr>))"
proof -
  have ev: "prefix (mh_events h) (mh_events h0)" using assms by (simp add: log_step_def put_shell_def)
  have "shell_of sv h0 = s" using assms by (simp add: shell_of_def log_step_def put_shell_def)
  then have d: "log_step (put_shell (s\<lparr>sh_captures := []\<rparr>) h0) (drain_captures sv h0)" using drain_step [of sv h0] by simp
  have w: "mh_shell (write_output ch o1 x) = mh_shell x" "mh_sftp (write_output ch o1 x) = mh_sftp x" "mh_scp (write_output ch o1 x) = mh_scp x"
      "mh_editor (write_output ch o1 x) = mh_editor x" "mh_screen (write_output ch o1 x) = mh_screen x" "mh_session_id (write_output ch o1 x) = mh_session_id x"
      "mh_peer (write_output ch o1 x) = mh_peer x" "mh_password_buf (write_output ch o1 x) = mh_password_buf x" for x :: "'h mimic_handler"
    by (simp_all add: write_output_def Let_def send_data_def send_def)
  let ?h1 = "write_output ch o1 (drain_captures sv h0)"
  have sent: "mh_sent ?h1 = mh_sent h @ map (Pair ch) (result_packets (mh_pty h) o1)" "prefix (mh_events h0) (mh_events ?h1)"
    using assms d by (simp_all add: write_output_fields log_step_def put_shell_def)
  show ?thesis
  proof (cases "o_exit o1")
    case True
    then have "deliver sv ch o1 h0 = (True, end_channel sv ch (status_u32 (o_status o1)) ?h1)" by (simp add: deliver_def Let_def)
    then show ?thesis using True sent end_channel_fields(2) [of ?h1 sv ch] prefix_order.trans [OF ev] prefix_order.trans [OF sent(2)]
      by (auto simp: end_channel_fields(1) leaving_def)
  next
    case False
    have "log_step (put_shell (s\<lparr>sh_captures := []\<rparr>) h) (?h1\<lparr>mh_sent := mh_sent h\<rparr>)"
      using assms d by (auto simp: log_step_def put_shell_def w write_output_fields intro: prefix_order.trans)
    then show ?thesis using False sent prefix_order.trans [OF ev] by (simp add: deliver_def Let_def leaving_def)
  qed
qed

lemma heredoc_step: "log_step (put_shell (s\<lparr>sh_heredoc_log := None\<rparr>) h) (log_closed_heredoc sv (put_shell s h))"
proof -
  have s: "shell_of sv (put_shell s h) = s" by (simp add: shell_of_def put_shell_def)
  have p: "put_shell s' (put_shell s h) = put_shell s' h" for s' by (simp add: put_shell_def)
  show ?thesis
  proof (cases "sh_heredoc_log s")
    case None
    then have e: "s\<lparr>sh_heredoc_log := None\<rparr> = s" by (cases s) simp
    show ?thesis unfolding e by (simp add: log_closed_heredoc_def s p None log_step_refl)
  next
    case (Some l)
    then show ?thesis by (simp add: log_closed_heredoc_def s p Let_def log_step_basic)
  qed
qed

text \<open>The log entry of a command read from a channel.\<close>

definition command_event :: "'h server \<Rightarrow> 'h mimic_handler \<Rightarrow> str \<Rightarrow> int \<Rightarrow> log_event" where
  "command_event sv h cmd st =
     ev_command (sv_log sv) (mh_session_id h) (mh_peer h) cmd (if mh_pty h then SInteractive else SPipe) (Some st)"

lemma run_given:
  fixes h :: "'h mimic_handler"
  assumes "give_line (sv_world sv) (sv_dispatch sv) (shell_of sv h) l = Done (o1, t)"
  shows "\<exists>h1. run_no_tty_line sv ch l h = Done (o_exit o1, h1) \<and> mh_sent h1 = mh_sent h @ map (Pair ch) (result_packets (mh_pty h) o1 @ leaving o1)
    \<and> prefix (mh_events h) (mh_events h1) \<and> (\<not> o_exit o1 \<longrightarrow> log_step (put_shell t h) (h1\<lparr>mh_sent := mh_sent h\<rparr>))
    \<and> (sh_pending (shell_of sv h) = None \<and> trim l \<noteq> [] \<and> \<not> Ssh.parked t \<longrightarrow>
        command_event sv h (trim l) (o_status o1) \<in> set (drop (length (mh_events h)) (mh_events h1)))"
proof (cases "sh_pending (shell_of sv h) = None")
  case False
  then obtain s1 where r: "resume (sv_world sv) (sv_dispatch sv) (shell_of sv h) l = Done (o1, s1)"
      "t = s1\<lparr>sh_heredoc_log := None, sh_captures := []\<rparr>"
    using assms by (auto simp: give_line_def obind_Done)
  then show ?thesis using False deliver_step [OF heredoc_step [of s1 h sv], of sv ch o1]
    by (auto simp: run_no_tty_line_def answer_def)
next
  case True
  let ?s = "if trim l \<noteq> [] then record_history (shell_of sv h) (trim l) else shell_of sv h"
  have "trim [] = []" by (simp add: trim_def trim_chars_def)
  then have "record_history (shell_of sv h) (trim l) = ?s" by (cases "trim l = []") (simp_all add: record_history_def)
  then obtain s1 where r: "execute (sv_world sv) (sv_dispatch sv) ?s (trim l) = Done (o1, s1)" "t = s1\<lparr>sh_captures := []\<rparr>"
    using assms True by (auto simp: give_line_def obind_Done)
  let ?h0 = "if trim l \<noteq> [] \<and> \<not> Ssh.parked s1
    then log_command sv (trim l) (if mh_pty h then SInteractive else SPipe) (Some (o_status o1)) (put_shell s1 h) else put_shell s1 h"
  have "log_step (put_shell s1 h) ?h0" by (simp add: log_step_basic log_step_refl)
  from deliver_step [OF this, of sv ch o1] obtain h1 where h1: "deliver sv ch o1 ?h0 = (o_exit o1, h1)"
      "mh_sent h1 = mh_sent h @ map (Pair ch) (result_packets (mh_pty h) o1 @ leaving o1)" "prefix (mh_events ?h0) (mh_events h1)"
      "prefix (mh_events h) (mh_events h1)" "\<not> o_exit o1 \<longrightarrow> log_step (put_shell t h) (h1\<lparr>mh_sent := mh_sent h\<rparr>)"
    unfolding r(2) by blast
  have "command_event sv h (trim l) (o_status o1) \<in> set (drop (length (mh_events h)) (mh_events h1))" if "trim l \<noteq> []" "\<not> Ssh.parked t"
  proof -
    have "mh_events ?h0 = mh_events h @ [command_event sv h (trim l) (o_status o1)]"
      using that r(2) by (simp add: Ssh.parked_def command_event_def log_command_def log_ev_def put_shell_def)
    then show ?thesis using h1(3) by (auto simp: prefix_def)
  qed
  then show ?thesis using h1 r True by (auto simp: run_no_tty_line_def submit_line_def Let_def)
qed

section \<open>Input without a terminal\<close>

text \<open>What is kept of the bytes of a line, and the text it is run as.\<close>

definition kept_bytes :: "byte list \<Rightarrow> byte list" where
  "kept_bytes l = take MAX_COMMAND_LEN (filter (\<lambda>b. b \<noteq> CHR 0x0D) l)"

definition piped_line :: "byte list \<Rightarrow> str" where
  "piped_line l = rev (dropWhile (\<lambda>b. b = CHR 0x0D) (rev (from_utf8_lossy (kept_bytes l))))"

text \<open>The lines that are complete in some bytes, and what follows the last line feed.\<close>

fun pipe_split :: "byte list \<Rightarrow> byte list \<Rightarrow> byte list list \<times> byte list" where
  "pipe_split acc [] = ([], acc)"
| "pipe_split acc (b # bs) =
     (if b = CHR 0x0A then (case pipe_split [] bs of (ls, r) \<Rightarrow> (acc # ls, r)) else pipe_split (acc @ [b]) bs)"

lemma pipe_split_append:
  "pipe_split acc (bs @ bs') = (case pipe_split acc bs of (ls, r) \<Rightarrow> case pipe_split r bs' of (ls', r') \<Rightarrow> (ls @ ls', r'))"
  by (induction acc bs rule: pipe_split.induct) (auto split: prod.split)

lemma pipe_split_lines:
  "list_all (\<lambda>l. CHR 0x0A \<notin> set l) ls \<Longrightarrow> CHR 0x0A \<notin> set rest \<Longrightarrow> pipe_split [] (concat (map (\<lambda>l. l @ [CHR 0x0A]) ls) @ rest) = (ls, rest)"
proof (induction ls)
  case Nil
  have "pipe_split acc rest = ([], acc @ rest)" for acc using Nil by (induction rest arbitrary: acc) auto
  then show ?case by simp
next
  case (Cons l ls)
  have "pipe_split acc (l @ [CHR 0x0A]) = ([acc @ l], [])" for acc using Cons.prems by (induction l arbitrary: acc) auto
  note l = this [of "[]"]
  show ?case using Cons.IH Cons.prems l pipe_split_append [of "[]" "l @ [CHR 0x0A]"] by simp
qed

lemma kept_snoc:
  "kept_bytes (acc @ [b]) = (if b = CHR 0x0D \<or> length (kept_bytes acc) = MAX_COMMAND_LEN then kept_bytes acc else kept_bytes acc @ [b])"
  by (auto simp: kept_bytes_def min_def split: if_splits)

text \<open>A handler after some of the input: what it was before but for what was sent and logged, the shell and the buffer.\<close>

definition fed :: "'h server \<Rightarrow> shell \<Rightarrow> 'h mimic_handler \<Rightarrow> bool" where
  "fed sv s h \<longleftrightarrow> mh_sftp h = None \<and> mh_scp h = None \<and> \<not> mh_pty h \<and> shell_of sv h = s"

lemma shell_of_line_buf [simp]: "shell_of sv (h\<lparr>mh_line_buf := x\<rparr>) = shell_of sv h"
  by (cases "mh_shell h") (simp_all add: shell_of_def new_shell_def)

definition packets_of :: "line_output list \<Rightarrow> packet list" where
  "packets_of os = concat (map (\<lambda>o1. result_packets False o1 @ leaving o1) os)"

lemma shell_lines_packets:
  "shell_lines w d ls s = Done (os, ended, t) \<Longrightarrow> packets_of os = concat (map (result_packets False) os)
     @ (if ended then [ExitStatus (status_u32 (o_status (last os))), EofPacket, ClosePacket] else [])"
proof (induction ls arbitrary: s os)
  case (Cons l ls)
  then obtain o1 u where g: "give_line w d s l = Done (o1, u)" by (auto simp: obind_Done)
  show ?case
  proof (cases "o_exit o1")
    case True
    then show ?thesis using Cons.prems g by (auto simp: packets_of_def leaving_def)
  next
    case False
    then obtain os1 where o: "shell_lines w d ls u = Done (os1, ended, t)" "os = o1 # os1"
      using Cons.prems g by (auto simp: obind_Done)
    moreover have "ended \<Longrightarrow> os1 \<noteq> []" using o(1) by (cases ls) (auto simp: obind_Done split: if_splits)
    ultimately show ?thesis using Cons.IH [OF o(1)] False by (simp add: packets_of_def leaving_def)
  qed
qed (simp add: packets_of_def)

lemma feed_lines:
  fixes h :: "'h mimic_handler"
  assumes "fed sv s h" "mh_line_buf h = kept_bytes acc" "pipe_split acc bs = (ls, r)"
    and "shell_lines (sv_world sv) (sv_dispatch sv) (map piped_line ls) s = Done (os, ended, t)"
  shows "\<exists>h'. feed_no_tty sv ch bs h = Done h' \<and> mh_sent h' = mh_sent h @ map (Pair ch) (packets_of os)
    \<and> prefix (mh_events h) (mh_events h')
    \<and> (\<not> ended \<longrightarrow> fed sv t h' \<and> mh_line_buf h' = kept_bytes r)"
  using assms
proof (induction bs arbitrary: acc h s ls os)
  case Nil
  then show ?case by (auto simp: packets_of_def)
next
  case (Cons b bs)
  show ?case
  proof (cases "b = CHR 0x0A")
    case False
    define h1 where "h1 = (if b = CHR 0x0D \<or> length (kept_bytes acc) = MAX_COMMAND_LEN then h else h\<lparr>mh_line_buf := mh_line_buf h @ [b]\<rparr>)"
    have "feed_no_tty sv ch (b # bs) h = feed_no_tty sv ch bs h1"
      using False Cons.prems(2) by (auto simp: h1_def kept_bytes_def min_def split: if_splits)
    moreover have "fed sv s h1" "mh_sent h1 = mh_sent h" "mh_events h1 = mh_events h"
      using Cons.prems(1) by (simp_all add: h1_def fed_def)
    moreover have "mh_line_buf h1 = kept_bytes (acc @ [b])" using Cons.prems(2) by (simp add: h1_def kept_snoc)
    ultimately show ?thesis using Cons.IH [of s h1 "acc @ [b]" ls os] Cons.prems(3,4) False by simp
  next
    case True
    obtain ls1 where ls: "pipe_split [] bs = (ls1, r)" "ls = acc # ls1" using Cons.prems(3) True by (auto split: prod.splits)
    let ?h = "h\<lparr>mh_line_buf := []\<rparr>"
    have h: "fed sv s ?h" "mh_line_buf ?h = []" "shell_of sv h = s" using Cons.prems(1) by (simp_all add: fed_def)
    obtain o1 u where g: "give_line (sv_world sv) (sv_dispatch sv) s (piped_line acc) = Done (o1, u)"
        "o_exit o1 \<and> os = [o1] \<and> ended \<or> \<not> o_exit o1 \<and>
         (\<exists>os1. shell_lines (sv_world sv) (sv_dispatch sv) (map piped_line ls1) u = Done (os1, ended, t) \<and> os = o1 # os1)"
      using Cons.prems(4) ls(2) by (auto simp: obind_Done split: if_splits)
    obtain h1 where r1: "run_no_tty_line sv ch (piped_line acc) ?h = Done (o_exit o1, h1)"
        "mh_sent h1 = mh_sent h @ map (Pair ch) (result_packets False o1 @ leaving o1)" "prefix (mh_events h) (mh_events h1)"
        "\<not> o_exit o1 \<longrightarrow> log_step (put_shell u ?h) (h1\<lparr>mh_sent := mh_sent h\<rparr>)"
      using run_given [of sv ?h "piped_line acc" o1 u ch] g(1) h(1) by (auto simp: fed_def)
    have "buffered_line h = piped_line acc" using Cons.prems(2) by (simp add: buffered_line_def piped_line_def)
    then have feed: "feed_no_tty sv ch (b # bs) h = (if o_exit o1 then Done h1 else feed_no_tty sv ch bs h1)" using True r1(1) by simp
    show ?thesis
    proof (cases "o_exit o1")
      case True
      then show ?thesis using feed r1 g(2) by (simp add: packets_of_def)
    next
      case False
      then have "fed sv u h1" "mh_line_buf h1 = kept_bytes []"
        using r1(4) h by (simp_all add: fed_def log_step_def put_shell_def kept_bytes_def shell_of_def)
      moreover obtain os1 where "shell_lines (sv_world sv) (sv_dispatch sv) (map piped_line ls1) u = Done (os1, ended, t)" "os = o1 # os1"
        using g(2) False by blast
      ultimately show ?thesis using Cons.IH [of u h1 "[]" ls1 os1] ls(1) feed False r1(2,3) prefix_order.trans
        by (fastforce simp: packets_of_def)
    qed
  qed
qed

text \<open>The packets of a channel in order, each handled when the one before it has been.\<close>

primrec data_packets :: "'h server \<Rightarrow> nat \<Rightarrow> byte list list \<Rightarrow> 'h mimic_handler \<Rightarrow> 'h mimic_handler outcome" where
  "data_packets sv ch [] h = Done h"
| "data_packets sv ch (p # ps) h = obind (data_request sv ch p h) (data_packets sv ch ps)"

lemma data_fed: "fed sv s h \<Longrightarrow> data_request sv ch p h = feed_no_tty sv ch p h"
  by (simp add: fed_def data_request_def)

lemma packets_append [simp]: "packets_of (os @ os') = packets_of os @ packets_of os'"
  by (simp add: packets_of_def)

lemma feed_packets:
  fixes h :: "'h mimic_handler"
  assumes "fed sv s h" "mh_line_buf h = kept_bytes acc" "pipe_split acc (concat ps) = (ls, r)"
    and "shell_lines (sv_world sv) (sv_dispatch sv) (map piped_line ls) s = Done (os, False, t)"
  shows "\<exists>h'. data_packets sv ch ps h = Done h' \<and> mh_sent h' = mh_sent h @ map (Pair ch) (packets_of os)
    \<and> prefix (mh_events h) (mh_events h') \<and> fed sv t h' \<and> mh_line_buf h' = kept_bytes r"
  using assms
proof (induction ps arbitrary: acc h s ls os)
  case Nil
  then show ?case by (auto simp: packets_of_def)
next
  case (Cons p ps)
  obtain l1 r1 where p1: "pipe_split acc p = (l1, r1)" by (cases "pipe_split acc p")
  obtain l2 where p2: "pipe_split r1 (concat ps) = (l2, r)" "ls = l1 @ l2"
    using Cons.prems(3) p1 by (auto simp: pipe_split_append split: prod.splits)
  obtain o1 u o2 where s: "shell_lines (sv_world sv) (sv_dispatch sv) (map piped_line l1) s = Done (o1, False, u)"
      "shell_lines (sv_world sv) (sv_dispatch sv) (map piped_line l2) u = Done (o2, False, t)" "os = o1 @ o2"
    using Cons.prems(4) p2(2) by (auto simp: shell_lines_append obind_Done split: if_splits)
  obtain h1 where h1: "feed_no_tty sv ch p h = Done h1" "mh_sent h1 = mh_sent h @ map (Pair ch) (packets_of o1)"
      "prefix (mh_events h) (mh_events h1)" "fed sv u h1" "mh_line_buf h1 = kept_bytes r1"
    using feed_lines [OF Cons.prems(1,2) p1 s(1)] by blast
  from Cons.IH [OF h1(4,5) p2(1) s(2)] show ?case
    using h1(1-3) s(3) data_fed [OF Cons.prems(1)] prefix_order.trans by fastforce
qed

lemma pipe_split_unterminated: "CHR 0x0A \<notin> set pre \<Longrightarrow> pipe_split acc (pre @ bs) = pipe_split (acc @ pre) bs"
  by (induction pre arbitrary: acc) auto

text \<open>
  C25: Input without a terminal is read by lines, whatever packets it comes in. Take a session without a
  terminal whose buffer holds what was kept of an unfinished line, and any further packets: the lines that the
  bytes make up, across packets, are given to the shell in order, each with its carriage returns
  dropped, cut at 4096 bytes and repaired to UTF-8 (a line of valid UTF-8 within the bound exactly
  as it is, also with a carriage return at its end). A line is an answer where the shell waits for one and otherwise a command, remembered
  and run without its surrounding blanks. The client is sent each line's output in order and nothing
  else, the shell is left as the lines leave it, and what follows the last line feed waits in the buffer. A line
  that ends the session also has its exit status sent and the channel closed, and the rest of its packet is dropped.
\<close>

theorem piped_input_by_lines:
  fixes h :: "'h mimic_handler"
  assumes "mh_sftp h = None" "mh_scp h = None" "\<not> mh_pty h" "mh_line_buf h = kept_bytes pre" "CHR 0x0A \<notin> set pre"
    and "pre @ concat ps = concat (map (\<lambda>l. l @ [CHR 0x0A]) ls) @ rest"
    and "list_all (\<lambda>l. CHR 0x0A \<notin> set l) ls" "CHR 0x0A \<notin> set rest"
    and "shell_lines (sv_world sv) (sv_dispatch sv) (map piped_line ls) (shell_of sv h) = Done (os, ended, s)"
    and "ended \<longrightarrow> length ps = 1"
  shows "(\<exists>h'. data_packets sv ch ps h = Done h'
      \<and> mh_sent h' = mh_sent h @ map (Pair ch) (concat (map (result_packets False) os)
          @ (if ended then [ExitStatus (status_u32 (o_status (last os))), EofPacket, ClosePacket] else []))
      \<and> prefix (mh_events h) (mh_events h')
      \<and> (\<not> ended \<longrightarrow> shell_of sv h' = s \<and> mh_line_buf h' = kept_bytes rest))
    \<and> (utf8_valid l \<and> CHR 0x0D \<notin> set l \<and> length l \<le> 4096 \<longrightarrow> piped_line l = l \<and> piped_line (l @ [CHR 0x0D]) = l)"
proof -
  have same: "dropWhile (\<lambda>b. b = CHR 0x0D) (rev l) = rev l" if "CHR 0x0D \<notin> set l"
    using that by (cases "rev l") (auto simp: dropWhile_eq_self_iff)
  have "filter (\<lambda>b. b \<noteq> CHR 0x0D) l = l" if "CHR 0x0D \<notin> set l" using that by (auto simp: filter_id_conv)
  then have valid: "utf8_valid l \<and> CHR 0x0D \<notin> set l \<and> length l \<le> 4096 \<longrightarrow> piped_line l = l \<and> piped_line (l @ [CHR 0x0D]) = l"
    using same by (auto simp: piped_line_def kept_bytes_def MAX_COMMAND_LEN_def from_utf8_lossy_valid)
  have f: "fed sv (shell_of sv h) h" using assms(1-3) by (simp add: fed_def)
  have p: "pipe_split pre (concat ps) = (ls, rest)"
    using pipe_split_lines [OF assms(7,8)] pipe_split_unterminated [OF assms(5), of "[]" "concat ps"] assms(6) by simp
  have sent: "packets_of os = concat (map (result_packets False) os)
      @ (if ended then [ExitStatus (status_u32 (o_status (last os))), EofPacket, ClosePacket] else [])"
    using shell_lines_packets [OF assms(9)] .
  show ?thesis
  proof (cases ended)
    case True
    then obtain p where "ps = [p]" using assms(10) by (cases ps) auto
    then have p: "pipe_split pre p = (ls, rest)" "data_packets sv ch ps h = feed_no_tty sv ch p h"
      using p data_fed [OF f] by (simp_all, cases "feed_no_tty sv ch p h") simp_all
    obtain h' where "feed_no_tty sv ch p h = Done h'" "mh_sent h' = mh_sent h @ map (Pair ch) (packets_of os)" "prefix (mh_events h) (mh_events h')"
      using feed_lines [OF f assms(4) p(1) assms(9)] by blast
    then show ?thesis using True p(2) sent valid by simp
  next
    case False
    then have "shell_lines (sv_world sv) (sv_dispatch sv) (map piped_line ls) (shell_of sv h) = Done (os, False, s)" using assms(9) by simp
    from feed_packets [OF f assms(4) p this] obtain h' where "data_packets sv ch ps h = Done h'"
        "mh_sent h' = mh_sent h @ map (Pair ch) (packets_of os)" "prefix (mh_events h) (mh_events h')" "fed sv s h'" "mh_line_buf h' = kept_bytes rest"
      by blast
    then show ?thesis using False sent valid by (simp add: fed_def)
  qed
qed

lemma sample_line_given:
  "\<exists>o1 t. give_line sample_world sample_dispatch sample_shell (join '' '' (map squote [''get'', ''u''])) = Done (o1, t) \<and> \<not> o_exit o1"
proof -
  let ?line = "join '' '' (map squote [''get'', ''u''])"
  let ?s = "record_history sample_shell ?line"
  have t: "trim ?line = ?line" by code_simp
  have "sh_nesting ?s = 0" "sh_pending sample_shell = None" by (simp_all add: record_history_def sample_shell_def Let_def)
  moreover obtain t where "execute sample_world sample_dispatch ?s ?line = Done (report (cr_ok []), t)"
    using execute_body_squotes [where s = ?s and d = sample_dispatch, OF sample_words _ refl sample_get] calculation
    by (simp add: execute_def expand_def)
  moreover have "\<not> o_exit (report (cr_ok []))"
    by (simp add: report_def cr_ok_def output_push_def output_default_def cap_output_def Let_def)
  ultimately have "give_line sample_world sample_dispatch sample_shell ?line = Done (report (cr_ok []), t\<lparr>sh_captures := []\<rparr>)"
    unfolding give_line_def t by simp
  then show ?thesis using \<open>\<not> o_exit (report (cr_ok []))\<close> by blast
qed

theorem piped_input_by_lines_witness:
  "\<exists>h' o1. data_packets exec_server 0 [CHR 0x27 # ''get'' @ [CHR 0x27], CHR '' '' # CHR 0x27 # ''u'' @ [CHR 0x27, CHR 0x0A] @ ''i'', ''d''] exec_handler = Done h'
     \<and> mh_sent h' = map (Pair 0) (result_packets False o1) \<and> mh_line_buf h' = ''id''"
proof -
  define line where "line = join '' '' (map squote [''get'', ''u''])"
  let ?ps = "[CHR 0x27 # ''get'' @ [CHR 0x27], CHR '' '' # CHR 0x27 # ''u'' @ [CHR 0x27, CHR 0x0A] @ ''i'', ''d'']"
  have h: "mh_sftp exec_handler = None" "mh_scp exec_handler = None" "\<not> mh_pty exec_handler" "mh_line_buf exec_handler = kept_bytes []"
      "mh_sent exec_handler = []" "shell_of exec_server exec_handler = sample_shell"
    by (simp_all add: exec_handler_def example_handler_def handler_new_def kept_bytes_def shell_of_def)
  have l: "[] @ concat ?ps = concat (map (\<lambda>l. l @ [CHR 0x0A]) [line]) @ ''id''" "list_all (\<lambda>l. CHR 0x0A \<notin> set l) [line]" "CHR 0x0A \<notin> set ''id''"
      "piped_line line = line" "kept_bytes ''id'' = ''id''"
    unfolding line_def by code_simp+
  have e: "sv_world exec_server = sample_world" "sv_dispatch exec_server = sample_dispatch" by (simp_all add: exec_server_def example_server_def)
  obtain o1 t where "give_line sample_world sample_dispatch sample_shell line = Done (o1, t)" "\<not> o_exit o1" using sample_line_given unfolding line_def by blast
  then have "shell_lines (sv_world exec_server) (sv_dispatch exec_server) (map piped_line [line]) (shell_of exec_server exec_handler)
      = Done ([o1], False, t)" by (simp add: h e l)
  from piped_input_by_lines [OF h(1-4) _ l(1-3) this, of 0 "[]"]
  have "\<exists>h'. data_packets exec_server 0 ?ps exec_handler = Done h'
     \<and> mh_sent h' = map (Pair 0) (result_packets False o1) \<and> mh_line_buf h' = ''id''" unfolding h(5) l(5) by auto
  then show ?thesis by blast
qed

section \<open>Input from a terminal\<close>

text \<open>A key that neither ends the line nor asks for a completion is answered by an echo at most.\<close>

definition passing :: "byte \<Rightarrow> bool" where
  "passing b \<longleftrightarrow> b \<notin> {CHR 0x0D, CHR 0x0A, CHR 0x09, CHR 0x04}"

definition echoes :: "reaction \<times> line_editor \<Rightarrow> bool" where
  "echoes x \<longleftrightarrow> fst x = Ignore \<or> (\<exists>bs. fst x = Write bs)"

lemma echoes_keys:
  "echoes (ed_backspace e)" "echoes (move_home e)" "echoes (move_end e)" "echoes (move_left e)" "echoes (move_right e)"
  "echoes (history_prev e)" "echoes (history_next e)" "echoes (kill_to_start e)" "echoes (kill_to_end e)" "echoes (kill_word e)"
  "echoes (ed_yank e)" "echoes (clear_screen e)" "echoes (start_search e)" "echoes (ed_interrupt e)" "echoes (ed_insert e b)"
  "echoes (delete_forward e)"
  by (auto simp: echoes_def ed_backspace_def move_home_def move_end_def move_left_def move_right_def history_prev_def history_next_def
      kill_to_start_def kill_to_end_def kill_word_def ed_yank_def clear_screen_def start_search_def ed_interrupt_def ed_insert_def
      delete_forward_def Let_def split: option.splits nat.splits)

lemma echoes_key: "passing b \<Longrightarrow> echoes (input_key e b)"
  by (simp add: input_key_def passing_def echoes_keys) (simp add: echoes_def)

lemma echoes_input:
  assumes "passing b"
  shows "echoes (ed_input e b)"
proof (cases "le_esc e")
  case EscNone
  have "echoes (input_search e b)"
    using assms echoes_key [OF assms, of "accept_search e"]
    by (auto simp: input_search_def passing_def echoes_def Let_def split: prod.splits reaction.splits)
  then show ?thesis using EscNone echoes_key [OF assms] by (simp add: ed_input_def)
qed (simp_all add: ed_input_def input_after_esc_def input_csi_def echoes_keys Let_def, simp_all add: echoes_def)

lemma keys_pass: "typable a \<Longrightarrow> list_all passing (act_bytes a)"
  by (cases a) (auto simp: passing_def is_text_def list_all_iff)

definition keyed :: "line_editor \<Rightarrow> nat \<Rightarrow> byte list list \<Rightarrow> 'h mimic_handler \<Rightarrow> 'h mimic_handler" where
  "keyed e ch es h = h\<lparr>mh_editor := e, mh_sent := mh_sent h @ map (\<lambda>x. (ch, Data x)) es\<rparr>"

lemma terminal_passing:
  "list_all passing bs \<Longrightarrow> mh_password_buf h = None \<Longrightarrow>
   \<exists>es. \<forall>rest. terminal_bytes sv ch (bs @ rest) h = terminal_bytes sv ch rest (keyed (ed_feed bs (mh_editor h)) ch es h)"
proof (induction bs arbitrary: h)
  case Nil
  show ?case by (rule exI [of _ "[]"]) (simp add: keyed_def ed_feed_Cons)
next
  case (Cons b bs)
  obtain r e where i: "ed_input (mh_editor h) b = (r, e)" by (cases "ed_input (mh_editor h) b")
  then have r: "r = Ignore \<or> (\<exists>x. r = Write x)" using echoes_input [of b "mh_editor h"] Cons.prems(1) by (simp add: echoes_def)
  obtain e1 where e1: "editor_byte sv ch b h = Done (False, keyed e ch e1 h)"
  proof (cases "r = Ignore")
    case True
    then show ?thesis using i by (intro that [of "[]"]) (simp add: editor_byte_def keyed_def Let_def)
  next
    case False
    then obtain x where "r = Write x" using r by blast
    then show ?thesis using i by (intro that [of "[x]"]) (simp add: editor_byte_def keyed_def send_def Let_def)
  qed
  have k: "mh_password_buf (keyed e ch e1 h) = None" "mh_editor (keyed e ch e1 h) = e"
      "keyed e' ch es (keyed e ch e1 h) = keyed e' ch (e1 @ es) h" for e' es
    using Cons.prems(2) by (simp_all add: keyed_def)
  obtain es where "\<forall>rest. terminal_bytes sv ch (bs @ rest) (keyed e ch e1 h)
      = terminal_bytes sv ch rest (keyed (ed_feed bs e) ch es (keyed e ch e1 h))"
    using Cons.IH [OF _ k(1)] Cons.prems(1) by (auto simp: k)
  then show ?case using e1 i Cons.prems(2) by (intro exI [of _ "e1 @ es"]) (simp add: k ed_feed_Cons)
qed

lemma shell_of_keyed [simp]: "shell_of sv (keyed e ch es h) = shell_of sv h"
  by (cases "mh_shell h") (simp_all add: shell_of_def new_shell_def keyed_def)

text \<open>The line that Enter submits, and the empty line after it.\<close>

lemma submitted_line:
  assumes "represents ([], []) e" "list_all typable as" "sum_list (map typed_bytes as) \<le> le_max_line e"
  defines "z \<equiv> fold z_act as ([], [])" and "e1 \<equiv> ed_feed (concat (map act_bytes as)) e"
  shows "\<exists>e2. ed_input e1 CHR 0x0D = (Submit [CHR 0x0D, CHR 0x0A] (concat (fst z) @ concat (snd z)), e2) \<and> represents ([], []) e2"
proof -
  have r: "represents z e1" unfolding z_def e1_def using assms(1-3) by (intro sim_actions) (auto simp: represents_def)
  have "list_all utf8_unit (fst z @ snd z)" unfolding z_def using assms(2) by (intro z_units) auto
  then have "utf8_valid (concat (fst z @ snd z))" by (rule utf8_valid_concat)
  then have "from_utf8_lossy (le_buf e1) = concat (fst z) @ concat (snd z)" using r by (simp add: represents_def from_utf8_lossy_valid)
  moreover have "ed_input e1 CHR 0x0D = ed_submit e1" using r by (simp add: represents_def input_idle) (simp add: input_key_def)
  moreover have "represents ([], []) (snd (ed_submit e1))"
    using r by (auto simp: represents_def idle_def ed_submit_def push_history_def Let_def)
  ultimately show ?thesis by (simp add: ed_submit_def Let_def)
qed

lemma after_line_sends:
  fixes h :: "'h mimic_handler"
  assumes "mh_shell h = Some t" "represents ([], []) (mh_editor h)"
  shows "\<exists>ps. mh_sent (after_line sv ch h) = mh_sent h @ map (\<lambda>x. (ch, Data x)) ps"
    "mh_events (after_line sv ch h) = mh_events h" "shell_of sv (after_line sv ch h) = t\<lparr>sh_screen := None\<rparr>"
    "represents ([], []) (mh_editor (after_line sv ch h))"
proof -
  have same: "t\<lparr>sh_screen := None\<rparr> = t" if "sh_screen t = None" using that by (cases t) simp
  note defs = after_line_def shell_of_def put_shell_def hold_screen_def send_def shell_prompt_again_def draw_prompt_def set_prompt_def
    represents_def idle_def Let_def
  have one: "\<exists>ps. xs @ [(ch, Data x)] = xs @ map (\<lambda>x. (ch, Data x)) ps" "\<exists>ps. xs = xs @ map (\<lambda>x. (ch, Data x)) ps" for xs x
    by (intro exI [of _ "[x]"]; simp) simp
  show "\<exists>ps. mh_sent (after_line sv ch h) = mh_sent h @ map (\<lambda>x. (ch, Data x)) ps"
    using assms one by (auto simp: defs split: option.split screen.split prod.split)
  show "mh_events (after_line sv ch h) = mh_events h" "represents ([], []) (mh_editor (after_line sv ch h))"
    using assms by (auto simp: defs split: option.split screen.split prod.split)
  show "shell_of sv (after_line sv ch h) = t\<lparr>sh_screen := None\<rparr>"
  proof (cases "sh_screen t")
    case None
    have "shell_of sv (after_line sv ch h) = t" using assms(1) None by (auto simp: defs split: option.split)
    then show ?thesis using same [OF None] by (rule trans [OF _ sym])
  next
    case (Some sc)
    then show ?thesis using assms(1) by (cases sc) (simp_all add: defs split: prod.split)
  qed
qed

text \<open>Enter, once the editor has submitted a line.\<close>

lemma enter_runs:
  fixes h :: "'h mimic_handler"
  assumes "ed_input (mh_editor h) CHR 0x0D = (Submit [CHR 0x0D, CHR 0x0A] line, e2)" "represents ([], []) e2" "mh_pty h"
    and "sh_pending (shell_of sv h) = None \<or> Ssh.parked (shell_of sv h)"
    and "give_line (sv_world sv) (sv_dispatch sv) (shell_of sv h) line = Done (o1, t)"
  shows "\<exists>h' ps. editor_byte sv ch CHR 0x0D h = Done (o_exit o1, h')
    \<and> mh_sent h' = mh_sent h @ map (Pair ch) (Data [CHR 0x0D, CHR 0x0A] # result_packets True o1
        @ (if o_exit o1 then [ExitStatus (status_u32 (o_status o1)), EofPacket, ClosePacket] else map Data ps))
    \<and> prefix (mh_events h) (mh_events h')
    \<and> (sh_pending (shell_of sv h) = None \<and> trim line \<noteq> [] \<and> \<not> Ssh.parked t \<longrightarrow>
        command_event sv h (trim line) (o_status o1) \<in> set (drop (length (mh_events h)) (mh_events h')))
    \<and> (\<not> o_exit o1 \<longrightarrow> shell_of sv h' = t\<lparr>sh_screen := None\<rparr> \<and> represents ([], []) (mh_editor h'))"
proof -
  define h0 where "h0 = keyed e2 ch [[CHR 0x0D, CHR 0x0A]] h"
  have k: "mh_pty h0 = mh_pty h" "mh_sent h0 = mh_sent h @ [(ch, Data [CHR 0x0D, CHR 0x0A])]" "mh_events h0 = mh_events h"
      "command_event sv h0 = command_event sv h" "mh_editor h0 = e2" "shell_of sv h0 = shell_of sv h"
    by (simp_all add: h0_def) (simp_all add: keyed_def command_event_def fun_eq_iff)
  from run_given [of sv h0 line o1 t ch] obtain h1 where h1: "run_no_tty_line sv ch line h0 = Done (o_exit o1, h1)"
      "mh_sent h1 = mh_sent h0 @ map (Pair ch) (result_packets True o1 @ leaving o1)" "prefix (mh_events h) (mh_events h1)"
      "\<not> o_exit o1 \<longrightarrow> log_step (put_shell t h0) (h1\<lparr>mh_sent := mh_sent h0\<rparr>)"
      "sh_pending (shell_of sv h) = None \<and> trim line \<noteq> [] \<and> \<not> Ssh.parked t \<longrightarrow>
        command_event sv h (trim line) (o_status o1) \<in> set (drop (length (mh_events h)) (mh_events h1))"
    using assms(3,5) by (auto simp: k)
  have "(if Ssh.parked (shell_of sv h0) then answer sv ch line h0 else submit_line sv ch line h0) = Done (o_exit o1, h1)"
    using h1(1) assms(4) by (auto simp: run_no_tty_line_def k Ssh.parked_def split: option.splits)
  moreover have "send ch (Data [CHR 0x0D, CHR 0x0A]) (h\<lparr>mh_editor := e2\<rparr>) = h0" by (simp add: h0_def keyed_def send_def)
  ultimately have run: "editor_byte sv ch CHR 0x0D h = Done (if o_exit o1 then (True, h1) else (False, after_line sv ch h1))"
    using assms(1) by (auto simp: editor_byte_def Let_def split: if_splits)
  show ?thesis
  proof (cases "o_exit o1")
    case True
    then show ?thesis using run h1 by (intro exI [of _ h1]) (simp add: k leaving_def)
  next
    case False
    then have s: "mh_shell h1 = Some t" "represents ([], []) (mh_editor h1)"
      using h1(4) assms(2) by (simp_all add: log_step_def put_shell_def k)
    from after_line_sends(1) [OF s, of sv ch] obtain ps where "mh_sent (after_line sv ch h1) = mh_sent h1 @ map (\<lambda>x. (ch, Data x)) ps" by blast
    then show ?thesis using False run h1 after_line_sends(2-4) [OF s, of sv ch]
      by (intro exI [of _ "after_line sv ch h1"] exI [of _ ps]) (simp add: k leaving_def comp_def)
  qed
qed


definition terminal_handler :: "byte list mimic_handler" where
  "terminal_handler = exec_handler\<lparr>mh_pty := True\<rparr>"


end
