(* ===== verification/Shell_Panics.thy ===== *)
theory Shell_Panics
  imports Shell_Session Shell_Props
begin

text \<open>
  Which lines end in a panic. The only operation of the shell that panics is slicing the body of a
  substitution out of a line; it never does on ASCII text, so such lines return, and it does on a
  whole family of lines with other characters.
\<close>

section \<open>ASCII text and its pieces\<close>

definition ascii :: "str \<Rightarrow> bool" where
  "ascii s \<longleftrightarrow> list_all (\<lambda>b. u8 b < 0x80) s"

lemma ascii_simps [simp]: "ascii []" "ascii (x @ y) \<longleftrightarrow> ascii x \<and> ascii y"
  by (simp_all add: ascii_def)

lemma ascii_pieces [simp]: "ascii s \<Longrightarrow> ascii (take n s)" "ascii s \<Longrightarrow> ascii (drop n s)" "ascii s \<Longrightarrow> ascii (slice s a b)"
  by (auto simp: ascii_def slice_def list_all_iff dest: in_set_takeD in_set_dropD)

lemma ascii_strip_comment_loop: "ascii s \<Longrightarrow> ascii (strip_comment_loop s q i b)"
proof (induction s q i b rule: strip_comment_loop.induct)
  case (1 s q i b)
  then show ?case by (subst strip_comment_loop.simps) (simp add: Let_def)
qed

lemma ascii_segments_loop: "ascii s \<Longrightarrow> list_all (\<lambda>g. ascii (g_text g)) (split_segments_loop s q i r start)"
proof (induction s q i r start rule: split_segments_loop.induct)
  case (1 s q i r start)
  then show ?case by (subst split_segments_loop.simps) (auto simp: Let_def split: option.split)
qed

lemma ascii_pipeline_loop: "ascii s \<Longrightarrow> list_all ascii (split_pipeline_loop s q i start)"
proof (induction s q i start rule: split_pipeline_loop.induct)
  case (1 s q i start)
  then show ?case by (subst split_pipeline_loop.simps) (simp add: Let_def)
qed

definition ascii_redirect :: "redirect \<Rightarrow> bool" where
  "ascii_redirect r \<longleftrightarrow> (case r_target r of ToFile p _ \<Rightarrow> ascii p | Dup _ \<Rightarrow> True)"

lemma ascii_redirect_target: "ascii s \<Longrightarrow> redirect_target s i = Inr (t, e) \<Longrightarrow> ascii_redirect \<lparr>r_stream = d, r_target = t\<rparr>"
  by (auto simp: redirect_target_def ascii_redirect_def Let_def split: if_splits)

lemma ascii_redirects_loop:
  "ascii s \<Longrightarrow> ascii (x_command x) \<Longrightarrow> list_all ascii_redirect (x_redirects x) \<Longrightarrow>
   split_redirects_loop s q i x = Inr (tx, rs) \<Longrightarrow> ascii tx \<and> list_all ascii_redirect rs"
proof (induction s q i x rule: split_redirects_loop.induct)
  case (1 s q i x)
  have w: "x_command (word_after s i l x) = x_command x" "x_redirects (word_after s i l x) = x_redirects x" for l
    by (simp_all add: word_after_def split: lexeme.split)
  show ?case
  proof (cases "i < length s \<and> lexeme_at s q i = Plain \<and> s ! i = CHR ''>''")
    case True
    then obtain t e where t: "redirect_target s i = Inr (t, e)"
      using "1.prems"(4) by (subst (asm) split_redirects_loop.simps) (auto simp: Let_def split: sum.splits)
    let ?d = "descriptor (if x_plain_word x then slice s (x_word_start x) i else []) (x_word_start x) i"
    let ?y = "\<lparr>x_command = x_command x @ slice s (x_copy_from x) (snd ?d), x_redirects = x_redirects x @ [\<lparr>r_stream = fst ?d, r_target = t\<rparr>],
      x_copy_from = e, x_word_start = e, x_plain_word = True\<rparr>"
    have "split_redirects_loop s q e ?y = Inr (tx, rs)"
      using "1.prems"(4) True t by (subst (asm) split_redirects_loop.simps) (simp add: Let_def)
    then show ?thesis using "1.IH"(1) [OF _ refl _ refl refl t refl] True "1.prems"(1-3) ascii_redirect_target [OF "1.prems"(1) t]
      by simp
  next
    case False
    show ?thesis
    proof (cases "i < length s")
      case True
      let ?l = "lexeme_at s q i"
      have "split_redirects_loop s (flags_after ?l q) (index_after ?l i) (word_after s i ?l x) = Inr (tx, rs)"
        using "1.prems"(4) True False by (subst (asm) split_redirects_loop.simps) (auto simp: Let_def)
      then show ?thesis using "1.IH"(2) [OF _ refl] True False "1.prems"(1-3) w by auto
    next
      case no: False
      then show ?thesis using "1.prems" by (subst (asm) split_redirects_loop.simps) auto
    qed
  qed
qed


section \<open>No panic on ASCII lines\<close>

definition unpanicked :: "(shell \<Rightarrow> str \<Rightarrow> 'a outcome) \<Rightarrow> bool" where
  "unpanicked f \<longleftrightarrow> (\<forall>s l. ascii l \<longrightarrow> f s l \<noteq> Panicked)"

definition calm_expander :: "expander \<Rightarrow> bool" where
  "calm_expander ex \<longleftrightarrow> (\<forall>s l mode. ascii l \<longrightarrow> ex s l mode \<noteq> Panicked)"

lemma unpanickedD: "unpanicked f \<Longrightarrow> ascii l \<Longrightarrow> f s l \<noteq> Panicked"
  by (simp add: unpanicked_def)

lemma obind_Panicked: "obind m f = Panicked \<longleftrightarrow> m = Panicked \<or> (\<exists>x. m = Done x \<and> f x = Panicked)"
  by (cases m) auto

lemma obind_unpanicked: "m \<noteq> Panicked \<Longrightarrow> (\<And>x. m = Done x \<Longrightarrow> f x \<noteq> Panicked) \<Longrightarrow> obind m f \<noteq> Panicked"
  by (cases m) auto

lemma ascii_slice_done:
  assumes "ascii line" "substitution_at line i = Some b"
  shows "str_slice line (fst (s_body b)) (snd (s_body b)) = Done (slice line (fst (s_body b)) (snd (s_body b)))"
proof -
  have "boundary line j" for j
    using assms(1) by (auto simp: boundary_def ascii_def list_all_length is_continuation_iff not_le)
  then show ?thesis using substitution_end [OF assms(2)] substitution_at_bounds [OF assms(2)] by (simp add: str_slice_def)
qed

lemma expand_loop_unpanicked:
  assumes "unpanicked sb" "unpanicked ari" "ascii line"
  shows "expand_loop w sb ari mode line s q dq out cs \<noteq> Panicked"
proof (induction "length cs" arbitrary: s q dq out cs rule: less_induct)
  case less
  show ?case
  proof (cases cs)
    case (Cons x rest)
    obtain i c where cs: "cs = (i, c) # rest" using Cons by (cases x) simp
    show ?thesis
    proof (cases "substitution_in q line i c")
      case None
      then obtain q' dq' out' cs' where "length cs' \<le> length rest"
          "expand_loop w sb ari mode line s q dq out cs = expand_loop w sb ari mode line s q' dq' out' cs'"
        unfolding cs by (rule expand_loop_plain)
      then show ?thesis using less cs by simp
    next
      case (Some r)
      then have at: "substitution_at line i = Some r" by (simp add: substitution_in_def split: if_splits)
      let ?body = "slice line (fst (s_body r)) (snd (s_body r))"
      have "(if s_arithmetic r then ari else sb) s ?body \<noteq> Panicked" using assms by (simp add: unpanickedD)
      then show ?thesis unfolding cs expand_loop_subst [OF Some] ascii_slice_done [OF assms(3) at] obind_simps
        by (rule obind_unpanicked) (use less.hyps length_dropWhile_le [of _ rest] cs in \<open>auto simp: le_imp_less_Suc\<close>)
    qed
  qed simp
qed

lemma unpanicked_substitute: "unpanicked run \<Longrightarrow> unpanicked (substitute run)"
  by (auto simp: unpanicked_def substitute_def Let_def obind_Panicked split: prod.splits if_splits)

lemma unpanicked_arithmetic: "calm_expander ex \<Longrightarrow> unpanicked (arithmetic w ex)"
  by (auto simp: calm_expander_def unpanicked_def arithmetic_def Let_def obind_Panicked split: if_splits)

text \<open>An expander that does not panic makes the whole of a line's run not panic.\<close>

lemma parse_line_unpanicked: "calm_expander ex \<Longrightarrow> ascii l \<Longrightarrow> parse_line ex s l \<noteq> Panicked"
  by (auto simp: parse_line_def calm_expander_def obind_Panicked)

lemma open_redirects_unpanicked:
  "calm_expander ex \<Longrightarrow> list_all ascii_redirect rs \<Longrightarrow> open_redirects w ex s ks rs \<noteq> Panicked"
proof (induction w ex s ks rs rule: open_redirects.induct)
  case (2 w ex s ks r rs)
  then show ?case
    by (auto simp: ascii_redirect_def obind_Panicked parse_line_unpanicked
        split: target.splits redir_stream.splits list.splits prod.splits sum.splits if_splits)
qed simp

lemma run_stage_unpanicked:
  assumes ex: "calm_expander ex" and "ascii stage"
  shows "run_stage w d ex l s piped err stage \<noteq> Panicked"
proof (cases "split_redirects stage")
  case (Inr r)
  obtain tx rs where r: "r = (tx, rs)" by (cases r)
  then have "ascii tx \<and> list_all ascii_redirect rs"
    using ascii_redirects_loop [OF assms(2) _ _ Inr [unfolded r split_redirects_def]] by simp
  then show ?thesis using Inr r parse_line_unpanicked [OF ex] open_redirects_unpanicked [OF ex]
    by (auto simp: run_stage_def Let_def obind_Panicked split: sum.splits prod.splits if_splits)
qed (simp add: run_stage_def)

lemma run_stages_unpanicked:
  "calm_expander ex \<Longrightarrow> list_all ascii stages \<Longrightarrow> run_stages w d ex s piped r err stages \<noteq> Panicked"
  by (induction stages arbitrary: s piped r err)
     (auto simp: obind_Panicked run_stage_unpanicked split: stage_end.splits)

lemma run_segments_unpanicked:
  "unpanicked run \<Longrightarrow> list_all (\<lambda>g. ascii (g_text g)) gs \<Longrightarrow> run_segments run s o1 st h gs \<noteq> Panicked"
  by (induction gs arbitrary: s o1 st h)
     (auto simp: Let_def obind_Panicked dest: unpanickedD split: option.splits if_splits)

lemma execute_body_unpanicked:
  assumes "calm_expander ex"
  shows "unpanicked (execute_body w d ex)"
proof -
  have "unpanicked (run_pipeline w d ex)"
    using run_stages_unpanicked [OF assms] ascii_pipeline_loop by (simp add: unpanicked_def run_pipeline_def split_pipeline_def)
  then have "run_segments (run_pipeline w d ex) s o1 st h (split_segments (strip_comment l)) \<noteq> Panicked" if "ascii l" for s o1 st h l
    using that by (intro run_segments_unpanicked) (simp_all add: split_segments_def strip_comment_def ascii_segments_loop ascii_strip_comment_loop)
  then show ?thesis by (auto simp: unpanicked_def execute_body_def Let_def split: option.split)
qed

lemma expand_at_unpanicked: "calm_expander (expand_at n w d)"
proof (induction n)
  case 0
  have "unpanicked (substitute (\<lambda>s line. OutOfFuel))" "unpanicked (arithmetic w (\<lambda>s line mode. OutOfFuel))"
    by (rule unpanicked_substitute, simp add: unpanicked_def) (rule unpanicked_arithmetic, simp add: calm_expander_def)
  then show ?case by (simp add: calm_expander_def expand_with_def expand_loop_unpanicked)
next
  case (Suc n)
  have "unpanicked (substitute (execute_body w d (expand_at n w d)))" "unpanicked (arithmetic w (expand_at n w d))"
    by (rule unpanicked_substitute [OF execute_body_unpanicked [OF Suc.IH]], rule unpanicked_arithmetic [OF Suc.IH])
  then show ?case by (simp add: calm_expander_def expand_with_def expand_loop_unpanicked)
qed

lemma execute_unpanicked: "ascii l \<Longrightarrow> execute w d s l \<noteq> Panicked"
  using execute_body_unpanicked [OF expand_at_unpanicked] unfolding execute_def expand_def by (rule unpanickedD)


section \<open>Lines that panic\<close>

definition paren_plain :: "byte \<Rightarrow> bool" where
  "paren_plain b \<longleftrightarrow> b \<noteq> CHR 0x5C \<and> b \<noteq> CHR 0x27 \<and> b \<noteq> CHR 0x22 \<and> b \<noteq> CHR ''('' \<and> b \<noteq> CHR '')''"

lemma paren_close_skip:
  "list_all paren_plain m \<Longrightarrow> paren_close (p @ m @ r) (length p) n False False = paren_close (p @ m @ r) (length p + length m) n False False"
proof (induction m arbitrary: p)
  case (Cons b m)
  have "paren_close (p @ (b # m) @ r) (length p) n False False = paren_close ((p @ [b]) @ m @ r) (length (p @ [b])) n False False"
    using Cons.prems by (subst paren_close.simps) (simp add: paren_step_def paren_plain_def)
  then show ?case using Cons.IH [of "p @ [b]"] Cons.prems by simp
qed simp

lemma split_region_closed:
  assumes "list_all paren_plain x" "list_all paren_plain c"
  shows "paren_close (''$(('' @ x @ '')'' @ c @ '')'') 1 0 False False = Some (4 + length x + length c)"
proof -
  let ?l = "''$(('' @ x @ '')'' @ c @ '')''"
  have "paren_close ?l 1 0 False False = paren_close ?l 3 2 False False"
    by (subst paren_close.simps, simp add: paren_step_def, subst paren_close.simps, simp add: paren_step_def numeral_3_eq_3 numeral_2_eq_2)
  also have "\<dots> = paren_close ?l (3 + length x) 2 False False"
    using paren_close_skip [OF assms(1), of "''$((''" "'')'' @ c @ '')''" 2] by (simp add: numeral_3_eq_3)
  also have "\<dots> = paren_close ?l (4 + length x) 1 False False"
    by (subst paren_close.simps) (simp add: paren_step_def nth_append)
  also have "\<dots> = paren_close ?l (4 + length x + length c) 1 False False"
    using paren_close_skip [OF assms(2), of "''$(('' @ x @ '')''" "'')''" 1] by (simp add: eval_nat_numeral)
  also have "\<dots> = Some (4 + length x + length c)"
    by (subst paren_close.simps) (simp add: paren_step_def nth_append)
  finally show ?thesis .
qed

text \<open>
  C39: An arithmetic substitution whose two closing parentheses are parted by a character beyond ASCII makes
  the shell panic. For any valid text without quotes, backslashes and parentheses and any such character, the line \<open>$((text)char)\<close> is valid UTF-8
  and running it, in any session and with any commands, panics: the body is taken to end one byte before the last
  parenthesis, inside the character.
\<close>

theorem arithmetic_line_panics:
  assumes "utf8_valid x" "list_all paren_plain x" "utf8_unit c" "2 \<le> length c"
  shows "utf8_valid (''$(('' @ x @ '')'' @ c @ '')'') \<and> execute w d s (''$(('' @ x @ '')'' @ c @ '')'') = Panicked"
proof -
  define l where "l = ''$(('' @ x @ '')'' @ c @ '')''"
  have rc: "rchar_ok c" using utf8_unit_rchar [OF assms(3)] .
  then have big: "0x80 \<le> u8 b" if "b \<in> set c" for b
    using that assms(4) by (cases c) (auto simp: rchar_ok_def is_continuation_iff list_all_iff)
  have "paren_plain b" if "0x80 \<le> u8 b" for b using that by (auto simp: paren_plain_def)
  then have c: "list_all paren_plain c" using big by (simp add: list_all_iff)
  have at: "substitution_at l 0 = Some \<lparr>s_end = length l, s_body = (3, 3 + length x + length c), s_arithmetic = True\<rparr>"
    using split_region_closed [OF assms(2) c] by (simp add: substitution_at_def byte_get_def l_def)
  obtain c' b where cb: "c = c' @ [b]" "c' \<noteq> []" using assms(4) by (cases c rule: rev_cases) (auto simp: Suc_le_eq)
  then have "is_continuation b" using rc by (cases c') (auto simp: rchar_ok_def)
  moreover have "l ! (3 + length x + length c) = b"
    using nth_append_length [of "''$(('' @ x @ '')'' @ c'" b "'')''"] by (simp add: l_def cb(1) add.commute)
  ultimately have slice: "str_slice l 3 (3 + length x + length c) = Panicked"
    by (simp add: str_slice_def boundary_def l_def)
  have lex: "lexeme_at l unquoted 0 = Subst (length l)" using at by (simp add: lexeme_at_def unquoted_def)
  have step: "index_after (Subst (length l)) 0 = length l" "length l > 0" by (simp_all add: index_after_def l_def)
  have heredoc: "split_heredoc l = None" unfolding split_heredoc_def
    by (subst split_heredoc_loop.simps, simp add: lex step Let_def, subst split_heredoc_loop.simps, simp)
  have comment: "strip_comment l = l" unfolding strip_comment_def
    by (subst strip_comment_loop.simps, simp add: lex step Let_def, subst strip_comment_loop.simps, simp)
  have segments: "split_segments l = [\<lparr>g_run_if = Always, g_text = l\<rparr>]" unfolding split_segments_def
    by (subst split_segments_loop.simps, simp add: lex step Let_def, subst split_segments_loop.simps, simp)
  have pipeline: "split_pipeline l = [l]" unfolding split_pipeline_def
    by (subst split_pipeline_loop.simps, simp add: lex step Let_def, subst split_pipeline_loop.simps, simp)
  have redirects: "split_redirects l = Inr (l, [])" unfolding split_redirects_def
    by (subst split_redirects_loop.simps, simp add: lex step Let_def word_after_def, subst split_redirects_loop.simps, simp)
  obtain cs where cs: "chars l = [CHR ''$''] # cs"
    by (simp add: l_def ascii_not_continuation)
  have "\<not> is_whitespace [CHR ''$'']" by (simp add: is_whitespace_def)
  then have blank: "trim l \<noteq> []" using cs by (auto simp: trim_def trim_chars_def dropWhile_append)
  have n: "MAX_NESTED_COMMANDS = Suc 15" by (simp add: MAX_NESTED_COMMANDS_def)
  have "char_indices l = (0, ''$'') # char_indices_from 1 cs" by (simp add: char_indices_def cs)
  moreover have "substitution_in False l 0 ''$'' = Some \<lparr>s_end = length l, s_body = (3, 3 + length x + length c), s_arithmetic = True\<rparr>"
    using at by (simp add: substitution_in_def)
  ultimately have ex: "expand w d t l Words = Panicked" for t
    unfolding expand_def n expand_at.simps expand_with_def by (simp add: expand_loop_subst slice)
  have "execute w d s l = Panicked"
    using blank by (simp add: execute_def execute_body_def Let_def heredoc comment segments should_run_def run_pipeline_def pipeline
        run_stage_def redirects parse_line_def ex)
  moreover have "utf8_valid ''$((''" "utf8_valid '')''" by (simp_all add: utf8_valid.simps utf8_step_def byte_at_def)
  then have "utf8_valid l" unfolding l_def
    by (intro utf8_valid_append assms(1)) (simp_all add: utf8_valid_Cons [OF assms(3), of "[]", simplified])
  ultimately show ?thesis by (simp add: l_def)
qed

theorem arithmetic_line_panics_witness:
  "execute sample_world sample_dispatch sample_shell (''$(('' @ ''1'' @ '')'' @ [CHR 0xC3, CHR 0xA9] @ '')'') = Panicked"
proof -
  have "utf8_valid ''1''" "list_all paren_plain ''1''" "utf8_unit [CHR 0xC3, CHR 0xA9]"
    by (simp_all add: utf8_valid.simps utf8_unit_def utf8_step_def byte_at_def cont_at_def paren_plain_def)
  from arithmetic_line_panics [OF this, of sample_world sample_dispatch sample_shell] show ?thesis by simp
qed

section \<open>Lines that return\<close>

text \<open>A here-document that is being collected, with an ASCII line and body so far.\<close>

definition pending_ascii :: "shell \<Rightarrow> bool" where
  "pending_ascii s \<longleftrightarrow> (case sh_pending s of
      Some (HeredocPending command raw doc body) \<Rightarrow> ascii command \<and> ascii body | _ \<Rightarrow> True)"

lemma run_heredoc_unpanicked:
  assumes "ascii command" "ascii body"
  shows "run_heredoc w d s command raw doc body \<noteq> Panicked"
proof -
  have "expand w d t body Literal \<noteq> Panicked" for t
    using expand_at_unpanicked assms(2) unfolding expand_def calm_expander_def by blast
  then show ?thesis using execute_unpanicked [OF assms(1)]
    by (auto simp: run_heredoc_def Let_def obind_Panicked split: if_splits)
qed

lemma answers_unpanicked:
  "pending_ascii s \<Longrightarrow> resume w d s input \<noteq> Panicked \<and> finish_heredoc_at_eof w d s \<noteq> Panicked"
  by (auto simp: pending_ascii_def resume_def finish_heredoc_at_eof_def Let_def obind_Panicked run_heredoc_unpanicked
      split: option.splits pending.splits if_splits)

lemma outcome_Done: "m \<noteq> OutOfFuel \<Longrightarrow> m \<noteq> Panicked \<Longrightarrow> \<exists>x. m = Done x"
  by (cases m) auto

text \<open>
  C15: Every line ends, and every ASCII line returns. When every command function that may change the
  session leaves its nesting level as it found it, running a line, answering a prompt or ending a here-document
  never runs out of the sixteen levels of nesting the model grants, however deeply command substitutions
  and arithmetic expansions are nested in the text: below the sixteenth level they expand to nothing. What may
  remain is a panic; a line of ASCII text never panics but returns a result, and so does an answer or an end of input
  unless a here-document with other characters is being collected.
\<close>

theorem lines_return:
  assumes "\<And>md f t args. sh_nesting (snd (run_mut H md f t args)) = sh_nesting t"
  shows "execute w (dispatch H) s line \<noteq> OutOfFuel \<and> resume w (dispatch H) s line \<noteq> OutOfFuel
    \<and> finish_heredoc_at_eof w (dispatch H) s \<noteq> OutOfFuel
    \<and> (ascii line \<longrightarrow> (\<exists>o1 t. execute w (dispatch H) s line = Done (o1, t)))
    \<and> (pending_ascii s \<longrightarrow> (\<exists>o1 t. resume w (dispatch H) s line = Done (o1, t))
         \<and> (\<exists>o1 t. finish_heredoc_at_eof w (dispatch H) s = Done (o1, t)))"
  using lines_have_fuel [OF assms, of w s line] execute_unpanicked [of line w "dispatch H" s]
    answers_unpanicked [of s w "dispatch H" line] outcome_Done
  by (metis surj_pair)

theorem lines_return_witness:
  "\<forall>w. \<exists>o1 t. execute w (dispatch idle_handlers) sample_shell ''echo $(echo $(echo x))'' = Done (o1, t)"
proof -
  have "ascii ''echo $(echo $(echo x))''" by (simp add: ascii_def)
  then show ?thesis using lines_return [of idle_handlers] by (simp add: idle_handlers_def)
qed

end
