(* ===== verification/Sftp_Transfer.thy ===== *)
theory Sftp_Transfer
  imports Sftp_Props Scp_Props Shell_Props
begin

text \<open>
  Whole exchanges with the SFTP server: bursts of requests and their replies, a file uploaded packet
  by packet, and the paths requests name.
\<close>

section \<open>Bursts of requests\<close>

definition frame :: "byte list \<Rightarrow> byte list" where
  "frame pkt = put_u32 (word_of_nat (length pkt)) @ pkt"

definition request :: "byte list \<Rightarrow> bool" where
  "request pkt \<longleftrightarrow> 5 \<le> length pkt \<and> length pkt \<le> MAX_SFTP_PACKET_LEN \<and> u8 (hd pkt) \<noteq> SSH_FXP_INIT"

definition request_id :: "byte list \<Rightarrow> u32" where
  "request_id pkt = word_of_nat (be_value (take 4 (tl pkt)))"

lemma packet_reply:
  assumes "request pkt" "handle_packet w H m f s pkt = Some (r, f', t, ups)"
  shows "reply_to (request_id pkt) r"
proof -
  obtain b cur where pkt: "pkt = b # cur" "4 \<le> length cur" using assms(1) by (cases pkt) (auto simp: request_def)
  have "handle_request w H m f s (u8 b) (request_id pkt) (drop 4 cur) = Some (r, f', t, ups)"
    using assms pkt by (simp add: handle_packet_def get_u32_def request_id_def request_def)
  then show ?thesis by (rule reply_to_request)
qed

lemma feed_frame:
  assumes "request pkt" "handle_packet w H m f s pkt = Some (r, f1, s1, ups)"
  shows "feed_requests w H m f s (frame pkt @ rest) out cs =
    (if length (out @ r) \<ge> MAX_SFTP_FEED_RESPONSE then Some (out @ r, f1\<lparr>f_buf := rest\<rparr>, s1, cs @ ups)
     else feed_requests w H m f1 s1 rest (out @ r) (cs @ ups))"
proof -
  have n: "unat (word_of_nat (length pkt) :: u32) = length pkt"
    using assms(1) by (intro unat_of_nat_u32) (simp add: request_def MAX_SFTP_PACKET_LEN_def)
  then show ?thesis using assms
    by (subst feed_requests.simps) (simp add: frame_def Let_def request_def)
qed

lemma feed_empty: "feed_requests w H m f s [] out cs = Some (out, f\<lparr>f_buf := []\<rparr>, s, cs)"
  by (simp add: feed_requests.simps)

definition answers :: "byte list \<Rightarrow> byte list \<Rightarrow> bool" where
  "answers pkt r \<longleftrightarrow> reply_to (request_id pkt) r"

text \<open>One call answers a prefix of the burst, never an empty one, and keeps the rest.\<close>

lemma feed_burst:
  assumes "session_wf s" "list_all request pkts"
  shows "\<exists>rs f' t ups. feed_requests w H m f s (concat (map frame pkts)) out cs = Some (out @ concat rs, f', t, ups)
    \<and> session_wf t \<and> length rs \<le> length pkts \<and> (pkts \<noteq> [] \<longrightarrow> rs \<noteq> [])
    \<and> f_buf f' = concat (map frame (drop (length rs) pkts)) \<and> list_all2 answers (take (length rs) pkts) rs"
  using assms
proof (induction pkts arbitrary: f s out cs)
  case Nil
  then show ?case by (intro exI [of _ "[]"]) (simp add: feed_empty)
next
  case (Cons p pkts)
  obtain r f1 s1 ups where h: "handle_packet w H m f s p = Some (r, f1, s1, ups)" "keeps_wf s s1"
    using servedD [OF packet_served [OF Cons.prems(1)]] by blast
  have p: "request p" "answers p r" using Cons.prems(2) packet_reply [OF _ h(1)] by (simp_all add: answers_def)
  note step = feed_frame [OF p(1) h(1), of "concat (map frame pkts)" out cs]
  have s1: "session_wf s1" using h(2) by (rule keeps_wf_session)
  show ?case
  proof (cases "length (out @ r) \<ge> MAX_SFTP_FEED_RESPONSE")
    case True
    then show ?thesis using step p s1 by (intro exI [of _ "[r]"]) simp
  next
    case False
    obtain rs f' t us where "feed_requests w H m f1 s1 (concat (map frame pkts)) (out @ r) (cs @ ups) = Some ((out @ r) @ concat rs, f', t, us)"
        "session_wf t" "length rs \<le> length pkts" "f_buf f' = concat (map frame (drop (length rs) pkts))"
        "list_all2 answers (take (length rs) pkts) rs"
      using Cons.IH [OF s1, of f1 "out @ r" "cs @ ups"] Cons.prems(2) by auto
    then show ?thesis using step p False by (intro exI [of _ "r # rs"]) simp
  qed
qed

text \<open>Further calls with no new bytes.\<close>

fun sftp_drain :: "world \<Rightarrow> 'h hasher \<Rightarrow> nat \<Rightarrow> nat \<Rightarrow> 'h sftp_session \<Rightarrow> shell \<Rightarrow> (byte list \<times> 'h sftp_session \<times> shell) option" where
  "sftp_drain w H m 0 f s = Some ([], f, s)"
| "sftp_drain w H m (Suc n) f s = (case sftp_feed w H m f s [] of
      None \<Rightarrow> None
    | Some (out, f1, s1, _) \<Rightarrow> map_option (\<lambda>(out', r). (out @ out', r)) (sftp_drain w H m n f1 s1))"

lemma drain_answers:
  "session_wf s \<Longrightarrow> list_all request pkts \<Longrightarrow> f_buf f = concat (map frame pkts) \<Longrightarrow> length pkts \<le> n \<Longrightarrow>
   \<exists>rs f' t. sftp_drain w H m n f s = Some (concat rs, f', t) \<and> list_all2 answers pkts rs \<and> f_buf f' = [] \<and> session_wf t"
proof (induction n arbitrary: f s pkts)
  case 0
  then show ?case by (intro exI [of _ "[]"]) simp
next
  case (Suc n)
  obtain rs f1 s1 ups where h: "sftp_feed w H m f s [] = Some (concat rs, f1, s1, ups)" "session_wf s1"
      "length rs \<le> length pkts" "pkts \<noteq> [] \<longrightarrow> rs \<noteq> []"
      "f_buf f1 = concat (map frame (drop (length rs) pkts))" "list_all2 answers (take (length rs) pkts) rs"
    using feed_burst [OF Suc.prems(1,2), of w H m f "[]" "[]"] Suc.prems(3) by (auto simp: sftp_feed_def)
  have "list_all request (drop (length rs) pkts)" using Suc.prems(2) by (auto simp: list_all_iff dest: in_set_dropD)
  moreover have "length (drop (length rs) pkts) \<le> n" using Suc.prems(4) h(4) by (cases pkts; cases rs) auto
  ultimately obtain rs' f' t where t: "sftp_drain w H m n f1 s1 = Some (concat rs', f', t)"
      "list_all2 answers (drop (length rs) pkts) rs'" "f_buf f' = []" "session_wf t"
    using Suc.IH [OF h(2) _ h(5)] by blast
  have "list_all2 answers pkts (rs @ rs')" using list_all2_appendI [OF h(6) t(2)] by simp
  then show ?case using h(1) t by (intro exI [of _ "rs @ rs'"]) simp
qed

section \<open>An upload\<close>

definition pkt :: "nat \<Rightarrow> u32 \<Rightarrow> byte list \<Rightarrow> byte list" where
  "pkt ty rid body = char_of ty # put_u32 rid @ body"

fun run_packets :: "world \<Rightarrow> 'h hasher \<Rightarrow> nat \<Rightarrow> 'h sftp_session \<Rightarrow> shell \<Rightarrow> byte list list
    \<Rightarrow> (byte list list \<times> 'h sftp_session \<times> shell \<times> sftp_upload list) option" where
  "run_packets w H m f s [] = Some ([], f, s, [])"
| "run_packets w H m f s (p # ps) = Option.bind (handle_packet w H m f s p) (\<lambda>(r, f1, s1, us).
     Option.bind (run_packets w H m f1 s1 ps) (\<lambda>(rs, f2, s2, us'). Some (r # rs, f2, s2, us @ us')))"

lemma run_packets_append:
  "run_packets w H m f s ps = Some (rs, f1, s1, us) \<Longrightarrow> run_packets w H m f1 s1 qs = Some (rs', f2, s2, us') \<Longrightarrow>
   run_packets w H m f s (ps @ qs) = Some (rs @ rs', f2, s2, us @ us')"
proof (induction ps arbitrary: f s rs us)
  case (Cons p ps)
  then obtain r f0 s0 u where p: "handle_packet w H m f s p = Some (r, f0, s0, u)" by (auto simp: bind_eq_Some_conv)
  then obtain rs0 us0 where ps: "run_packets w H m f0 s0 ps = Some (rs0, f1, s1, us0)" "rs = r # rs0" "us = u @ us0"
    using Cons.prems(1) by (auto simp: bind_eq_Some_conv)
  then show ?case using p Cons.IH [OF ps(1) Cons.prems(2)] by simp
qed simp

lemma handle_pkt:
  "ty < 256 \<Longrightarrow> ty \<noteq> SSH_FXP_INIT \<Longrightarrow> handle_packet w H m f s (pkt ty rid body) = handle_request w H m f s ty rid body"
  by (simp add: handle_packet_def pkt_def)

text \<open>Writes at consecutive offsets.\<close>

fun write_pkts :: "byte list \<Rightarrow> nat \<Rightarrow> (u32 \<times> byte list) list \<Rightarrow> byte list list" where
  "write_pkts hb off [] = []"
| "write_pkts hb off ((rid, c) # cs) =
     pkt SSH_FXP_WRITE rid (put_bytes hb @ put_u64 off @ put_bytes c) # write_pkts hb (off + length c) cs"

text \<open>A write handle that has received \<open>body\<close> from the start.\<close>

definition received :: "'h hasher \<Rightarrow> nat \<Rightarrow> (byte list \<Rightarrow> 'h) \<Rightarrow> 'h write_handle \<Rightarrow> byte list \<Rightarrow> 'h write_handle" where
  "received H m hash x body = x\<lparr>wh_hasher := hash body, wh_size := length body, wh_data := take m body,
     wh_truncated := (m < length body)\<rparr>"

lemma overlay_grown_end:
  assumes "grow_to b d (length d + length c) = Some d'"
  shows "overlay d' (length d) c = d @ c"
  using assms by (auto simp: grow_to_def overlay_def resize_def split: if_splits)

lemma store_next:
  assumes "m < USIZE_MAX" "m - length body \<le> b"
  shows "store_chunk m b (take m body) (length body) c = (take m (body @ c), m < length (body @ c))"
proof (cases rule: store_chunk_cases [OF assms(1), of "length body" c b "take m body"])
  case (1 d')
  then show ?thesis using overlay_grown_end [of b body c d'] by simp
next
  case (2 d')
  then have "overlay d' (length body) (take (m - length body) c) = body @ take (m - length body) c"
    using overlay_grown_end [of b body "take (m - length body) c" d'] by simp
  then show ?thesis using 2 by simp
next
  case 3
  have "length body + length c \<le> m \<Longrightarrow> grow_to b (take m body) (length body + length c) \<noteq> None"
    using assms(2) by (auto simp: grow_to_def)
  moreover have "length body < m \<Longrightarrow> grow_to b (take m body) m \<noteq> None"
    using assms(2) by (auto simp: grow_to_def)
  ultimately have "\<not> length body + length c \<le> m" "\<not> length body < m" using 3 by (meson not_le)+
  then show ?thesis using 3(1) by simp
qed

lemma request_write:
  assumes f: "bt_get (f_handles f) hb = Some (WriteFile (received H m hash x body))" "f_buffered_bytes f = B + length (take m body)"
    and m: "m < USIZE_MAX" "B + m \<le> buffer_cap m"
    and hash: "h_update H (hash body) c = hash (body @ c)"
    and wire: "length hb < 2 ^ 32" "length c < 2 ^ 32" "length body < 2 ^ 64"
  shows "handle_packet w H m f s (pkt SSH_FXP_WRITE rid (put_bytes hb @ put_u64 (length body) @ put_bytes c))
    = Some (status_ok rid, f\<lparr>f_handles := bt_insert hb (WriteFile (received H m hash x (body @ c))) (f_handles f),
        f_buffered_bytes := B + length (take m (body @ c))\<rparr>, s, [])"
proof -
  let ?b = "buffer_cap m - f_buffered_bytes f"
  have "m - length body \<le> ?b" using f(2) m(2) by (cases "length body \<le> m") simp_all
  note st = store_next [OF m(1) this, of c]
  have tr: "(m < length body \<or> m < length body + length c) = (m < length body + length c)" by auto
  have "get_bytes (put_bytes c) = Some (c, [])" using get_bytes_put [OF wire(2), of "[]"] by simp
  then have "do_write H m f rid (put_bytes hb @ put_u64 (length body) @ put_bytes c) =
      (status_ok rid, f\<lparr>f_handles := bt_insert hb (WriteFile (received H m hash x (body @ c))) (f_handles f),
        f_buffered_bytes := B + length (take m (body @ c))\<rparr>)"
    using f st hash wire by (simp add: do_write_def received_def Let_def add.assoc tr)
  then show ?thesis by (simp add: handle_pkt sftp_codes handle_request_def)
qed

lemma run_writes:
  assumes "bt_ok (f_handles f)" "bt_get (f_handles f) hb = Some (WriteFile (received H m hash x body))"
    "f_buffered_bytes f = B + length (take m body)" and m: "m < USIZE_MAX" "B + m \<le> buffer_cap m"
    and hash: "\<And>a b. h_update H (hash a) b = hash (a @ b)" and hb: "length hb < 2 ^ 32"
    and "\<And>c. c \<in> snd ` set cs \<Longrightarrow> length c < 2 ^ 32" "length (body @ concat (map snd cs)) < 2 ^ 64"
  shows "\<exists>f'. run_packets w H m f s (write_pkts hb (length body) cs) = Some (map (\<lambda>c. status_ok (fst c)) cs, f', s, [])
    \<and> bt_ok (f_handles f') \<and> bt_get (f_handles f') hb = Some (WriteFile (received H m hash x (body @ concat (map snd cs))))
    \<and> f_buffered_bytes f' = B + length (take m (body @ concat (map snd cs)))
    \<and> (\<forall>k. k \<noteq> hb \<longrightarrow> bt_get (f_handles f') k = bt_get (f_handles f) k)"
  using assms(1,2,3,8,9)
proof (induction cs arbitrary: f body)
  case Nil
  then show ?case by simp
next
  case (Cons rc cs)
  obtain rid c where rc: "rc = (rid, c)" by (cases rc)
  let ?f = "f\<lparr>f_handles := bt_insert hb (WriteFile (received H m hash x (body @ c))) (f_handles f),
      f_buffered_bytes := B + length (take m (body @ c))\<rparr>"
  have step: "handle_packet w H m f s (pkt SSH_FXP_WRITE rid (put_bytes hb @ put_u64 (length body) @ put_bytes c))
      = Some (status_ok rid, ?f, s, [])"
    by (rule request_write [where hash = hash and x = x]) (use Cons.prems rc m hash hb in auto)
  have "\<exists>f'. run_packets w H m ?f s (write_pkts hb (length (body @ c)) cs) = Some (map (\<lambda>c. status_ok (fst c)) cs, f', s, [])
    \<and> bt_ok (f_handles f') \<and> bt_get (f_handles f') hb = Some (WriteFile (received H m hash x ((body @ c) @ concat (map snd cs))))
    \<and> f_buffered_bytes f' = B + length (take m ((body @ c) @ concat (map snd cs)))
    \<and> (\<forall>k. k \<noteq> hb \<longrightarrow> bt_get (f_handles f') k = bt_get (f_handles ?f) k)"
    using Cons.prems rc by (intro Cons.IH) (auto simp: bt_ok_insert bt_get_insert)
  then show ?case using step Cons.prems(1) rc by (auto simp: bt_get_insert)
qed

lemma get_mode_attrs: "get_attrs (put_u32 4 @ put_u32 perms) = Some \<lparr>pa_permissions = Some perms, pa_uid_gid = None, pa_acmodtime = None\<rparr>"
  using get_u32_put [of perms "[]"] by (simp add: get_attrs_def get_if_def)

lemma request_open:
  assumes "utf8_valid path" "length path < 2 ^ 32" "snd (split_path (abs_of s path)) \<noteq> []" "length (f_handles f) < MAX_SFTP_HANDLES"
  shows "handle_packet w H m f s (pkt SSH_FXP_OPEN rid (put_str path @ put_u32 SSH_FXF_WRITE @ put_u32 4 @ put_u32 perms))
    = Some (put_handle rid (put_u32 (f_next_handle f)),
        f\<lparr>f_next_handle := f_next_handle f + 1, f_handles := bt_insert (put_u32 (f_next_handle f))
          (WriteFile \<lparr>wh_dest_path = abs_of s path, wh_name = snd (split_path (abs_of s path)), wh_data = [], wh_size = 0,
             wh_hasher = h_new H, wh_mode = perms AND o7777, wh_truncated = False\<rparr>) (f_handles f)\<rparr>, s, [])"
  using assms
  by (simp add: handle_pkt sftp_codes handle_request_def do_open_def get_mode_attrs open_handle_def alloc_handle_def Let_def)

lemma request_close:
  assumes "bt_get (f_handles f) hb = Some (WriteFile x)" "length hb < 2 ^ 32"
  shows "handle_packet w H m f s (pkt SSH_FXP_CLOSE rid (put_bytes hb)) = Some (status_ok rid,
    f\<lparr>f_handles := bt_remove hb (f_handles f), f_buffered_bytes := f_buffered_bytes f - length (wh_data x)\<rparr>,
    fst (finish_upload w H s x), [snd (finish_upload w H s x)])"
  using assms get_bytes_put [OF assms(2), of "[]"]
  by (simp add: handle_pkt sftp_codes handle_request_def do_close_def handle_bytes_def case_prod_beta)

section \<open>A sample session\<close>

lemma session_wf_sample: "session_wf sample_shell"
  using wf_vfs_new [of 0] fx_sizes(1) by (simp add: session_wf_def sample_shell_def env_ok_def bt_ok_def)

definition sample_burst :: "byte list list" where
  "sample_burst = [pkt SSH_FXP_REALPATH 7 (put_str ''.''), pkt SSH_FXP_CLOSE 8 (put_bytes [])]"

lemma request_sample_burst: "list_all request sample_burst"
  by (simp add: sample_burst_def request_def pkt_def put_str_def put_bytes_def MAX_SFTP_PACKET_LEN_def sftp_codes)

section \<open>Properties\<close>

text \<open>C8: every SFTP request is answered. For any burst of request packets, of any types and contents,
  fed at once to a session in order: the call returns, and at most as many further calls as there are
  packets (with no new bytes) answer all of them, each with exactly one reply packet that carries the
  identifier of its request, in the order of the requests; nothing is left in the buffer and the shell
  session is still well-formed.\<close>

theorem sftp_all_answered:
  assumes "session_wf s" "list_all request pkts" "f_buf f = []"
  shows "\<exists>out f1 s1 ups out' f2 s2 rs. sftp_feed w H m f s (concat (map frame pkts)) = Some (out, f1, s1, ups)
    \<and> sftp_drain w H m (length pkts) f1 s1 = Some (out', f2, s2)
    \<and> out @ out' = concat rs \<and> list_all2 answers pkts rs \<and> f_buf f2 = [] \<and> session_wf s2"
proof -
  obtain rs f1 s1 ups where h: "sftp_feed w H m f s (concat (map frame pkts)) = Some (concat rs, f1, s1, ups)" "session_wf s1"
      "length rs \<le> length pkts" "f_buf f1 = concat (map frame (drop (length rs) pkts))" "list_all2 answers (take (length rs) pkts) rs"
    using feed_burst [OF assms(1,2), of w H m f "[]" "[]"] assms(3) by (auto simp: sftp_feed_def)
  have "list_all request (drop (length rs) pkts)" using assms(2) by (auto simp: list_all_iff dest: in_set_dropD)
  then obtain rs' f2 s2 where t: "sftp_drain w H m (length pkts) f1 s1 = Some (concat rs', f2, s2)"
      "list_all2 answers (drop (length rs) pkts) rs'" "f_buf f2 = []" "session_wf s2"
    using drain_answers [OF h(2) _ h(4), of "length pkts" w H m] by auto
  have "list_all2 answers pkts (rs @ rs')" using list_all2_appendI [OF h(5) t(2)] by simp
  then show ?thesis using h(1) t
    by (intro exI [of _ "concat rs"] exI [of _ "concat rs'"] exI [of _ "rs @ rs'"] exI) (auto simp: concat_append)
qed

theorem sftp_all_answered_witness:
  "\<exists>out f1 s1 ups out' f2 s2 rs.
    sftp_feed sample_world raw_hasher 2 sftp_new sample_shell (concat (map frame sample_burst)) = Some (out, f1, s1, ups)
    \<and> sftp_drain sample_world raw_hasher 2 (length sample_burst) f1 s1 = Some (out', f2, s2)
    \<and> out @ out' = concat rs \<and> list_all2 answers sample_burst rs \<and> f_buf f2 = [] \<and> session_wf s2"
  by (rule sftp_all_answered [OF session_wf_sample request_sample_burst]) (simp add: sftp_new_def)

text \<open>C7: an SFTP upload arrives whole. A file opened for writing, sent as any sequence of writes at
  consecutive offsets and closed, gives one completed upload: the name and the canonical path it was
  opened with, the permission bits of the open request, the bytes sent up to the cap, the number of
  all bytes sent, the digest of all of them, and the mark of truncation exactly when they exceed the
  cap. Every packet is acknowledged, and the session's buffer account is back where it was.\<close>

theorem sftp_upload_whole:
  fixes H :: "'h hasher"
  assumes incremental: "\<And>h a b. h_update H (h_update H h a) b = h_update H h (a @ b)" "\<And>h. h_update H h [] = h"
    and path: "utf8_valid path" "length path < 2 ^ 32" "snd (split_path (abs_of s path)) \<noteq> []"
    and f: "bt_ok (f_handles f)" "length (f_handles f) < MAX_SFTP_HANDLES" "f_buffered_bytes f + m \<le> buffer_cap m" "m < USIZE_MAX"
    and cs: "list_all (\<lambda>c. length (snd c) < 2 ^ 32) cs" "body = concat (map snd cs)" "length body < 2 ^ 64"
    and hb: "hb = put_u32 (f_next_handle f)"
  shows "\<exists>f' s'. run_packets w H m f s (pkt SSH_FXP_OPEN rid (put_str path @ put_u32 SSH_FXF_WRITE @ put_u32 4 @ put_u32 perms)
      # write_pkts hb 0 cs @ [pkt SSH_FXP_CLOSE rid' (put_bytes hb)])
    = Some (put_handle rid hb # map (\<lambda>c. status_ok (fst c)) cs @ [status_ok rid'], f', s',
        [\<lparr>up_name = snd (split_path (abs_of s path)), up_dest_path = abs_of s path, up_mode = perms AND o7777,
          up_data = take m body, up_size = length body, up_sha256 = hex (h_finalize H (h_update H (h_new H) body)),
          up_truncated = (m < length body)\<rparr>])
    \<and> f_buffered_bytes f' = f_buffered_bytes f"
proof -
  define x :: "'h write_handle" where "x = \<lparr>wh_dest_path = abs_of s path, wh_name = snd (split_path (abs_of s path)),
    wh_data = [], wh_size = 0, wh_hasher = h_new H, wh_mode = perms AND o7777, wh_truncated = False\<rparr>"
  let ?hash = "h_update H (h_new H)"
  let ?f = "f\<lparr>f_next_handle := f_next_handle f + 1, f_handles := bt_insert hb (WriteFile x) (f_handles f)\<rparr>"
  have x0: "received H m ?hash x [] = x" by (simp add: received_def x_def incremental(2))
  obtain f1 where f1: "run_packets w H m ?f s (write_pkts hb 0 cs) = Some (map (\<lambda>c. status_ok (fst c)) cs, f1, s, [])"
      "bt_get (f_handles f1) hb = Some (WriteFile (received H m ?hash x body))"
      "f_buffered_bytes f1 = f_buffered_bytes f + length (take m body)"
    using run_writes [of ?f hb H m ?hash x "[]" "f_buffered_bytes f" cs w s] f cs incremental(1)
    by (auto simp: bt_ok_insert bt_get_insert x0 hb list_all_iff)
  have last: "handle_packet w H m f1 s (pkt SSH_FXP_CLOSE rid' (put_bytes hb)) = Some (status_ok rid',
      f1\<lparr>f_handles := bt_remove hb (f_handles f1), f_buffered_bytes := f_buffered_bytes f\<rparr>,
      fst (finish_upload w H s (received H m ?hash x body)), [snd (finish_upload w H s (received H m ?hash x body))])"
    using request_close [OF f1(2), of w H m s rid'] f1(3) by (simp add: hb received_def)
  note tail = run_packets_append [OF f1(1), of "[pkt SSH_FXP_CLOSE rid' (put_bytes hb)]"]
  show ?thesis
    using request_open [OF path f(2), of w H m rid perms, folded hb] tail last
    by (simp add: x_def [symmetric]) (simp add: finish_upload_def received_def x_def)
qed

theorem sftp_upload_whole_witness:
  "\<exists>f' s'. run_packets sample_world raw_hasher 4 sftp_new sample_shell
      (pkt SSH_FXP_OPEN 7 (put_str ''/x'' @ put_u32 SSH_FXF_WRITE @ put_u32 4 @ put_u32 o755)
        # write_pkts (put_u32 1) 0 [(8, ''abc''), (9, ''def'')] @ [pkt SSH_FXP_CLOSE 10 (put_bytes (put_u32 1))])
    = Some ([put_handle 7 (put_u32 1), status_ok 8, status_ok 9, status_ok 10], f', s',
        [\<lparr>up_name = ''x'', up_dest_path = ''/x'', up_mode = o755, up_data = ''abcd'', up_size = length ''abcdef'', up_sha256 = hex ''abcdef'', up_truncated = True\<rparr>])
    \<and> f_buffered_bytes f' = 0"
proof -
  have "sanitise_path ''/x'' = ''/x''" "starts_with ''/x'' ''/''" "fold push_component (split_on (CHR ''/'') ''/x'') [] = [''x'']"
    by code_simp+
  then have x: "abs_of sample_shell ''/x'' = ''/x''" by (simp add: abs_of_def normalize_path_def)
  moreover have "split_path ''/x'' = (''/'', ''x'')" "utf8_valid ''/x''" by code_simp+
  ultimately
  show ?thesis
    using sftp_upload_whole [of raw_hasher "''/x''" sample_shell sftp_new 4 "[(8, ''abc''), (9, ''def'')]" "''abcdef''"
        "put_u32 1" sample_world 7 o755 10]
    by (simp add: raw_hasher_def sftp_new_def bt_ok_def MAX_SFTP_HANDLES_def buffer_cap_def USIZE_MAX_def
        SFTP_SESSION_BUFFER_MULTIPLIER_def del: run_packets.simps write_pkts.simps)
qed

text \<open>Sessions that any clients' bytes lead to, whatever the shell they meet.\<close>

inductive sftp_reach :: "'h hasher \<Rightarrow> nat \<Rightarrow> 'h sftp_session \<Rightarrow> bool" for H m where
  start: "sftp_reach H m sftp_new"
| fed: "sftp_reach H m f \<Longrightarrow> sftp_feed w H m f s dat = Some (out, f', t, ups) \<Longrightarrow> sftp_reach H m f'"

lemma sftp_reach_ok: "sftp_reach H m f \<Longrightarrow> 2 * m < USIZE_MAX \<Longrightarrow> sftp_ok m f"
  by (induction rule: sftp_reach.induct) (auto simp: sftp_ok_new sftp_feed_def dest: sftp_ok_feed [rotated 2])

text \<open>C21: the memory of an SFTP session is bounded. Whatever bytes a client sends, in pieces of any
  size and against any state of the shell, the session never holds more than 64 handles, the contents
  of all of them together are at most twice the upload cap, and no upload is buffered beyond the cap.\<close>

theorem sftp_memory_bounded:
  assumes "sftp_reach H m f" "2 * m < USIZE_MAX"
  shows "length (f_handles f) \<le> 64 \<and> bt_sum handle_bytes (f_handles f) \<le> 2 * m
    \<and> list_all (\<lambda>(k, h). case h of WriteFile x \<Rightarrow> length (wh_data x) \<le> m | _ \<Rightarrow> True) (f_handles f)"
proof -
  note ok = sftp_reach_ok [OF assms]
  then have "bt_sum handle_bytes (f_handles f) \<le> 2 * m" using buffer_cap_bound [of m] by (simp add: sftp_ok_def)
  with ok show ?thesis by (auto simp: sftp_ok_def MAX_SFTP_HANDLES_def list_all_iff split: sftp_handle.split)
qed

theorem sftp_memory_bounded_witness:
  "\<exists>f :: byte list sftp_session. sftp_reach raw_hasher 8 f \<and> length (f_handles f) \<le> 64 \<and> bt_sum handle_bytes (f_handles f) \<le> 16
    \<and> list_all (\<lambda>(k, h). case h of WriteFile x \<Rightarrow> length (wh_data x) \<le> 8 | _ \<Rightarrow> True) (f_handles f)"
  using sftp_memory_bounded [OF sftp_reach.start [of raw_hasher 8]] sftp_reach.start [of raw_hasher 8]
  by (auto simp: USIZE_MAX_def)

text \<open>C22: no bytes crash or wedge the SFTP server. For any data on the channel, malformed packets
  included, \<open>feed\<close> returns, and the shell session it worked on is well-formed afterwards: the filesystem
  is still a tree within its caps and the directories the session stands in still exist.\<close>

theorem sftp_feed_total:
  assumes "session_wf s"
  shows "\<exists>out f' t ups. sftp_feed w H m f s dat = Some (out, f', t, ups) \<and> session_wf t"
  using servedD [OF feed_served [OF assms]] keeps_wf_session unfolding sftp_feed_def by blast

theorem sftp_feed_total_witness:
  "\<exists>out f' t ups. sftp_feed sample_world raw_hasher 2 sftp_new sample_shell [CHR 0x00, CHR 0xFF, CHR 0x03] = Some (out, f', t, ups) \<and> session_wf t"
  by (rule sftp_feed_total [OF session_wf_sample])

section \<open>Paths\<close>

definition clean_part :: "str \<Rightarrow> bool" where
  "clean_part c \<longleftrightarrow> c \<noteq> [] \<and> c \<noteq> ''.'' \<and> c \<noteq> ''..'' \<and> CHR ''/'' \<notin> set c"

lemma push_clean: "list_all clean_part ps \<Longrightarrow> CHR ''/'' \<notin> set c \<Longrightarrow> list_all clean_part (push_component c ps)"
  by (auto simp: push_component_def clean_part_def list_all_iff dest: in_set_butlastD)

lemma walk_clean:
  "list_all clean_part ps \<Longrightarrow> (\<And>c. c \<in> set cs \<Longrightarrow> CHR ''/'' \<notin> set c) \<Longrightarrow> list_all clean_part (fold push_component cs ps)"
  by (induction cs arbitrary: ps) (simp_all add: push_clean)

lemma walk_parts: "list_all clean_part cs \<Longrightarrow> fold push_component cs ps = ps @ cs"
  by (induction cs arbitrary: ps) (simp_all add: push_component_def clean_part_def)

lemma push_nothing [simp]: "push_component [] ps = ps"
  by (simp add: push_component_def)

lemma split_on_append: "split_on d (a @ d # b) = split_on d a @ split_on d b"
  by (induction a) (auto split: list.split)

lemma walk_absolute: "fold push_component (split_on (CHR ''/'') (CHR ''/'' # p)) ps = fold push_component (split_on (CHR ''/'') p) ps"
  by simp

lemma walk_join:
  assumes "list_all clean_part cs"
  shows "fold push_component (split_on (CHR ''/'') (join ''/'' cs)) [] = cs"
proof (cases "cs = []")
  case False
  then have "split_on (CHR ''/'') (join ''/'' cs) = cs" using assms by (intro split_on_join) (auto simp: list_all_iff clean_part_def)
  then show ?thesis using walk_parts [OF assms, of "[]"] by simp
qed simp

lemma walk_under:
  assumes "list_all clean_part cs"
  shows "fold push_component (split_on (CHR ''/'') ((CHR ''/'' # join ''/'' cs) @ CHR ''/'' # p)) [] = fold push_component (split_on (CHR ''/'') p) cs"
  by (simp only: split_on_append fold_append comp_apply walk_absolute walk_join [OF assms])

text \<open>SFTP paths are resolved as walks and cannot climb out. A path a client names, with its control
  characters removed and its backslashes read as slashes, is walked component by component from the
  working directory, or from the root when it is absolute; the canonical path answered is the slash-joined
  walk, and none of its components is empty, \<open>.\<close>, \<open>..\<close> or contains a slash.\<close>

theorem sftp_paths_canonical:
  assumes "list_all clean_part cs"
  shows "\<exists>ds. normalize_path (''/'' @ join ''/'' cs) path = ''/'' @ join ''/'' ds \<and> list_all clean_part ds
    \<and> ds = fold push_component (split_on (CHR ''/'') (sanitise_path path)) (if starts_with (sanitise_path path) ''/'' then [] else cs)"
proof -
  let ?p = "sanitise_path path"
  let ?raw = "if starts_with ?p ''/'' then ?p else if ''/'' @ join ''/'' cs = ''/'' then ''/'' @ ?p else (''/'' @ join ''/'' cs) @ ''/'' @ ?p"
  let ?ds = "fold push_component (split_on (CHR ''/'') ?p) (if starts_with ?p ''/'' then [] else cs)"
  have root: "cs = []" if "''/'' @ join ''/'' cs = ''/''"
    using that walk_join [OF assms] by simp
  have ds: "fold push_component (split_on (CHR ''/'') ?raw) [] = ?ds"
  proof (cases "starts_with ?p ''/'' \<or> ''/'' @ join ''/'' cs = ''/''")
    case True
    then show ?thesis using root by auto
  next
    case False
    then show ?thesis using walk_under [OF assms, of ?p] by simp
  qed
  have "list_all clean_part ?ds"
    by (rule walk_clean) (use assms split_on_no_delim [of _ "CHR ''/''" ?p] in auto)
  then show ?thesis unfolding normalize_path_def Let_def ds by (intro exI [of _ ?ds]) simp
qed

theorem sftp_paths_canonical_witness:
  "\<exists>ds. normalize_path (''/'' @ join ''/'' [''home'', ''bob'']) ''../../../etc'' = ''/'' @ join ''/'' ds \<and> list_all clean_part ds
    \<and> ds = [''etc'']"
proof -
  have p: "sanitise_path ''../../../etc'' = ''../../../etc''" "split_on (CHR ''/'') ''../../../etc'' = [''..'', ''..'', ''..'', ''etc'']"
      "\<not> starts_with ''../../../etc'' ''/''"
    by code_simp+
  show ?thesis using sftp_paths_canonical [of "[''home'', ''bob'']" "''../../../etc''"]
    by (simp add: p clean_part_def push_component_def)
qed

end
