(* ===== verification/Tar_Props.thy ===== *)
theory Tar_Props
  imports Tar Fs_Commands_Props
begin

text \<open>
  The ustar format round-trips: what the writer lays out, the reader finds again, member by member,
  with its contents.
\<close>

section \<open>Octal numbers\<close>

lemma show_oct_digit: "d < 8 \<Longrightarrow> digit_val 8 (char_of (48 + d)) = Some d"
  by (simp add: digit_val_def)

lemma parse_digits_show_oct: "parse_digits 8 0 (show_oct n) = Some n"
proof (induction n rule: show_oct.induct)
  case (1 n)
  show ?case
  proof (cases "n < 8")
    case True
    then show ?thesis by (subst show_oct.simps) (simp add: show_oct_digit)
  next
    case False
    with 1 show ?thesis by (subst show_oct.simps) (simp add: parse_digits_append show_oct_digit)
  qed
qed

lemma length_show_oct: "n < 8 ^ k \<Longrightarrow> 0 < k \<Longrightarrow> length (show_oct n) \<le> k"
proof (induction n arbitrary: k rule: show_oct.induct)
  case (1 n)
  show ?case
  proof (cases "n < 8")
    case False
    obtain j where k: "k = Suc j" using 1(3) by (cases k) simp_all
    have j: "0 < j" using False 1(2) k by (cases j) simp_all
    have "n div 8 < 8 ^ j" using 1(2) k by (intro less_mult_imp_div_less) (simp add: mult.commute)
    then have "length (show_oct (n div 8)) \<le> j" using 1(1) [OF False _ j] by simp
    then show ?thesis using False k by (subst show_oct.simps) simp
  qed (use 1 in \<open>subst show_oct.simps, simp\<close>)
qed

definition octal_digit :: "byte \<Rightarrow> bool" where
  "octal_digit b \<longleftrightarrow> 48 \<le> u8 b \<and> u8 b \<le> 55"

lemma octal_digit_of: "(d :: nat) < 8 \<Longrightarrow> octal_digit (char_of (48 + d))"
  by (simp add: octal_digit_def)

lemma show_oct_digits: "list_all octal_digit (show_oct n)"
proof (induction n rule: show_oct.induct)
  case (1 n)
  then show ?case by (subst show_oct.simps) (simp add: octal_digit_of)
qed

lemma show_oct_not_Nil [simp]: "show_oct n \<noteq> []"
  by (subst show_oct.simps) simp

definition octal_text :: "nat \<Rightarrow> nat \<Rightarrow> str" where
  "octal_text k n = pad_left CHR ''0'' k (show_oct n)"

lemma octal_text_digits: "list_all octal_digit (octal_text k n)"
proof -
  have "octal_digit CHR ''0''" by (simp add: octal_digit_def)
  then show ?thesis using show_oct_digits [of n] by (auto simp: octal_text_def pad_left_def list_all_iff)
qed

lemma octal_text_length: "n < 8 ^ k \<Longrightarrow> 0 < k \<Longrightarrow> length (octal_text k n) = k"
  using length_show_oct by (simp add: octal_text_def pad_left_def)

lemma parse_zeros: "parse_digits 8 0 (replicate j CHR ''0'' @ ds) = parse_digits 8 0 ds"
  by (induction j) (simp_all add: digit_val_def)

lemma parse_octal_text: "parse_digits 8 0 (octal_text k n) = Some n"
  by (simp add: octal_text_def pad_left_def parse_zeros parse_digits_show_oct)

lemma utf8_valid_ascii: "list_all (\<lambda>b. u8 b < 128) bs \<Longrightarrow> utf8_valid bs"
proof (induction bs)
  case (Cons b bs)
  have "utf8_step ([b] @ bs) = (length [b], True)" using Cons.prems by (simp add: utf8_step_1 [unfolded One_nat_def] byte_at_def)
  then show ?case using utf8_valid_unit [of bs "[b]"] Cons by simp
qed simp

lemma dropWhile_head: "xs \<noteq> [] \<Longrightarrow> \<not> P (hd xs) \<Longrightarrow> dropWhile P xs = xs"
  by (cases xs) simp_all

lemma tar_read_octal_text:
  assumes "n < 8 ^ k" "0 < k" "n < 2 ^ 64" "list_all tar_pad_char z" "list_all (\<lambda>b. u8 b < 128) z"
  shows "tar_read_octal (octal_text k n @ z) = n"
proof -
  let ?d = "octal_text k n"
  have ne: "?d \<noteq> []" using octal_text_length [OF assms(1,2)] assms(2) by auto
  have dig: "octal_digit b" if "b \<in> set ?d" for b using octal_text_digits that by (auto simp: list_all_iff)
  have no_pad: "\<not> tar_pad_char b" if "octal_digit b" for b using that by (auto simp: octal_digit_def tar_pad_char_def)
  have "utf8_valid (?d @ z)"
    using octal_text_digits [of k n] assms(5) by (intro utf8_valid_ascii) (auto simp: list_all_iff octal_digit_def)
  then have l: "from_utf8_lossy (?d @ z) = ?d @ z" by (rule from_utf8_lossy_valid)
  have f: "dropWhile tar_pad_char (?d @ z) = ?d @ z"
    using ne no_pad [OF dig [OF hd_in_set [OF ne]]] by (intro dropWhile_head) simp_all
  have "dropWhile tar_pad_char (rev z @ rev ?d) = dropWhile tar_pad_char (rev ?d)"
    using assms(4) by (intro dropWhile_append2) (auto simp: list_all_iff)
  also have "\<dots> = rev ?d" using ne no_pad [OF dig [OF last_in_set [OF ne]]] by (intro dropWhile_head) (simp_all add: hd_rev)
  finally have b: "rev (dropWhile tar_pad_char (rev z @ rev ?d)) = ?d" by simp
  have "(case ?d of b # bs \<Rightarrow> if b = CHR ''+'' \<and> bs \<noteq> [] then bs else ?d | [] \<Rightarrow> []) = ?d"
    using ne dig [of "hd ?d"] by (cases ?d) (auto simp: octal_digit_def)
  then have "parse_unsigned 64 8 ?d = Some n" using ne assms(3) by (simp add: parse_unsigned_def parse_octal_text)
  then show ?thesis by (simp add: tar_read_octal_def l f b)
qed

section \<open>The layout of a header\<close>

definition tar_field :: "nat \<Rightarrow> byte list \<Rightarrow> byte list" where
  "tar_field w bs = take w bs @ replicate (w - length bs) (CHR 0x00)"

definition filled :: "byte list \<Rightarrow> byte list \<Rightarrow> bool" where
  "filled h A \<longleftrightarrow> length A \<le> TAR_BLOCK \<and> h = A @ replicate (TAR_BLOCK - length A) (CHR 0x00)"

lemma length_tar_field [simp]: "length (tar_field w bs) = w"
  by (simp add: tar_field_def min_def)

lemma filled_put:
  assumes "filled h A" "length A + w \<le> TAR_BLOCK"
  shows "filled (tar_put h (length A) w bs) (A @ tar_field w bs)"
proof -
  define n where "n = min (length bs) w"
  have "h = A @ replicate (TAR_BLOCK - length A) (CHR 0x00)" using assms(1) by (simp add: filled_def)
  then have "tar_put h (length A) w bs = A @ take n bs @ replicate (TAR_BLOCK - length A - n) (CHR 0x00)"
    by (simp add: tar_put_def n_def Let_def)
  moreover have "take n bs = take w bs" by (simp add: n_def min_def)
  moreover have "TAR_BLOCK - length A - n = (w - length bs) + (TAR_BLOCK - (length A + w))" using assms(2) by (simp add: n_def)
  ultimately have "tar_put h (length A) w bs
      = (A @ tar_field w bs) @ replicate (TAR_BLOCK - length (A @ tar_field w bs)) (CHR 0x00)"
    by (simp add: tar_field_def replicate_add [symmetric])
  then show ?thesis using assms(2) by (simp add: filled_def)
qed

lemma filled_skip: "filled h A \<Longrightarrow> length A + g \<le> TAR_BLOCK \<Longrightarrow> filled h (A @ replicate g (CHR 0x00))"
  by (auto simp: filled_def replicate_add [symmetric])

lemma filled_put_at: "filled h A \<Longrightarrow> length A = at \<Longrightarrow> at + w \<le> TAR_BLOCK \<Longrightarrow> filled (tar_put h at w bs) (A @ tar_field w bs)"
  using filled_put by blast

lemma tar_field_exact: "length bs = w \<Longrightarrow> tar_field w bs = bs"
  by (simp add: tar_field_def)

lemma filled_octal:
  assumes "filled h A" "length A = at" "at + Suc k \<le> TAR_BLOCK" "n < 8 ^ k" "0 < k"
  shows "filled (tar_put_octal h at (Suc k) n) (A @ octal_text k n @ [CHR 0x00])"
proof -
  note l = octal_text_length [OF assms(4,5)]
  have "filled (tar_put h at k (octal_text k n)) (A @ octal_text k n)"
    using filled_put_at [OF assms(1,2), of k "octal_text k n"] assms(3) l by (simp add: tar_field_exact)
  from filled_skip [OF this, of 1] show ?thesis using assms(2,3) l by (simp add: tar_put_octal_def octal_text_def)
qed

text \<open>What a header of ustar holds, field by field.\<close>

definition header_fits :: "metadata \<Rightarrow> nat \<Rightarrow> bool" where
  "header_fits m sz \<longleftrightarrow> unat (m_uid m) < 8 ^ 7 \<and> unat (m_gid m) < 8 ^ 7 \<and> sz < 8 ^ 11 \<and> 0 \<le> m_mtime m \<and> nat (m_mtime m) < 8 ^ 11"

definition header_front :: "str \<Rightarrow> metadata \<Rightarrow> nat \<Rightarrow> byte list" where
  "header_front nm m sz = tar_field 100 (snd (tar_split_name nm)) @ (octal_text 7 (unat (m_mode m AND o7777)) @ [CHR 0x00])
     @ (octal_text 7 (unat (m_uid m)) @ [CHR 0x00]) @ (octal_text 7 (unat (m_gid m)) @ [CHR 0x00])
     @ (octal_text 11 sz @ [CHR 0x00]) @ (octal_text 11 (nat (m_mtime m)) @ [CHR 0x00])"

definition header_back :: "str \<Rightarrow> str \<Rightarrow> metadata \<Rightarrow> byte \<Rightarrow> byte list" where
  "header_back nm link m flag = [flag] @ tar_field 100 link @ (''ustar'' @ [CHR 0x00]) @ ''00'' @ tar_field 32 (uid_name (m_uid m))
     @ tar_field 32 (gid_name (m_gid m)) @ replicate 16 (CHR 0x00) @ tar_field 155 (fst (tar_split_name nm)) @ replicate 12 (CHR 0x00)"

lemma mode_fits: "unat (m AND o7777 :: u32) < 8 ^ 7"
proof -
  have "m AND o7777 \<le> o7777" by (rule word_and_le1)
  then have "unat (m AND o7777) \<le> unat o7777" by (simp add: word_le_nat_alt)
  then show ?thesis by simp
qed

lemma length_header_front: "header_fits m sz \<Longrightarrow> length (header_front nm m sz) = 148"
  using mode_fits [of "m_mode m"] by (simp add: header_front_def header_fits_def octal_text_length)

lemma length_header_back [simp]: "length (header_back nm link m flag) = 356"
  by (simp add: header_back_def)

lemma header_front_filled:
  assumes "header_fits m sz"
  shows "filled (tar_put_octal (tar_put_octal (tar_put_octal (tar_put_octal (tar_put_octal
      (tar_put (replicate TAR_BLOCK (CHR 0x00)) 0 100 (snd (tar_split_name nm))) 100 8 (unat (m_mode m AND o7777))) 108 8 (unat (m_uid m)))
      116 8 (unat (m_gid m))) 124 12 sz) 136 12 (nat (max (m_mtime m) 0))) (header_front nm m sz)"
proof -
  note fit = assms [unfolded header_fits_def] mode_fits [of "m_mode m"]
  have "filled (replicate TAR_BLOCK (CHR 0x00)) []" by (simp add: filled_def)
  from filled_put_at [OF this, of 0 100 "snd (tar_split_name nm)"]
  have 1: "filled (tar_put (replicate TAR_BLOCK (CHR 0x00)) 0 100 (snd (tar_split_name nm))) (tar_field 100 (snd (tar_split_name nm)))"
    by (simp add: TAR_BLOCK_def)
  note 2 = filled_octal [OF 1, where at = 100 and k = 7 and n = "unat (m_mode m AND o7777)"]
  note 3 = filled_octal [OF 2, where at = 108 and k = 7 and n = "unat (m_uid m)"]
  note 4 = filled_octal [OF 3, where at = 116 and k = 7 and n = "unat (m_gid m)"]
  note 5 = filled_octal [OF 4, where at = 124 and k = 11 and n = sz]
  note 6 = filled_octal [OF 5, where at = 136 and k = 11 and n = "nat (m_mtime m)"]
  show ?thesis using 6 fit by (simp add: octal_text_length TAR_BLOCK_def header_front_def max_absorb1)
qed

lemma header_blank_layout:
  assumes "header_fits m sz"
  shows "tar_header_blank nm link m flag sz = header_front nm m sz @ replicate 8 CHR '' '' @ header_back nm link m flag"
proof -
  note l = length_header_front [OF assms, of nm]
  note 0 = filled_put_at [OF header_front_filled [OF assms, of nm], where at = 148 and w = 8 and bs = "replicate 8 CHR '' ''"]
  note 1 = filled_put_at [OF 0, where at = 156 and w = 1 and bs = "[flag]"]
  note 2 = filled_put_at [OF 1, where at = 157 and w = 100 and bs = link]
  note 3 = filled_put_at [OF 2, where at = 257 and w = 6 and bs = "''ustar'' @ [CHR 0x00]"]
  note 4 = filled_put_at [OF 3, where at = 263 and w = 2 and bs = "''00''"]
  note 5 = filled_put_at [OF 4, where at = 265 and w = 32 and bs = "uid_name (m_uid m)"]
  note 6 = filled_put_at [OF 5, where at = 297 and w = 32 and bs = "gid_name (m_gid m)"]
  note 7 = filled_put_at [OF filled_skip [OF 6, of 16], where at = 345 and w = 155 and bs = "fst (tar_split_name nm)"]
  show ?thesis using 7 l
    by (simp add: TAR_BLOCK_def tar_header_blank_def header_back_def case_prod_unfold Let_def filled_def tar_field_exact)
qed

definition header_checksum :: "str \<Rightarrow> str \<Rightarrow> metadata \<Rightarrow> byte \<Rightarrow> nat \<Rightarrow> byte list" where
  "header_checksum nm link m flag sz
     = octal_text 6 (sum_list (map u8 (tar_header_blank nm link m flag sz))) @ [CHR 0x00, CHR '' '']"

lemma sum_u8_le: "sum_list (map u8 bs) \<le> 255 * length bs"
proof (induction bs)
  case (Cons b bs)
  have "u8 b \<le> 255" using nat_of_char_less_256 [of b] by linarith
  then show ?case using Cons by simp
qed simp

lemma header_layout:
  assumes "header_fits m sz"
  shows "tar_write_header nm link m flag sz = header_front nm m sz @ header_checksum nm link m flag sz @ header_back nm link m flag"
    and "length (header_checksum nm link m flag sz) = 8"
proof -
  let ?h = "tar_header_blank nm link m flag sz"
  note lay = header_blank_layout [OF assms, of nm link flag]
  note l = length_header_front [OF assms, of nm]
  have len: "length ?h = 512" using l by (simp add: lay)
  have "sum_list (map u8 ?h) < 8 ^ 6" using sum_u8_le [of ?h] len by simp
  then show c: "length (header_checksum nm link m flag sz) = 8" by (simp add: header_checksum_def octal_text_length)
  have "tar_write_header nm link m flag sz = take 148 ?h @ header_checksum nm link m flag sz @ drop 156 ?h"
    using c by (simp add: tar_write_header_def Let_def tar_put_def header_checksum_def octal_text_def)
  then show "tar_write_header nm link m flag sz = header_front nm m sz @ header_checksum nm link m flag sz @ header_back nm link m flag"
    using l by (simp add: lay)
qed

lemma length_write_header: "header_fits m sz \<Longrightarrow> length (tar_write_header nm link m flag sz) = TAR_BLOCK"
  by (simp add: header_layout length_header_front TAR_BLOCK_def)

section \<open>A header read back\<close>

lemma tar_read_str_field:
  assumes "utf8_valid d" "CHR 0x00 \<notin> set d" "length d \<le> w"
  shows "tar_read_str (tar_field w d) = d"
proof -
  have "takeWhile (\<lambda>b. b \<noteq> CHR 0x00) (tar_field w d) = d"
    using assms(2,3) by (subst tar_field_def, subst takeWhile_append2) (auto simp: takeWhile_replicate)
  then show ?thesis by (simp add: tar_read_str_def from_utf8_lossy_valid assms(1))
qed

text \<open>A name that goes into the two name fields and comes out of them.\<close>

definition tar_storable :: "str \<Rightarrow> bool" where
  "tar_storable nm \<longleftrightarrow> utf8_valid nm \<and> CHR 0x00 \<notin> set nm
     \<and> (length nm \<le> 100
        \<or> hd nm \<noteq> CHR ''/'' \<and> list_ex (\<lambda>i. nm ! i = CHR ''/'' \<and> i \<le> 155 \<and> length nm - (i + 1) \<le> 100) [0..<length nm])"

lemma tar_split_storable:
  assumes "tar_storable nm" and "tar_split_name nm = (p, t)"
  shows "utf8_valid p" "utf8_valid t" "CHR 0x00 \<notin> set p" "CHR 0x00 \<notin> set t" "length p \<le> 155" "length t \<le> 100"
    "(if p = [] then t else p @ ''/'' @ t) = nm"
proof -
  let ?ok = "\<lambda>i. nm ! i = CHR ''/'' \<and> i \<le> 155 \<and> length nm - (i + 1) \<le> 100"
  have "utf8_valid p \<and> utf8_valid t \<and> CHR 0x00 \<notin> set p \<and> CHR 0x00 \<notin> set t \<and> length p \<le> 155 \<and> length t \<le> 100
      \<and> (if p = [] then t else p @ ''/'' @ t) = nm"
  proof (cases "length nm \<le> 100")
    case True
    then show ?thesis using assms by (auto simp: tar_split_name_def tar_storable_def)
  next
    case False
    then have h: "hd nm \<noteq> CHR ''/''" and "filter ?ok [0..<length nm] \<noteq> []"
      using assms(1) by (auto simp: tar_storable_def list_ex_iff filter_empty_conv)
    then obtain i js where i: "filter ?ok [0..<length nm] = i # js" by (cases "filter ?ok [0..<length nm]") auto
    then have "i \<in> set (filter ?ok [0..<length nm])" by simp
    then have ok: "?ok i" "i < length nm" by auto
    have pt: "p = take i nm" "t = drop (Suc i) nm" using assms(2) False i by (auto simp: tar_split_name_def)
    have nm: "nm = p @ CHR ''/'' # t" using id_take_nth_drop [OF ok(2)] ok(1) by (simp add: pt)
    have "p \<noteq> []" using h nm by (cases p) auto
    moreover have "utf8_valid p" "utf8_valid t"
      using utf8_valid_around_ascii [of p "CHR ''/''" t] assms(1) nm by (auto simp: tar_storable_def)
    moreover have "CHR 0x00 \<notin> set p" "CHR 0x00 \<notin> set t" using assms(1) nm by (auto simp: tar_storable_def)
    moreover have "length p \<le> 155" "length t \<le> 100" using ok by (auto simp: pt)
    ultimately show ?thesis using nm by simp
  qed
  then show "utf8_valid p" "utf8_valid t" "CHR 0x00 \<notin> set p" "CHR 0x00 \<notin> set t" "length p \<le> 155" "length t \<le> 100"
    "(if p = [] then t else p @ ''/'' @ t) = nm" by simp_all
qed

lemma tar_read_octal_field: "n < 8 ^ k \<Longrightarrow> 0 < k \<Longrightarrow> n < 2 ^ 64 \<Longrightarrow> tar_read_octal (octal_text k n @ [CHR 0x00]) = n"
  by (rule tar_read_octal_text) (simp_all add: tar_pad_char_def)

text \<open>The entry that stands for a member whose contents begin at \<open>off\<close>.\<close>

definition entry_of :: "str \<Rightarrow> str \<Rightarrow> metadata \<Rightarrow> byte \<Rightarrow> nat \<Rightarrow> nat \<Rightarrow> tar_entry" where
  "entry_of nm link m flag sz off = \<lparr>te_name = nm, te_mode = m_mode m AND o7777, te_uid = m_uid m, te_gid = m_gid m,
     te_size = sz, te_mtime = m_mtime m, te_typeflag = flag, te_link = link, te_offset = off\<rparr>"

definition member_ok :: "str \<Rightarrow> str \<Rightarrow> metadata \<Rightarrow> nat \<Rightarrow> bool" where
  "member_ok nm link m sz \<longleftrightarrow> header_fits m sz \<and> tar_storable nm \<and> utf8_valid link \<and> CHR 0x00 \<notin> set link \<and> length link \<le> 100"

lemma header_slices:
  assumes "header_fits m sz" and h: "h = tar_write_header nm link m flag sz"
  shows "byte_range 0 100 h = tar_field 100 (snd (tar_split_name nm))"
    and "byte_range 100 108 h = octal_text 7 (unat (m_mode m AND o7777)) @ [CHR 0x00]"
    and "byte_range 108 116 h = octal_text 7 (unat (m_uid m)) @ [CHR 0x00]"
    and "byte_range 116 124 h = octal_text 7 (unat (m_gid m)) @ [CHR 0x00]"
    and "byte_range 124 136 h = octal_text 11 sz @ [CHR 0x00]"
    and "byte_range 136 148 h = octal_text 11 (nat (m_mtime m)) @ [CHR 0x00]"
    and "byte_range 157 257 h = tar_field 100 link"
    and "byte_range 257 262 h = ''ustar''"
    and "byte_range 345 500 h = tar_field 155 (fst (tar_split_name nm))"
    and "h ! 156 = flag"
proof -
  note fit = assms(1) [unfolded header_fits_def] mode_fits [of "m_mode m"]
  have len: "length (octal_text 7 (unat (m_mode m AND o7777))) = 7" "length (octal_text 7 (unat (m_uid m))) = 7"
    "length (octal_text 7 (unat (m_gid m))) = 7" "length (octal_text 11 sz) = 11" "length (octal_text 11 (nat (m_mtime m))) = 11"
    using fit by (simp_all add: octal_text_length)
  note lay = header_layout(1) [OF assms(1), of nm link flag, folded h]
  note c = header_layout(2) [OF assms(1), of nm link flag]
  note f = length_header_front [OF assms(1), of nm]
  have ahead: "byte_range a b h = byte_range a b (header_front nm m sz)" if "b \<le> 148" for a b
    using that f by (simp add: lay byte_range_def take_append)
  have behind: "byte_range a b h = byte_range (a - 156) (b - 156) (header_back nm link m flag)" if "156 \<le> a" for a b
    using that f c by (simp add: lay byte_range_def)
  show "byte_range 0 100 h = tar_field 100 (snd (tar_split_name nm))"
    and "byte_range 100 108 h = octal_text 7 (unat (m_mode m AND o7777)) @ [CHR 0x00]"
    and "byte_range 108 116 h = octal_text 7 (unat (m_uid m)) @ [CHR 0x00]"
    and "byte_range 116 124 h = octal_text 7 (unat (m_gid m)) @ [CHR 0x00]"
    and "byte_range 124 136 h = octal_text 11 sz @ [CHR 0x00]"
    and "byte_range 136 148 h = octal_text 11 (nat (m_mtime m)) @ [CHR 0x00]"
    and "byte_range 157 257 h = tar_field 100 link"
    and "byte_range 257 262 h = ''ustar''"
    and "byte_range 345 500 h = tar_field 155 (fst (tar_split_name nm))"
    by (simp_all add: ahead behind, simp_all add: header_front_def header_back_def byte_range_def len)
  show "h ! 156 = flag" using f c by (simp add: lay nth_append header_back_def)
qed

lemma tar_read_header_write:
  assumes "member_ok nm link m sz"
  shows "tar_read_header (tar_write_header nm link m flag sz) off = entry_of nm link m flag sz off"
proof -
  have fits: "header_fits m sz" and nm: "tar_storable nm" and lk: "utf8_valid link" "CHR 0x00 \<notin> set link" "length link \<le> 100"
    using assms by (simp_all add: member_ok_def)
  note fit = fits [unfolded header_fits_def] mode_fits [of "m_mode m"]
  note split = tar_split_storable [OF nm, of "fst (tar_split_name nm)" "snd (tar_split_name nm)", unfolded prod.collapse, OF refl]
  have oct: "tar_read_octal (octal_text 7 (unat (m_mode m AND o7777)) @ [CHR 0x00]) = unat (m_mode m AND o7777)"
    "tar_read_octal (octal_text 7 (unat (m_uid m)) @ [CHR 0x00]) = unat (m_uid m)"
    "tar_read_octal (octal_text 7 (unat (m_gid m)) @ [CHR 0x00]) = unat (m_gid m)"
    "tar_read_octal (octal_text 11 sz @ [CHR 0x00]) = sz"
    "tar_read_octal (octal_text 11 (nat (m_mtime m)) @ [CHR 0x00]) = nat (m_mtime m)"
    using fit by (simp_all add: tar_read_octal_field)
  have str: "tar_read_str (tar_field 155 (fst (tar_split_name nm))) = fst (tar_split_name nm)"
    "tar_read_str (tar_field 100 (snd (tar_split_name nm))) = snd (tar_split_name nm)"
    "tar_read_str (tar_field 100 link) = link"
    using split lk by (simp_all add: tar_read_str_field)
  show ?thesis
    using split(7) fit by (simp add: tar_read_header_def header_slices [OF fits refl] oct str entry_of_def Let_def and.assoc)
qed

section \<open>An archive read back\<close>

datatype tar_member = Plain str metadata "byte list" | Folder str metadata | Link str metadata str

fun member_bytes :: "tar_member \<Rightarrow> byte list" where
  "member_bytes (Plain nm m c) = tar_file nm m c"
| "member_bytes (Folder nm m) = tar_write_header nm [] m CHR ''5'' 0"
| "member_bytes (Link nm m target) = tar_write_header nm target m CHR ''2'' 0"

fun member_contents :: "tar_member \<Rightarrow> byte list" where
  "member_contents (Plain nm m c) = c"
| "member_contents _ = []"

fun member_entry :: "tar_member \<Rightarrow> nat \<Rightarrow> tar_entry" where
  "member_entry (Plain nm m c) off = entry_of nm [] m CHR ''0'' (length c) off"
| "member_entry (Folder nm m) off = entry_of nm [] m CHR ''5'' 0 off"
| "member_entry (Link nm m target) off = entry_of nm target m CHR ''2'' 0 off"

fun member_fits :: "tar_member \<Rightarrow> bool" where
  "member_fits (Plain nm m c) \<longleftrightarrow> member_ok nm [] m (length c)"
| "member_fits (Folder nm m) \<longleftrightarrow> member_ok nm [] m 0"
| "member_fits (Link nm m target) \<longleftrightarrow> member_ok nm target m 0"

fun member_entries :: "nat \<Rightarrow> tar_member list \<Rightarrow> tar_entry list" where
  "member_entries at [] = []"
| "member_entries at (x # xs) = member_entry x (at + TAR_BLOCK) # member_entries (at + length (member_bytes x)) xs"

lemma next_multiple_le: "0 < k \<Longrightarrow> n \<le> next_multiple_of n k"
proof -
  assume k: "0 < k"
  have "(n + (k - 1)) mod k < k" using k by simp
  moreover have "(n + (k - 1)) div k * k + (n + (k - 1)) mod k = n + (k - 1)" by simp
  ultimately show ?thesis using k unfolding next_multiple_of_def by linarith
qed

lemma member_block:
  assumes "member_fits x"
  obtains h where "member_bytes x = h @ member_contents x
      @ replicate (next_multiple_of (length (member_contents x)) TAR_BLOCK - length (member_contents x)) (CHR 0x00)"
    and "length h = TAR_BLOCK" and "byte_range 257 262 h = ''ustar''" and "\<And>off. tar_read_header h off = member_entry x off"
    and "\<And>off. te_size (member_entry x off) = length (member_contents x)"
proof -
  have block: "length (tar_write_header nm l m f sz) = TAR_BLOCK \<and> byte_range 257 262 (tar_write_header nm l m f sz) = ''ustar''
      \<and> (\<forall>off. tar_read_header (tar_write_header nm l m f sz) off = entry_of nm l m f sz off)" if "member_ok nm l m sz" for nm l m f sz
    using that header_slices(8) [OF _ refl, of m sz nm l f]
    by (simp add: tar_read_header_write length_write_header member_ok_def)
  show ?thesis
  proof (cases x)
    case (Plain nm m c)
    then show ?thesis using block [of nm "[]" m "length c" "CHR ''0''"] assms that [of "tar_write_header nm [] m CHR ''0'' (length c)"]
      by (simp add: tar_file_def entry_of_def)
  next
    case (Folder nm m)
    then show ?thesis using block [of nm "[]" m 0 "CHR ''5''"] assms that [of "tar_write_header nm [] m CHR ''5'' 0"]
      by (simp add: entry_of_def next_multiple_of_def TAR_BLOCK_def)
  next
    case (Link nm m target)
    then show ?thesis using block [of nm target m 0 "CHR ''2''"] assms that [of "tar_write_header nm target m CHR ''2'' 0"]
      by (simp add: entry_of_def next_multiple_of_def TAR_BLOCK_def)
  qed
qed

lemma tar_parse_loop_members:
  assumes "list_all member_fits xs" and z: "z = replicate n (CHR 0x00)" "TAR_BLOCK \<le> n"
  shows "tar_parse_loop (pre @ concat (map member_bytes xs) @ z) (length pre) = member_entries (length pre) xs"
  using assms(1)
proof (induction xs arbitrary: pre)
  case Nil
  have "byte_range (length pre) (length pre + TAR_BLOCK) (pre @ z) = replicate TAR_BLOCK (CHR 0x00)"
    using z by (simp add: byte_range_def)
  then show ?case by (subst tar_parse_loop.simps) (simp add: list_all_iff)
next
  case (Cons x xs)
  from Cons.prems have "member_fits x" by simp
  then obtain h where h: "member_bytes x = h @ member_contents x
      @ replicate (next_multiple_of (length (member_contents x)) TAR_BLOCK - length (member_contents x)) (CHR 0x00)"
    "length h = TAR_BLOCK" "byte_range 257 262 h = ''ustar''" "\<And>off. tar_read_header h off = member_entry x off"
    "\<And>off. te_size (member_entry x off) = length (member_contents x)" by (rule member_block) blast
  define dat where "dat = pre @ concat (map member_bytes (x # xs)) @ z"
  have len: "length (member_bytes x) = TAR_BLOCK + next_multiple_of (length (member_contents x)) TAR_BLOCK"
    using next_multiple_le [of TAR_BLOCK "length (member_contents x)"] h(1,2) by (simp add: TAR_BLOCK_def)
  have s: "byte_range (length pre) (length pre + TAR_BLOCK) dat = h" using h(1,2) by (simp add: dat_def byte_range_def)
  have "\<not> list_all (\<lambda>b. b = CHR 0x00) h"
  proof
    assume "list_all (\<lambda>b. b = CHR 0x00) h"
    then have "list_all (\<lambda>b. b = CHR 0x00) (byte_range 257 262 h)"
      unfolding byte_range_def list_all_iff by (meson in_set_dropD in_set_takeD)
    then show False by (simp add: h(3))
  qed
  moreover have "length pre + TAR_BLOCK \<le> length dat" using len by (simp add: dat_def)
  ultimately have "tar_parse_loop dat (length pre)
      = member_entry x (length pre + TAR_BLOCK) # tar_parse_loop dat (length (pre @ member_bytes x))"
    by (subst tar_parse_loop.simps) (simp add: s h(2-5) len Let_def)
  then show ?case using Cons.IH [of "pre @ member_bytes x"] Cons.prems by (simp add: dat_def)
qed

lemma member_entry_offset [simp]: "te_offset (member_entry x off) = off"
  by (cases x) (simp_all add: entry_of_def)

lemma member_entries_contents:
  assumes "list_all member_fits xs"
  shows "list_all2 (\<lambda>x e. e = member_entry x (te_offset e)
           \<and> byte_range (te_offset e) (te_offset e + te_size e) (pre @ concat (map member_bytes xs) @ z) = member_contents x)
         xs (member_entries (length pre) xs)"
  using assms
proof (induction xs arbitrary: pre)
  case (Cons x xs)
  from Cons.prems have "member_fits x" by simp
  then obtain h where h: "member_bytes x = h @ member_contents x
      @ replicate (next_multiple_of (length (member_contents x)) TAR_BLOCK - length (member_contents x)) (CHR 0x00)"
    "length h = TAR_BLOCK" "\<And>off. te_size (member_entry x off) = length (member_contents x)" by (rule member_block) blast
  show ?case using Cons.IH [of "pre @ member_bytes x"] Cons.prems h by (simp add: byte_range_def)
qed simp

definition sample_members :: "tar_member list" where
  "sample_members = [Folder ''d/'' \<lparr>m_mode = 0x41ED, m_uid = 1000, m_gid = 1000, m_mtime = 77\<rparr>,
     Plain ''d/a.sh'' \<lparr>m_mode = 0x81ED, m_uid = 1000, m_gid = 1000, m_mtime = 78\<rparr> ''id'',
     Link ''d/l'' \<lparr>m_mode = 0xA1FF, m_uid = 0, m_gid = 0, m_mtime = 79\<rparr> ''/etc/passwd'']"

lemma sample_members_fit: "list_all member_fits sample_members" "sample_members \<noteq> []"
  by (simp_all add: sample_members_def member_ok_def header_fits_def tar_storable_def utf8_valid_ascii)

section \<open>The property\<close>

text \<open>
  C16: An archive reads back as it was written. For every non-empty list of members that fit the ustar
  fields (name, link target, owner, size and time), the bytes the writer lays out, finished with the
  end marker and the padding, parse into exactly one entry per member, in order, with its name, mode,
  owner, size, time, type and link target, and the bytes at the entry's offset are the member's contents.
\<close>

theorem tar_roundtrip:
  assumes "xs \<noteq> []" "list_all member_fits xs" and "archive = tar_finish (concat (map member_bytes xs))"
  shows "\<exists>es. tar_parse archive = Some es
    \<and> list_all2 (\<lambda>x e. e = member_entry x (te_offset e)
          \<and> byte_range (te_offset e) (te_offset e + te_size e) archive = member_contents x) xs es"
proof -
  obtain n where z: "archive = concat (map member_bytes xs) @ replicate n (CHR 0x00)" "TAR_BLOCK \<le> n"
    using that [of "2 * TAR_BLOCK + (next_multiple_of (length (concat (map member_bytes xs)) + 2 * TAR_BLOCK) TAR_BLOCKING
        - (length (concat (map member_bytes xs)) + 2 * TAR_BLOCK))"]
    by (simp add: assms(3) tar_finish_def Let_def replicate_add)
  obtain x ys where x: "xs = x # ys" using assms(1) by (cases xs) auto
  with assms(2) have "member_fits x" by simp
  then obtain h r where h: "member_bytes x = h @ r" "length h = TAR_BLOCK" "byte_range 257 262 h = ''ustar''" by (rule member_block) blast
  have "byte_range 257 262 archive = ''ustar''" using h by (simp add: z(1) x byte_range_def TAR_BLOCK_def)
  moreover have "TAR_BLOCK \<le> length archive" using z by simp
  ultimately have "tar_parse archive = Some (member_entries 0 xs)"
    using tar_parse_loop_members [OF assms(2) refl z(2), of "[]"] by (simp add: tar_parse_def z(1))
  moreover note member_entries_contents [OF assms(2), of "[]" "replicate n (CHR 0x00)"]
  ultimately show ?thesis by (intro exI [of _ "member_entries 0 xs"]) (simp add: z(1))
qed

theorem tar_roundtrip_witness:
  "sample_members \<noteq> [] \<and> list_all member_fits sample_members
    \<and> (\<exists>es. tar_parse (tar_finish (concat (map member_bytes sample_members))) = Some es
        \<and> length es = 3 \<and> map te_name es = [''d/'', ''d/a.sh'', ''d/l''])"
proof -
  obtain es where es: "tar_parse (tar_finish (concat (map member_bytes sample_members))) = Some es"
      "list_all2 (\<lambda>x e. e = member_entry x (te_offset e)
         \<and> byte_range (te_offset e) (te_offset e + te_size e) (tar_finish (concat (map member_bytes sample_members))) = member_contents x)
       sample_members es"
    using tar_roundtrip [OF sample_members_fit(2,1) refl] by blast
  have "list_all2 (\<lambda>x e. e = member_entry x (te_offset e)) sample_members es" by (rule list_all2_mono [OF es(2)]) simp
  then have names: "map te_name es = [''d/'', ''d/a.sh'', ''d/l'']"
    by (auto simp: sample_members_def list_all2_Cons1 entry_of_def dest!: arg_cong [of _ _ te_name])
  have "length es = 3" using arg_cong [OF names, of length] by simp
  then show ?thesis using sample_members_fit es(1) names by simp
qed

end
