(* ===== verification/Fs_Read.thy ===== *)
theory Fs_Read
  imports Fs_Commands
begin

text \<open>
  The commands of \<open>src/commands/fs.rs\<close> that print files: \<open>pwd\<close>, \<open>cat\<close>, \<open>head\<close>, \<open>tail\<close> and \<open>wc\<close>. They are
  functions of the session that return only a result. A loop over operands is a fold over what has
  been written so far: the output, the diagnostics and the exit status.
\<close>

type_synonym written_so_far = "str \<times> str \<times> int"

definition report_streams :: "written_so_far \<Rightarrow> command_result" where
  "report_streams t = (case t of (out, errs, status) \<Rightarrow> cr_streams out errs status)"

text \<open>A diagnostic, and the status that goes with it.\<close>

definition grumble :: "str \<Rightarrow> int \<Rightarrow> written_so_far \<Rightarrow> written_so_far" where
  "grumble line code t = (case t of (out, errs, _) \<Rightarrow> (out, errs @ line @ [CHR 0x0A], code))"

definition print_out :: "str \<Rightarrow> written_so_far \<Rightarrow> written_so_far" where
  "print_out text t = (case t of (out, errs, status) \<Rightarrow> (out @ text, errs, status))"

definition quoted :: "str \<Rightarrow> str" where
  "quoted path = [CHR 0x27] @ path @ [CHR 0x27]"

section \<open>pwd and cat\<close>

definition cmd_pwd :: "shell \<Rightarrow> str list \<Rightarrow> command_result" where
  "cmd_pwd s args = cr_ok (cwd_path s @ [CHR 0x0A])"

definition cat_one :: "world \<Rightarrow> shell \<Rightarrow> str \<Rightarrow> written_so_far \<Rightarrow> written_so_far" where
  "cat_one w s arg t = (case resolve (sh_vfs s) (sh_cwd s) arg of
      None \<Rightarrow> grumble (''cat: '' @ arg @ '': No such file or directory'') 1 t
    | Some i \<Rightarrow>
        (let n = fnode (sh_vfs s) i in
         if \<not> readable_by (n_meta n) (sh_uid s) (sh_gid s) then grumble (''cat: '' @ arg @ '': Permission denied'') 1 t
         else case file_bytes (w_now w) n of
             Some bytes \<Rightarrow> print_out (from_utf8_lossy bytes) t
           | None \<Rightarrow> if is_dir (n_meta n) then grumble (''cat: '' @ arg @ '': Is a directory'') 1 t else t))"

definition cmd_cat :: "world \<Rightarrow> shell \<Rightarrow> str list \<Rightarrow> command_result" where
  "cmd_cat w s args =
     (if args = [] then cr_ok (case sh_stdin s of Some tx \<Rightarrow> tx | None \<Rightarrow> [])
      else report_streams (fold (cat_one w s) args ([], [], 0)))"

section \<open>head and tail\<close>

definition parse_count :: "str \<Rightarrow> nat option" where
  "parse_count a = (if a = [] \<or> \<not> list_all is_ascii_digit a then None else parse_unsigned 64 10 a)"

definition invalid_count :: "str \<Rightarrow> bool \<Rightarrow> str \<Rightarrow> command_result" where
  "invalid_count cmd by_bytes val =
     cr_err (cmd @ '': invalid number of '' @ (if by_bytes then ''bytes'' else ''lines'') @ '': '' @ quoted val @ [CHR 0x0A]) 1"

text \<open>\<open>str::split_inclusive\<close>: each piece ends with the delimiter, the last one perhaps without.\<close>

fun split_inclusive :: "byte \<Rightarrow> str \<Rightarrow> str list" where
  "split_inclusive d [] = []"
| "split_inclusive d (b # bs) =
     (if b = d then [b] # split_inclusive d bs
      else case split_inclusive d bs of [] \<Rightarrow> [[b]] | l # ls \<Rightarrow> (b # l) # ls)"

definition select_slice :: "byte list \<Rightarrow> nat \<Rightarrow> bool \<Rightarrow> bool \<Rightarrow> str" where
  "select_slice contents cnt by_bytes from_end =
     (if by_bytes then
        from_utf8_lossy (if from_end then drop (length contents - cnt) contents else take cnt contents)
      else (let ls = split_inclusive (CHR 0x0A) (from_utf8_lossy contents)
            in concat (if from_end then drop (length ls - cnt) ls else take cnt ls)))"

fun head_tail_args :: "str \<Rightarrow> str list \<Rightarrow> nat \<times> bool \<times> str list \<Rightarrow> command_result + nat \<times> bool \<times> str list" where
  "head_tail_args cmd [] st = Inr st"
| "head_tail_args cmd (a # as) (cnt, by_bytes, files) =
     (if a = ''-n'' \<or> a = ''-c'' then
        (case as of
           [] \<Rightarrow> Inl (cr_err (cmd @ '': option requires an argument -- '' @ quoted (tl a) @ [CHR 0x0A]) 1)
         | val # rest \<Rightarrow>
             (case parse_count val of
                None \<Rightarrow> Inl (invalid_count cmd (a = ''-c'') val)
              | Some n \<Rightarrow> head_tail_args cmd rest (n, a = ''-c'', files)))
      else if starts_with a ''-n'' \<and> length a > 2 then
        (case parse_count (drop 2 a) of
           None \<Rightarrow> Inl (invalid_count cmd False (drop 2 a))
         | Some n \<Rightarrow> head_tail_args cmd as (n, False, files))
      else if starts_with a ''-c'' \<and> length a > 2 then
        (case parse_count (drop 2 a) of
           None \<Rightarrow> Inl (invalid_count cmd True (drop 2 a))
         | Some n \<Rightarrow> head_tail_args cmd as (n, True, files))
      else if dashed a \<and> list_all is_ascii_digit (tl a) then
        head_tail_args cmd as (case parse_unsigned 64 10 (tl a) of Some n \<Rightarrow> n | None \<Rightarrow> 10, False, files)
      else if dashed a then Inl (cr_err (cmd @ '': invalid option -- '' @ quoted (tl a) @ [CHR 0x0A]) 1)
      else head_tail_args cmd as (cnt, by_bytes, files @ [a]))"

definition head_tail_one ::
  "world \<Rightarrow> shell \<Rightarrow> str \<Rightarrow> bool \<Rightarrow> (byte list \<Rightarrow> str) \<Rightarrow> nat \<times> str \<Rightarrow> written_so_far \<Rightarrow> written_so_far" where
  "head_tail_one w s cmd show_headers select ip t = (case ip of (i, path) \<Rightarrow>
     case resolve (sh_vfs s) (sh_cwd s) path of
       None \<Rightarrow> grumble (cmd @ '': cannot open '' @ quoted path @ '' for reading: No such file or directory'') 1 t
     | Some x \<Rightarrow>
         (let n = fnode (sh_vfs s) x in
          if \<not> readable_by (n_meta n) (sh_uid s) (sh_gid s)
          then grumble (cmd @ '': cannot open '' @ quoted path @ '' for reading: Permission denied'') 1 t
          else case file_bytes (w_now w) n of
              None \<Rightarrow> grumble (cmd @ '': error reading '' @ quoted path @ '': Is a directory'') 1 t
            | Some bytes \<Rightarrow>
                print_out ((if show_headers then (if i > 0 then [CHR 0x0A] else []) @ ''==> '' @ path @ '' <=='' @ [CHR 0x0A] else [])
                  @ select bytes) t))"

definition head_tail :: "world \<Rightarrow> shell \<Rightarrow> str list \<Rightarrow> bool \<Rightarrow> command_result" where
  "head_tail w s args from_end =
     (let cmd = (if from_end then ''tail'' else ''head'') in
      case head_tail_args cmd args (10, False, []) of
        Inl r \<Rightarrow> r
      | Inr (cnt, by_bytes, files) \<Rightarrow>
          if files = [] then
            (case sh_stdin s of
               None \<Rightarrow> cr_empty
             | Some input \<Rightarrow> cr_ok (select_slice input cnt by_bytes from_end))
          else report_streams (fold (head_tail_one w s cmd (length files > 1) (\<lambda>bs. select_slice bs cnt by_bytes from_end))
                 (enumerate 0 files) ([], [], 0)))"

definition cmd_head :: "world \<Rightarrow> shell \<Rightarrow> str list \<Rightarrow> command_result" where
  "cmd_head w s args = head_tail w s args False"

definition cmd_tail :: "world \<Rightarrow> shell \<Rightarrow> str list \<Rightarrow> command_result" where
  "cmd_tail w s args = head_tail w s args True"

section \<open>wc\<close>

text \<open>\<open>str::split_whitespace\<close>: the maximal runs of characters that are not white space.\<close>

fun split_white :: "rchar list \<Rightarrow> rchar list list" where
  "split_white [] = [[]]"
| "split_white (c # cs) = (if is_whitespace c then [] # split_white cs else case split_white cs of [] \<Rightarrow> [[c]] | l # ls \<Rightarrow> (c # l) # ls)"

definition split_whitespace :: "str \<Rightarrow> str list" where
  "split_whitespace tx = map concat (filter (\<lambda>l. l \<noteq> []) (split_white (chars tx)))"

record wc_flags =
  wc_l :: bool
  wc_w :: bool
  wc_c :: bool

fun wc_bundle :: "rchar list \<Rightarrow> wc_flags \<Rightarrow> rchar + wc_flags" where
  "wc_bundle [] fl = Inr fl"
| "wc_bundle (c # cs) fl =
     (if c = ''l'' then wc_bundle cs (fl\<lparr>wc_l := True\<rparr>)
      else if c = ''w'' then wc_bundle cs (fl\<lparr>wc_w := True\<rparr>)
      else if c = ''c'' \<or> c = ''m'' then wc_bundle cs (fl\<lparr>wc_c := True\<rparr>)
      else Inl c)"

fun wc_args :: "str list \<Rightarrow> wc_flags \<times> str list \<Rightarrow> command_result + wc_flags \<times> str list" where
  "wc_args [] st = Inr st"
| "wc_args (a # as) (fl, files) =
     (if bundled a then
        (case wc_bundle (chars (tl a)) fl of
           Inl bad \<Rightarrow> Inl (cr_err (''wc: invalid option -- '' @ quoted bad @ [CHR 0x0A] @ ''Usage: wc [OPTION]... [FILE]...'' @ [CHR 0x0A]) 1)
         | Inr fl' \<Rightarrow> wc_args as (fl', files))
      else wc_args as (fl, files @ [a]))"

definition wc_default :: "wc_flags \<Rightarrow> wc_flags" where
  "wc_default fl = (if wc_l fl \<or> wc_w fl \<or> wc_c fl then fl else \<lparr>wc_l = True, wc_w = True, wc_c = True\<rparr>)"

type_synonym counts = "nat \<times> nat \<times> nat"

definition format_wc :: "counts \<Rightarrow> wc_flags \<Rightarrow> str" where
  "format_wc c fl = (case c of (ls, ws, bs) \<Rightarrow>
     join '' '' ((if wc_l fl then [pad_left CHR '' '' 7 (show_nat ls)] else [])
       @ (if wc_w fl then [pad_left CHR '' '' 7 (show_nat ws)] else [])
       @ (if wc_c fl then [pad_left CHR '' '' 7 (show_nat bs)] else [])))"

text \<open>The counts of a file: lines and words of its text, bytes of its contents.\<close>

definition wc_count :: "byte list \<Rightarrow> counts" where
  "wc_count bytes =
     (let tx = from_utf8_lossy bytes
      in (length (filter (\<lambda>b. b = CHR 0x0A) tx), length (split_whitespace tx), length bytes))"

definition wc_stdin :: "wc_flags \<Rightarrow> str \<Rightarrow> command_result" where
  "wc_stdin fl input =
     (let ls = length (filter (\<lambda>b. b = CHR 0x0A) input); ws = length (split_whitespace input); bs = length input in
      if length (filter id [wc_l fl, wc_w fl, wc_c fl]) = 1
      then cr_ok (show_nat (if wc_l fl then ls else if wc_w fl then ws else bs) @ [CHR 0x0A])
      else cr_ok (format_wc (ls, ws, bs) fl @ [CHR 0x0A]))"

definition add_counts :: "counts \<Rightarrow> counts \<Rightarrow> counts" where
  "add_counts c d = (case c of (a1, a2, a3) \<Rightarrow> case d of (b1, b2, b3) \<Rightarrow> (a1 + b1, a2 + b2, a3 + b3))"

definition wc_one :: "world \<Rightarrow> shell \<Rightarrow> wc_flags \<Rightarrow> str \<Rightarrow> written_so_far \<times> counts \<times> nat \<Rightarrow> written_so_far \<times> counts \<times> nat" where
  "wc_one w s fl path st = (case st of (t, totals, counted) \<Rightarrow>
     let fail = (\<lambda>reason. (grumble (''wc: '' @ path @ '': '' @ reason) 1 t, totals, counted)) in
     case resolve (sh_vfs s) (sh_cwd s) path of
       None \<Rightarrow> fail ''No such file or directory''
     | Some i \<Rightarrow>
         (let n = fnode (sh_vfs s) i in
          if \<not> readable_by (n_meta n) (sh_uid s) (sh_gid s) then fail ''Permission denied''
          else case file_bytes (w_now w) n of
              None \<Rightarrow> fail ''Is a directory''
            | Some bytes \<Rightarrow>
                (print_out (format_wc (wc_count bytes) fl @ '' '' @ path @ [CHR 0x0A]) t, add_counts totals (wc_count bytes), counted + 1)))"

definition cmd_wc :: "world \<Rightarrow> shell \<Rightarrow> str list \<Rightarrow> command_result" where
  "cmd_wc w s args = (case wc_args args (\<lparr>wc_l = False, wc_w = False, wc_c = False\<rparr>, []) of
      Inl r \<Rightarrow> r
    | Inr (fl0, files) \<Rightarrow>
        (let fl = wc_default fl0 in
         if files = [] then (case sh_stdin s of None \<Rightarrow> cr_empty | Some input \<Rightarrow> wc_stdin fl input)
         else case fold (wc_one w s fl) files (([], [], 0), (0, 0, 0), 0) of (t, totals, counted) \<Rightarrow>
           report_streams (if counted > 1 then print_out (format_wc totals fl @ '' total'' @ [CHR 0x0A]) t else t)))"

end
