(* ===== verification/Glob.thy ===== *)
theory Glob
  imports Mimic_Prelude
begin

text \<open>
  The wildcard matcher of \<open>find -name\<close> (\<open>glob_match\<close> of \<open>src/commands/fs.rs\<close>): a loop that remembers only
  the last \<open>*\<close> seen, against the recursive definition of the language of a pattern.
\<close>

section \<open>The loop\<close>

function glob_loop :: "str \<Rightarrow> str \<Rightarrow> nat \<Rightarrow> nat \<Rightarrow> nat option \<Rightarrow> nat \<Rightarrow> bool" where
  "glob_loop p t pi ti star resume =
     (if ti < length t then
        (if pi < length p \<and> (p ! pi = CHR ''?'' \<or> p ! pi = t ! ti) then glob_loop p t (pi + 1) (ti + 1) star resume
         else if pi < length p \<and> p ! pi = CHR ''*'' then glob_loop p t (pi + 1) ti (Some pi) ti
         else case star of
                Some s \<Rightarrow> glob_loop p t (s + 1) (resume + 1) star (resume + 1)
              | None \<Rightarrow> False)
      else dropWhile (\<lambda>b. b = CHR ''*'') (drop pi p) = [])"
  by pat_completeness auto

termination
  by (relation "measures [\<lambda>(p, t, pi, ti, star, resume). length t - min resume ti, \<lambda>(p, t, pi, ti, star, resume). length t - ti,
      \<lambda>(p, t, pi, ti, star, resume). length p - pi]") (auto simp: min_def)

declare glob_loop.simps [simp del]

definition glob_match :: "str \<Rightarrow> str \<Rightarrow> bool" where
  "glob_match pattern text = glob_loop pattern text 0 0 None 0"

section \<open>The language of a pattern\<close>

fun glob :: "str \<Rightarrow> str \<Rightarrow> bool" where
  "glob [] t \<longleftrightarrow> t = []"
| "glob (b # ps) [] \<longleftrightarrow> b = CHR ''*'' \<and> glob ps []"
| "glob (b # ps) (c # cs) \<longleftrightarrow>
     (if b = CHR ''*'' then glob ps (c # cs) \<or> glob (b # ps) cs else (b = CHR ''?'' \<or> b = c) \<and> glob ps cs)"

lemma glob_star: "glob (CHR ''*'' # ps) t \<longleftrightarrow> (\<exists>r \<le> length t. glob ps (drop r t))"
proof (induction t)
  case (Cons c cs)
  have "(\<exists>r \<le> length (c # cs). glob ps (drop r (c # cs))) \<longleftrightarrow> glob ps (c # cs) \<or> (\<exists>r \<le> length cs. glob ps (drop r cs))"
    (is "?L \<longleftrightarrow> ?R")
  proof
    assume ?L
    then obtain r where "r \<le> length (c # cs)" "glob ps (drop r (c # cs))" by blast
    then show ?R by (cases r) auto
  next
    assume ?R
    then show ?L by (auto intro: exI [of _ 0] exI [of _ "Suc _"])
  qed
  then show ?case using Cons by simp
qed simp

lemma glob_empty: "glob ps [] \<longleftrightarrow> dropWhile (\<lambda>b. b = CHR ''*'') ps = []"
  by (induction ps) auto

text \<open>A part of a pattern without a star matches exactly as many bytes as it has.\<close>

definition plain_match :: "str \<Rightarrow> str \<Rightarrow> bool" where
  "plain_match ps t \<longleftrightarrow> list_all2 (\<lambda>b c. b \<noteq> CHR ''*'' \<and> (b = CHR ''?'' \<or> b = c)) ps t"

lemma glob_plain:
  assumes "CHR ''*'' \<notin> set ps"
  shows "glob (ps @ qs) t \<longleftrightarrow> length ps \<le> length t \<and> plain_match ps (take (length ps) t) \<and> glob qs (drop (length ps) t)"
  using assms
proof (induction ps arbitrary: t)
  case (Cons b ps)
  then show ?case by (cases t) (auto simp: plain_match_def)
qed (simp add: plain_match_def)

lemma plain_match_no_star: "plain_match ps t \<Longrightarrow> CHR ''*'' \<notin> set ps"
  unfolding plain_match_def by (induction rule: list_all2_induct) auto

text \<open>A star absorbs what comes before.\<close>

lemma glob_star_drop: "glob (CHR ''*'' # ps) (drop m t) \<Longrightarrow> n \<le> m \<Longrightarrow> n \<le> length t \<Longrightarrow> glob (CHR ''*'' # ps) (drop n t)"
proof -
  assume "glob (CHR ''*'' # ps) (drop m t)" "n \<le> m" "n \<le> length t"
  then obtain r where "r \<le> length (drop m t)" "glob ps (drop (r + m) t)" by (auto simp: glob_star)
  then show ?thesis using \<open>n \<le> m\<close> \<open>n \<le> length t\<close>
    by (cases "m \<le> length t") (auto simp: glob_star intro: exI [of _ "r + m - n"] exI [of _ "length t - n"])
qed

section \<open>What the loop has established\<close>

text \<open>
  Before the first star the pattern so far has matched the text so far. After a star at \<open>s\<close>, the part of
  the pattern behind it has matched the text from \<open>resume\<close> on, and what is left to decide is
  whether the pattern behind the star matches from some place at or after \<open>resume\<close>.
\<close>

definition awaited :: "str \<Rightarrow> str \<Rightarrow> nat \<Rightarrow> nat \<Rightarrow> nat option \<Rightarrow> nat \<Rightarrow> bool" where
  "awaited p t pi ti star resume \<longleftrightarrow> (case star of
      None \<Rightarrow> glob (drop pi p) (drop ti t)
    | Some s \<Rightarrow> \<exists>r. resume \<le> r \<and> r \<le> length t \<and> glob (drop (s + 1) p) (drop r t))"

definition loop_inv :: "str \<Rightarrow> str \<Rightarrow> nat \<Rightarrow> nat \<Rightarrow> nat option \<Rightarrow> nat \<Rightarrow> bool" where
  "loop_inv p t pi ti star resume \<longleftrightarrow> ti \<le> length t \<and> pi \<le> length p \<and> (case star of
      None \<Rightarrow> True
    | Some s \<Rightarrow> s < length p \<and> resume \<le> ti \<and> (\<exists>ps. drop (s + 1) p = ps @ drop pi p \<and> plain_match ps (take (ti - resume) (drop resume t))))"

lemma plain_match_length: "plain_match ps (take k t) \<Longrightarrow> k \<le> length t \<Longrightarrow> length ps = k"
  unfolding plain_match_def by (auto dest: list_all2_lengthD)

text \<open>The attempt under way decides the place \<open>resume\<close>.\<close>

lemma attempt:
  assumes "loop_inv p t pi ti (Some s) resume"
  obtains ps where "drop (s + 1) p = ps @ drop pi p" "length ps = ti - resume" "CHR ''*'' \<notin> set ps" "resume \<le> ti" "ti \<le> length t"
    "glob (drop (s + 1) p) (drop resume t) \<longleftrightarrow> glob (drop pi p) (drop ti t)"
proof -
  obtain ps where ps: "drop (s + 1) p = ps @ drop pi p" "plain_match ps (take (ti - resume) (drop resume t))"
    and le: "resume \<le> ti" "ti \<le> length t" using assms by (auto simp: loop_inv_def)
  have len: "length ps = ti - resume" using plain_match_length [OF ps(2)] le by simp
  note free = plain_match_no_star [OF ps(2)]
  have "glob (drop (s + 1) p) (drop resume t) \<longleftrightarrow> glob (drop pi p) (drop ti t)"
    using glob_plain [OF free, of "drop pi p" "drop resume t"] ps len le by (simp add: diff_le_mono)
  from that [OF ps(1) len free le this] show ?thesis .
qed


section \<open>The loop decides the language\<close>

lemma drop_here: "i < length xs \<Longrightarrow> drop i xs = xs ! i # drop (i + 1) xs"
  by (simp add: Cons_nth_drop_Suc)

lemma advance:
  assumes "loop_inv p t pi ti star resume" "ti < length t" "pi < length p" "p ! pi = CHR ''?'' \<or> p ! pi = t ! ti" "CHR ''*'' \<notin> set t"
  shows "loop_inv p t (pi + 1) (ti + 1) star resume" "awaited p t (pi + 1) (ti + 1) star resume = awaited p t pi ti star resume"
proof -
  have "t ! ti \<noteq> CHR ''*''" using assms(2,5) nth_mem by metis
  then have ns: "p ! pi \<noteq> CHR ''*''" using assms(4) by auto
  show "awaited p t (pi + 1) (ti + 1) star resume = awaited p t pi ti star resume"
    using assms(4) ns drop_here [OF assms(2)] drop_here [OF assms(3)] by (cases star) (simp_all add: awaited_def)
  show "loop_inv p t (pi + 1) (ti + 1) star resume"
  proof (cases star)
    case (Some s)
    obtain ps where ps: "drop (s + 1) p = ps @ drop pi p" "plain_match ps (take (ti - resume) (drop resume t))" and le: "resume \<le> ti"
      using assms(1) Some by (auto simp: loop_inv_def)
    have "take (ti + 1 - resume) (drop resume t) = take (ti - resume) (drop resume t) @ [t ! ti]"
      using le assms(2) by (simp add: Suc_diff_le take_Suc_conv_app_nth)
    then have "plain_match (ps @ [p ! pi]) (take (ti + 1 - resume) (drop resume t))"
      using ps(2) ns assms(4) by (simp add: plain_match_def list_all2_appendI)
    moreover have "drop (s + 1) p = (ps @ [p ! pi]) @ drop (pi + 1) p" using ps(1) drop_here [OF assms(3)] by simp
    ultimately show ?thesis using Some assms le unfolding loop_inv_def by (auto intro!: exI [of _ "ps @ [p ! pi]"])
  qed (use assms(2,3) in \<open>simp add: loop_inv_def\<close>)
qed

lemma at_star:
  assumes "loop_inv p t pi ti star resume" "ti < length t" "pi < length p" "p ! pi = CHR ''*''"
  shows "loop_inv p t (pi + 1) ti (Some pi) ti" "awaited p t (pi + 1) ti (Some pi) ti = awaited p t pi ti star resume"
proof -
  show "loop_inv p t (pi + 1) ti (Some pi) ti"
    using assms(2,3) by (auto simp: loop_inv_def plain_match_def intro: exI [of _ "[]"])
  have new: "awaited p t (pi + 1) ti (Some pi) ti \<longleftrightarrow> glob (drop pi p) (drop ti t)"
  proof
    assume "awaited p t (pi + 1) ti (Some pi) ti"
    then obtain r where "ti \<le> r" "r \<le> length t" "glob (drop (pi + 1) p) (drop r t)" by (auto simp: awaited_def)
    then show "glob (drop pi p) (drop ti t)"
      unfolding drop_here [OF assms(3)] assms(4) glob_star by (intro exI [of _ "r - ti"]) simp
  next
    assume "glob (drop pi p) (drop ti t)"
    then obtain r where "r \<le> length t - ti" "glob (drop (pi + 1) p) (drop (r + ti) t)"
      unfolding drop_here [OF assms(3)] assms(4) glob_star by auto
    then show "awaited p t (pi + 1) ti (Some pi) ti"
      using assms(2) by (simp add: awaited_def) (intro exI [of _ "r + ti"], simp)
  qed
  show "awaited p t (pi + 1) ti (Some pi) ti = awaited p t pi ti star resume"
  proof (cases star)
    case None
    then show ?thesis unfolding new by (simp add: awaited_def)
  next
    case (Some s)
    obtain ps where ps: "drop (s + 1) p = ps @ drop pi p" "length ps = ti - resume" "CHR ''*'' \<notin> set ps" "resume \<le> ti" "ti \<le> length t"
      "glob (drop (s + 1) p) (drop resume t) \<longleftrightarrow> glob (drop pi p) (drop ti t)"
      using attempt [OF assms(1) [unfolded Some]] .
    have "glob (drop pi p) (drop ti t)" if "resume \<le> r" "r \<le> length t" "glob (drop (s + 1) p) (drop r t)" for r
    proof -
      have "glob (drop pi p) (drop (length ps + r) t)" using that(3) glob_plain [OF ps(3), of "drop pi p" "drop r t"] by (simp only: ps(1) drop_drop)
      moreover have "ti \<le> length ps + r" using ps(2,4) that(1) by simp
      ultimately show ?thesis using glob_star_drop ps(5) unfolding drop_here [OF assms(3)] assms(4) by blast
    qed
    then show ?thesis using new Some ps(4,5,6) by (auto simp: awaited_def)
  qed
qed

lemma stuck:
  assumes "loop_inv p t pi ti (Some s) resume" "ti < length t" "\<not> glob (drop pi p) (drop ti t)"
  shows "loop_inv p t (s + 1) (resume + 1) (Some s) (resume + 1)"
    "awaited p t (s + 1) (resume + 1) (Some s) (resume + 1) = awaited p t pi ti (Some s) resume"
proof -
  obtain ps where ps: "drop (s + 1) p = ps @ drop pi p" "resume \<le> ti"
      "glob (drop (s + 1) p) (drop resume t) \<longleftrightarrow> glob (drop pi p) (drop ti t)"
    using attempt [OF assms(1)] .
  show "awaited p t (s + 1) (resume + 1) (Some s) (resume + 1) = awaited p t pi ti (Some s) resume"
    using ps(3) assms(3) by (auto simp: awaited_def Suc_le_eq order_less_le)
  have "s + 1 \<le> length p" using assms(1) by (simp add: loop_inv_def)
  then show "loop_inv p t (s + 1) (resume + 1) (Some s) (resume + 1)"
    using ps(2) assms(2) by (auto simp: loop_inv_def plain_match_def intro: exI [of _ "[]"])
qed

lemma glob_loop_correct:
  "loop_inv p t pi ti star resume \<Longrightarrow> CHR ''*'' \<notin> set t \<Longrightarrow> glob_loop p t pi ti star resume = awaited p t pi ti star resume"
proof (induction p t pi ti star resume rule: glob_loop.induct)
  case (1 p t pi ti star resume)
  note inv = "1.prems"(1) and free = "1.prems"(2)
  show ?case
  proof (cases "ti < length t")
    case False
    then have ti: "ti = length t" using inv by (simp add: loop_inv_def)
    have "awaited p t pi ti star resume \<longleftrightarrow> glob (drop pi p) []"
    proof (cases star)
      case (Some s)
      obtain ps where ps: "drop (s + 1) p = ps @ drop pi p" "length ps = ti - resume" "CHR ''*'' \<notin> set ps" "resume \<le> ti"
        "glob (drop (s + 1) p) (drop resume t) \<longleftrightarrow> glob (drop pi p) (drop ti t)" using attempt [OF inv [unfolded Some]] .
      have "r = resume" if "resume \<le> r" "r \<le> length t" "glob (drop (s + 1) p) (drop r t)" for r
      proof -
        have "length ps \<le> length (drop r t)" using that(3) glob_plain [OF ps(3), of "drop pi p" "drop r t"] by (simp only: ps(1))
        then show ?thesis using that(1,2) ps(2,4) ti by simp
      qed
      then show ?thesis using Some ps(4,5) ti by (auto simp: awaited_def)
    qed (simp add: awaited_def ti)
    then show ?thesis using False by (subst glob_loop.simps) (simp add: glob_empty)
  next
    case ti: True
    consider (adv) "pi < length p" "p ! pi = CHR ''?'' \<or> p ! pi = t ! ti"
      | (star) "pi < length p" "p ! pi = CHR ''*''" "\<not> (pi < length p \<and> (p ! pi = CHR ''?'' \<or> p ! pi = t ! ti))"
      | (off) "\<not> (pi < length p \<and> (p ! pi = CHR ''?'' \<or> p ! pi = t ! ti))" "\<not> (pi < length p \<and> p ! pi = CHR ''*'')" by blast
    then show ?thesis
    proof cases
      case adv
      note a = advance [OF inv ti adv free]
      show ?thesis using "1.IH"(1) [OF ti _ a(1) free] adv a(2) ti by (subst glob_loop.simps) simp
    next
      case star
      note a = at_star [OF inv ti star(1,2)]
      show ?thesis using "1.IH"(2) [OF ti star(3) _ a(1) free] star a(2) ti by (subst glob_loop.simps) simp
    next
      case off
      then have no: "\<not> glob (drop pi p) (drop ti t)"
        using drop_here [OF ti] drop_here [of pi p] inv by (cases "pi < length p") (auto simp: loop_inv_def)
      show ?thesis
      proof (cases star)
        case None
        then show ?thesis using ti off no by (subst glob_loop.simps) (auto simp: awaited_def)
      next
        case (Some s)
        note a = stuck [OF inv [unfolded Some] ti no]
        have "glob_loop p t pi ti star resume = glob_loop p t (s + 1) (resume + 1) star (resume + 1)"
          using ti off Some by (subst glob_loop.simps) auto
        then show ?thesis using "1.IH"(3) [OF ti off Some] a free Some by simp
      qed
    qed
  qed
qed

section \<open>Properties\<close>

text \<open>
  C28: The matcher of \<open>find -name\<close> decides the language of its pattern. For every pattern, and every name
  without a literal asterisk, the loop that remembers one star returns what the recursive definition
  says: \<open>*\<close> stands for any bytes, \<open>?\<close> for one, every other byte for itself.
\<close>

theorem glob_match_correct:
  assumes "CHR ''*'' \<notin> set name"
  shows "glob_match pattern name \<longleftrightarrow> glob pattern name"
  using glob_loop_correct [of pattern name 0 0 None 0] assms by (simp add: glob_match_def loop_inv_def awaited_def)

theorem glob_match_correct_witness:
  "CHR ''*'' \<notin> set ''shadow.bak'' \<and> glob_match ''*a*.b?k'' ''shadow.bak'' \<and> glob ''*a*.b?k'' ''shadow.bak''"
proof -
  have "glob ''*a*.b?k'' ''shadow.bak''" by simp
  then show ?thesis using glob_match_correct [of "''shadow.bak''" "''*a*.b?k''"] by simp
qed

text \<open>A name with an asterisk is another matter: the loop takes a star of the pattern that meets a star of
  the name for a literal and forgets it, so a pattern can fail on a name of its language.\<close>

lemma glob_match_literal_star: "\<not> glob_match ''*b'' ''*ab''" "glob ''*b'' ''*ab''"
  by (simp_all add: glob_match_def glob_loop.simps)

end
