(* ===== verification/Fs_List.thy ===== *)
theory Fs_List
  imports Fs_Read Tar Glob
begin

text \<open>
  The commands of \<open>src/commands/fs.rs\<close> that print what the filesystem holds: \<open>ls\<close>, \<open>stat\<close>, \<open>du\<close> and \<open>find\<close>.
  The walks of \<open>du\<close> and \<open>find\<close> have as much fuel as the arena has nodes. The sizes of \<open>-h\<close> are exact
  rationals: the source divides a 64-bit float by 1024, which loses nothing for sizes below \<open>2 ^ 53\<close>,
  and prints one decimal, rounding half to even.
\<close>

section \<open>Sizes\<close>

text \<open>\<open>div_ceil\<close>\<close>

definition div_ceil :: "nat \<Rightarrow> nat \<Rightarrow> nat" where
  "div_ceil a b = (a + (b - 1)) div b"

definition allocated_kib :: "int \<Rightarrow> node \<Rightarrow> nat" where
  "allocated_kib now n = (case n_kind n of
      File c \<Rightarrow> div_ceil (length c) 4096 * 4
    | DynamicFile gen \<Rightarrow> div_ceil (length (gen now)) 4096 * 4
    | Directory _ \<Rightarrow> 4
    | Symlink _ \<Rightarrow> 0)"

definition UNITS :: "str list" where
  "UNITS = [[], ''K'', ''M'', ''G'', ''T'', ''P'']"

function human_unit :: "nat \<Rightarrow> nat \<Rightarrow> nat" where
  "human_unit bytes unit = (if bytes \<ge> 1024 ^ (unit + 1) \<and> unit < length UNITS - 1 then human_unit bytes (unit + 1) else unit)"
  by pat_completeness auto

termination
  by (relation "measure (\<lambda>(bytes, unit). length UNITS - unit)") (auto simp: UNITS_def)

declare human_unit.simps [simp del]

definition round_half_even :: "nat \<Rightarrow> nat \<Rightarrow> nat" where
  "round_half_even n d = (let q = n div d; r = n mod d in if 2 * r > d \<or> (2 * r = d \<and> odd q) then q + 1 else q)"

definition human_size :: "nat \<Rightarrow> str" where
  "human_size bytes =
     (if bytes < 1024 then show_nat bytes
      else (let unit = human_unit bytes 0; tenths = round_half_even (10 * bytes) (1024 ^ unit)
            in show_nat (tenths div 10) @ ''.'' @ show_nat (tenths mod 10) @ UNITS ! unit))"

section \<open>ls\<close>

record ls_flags =
  lf_all :: bool
  lf_almost_all :: bool
  lf_directory :: bool
  lf_long :: bool
  lf_human :: bool
  lf_one :: bool

fun ls_bundle :: "rchar list \<Rightarrow> ls_flags \<Rightarrow> rchar + ls_flags" where
  "ls_bundle [] fl = Inr fl"
| "ls_bundle (c # cs) fl =
     (if c = ''a'' then ls_bundle cs (fl\<lparr>lf_all := True\<rparr>)
      else if c = ''A'' then ls_bundle cs (fl\<lparr>lf_almost_all := True\<rparr>)
      else if c = ''d'' then ls_bundle cs (fl\<lparr>lf_directory := True\<rparr>)
      else if c = ''l'' then ls_bundle cs (fl\<lparr>lf_long := True\<rparr>)
      else if c = ''h'' then ls_bundle cs (fl\<lparr>lf_human := True\<rparr>)
      else if c = ''1'' then ls_bundle cs (fl\<lparr>lf_one := True\<rparr>)
      else if c \<in> set [''F'', ''C'', ''r'', ''t'', ''R'', ''S''] then ls_bundle cs fl
      else Inl c)"

fun ls_args :: "str list \<Rightarrow> ls_flags \<times> str list \<Rightarrow> command_result + ls_flags \<times> str list" where
  "ls_args [] st = Inr st"
| "ls_args (a # as) (fl, paths) =
     (if bundled a then
        (case ls_bundle (chars (tl a)) fl of
           Inl bad \<Rightarrow> Inl (cr_err (''ls: invalid option -- '' @ quoted bad @ [CHR 0x0A] @ ''Try '' @ quoted ''ls --help''
                        @ '' for more information.'' @ [CHR 0x0A]) 2)
         | Inr fl' \<Rightarrow> ls_args as (fl', paths))
      else if a = ''--all'' then ls_args as (fl\<lparr>lf_all := True\<rparr>, paths)
      else if a = ''--almost-all'' then ls_args as (fl\<lparr>lf_almost_all := True\<rparr>, paths)
      else if a = ''--directory'' then ls_args as (fl\<lparr>lf_directory := True\<rparr>, paths)
      else ls_args as (fl, paths @ [a]))"

definition stat_nlink :: "node \<Rightarrow> nat" where
  "stat_nlink n = (case n_kind n of Directory children \<Rightarrow> length children + 2 | _ \<Rightarrow> 1)"

definition long_entry :: "int \<Rightarrow> node \<Rightarrow> str \<Rightarrow> ls_flags \<Rightarrow> str" where
  "long_entry now n name fl =
     (let sz = node_size now n;
          suffix = (if is_symlink (n_meta n) then (case n_kind n of Symlink target \<Rightarrow> '' -> '' @ target | _ \<Rightarrow> []) else [])
      in mode_string (m_mode (n_meta n)) @ '' '' @ pad_left CHR '' '' 2 (show_nat (stat_nlink n)) @ '' ''
         @ pad_right CHR '' '' 8 (uid_name (m_uid (n_meta n))) @ '' '' @ pad_right CHR '' '' 8 (gid_name (m_gid (n_meta n))) @ '' ''
         @ pad_left CHR '' '' 6 (if lf_human fl then human_size sz else show_nat sz) @ '' ''
         @ format_time now (m_mtime (n_meta n)) @ '' '' @ name @ suffix)"

definition format_single :: "int \<Rightarrow> node \<Rightarrow> str \<Rightarrow> ls_flags \<Rightarrow> str" where
  "format_single now n display fl = (if lf_long fl then long_entry now n display fl else display) @ [CHR 0x0A]"

text \<open>The names a listing shows, with their nodes.\<close>

definition listed :: "vfs \<Rightarrow> node_id \<Rightarrow> ls_flags \<Rightarrow> (str \<times> node_id) list" where
  "listed v dir fl =
     (if lf_all fl then [(''.'', dir), (''..'', case n_parent (fnode v dir) of Some p \<Rightarrow> p | None \<Rightarrow> dir)] else [])
     @ filter (\<lambda>(name, _). \<not> (starts_with name ''.'' \<and> \<not> lf_all fl \<and> \<not> lf_almost_all fl))
         (case entries v dir of Some es \<Rightarrow> es | None \<Rightarrow> [])"

definition list_dir :: "int \<Rightarrow> vfs \<Rightarrow> node_id \<Rightarrow> ls_flags \<Rightarrow> str" where
  "list_dir now v dir fl =
     (let names = listed v dir fl in
      if lf_long fl then
        ''total '' @ show_nat (sum_list (map (\<lambda>(_, i). allocated_kib now (fnode v i)) names)) @ [CHR 0x0A]
        @ concat (map (\<lambda>(name, i). long_entry now (fnode v i) name fl @ [CHR 0x0A]) names)
      else if lf_one fl then concat (map (\<lambda>(name, _). name @ [CHR 0x0A]) names)
      else (let line = join ''  '' (map fst names) in if line = [] then [] else line @ [CHR 0x0A]))"

definition ls_one :: "world \<Rightarrow> shell \<Rightarrow> ls_flags \<Rightarrow> bool \<Rightarrow> str \<Rightarrow> written_so_far \<Rightarrow> written_so_far" where
  "ls_one w s fl multiple path t = (case resolve (sh_vfs s) (sh_cwd s) path of
      None \<Rightarrow> grumble (''ls: cannot access '' @ quoted path @ '': No such file or directory'') 2 t
    | Some target \<Rightarrow>
        (let n = fnode (sh_vfs s) target in
         if lf_directory fl \<or> \<not> is_dir (n_meta n) then print_out (format_single (w_now w) n path fl) t
         else if \<not> readable_by (n_meta n) (sh_uid s) (sh_gid s)
         then grumble (''ls: cannot open directory '' @ quoted path @ '': Permission denied'') 2 t
         else print_out ((if multiple then (if fst t \<noteq> [] then [CHR 0x0A] else []) @ path @ '':'' @ [CHR 0x0A] else [])
                @ list_dir (w_now w) (sh_vfs s) target fl) t))"

definition cmd_ls :: "world \<Rightarrow> shell \<Rightarrow> str list \<Rightarrow> command_result" where
  "cmd_ls w s args =
     (case ls_args args (\<lparr>lf_all = False, lf_almost_all = False, lf_directory = False, lf_long = False, lf_human = False,
          lf_one = \<not> sh_stdout_is_tty s\<rparr>, []) of
        Inl r \<Rightarrow> r
      | Inr (fl, ps) \<Rightarrow>
          (let paths = (if ps = [] then [''.''] else ps)
           in report_streams (fold (ls_one w s fl (length paths > 1)) paths ([], [], 0))))"

section \<open>stat\<close>

definition stat_inode :: "node_id \<Rightarrow> nat" where
  "stat_inode i = i + 2"

definition stat_kind :: "node \<Rightarrow> str" where
  "stat_kind n = (case n_kind n of
      Directory _ \<Rightarrow> ''directory''
    | Symlink _ \<Rightarrow> ''symbolic link''
    | File c \<Rightarrow> if c = [] then ''regular empty file'' else ''regular file''
    | DynamicFile _ \<Rightarrow> ''regular file'')"

definition stat_stamp :: "int \<Rightarrow> str" where
  "stat_stamp ts = clock_format ts ''%Y-%m-%d %H:%M:%S.000000000'' @ '' +0000''"

text \<open>What one escape of a format stands for.\<close>

definition stat_escape :: "int \<Rightarrow> vfs \<Rightarrow> node_id \<Rightarrow> str \<Rightarrow> rchar \<Rightarrow> str" where
  "stat_escape now v i path c =
     (let n = fnode v i; m = n_meta n in
      if c = ''n'' then path
      else if c = ''N'' then quoted path
      else if c = ''s'' then show_nat (node_size now n)
      else if c = ''b'' then show_nat (allocated_kib now n * 2)
      else if c = ''B'' then ''512''
      else if c = ''f'' then show_hex (unat (m_mode m))
      else if c = ''a'' then show_oct (unat (m_mode m AND o7777))
      else if c = ''A'' then mode_string (m_mode m)
      else if c = ''u'' then show_nat (unat (m_uid m))
      else if c = ''U'' then uid_name (m_uid m)
      else if c = ''g'' then show_nat (unat (m_gid m))
      else if c = ''G'' then gid_name (m_gid m)
      else if c = ''i'' then show_nat (stat_inode i)
      else if c = ''h'' then show_nat (stat_nlink n)
      else if c = ''d'' then ''2049''
      else if c = ''D'' then ''801''
      else if c = ''F'' then stat_kind n
      else if c \<in> set [''X'', ''Y'', ''Z'', ''W''] then show_int (m_mtime m)
      else if c \<in> set [''x'', ''y'', ''z''] then stat_stamp (m_mtime m)
      else if c = ''%'' then ''%''
      else ''%'' @ c)"

fun stat_format :: "int \<Rightarrow> vfs \<Rightarrow> node_id \<Rightarrow> str \<Rightarrow> rchar list \<Rightarrow> str" where
  "stat_format now v i path [] = []"
| "stat_format now v i path [c] = c"
| "stat_format now v i path (c # d # cs) =
     (if c = [CHR 0x5C] then
        (if d = ''n'' then [CHR 0x0A] else if d = ''t'' then [CHR 0x09] else d) @ stat_format now v i path cs
      else if c = ''%'' then stat_escape now v i path d @ stat_format now v i path cs
      else c @ stat_format now v i path (d # cs))"

definition stat_terse :: "int \<Rightarrow> vfs \<Rightarrow> node_id \<Rightarrow> str \<Rightarrow> str" where
  "stat_terse now v i path =
     (let n = fnode v i; m = n_meta n; t = show_int (m_mtime m)
      in join '' '' [path, show_nat (node_size now n), show_nat (allocated_kib now n * 2), show_hex (unat (m_mode m)),
           show_nat (unat (m_uid m)), show_nat (unat (m_gid m)), ''801'', show_nat (stat_inode i), show_nat (stat_nlink n),
           ''0'', ''0'', t, t, t, ''0'', ''512''])"

definition stat_long :: "int \<Rightarrow> vfs \<Rightarrow> node_id \<Rightarrow> str \<Rightarrow> str" where
  "stat_long now v i path =
     (let n = fnode v i; m = n_meta n; stamp = stat_stamp (m_mtime m);
          name = quoted path @ (case n_kind n of Symlink target \<Rightarrow> '' -> '' @ quoted target | _ \<Rightarrow> [])
      in ''  File: '' @ name @ [CHR 0x0A]
         @ ''  Size: '' @ pad_right CHR '' '' 15 (show_nat (node_size now n)) @ '' Blocks: ''
         @ pad_right CHR '' '' 10 (show_nat (allocated_kib now n * 2)) @ '' IO Block: 4096   '' @ stat_kind n @ [CHR 0x0A]
         @ ''Device: 801h/2049d'' @ [CHR 0x09] @ ''Inode: '' @ pad_right CHR '' '' 11 (show_nat (stat_inode i))
         @ '' Links: '' @ show_nat (stat_nlink n) @ [CHR 0x0A]
         @ ''Access: ('' @ pad_left CHR ''0'' 4 (show_oct (unat (m_mode m AND o7777))) @ ''/'' @ mode_string (m_mode m)
         @ '')  Uid: ('' @ pad_left CHR '' '' 5 (show_nat (unat (m_uid m))) @ ''/'' @ pad_left CHR '' '' 8 (uid_name (m_uid m))
         @ '')   Gid: ('' @ pad_left CHR '' '' 5 (show_nat (unat (m_gid m))) @ ''/'' @ pad_left CHR '' '' 8 (gid_name (m_gid m))
         @ '')'' @ [CHR 0x0A]
         @ ''Access: '' @ stamp @ [CHR 0x0A] @ ''Modify: '' @ stamp @ [CHR 0x0A] @ ''Change: '' @ stamp @ [CHR 0x0A]
         @ '' Birth: '' @ stamp @ [CHR 0x0A])"

record stat_opts =
  st_format :: "str option"
  st_terse :: bool
  st_operands :: "str list"

fun stat_args :: "str list \<Rightarrow> stat_opts \<Rightarrow> stat_opts" where
  "stat_args [] o1 = o1"
| "stat_args (a # as) o1 =
     (if a \<in> set [''-c'', ''--format'', ''--printf''] then
        (case as of [] \<Rightarrow> o1\<lparr>st_format := None\<rparr> | f # rest \<Rightarrow> stat_args rest (o1\<lparr>st_format := Some f\<rparr>))
      else if a = ''-t'' \<or> a = ''--terse'' then stat_args as (o1\<lparr>st_terse := True\<rparr>)
      else if starts_with a ''-c'' \<and> length a > 2 then stat_args as (o1\<lparr>st_format := Some (drop 2 a)\<rparr>)
      else if starts_with a ''--format='' then stat_args as (o1\<lparr>st_format := Some (drop 9 a)\<rparr>)
      else if dashed a then stat_args as o1
      else stat_args as (o1\<lparr>st_operands := st_operands o1 @ [a]\<rparr>))"

definition stat_one :: "world \<Rightarrow> shell \<Rightarrow> stat_opts \<Rightarrow> str \<Rightarrow> written_so_far \<Rightarrow> written_so_far" where
  "stat_one w s o1 path t = (case resolve (sh_vfs s) (sh_cwd s) path of
      None \<Rightarrow> grumble (''stat: cannot statx '' @ quoted path @ '': No such file or directory'') 1 t
    | Some i \<Rightarrow>
        print_out (case st_format o1 of
            Some f \<Rightarrow> stat_format (w_now w) (sh_vfs s) i path (chars f) @ [CHR 0x0A]
          | None \<Rightarrow> if st_terse o1 then stat_terse (w_now w) (sh_vfs s) i path @ [CHR 0x0A]
                    else stat_long (w_now w) (sh_vfs s) i path) t)"

definition cmd_stat :: "world \<Rightarrow> shell \<Rightarrow> str list \<Rightarrow> command_result" where
  "cmd_stat w s args =
     (let o1 = stat_args args \<lparr>st_format = None, st_terse = False, st_operands = []\<rparr> in
      if st_operands o1 = [] then missing ''stat'' ''missing operand''
      else report_streams (fold (stat_one w s o1) (st_operands o1) ([], [], 0)))"

section \<open>du\<close>

record du_flags =
  du_summarise :: bool
  du_human :: bool
  du_all :: bool
  du_unit :: nat
  du_max_depth :: "nat option"

definition du_bundle :: "rchar \<Rightarrow> du_flags \<Rightarrow> du_flags" where
  "du_bundle c fl =
     (if c = ''s'' then fl\<lparr>du_summarise := True\<rparr>
      else if c = ''h'' then fl\<lparr>du_human := True\<rparr>
      else if c = ''a'' then fl\<lparr>du_all := True\<rparr>
      else if c = ''k'' then fl\<lparr>du_unit := 1024\<rparr>
      else if c = ''m'' then fl\<lparr>du_unit := 1024 * 1024\<rparr>
      else fl)"

fun du_args :: "str list \<Rightarrow> du_flags \<times> str list \<Rightarrow> du_flags \<times> str list" where
  "du_args [] st = st"
| "du_args (a # as) (fl, ops) =
     (if a = ''-d'' \<or> a = ''--max-depth'' then
        (case as of
           [] \<Rightarrow> (fl\<lparr>du_max_depth := None\<rparr>, ops)
         | x # rest \<Rightarrow> du_args rest (fl\<lparr>du_max_depth := parse_unsigned 64 10 x\<rparr>, ops))
      else if a = ''--summarize'' then du_args as (fl\<lparr>du_summarise := True\<rparr>, ops)
      else if a = ''--human-readable'' then du_args as (fl\<lparr>du_human := True\<rparr>, ops)
      else if a = ''--all'' then du_args as (fl\<lparr>du_all := True\<rparr>, ops)
      else if starts_with a ''--max-depth='' then du_args as (fl\<lparr>du_max_depth := parse_unsigned 64 10 (drop 12 a)\<rparr>, ops)
      else if starts_with a ''--'' then du_args as (fl, ops)
      else if dashed a then du_args as (fold du_bundle (chars (tl a)) fl, ops)
      else du_args as (fl, ops @ [a]))"

definition ends_with_slash :: "str \<Rightarrow> bool" where
  "ends_with_slash path \<longleftrightarrow> path \<noteq> [] \<and> last path = CHR ''/''"

definition du_line :: "du_flags \<Rightarrow> nat \<Rightarrow> str \<Rightarrow> str" where
  "du_line fl tot path =
     (if du_human fl then human_size (tot * 1024) else show_nat (tot * 1024 div du_unit fl)) @ [CHR 0x09] @ path @ [CHR 0x0A]"

definition du_visible :: "du_flags \<Rightarrow> nat \<Rightarrow> bool \<Rightarrow> bool" where
  "du_visible fl depth dir =
     (if du_summarise fl then depth = 0
      else \<not> (case du_max_depth fl of Some d \<Rightarrow> depth > d | None \<Rightarrow> False) \<and> (dir \<or> du_all fl))"

primrec du_walk :: "nat \<Rightarrow> int \<Rightarrow> vfs \<Rightarrow> du_flags \<Rightarrow> node_id \<Rightarrow> str \<Rightarrow> nat \<Rightarrow> str \<Rightarrow> (nat \<times> str) option" where
  "du_walk 0 now v fl i path depth out = None"
| "du_walk (Suc k) now v fl i path depth out =
     (let dir = is_dir (n_meta (fnode v i)) in
      Option.bind
        (if dir then
           fold_opt (\<lambda>(name, c) (tot, out).
               map_option (\<lambda>(n, out'). (tot + n, out'))
                 (du_walk k now v fl c (if ends_with_slash path then path @ name else path @ ''/'' @ name) (depth + 1) out))
             (case entries v i of Some es \<Rightarrow> es | None \<Rightarrow> []) (allocated_kib now (fnode v i), out)
         else Some (allocated_kib now (fnode v i), out))
        (\<lambda>(tot, out'). Some (tot, if du_visible fl depth dir then out' @ du_line fl tot path else out')))"

definition du_one :: "world \<Rightarrow> shell \<Rightarrow> du_flags \<Rightarrow> str \<Rightarrow> written_so_far \<Rightarrow> written_so_far option" where
  "du_one w s fl path t = (case resolve (sh_vfs s) (sh_cwd s) path of
      None \<Rightarrow> Some (grumble (''du: cannot access '' @ quoted path @ '': No such file or directory'') 1 t)
    | Some i \<Rightarrow>
        map_option (\<lambda>(_, out). (out, snd t)) (du_walk (fsize (sh_vfs s)) (w_now w) (sh_vfs s) fl i path 0 (fst t)))"

definition cmd_du :: "world \<Rightarrow> shell \<Rightarrow> str list \<Rightarrow> command_result option" where
  "cmd_du w s args =
     (case du_args args (\<lparr>du_summarise = False, du_human = False, du_all = False, du_unit = 1024, du_max_depth = None\<rparr>, []) of
        (fl, ops) \<Rightarrow> map_option report_streams (fold_opt (du_one w s fl) (if ops = [] then [''.''] else ops) ([], [], 0)))"

section \<open>find\<close>

record find_opts =
  fi_start :: str
  fi_name :: "str option"
  fi_type :: "rchar option"
  fi_first :: bool

fun find_args :: "str list \<Rightarrow> find_opts \<Rightarrow> find_opts" where
  "find_args [] o1 = o1"
| "find_args (a # as) o1 =
     (if a = ''-name'' \<or> a = ''-iname'' then
        (case as of [] \<Rightarrow> o1\<lparr>fi_name := None\<rparr> | x # rest \<Rightarrow> find_args rest (o1\<lparr>fi_name := Some x\<rparr>))
      else if a = ''-type'' then
        (case as of [] \<Rightarrow> o1\<lparr>fi_type := None\<rparr>
         | x # rest \<Rightarrow> find_args rest (o1\<lparr>fi_type := (case chars x of [] \<Rightarrow> None | c # _ \<Rightarrow> Some c)\<rparr>))
      else if a = ''-maxdepth'' \<or> a = ''-mindepth'' then (case as of [] \<Rightarrow> o1 | _ # rest \<Rightarrow> find_args rest o1)
      else if fi_first o1 \<and> \<not> starts_with a ''-'' then find_args as (o1\<lparr>fi_start := a, fi_first := False\<rparr>)
      else find_args as o1)"

text \<open>A child's path under a parent's.\<close>

definition child_path :: "str \<Rightarrow> str \<Rightarrow> str" where
  "child_path path name = trim_end_slashes path @ ''/'' @ name"

definition find_shows :: "find_opts \<Rightarrow> node \<Rightarrow> str \<Rightarrow> bool" where
  "find_shows o1 n path \<longleftrightarrow>
     (case fi_type o1 of
        None \<Rightarrow> True
      | Some c \<Rightarrow> if c = ''d'' then is_dir (n_meta n) else if c = ''f'' then \<not> is_dir (n_meta n) else True)
     \<and> (case fi_name o1 of None \<Rightarrow> True | Some p \<Rightarrow> glob_match p (if n_name n = [] then path else n_name n))"

primrec find_walk :: "nat \<Rightarrow> vfs \<Rightarrow> find_opts \<Rightarrow> node_id \<Rightarrow> str \<Rightarrow> str \<Rightarrow> str option" where
  "find_walk 0 v o1 i path out = None"
| "find_walk (Suc k) v o1 i path out =
     (let n = fnode v i; out1 = (if find_shows o1 n path then out @ path @ [CHR 0x0A] else out) in
      if is_dir (n_meta n) then
        fold_opt (\<lambda>(name, c). find_walk k v o1 c (child_path path name)) (case entries v i of Some es \<Rightarrow> es | None \<Rightarrow> []) out1
      else Some out1)"

definition cmd_find :: "shell \<Rightarrow> str list \<Rightarrow> command_result option" where
  "cmd_find s args =
     (let o1 = find_args args \<lparr>fi_start = ''.'', fi_name = None, fi_type = None, fi_first = True\<rparr> in
      case resolve (sh_vfs s) (sh_cwd s) (fi_start o1) of
        None \<Rightarrow> Some (cr_err (''find: '' @ quoted (fi_start o1) @ '': No such file or directory'' @ [CHR 0x0A]) 1)
      | Some root \<Rightarrow> map_option cr_ok (find_walk (fsize (sh_vfs s)) (sh_vfs s) o1 root (fi_start o1) []))"

end
