(* ===== verification/Grep.thy ===== *)
theory Grep
  imports Fs_List
begin

text \<open>
  \<open>grep\<close> of \<open>src/commands/fs.rs\<close>: the literal search over standard input, files and directory trees. The
  lower-casing of Unicode text under \<open>-i\<close> is the argument \<open>lower\<close>.
\<close>

section \<open>Occurrences\<close>

text \<open>
  \<open>str::match_indices\<close>: the places of the non-overlapping occurrences from the left; the empty
  needle occurs at every character boundary.
\<close>

function match_from :: "str \<Rightarrow> str \<Rightarrow> nat \<Rightarrow> nat list" where
  "match_from needle hay i =
     (if needle = [] \<or> i + length needle > length hay then []
      else if starts_with (drop i hay) needle then i # match_from needle hay (i + length needle)
      else match_from needle hay (i + 1))"
  by pat_completeness auto

termination
  by (relation "measure (\<lambda>(needle, hay, i). length hay - i)") (auto simp: not_less neq_Nil_conv)

declare match_from.simps [simp del]

definition match_indices :: "str \<Rightarrow> str \<Rightarrow> nat list" where
  "match_indices hay needle =
     (if needle = [] then filter (boundary hay) [0..<length hay + 1] else match_from needle hay 0)"

definition str_contains :: "str \<Rightarrow> str \<Rightarrow> bool" where
  "str_contains hay needle \<longleftrightarrow> match_indices hay needle \<noteq> []"

definition is_word_char :: "unicode \<Rightarrow> rchar \<Rightarrow> bool" where
  "is_word_char uc c \<longleftrightarrow> char_alphanumeric uc c \<or> c = ''_''"

definition word_match :: "unicode \<Rightarrow> str \<Rightarrow> str \<Rightarrow> bool" where
  "word_match uc hay needle \<longleftrightarrow>
     needle \<noteq> [] \<and>
     list_ex (\<lambda>i. (let cs = chars (take i hay) in cs = [] \<or> \<not> is_word_char uc (last cs))
         \<and> (let cs = chars (drop (i + length needle) hay) in cs = [] \<or> \<not> is_word_char uc (hd cs)))
       (match_indices hay needle)"

section \<open>One text\<close>

record grep_flags =
  gf_ignore_case :: bool
  gf_invert :: bool
  gf_line_numbers :: bool
  gf_count_only :: bool
  gf_show_filename :: bool
  gf_quiet :: bool
  gf_files_with_matches :: bool
  gf_word_regexp :: bool
  gf_only_matching :: bool

definition grep_hit :: "unicode \<Rightarrow> (str \<Rightarrow> str) \<Rightarrow> grep_flags \<Rightarrow> str \<Rightarrow> str \<Rightarrow> bool" where
  "grep_hit uc lower fl needle line =
     (let hay = (if gf_ignore_case fl then lower line else line)
      in if gf_word_regexp fl then word_match uc hay needle else str_contains hay needle)"

text \<open>\<open>str::get\<close>\<close>

definition str_get :: "str \<Rightarrow> nat \<Rightarrow> nat \<Rightarrow> str option" where
  "str_get line a b = (if a \<le> b \<and> b \<le> length line \<and> boundary line a \<and> boundary line b then Some (take (b - a) (drop a line)) else None)"

definition grep_print :: "(str \<Rightarrow> str) \<Rightarrow> grep_flags \<Rightarrow> str \<Rightarrow> str \<Rightarrow> nat \<Rightarrow> str \<Rightarrow> str" where
  "grep_print lower fl path needle i line =
     (if gf_show_filename fl then path @ '':'' else [])
     @ (if gf_line_numbers fl then show_nat (i + 1) @ '':'' else [])
     @ (if gf_only_matching fl \<and> \<not> gf_invert fl then
          concat (map (\<lambda>k. (case str_get line k (k + length needle) of Some m \<Rightarrow> m | None \<Rightarrow> needle) @ [CHR 0x0A])
            (match_indices (if gf_ignore_case fl then lower line else line) needle))
        else line @ [CHR 0x0A])"

text \<open>
  The lines of a text: the number that count as matches, the output, whether anything has matched, and
  whether the search stopped at the first match.
\<close>

fun grep_lines ::
  "unicode \<Rightarrow> (str \<Rightarrow> str) \<Rightarrow> grep_flags \<Rightarrow> str \<Rightarrow> str \<Rightarrow> nat \<Rightarrow> str list \<Rightarrow> nat \<times> str \<times> bool \<Rightarrow> bool \<times> nat \<times> str \<times> bool" where
  "grep_lines uc lower fl path needle i [] st = (False, st)"
| "grep_lines uc lower fl path needle i (line # ls) (cnt, out, any_match) =
     (if grep_hit uc lower fl needle line \<noteq> gf_invert fl then
        (if gf_files_with_matches fl then (True, cnt + 1, out @ path @ [CHR 0x0A], True)
         else if gf_quiet fl then (True, cnt + 1, out, True)
         else grep_lines uc lower fl path needle (i + 1) ls
                (cnt + 1, if gf_count_only fl then out else out @ grep_print lower fl path needle i line, True))
      else grep_lines uc lower fl path needle (i + 1) ls (cnt, out, any_match))"

definition grep_text :: "unicode \<Rightarrow> (str \<Rightarrow> str) \<Rightarrow> grep_flags \<Rightarrow> str \<Rightarrow> str \<Rightarrow> str \<Rightarrow> str \<times> bool \<Rightarrow> str \<times> bool" where
  "grep_text uc lower fl path needle text st = (case st of (out, any_match) \<Rightarrow>
     case grep_lines uc lower fl path needle 0 (lines text) (0, out, any_match) of
       (stopped, cnt, out', any') \<Rightarrow>
         (if \<not> stopped \<and> gf_count_only fl
          then out' @ (if gf_show_filename fl then path @ '':'' else []) @ show_nat cnt @ [CHR 0x0A] else out', any'))"

section \<open>Files and trees\<close>

type_synonym grep_search = "str \<times> str \<times> bool"

definition grep_file :: "world \<Rightarrow> (str \<Rightarrow> str) \<Rightarrow> grep_flags \<Rightarrow> str \<Rightarrow> node \<Rightarrow> str \<Rightarrow> grep_search \<Rightarrow> grep_search" where
  "grep_file w lower fl needle n path st = (case st of (out, errs, any_match) \<Rightarrow>
     case file_bytes (w_now w) n of
       None \<Rightarrow> st
     | Some bytes \<Rightarrow>
         (case grep_text (w_unicode w) lower fl path needle (from_utf8_lossy bytes) (out, any_match) of
            (out', any') \<Rightarrow> (out', errs, any')))"

definition grep_grumble :: "str \<Rightarrow> str \<Rightarrow> grep_search \<Rightarrow> grep_search" where
  "grep_grumble path reason st = (case st of (out, errs, any_match) \<Rightarrow>
     (out, errs @ ''grep: '' @ path @ '': '' @ reason @ [CHR 0x0A], any_match))"

primrec grep_dir :: "nat \<Rightarrow> world \<Rightarrow> shell \<Rightarrow> (str \<Rightarrow> str) \<Rightarrow> grep_flags \<Rightarrow> str \<Rightarrow> node_id \<Rightarrow> str \<Rightarrow> grep_search \<Rightarrow> grep_search option" where
  "grep_dir 0 w s lower fl needle dir path st = None"
| "grep_dir (Suc k) w s lower fl needle dir path st =
     (case entries (sh_vfs s) dir of
        None \<Rightarrow> Some st
      | Some es \<Rightarrow>
          fold_opt (\<lambda>(name, i) st.
              (let n = fnode (sh_vfs s) i; fl' = fl\<lparr>gf_show_filename := True\<rparr> in
               if is_dir (n_meta n) then grep_dir k w s lower fl' needle i (child_path path name) st
               else Some (if readable_by (n_meta n) (sh_uid s) (sh_gid s) then grep_file w lower fl' needle n (child_path path name) st
                          else grep_grumble (child_path path name) ''Permission denied'' st)))
            es st)"

section \<open>The command\<close>

record grep_opts =
  go_flags :: grep_flags
  go_recursive :: bool
  go_suppress_errors :: bool
  go_force_filename :: bool
  go_no_filename :: bool
  go_pattern :: "str option"
  go_paths :: "str list"
  go_expect_pattern :: bool

definition grep_none :: grep_opts where
  "grep_none = \<lparr>go_flags = \<lparr>gf_ignore_case = False, gf_invert = False, gf_line_numbers = False, gf_count_only = False,
       gf_show_filename = False, gf_quiet = False, gf_files_with_matches = False, gf_word_regexp = False, gf_only_matching = False\<rparr>,
     go_recursive = False, go_suppress_errors = False, go_force_filename = False, go_no_filename = False, go_pattern = None,
     go_paths = [], go_expect_pattern = False\<rparr>"

definition grep_long :: "str \<Rightarrow> grep_opts \<Rightarrow> grep_opts" where
  "grep_long a g = (let fl = go_flags g in
     if a = ''--ignore-case'' then g\<lparr>go_flags := fl\<lparr>gf_ignore_case := True\<rparr>\<rparr>
     else if a = ''--invert-match'' then g\<lparr>go_flags := fl\<lparr>gf_invert := True\<rparr>\<rparr>
     else if a = ''--line-number'' then g\<lparr>go_flags := fl\<lparr>gf_line_numbers := True\<rparr>\<rparr>
     else if a = ''--count'' then g\<lparr>go_flags := fl\<lparr>gf_count_only := True\<rparr>\<rparr>
     else if a = ''--quiet'' \<or> a = ''--silent'' then g\<lparr>go_flags := fl\<lparr>gf_quiet := True\<rparr>\<rparr>
     else if a = ''--files-with-matches'' then g\<lparr>go_flags := fl\<lparr>gf_files_with_matches := True\<rparr>\<rparr>
     else if a = ''--word-regexp'' then g\<lparr>go_flags := fl\<lparr>gf_word_regexp := True\<rparr>\<rparr>
     else if a = ''--only-matching'' then g\<lparr>go_flags := fl\<lparr>gf_only_matching := True\<rparr>\<rparr>
     else if a = ''--recursive'' \<or> a = ''--dereference-recursive'' then g\<lparr>go_recursive := True\<rparr>
     else if a = ''--no-messages'' then g\<lparr>go_suppress_errors := True\<rparr>
     else if a = ''--with-filename'' then g\<lparr>go_force_filename := True\<rparr>
     else if a = ''--no-filename'' then g\<lparr>go_no_filename := True\<rparr>
     else g)"

definition grep_short :: "rchar \<Rightarrow> grep_opts \<Rightarrow> grep_opts" where
  "grep_short c g = (let fl = go_flags g in
     if c = ''i'' \<or> c = ''y'' then g\<lparr>go_flags := fl\<lparr>gf_ignore_case := True\<rparr>\<rparr>
     else if c = ''v'' then g\<lparr>go_flags := fl\<lparr>gf_invert := True\<rparr>\<rparr>
     else if c = ''n'' then g\<lparr>go_flags := fl\<lparr>gf_line_numbers := True\<rparr>\<rparr>
     else if c = ''c'' then g\<lparr>go_flags := fl\<lparr>gf_count_only := True\<rparr>\<rparr>
     else if c = ''r'' \<or> c = ''R'' then g\<lparr>go_recursive := True\<rparr>
     else if c = ''q'' then g\<lparr>go_flags := fl\<lparr>gf_quiet := True\<rparr>\<rparr>
     else if c = ''l'' then g\<lparr>go_flags := fl\<lparr>gf_files_with_matches := True\<rparr>\<rparr>
     else if c = ''w'' then g\<lparr>go_flags := fl\<lparr>gf_word_regexp := True\<rparr>\<rparr>
     else if c = ''o'' then g\<lparr>go_flags := fl\<lparr>gf_only_matching := True\<rparr>\<rparr>
     else if c = ''s'' then g\<lparr>go_suppress_errors := True\<rparr>
     else if c = ''H'' then g\<lparr>go_force_filename := True\<rparr>
     else if c = ''h'' then g\<lparr>go_no_filename := True\<rparr>
     else if c = ''e'' then g\<lparr>go_expect_pattern := True\<rparr>
     else g)"

definition grep_arg :: "str \<Rightarrow> grep_opts \<Rightarrow> grep_opts" where
  "grep_arg a g =
     (if go_expect_pattern g then g\<lparr>go_pattern := Some a, go_expect_pattern := False\<rparr>
      else if starts_with a ''--'' then grep_long a g
      else if dashed a then fold grep_short (chars (tl a)) g
      else if go_pattern g = None then g\<lparr>go_pattern := Some a\<rparr>
      else g\<lparr>go_paths := go_paths g @ [a]\<rparr>)"

definition grep_one :: "world \<Rightarrow> shell \<Rightarrow> (str \<Rightarrow> str) \<Rightarrow> bool \<Rightarrow> grep_flags \<Rightarrow> str \<Rightarrow> str \<Rightarrow> grep_search \<Rightarrow> grep_search option" where
  "grep_one w s lower recursive fl needle path st = (case resolve (sh_vfs s) (sh_cwd s) path of
      None \<Rightarrow> Some (grep_grumble path ''No such file or directory'' st)
    | Some i \<Rightarrow>
        (let n = fnode (sh_vfs s) i in
         if is_dir (n_meta n) then
           (if recursive then grep_dir (fsize (sh_vfs s)) w s lower fl needle i path st
            else Some (grep_grumble path ''Is a directory'' st))
         else Some (if \<not> readable_by (n_meta n) (sh_uid s) (sh_gid s) then grep_grumble path ''Permission denied'' st
                    else grep_file w lower fl needle n path st)))"

definition cmd_grep :: "world \<Rightarrow> (str \<Rightarrow> str) \<Rightarrow> shell \<Rightarrow> str list \<Rightarrow> command_result option" where
  "cmd_grep w lower s args =
     (let g = fold grep_arg args grep_none; fl = go_flags g in
      case go_pattern g of
        None \<Rightarrow> Some (cr_err (''Usage: grep [OPTION]... PATTERNS [FILE]...'' @ [CHR 0x0A]) 2)
      | Some pattern \<Rightarrow>
          (let needle = (if gf_ignore_case fl then lower pattern else pattern) in
           if go_paths g = [] then
             Some (case sh_stdin s of
                 None \<Rightarrow> cr_err [] 1
               | Some input \<Rightarrow>
                   (case grep_text (w_unicode w) lower fl ''(standard input)'' needle input ([], False) of
                      (out, any_match) \<Rightarrow>
                        (let shown = (if gf_quiet fl then [] else out)
                         in if any_match then cr_ok shown else cr_err shown 1)))
           else
             (let fl' = fl\<lparr>gf_show_filename := go_force_filename g
                    \<or> (\<not> go_no_filename g \<and> (length (go_paths g) > 1 \<or> go_recursive g \<or> gf_files_with_matches fl))\<rparr>
              in map_option (\<lambda>(out, errs, any_match).
                   cr_streams (if gf_quiet fl then [] else out) (if gf_quiet fl \<or> go_suppress_errors g then [] else errs)
                     (if any_match then 0 else 1))
                   (fold_opt (grep_one w s lower (go_recursive g) fl' needle) (go_paths g) ([], [], False)))))"

end
