(* ===== verification/Read_Secrecy.thy ===== *)
theory Read_Secrecy
  imports Grep Fs_Commands_Props
begin

text \<open>
  What the reading commands reveal. Two filesystems agree for a user when they differ at most in the
  contents of files the user may not read; the commands that print contents cannot tell them apart.
\<close>

section \<open>Agreement\<close>

fun same_shape :: "node_kind \<Rightarrow> node_kind \<Rightarrow> bool" where
  "same_shape (Directory ch) k = (k = Directory ch)"
| "same_shape (Symlink t) k = (k = Symlink t)"
| "same_shape (File c) k = (case k of File _ \<Rightarrow> True | DynamicFile _ \<Rightarrow> True | _ \<Rightarrow> False)"
| "same_shape (DynamicFile gen) k = (case k of File _ \<Rightarrow> True | DynamicFile _ \<Rightarrow> True | _ \<Rightarrow> False)"

definition nodes_agree :: "u32 \<Rightarrow> u32 \<Rightarrow> node \<Rightarrow> node \<Rightarrow> bool" where
  "nodes_agree u g n n' \<longleftrightarrow> n_name n' = n_name n \<and> n_parent n' = n_parent n \<and> n_meta n' = n_meta n
     \<and> same_shape (n_kind n) (n_kind n') \<and> (readable_by (n_meta n) u g \<longrightarrow> n_kind n' = n_kind n)"

definition agree :: "u32 \<Rightarrow> u32 \<Rightarrow> vfs \<Rightarrow> vfs \<Rightarrow> bool" where
  "agree u g v v' \<longleftrightarrow> fs_root v' = fs_root v \<and> list_all2 (nodes_agree u g) (fs_nodes v) (fs_nodes v')"

lemma agreeD:
  assumes "agree u g v v'"
  shows "fs_root v' = fs_root v" "fsize v' = fsize v" "i < fsize v \<Longrightarrow> nodes_agree u g (fnode v i) (fnode v' i)"
  using assms by (auto simp: agree_def list_all2_conv_all_nth)

lemma agree_parent: "agree u g v v' \<Longrightarrow> i < fsize v \<Longrightarrow> parent_or_root v' i = parent_or_root v i"
  using agreeD(1) [of u g v v'] agreeD(3) [of u g v v' i] by (simp add: parent_or_root_def nodes_agree_def split: option.split)

lemma agree_meta: "agree u g v v' \<Longrightarrow> i < fsize v \<Longrightarrow> n_meta (fnode v' i) = n_meta (fnode v i)"
  using agreeD(3) [of u g v v' i] by (simp add: nodes_agree_def)

lemma same_shape_cases:
  "same_shape k k' \<Longrightarrow> (k' = Directory ch) = (k = Directory ch)" "same_shape k k' \<Longrightarrow> (k' = Symlink t) = (k = Symlink t)"
  by (cases k; cases k'; auto)+

lemma agree_kind:
  assumes "agree u g v v'" "i < fsize v"
  shows "(n_kind (fnode v' i) = Directory ch) = (n_kind (fnode v i) = Directory ch)"
    and "(n_kind (fnode v' i) = Symlink t) = (n_kind (fnode v i) = Symlink t)"
  using agreeD(3) [OF assms] same_shape_cases by (auto simp: nodes_agree_def)

lemma agree_child: "agree u g v v' \<Longrightarrow> i < fsize v \<Longrightarrow> child v' i nm = child v i nm"
  using agreeD(3) [of u g v v' i] by (cases "n_kind (fnode v i)") (auto simp: child_def nodes_agree_def split: node_kind.splits)

lemma agree_entries: "agree u g v v' \<Longrightarrow> i < fsize v \<Longrightarrow> entries v' i = entries v i"
  using agreeD(3) [of u g v v' i] by (cases "n_kind (fnode v i)") (auto simp: entries_def nodes_agree_def split: node_kind.splits)

section \<open>Paths resolve alike\<close>

lemma closed_range: "wf_tree v \<Longrightarrow> closed_nodes v (\<lambda>i. i < fsize v)"
  using wf_treeD(1,2) parent_or_root_range child_has_child wf_treeD(7) unfolding closed_nodes_def by metis

lemma resolve_agree_aux:
  "agree u g v v' \<longrightarrow> wf_tree v \<longrightarrow> start < fsize v \<longrightarrow> resolve_inner v' start path depth = resolve_inner v start path depth"
  "agree u g va v' \<longrightarrow> wf_tree va \<longrightarrow> cur < fsize va \<longrightarrow> resolve_comps v' cur segs depth' = resolve_comps va cur segs depth'"
  "agree u g vb v' \<longrightarrow> wf_tree vb \<longrightarrow> i < fsize vb \<longrightarrow> follow v' i depth'' = follow vb i depth''"
proof (induction v start path depth and va cur segs depth' and vb i depth'' rule: resolve_inner_resolve_comps_follow.induct)
  case (1 v start path depth)
  then show ?case using agreeD(1) [of u g v v'] wf_treeD(1,2) [of v] by auto
next
  case (2 v current depth)
  then show ?case by simp
next
  case (3 v current seg segs depth)
  show ?case
  proof (intro impI)
    assume a: "agree u g v v'" and t: "wf_tree v" and cur: "current < fsize v"
    have p: "parent_or_root v current < fsize v" using closed_nodesD(3) [OF closed_range [OF t] cur] .
    show "resolve_comps v' current (seg # segs) depth = resolve_comps v current (seg # segs) depth"
    proof (cases "seg = [] \<or> seg = ''.'' \<or> seg = ''..''")
      case True
      then show ?thesis using "3.IH"(1,2) a t cur p agree_parent [OF a cur] by auto
    next
      case False
      then have step: "resolve_comps x current (seg # segs) depth = (case child x current seg of None \<Rightarrow> None
          | Some c \<Rightarrow> (case follow x c depth of None \<Rightarrow> None | Some next \<Rightarrow> resolve_comps x next segs depth))" for x
        by (simp add: child_def split: node_kind.split option.split)
      show ?thesis
      proof (cases "child v current seg")
        case None
        then show ?thesis unfolding step agree_child [OF a cur] by simp
      next
        case (Some c)
        then have c: "c < fsize v" using closed_nodesD(2) [OF closed_range [OF t] cur] by blast
        obtain ch where ch: "n_kind (fnode v current) = Directory ch" "bt_get ch seg = Some c"
          using Some by (auto simp: child_def split: node_kind.splits)
        have f: "follow v' c depth = follow v c depth" using "3.IH"(3) ch False a t c by auto
        show ?thesis
        proof (cases "follow v c depth")
          case None
          then show ?thesis using f Some unfolding step agree_child [OF a cur] by simp
        next
          case (Some n)
          then have "n < fsize v" using resolve_closed_aux(3) closed_range [OF t] c by blast
          then have "resolve_comps v' n segs depth = resolve_comps v n segs depth" using "3.IH"(4) ch Some False a t by auto
          then show ?thesis using f Some \<open>child v current seg = Some c\<close> unfolding step agree_child [OF a cur] by simp
        qed
      qed
    qed
  qed
next
  case (4 v i depth)
  show ?case
  proof (intro impI)
    assume a: "agree u g v v'" and t: "wf_tree v" and i: "i < fsize v"
    show "follow v' i depth = follow v i depth"
    proof (cases "\<exists>t. n_kind (fnode v i) = Symlink t")
      case True
      then obtain tg where tg: "n_kind (fnode v i) = Symlink tg" by blast
      have "parent_or_root v i < fsize v" using closed_nodesD(3) [OF closed_range [OF t] i] .
      then show ?thesis using "4.IH" [OF tg] a t tg agree_kind(2) [OF a i, of tg] agree_parent [OF a i] by auto
    next
      case False
      then show ?thesis using follow_no_symlink agree_kind(2) [OF a i] by metis
    qed
  qed
qed

lemma resolve_agree: "agree u g v v' \<Longrightarrow> wf_tree v \<Longrightarrow> start < fsize v \<Longrightarrow> resolve v' start path = resolve v start path"
  unfolding resolve_def using resolve_agree_aux(1) by blast

section \<open>The commands\<close>

text \<open>Two sessions of the same user over filesystems that agree for that user.\<close>

definition sessions_agree :: "shell \<Rightarrow> shell \<Rightarrow> bool" where
  "sessions_agree s s' \<longleftrightarrow> s' = s\<lparr>sh_vfs := sh_vfs s'\<rparr> \<and> agree (sh_uid s) (sh_gid s) (sh_vfs s) (sh_vfs s')"

lemma sessions_agree_fields:
  assumes "sessions_agree s s'"
  shows "sh_cwd s' = sh_cwd s" "sh_uid s' = sh_uid s" "sh_gid s' = sh_gid s" "sh_stdin s' = sh_stdin s"
    "agree (sh_uid s) (sh_gid s) (sh_vfs s) (sh_vfs s')"
proof -
  obtain v where v: "s' = s\<lparr>sh_vfs := v\<rparr>" using assms by (auto simp: sessions_agree_def)
  show "sh_cwd s' = sh_cwd s" "sh_uid s' = sh_uid s" "sh_gid s' = sh_gid s" "sh_stdin s' = sh_stdin s" by (simp_all add: v)
  show "agree (sh_uid s) (sh_gid s) (sh_vfs s) (sh_vfs s')" using assms by (simp add: sessions_agree_def)
qed

lemma agree_file_bytes:
  assumes "agree u g v v'" "i < fsize v" "readable_by (n_meta (fnode v i)) u g"
  shows "file_bytes now (fnode v' i) = file_bytes now (fnode v i)"
  using agreeD(3) [OF assms(1,2)] assms(3) by (simp add: nodes_agree_def file_bytes_def)

text \<open>What one operand leads to is the same in both: nothing, or one node with the same metadata and, when
  readable, the same contents.\<close>

lemma operand_agree:
  assumes "session_wf s" "sessions_agree s s'"
  shows "resolve (sh_vfs s') (sh_cwd s) path = resolve (sh_vfs s) (sh_cwd s) path"
    and "resolve (sh_vfs s) (sh_cwd s) path = Some i \<Longrightarrow> n_meta (fnode (sh_vfs s') i) = n_meta (fnode (sh_vfs s) i)"
    and "resolve (sh_vfs s) (sh_cwd s) path = Some i \<Longrightarrow> readable_by (n_meta (fnode (sh_vfs s) i)) (sh_uid s) (sh_gid s) \<Longrightarrow>
      file_bytes now (fnode (sh_vfs s') i) = file_bytes now (fnode (sh_vfs s) i)"
proof -
  note f = sessions_agree_fields [OF assms(2)]
  have wf: "wf_tree (sh_vfs s)" "sh_cwd s < fsize (sh_vfs s)" using assms(1) wf_vfsD(1) by (auto simp: session_wf_def)
  show "resolve (sh_vfs s') (sh_cwd s) path = resolve (sh_vfs s) (sh_cwd s) path" using resolve_agree [OF f(5) wf] .
  show "n_meta (fnode (sh_vfs s') i) = n_meta (fnode (sh_vfs s) i)" if "resolve (sh_vfs s) (sh_cwd s) path = Some i"
    using agree_meta [OF f(5) resolve_session [OF assms(1) that]] .
  show "file_bytes now (fnode (sh_vfs s') i) = file_bytes now (fnode (sh_vfs s) i)"
    if "resolve (sh_vfs s) (sh_cwd s) path = Some i" "readable_by (n_meta (fnode (sh_vfs s) i)) (sh_uid s) (sh_gid s)"
    using agree_file_bytes [OF f(5) resolve_session [OF assms(1) that(1)] that(2)] .
qed

lemma readers_agree:
  assumes "session_wf s" "sessions_agree s s'"
  shows "cat_one w s' arg t = cat_one w s arg t"
    and "head_tail_one w s' cmd sh sel ip t = head_tail_one w s cmd sh sel ip t"
    and "wc_one w s' fl path st = wc_one w s fl path st"
proof -
  note f = sessions_agree_fields [OF assms(2)] and o1 = operand_agree [OF assms]
  show "cat_one w s' arg t = cat_one w s arg t"
    using o1 by (cases "resolve (sh_vfs s) (sh_cwd s) arg") (simp_all add: cat_one_def f Let_def)
  show "head_tail_one w s' cmd sh sel ip t = head_tail_one w s cmd sh sel ip t"
    using o1 by (cases ip; cases "resolve (sh_vfs s) (sh_cwd s) (snd ip)") (simp_all add: head_tail_one_def f Let_def)
  show "wc_one w s' fl path st = wc_one w s fl path st"
    using o1 by (cases st; cases "resolve (sh_vfs s) (sh_cwd s) path") (simp_all add: wc_one_def f Let_def)
qed

lemma fold_opt_cong: "(\<And>x t. x \<in> set xs \<Longrightarrow> f x t = g x t) \<Longrightarrow> fold_opt f xs t = fold_opt g xs t"
proof (induction xs arbitrary: t)
  case (Cons x xs)
  then show ?case by (cases "g x t") simp_all
qed simp

lemma grep_file_agree:
  "file_bytes (w_now w) n' = file_bytes (w_now w) n \<Longrightarrow> grep_file w lower fl needle n' path st = grep_file w lower fl needle n path st"
  by (simp add: grep_file_def)

lemma grep_dir_agree:
  assumes "session_wf s" "sessions_agree s s'"
  shows "dir < fsize (sh_vfs s) \<Longrightarrow> grep_dir k w s' lower fl needle dir path st = grep_dir k w s lower fl needle dir path st"
proof (induction k arbitrary: dir fl path st)
  case (Suc k)
  note f = sessions_agree_fields [OF assms(2)]
  show ?case
  proof (cases "entries (sh_vfs s) dir")
    case None
    then show ?thesis using agree_entries [OF f(5) Suc.prems] by simp
  next
    case (Some es)
    have range: "snd e < fsize (sh_vfs s)" if "e \<in> set es" for e
      using entries_range [OF session_vfs [OF assms(1)] Suc.prems Some, of "fst e" "snd e"] that by simp
    have step: "(case e of (name, i) \<Rightarrow> \<lambda>st.
          (let n = fnode (sh_vfs s') i; fl' = fl\<lparr>gf_show_filename := True\<rparr> in
           if is_dir (n_meta n) then grep_dir k w s' lower fl' needle i (child_path path name) st
           else Some (if readable_by (n_meta n) (sh_uid s') (sh_gid s') then grep_file w lower fl' needle n (child_path path name) st
                      else grep_grumble (child_path path name) ''Permission denied'' st))) st
        = (case e of (name, i) \<Rightarrow> \<lambda>st.
          (let n = fnode (sh_vfs s) i; fl' = fl\<lparr>gf_show_filename := True\<rparr> in
           if is_dir (n_meta n) then grep_dir k w s lower fl' needle i (child_path path name) st
           else Some (if readable_by (n_meta n) (sh_uid s) (sh_gid s) then grep_file w lower fl' needle n (child_path path name) st
                      else grep_grumble (child_path path name) ''Permission denied'' st))) st" if "e \<in> set es" for e st
    proof -
      obtain nm x where e: "e = (nm, x)" by (cases e)
      have x: "x < fsize (sh_vfs s)" using range [OF that] e by simp
      have gf: "grep_file w lower fl needle (fnode (sh_vfs s') x) p st = grep_file w lower fl needle (fnode (sh_vfs s) x) p st"
        if "readable_by (n_meta (fnode (sh_vfs s) x)) (sh_uid s) (sh_gid s)" for fl p st
        using grep_file_agree [OF agree_file_bytes [OF f(5) x that]] .
      show ?thesis using gf Suc.IH [OF x] by (simp add: e Let_def agree_meta [OF f(5) x] f(2,3))
    qed
    show ?thesis using agree_entries [OF f(5) Suc.prems] Some fold_opt_cong [OF step] by simp
  qed
qed simp

lemma grep_one_agree:
  assumes "session_wf s" "sessions_agree s s'"
  shows "grep_one w s' lower rc fl needle path st = grep_one w s lower rc fl needle path st"
proof (cases "resolve (sh_vfs s) (sh_cwd s) path")
  case None
  then show ?thesis by (simp add: grep_one_def operand_agree [OF assms] sessions_agree_fields [OF assms(2)])
next
  case (Some i)
  note f = sessions_agree_fields [OF assms(2)]
  have "fsize (sh_vfs s') = fsize (sh_vfs s)" using agreeD(2) [OF f(5)] .
  moreover have "grep_file w lower fl needle (fnode (sh_vfs s') i) p st = grep_file w lower fl needle (fnode (sh_vfs s) i) p st"
    if "readable_by (n_meta (fnode (sh_vfs s) i)) (sh_uid s) (sh_gid s)" for fl p st
    using grep_file_agree [OF operand_agree(3) [OF assms Some that]] .
  ultimately show ?thesis
    using Some grep_dir_agree [OF assms resolve_session [OF assms(1) Some]] operand_agree(1,2) [OF assms, where path = path]
    by (simp add: grep_one_def Let_def f(1,2,3))
qed

text \<open>The commands that print the contents of files, by the names of their functions.\<close>

definition content_readers :: "str list" where
  "content_readers = [''cat'', ''head'', ''tail'', ''wc'', ''grep'']"

definition content_reader :: "world \<Rightarrow> (str \<Rightarrow> str) \<Rightarrow> str \<Rightarrow> shell \<Rightarrow> str list \<Rightarrow> command_result option" where
  "content_reader w lower f s args =
     (if f = ''cat'' then Some (cmd_cat w s args) else if f = ''head'' then Some (cmd_head w s args)
      else if f = ''tail'' then Some (cmd_tail w s args) else if f = ''wc'' then Some (cmd_wc w s args)
      else if f = ''grep'' then cmd_grep w lower s args else None)"

section \<open>The property\<close>

text \<open>
  C18: The commands that print contents keep what the user may not read. Take two filesystems that agree but
  for the contents of files the user has no permission to read: for any arguments, \<open>cat\<close>, \<open>head\<close>, \<open>tail\<close>,
  \<open>wc\<close> and \<open>grep\<close>, the recursive search included, give the same output, diagnostics and status
  on both, so nothing of those contents shows.
\<close>

theorem unreadable_contents_hidden:
  assumes "f \<in> set content_readers" "session_wf s" "sessions_agree s s'"
  shows "content_reader w lower f s' args = content_reader w lower f s args"
proof -
  note fs = sessions_agree_fields [OF assms(3)]
  have r: "cat_one w s' = cat_one w s" "head_tail_one w s' = head_tail_one w s" "wc_one w s' = wc_one w s"
    by (intro ext readers_agree [OF assms(2,3)])+
  have g: "grep_one w s' = grep_one w s" by (intro ext grep_one_agree [OF assms(2,3)])
  show ?thesis
    unfolding content_reader_def cmd_cat_def cmd_head_def cmd_tail_def head_tail_def cmd_wc_def cmd_grep_def fs(1-4) r g ..
qed

lemma agree_overwritten:
  assumes "i < fsize v" "n_kind (fnode v i) = File c" "\<not> readable_by (n_meta (fnode v i)) u g"
  shows "agree u g v (upd_node v i (\<lambda>n. n\<lparr>n_kind := File d\<rparr>))"
proof -
  have "nodes_agree u g n n" for n by (cases "n_kind n") (simp_all add: nodes_agree_def)
  then show ?thesis using assms by (auto simp: agree_def upd_node_def list_all2_conv_all_nth nth_list_update nodes_agree_def)
qed

definition guest_shell :: shell where
  "guest_shell = sample_file_shell\<lparr>sh_vfs := chmod fx4 2 0x180, sh_uid := 1000, sh_gid := 1000\<rparr>"

definition other_shell :: shell where
  "other_shell = guest_shell\<lparr>sh_vfs := upd_node (chmod fx4 2 0x180) 2 (\<lambda>n. n\<lparr>n_kind := File ''other''\<rparr>)\<rparr>"

lemma guest_files: "session_wf guest_shell" "sessions_agree guest_shell other_shell"
proof -
  have wf: "wf_vfs (chmod fx4 2 0x180)" using wf_chmod [OF fx_wf(1)] by (simp add: fx_sizes)
  then show "session_wf guest_shell"
    using sample_files(1) by (simp add: session_wf_def guest_shell_def sample_file_shell_def sample_shell_def fx_sizes)
  have "n_kind (fnode (chmod fx4 2 0x180) 2) = File ''hello''" "\<not> readable_by (n_meta (fnode (chmod fx4 2 0x180) 2)) 1000 1000"
    by (simp_all add: fx_eval chmod_def readable_by_def S_IFMT_def)
  then have "agree 1000 1000 (chmod fx4 2 0x180) (upd_node (chmod fx4 2 0x180) 2 (\<lambda>n. n\<lparr>n_kind := File ''other''\<rparr>))"
    by (intro agree_overwritten) (simp_all add: fx_sizes)
  then show "sessions_agree guest_shell other_shell" by (simp add: sessions_agree_def other_shell_def guest_shell_def)
qed

theorem unreadable_contents_hidden_witness:
  "session_wf guest_shell \<and> sessions_agree guest_shell other_shell \<and> sh_vfs other_shell \<noteq> sh_vfs guest_shell
    \<and> content_reader sample_world id ''grep'' other_shell [''-r'', ''h'', ''/''] = content_reader sample_world id ''grep'' guest_shell [''-r'', ''h'', ''/'']"
proof -
  have "file_bytes 0 (fnode (sh_vfs other_shell) 2) \<noteq> file_bytes 0 (fnode (sh_vfs guest_shell) 2)"
    by (simp add: other_shell_def guest_shell_def file_bytes_def fx_eval chmod_def)
  then show ?thesis using guest_files unreadable_contents_hidden [OF _ guest_files] by (auto simp: content_readers_def)
qed

end
