(* ===== verification/Walk_Props.thy ===== *)
theory Walk_Props
  imports Fs_List Fs_Commands_Props
begin

text \<open>
  The walks that only read: \<open>du\<close> and \<open>find\<close>. Each visits every node of a subtree once, so \<open>du\<close> adds up
  exactly what the subtree occupies and \<open>find\<close> prints exactly the nodes that satisfy its tests.
\<close>

section \<open>A subtree by its children\<close>

lemma sum_subtree:
  fixes g :: "node_id \<Rightarrow> nat"
  assumes "wf_tree v" "at_depth v i k"
  shows "sum g (subtree v i) = g i + sum_list (map (\<lambda>e. sum g (subtree v (snd e))) (dir_list v i))"
proof -
  let ?cs = "map snd (dir_list v i)"
  note sub = subtree_children [OF assms]
  have fin: "finite (subtree v c)" if "c \<in> set ?cs" for c
    using subtree_children(4) [OF assms(1)] dir_list_depth [OF assms] that by auto
  have "sum g (subtree v i) = g i + sum g (\<Union>c \<in> set ?cs. subtree v c)" using sub(2) fin by (subst sub(1)) (simp add: sum.insert)
  also have "sum g (\<Union>c \<in> set ?cs. subtree v c) = (\<Sum>c \<in> set ?cs. sum g (subtree v c))"
    using sub(3) fin by (intro sum.UNION_disjoint) auto
  also have "\<dots> = sum_list (map (\<lambda>c. sum g (subtree v c)) ?cs)"
    using dir_list_distinct [OF assms(1) at_depth_range [OF assms(2)]] by (simp only: sum_list_distinct_conv_sum_set)
  finally show ?thesis by (simp add: comp_def)
qed

lemma not_dir_no_list: "types_ok v \<Longrightarrow> i < fsize v \<Longrightarrow> \<not> is_dir (n_meta (fnode v i)) \<Longrightarrow> dir_list v i = []"
  using types_okD [of v i] by (auto simp: type_ok_def dir_list_def entries_def split: node_kind.split)

section \<open>du\<close>

lemma du_walk_exact:
  "wf_tree v \<Longrightarrow> types_ok v \<Longrightarrow> at_depth v i k \<Longrightarrow> fsize v \<le> n + k \<Longrightarrow>
   \<exists>out'. du_walk n now v fl i path d out = Some (\<Sum>x \<in> subtree v i. allocated_kib now (fnode v x), out')"
proof (induction n arbitrary: i k path d out)
  case 0
  then show ?case using at_depth_less [OF 0(3)] by simp
next
  case (Suc n)
  let ?g = "\<lambda>x. allocated_kib now (fnode v x)"
  let ?step = "\<lambda>(name, c) (tot, out). map_option (\<lambda>(m, out'). (tot + m, out'))
      (du_walk n now v fl c (if ends_with_slash path then path @ name else path @ ''/'' @ name) (d + 1) out)"
  have kid: "\<exists>out'. du_walk n now v fl c p (d + 1) out = Some (sum ?g (subtree v c), out')"
    if "(nm, c) \<in> set (dir_list v i)" for nm c p out
    using Suc.IH [OF Suc.prems(1,2) dir_list_depth [OF Suc.prems(1,3) that, simplified], of p "d + 1" out] Suc.prems(4) by simp
  have all: "\<exists>out'. fold_opt ?step es (t, out) = Some (t + sum_list (map (\<lambda>e. sum ?g (subtree v (snd e))) es), out')"
    if "set es \<subseteq> set (dir_list v i)" for es t out
    using that
  proof (induction es arbitrary: t out)
    case (Cons e es)
    obtain nm c where e: "e = (nm, c)" by (cases e)
    obtain out1 where "du_walk n now v fl c (if ends_with_slash path then path @ nm else path @ ''/'' @ nm) (d + 1) out
        = Some (sum ?g (subtree v c), out1)" using kid Cons.prems e by fastforce
    then show ?case using Cons.IH [of "t + sum ?g (subtree v c)" out1] Cons.prems by (simp add: e add.assoc)
  qed simp
  have i: "i < fsize v" using at_depth_range [OF Suc.prems(3)] .
  have "\<exists>out'. (if is_dir (n_meta (fnode v i)) then fold_opt ?step (dir_list v i) (?g i, out) else Some (?g i, out))
      = Some (sum ?g (subtree v i), out')"
    using all [OF order_refl, of "?g i" out] not_dir_no_list [OF Suc.prems(2) i] sum_subtree [OF Suc.prems(1,3), of ?g] by auto
  then show ?case by (auto simp: Let_def dir_list_def)
qed

lemma du_walk_silent:
  "du_summarise fl \<Longrightarrow> du_walk n now v fl i path d out = Some (t, out') \<Longrightarrow> out' = (if d = 0 then out @ du_line fl t path else out)"
proof (induction n arbitrary: i path d out t out')
  case (Suc n)
  let ?step = "\<lambda>(name, c) (tot, out). map_option (\<lambda>(m, out'). (tot + m, out'))
      (du_walk n now v fl c (if ends_with_slash path then path @ name else path @ ''/'' @ name) (d + 1) out)"
  have "out2 = out1" if "fold_opt ?step es (t1, out1) = Some (t2, out2)" for es t1 out1 t2 out2
    using that
  proof (induction es arbitrary: t1 out1)
    case (Cons e es)
    obtain nm c where e: "e = (nm, c)" by (cases e)
    with Cons.prems obtain m out3 where "du_walk n now v fl c (if ends_with_slash path then path @ nm else path @ ''/'' @ nm) (d + 1) out1
        = Some (m, out3)" "fold_opt ?step es (t1 + m, out3) = Some (t2, out2)" by (auto simp: Option.bind_eq_Some_conv)
    then show ?case using Suc.IH [OF Suc.prems(1), of _ _ "d + 1" out1] Cons.IH by fastforce
  qed simp
  then show ?case using Suc.prems by (auto simp: Let_def du_visible_def Option.bind_eq_Some_conv split: if_splits)
qed simp

section \<open>find\<close>

definition find_line :: "node_id \<times> str \<Rightarrow> str" where
  "find_line xp = snd xp @ [CHR 0x0A]"

text \<open>
  The path under which a walk that starts at one node, called by one path, comes to another: the names of
  the entries on the way, joined as \<open>find\<close> joins them.
\<close>

inductive spelt :: "vfs \<Rightarrow> node_id \<Rightarrow> str \<Rightarrow> node_id \<Rightarrow> str \<Rightarrow> bool" for v where
  here: "spelt v i path i path"
| below: "(name, c) \<in> set (dir_list v i) \<Longrightarrow> spelt v c (child_path path name) x p \<Longrightarrow> spelt v i path x p"

lemma find_walk_exact:
  "wf_tree v \<Longrightarrow> types_ok v \<Longrightarrow> at_depth v i k \<Longrightarrow> fsize v \<le> n + k \<Longrightarrow>
   \<exists>xs. distinct (map fst xs) \<and> set (map fst xs) = subtree v i \<and> list_all (\<lambda>(x, p). spelt v i path x p) xs
     \<and> find_walk n v o1 i path out = Some (out @ concat (map find_line (filter (\<lambda>(x, p). find_shows o1 (fnode v x) p) xs)))"
proof (induction n arbitrary: i k path out)
  case 0
  then show ?case using at_depth_less [OF 0(3)] by simp
next
  case (Suc n)
  let ?out = "\<lambda>xs. concat (map find_line (filter (\<lambda>(x, p). find_shows o1 (fnode v x) p) xs))"
  let ?step = "\<lambda>(name, c). find_walk n v o1 c (child_path path name)"
  note sub = subtree_children [OF Suc.prems(1,3)]
  have all: "\<exists>xs. distinct (map fst xs) \<and> set (map fst xs) = (\<Union>c \<in> set (map snd es). subtree v c)
      \<and> list_all (\<lambda>(x, p). spelt v i path x p) xs \<and> fold_opt ?step es out = Some (out @ ?out xs)"
    if "set es \<subseteq> set (dir_list v i)" "distinct (map snd es)" for es out
    using that
  proof (induction es arbitrary: out)
    case (Cons e es)
    obtain nm c where e: "e = (nm, c)" by (cases e)
    then have c: "c \<in> set (map snd (dir_list v i))" using Cons.prems(1) by force
    obtain xs where xs: "distinct (map fst xs)" "set (map fst xs) = subtree v c" "list_all (\<lambda>(x, p). spelt v c (child_path path nm) x p) xs"
        "find_walk n v o1 c (child_path path nm) out = Some (out @ ?out xs)"
      using Suc.IH [OF Suc.prems(1,2) dir_list_depth [OF Suc.prems(1,3), of e], of "child_path path nm" out] Cons.prems(1) Suc.prems(4)
      by (auto simp: e)
    obtain ys where ys: "distinct (map fst ys)" "set (map fst ys) = (\<Union>c \<in> set (map snd es). subtree v c)"
        "list_all (\<lambda>(x, p). spelt v i path x p) ys" "fold_opt ?step es (out @ ?out xs) = Some ((out @ ?out xs) @ ?out ys)"
      using Cons.IH [of "out @ ?out xs"] Cons.prems by auto
    have "subtree v c \<inter> subtree v d = {}" if "d \<in> set (map snd es)" for d
      using sub(3) [OF c, of d] that Cons.prems e by auto
    then have "set (map fst xs) \<inter> set (map fst ys) = {}" unfolding xs(2) ys(2) by blast
    moreover have "list_all (\<lambda>(x, p). spelt v i path x p) xs" using xs(3) spelt.below [of nm c v i path] Cons.prems(1) by (auto simp: e list_all_iff)
    ultimately show ?case using xs ys by (intro exI [of _ "xs @ ys"]) (simp add: e)
  qed simp
  have i: "i < fsize v" using at_depth_range [OF Suc.prems(3)] .
  obtain ys where ys: "distinct (map fst ys)" "set (map fst ys) = (\<Union>c \<in> set (map snd (dir_list v i)). subtree v c)"
      "list_all (\<lambda>(x, p). spelt v i path x p) ys" "fold_opt ?step (dir_list v i) (out @ ?out [(i, path)]) = Some ((out @ ?out [(i, path)]) @ ?out ys)"
    using all [OF order_refl dir_list_distinct [OF Suc.prems(1) i], of "out @ ?out [(i, path)]"] by auto
  have "find_walk (Suc n) v o1 i path out = fold_opt ?step (dir_list v i) (out @ ?out [(i, path)])"
    using not_dir_no_list [OF Suc.prems(2) i] by (auto simp: Let_def dir_list_def find_line_def)
  moreover have "i \<notin> set (map fst ys)" unfolding ys(2) using sub(2) by blast
  ultimately show ?case using ys by (intro exI [of _ "(i, path) # ys"]) (simp add: sub(1) spelt.here)
qed

section \<open>Properties\<close>

lemma session_depth:
  assumes "session_wf s" "resolve (sh_vfs s) (sh_cwd s) path = Some i"
  obtains k where "at_depth (sh_vfs s) i k" "wf_tree (sh_vfs s)"
  using wf_treeD(4) [OF _ resolve_session [OF assms]] wf_vfsD(1) [OF session_vfs [OF assms(1)]] by blast

text \<open>
  C30: \<open>du -s\<close> is exact. For a path that names a node of a well-formed session, the command returns and
  prints one line: the sum, over every node in the tree below the path and each counted once, of the
  space the node occupies, in the units the long listing totals, and the path as typed.
\<close>

theorem du_exact:
  assumes "session_wf s" "types_ok (sh_vfs s)" "resolve (sh_vfs s) (sh_cwd s) path = Some i" "\<not> starts_with path ''-''"
  shows "cmd_du w s [''-s'', path] = Some (cr_ok
    (show_nat (\<Sum>x \<in> subtree (sh_vfs s) i. allocated_kib (w_now w) (fnode (sh_vfs s) x)) @ [CHR 0x09] @ path @ [CHR 0x0A]))"
proof -
  let ?fl = "\<lparr>du_summarise = True, du_human = False, du_all = False, du_unit = 1024, du_max_depth = None\<rparr>"
  obtain k where k: "at_depth (sh_vfs s) i k" "wf_tree (sh_vfs s)" using session_depth [OF assms(1,3)] .
  have args: "du_args [''-s'', path] (?fl\<lparr>du_summarise := False\<rparr>, []) = (?fl, [path])"
    using assms(4) by (cases path) (simp_all add: dashed_def starts_with_def du_bundle_def)
  obtain out where out: "du_walk (fsize (sh_vfs s)) (w_now w) (sh_vfs s) ?fl i path 0 []
      = Some (\<Sum>x \<in> subtree (sh_vfs s) i. allocated_kib (w_now w) (fnode (sh_vfs s) x), out)"
    using du_walk_exact [OF k(2) assms(2) k(1), of "fsize (sh_vfs s)"] by fastforce
  then show ?thesis
    using args assms(3) du_walk_silent [OF _ out] by (simp add: cmd_du_def du_one_def report_streams_def du_line_def cr_streams_def cr_ok_def)
qed

theorem du_exact_witness:
  "cmd_du sample_world sample_file_shell [''-s'', ''/''] = Some (cr_ok
    (show_nat (\<Sum>x \<in> subtree fx4 0. allocated_kib (w_now sample_world) (fnode fx4 x)) @ [CHR 0x09] @ ''/'' @ [CHR 0x0A]))"
proof -
  have "resolve fx4 0 ''/'' = Some 0" using wf_treeD(1) [OF fx_wf(2)] by (simp add: resolve_def starts_with_def)
  then show ?thesis using du_exact [OF sample_files(1,2), of "''/''" 0 sample_world] sample_files(3,4) by (simp add: starts_with_def)
qed

text \<open>
  C29: \<open>find\<close> is complete. For any arguments whose start names a node of a well-formed session, the command
  returns and looks at every node of the tree below the start exactly once, under the path
  that joins the start as typed and the names of the entries on the way down, and prints the paths of
  exactly those that satisfy the type and name tests, one per line.
\<close>

theorem find_exact:
  assumes "session_wf s" "types_ok (sh_vfs s)"
    and "find_args args \<lparr>fi_start = ''.'', fi_name = None, fi_type = None, fi_first = True\<rparr> = o1"
    and "resolve (sh_vfs s) (sh_cwd s) (fi_start o1) = Some i"
  shows "\<exists>xs. distinct (map fst xs) \<and> set (map fst xs) = subtree (sh_vfs s) i
    \<and> list_all (\<lambda>(x, p). spelt (sh_vfs s) i (fi_start o1) x p) xs
    \<and> cmd_find s args = Some (cr_ok (concat (map find_line (filter (\<lambda>(x, p). find_shows o1 (fnode (sh_vfs s) x) p) xs))))"
proof -
  obtain k where k: "at_depth (sh_vfs s) i k" "wf_tree (sh_vfs s)" using session_depth [OF assms(1,4)] .
  from find_walk_exact [OF k(2) assms(2) k(1), where n = "fsize (sh_vfs s)" and ?o1.0 = o1 and path = "fi_start o1" and out = "[]"]
  show ?thesis using assms(3,4) by (auto simp: cmd_find_def Let_def)
qed

theorem find_exact_witness:
  "\<exists>xs. distinct (map fst xs) \<and> set (map fst xs) = subtree fx4 0 \<and> list_all (\<lambda>(x, p). spelt fx4 0 ''/'' x p) xs
    \<and> cmd_find sample_file_shell [''/'', ''-name'', ''*n*''] = Some (cr_ok (concat (map find_line
        (filter (\<lambda>(x, p). find_shows \<lparr>fi_start = ''/'', fi_name = Some ''*n*'', fi_type = None, fi_first = False\<rparr> (fnode fx4 x) p) xs))))"
proof -
  have "find_args [''/'', ''-name'', ''*n*''] \<lparr>fi_start = ''.'', fi_name = None, fi_type = None, fi_first = True\<rparr>
      = \<lparr>fi_start = ''/'', fi_name = Some ''*n*'', fi_type = None, fi_first = False\<rparr>" by (simp add: starts_with_def)
  moreover have "resolve fx4 0 ''/'' = Some 0" using wf_treeD(1) [OF fx_wf(2)] by (simp add: resolve_def starts_with_def)
  ultimately show ?thesis using find_exact [OF sample_files(1,2)] sample_files(3,4) by fastforce
qed

end
