(* ===== verification/Grep_Props.thy ===== *)
theory Grep_Props
  imports Grep Walk_Props "HOL-Library.Sublist"
begin

text \<open>
  What \<open>grep\<close> prints: the search for occurrences finds every one that stands anywhere in the line, and
  the loop over the lines prints, counts or names exactly the lines selected.
\<close>

section \<open>Occurrences\<close>

lemma match_from_exists:
  "needle \<noteq> [] \<Longrightarrow> match_from needle hay i \<noteq> [] \<longleftrightarrow> (\<exists>j \<ge> i. starts_with (drop j hay) needle)"
proof (induction needle hay i rule: match_from.induct)
  case (1 needle hay i)
  have short: "j + length needle \<le> length hay" if st: "starts_with (drop j hay) needle" for j
  proof -
    obtain r where "drop j hay = needle @ r" using st unfolding starts_with_iff by blast
    then have "length hay - j = length needle + length r" by (metis length_append length_drop)
    then show ?thesis using 1(3) by (cases "j \<le> length hay") (auto simp: neq_Nil_conv)
  qed
  show ?case
  proof (cases "i + length needle > length hay \<or> starts_with (drop i hay) needle")
    case True
    then show ?thesis using short 1(3) by (subst match_from.simps) fastforce
  next
    case False
    then have "match_from needle hay i = match_from needle hay (i + 1)" using 1(3) by (subst match_from.simps) simp
    moreover have "(\<exists>j \<ge> i + 1. starts_with (drop j hay) needle) \<longleftrightarrow> (\<exists>j \<ge> i. starts_with (drop j hay) needle)"
      using False by (metis Suc_eq_plus1 Suc_leD le_neq_implies_less less_eq_Suc_le)
    ultimately show ?thesis using 1(2) [OF _ _ 1(3)] 1(3) False by simp
  qed
qed

lemma str_contains_iff: "str_contains hay needle \<longleftrightarrow> sublist needle hay"
proof (cases "needle = []")
  case True
  have "0 \<in> set (filter (boundary hay) [0..<length hay + 1])" by (simp add: boundary_def)
  then show ?thesis using True by (auto simp: str_contains_def match_indices_def filter_empty_conv)
next
  case False
  have "(\<exists>j. starts_with (drop j hay) needle) \<longleftrightarrow> (\<exists>a b. hay = a @ needle @ b)"
    by (metis append_eq_conv_conj append_take_drop_id starts_with_iff)
  then show ?thesis using False match_from_exists [OF False, of hay 0] by (simp add: str_contains_def match_indices_def sublist_def)
qed

section \<open>The lines of a text\<close>

lemma grep_lines_selected:
  assumes "\<not> gf_files_with_matches fl" "\<not> gf_quiet fl"
  shows "grep_lines uc lower fl path needle i ls (cnt, out, any_match) =
    (let sel = filter (\<lambda>(k, l). grep_hit uc lower fl needle l \<noteq> gf_invert fl) (enumerate i ls)
     in (False, cnt + length sel, if gf_count_only fl then out else out @ concat (map (\<lambda>(k, l). grep_print lower fl path needle k l) sel),
         any_match \<or> sel \<noteq> []))"
  using assms by (induction ls arbitrary: i cnt out any_match) (simp_all add: Let_def)

lemma grep_lines_first:
  assumes "gf_files_with_matches fl \<or> gf_quiet fl"
  shows "grep_lines uc lower fl path needle i ls (cnt, out, any_match) =
    (if \<exists>l \<in> set ls. grep_hit uc lower fl needle l \<noteq> gf_invert fl
     then (True, cnt + 1, if gf_files_with_matches fl then out @ path @ [CHR 0x0A] else out, True)
     else (False, cnt, out, any_match))"
  using assms by (induction ls arbitrary: i cnt out any_match) auto

lemma enumerate_lines:
  "map snd (filter (\<lambda>(k, l). P l) (enumerate i ls)) = filter P ls"
  by (induction ls arbitrary: i) auto

lemma grep_print_plain:
  "\<not> gf_show_filename fl \<Longrightarrow> \<not> gf_line_numbers fl \<Longrightarrow> \<not> gf_only_matching fl \<Longrightarrow> grep_print lower fl path needle k l = l @ [CHR 0x0A]"
  by (simp add: grep_print_def)

section \<open>The recursive search returns\<close>

lemma fold_opt_some: "(\<And>x st. x \<in> set xs \<Longrightarrow> f x st \<noteq> None) \<Longrightarrow> fold_opt f xs st \<noteq> None"
proof (induction xs arbitrary: st)
  case (Cons x xs)
  obtain t where "f x st = Some t" using Cons.prems [of x st] by auto
  then show ?case using Cons by simp
qed simp

lemma grep_dir_total:
  "wf_tree (sh_vfs s) \<Longrightarrow> at_depth (sh_vfs s) i k \<Longrightarrow> fsize (sh_vfs s) \<le> n + k \<Longrightarrow> grep_dir n w s lower fl needle i path st \<noteq> None"
proof (induction n arbitrary: i k fl path st)
  case 0
  then show ?case using at_depth_less [OF 0(2)] by simp
next
  case (Suc n)
  show ?case
  proof (cases "entries (sh_vfs s) i")
    case (Some es)
    have "grep_dir n w s lower fl' needle (snd e) p st \<noteq> None" if "e \<in> set es" for e fl' p st
      using Suc.IH [OF Suc.prems(1) dir_list_depth [OF Suc.prems(1,2), of e], of fl' p st] that Some Suc.prems(3)
      by (simp add: dir_list_def)
    then show ?thesis unfolding grep_dir.simps Some option.case by (intro fold_opt_some) (simp add: Let_def case_prod_unfold del: not_None_eq)
  qed simp
qed

lemma grep_returns:
  assumes "session_wf s"
  shows "cmd_grep w lower s args \<noteq> None"
proof -
  have one: "grep_one w s lower rc fl needle path st \<noteq> None" for rc fl needle path st
  proof (cases "resolve (sh_vfs s) (sh_cwd s) path")
    case (Some i)
    obtain k where "at_depth (sh_vfs s) i k" "wf_tree (sh_vfs s)" using session_depth [OF assms Some] .
    then show ?thesis using grep_dir_total [of s i k "fsize (sh_vfs s)"] Some by (simp add: grep_one_def Let_def del: not_None_eq)
  qed (simp add: grep_one_def)
  have "fold_opt (grep_one w s lower rc fl needle) ps st \<noteq> None" for rc fl needle ps st
    by (intro fold_opt_some one)
  then show ?thesis by (auto simp: cmd_grep_def Let_def simp del: not_None_eq split: option.split)
qed

section \<open>The property\<close>

definition one_per_line :: "str list \<Rightarrow> str" where
  "one_per_line ls = concat (map (\<lambda>l. l @ [CHR 0x0A]) ls)"

lemma concat_selected: "concat (map (\<lambda>(k, l). l @ [CHR 0x0A]) (filter (\<lambda>(k, l). P l) (enumerate i ls))) = one_per_line (filter P ls)"
  unfolding one_per_line_def enumerate_lines [of P i ls, symmetric] by (simp add: comp_def case_prod_unfold)

lemma no_dash: "\<not> starts_with a ''-'' \<Longrightarrow> \<not> starts_with a ''--'' \<and> \<not> dashed a"
  by (cases a) (auto simp: starts_with_def dashed_def)

lemma grep_arg_operand:
  "\<not> starts_with a ''-'' \<Longrightarrow> \<not> go_expect_pattern g \<Longrightarrow>
   grep_arg a g = (if go_pattern g = None then g\<lparr>go_pattern := Some a\<rparr> else g\<lparr>go_paths := go_paths g @ [a]\<rparr>)"
  using no_dash [of a] by (simp add: grep_arg_def)

lemma grep_one_file:
  assumes "resolve (sh_vfs s) (sh_cwd s) path = Some i" "\<not> is_dir (n_meta (fnode (sh_vfs s) i))"
    and "readable_by (n_meta (fnode (sh_vfs s) i)) (sh_uid s) (sh_gid s)" "file_bytes (w_now w) (fnode (sh_vfs s) i) = Some bytes"
  shows "grep_one w s lower rc fl needle path (out, errs, any_match) =
    Some (case grep_text (w_unicode w) lower fl path needle (from_utf8_lossy bytes) (out, any_match) of (out', any') \<Rightarrow> (out', errs, any'))"
  using assms by (simp add: grep_one_def grep_file_def)

lemma grep_hit_plain: "\<not> gf_ignore_case fl \<Longrightarrow> \<not> gf_word_regexp fl \<Longrightarrow> grep_hit uc lower fl needle l \<longleftrightarrow> sublist needle l"
  by (simp add: grep_hit_def str_contains_iff)

lemma grep_text_selected:
  assumes "\<not> gf_ignore_case fl" "\<not> gf_word_regexp fl" "\<not> gf_show_filename fl" "\<not> gf_line_numbers fl" "\<not> gf_only_matching fl"
    and "\<not> gf_quiet fl" "\<not> gf_files_with_matches fl"
  shows "grep_text uc lower fl path needle text ([], False) =
    (let sel = filter (\<lambda>l. sublist needle l \<noteq> gf_invert fl) (lines text)
     in (if gf_count_only fl then show_nat (length sel) @ [CHR 0x0A] else one_per_line sel, sel \<noteq> []))"
proof -
  let ?P = "\<lambda>l. sublist needle l \<noteq> gf_invert fl" and ?es = "enumerate 0 (lines text)"
  have sel: "map snd (filter (\<lambda>(k, l). ?P l) ?es) = filter ?P (lines text)" by (rule enumerate_lines)
  have "length (filter (\<lambda>(k, l). ?P l) ?es) = length (filter ?P (lines text))" unfolding sel [symmetric] by simp
  moreover have "filter (\<lambda>(k, l). ?P l) ?es = [] \<longleftrightarrow> filter ?P (lines text) = []" unfolding sel [symmetric] by simp
  moreover have "concat (map (\<lambda>(k, l). l @ [CHR 0x0A]) (filter (\<lambda>(k, l). ?P l) ?es)) = one_per_line (filter ?P (lines text))"
    by (rule concat_selected)
  moreover have "(\<lambda>(k, l). grep_print lower fl path needle k l) = (\<lambda>(k, l). l @ [CHR 0x0A])"
    using assms by (simp add: fun_eq_iff grep_print_plain)
  ultimately show ?thesis
    using assms by (simp add: grep_text_def grep_lines_selected grep_hit_plain Let_def)
qed

lemma grep_text_named:
  assumes "\<not> gf_ignore_case fl" "\<not> gf_word_regexp fl" "\<not> gf_invert fl" "\<not> gf_count_only fl" "gf_files_with_matches fl"
  shows "grep_text uc lower fl path needle text ([], False) =
    (let sel = filter (\<lambda>l. sublist needle l) (lines text) in (if sel = [] then [] else path @ [CHR 0x0A], sel \<noteq> []))"
  using assms by (auto simp: grep_text_def grep_lines_first grep_hit_plain Let_def filter_empty_conv)

text \<open>
  C27: \<open>grep\<close> prints exactly the matching lines. For a pattern and a file the user may read, the command prints, in
  order, the lines of the file that contain the pattern as a contiguous substring; with \<open>-v\<close> the lines that do
  not, with \<open>-c\<close> their number and with \<open>-l\<close> the name of the file when there is one; its status is \<open>0\<close>
  exactly when a line is selected.
\<close>

theorem grep_prints_matching:
  assumes "resolve (sh_vfs s) (sh_cwd s) path = Some i" "\<not> is_dir (n_meta (fnode (sh_vfs s) i))"
    and "readable_by (n_meta (fnode (sh_vfs s) i)) (sh_uid s) (sh_gid s)" "file_bytes (w_now w) (fnode (sh_vfs s) i) = Some bytes"
    and "\<not> starts_with pattern ''-''" "\<not> starts_with path ''-''"
    and "ls = lines (from_utf8_lossy bytes)" "sel = filter (\<lambda>l. sublist pattern l) ls" "others = filter (\<lambda>l. \<not> sublist pattern l) ls"
  shows "cmd_grep w lower s [pattern, path] = Some (cr_streams (one_per_line sel) [] (if sel = [] then 1 else 0))
    \<and> cmd_grep w lower s [''-v'', pattern, path] = Some (cr_streams (one_per_line others) [] (if others = [] then 1 else 0))
    \<and> cmd_grep w lower s [''-c'', pattern, path] = Some (cr_streams (show_nat (length sel) @ [CHR 0x0A]) [] (if sel = [] then 1 else 0))
    \<and> cmd_grep w lower s [''-l'', pattern, path] = Some (cr_streams (if sel = [] then [] else path @ [CHR 0x0A]) [] (if sel = [] then 1 else 0))"
proof -
  have chs: "chars ''v'' = [''v'']" "chars ''c'' = [''c'']" "chars ''l'' = [''l'']" by code_simp+
  have arg: "grep_arg ''-v'' g = grep_short ''v'' g" "grep_arg ''-c'' g = grep_short ''c'' g" "grep_arg ''-l'' g = grep_short ''l'' g"
    if "\<not> go_expect_pattern g" for g using that chs by (simp_all add: grep_arg_def starts_with_def dashed_def)
  note grep = cmd_grep_def grep_none_def Let_def grep_arg_operand assms(5,6) grep_one_file [OF assms(1-4)] assms(7-9)
  show ?thesis
    by (intro conjI) (simp_all add: grep arg grep_short_def grep_text_selected grep_text_named)
qed

theorem grep_prints_matching_witness:
  "resolve fx4 0 ''/tmp/a'' = Some 2 \<and> sublist ''ell'' ''hello''
   \<and> cmd_grep sample_world id sample_file_shell [''ell'', ''/tmp/a''] = Some (cr_streams (''hello'' @ [CHR 0x0A]) [] 0)
   \<and> cmd_grep sample_world id sample_file_shell [''-v'', ''ell'', ''/tmp/a''] = Some (cr_streams [] [] 1)"
proof -
  have r: "resolve fx4 0 ''/tmp/a'' = Some 2"
    by (simp add: resolve_def starts_with_def MAX_SYMLINK_DEPTH_def fx_facts bt_get_def parent_or_root_def)
  have n: "\<not> is_dir (n_meta (fnode fx4 2))" "file_bytes 0 (fnode fx4 2) = Some ''hello''"
    by (simp_all add: fx_eval file_bytes_def is_dir_def S_IFMT_def)
  have ls: "lines (from_utf8_lossy ''hello'') = [''hello'']" by code_simp
  have sub: "sublist ''ell'' ''hello''" by (simp add: sublist_def) (intro exI [of _ "''h''"] exI [of _ "''o''"], simp)
  have may: "readable_by (n_meta (fnode fx4 2)) (sh_uid sample_file_shell) (sh_gid sample_file_shell)"
    by (simp add: readable_by_def sample_file_shell_def sample_shell_def)
  show ?thesis
    using grep_prints_matching [where s = sample_file_shell and w = sample_world and path = "''/tmp/a''" and pattern = "''ell''" and i = 2
        and bytes = "''hello''" and lower = id, OF _ _ _ _ _ _ refl refl refl] r n ls sub may sample_files(3,4)
    by (simp add: sample_world_def starts_with_def one_per_line_def)
qed

end
