(* ===== verification/Limiter.thy ===== *)
theory Limiter
  imports Mimic_Prelude
begin

text \<open>
  The connection limiter of \<open>src/network/limiter.rs\<close>. The sequential operations are
  \<open>try_acquire\<close> and \<open>release\<close>. Sessions run concurrently, and each operation has two atomic
  actions (the \<open>AtomicUsize\<close> update and the section under the mutex), so the second half
  models the interleavings: \<open>conn\<close> says how far one connection has come, \<open>limiter_step\<close> is one
  atomic action of one of them, and the invariant relates the counters to the connections.
\<close>

section \<open>The registry\<close>

datatype ip_addr = V4 "32 word" | V6 "128 word"

datatype reject_reason = GlobalLimit | PerIpLimit

fun as_str :: "reject_reason \<Rightarrow> str" where
  "as_str GlobalLimit = ''global_limit''"
| "as_str PerIpLimit = ''per_ip_limit''"

record registry =
  r_per_ip :: "ip_addr \<rightharpoonup> nat"
  r_total :: nat
  r_max_sessions :: nat
  r_per_ip_cap :: nat

definition registry_new :: "nat \<Rightarrow> nat \<Rightarrow> registry" where
  "registry_new max_sessions per_ip =
     \<lparr>r_per_ip = Map.empty, r_total = 0, r_max_sessions = max_sessions, r_per_ip_cap = per_ip\<rparr>"

definition ip_count :: "registry \<Rightarrow> ip_addr \<Rightarrow> nat" where
  "ip_count r ip = (case r_per_ip r ip of Some n \<Rightarrow> n | None \<Rightarrow> 0)"

text \<open>The \<open>fetch_update\<close> on the total: \<open>None\<close> when the global cap is reached.\<close>

definition reserve_slot :: "registry \<Rightarrow> registry option" where
  "reserve_slot r =
     (if r_total r \<ge> r_max_sessions r then None else Some (r\<lparr>r_total := r_total r + 1\<rparr>))"

text \<open>
  The section under the mutex: \<open>entry(ip).or_insert(0)\<close>, then either the count goes up or the
  reserved slot is given back.
\<close>

definition claim_ip :: "registry \<Rightarrow> ip_addr \<Rightarrow> bool \<times> registry" where
  "claim_ip r ip =
     (let r1 = r\<lparr>r_per_ip := (r_per_ip r)(ip \<mapsto> ip_count r ip)\<rparr>
      in if ip_count r ip \<ge> r_per_ip_cap r
         then (False, r1\<lparr>r_total := r_total r1 - 1\<rparr>)
         else (True, r1\<lparr>r_per_ip := (r_per_ip r1)(ip \<mapsto> ip_count r ip + 1)\<rparr>))"

definition try_acquire :: "registry \<Rightarrow> ip_addr \<Rightarrow> (reject_reason + ip_addr) \<times> registry" where
  "try_acquire r ip =
     (case reserve_slot r of
        None \<Rightarrow> (Inl GlobalLimit, r)
      | Some r1 \<Rightarrow>
          (case claim_ip r1 ip of
             (False, r2) \<Rightarrow> (Inl PerIpLimit, r2)
           | (True, r2) \<Rightarrow> (Inr ip, r2)))"

definition active :: "registry \<Rightarrow> nat" where
  "active r = r_total r"

text \<open>\<open>release\<close> runs when a guard is dropped: first the locked decrement, then the total.\<close>

definition release_ip :: "registry \<Rightarrow> ip_addr \<Rightarrow> registry" where
  "release_ip r ip =
     (case r_per_ip r ip of
        Some n \<Rightarrow> r\<lparr>r_per_ip := (if n - 1 = 0 then (r_per_ip r)(ip := None)
                                 else (r_per_ip r)(ip \<mapsto> n - 1))\<rparr>
      | None \<Rightarrow> r)"

definition release_total :: "registry \<Rightarrow> registry" where
  "release_total r = r\<lparr>r_total := r_total r - 1\<rparr>"

definition release :: "registry \<Rightarrow> ip_addr \<Rightarrow> registry" where
  "release r ip = release_total (release_ip r ip)"

section \<open>Interleavings\<close>

datatype conn = Reserved ip_addr | Held ip_addr | Releasing ip_addr

record limiter_sys =
  reg :: registry
  conns :: "conn multiset"

inductive limiter_step :: "limiter_sys \<Rightarrow> limiter_sys \<Rightarrow> bool" where
  reserve: "reserve_slot (reg s) = Some r \<Longrightarrow>
     limiter_step s (s\<lparr>reg := r, conns := add_mset (Reserved ip) (conns s)\<rparr>)"
| reject_global: "reserve_slot (reg s) = None \<Longrightarrow> limiter_step s s"
| claim: "Reserved ip \<in># conns s \<Longrightarrow> claim_ip (reg s) ip = (True, r) \<Longrightarrow>
     limiter_step s (s\<lparr>reg := r, conns := add_mset (Held ip) (conns s - {#Reserved ip#})\<rparr>)"
| reject_ip: "Reserved ip \<in># conns s \<Longrightarrow> claim_ip (reg s) ip = (False, r) \<Longrightarrow>
     limiter_step s (s\<lparr>reg := r, conns := conns s - {#Reserved ip#}\<rparr>)"
| drop_ip: "Held ip \<in># conns s \<Longrightarrow>
     limiter_step s (s\<lparr>reg := release_ip (reg s) ip,
       conns := add_mset (Releasing ip) (conns s - {#Held ip#})\<rparr>)"
| drop_total: "Releasing ip \<in># conns s \<Longrightarrow>
     limiter_step s (s\<lparr>reg := release_total (reg s), conns := conns s - {#Releasing ip#}\<rparr>)"

inductive limiter_run :: "nat \<Rightarrow> nat \<Rightarrow> limiter_sys \<Rightarrow> bool" for mx cap where
  limiter_init: "limiter_run mx cap \<lparr>reg = registry_new mx cap, conns = {#}\<rparr>"
| limiter_next: "limiter_run mx cap s \<Longrightarrow> limiter_step s t \<Longrightarrow> limiter_run mx cap t"

definition limiter_inv :: "nat \<Rightarrow> nat \<Rightarrow> limiter_sys \<Rightarrow> bool" where
  "limiter_inv mx cap s \<longleftrightarrow>
     r_max_sessions (reg s) = mx \<and> r_per_ip_cap (reg s) = cap
     \<and> r_total (reg s) = size (conns s) \<and> r_total (reg s) \<le> mx
     \<and> (\<forall>ip. ip_count (reg s) ip = count (conns s) (Held ip))
     \<and> (\<forall>ip. count (conns s) (Held ip) \<le> cap)
     \<and> (\<forall>ip. r_per_ip (reg s) ip \<noteq> Some 0)"

lemmas limiter_defs = limiter_inv_def ip_count_def reserve_slot_def claim_ip_def release_ip_def
  release_total_def registry_new_def Let_def

lemma size_remove1: "x \<in># M \<Longrightarrow> size (M - {#x#}) = size M - 1 \<and> 0 < size M"
  by (auto simp: size_Diff_singleton nonempty_has_size [symmetric])

lemma claim_ip_True:
  assumes "claim_ip r ip = (True, r')"
  shows "r_total r' = r_total r" "r_max_sessions r' = r_max_sessions r" "r_per_ip_cap r' = r_per_ip_cap r"
    and "ip_count r ip < r_per_ip_cap r"
    and "ip_count r' ip' = ip_count r ip' + (if ip' = ip then 1 else 0)"
    and "r_per_ip r' ip' = Some 0 \<Longrightarrow> r_per_ip r ip' = Some 0"
  using assms by (auto simp: claim_ip_def Let_def ip_count_def split: if_splits)

lemma limiter_step_inv:
  assumes "limiter_step s t" "limiter_inv mx cap s" "0 < cap"
  shows "limiter_inv mx cap t"
  using assms
proof (induction rule: limiter_step.induct)
  case (reserve s r ip)
  then show ?case by (auto simp: limiter_defs split: if_splits)
next
  case (claim ip s r)
  note c = claim_ip_True [OF claim.hyps(2)]
  show ?case
    unfolding limiter_inv_def
  proof (intro conjI allI)
    show "r_per_ip (reg (s\<lparr>reg := r, conns := add_mset (Held ip) (conns s - {#Reserved ip#})\<rparr>)) ip' \<noteq> Some 0"
      for ip' using claim.prems(1) c(6) [of ip'] by (auto simp: limiter_inv_def)
  qed (use claim.prems(1) c(1-5) size_remove1 [OF claim.hyps(1)] in \<open>auto simp: limiter_inv_def\<close>)
next
  case (reject_ip ip s r)
  then have "r_per_ip_cap (reg s) \<le> ip_count (reg s) ip" by (auto simp: claim_ip_def Let_def split: if_splits)
  then have "0 < ip_count (reg s) ip" using reject_ip.prems by (simp only: limiter_inv_def)
  then have "r_per_ip (reg s) ip = Some (ip_count (reg s) ip)"
    by (cases "r_per_ip (reg s) ip") (simp_all add: ip_count_def)
  then have "(r_per_ip (reg s))(ip \<mapsto> ip_count (reg s) ip) = r_per_ip (reg s)" by (simp add: fun_upd_idem)
  then have "r = (reg s)\<lparr>r_total := r_total (reg s) - 1\<rparr>"
    using reject_ip.hyps(2) by (simp add: claim_ip_def Let_def split: if_splits)
  with reject_ip.prems(1) show ?case
    using size_remove1 [OF reject_ip.hyps(1)] by (auto simp: limiter_inv_def ip_count_def)
next
  case (drop_ip ip s)
  then have "count (conns s) (Held ip) > 0" by simp
  with drop_ip obtain n where "r_per_ip (reg s) ip = Some n" "n = count (conns s) (Held ip)"
    by (fastforce simp: limiter_defs split: option.splits)
  moreover have "count (conns s) (Held ip) - Suc 0 \<le> r_per_ip_cap (reg s)"
    using drop_ip.prems(1) by (simp add: limiter_inv_def le_diff_conv le_SucI)
  ultimately show ?case
    using drop_ip size_remove1 [OF drop_ip.hyps(1)] by (auto simp: limiter_defs)
next
  case (drop_total ip s)
  then show ?case using size_remove1 [OF drop_total.hyps(1)] by (auto simp: limiter_defs)
qed

lemma limiter_run_inv:
  assumes "limiter_run mx cap s" "0 < cap"
  shows "limiter_inv mx cap s"
  using assms(1)
proof (induction rule: limiter_run.induct)
  case limiter_init
  show ?case by (simp add: limiter_defs)
qed (use limiter_step_inv assms(2) in blast)

section \<open>Properties\<close>

text \<open>
  C9: However the atomic actions of concurrent connections interleave, no more than
  \<open>max_sessions\<close> connections hold or are reserving a slot, no source address holds more than
  \<open>per_ip\<close>, and the counters never underflow: the total is exactly the number of connections
  in flight and each per-address count is exactly the number of guards that address holds.
\<close>

theorem limiter_caps_hold:
  assumes "limiter_run mx cap s" "0 < cap"
  shows "size (conns s) \<le> mx \<and> active (reg s) = size (conns s)
    \<and> (\<forall>ip. count (conns s) (Held ip) \<le> cap \<and> ip_count (reg s) ip = count (conns s) (Held ip))"
  using limiter_run_inv [OF assms] by (auto simp: limiter_inv_def active_def)

lemma limiter_example:
  "limiter_run 2 1 \<lparr>reg = \<lparr>r_per_ip = [V4 7 \<mapsto> 1], r_total = 1, r_max_sessions = 2, r_per_ip_cap = 1\<rparr>,
     conns = {#Held (V4 7)#}\<rparr>"
proof -
  let ?s0 = "\<lparr>reg = registry_new 2 1, conns = {#}\<rparr>"
  let ?r1 = "\<lparr>r_per_ip = Map.empty, r_total = 1, r_max_sessions = 2, r_per_ip_cap = 1\<rparr>"
  have "limiter_step ?s0 \<lparr>reg = ?r1, conns = {#Reserved (V4 7)#}\<rparr>"
    using limiter_step.reserve [of ?s0 ?r1 "V4 7"] by (simp add: limiter_defs)
  then have "limiter_run 2 1 \<lparr>reg = ?r1, conns = {#Reserved (V4 7)#}\<rparr>"
    using limiter_init limiter_next by blast
  moreover have "limiter_step \<lparr>reg = ?r1, conns = {#Reserved (V4 7)#}\<rparr>
      \<lparr>reg = \<lparr>r_per_ip = [V4 7 \<mapsto> 1], r_total = 1, r_max_sessions = 2, r_per_ip_cap = 1\<rparr>,
       conns = {#Held (V4 7)#}\<rparr>"
    using limiter_step.claim [of "V4 7" "\<lparr>reg = ?r1, conns = {#Reserved (V4 7)#}\<rparr>"] by (simp add: limiter_defs)
  ultimately show ?thesis by (rule limiter_next)
qed

theorem limiter_caps_hold_witness:
  "\<exists>s. limiter_run 2 1 s \<and> count (conns s) (Held (V4 7)) = 1 \<and> size (conns s) \<le> 2"
  using limiter_caps_hold [OF limiter_example] limiter_example by fastforce

text \<open>
  No slot leaks: once every connection is gone the registry is exactly as it was created,
  with a zero total and no entry left in the per-address map.
\<close>

theorem limiter_no_leak:
  assumes "limiter_run mx cap s" "0 < cap" "conns s = {#}"
  shows "reg s = registry_new mx cap"
proof -
  note inv = limiter_run_inv [OF assms(1,2)]
  have "r_per_ip (reg s) ip = None" for ip
  proof (cases "r_per_ip (reg s) ip")
    case (Some n)
    then have "n = 0" "n \<noteq> 0"
      using inv assms(3) by (auto simp: limiter_inv_def ip_count_def dest: spec [of _ ip])
    then show ?thesis by simp
  qed simp
  then show ?thesis using inv assms(3) by (auto simp: limiter_inv_def registry_new_def intro!: registry.equality)
qed

theorem limiter_no_leak_witness:
  "\<exists>s t u. limiter_run 2 1 s \<and> count (conns s) (Held (V4 7)) = 1 \<and> limiter_step s t \<and> limiter_step t u
     \<and> conns u = {#} \<and> reg u = registry_new 2 1"
proof -
  let ?s = "\<lparr>reg = \<lparr>r_per_ip = [V4 7 \<mapsto> 1], r_total = 1, r_max_sessions = 2, r_per_ip_cap = 1\<rparr>,
     conns = {#Held (V4 7)#}\<rparr>"
  let ?t = "?s\<lparr>reg := release_ip (reg ?s) (V4 7), conns := {#Releasing (V4 7)#}\<rparr>"
  let ?u = "?t\<lparr>reg := release_total (reg ?t), conns := {#}\<rparr>"
  have st: "limiter_step ?s ?t" using limiter_step.drop_ip [of "V4 7" ?s] by simp
  have tu: "limiter_step ?t ?u" using limiter_step.drop_total [of "V4 7" ?t] by simp
  have "limiter_run 2 1 ?u" using limiter_example st tu limiter_next by blast
  then have "reg ?u = registry_new 2 1" using limiter_no_leak [of 2 1 ?u] by simp
  then show ?thesis using limiter_example st tu by (intro exI [of _ ?s] exI [of _ ?t] exI [of _ ?u]) simp
qed

text \<open>
  \<open>try_acquire\<close> admits a connection exactly when both caps have room, and reports the right
  reason otherwise (the global cap first). A refused connection changes neither counter, and a
  granted slot followed by the \<open>release\<close> of its guard restores the registry.
\<close>

theorem try_acquire_spec:
  assumes "\<forall>i. r_per_ip r i \<noteq> Some 0" "0 < r_per_ip_cap r"
  shows "fst (try_acquire r ip) =
       (if r_total r \<ge> r_max_sessions r then Inl GlobalLimit
        else if ip_count r ip \<ge> r_per_ip_cap r then Inl PerIpLimit else Inr ip)
    \<and> (case try_acquire r ip of
         (Inl _, r') \<Rightarrow> r' = r
       | (Inr _, r') \<Rightarrow> active r' = active r + 1 \<and> ip_count r' ip = ip_count r ip + 1
            \<and> (\<forall>i. i \<noteq> ip \<longrightarrow> ip_count r' i = ip_count r i) \<and> release r' ip = r)"
proof (cases "r_per_ip r ip")
  case None
  then have "(r_per_ip r)(ip := None) = r_per_ip r" by (simp add: fun_upd_idem)
  then show ?thesis
    using None assms(2) by (auto simp: try_acquire_def limiter_defs release_def active_def)
next
  case (Some n)
  then have "n \<noteq> 0" using assms(1) by metis
  moreover from Some have "(r_per_ip r)(ip \<mapsto> n) = r_per_ip r" by (simp add: fun_upd_idem)
  ultimately show ?thesis
    using Some by (auto simp: try_acquire_def limiter_defs release_def active_def)
qed

theorem try_acquire_spec_witness:
  "fst (try_acquire (registry_new 2 1) (V4 7)) = Inr (V4 7)
   \<and> fst (try_acquire (snd (try_acquire (registry_new 2 1) (V4 7))) (V4 7)) = Inl PerIpLimit"
  using try_acquire_spec [of "registry_new 2 1" "V4 7"]
    try_acquire_spec [of "snd (try_acquire (registry_new 2 1) (V4 7))" "V4 7"]
  by (auto simp: try_acquire_def limiter_defs)

end
