(* ===== verification/Shell_Values.thy ===== *)
theory Shell_Values
  imports Shell_Safety
begin

text \<open>
  Expanded values are data: what a variable holds is split at blanks when it stands unquoted and is
  one word between double quotes, and no byte of it is read as shell syntax.
\<close>

section \<open>Escaped values\<close>

definition value_chars :: "bool \<Rightarrow> rchar \<Rightarrow> rchar list" where
  "value_chars dq c = (if value_escape dq c = [] then [c] else [[CHR 0x5C], c])"

lemma value_rchars_ok: "list_all rchar_ok cs \<Longrightarrow> list_all rchar_ok (concat (map (value_chars dq) cs))"
  by (induction cs) (auto simp: value_chars_def rchar_ok_def ascii_not_continuation)

lemma push_value_chars:
  assumes "list_all rchar_ok cs"
  shows "push_value out (concat cs) dq = out @ concat (concat (map (value_chars dq) cs))"
proof -
  have "value_escape dq c @ c = concat (value_chars dq c)" for c by (simp add: value_chars_def value_escape_def)
  then show ?thesis using assms by (simp add: push_value_def chars_concat map_concat) (induction cs, simp_all)
qed

lemma tokenize_value_quoted:
  "tokenize_chars cur True False True (concat (map (value_chars True) cs) @ rest) = tokenize_chars (cur @ concat cs) True False True rest"
  by (induction cs arbitrary: cur) (auto simp: value_chars_def value_escape_def dq_escapable_def)

section \<open>Words between blanks\<close>

fun blank_split :: "rchar list \<Rightarrow> rchar list list" where
  "blank_split [] = [[]]"
| "blank_split (c # cs) =
     (if is_whitespace c then [] # blank_split cs
      else (c # hd (blank_split cs)) # tl (blank_split cs))"

definition split_whitespace :: "str \<Rightarrow> str list" where
  "split_whitespace v = map concat (filter (\<lambda>cs. cs \<noteq> []) (blank_split (chars v)))"

lemma blank_split_not_Nil: "blank_split cs \<noteq> []"
  by (cases cs) auto

lemma is_whitespace_syntax: "\<not> is_whitespace [CHR 0x5C]" "\<not> is_whitespace [CHR 0x22]" "\<not> is_whitespace [CHR 0x27]"
  by (simp_all add: is_whitespace_def)

lemma tokenize_value_bare:
  "tokenize_chars (concat acc) (acc \<noteq> []) False False (concat (map (value_chars False) cs))
     = map concat (filter (\<lambda>cs. cs \<noteq> []) ((acc @ hd (blank_split cs)) # tl (blank_split cs)))"
proof (induction cs arbitrary: acc)
  case Nil
  show ?case by simp
next
  case (Cons c cs)
  show ?case
  proof (cases "is_whitespace c")
    case True
    then have "value_chars False c = [c]" "c \<noteq> [CHR 0x5C]" "c \<noteq> [CHR 0x22]" "c \<noteq> [CHR 0x27]"
      using is_whitespace_syntax by (auto simp: value_chars_def value_escape_def)
    then show ?thesis using True Cons.IH [of "[]"] blank_split_not_Nil [of cs] by simp
  next
    case False
    have "tokenize_chars (concat acc) (acc \<noteq> []) False False (value_chars False c @ rest)
        = tokenize_chars (concat (acc @ [c])) True False False rest" for rest
      using False by (auto simp: value_chars_def value_escape_def)
    then show ?thesis using False Cons.IH [of "acc @ [c]"] by simp
  qed
qed

section \<open>A named variable\<close>

definition name_byte :: "byte \<Rightarrow> bool" where
  "name_byte b \<longleftrightarrow> is_ascii_alnum b \<or> b = CHR ''_''"

definition shell_name :: "str \<Rightarrow> bool" where
  "shell_name name \<longleftrightarrow> name \<noteq> [] \<and> (is_ascii_alpha (hd name) \<or> hd name = CHR ''_'') \<and> list_all name_byte name"

lemma name_byte_ascii: "name_byte b \<Longrightarrow> u8 b < 128"
  by (auto simp: name_byte_def is_ascii_alnum_def is_ascii_alpha_def is_ascii_digit_def)

lemma name_rchars: "list_all name_byte name \<Longrightarrow> list_all rchar_ok (map (\<lambda>b. [b]) name)"
  by (auto simp: list_all_iff rchar_ok_def ascii_not_continuation name_byte_ascii)

lemma map_snd_char_indices_from: "map snd (char_indices_from i cs) = cs"
  by (induction cs arbitrary: i) simp_all

lemma takeWhile_char_indices:
  "takeWhile (\<lambda>(_, c). P c) (char_indices_from i (cs @ ds)) = char_indices_from i cs
   \<and> dropWhile (\<lambda>(_, c). P c) (char_indices_from i (cs @ ds)) = char_indices_from (i + length (concat cs)) ds"
  if "list_all P cs" "ds = [] \<or> \<not> P (hd ds)"
  using that by (induction cs arbitrary: i) (cases ds; auto simp: add.assoc)+

lemma dollar_value_name:
  assumes "shell_name name" "ds = [] \<or> ds = [[CHR 0x22]]"
  shows "dollar_value w s (char_indices_from i (map (\<lambda>b. [b]) name @ ds))
    = Some (case env_get (sh_env s) name of Some x \<Rightarrow> x | None \<Rightarrow> [], char_indices_from (i + length name) ds)"
proof -
  let ?P = "\<lambda>c. char_alphanumeric (w_unicode w) c \<or> c = ''_''"
  have P: "list_all ?P (map (\<lambda>b. [b]) name)"
    using assms(1) by (auto simp: shell_name_def list_all_iff name_byte_def char_alphanumeric_def)
  have "ds = [] \<or> \<not> ?P (hd ds)"
    using assms(2) by (auto simp: char_alphanumeric_def is_ascii_alnum_def is_ascii_alpha_def is_ascii_digit_def)
  note scan = takeWhile_char_indices [OF P this, of i]
  obtain b bs where b: "name = b # bs" "is_ascii_alpha b \<or> b = CHR ''_''" using assms(1) by (cases name) (auto simp: shell_name_def)
  have "[b] \<noteq> ''?'' \<and> [b] \<noteq> ''$'' \<and> [b] \<noteq> ''#'' \<and> [b] \<noteq> ''0'' \<and> [b] \<noteq> ''*'' \<and> [b] \<noteq> ''@'' \<and> \<not> char_ascii_digit [b] \<and> [b] \<noteq> ''{''
      \<and> (char_alphabetic (w_unicode w) [b] \<or> [b] = ''_'')"
    using b(2) by (auto simp: is_ascii_alpha_def is_ascii_digit_def char_ascii_digit_def char_alphabetic_def)
  then show ?thesis using scan b(1)
    by (simp add: dollar_value_def map_snd_char_indices_from comp_def)
qed

text \<open>A dollar sign before a name is no substitution.\<close>

lemma expand_loop_name:
  assumes "shell_name name" "ds = [] \<or> ds = [[CHR 0x22]]" "line = pre @ CHR ''$'' # name @ post"
  shows "expand_loop w sb ari Words line s False dq out ((length pre, ''$'') # char_indices_from i (map (\<lambda>b. [b]) name @ ds))
    = expand_loop w sb ari Words line s False dq
        (push_value out (case env_get (sh_env s) name of Some x \<Rightarrow> x | None \<Rightarrow> []) dq) (char_indices_from (i + length name) ds)"
proof -
  obtain b bs where b: "name = b # bs" "is_ascii_alpha b \<or> b = CHR ''_''" using assms(1) by (cases name) (auto simp: shell_name_def)
  then have "b \<noteq> CHR ''(''" by (auto simp: is_ascii_alpha_def)
  then have "substitution_at line (length pre) = None"
    using b(1) by (simp add: assms(3) substitution_at_def byte_get_def nth_append)
  then show ?thesis using dollar_value_name [OF assms(1,2), of w s i]
    by (simp add: expand_loop.simps(2) emit_def)
qed

lemma expand_loop_dquote:
  "expand_loop w sb ari Words line s False dq out ((i, [CHR 0x22]) # cs) = expand_loop w sb ari Words line s False (\<not> dq) (out @ [CHR 0x22]) cs"
  by (simp add: expand_loop.simps(2))

lemma chars_name:
  assumes "list_all name_byte name"
  shows "chars (CHR ''$'' # name) = ''$'' # map (\<lambda>b. [b]) name"
    "chars (CHR 0x22 # CHR ''$'' # name @ [CHR 0x22]) = [CHR 0x22] # ''$'' # map (\<lambda>b. [b]) name @ [[CHR 0x22]]"
proof -
  have "concat (map (\<lambda>b. [b]) name) = name" by simp
  then show "chars (CHR ''$'' # name) = ''$'' # map (\<lambda>b. [b]) name"
      "chars (CHR 0x22 # CHR ''$'' # name @ [CHR 0x22]) = [CHR 0x22] # ''$'' # map (\<lambda>b. [b]) name @ [[CHR 0x22]]"
    using chars_concat [of "''$'' # map (\<lambda>b. [b]) name"] name_rchars [OF assms]
      chars_concat [of "[CHR 0x22] # ''$'' # map (\<lambda>b. [b]) name @ [[CHR 0x22]]"]
    by (simp_all add: rchar_ok_def ascii_not_continuation)
qed

lemma expand_at_with: "\<exists>sb ari. expand_at n w d = expand_with w sb ari"
  by (cases n) auto

section \<open>Property\<close>

text \<open>C3: a variable's value is data. For a set variable with any text as value, \<open>$NAME\<close> in a command gives
  the words of the value, split at blanks and at nothing else, and \<open>"$NAME"\<close> gives the value as a single word,
  unchanged: quotes, backslashes, dollar signs, backticks, operators and redirections in the value are
  ordinary characters. An unset variable is no word when bare and an empty word when quoted.\<close>

theorem value_is_data:
  assumes "shell_name name" "v = (case env_get (sh_env s) name of Some x \<Rightarrow> x | None \<Rightarrow> [])" "utf8_valid v"
  shows "parse_line (expand w d) s (CHR ''$'' # name) = Done (split_whitespace v, s)
    \<and> parse_line (expand w d) s (CHR 0x22 # CHR ''$'' # name @ [CHR 0x22]) = Done ([v], s)"
proof -
  have nb: "list_all name_byte name" using assms(1) by (simp add: shell_name_def)
  obtain sb ari where ex: "expand w d = expand_with w sb ari" using expand_at_with unfolding expand_def by blast
  define cs where "cs = chars v"
  have cs: "list_all rchar_ok cs" "v = concat cs" using utf8_valid_chars [OF assms(3)] by (simp_all add: cs_def)
  note pv = push_value_chars [OF cs(1), folded cs(2)]
  have "expand w d s (CHR ''$'' # name) Words = Done (push_value [] v False, s)"
    using expand_loop_name [OF assms(1), of "[]" "CHR ''$'' # name" "[]" "[]" w sb ari s False "[]" 1] assms(2)
    by (simp add: ex expand_with_def char_indices_def chars_name [OF nb] del: chars.simps)
  moreover have "tokenize (push_value [] v False) = split_whitespace v"
    using tokenize_value_bare [of "[]" cs] blank_split_not_Nil [of cs]
    by (simp add: tokenize_def pv chars_concat [OF value_rchars_ok [OF cs(1)]] split_whitespace_def cs_def [symmetric])
  moreover have "expand w d s (CHR 0x22 # CHR ''$'' # name @ [CHR 0x22]) Words = Done (push_value [CHR 0x22] v True @ [CHR 0x22], s)"
    using expand_loop_name [OF assms(1), of "[[CHR 0x22]]" "CHR 0x22 # CHR ''$'' # name @ [CHR 0x22]" "[CHR 0x22]" "[CHR 0x22]"
        w sb ari s True "[CHR 0x22]" 2] assms(2)
    by (simp add: ex expand_with_def char_indices_def chars_name [OF nb] expand_loop_dquote numeral_2_eq_2 del: chars.simps)
  moreover have "tokenize (push_value [CHR 0x22] v True @ [CHR 0x22]) = [v]"
  proof -
    let ?cs = "[CHR 0x22] # concat (map (value_chars True) cs) @ [[CHR 0x22]]"
    have "list_all rchar_ok ?cs" using value_rchars_ok [OF cs(1)] by (simp add: rchar_ok_def ascii_not_continuation)
    then have "chars (push_value [CHR 0x22] v True @ [CHR 0x22]) = ?cs"
      using chars_concat [of ?cs] by (simp add: pv)
    then show ?thesis using tokenize_value_quoted [of "[]" cs "[[CHR 0x22]]"] cs(2) by (simp add: tokenize_def)
  qed
  ultimately show ?thesis by (simp add: parse_line_def)
qed

theorem value_is_data_witness:
  "\<exists>s. env_get (sh_env s) ''X'' = Some ''a; $(b) > c'' \<and> (\<forall>w d.
     parse_line (expand w d) s ''$X'' = Done ([''a;'', ''$(b)'', ''>'', ''c''], s)
     \<and> parse_line (expand w d) s (CHR 0x22 # ''$X'' @ [CHR 0x22]) = Done ([''a; $(b) > c''], s))"
proof -
  let ?s = "(shell_new 0 (vfs_new 0) ''root'' ''box'' persona_sample)\<lparr>sh_env := [(''X'', ''a; $(b) > c'')]\<rparr>"
  have name: "shell_name ''X''" by (simp add: shell_name_def name_byte_def is_ascii_alnum_def is_ascii_alpha_def)
  have get: "env_get (sh_env ?s) ''X'' = Some ''a; $(b) > c''" by (simp add: env_get_def bt_get_def)
  have "utf8_valid ''a; $(b) > c''" by (simp add: utf8_valid.simps utf8_step_def byte_at_def)
  moreover have "split_whitespace ''a; $(b) > c'' = [''a;'', ''$(b)'', ''>'', ''c'']" by code_simp
  ultimately show ?thesis using value_is_data [OF name, of "''a; $(b) > c''" ?s] get by (intro exI [of _ ?s]) simp
qed

end
