(* ===== verification/Spec2Isabelle.thy ===== *)
theory Spec2Isabelle
  imports Ssh_Input Shell_Panics Sftp_Transfer Fs_Session Tar_Props Read_Secrecy Walk_Props Grep_Props Vfs_Props Limiter Arith Clock Shell_Parser_Props Line_Editor_Zipper Completion Scp_Props
    Persona Commands Shell_Session Shell_Props Shell_Values
begin

text \<open>
  MIMIC is an SSH honeypot: it accepts logins, gives every client an emulated Linux shell over an
  in-memory filesystem, and logs what the client does. Nothing a client sends reaches the host: every
  command is a function on the session's own state. What has to hold is therefore that this state
  stays consistent and bounded whatever bytes arrive, that text is data where the shell says it is
  data, and that what is uploaded, typed or run is what the log and the commands get to see.

  \<^bold>\<open>The parts and how they meet.\<close> A connection is admitted by the limiter
  (\<open>src/network/limiter.rs\<close>) and served by a handler (\<open>src/network/ssh.rs\<close>) under a validated
  configuration (\<open>src/config.rs\<close>); the handler owns the session's shell, the transfers and the held display,
  writes events (\<open>src/logging/event.rs\<close>) and keeps uploads in a quarantine directory. Its keystrokes go through the line editor
  (\<open>src/shell/line.rs\<close>, with Tab answered by \<open>src/shell/complete.rs\<close>), which submits lines to
  the session (\<open>src/shell/mod.rs\<close>). The session splits a line with the parser
  (\<open>src/shell/parser.rs\<close>), expands variables (\<open>src/shell/env.rs\<close>), substitutions and arithmetic
  (\<open>src/shell/arith.rs\<close>), opens redirections in the filesystem (\<open>src/vfs\<close>) and hands the words
  to the command registry (\<open>src/commands/mod.rs\<close>). A file sent by \<open>scp\<close> is received by the state
  machine of \<open>src/network/scp.rs\<close>; the \<open>sftp\<close> subsystem (\<open>src/network/sftp.rs\<close>) serves the
  session's filesystem and takes uploads. The clock (\<open>src/clock.rs\<close>) and the persona
  (\<open>src/persona.rs\<close>) supply the facts the emulated machine shows.

  \<^bold>\<open>Theories.\<close>
  \<^item> \<open>Mimic_Prelude\<close>, \<open>Utf8_Chars\<close>: bytes, strings as byte lists, characters as their byte sequences,
    UTF-8 validity and lossy decoding, trimming, splitting, number formatting and parsing, sorted
    association lists for Rust's ordered maps; the lemmas every component shares.
  \<^item> \<open>Vfs_Nodes\<close> (\<open>vfs/nodes.rs\<close>), \<open>Vfs\<close> (\<open>vfs/mod.rs\<close>): the arena of nodes as a record, one
    definition per operation of \<open>Vfs\<close>. \<open>Vfs_Wf\<close>, \<open>Vfs_Ops\<close>, \<open>Vfs_Paths\<close>: the invariant, that every
    operation keeps it, and what a path resolves to. \<open>Vfs_Props\<close>: reachable filesystems are trees within
    the node, byte and depth caps; \<open>rename\<close> and \<open>deep_copy\<close> are safe; \<open>path_of\<close> and \<open>resolve\<close> are
    inverse; lookups never leave the linked tree; the worklist of \<open>height_of\<close> ends with the height.
    \<open>Vfs_Types\<close>: the mode of a node tells its kind. \<open>Vfs_Descend\<close>: descents that change attributes, as
    the locales \<open>descent\<close> and \<open>tree_walk\<close>, interpreted for \<open>chmod -R\<close> and \<open>chown -R\<close>.
  \<^item> \<open>Limiter\<close>: the two counters as steps of an interleaving relation; the caps hold and no slot leaks.
  \<^item> \<open>Env\<close>, \<open>Arith\<close>, \<open>Clock\<close>, \<open>Persona\<close>: the bounded environment; the arithmetic parser against an
    expression tree on wrapping 64-bit words; the civil calendar, \<open>strftime\<close> and the anchored timeline;
    the seeded generator and the facts drawn from it.
  \<^item> \<open>Shell_Parser\<close>, \<open>Shell_Parser_Props\<close>: the splitters of a line as scans over byte indices sharing the
    lexer \<open>lexeme_at\<close>; the locale \<open>scanner\<close> states what a scan does on bytes that are no syntax and
    is interpreted for each splitter.
  \<^item> \<open>Line_Editor\<close>, \<open>Line_Editor_Props\<close>, \<open>Line_Editor_Zipper\<close>: the editor and its escape-sequence
    state machine; its invariant for arbitrary input bytes; that it refines a zipper of characters.
    \<open>Completion\<close>: command and path completion.
  \<^item> \<open>Scp\<close>, \<open>Scp_Props\<close>: the receiving side of the SCP protocol; safety for arbitrary bytes and correct
    reception of a well-formed transfer in packets of any size. SHA-256 is a library, taken as an
    argument with the one law that feeding it in pieces is feeding it whole.
  \<^item> \<open>Listing\<close>: the columns of a directory listing (\<open>commands/fs.rs\<close>), whose date agrees with \<open>strftime\<close>.
    \<open>Sftp_Wire\<close>, \<open>Sftp\<close>: the SFTP encoders and decoders, paths, the handle table, one definition per
    request and the loop that cuts the channel's bytes into packets. \<open>Sftp_Props\<close>: decoding inverts
    encoding, every request is answered under its identifier, the shell stays well-formed, the buffers
    stay within the budget. \<open>Sftp_Transfer\<close>: bursts of requests, whole uploads, paths.
  \<^item> \<open>Shell_State\<close>, \<open>Commands\<close>, \<open>Shell\<close>: the session record with every field of \<open>Shell\<close>, the registry and
    dispatch, and every operation of \<open>shell/mod.rs\<close>. A panic of the source (a slice off a character
    boundary) is the outcome \<open>Panicked\<close>. \<open>Shell_Safety\<close>: the locale \<open>session_relation\<close> carries a
    relation between the session before and after through every operation; it is interpreted with
    equality of the nesting level and with the session invariant. \<open>Shell_Session\<close>: whole sessions as an
    inductive predicate. \<open>Shell_Props\<close>, \<open>Shell_Values\<close>: what single lines do. \<open>Shell_Panics\<close>: ASCII lines
    never panic, and a family of other lines that do.
  \<^item> \<open>Fs_Commands\<close>, \<open>Tar\<close> (\<open>commands/fs.rs\<close>): every file command that changes the session, with its option
    parsing, diagnostics and exit status, and the ustar format. \<open>Session_Keeps\<close>, \<open>Fs_Commands_Props\<close>: each
    command returns, keeps the session well-formed and reports what it could not do; the loops over
    operands share the locale \<open>operand_loop\<close>. \<open>Tar_Props\<close>: an archive reads back as it was written.
    \<open>Tar_Confined\<close>: extraction stays below the working directory. \<open>Fs_Session\<close>: the registry leads to
    these commands, so whole sessions stay within their bounds with only the other commands assumed to.
  \<^item> \<open>Fs_Read\<close>, \<open>Fs_List\<close>, \<open>Grep\<close>, \<open>Glob\<close> (\<open>commands/fs.rs\<close>): the commands that only read: \<open>cat\<close>, \<open>head\<close>,
    \<open>tail\<close>, \<open>wc\<close>; \<open>ls\<close>, \<open>stat\<close>, \<open>du\<close>, \<open>find\<close>; the literal search of \<open>grep\<close>; the wildcard matcher, shown
    equivalent to the recursive definition of its language. \<open>Walk_Props\<close>: \<open>du\<close> and \<open>find\<close> visit every node
    of a subtree once. \<open>Grep_Props\<close>: \<open>grep\<close> prints exactly the matching lines. \<open>Read_Secrecy\<close>: no
    command that prints contents depends on files the user may not read.
  \<^item> \<open>Config\<close> (\<open>config.rs\<close>): the configuration, its defaults and its checks. \<open>Events\<close> (\<open>logging/event.rs\<close>): every
    event with its fields; no text of a client reaches the log with control characters. \<open>Quarantine\<close>
    (\<open>network/ssh.rs\<close>): the content-addressed store, with a disk that can fail at every call.
  \<^item> \<open>Ssh\<close> (\<open>network/ssh.rs\<close>): the connection handler as a record with every field of \<open>MimicHandler\<close>, and one
    definition per call of the library on it and per helper; what it sends and logs is appended to two
    lists of the record. \<open>Ssh_Props\<close>: the handler's invariant and that every request keeps it and returns,
    from the lemmas of the shell, the editor, the two transfer protocols and the store. \<open>Ssh_Connection\<close>: connections as an
    inductive relation over arbitrary requests, interleaved with other connections' uploads; logins and
    one-shot commands. \<open>Ssh_Input\<close>: from the bytes of a channel to the lines the shell is given, without a terminal
    (lines across packets) and on one (keystrokes through the editor), with what is sent and logged.
  \<^item> This theory brings them together.

  \<^bold>\<open>Correspondence.\<close> Definitions keep the names of the source where the logic allows; a struct is a
  record, an enum a datatype, \<open>&mut self\<close> a state passed in and returned, \<open>Option\<close> and \<open>Result\<close> are
  option and sum values. Strings are byte lists, so byte offsets, caps and character boundaries mean
  what they mean in Rust. The wall clock, the Unicode tables beyond ASCII and the SHA-256 digest are
  arguments. What a request of a connection finds around it (the time, the commands, the digest, the
  filesystem image of a new session, the names in the log and the disk's answers) is the record \<open>server\<close>, which may differ
  from one request to the next. The functions behind the command names are the record \<open>handlers\<close>, arguments of
  \<open>dispatch\<close>; those registered as readers get no session to return, as in the source.

  \<^bold>\<open>Bounds and fuel.\<close> Loops that shrink their input are total functions with a measure. \<open>depth_of\<close>
  and \<open>path_of\<close> carry the bound of the source. \<open>height_of\<close> has none in the source and is a partial
  function, proved to return on every reachable filesystem. Expansion and execution call each
  other through \<open>expand_at n\<close>; each level of substitution or arithmetic raises the nesting level, which the
  source stops at \<open>MAX_NESTED_COMMANDS\<close> (16), so 16 levels of fuel suffice: \<open>lines_return\<close> proves that
  no line, prompt or here-document runs out of it when the commands restore the nesting level. The outcome
  \<open>Panicked\<close> remains possible, though not for ASCII text.
  Recursive descents (\<open>chmod -R\<close>, \<open>chown -R\<close>, \<open>tar\<close>, \<open>du\<close>, \<open>find\<close>, \<open>grep -r\<close>) have as much fuel as the arena has nodes, which is
  proved to be enough. Commands that run a nested shell (\<open>sh -c\<close>) are inside the dispatcher argument.

  \<^bold>\<open>Not modelled.\<close> The bodies of the commands outside \<open>commands/fs.rs\<close> (\<open>text.rs\<close>, \<open>system.rs\<close>, \<open>admin.rs\<close>,
  \<open>net.rs\<close>, \<open>pkg.rs\<close>) except the helpers the session calls; the static
  filesystem image (\<open>vfs/snapshot.rs\<close>) except the lists of installed names the dispatcher reads; of
  \<open>network/ssh.rs\<close> the start-up, the accept loop, the timers and the jitter of replies, around the russh library;
  host keys, parsing of TOML and the writing of log files, which are formats and I/O of libraries.
\<close>

end
